(* ===== verification/Prelude.thy ===== *)
theory Prelude
  imports Main "HOL-Library.Word" "HOL-Library.Sublist"
begin

text \<open>
  The vocabulary every component of the development shares.

  \<^item> Go's \<open>string\<close> and \<open>[]byte\<close> are both sequences of bytes; the model uses
    HOL's \<open>string\<close> (a list of 8-bit characters) for text and \<open>byte list\<close> for
    tunnel payloads, so that \<open>length\<close> is Go's \<open>len\<close>.
  \<^item> \<open>time.Time\<close> and \<open>time.Duration\<close> are integers, in nanoseconds. The
    zero \<open>time.Time\<close> is \<open>0\<close>, which is what \<open>IsZero\<close> tests. No instant the
    code handles is far enough from the epoch for \<open>Sub\<close> to saturate.
  \<^item> A Go \<open>map\<close> that the code only looks up is a HOL map; one it iterates over is
    an association list with distinct keys, whose order stands for the
    unspecified iteration order of Go (theorems hold for every order).
  \<^item> An error return is the left injection of a sum.

  The named collections gather the facts that the proofs of a group of
  components share: \<open>go_defs\<close> unfolds small definitions of the model,
  \<open>queue_simps\<close> holds the field equations of the tunnel queues and
  \<open>acct_simps\<close> those of the byte accounting.
\<close>

named_theorems go_defs \<open>small definitions of the model that proofs unfold\<close>
named_theorems queue_simps \<open>effect of a queue operation on the fields of the queue\<close>
named_theorems acct_simps \<open>effect of an operation on the byte account\<close>

unbundle bit_operations_syntax

type_synonym byte = "8 word"
type_synonym gotime = int
type_synonym duration = int

abbreviation Nanosecond :: duration where "Nanosecond \<equiv> 1"
abbreviation Millisecond :: duration where "Millisecond \<equiv> 1000000"
abbreviation Second :: duration where "Second \<equiv> 1000000000"
abbreviation Minute :: duration where "Minute \<equiv> 60 * Second"
abbreviation Hour :: duration where "Hour \<equiv> 60 * Minute"

definition IsZero :: "gotime \<Rightarrow> bool" where
  [go_defs]: "IsZero t \<longleftrightarrow> t = 0"

text \<open>Go's \<open>slices.DeleteFunc\<close>: keep what the predicate does not select, in order.\<close>

definition DeleteFunc :: "('a \<Rightarrow> bool) \<Rightarrow> 'a list \<Rightarrow> 'a list" where
  [go_defs]: "DeleteFunc P xs = filter (\<lambda>x. \<not> P x) xs"

lemma set_DeleteFunc [simp]: "set (DeleteFunc P xs) = {x \<in> set xs. \<not> P x}"
  by (simp add: DeleteFunc_def)

lemma length_DeleteFunc_le [simp]: "length (DeleteFunc P xs) \<le> length xs"
  by (simp add: DeleteFunc_def)

lemma distinct_map_DeleteFunc [simp]: "distinct (map f xs) \<Longrightarrow> distinct (map f (DeleteFunc P xs))"
  by (simp add: DeleteFunc_def distinct_map_filter)

subsection \<open>Association lists: Go maps whose iteration order is left open\<close>

text \<open>
  \<open>al_put\<close> is \<open>m[k] = v\<close>: an existing key keeps its place in the iteration order,
  a new one comes last. \<open>al_del\<close> is \<open>delete(m, k)\<close>.
\<close>

fun al_put :: "'k \<Rightarrow> 'v \<Rightarrow> ('k \<times> 'v) list \<Rightarrow> ('k \<times> 'v) list" where
  "al_put k v [] = [(k, v)]"
| "al_put k v ((k', v') # xs) = (if k' = k then (k, v) # xs else (k', v') # al_put k v xs)"

definition al_del :: "'k \<Rightarrow> ('k \<times> 'v) list \<Rightarrow> ('k \<times> 'v) list" where
  "al_del k xs = filter (\<lambda>(k', _). k' \<noteq> k) xs"

lemma map_of_al_put [simp]: "map_of (al_put k v xs) = (map_of xs)(k \<mapsto> v)"
  by (induction k v xs rule: al_put.induct) auto

lemma map_of_al_del [simp]: "map_of (al_del k xs) = (map_of xs)(k := None)"
proof (rule ext)
  fix j show "map_of (al_del k xs) j = ((map_of xs)(k := None)) j"
    by (induction xs) (auto simp: al_del_def)
qed

lemma keys_al_put [simp]: "fst ` set (al_put k v xs) = insert k (fst ` set xs)"
  by (induction k v xs rule: al_put.induct) auto

lemma distinct_al_put [simp]:
  "distinct (map fst xs) \<Longrightarrow> distinct (map fst (al_put k v xs))"
proof (induction k v xs rule: al_put.induct)
  case (2 k v k' v' xs)
  then show ?case using keys_al_put [of k v xs] by (auto simp del: keys_al_put)
qed simp

lemma distinct_al_del [simp]: "distinct (map fst xs) \<Longrightarrow> distinct (map fst (al_del k xs))"
  by (simp add: al_del_def distinct_map_filter)

lemma length_al_put:
  "length (al_put k v xs) = (if k \<in> fst ` set xs then length xs else Suc (length xs))"
  by (induction k v xs rule: al_put.induct) auto

lemma length_al_del_le: "length (al_del k xs) \<le> length xs"
  by (simp add: al_del_def)

lemma set_al_del: "set (al_del k xs) = {p \<in> set xs. fst p \<noteq> k}"
  by (auto simp: al_del_def)

lemma keys_al_del [simp]: "fst ` set (al_del k xs) = fst ` set xs - {k}"
  by (force simp: al_del_def)

lemma length_al_del:
  assumes "distinct (map fst xs)" and "k \<in> fst ` set xs"
  shows "Suc (length (al_del k xs)) = length xs"
  using assms
proof (induction xs)
  case (Cons p xs)
  have *: "al_del k (p # xs) = (if fst p = k then al_del k xs else p # al_del k xs)"
    by (auto simp: al_del_def)
  have **: "k \<notin> fst ` set xs \<Longrightarrow> al_del k xs = xs"
    by (force simp: al_del_def filter_id_conv)
  show ?case
    using Cons * ** by (auto simp: image_iff)
qed simp

lemma al_put_fresh: "k \<notin> fst ` set m \<Longrightarrow> al_put k v m = m @ [(k, v)]"
  by (induction k v m rule: al_put.induct) auto

lemma set_al_put_sub: "p \<in> set (al_put k v xs) \<Longrightarrow> p = (k, v) \<or> p \<in> set xs"
  by (induction k v xs rule: al_put.induct) (auto split: if_splits)

lemma map_of_SomeD_mem: "map_of xs k = Some v \<Longrightarrow> (k, v) \<in> set xs"
  by (rule map_of_SomeD)

lemma map_of_eq_None: "map_of xs k = None \<longleftrightarrow> k \<notin> fst ` set xs"
  by (rule map_of_eq_None_iff)

lemma length_filter_mono:
  "(\<And>x. x \<in> set xs \<Longrightarrow> P x \<Longrightarrow> Q x) \<Longrightarrow> length (filter P xs) \<le> length (filter Q xs)"
  by (induction xs) auto

subsection \<open>Totals of lengths\<close>

definition total_len :: "'a list list \<Rightarrow> nat" where
  "total_len xss = length (concat xss)"

lemma total_len_simps [simp]:
  "total_len [] = 0"
  "total_len (xs # xss) = length xs + total_len xss"
  "total_len (xss @ yss) = total_len xss + total_len yss"
  by (auto simp: total_len_def)

end
