(* ===== verification/Residency.thy ===== *)
theory Residency
  imports Prelude
begin

text \<open>
  \<open>src/internal/relay/resident.go\<close>: the account every direction of every HTTP
  session draws on. A write is counted before its body is read and until its
  bytes leave, at the relay's total and at the dialing namespace's share.

  A share is named by its namespace. In the code a queue holds a pointer to it;
  \<open>join\<close>, the reference count and \<open>leave\<close> keep the pointer and the entry of the
  map together for as long as a queue charges it, which the invariant of the
  theory Accounting shows. \<open>room\<close> is true while a channel is parked for waiting
  writers; closing it is setting it to false. The log line of \<open>report\<close> is output
  only; its reset of the counters is \<open>report\<close> here.
\<close>

definition maxResidentPerDirection :: int where [go_defs]: "maxResidentPerDirection = 32 * 2 ^ 20"
definition maxResidentPerNamespace :: int where
  [go_defs]: "maxResidentPerNamespace = 2 * maxResidentPerDirection"
definition maxResidentTotal :: int where [go_defs]: "maxResidentTotal = 256 * 2 ^ 20"
definition maxUploadBytes :: int where [go_defs]: "maxUploadBytes = 2 ^ 20"
definition residencyReportEvery :: duration where [go_defs]: "residencyReportEvery = 10 * Minute"

record nsShare =
  sh_used :: int
  refs :: nat

record residency =
  limit_of :: int
  used :: int
  nsLimit :: int
  shares :: "(string \<times> nsShare) list"
  pool_room :: bool
  peak :: int
  waitsTotal :: nat
  waitsNS :: nat
  reported :: gotime

definition newResidency :: "gotime \<Rightarrow> residency" where
  "newResidency now =
     \<lparr>limit_of = maxResidentTotal, used = 0, nsLimit = maxResidentPerNamespace, shares = [],
      pool_room = False, peak = 0, waitsTotal = 0, waitsNS = 0, reported = now\<rparr>"

definition join :: "residency \<Rightarrow> string \<Rightarrow> residency" where
  "join p ns =
     (let sh = (case map_of (shares p) ns of None \<Rightarrow> \<lparr>sh_used = 0, refs = 0\<rparr> | Some sh \<Rightarrow> sh)
      in p\<lparr>shares := al_put ns (sh\<lparr>refs := refs sh + 1\<rparr>) (shares p)\<rparr>)"

definition leave :: "residency \<Rightarrow> string option \<Rightarrow> residency" where
  "leave p s =
     (case s of None \<Rightarrow> p
      | Some ns \<Rightarrow>
        (case map_of (shares p) ns of None \<Rightarrow> p
         | Some sh \<Rightarrow>
             if refs sh - 1 = 0 then p\<lparr>shares := al_del ns (shares p)\<rparr>
             else p\<lparr>shares := al_put ns (sh\<lparr>refs := refs sh - 1\<rparr>) (shares p)\<rparr>))"

definition share_used :: "residency \<Rightarrow> string \<Rightarrow> int" where
  "share_used p ns = (case map_of (shares p) ns of None \<Rightarrow> 0 | Some sh \<Rightarrow> sh_used sh)"

definition share_refs :: "residency \<Rightarrow> string \<Rightarrow> nat" where
  "share_refs p ns = (case map_of (shares p) ns of None \<Rightarrow> 0 | Some sh \<Rightarrow> refs sh)"

definition add_share :: "int \<Rightarrow> string option \<Rightarrow> residency \<Rightarrow> residency" where
  "add_share n s p =
     (case s of None \<Rightarrow> p
      | Some ns \<Rightarrow>
        (case map_of (shares p) ns of None \<Rightarrow> p
         | Some sh \<Rightarrow> p\<lparr>shares := al_put ns (sh\<lparr>sh_used := sh_used sh + n\<rparr>) (shares p)\<rparr>))"

text \<open>\<open>Inl nsFull\<close>: no room, and whether it was the namespace's share alone that had none.\<close>

definition reserve_pool ::
  "residency \<Rightarrow> string option \<Rightarrow> int \<Rightarrow> int \<Rightarrow> residency \<times> (bool + unit)" where
  "reserve_pool p s n spare =
     (let overTotal = used p + n > limit_of p - spare;
          overNS = (case s of None \<Rightarrow> False | Some ns \<Rightarrow> share_used p ns + n > nsLimit p - spare)
      in if overTotal \<or> overNS then (p\<lparr>pool_room := True\<rparr>, Inl (\<not> overTotal))
         else (add_share n s (p\<lparr>used := used p + n, peak := max (peak p) (used p + n)\<rparr>), Inr ()))"

definition noteWait :: "residency \<Rightarrow> bool \<Rightarrow> residency" where
  "noteWait p nsFull =
     (if nsFull then p\<lparr>waitsNS := waitsNS p + 1\<rparr> else p\<lparr>waitsTotal := waitsTotal p + 1\<rparr>)"

definition release_pool :: "residency \<Rightarrow> string option \<Rightarrow> int \<Rightarrow> residency" where
  "release_pool p s n =
     (if n = 0 then p
      else (add_share (- n) s (p\<lparr>used := used p - n\<rparr>))\<lparr>pool_room := False\<rparr>)"

definition report :: "residency \<Rightarrow> gotime \<Rightarrow> residency" where
  "report p now =
     (if now - reported p < residencyReportEvery
         \<or> (peak p = 0 \<and> waitsTotal p = 0 \<and> waitsNS p = 0) then p
      else p\<lparr>peak := used p, waitsTotal := 0, waitsNS := 0, reported := now\<rparr>)"

subsection \<open>What each operation does to the account\<close>

lemma add_share_fields [acct_simps]:
  "used (add_share n s p) = used p"
  "limit_of (add_share n s p) = limit_of p"
  "nsLimit (add_share n s p) = nsLimit p"
  "pool_room (add_share n s p) = pool_room p"
  "peak (add_share n s p) = peak p"
  by (auto simp: add_share_def split: option.splits)

lemma share_used_add_share [acct_simps]:
  "share_used (add_share n s p) ns =
     share_used p ns + (if s = Some ns \<and> ns \<in> dom (map_of (shares p)) then n else 0)"
  by (auto simp: add_share_def share_used_def dom_def split: option.splits)

lemma share_refs_add_share [acct_simps]: "share_refs (add_share n s p) ns = share_refs p ns"
  by (auto simp: add_share_def share_refs_def split: option.splits)

lemma dom_add_share [acct_simps]:
  "dom (map_of (shares (add_share n s p))) = dom (map_of (shares p))"
  by (auto simp: add_share_def split: option.splits if_splits)

lemma share_of_same_shares:
  "shares p = shares p' \<Longrightarrow> share_used p ns = share_used p' ns"
  "shares p = shares p' \<Longrightarrow> share_refs p ns = share_refs p' ns"
  by (simp_all add: share_used_def share_refs_def)

lemma share_fields [simp]:
  "share_used (p\<lparr>used := u\<rparr>) ns = share_used p ns"
  "share_used (p\<lparr>pool_room := r\<rparr>) ns = share_used p ns"
  "share_used (p\<lparr>peak := k\<rparr>) ns = share_used p ns"
  "share_used (p\<lparr>waitsTotal := w\<rparr>) ns = share_used p ns"
  "share_used (p\<lparr>waitsNS := w\<rparr>) ns = share_used p ns"
  "share_refs (p\<lparr>used := u\<rparr>) ns = share_refs p ns"
  "share_refs (p\<lparr>pool_room := r\<rparr>) ns = share_refs p ns"
  "share_refs (p\<lparr>peak := k\<rparr>) ns = share_refs p ns"
  "share_refs (p\<lparr>waitsTotal := w\<rparr>) ns = share_refs p ns"
  "share_refs (p\<lparr>waitsNS := w\<rparr>) ns = share_refs p ns"
  by (simp_all add: share_used_def share_refs_def)

lemma share_refs_pos_dom: "0 < share_refs p ns \<Longrightarrow> ns \<in> dom (map_of (shares p))"
  by (auto simp: share_refs_def split: option.splits)

lemma join_fields [acct_simps]:
  "used (join p ns) = used p" "limit_of (join p ns) = limit_of p" "nsLimit (join p ns) = nsLimit p"
  "share_used (join p ns) m = share_used p m"
  "share_refs (join p ns) m = share_refs p m + (if m = ns then 1 else 0)"
  by (auto simp: join_def share_used_def share_refs_def Let_def split: option.splits)

lemma leave_fields [acct_simps]:
  "used (leave p s) = used p" "limit_of (leave p s) = limit_of p" "nsLimit (leave p s) = nsLimit p"
  "share_refs (leave p s) m = share_refs p m - (if s = Some m then 1 else 0)"
  by (auto simp: leave_def share_refs_def split: option.splits)

lemma share_used_leave:
  "share_used (leave p s) m =
     (if s = Some m \<and> share_refs p m \<le> 1 then 0 else share_used p m)"
  by (auto simp: leave_def share_used_def share_refs_def split: option.splits)

lemma reserve_pool_fields [acct_simps]:
  "limit_of (fst (reserve_pool p s n spare)) = limit_of p"
  "nsLimit (fst (reserve_pool p s n spare)) = nsLimit p"
  "share_refs (fst (reserve_pool p s n spare)) m = share_refs p m"
  by (auto simp: reserve_pool_def Let_def acct_simps)

lemma reserve_pool_used:
  assumes "reserve_pool p s n spare = (p', r)"
  shows "used p' = used p + (if r = Inr () then n else 0)"
    and "\<And>ns. (s = Some ns \<Longrightarrow> 0 < share_refs p ns) \<Longrightarrow>
           share_used p' ns = share_used p ns + (if r = Inr () \<and> s = Some ns then n else 0)"
    and "r = Inr () \<Longrightarrow> used p' \<le> limit_of p - spare"
    and "r = Inr () \<Longrightarrow> s = Some ns \<Longrightarrow> share_used p ns + n \<le> nsLimit p - spare"
  using assms
  by (auto simp: reserve_pool_def Let_def acct_simps split: if_splits option.splits
      dest: share_refs_pos_dom)

lemma release_pool_fields [acct_simps]:
  "used (release_pool p s n) = used p - n"
  "limit_of (release_pool p s n) = limit_of p"
  "nsLimit (release_pool p s n) = nsLimit p"
  "share_refs (release_pool p s n) m = share_refs p m"
  by (auto simp: release_pool_def acct_simps)

lemma share_used_release_pool:
  "(s = Some m \<Longrightarrow> 0 < share_refs p m) \<Longrightarrow>
   share_used (release_pool p s n) m = share_used p m - (if s = Some m then n else 0)"
  by (auto simp: release_pool_def acct_simps dest: share_refs_pos_dom)

lemma noteWait_fields [acct_simps]:
  "used (noteWait p b) = used p" "limit_of (noteWait p b) = limit_of p"
  "nsLimit (noteWait p b) = nsLimit p" "share_used (noteWait p b) m = share_used p m"
  "share_refs (noteWait p b) m = share_refs p m" "pool_room (noteWait p b) = pool_room p"
  by (auto simp: noteWait_def)

lemma report_fields [acct_simps]:
  "used (report p now) = used p" "limit_of (report p now) = limit_of p"
  "nsLimit (report p now) = nsLimit p" "share_used (report p now) m = share_used p m"
  "share_refs (report p now) m = share_refs p m"
  by (auto simp: report_def share_used_def share_refs_def)

text \<open>A writer that was told to wait is woken by the next release.\<close>

lemma reserve_pool_parks: "reserve_pool p s n spare = (p', Inl b) \<Longrightarrow> pool_room p'"
  by (auto simp: reserve_pool_def Let_def split: if_splits)

lemma release_pool_wakes: "n \<noteq> 0 \<Longrightarrow> \<not> pool_room (release_pool p s n)"
  by (simp add: release_pool_def)

end
