(* ===== verification/SideQueue.thy ===== *)
theory SideQueue
  imports Residency
begin

text \<open>
  \<open>src/internal/relay/http.go\<close>: \<open>sideQueue\<close>, one direction of a relayed session.
  Every critical section of the code is one function here, on the queue and the
  relay's account it draws on; taking the queue's turn is merged with the
  section that follows it. What a poll holds in its hands between two sections
  (the local variables of \<open>drainUpTo\<close>) is the record \<open>drain\<close>, so that another
  request may run between any two of its steps.

  The channel \<open>done\<close> is \<open>q_closed\<close>, \<open>turn\<close> is whether the turn is taken, \<open>room\<close>
  whether a channel is parked for waiting writers. A Go slice that is nil or
  empty is the empty list. Sequence numbers are unsigned 64-bit in the code and
  naturals here: \<open>seqNext\<close> and \<open>seq\<close> grow by one per chunk, and the numbers a
  request brings are only compared with them.
\<close>

definition queueChunks :: int where [go_defs]: "queueChunks = 256"

definition maxDrainBytes :: nat where [go_defs]: "maxDrainBytes = 2 * 2 ^ 20"
definition maxDrainLimit :: nat where [go_defs]: "maxDrainLimit = 16 * 2 ^ 20"

type_synonym bytes = "byte list"

record sideQueue =
  ch :: "bytes list"
  q_closed :: bool
  turn :: bool
  q_seq :: nat
  assigned :: "(nat \<times> bytes) list"
  unacked :: bytes
  head :: bytes
  seqNext :: nat
  seqHeld :: "(nat \<times> bytes) list"
  inflight :: bool
  q_limit :: int
  resident :: int
  slots :: int
  q_room :: bool
  pooled :: bool
  q_share :: "string option"
  freed :: bool

definition newSideQueue :: sideQueue where
  "newSideQueue =
     \<lparr>ch = [], q_closed = False, turn = False, q_seq = 0, assigned = [], unacked = [], head = [],
      seqNext = 1, seqHeld = [], inflight = False, q_limit = maxResidentPerDirection,
      resident = 0, slots = 0, q_room = False, pooled = False, q_share = None, freed = False\<rparr>"

type_synonym acct = "sideQueue \<times> residency"

definition attach :: "acct \<Rightarrow> string \<Rightarrow> acct" where
  "attach a ns =
     (let q = (fst a)\<lparr>pooled := True\<rparr> in
      if ns \<noteq> [] then (q\<lparr>q_share := Some ns\<rparr>, join (snd a) ns) else (q, snd a))"

datatype werr = ErrQueueClosed | ErrRepeatWrite | ErrOutOfWindow | ErrContext

subsection \<open>The byte account of one direction\<close>

definition wakeLocked :: "sideQueue \<Rightarrow> sideQueue" where
  "wakeLocked q = q\<lparr>q_room := False\<rparr>"

definition releaseLocked :: "acct \<Rightarrow> int \<Rightarrow> int \<Rightarrow> acct" where
  "releaseLocked a n s =
     (let (q, p) = a in
      if freed q \<or> (n = 0 \<and> s = 0) then (q, p)
      else
        (wakeLocked (q\<lparr>resident := resident q - n, slots := slots q - s\<rparr>),
         if pooled q then release_pool p (q_share q) n else p))"

definition keepLocked :: "acct \<Rightarrow> int \<Rightarrow> int \<Rightarrow> acct" where
  "keepLocked a reserved us =
     releaseLocked a (reserved - us) (if reserved > 0 \<and> us = 0 then 1 else 0)"

definition unreserve :: "acct \<Rightarrow> int \<Rightarrow> acct" where
  "unreserve a reserved = keepLocked a reserved 0"

text \<open>
  \<open>Inl (onPool, nsFull)\<close> is the channel to wait on: whether the relay's account
  rather than this direction was full, and whether that was the namespace's share.
\<close>

definition reserveLocked :: "acct \<Rightarrow> int \<Rightarrow> bool \<Rightarrow> acct \<times> (bool \<times> bool + unit)" where
  "reserveLocked a n ahead =
     (let (q, p) = a;
          spare = (if ahead then maxUploadBytes else 0);
          spareSlots = (if ahead then 1 else 0)
      in if resident q + n > q_limit q - spare \<or> slots q + 1 > queueChunks - spareSlots
         then ((q\<lparr>q_room := True\<rparr>, p), Inl (False, False))
         else
           (case (if pooled q then reserve_pool p (q_share q) n spare else (p, Inr ())) of
              (p', Inl nsFull) \<Rightarrow> ((q, p'), Inl (True, nsFull))
            | (p', Inr _) \<Rightarrow> ((q\<lparr>resident := resident q + n, slots := slots q + 1\<rparr>, p'), Inr ())))"

datatype admission = Admitted | MustWait bool | Refused werr

text \<open>\<open>MustWait waited\<close> carries the caller's \<open>waited\<close> flag to its next try.\<close>

definition tryReserve :: "acct \<Rightarrow> int \<Rightarrow> bool \<Rightarrow> bool \<Rightarrow> acct \<times> admission" where
  "tryReserve a n ahead waited =
     (if q_closed (fst a) then (a, Refused ErrQueueClosed)
      else if n = 0 then (a, Admitted)
      else case reserveLocked a n ahead of
             (a', Inr _) \<Rightarrow> (a', Admitted)
           | ((q, p), Inl (onPool, nsFull)) \<Rightarrow>
               if onPool \<and> \<not> waited then ((q, noteWait p nsFull), MustWait True)
               else ((q, p), MustWait waited))"

definition seqWindowLocked :: "sideQueue \<Rightarrow> nat" where
  "seqWindowLocked q = nat (max (q_limit q div maxUploadBytes - 2) 1)"

definition held :: "sideQueue \<Rightarrow> nat \<Rightarrow> bool" where
  "held q seq \<longleftrightarrow> map_of (seqHeld q) seq \<noteq> None"

text \<open>
  One turn of the loops of \<open>admitSeq\<close> and \<open>reserve\<close>: what the writer learns before
  it waits on the room channel, on \<open>done\<close> or on its own context.
\<close>

definition admitSeq :: "acct \<Rightarrow> nat \<Rightarrow> int \<Rightarrow> bool \<Rightarrow> acct \<times> admission" where
  "admitSeq a seq n waited =
     (let q = fst a in
      if seq < seqNext q \<or> held q seq then (a, Refused ErrRepeatWrite)
      else if seq > seqNext q + seqWindowLocked q then (a, Refused ErrOutOfWindow)
      else tryReserve a n (seq > seqNext q) waited)"

definition reserve :: "acct \<Rightarrow> int \<Rightarrow> bool \<Rightarrow> acct \<times> admission" where
  "reserve a n waited = tryReserve a n False waited"

subsection \<open>Taking a write into the stream\<close>

definition ch_send :: "sideQueue \<Rightarrow> bytes \<Rightarrow> sideQueue" where
  "ch_send q b = (if b \<noteq> [] then q\<lparr>ch := ch q @ [b]\<rparr> else q)"

definition enqueue :: "acct \<Rightarrow> bytes \<Rightarrow> int \<Rightarrow> acct \<times> (werr + unit)" where
  "enqueue a b reserved =
     (if q_closed (fst a) then (keepLocked a reserved 0, Inl ErrQueueClosed)
      else
        (let (q, p) = keepLocked a reserved (int (length b))
         in ((ch_send q b, p), Inr ())))"

text \<open>The loop at the end of \<open>commitSeq\<close>: the writes that waited for this one follow it.\<close>

lemma al_del_shorter: "map_of xs k = Some v \<Longrightarrow> length (al_del k xs) < length xs"
  unfolding al_del_def
  by (rule length_filter_less [of "(k, v)"]) (auto dest: map_of_SomeD)

function promote :: "sideQueue \<Rightarrow> sideQueue" where
  "promote q =
     (let q1 = q\<lparr>seqNext := seqNext q + 1\<rparr> in
      case map_of (seqHeld q1) (seqNext q1) of
        None \<Rightarrow> q1
      | Some b \<Rightarrow> promote (ch_send (q1\<lparr>seqHeld := al_del (seqNext q1) (seqHeld q1)\<rparr>) b))"
  by pat_completeness auto
termination
  by (relation "measure (\<lambda>q. length (seqHeld q))") (auto simp: ch_send_def al_del_shorter)

declare promote.simps [simp del]

definition commitSeq :: "acct \<Rightarrow> nat \<Rightarrow> bytes \<Rightarrow> int \<Rightarrow> acct \<times> (werr + unit)" where
  "commitSeq a seq b reserved =
     (let q = fst a in
      if q_closed q then (keepLocked a reserved 0, Inl ErrQueueClosed)
      else if held q seq \<or> seq < seqNext q then (keepLocked a reserved 0, Inr ())
      else if seq > seqNext q then
        (let (q, p) = keepLocked a reserved (int (length b))
         in ((q\<lparr>seqHeld := al_put seq b (seqHeld q)\<rparr>, p), Inr ()))
      else
        (case enqueue a b reserved of
           (a', Inl e) \<Rightarrow> (a', Inl e)
         | ((q, p), Inr _) \<Rightarrow> ((wakeLocked (promote q), p), Inr ())))"

text \<open>The in-process writers; \<open>None\<close> when the write has to wait for room.\<close>

definition pushSeq :: "acct \<Rightarrow> nat \<Rightarrow> bytes \<Rightarrow> acct \<times> bool option" where
  "pushSeq a seq b =
     (case admitSeq a seq (int (length b)) False of
        (a', Refused e) \<Rightarrow> (a', Some (e = ErrRepeatWrite))
      | (a', MustWait _) \<Rightarrow> (a', None)
      | (a', Admitted) \<Rightarrow>
          (case commitSeq a' seq b (int (length b)) of (a'', r) \<Rightarrow> (a'', Some (r = Inr ()))))"

definition push :: "acct \<Rightarrow> bytes \<Rightarrow> acct \<times> bool option" where
  "push a b =
     (case reserve a (int (length b)) False of
        (a', Refused e) \<Rightarrow> (a', Some False)
      | (a', MustWait _) \<Rightarrow> (a', None)
      | (a', Admitted) \<Rightarrow>
          (case enqueue a' b (int (length b)) of (a'', r) \<Rightarrow> (a'', Some (r = Inr ()))))"

subsection \<open>Closing and freeing\<close>

definition q_close :: "sideQueue \<Rightarrow> sideQueue" where
  "q_close q = q\<lparr>q_closed := True\<rparr>"

definition q_free :: "acct \<Rightarrow> acct" where
  "q_free a =
     (let (q, p) = a; q = q_close q in
      if freed q then (q, p)
      else
        (wakeLocked (q\<lparr>ch := [], seqHeld := [], head := [], assigned := [], unacked := [],
                       resident := 0, slots := 0, freed := True\<rparr>),
         if pooled q then leave (release_pool p (q_share q) (resident q)) (q_share q) else p))"

subsection \<open>Taking chunks out\<close>

definition beginTake :: "sideQueue \<Rightarrow> sideQueue" where
  "beginTake q = q\<lparr>inflight := True\<rparr>"

definition endTake :: "sideQueue \<Rightarrow> sideQueue" where
  "endTake q = q\<lparr>inflight := False\<rparr>"

definition release_turn :: "sideQueue \<Rightarrow> sideQueue" where
  "release_turn q = q\<lparr>turn := False\<rparr>"

definition settled :: "sideQueue \<Rightarrow> bool" where
  "settled q \<longleftrightarrow> q_closed q \<and> \<not> inflight q \<and> assigned q = [] \<and> head q = [] \<and> ch q = []"

definition undelivered :: "sideQueue \<Rightarrow> bool \<times> bool" where
  "undelivered q = (inflight q, assigned q \<noteq> [])"

text \<open>The loop of \<open>dropAcked\<close> over the map: \<open>(first, unacked)\<close> of what stays.\<close>

fun oldest :: "nat \<Rightarrow> nat \<Rightarrow> bytes \<Rightarrow> (nat \<times> bytes) list \<Rightarrow> nat \<times> bytes" where
  "oldest ack first u [] = (first, u)"
| "oldest ack first u ((k, b) # xs) =
     (if k \<le> ack then oldest ack first u xs
      else if k < first then oldest ack k b xs
      else oldest ack first u xs)"

definition dropAcked :: "acct \<Rightarrow> nat \<Rightarrow> acct" where
  "dropAcked a ack =
     (let (q, p) = a;
          gone = filter (\<lambda>(k, _). k \<le> ack) (assigned q);
          stay = filter (\<lambda>(k, _). \<not> k \<le> ack) (assigned q)
      in releaseLocked
           (q\<lparr>assigned := stay, unacked := snd (oldest ack (q_seq q + 1) [] (assigned q))\<rparr>, p)
           (int (total_len (map snd gone))) 0)"

definition assign :: "sideQueue \<Rightarrow> nat \<Rightarrow> bytes \<Rightarrow> sideQueue" where
  "assign q seq b =
     q\<lparr>assigned := al_put seq b (assigned q),
       unacked := (if unacked q = [] then b else unacked q)\<rparr>"

datatype taker = TakeUpTo | TakeWindow nat | TakePoll
datatype ending = EndData | EndIdle | EndClosed

record drain =
  d_out :: bytes
  d_taken :: nat
  d_limit :: nat
  d_kind :: taker
  d_ending :: "ending option"

definition appendCapped :: "sideQueue \<Rightarrow> drain \<Rightarrow> bytes \<Rightarrow> sideQueue \<times> drain" where
  "appendCapped q d b =
     (let rm = d_limit d - length (d_out d) in
      if length b > rm then (q\<lparr>head := drop rm b\<rparr>, d\<lparr>d_out := d_out d @ take rm b\<rparr>)
      else (q, d\<lparr>d_out := d_out d @ b\<rparr>))"

text \<open>The start of \<open>drainUpTo\<close>: a split tail goes first.\<close>

definition drain_start :: "sideQueue \<Rightarrow> taker \<Rightarrow> nat \<Rightarrow> sideQueue \<times> drain" where
  "drain_start q t limit =
     (let d = \<lparr>d_out = [], d_taken = 0, d_limit = limit, d_kind = t, d_ending = None\<rparr>
      in if head q \<noteq> [] then appendCapped (q\<lparr>head := []\<rparr>) d (head q) else (q\<lparr>head := []\<rparr>, d))"

text \<open>One receive from the channel, in \<open>fill\<close> or in the select that waits.\<close>

definition can_pull :: "sideQueue \<Rightarrow> drain \<Rightarrow> bool" where
  "can_pull q d \<longleftrightarrow> d_ending d = None \<and> length (d_out d) < d_limit d \<and> ch q \<noteq> []"

definition pull :: "sideQueue \<Rightarrow> drain \<Rightarrow> sideQueue \<times> drain" where
  "pull q d = appendCapped (q\<lparr>ch := tl (ch q)\<rparr>) (d\<lparr>d_taken := d_taken d + 1\<rparr>) (hd (ch q))"

text \<open>
  When \<open>drainUpTo\<close> returns: with data once the limit is reached or the channel is
  seen empty, with nothing on the timeout or the request's end (which the select
  may choose although a chunk is there), as closed when \<open>done\<close> fires on an empty
  channel.
\<close>

definition can_end :: "sideQueue \<Rightarrow> drain \<Rightarrow> ending \<Rightarrow> bool" where
  "can_end q d e \<longleftrightarrow> d_ending d = None \<and>
     (case e of
        EndData \<Rightarrow> d_out d \<noteq> [] \<and> (d_limit d \<le> length (d_out d) \<or> ch q = [])
      | EndIdle \<Rightarrow> d_out d = []
      | EndClosed \<Rightarrow> d_out d = [] \<and> q_closed q \<and> ch q = [])"

text \<open>The deferred release of the slots of the chunks taken out.\<close>

definition drain_return :: "acct \<Rightarrow> drain \<Rightarrow> acct \<times> drain" where
  "drain_return a d =
     ((if d_taken d > 0 then releaseLocked a 0 (int (d_taken d)) else a), d\<lparr>d_taken := 0\<rparr>)"

record reply =
  r_data :: bytes
  r_seq :: nat
  r_closed :: bool

definition end_closed :: "drain \<Rightarrow> bool" where
  "end_closed d \<longleftrightarrow> d_ending d = Some EndClosed"

text \<open>The start of \<open>takeUpTo\<close>, with the turn free: a replay, or a drain.\<close>

definition first_assigned :: "sideQueue \<Rightarrow> nat \<Rightarrow> (nat \<times> bytes) option" where
  "first_assigned q ack =
     (case filter (\<lambda>k. map_of (assigned q) k \<noteq> None) [Suc ack ..< Suc (q_seq q)] of
        [] \<Rightarrow> None
      | k # _ \<Rightarrow> Some (k, the (map_of (assigned q) k)))"

definition takeUpTo_start :: "acct \<Rightarrow> nat \<Rightarrow> nat \<Rightarrow> acct \<times> (reply + drain)" where
  "takeUpTo_start a ack limit =
     (let (q, p) = dropAcked a ack in
      case first_assigned q ack of
        Some (k, b) \<Rightarrow> ((q, p), Inl \<lparr>r_data = b, r_seq = k, r_closed = False\<rparr>)
      | None \<Rightarrow>
          (let (q1, d) = drain_start (beginTake (q\<lparr>turn := True\<rparr>)) TakeUpTo limit
           in ((q1, p), Inr d)))"

text \<open>The end of \<open>takeUpTo\<close>, of \<open>takeWindow\<close> and of \<open>pollDrain\<close>.\<close>

definition take_finish :: "acct \<Rightarrow> drain \<Rightarrow> acct \<times> reply" where
  "take_finish a d =
     (let (q, p) = a; b = d_out d in
      case d_kind d of
        TakeUpTo \<Rightarrow>
          (if b = [] then ((release_turn (endTake q), p), \<lparr>r_data = [], r_seq = 0, r_closed = end_closed d\<rparr>)
           else
             (let seq = q_seq q + 1
              in ((release_turn (endTake (assign (q\<lparr>q_seq := seq\<rparr>) seq b)), p),
                  \<lparr>r_data = b, r_seq = seq, r_closed = False\<rparr>)))
      | TakeWindow want \<Rightarrow>
          (if b = [] then ((release_turn (endTake q), p), \<lparr>r_data = [], r_seq = 0, r_closed = end_closed d\<rparr>)
           else
             ((release_turn (endTake (assign (q\<lparr>q_seq := want\<rparr>) want b)), p),
              \<lparr>r_data = b, r_seq = want, r_closed = False\<rparr>))
      | TakePoll \<Rightarrow>
          (let (q, p) = releaseLocked (q, p) (int (length b)) 0
           in ((release_turn (endTake q), p), \<lparr>r_data = b, r_seq = 0, r_closed = end_closed d\<rparr>)))"

text \<open>
  One turn of the loop of \<open>takeWindow\<close> before the queue's turn is taken:
  \<open>Inl\<close> a reply, \<open>Inr True\<close> go for the turn, \<open>Inr False\<close> wait for the predecessor.
\<close>

definition window_look :: "acct \<Rightarrow> nat \<Rightarrow> nat \<Rightarrow> acct \<times> (reply + bool)" where
  "window_look a ack want =
     (let (q, p) = dropAcked a ack in
      case map_of (assigned q) want of
        Some b \<Rightarrow> ((q, p), Inl \<lparr>r_data = b, r_seq = want, r_closed = False\<rparr>)
      | None \<Rightarrow>
          if want \<le> q_seq q then ((q, p), Inl \<lparr>r_data = [], r_seq = 0, r_closed = False\<rparr>)
          else ((q, p), Inr (want = q_seq q + 1)))"

text \<open>With the turn in hand: \<open>None\<close> when another poll has moved the stream on meanwhile.\<close>

definition window_start :: "sideQueue \<Rightarrow> nat \<Rightarrow> nat \<Rightarrow> (sideQueue \<times> drain) option" where
  "window_start q want limit =
     (if want \<noteq> q_seq q + 1 then None
      else Some (drain_start ((q\<lparr>turn := True\<rparr>)\<lparr>inflight := True\<rparr>) (TakeWindow want) limit))"

definition pollDrain_start :: "sideQueue \<Rightarrow> nat \<Rightarrow> sideQueue \<times> drain" where
  "pollDrain_start q limit = drain_start (beginTake (q\<lparr>turn := True\<rparr>)) TakePoll limit"

subsection \<open>A poll that runs undisturbed\<close>

text \<open>\<open>fill\<close> and the select of \<open>drainUpTo\<close>, when nothing else touches the queue.\<close>

fun fill_loop :: "nat \<Rightarrow> sideQueue \<Rightarrow> drain \<Rightarrow> sideQueue \<times> drain" where
  "fill_loop 0 q d = (q, d)"
| "fill_loop (Suc n) q d =
     (if can_pull q d then (let (q', d') = pull q d in fill_loop n q' d') else (q, d))"

definition fill :: "sideQueue \<Rightarrow> drain \<Rightarrow> sideQueue \<times> drain" where
  "fill q d = fill_loop (length (ch q)) q d"

definition drain_alone :: "acct \<Rightarrow> drain \<Rightarrow> acct \<times> drain" where
  "drain_alone a d =
     (let (q, p) = a; (q, d) = fill q d;
          d = d\<lparr>d_ending := Some (if d_out d \<noteq> [] then EndData
                                 else if q_closed q then EndClosed else EndIdle)\<rparr>
      in drain_return (q, p) d)"

definition takeUpTo :: "acct \<Rightarrow> nat \<Rightarrow> nat \<Rightarrow> acct \<times> reply" where
  "takeUpTo a ack limit =
     (case takeUpTo_start a ack limit of
        (a', Inl r) \<Rightarrow> (a', r)
      | (a', Inr d) \<Rightarrow> (let (a'', d') = drain_alone a' d in take_finish a'' d'))"

definition pollDrain :: "acct \<Rightarrow> acct \<times> reply" where
  "pollDrain a =
     (let (q, d) = pollDrain_start (fst a) maxDrainBytes;
          (a', d') = drain_alone (q, snd a) d
      in take_finish a' d')"

end
