(* ===== verification/Accounting.thy ===== *)
theory Accounting
  imports SideQueue
begin

text \<open>
  The byte account of the HTTP tunnel (\<open>sideQueue\<close> on \<open>residency\<close>): a direction
  together with the requests that are in the middle of using it. \<open>pend\<close> holds the
  reservations of admitted writes whose body is still being read, \<open>dpoll\<close> what the
  poll that holds the turn has taken out. \<open>exec\<close> runs one critical section of
  one request; a run of the relay interleaves them freely over all directions.

  The invariant says that the account is exact: a direction's \<open>resident\<close> is the
  number of bytes it holds or has promised room to, the relay's \<open>used\<close> and every
  namespace's share are the sums over the directions that charge them, and no
  limit is ever passed. It follows that an admitted write never waits on the
  channel \<open>ch\<close>.
\<close>

record dir =
  dq :: sideQueue
  pend :: "int list"
  dpoll :: "drain option"

datatype op =
    OpAdmit nat int bool
  | OpReserve int bool
  | OpUnreserve int
  | OpEnqueue bytes int
  | OpCommit nat bytes int
  | OpClose
  | OpFree
  | OpTake nat nat
  | OpLook nat nat
  | OpWindow nat nat
  | OpPoll nat
  | OpPull
  | OpEnd ending
  | OpReturn
  | OpFinish

datatype answer = NoAnswer | AdmissionIs admission | WriteIs "werr + unit" | ReplyIs reply

text \<open>The limits a request handler passes to the queue: \<open>0 < limit \<le> maxDrainLimit\<close>.\<close>

fun after_admission :: "dir \<Rightarrow> int \<Rightarrow> acct \<times> admission \<Rightarrow> (dir \<times> residency \<times> answer)" where
  "after_admission d n ((q, p), ans) =
     (d\<lparr>dq := q, pend := (if ans = Admitted then n # pend d else pend d)\<rparr>, p, AdmissionIs ans)"

fun after_write :: "dir \<Rightarrow> int \<Rightarrow> acct \<times> (werr + unit) \<Rightarrow> (dir \<times> residency \<times> answer)" where
  "after_write d n ((q, p), r) = (d\<lparr>dq := q, pend := remove1 n (pend d)\<rparr>, p, WriteIs r)"

fun exec :: "op \<Rightarrow> dir \<Rightarrow> residency \<Rightarrow> (dir \<times> residency \<times> answer) option" where
  "exec (OpAdmit seq n w) d p =
     (if 0 \<le> n \<and> n \<le> maxUploadBytes then Some (after_admission d n (admitSeq (dq d, p) seq n w)) else None)"
| "exec (OpReserve n w) d p =
     (if 0 \<le> n then Some (after_admission d n (reserve (dq d, p) n w)) else None)"
| "exec (OpUnreserve n) d p =
     (if n \<in> set (pend d)
      then (let (q, p') = unreserve (dq d, p) n
            in Some (d\<lparr>dq := q, pend := remove1 n (pend d)\<rparr>, p', NoAnswer))
      else None)"
| "exec (OpEnqueue b n) d p =
     (if n \<in> set (pend d) \<and> int (length b) \<le> n
      then Some (after_write d n (enqueue (dq d, p) b n)) else None)"
| "exec (OpCommit seq b n) d p =
     (if n \<in> set (pend d) \<and> int (length b) \<le> n
      then Some (after_write d n (commitSeq (dq d, p) seq b n)) else None)"
| "exec OpClose d p = Some (d\<lparr>dq := q_close (dq d)\<rparr>, p, NoAnswer)"
| "exec OpFree d p = (let (q, p') = q_free (dq d, p) in Some (d\<lparr>dq := q\<rparr>, p', NoAnswer))"
| "exec (OpTake ack limit) d p =
     (if turn (dq d) \<or> limit = 0 then None
      else case takeUpTo_start (dq d, p) ack limit of
             ((q, p'), Inl r) \<Rightarrow> Some (d\<lparr>dq := q\<rparr>, p', ReplyIs r)
           | ((q, p'), Inr dr) \<Rightarrow> Some (d\<lparr>dq := q, dpoll := Some dr\<rparr>, p', NoAnswer))"
| "exec (OpLook ack want) d p =
     (case window_look (dq d, p) ack want of
        ((q, p'), Inl r) \<Rightarrow> Some (d\<lparr>dq := q\<rparr>, p', ReplyIs r)
      | ((q, p'), Inr _) \<Rightarrow> Some (d\<lparr>dq := q\<rparr>, p', NoAnswer))"
| "exec (OpWindow want limit) d p =
     (if turn (dq d) \<or> limit = 0 then None
      else case window_start (dq d) want limit of
             None \<Rightarrow> Some (d, p, NoAnswer)
           | Some (q, dr) \<Rightarrow> Some (d\<lparr>dq := q, dpoll := Some dr\<rparr>, p, NoAnswer))"
| "exec (OpPoll limit) d p =
     (if turn (dq d) \<or> limit = 0 then None
      else (let (q, dr) = pollDrain_start (dq d) limit
            in Some (d\<lparr>dq := q, dpoll := Some dr\<rparr>, p, NoAnswer)))"
| "exec OpPull d p =
     (case dpoll d of None \<Rightarrow> None
      | Some dr \<Rightarrow>
          if can_pull (dq d) dr
          then (let (q, dr') = pull (dq d) dr in Some (d\<lparr>dq := q, dpoll := Some dr'\<rparr>, p, NoAnswer))
          else None)"
| "exec (OpEnd e) d p =
     (case dpoll d of None \<Rightarrow> None
      | Some dr \<Rightarrow>
          if can_end (dq d) dr e
          then Some (d\<lparr>dpoll := Some (dr\<lparr>d_ending := Some e\<rparr>)\<rparr>, p, NoAnswer) else None)"
| "exec OpReturn d p =
     (case dpoll d of None \<Rightarrow> None
      | Some dr \<Rightarrow>
          if d_ending dr \<noteq> None
          then (let ((q, p'), dr') = drain_return (dq d, p) dr
                in Some (d\<lparr>dq := q, dpoll := Some dr'\<rparr>, p', NoAnswer))
          else None)"
| "exec OpFinish d p =
     (case dpoll d of None \<Rightarrow> None
      | Some dr \<Rightarrow>
          if d_ending dr \<noteq> None \<and> d_taken dr = 0
          then (let ((q, p'), r) = take_finish (dq d, p) dr
                in Some (d\<lparr>dq := q, dpoll := None\<rparr>, p', ReplyIs r))
          else None)"

subsection \<open>The invariant of one direction\<close>

definition poll_bytes :: "drain option \<Rightarrow> nat" where
  "poll_bytes po = (case po of None \<Rightarrow> 0 | Some dr \<Rightarrow> length (d_out dr))"

definition poll_taken :: "drain option \<Rightarrow> nat" where
  "poll_taken po = (case po of None \<Rightarrow> 0 | Some dr \<Rightarrow> d_taken dr)"

definition held_bytes :: "sideQueue \<Rightarrow> drain option \<Rightarrow> nat" where
  "held_bytes q po =
     total_len (ch q) + length (head q) + total_len (map snd (seqHeld q))
     + total_len (map snd (assigned q)) + poll_bytes po"

definition nonempty_count :: "(nat \<times> bytes) list \<Rightarrow> nat" where
  "nonempty_count xs = length (filter (\<lambda>(_, b). b \<noteq> []) xs)"

definition pend_count :: "int list \<Rightarrow> nat" where
  "pend_count ns = length (filter (\<lambda>n. n > 0) ns)"

definition held_slots :: "sideQueue \<Rightarrow> int list \<Rightarrow> drain option \<Rightarrow> nat" where
  "held_slots q ns po =
     length (ch q) + nonempty_count (seqHeld q) + pend_count ns + poll_taken po"

definition counted :: "sideQueue \<Rightarrow> int list \<Rightarrow> drain option \<Rightarrow> bool" where
  "counted q ns po \<longleftrightarrow>
     (if freed q then resident q = 0 \<and> slots q = 0
      else resident q = int (held_bytes q po) + sum_list ns \<and> slots q = int (held_slots q ns po))"

definition bounded :: "sideQueue \<Rightarrow> bool" where
  "bounded q \<longleftrightarrow> resident q \<le> q_limit q \<and> slots q \<le> queueChunks"

definition poll_shape :: "sideQueue \<Rightarrow> drain \<Rightarrow> bool" where
  "poll_shape q dr \<longleftrightarrow>
     length (d_out dr) \<le> d_limit dr \<and> 0 < d_limit dr
     \<and> (head q \<noteq> [] \<longrightarrow> length (d_out dr) = d_limit dr)
     \<and> (\<forall>w. d_kind dr = TakeWindow w \<longrightarrow> w = q_seq q + 1)"

definition shaped :: "sideQueue \<Rightarrow> int list \<Rightarrow> drain option \<Rightarrow> bool" where
  "shaped q ns po \<longleftrightarrow>
     distinct (map fst (assigned q)) \<and> distinct (map fst (seqHeld q))
     \<and> (\<forall>k \<in> fst ` set (assigned q). 0 < k \<and> k \<le> q_seq q)
     \<and> (\<forall>k \<in> fst ` set (seqHeld q). seqNext q < k)
     \<and> (\<forall>b \<in> set (ch q). b \<noteq> [])
     \<and> (\<forall>n \<in> set ns. 0 \<le> n)
     \<and> (turn q \<longleftrightarrow> po \<noteq> None) \<and> (inflight q \<longleftrightarrow> po \<noteq> None)
     \<and> (\<forall>dr. po = Some dr \<longrightarrow> poll_shape q dr)
     \<and> (freed q \<longrightarrow> q_closed q \<and> ch q = [])"

definition qok :: "sideQueue \<Rightarrow> int list \<Rightarrow> drain option \<Rightarrow> bool" where
  "qok q ns po \<longleftrightarrow> counted q ns po \<and> bounded q \<and> shaped q ns po"

definition dir_ok :: "dir \<Rightarrow> bool" where
  "dir_ok d \<longleftrightarrow> qok (dq d) (pend d) (dpoll d)"

lemmas qok_defs = qok_def counted_def bounded_def shaped_def held_bytes_def held_slots_def
  poll_bytes_def poll_taken_def poll_shape_def

subsection \<open>Balance with the relay's account\<close>

definition charge :: "sideQueue \<Rightarrow> int" where
  "charge q = (if pooled q \<and> \<not> freed q then resident q else 0)"

definition charge_ns :: "sideQueue \<Rightarrow> string \<Rightarrow> int" where
  "charge_ns q ns = (if pooled q \<and> q_share q = Some ns \<and> \<not> freed q then resident q else 0)"

definition charge_refs :: "sideQueue \<Rightarrow> string \<Rightarrow> nat" where
  "charge_refs q ns = (if pooled q \<and> q_share q = Some ns \<and> \<not> freed q then 1 else 0)"

definition sees :: "sideQueue \<Rightarrow> residency \<Rightarrow> bool" where
  "sees q p \<longleftrightarrow>
     (\<forall>ns. pooled q \<and> \<not> freed q \<and> q_share q = Some ns \<longrightarrow> 0 < share_refs p ns)"

definition balanced :: "acct \<Rightarrow> acct \<Rightarrow> bool" where
  "balanced a a' \<longleftrightarrow>
     (let (q, p) = a; (q', p') = a' in
      used p' - charge q' = used p - charge q
      \<and> (\<forall>ns. share_used p' ns - charge_ns q' ns = share_used p ns - charge_ns q ns)
      \<and> (\<forall>ns. share_refs p' ns = share_refs p ns)
      \<and> pooled q' = pooled q \<and> q_share q' = q_share q \<and> freed q' = freed q \<and> q_limit q' = q_limit q
      \<and> limit_of p' = limit_of p \<and> nsLimit p' = nsLimit p
      \<and> (used p \<le> limit_of p \<longrightarrow> used p' \<le> limit_of p')
      \<and> (\<forall>ns. share_used p ns \<le> nsLimit p \<longrightarrow> share_used p' ns \<le> nsLimit p'))"

lemma balanced_refl: "balanced a a"
  by (simp add: balanced_def split: prod.splits)

lemma balanced_trans: "balanced a b \<Longrightarrow> balanced b c \<Longrightarrow> balanced a c"
  by (auto simp: balanced_def split: prod.splits)

lemma balanced_sees: "balanced a a' \<Longrightarrow> sees (fst a) (snd a) \<Longrightarrow> sees (fst a') (snd a')"
  by (simp add: balanced_def sees_def split: prod.splits)

text \<open>A change of fields that are not part of the account.\<close>

lemma balanced_same:
  assumes "resident q' = resident q" "pooled q' = pooled q" "q_share q' = q_share q"
    "freed q' = freed q" "q_limit q' = q_limit q"
  shows "balanced (q, p) (q', p)"
proof -
  have "charge q' = charge q" "charge_ns q' = charge_ns q"
    using assms by (auto simp: charge_def charge_ns_def fun_eq_iff)
  then show ?thesis using assms by (simp add: balanced_def)
qed

lemma balanced_post:
  assumes "balanced a (q, p)" "resident q' = resident q" "pooled q' = pooled q"
    "q_share q' = q_share q" "freed q' = freed q" "q_limit q' = q_limit q"
  shows "balanced a (q', p)"
  by (rule balanced_trans [OF assms(1) balanced_same [OF assms(2-6)]])

lemma sees_refs: "sees q p \<Longrightarrow> pooled q \<Longrightarrow> \<not> freed q \<Longrightarrow> q_share q = Some ns \<Longrightarrow> 0 < share_refs p ns"
  by (simp add: sees_def)

lemma balanced_releaseLocked:
  assumes "sees (fst a) (snd a)" "0 \<le> n"
  shows "balanced a (releaseLocked a n s)"
proof (cases a)
  case (Pair q p)
  show ?thesis
  proof (cases "freed q \<or> (n = 0 \<and> s = 0)")
    case True
    then have "releaseLocked a n s = a" by (auto simp: releaseLocked_def Pair)
    then show ?thesis by (simp add: balanced_refl)
  next
    case False
    define q' where "q' = wakeLocked (q\<lparr>resident := resident q - n, slots := slots q - s\<rparr>)"
    have q': "resident q' = resident q - n" "pooled q' = pooled q" "q_share q' = q_share q"
      "freed q' = freed q" "q_limit q' = q_limit q" by (simp_all add: q'_def wakeLocked_def)
    have e: "releaseLocked a n s = (q', if pooled q then release_pool p (q_share q) n else p)"
      unfolding releaseLocked_def Pair q'_def Let_def prod.case by (rule if_not_P [OF False])
    have su: "pooled q \<Longrightarrow> share_used (release_pool p (q_share q) n) ns =
        share_used p ns - (if q_share q = Some ns then n else 0)" for ns
      using sees_refs [of q p ns] assms(1) False Pair by (intro share_used_release_pool) auto
    show ?thesis
      using assms(2) False
      by (auto simp: e [unfolded Pair] balanced_def Pair su acct_simps charge_def charge_ns_def q')
  qed
qed

lemma balanced_keepLocked:
  "sees (fst a) (snd a) \<Longrightarrow> us \<le> reserved \<Longrightarrow> balanced a (keepLocked a reserved us)"
  unfolding keepLocked_def by (rule balanced_releaseLocked) simp_all

lemma balanced_reserveLocked:
  assumes "sees (fst a) (snd a)" "0 \<le> n" "\<not> freed (fst a)" "reserveLocked a n ahead = (a', r)"
  shows "balanced a a'"
proof (cases a)
  case (Pair q p)
  show ?thesis
  proof (cases "\<exists>p'. pooled q \<and> reserve_pool p (q_share q) n (if ahead then maxUploadBytes else 0) = (p', Inr ())
                     \<and> a' = (q\<lparr>resident := resident q + n, slots := slots q + 1\<rparr>, p')")
    case True
    then obtain p' where p': "pooled q" "reserve_pool p (q_share q) n (if ahead then maxUploadBytes else 0) = (p', Inr ())"
      "a' = (q\<lparr>resident := resident q + n, slots := slots q + 1\<rparr>, p')" by blast
    note u = reserve_pool_used [OF p'(2)]
    have refs: "limit_of p' = limit_of p" "nsLimit p' = nsLimit p" "share_refs p' m = share_refs p m" for m
      using reserve_pool_fields [of p "q_share q" n "if ahead then maxUploadBytes else 0"] p'(2) by auto
    have su: "share_used p' ns = share_used p ns + (if q_share q = Some ns then n else 0)" for ns
      using u(2) [of ns] sees_refs [of q p ns] assms Pair p'(1) by auto
    show ?thesis
      using p' u(1) u(3) u(4) su refs assms(2) Pair assms(3)
      by (auto simp: balanced_def charge_def charge_ns_def go_defs split: if_splits)
  next
    case False
    then have "\<not> pooled q \<and> a' = (q\<lparr>resident := resident q + n, slots := slots q + 1\<rparr>, p)
        \<or> a' = (q\<lparr>q_room := True\<rparr>, p) \<or> (\<exists>p'. a' = (q, p') \<and> pooled q
             \<and> (\<exists>b. reserve_pool p (q_share q) n (if ahead then maxUploadBytes else 0) = (p', Inl b)))"
      using assms(4) Pair
      by (auto simp: reserveLocked_def Let_def split: if_splits prod.splits sum.splits)
    then show ?thesis
    proof (elim disjE exE conjE)
      fix p' b
      assume h: "a' = (q, p')" "reserve_pool p (q_share q) n (if ahead then maxUploadBytes else 0) = (p', Inl b)"
      then have "p' = p\<lparr>pool_room := True\<rparr>" by (auto simp: reserve_pool_def Let_def split: if_splits)
      then show ?thesis using h Pair by (simp add: balanced_def)
    qed (auto simp: Pair balanced_def charge_def charge_ns_def)
  qed
qed

subsection \<open>Sums\<close>

lemma sum_list_remove1: "n \<in> set ns \<Longrightarrow> sum_list (remove1 n ns) = sum_list ns - (n::int)"
  by (induction ns) auto

lemma pend_count_remove1:
  "n \<in> set ns \<Longrightarrow> pend_count (remove1 n ns) + (if 0 < n then 1 else 0) = pend_count ns"
  by (induction ns) (auto simp: pend_count_def)

lemma pend_count_Cons [simp]: "pend_count (n # ns) = (if 0 < n then 1 else 0) + pend_count ns"
  by (simp add: pend_count_def)

lemma total_len_al_put:
  "k \<notin> fst ` set xs \<Longrightarrow> total_len (map snd (al_put k b xs)) = total_len (map snd xs) + length b"
  by (induction xs) auto

lemma nonempty_count_al_put:
  "k \<notin> fst ` set xs \<Longrightarrow> nonempty_count (al_put k b xs) = nonempty_count xs + (if b \<noteq> [] then 1 else 0)"
  by (induction xs) (auto simp: nonempty_count_def)

lemma al_del_absent: "k \<notin> fst ` set xs \<Longrightarrow> al_del k xs = xs"
  by (force simp: al_del_def filter_id_conv)

lemma al_del_Cons: "al_del k ((j, b) # xs) = (if j = k then al_del k xs else (j, b) # al_del k xs)"
  by (simp add: al_del_def)

lemma total_len_al_del:
  "distinct (map fst xs) \<Longrightarrow> map_of xs k = Some b
   \<Longrightarrow> total_len (map snd (al_del k xs)) + length b = total_len (map snd xs)"
  by (induction xs) (auto simp: al_del_Cons al_del_absent image_iff split: if_splits)

lemma nonempty_count_al_del:
  "distinct (map fst xs) \<Longrightarrow> map_of xs k = Some b
   \<Longrightarrow> nonempty_count (al_del k xs) + (if b \<noteq> [] then 1 else 0) = nonempty_count xs"
proof (induction xs)
  case (Cons x xs)
  then show ?case
    by (cases x) (auto simp: nonempty_count_def al_del_Cons al_del_absent image_iff split: if_splits)
qed simp

lemma total_len_filter_split:
  "total_len (map snd (filter P xs)) + total_len (map snd (filter (\<lambda>x. \<not> P x) xs)) = total_len (map snd xs)"
  by (induction xs) auto

subsection \<open>Releasing\<close>

lemma releaseLocked_shape:
  obtains m where "fst (releaseLocked (q, p) n s) =
     q\<lparr>resident := (if freed q then resident q else resident q - n),
       slots := (if freed q then slots q else slots q - s), q_room := m\<rparr>"
proof (cases "freed q \<or> (n = 0 \<and> s = 0)")
  case True
  then have "fst (releaseLocked (q, p) n s) =
     q\<lparr>resident := (if freed q then resident q else resident q - n),
       slots := (if freed q then slots q else slots q - s), q_room := q_room q\<rparr>"
    by (auto simp: releaseLocked_def)
  then show ?thesis by (rule that)
next
  case False
  then have "fst (releaseLocked (q, p) n s) =
     q\<lparr>resident := (if freed q then resident q else resident q - n),
       slots := (if freed q then slots q else slots q - s), q_room := False\<rparr>"
    by (auto simp: releaseLocked_def wakeLocked_def)
  then show ?thesis by (rule that)
qed

lemma releaseLocked_fields [queue_simps]:
  assumes "releaseLocked (q, p) n s = (q', p')"
  shows "ch q' = ch q" "q_closed q' = q_closed q" "turn q' = turn q" "q_seq q' = q_seq q"
    "assigned q' = assigned q" "unacked q' = unacked q" "head q' = head q" "seqNext q' = seqNext q"
    "seqHeld q' = seqHeld q" "inflight q' = inflight q" "q_limit q' = q_limit q"
    "pooled q' = pooled q" "q_share q' = q_share q" "freed q' = freed q"
    "resident q' = (if freed q then resident q else resident q - n)"
    "slots q' = (if freed q then slots q else slots q - s)"
proof -
  obtain m where m: "q' = q\<lparr>resident := (if freed q then resident q else resident q - n),
       slots := (if freed q then slots q else slots q - s), q_room := m\<rparr>"
    using releaseLocked_shape [of q p n s] assms by auto
  show "ch q' = ch q" "q_closed q' = q_closed q" "turn q' = turn q" "q_seq q' = q_seq q"
    "assigned q' = assigned q" "unacked q' = unacked q" "head q' = head q" "seqNext q' = seqNext q"
    "seqHeld q' = seqHeld q" "inflight q' = inflight q" "q_limit q' = q_limit q"
    "pooled q' = pooled q" "q_share q' = q_share q" "freed q' = freed q"
    "resident q' = (if freed q then resident q else resident q - n)"
    "slots q' = (if freed q then slots q else slots q - s)"
    by (simp_all add: m)
qed

lemmas keepLocked_fields = releaseLocked_fields [of _ _ "_ - _" "if _ > 0 \<and> _ = 0 then 1 else 0", folded keepLocked_def]

subsection \<open>Admitting a write\<close>

lemma qok_not_freed: "qok q ns po \<Longrightarrow> \<not> q_closed q \<Longrightarrow> \<not> freed q"
  by (auto simp: qok_def shaped_def)

lemma qok_room [simp]: "qok (q\<lparr>q_room := m\<rparr>) ns po = qok q ns po"
  by (simp add: qok_defs)

lemma qok_pend0: "qok q (0 # ns) po = qok q ns po"
  by (simp add: qok_defs)

lemma qok_admit:
  assumes "qok q ns po" "0 < n" "\<not> freed q" "resident q + n \<le> q_limit q" "slots q + 1 \<le> queueChunks"
  shows "qok (q\<lparr>resident := resident q + n, slots := slots q + 1\<rparr>) (n # ns) po"
  using assms by (simp add: qok_defs)

lemma reserveLocked_cases:
  assumes "reserveLocked (q, p) n ahead = ((q', p'), r)"
  obtains
    (dirfull) "q' = q\<lparr>q_room := True\<rparr>" "p' = p" "r = Inl (False, False)"
  | (poolfull) b where "q' = q" "r = Inl (True, b)"
  | (room) "q' = q\<lparr>resident := resident q + n, slots := slots q + 1\<rparr>" "r = Inr ()"
      "resident q + n \<le> q_limit q" "slots q + 1 \<le> queueChunks"
proof -
  define spare where "spare = (if ahead then maxUploadBytes else 0)"
  define pr where "pr = (if pooled q then reserve_pool p (q_share q) n spare else (p, Inr ()))"
  have sp: "0 \<le> spare" by (simp add: spare_def maxUploadBytes_def)
  show thesis
  proof (cases "resident q + n > q_limit q - spare \<or> slots q + 1 > queueChunks - (if ahead then 1 else 0)")
    case True
    then show ?thesis using assms by (intro dirfull) (simp_all add: reserveLocked_def spare_def)
  next
    case False
    then have e: "((q', p'), r) = (case pr of
              (p', Inl nsFull) \<Rightarrow> ((q, p'), Inl (True, nsFull))
            | (p', Inr _) \<Rightarrow> ((q\<lparr>resident := resident q + n, slots := slots q + 1\<rparr>, p'), Inr ()))"
      unfolding assms [symmetric] reserveLocked_def Let_def prod.case pr_def spare_def
      by (rule if_not_P)
    have l: "resident q + n \<le> q_limit q" "slots q + 1 \<le> queueChunks"
      using False sp by (auto split: if_splits)
    obtain p1 r1 where pr: "pr = (p1, r1)" by (metis surj_pair)
    show ?thesis
    proof (cases r1)
      case (Inl b)
      then show ?thesis using e pr by (intro poolfull [of b]) simp_all
    next
      case (Inr u)
      then show ?thesis using e pr l by (intro room) simp_all
    qed
  qed
qed

lemma tryReserve_ok:
  assumes ok: "qok q ns po" and sees: "sees q p" and n: "0 \<le> n"
    and t: "tryReserve (q, p) n ahead w = ((q', p'), ans)"
  shows "qok q' (if ans = Admitted then n # ns else ns) po \<and> balanced (q, p) (q', p')"
proof (cases "q_closed q \<or> n = 0")
  case True
  then have "q' = q" "p' = p" "ans = Admitted \<Longrightarrow> n = 0"
    using t by (auto simp: tryReserve_def split: if_splits)
  then show ?thesis using ok by (cases "ans = Admitted") (simp_all add: balanced_refl qok_pend0)
next
  case False
  obtain q1 p1 r where r: "reserveLocked (q, p) n ahead = ((q1, p1), r)" by (metis surj_pair)
  have nf: "\<not> freed q" by (rule qok_not_freed [OF ok]) (use False in simp)
  have b: "balanced (q, p) (q1, p1)"
    by (rule balanced_reserveLocked [OF _ n _ r]) (simp_all add: sees nf)
  have bn: "balanced (q, p) (q1, noteWait p1 f)" for f
    by (rule balanced_trans [OF b]) (simp add: balanced_def acct_simps)
  show ?thesis
    using r
  proof (cases rule: reserveLocked_cases)
    case dirfull
    then have "q' = q1" "p' = p1" "ans \<noteq> Admitted" using t r False by (auto simp: tryReserve_def)
    then show ?thesis using b ok dirfull by simp
  next
    case (poolfull f)
    then have "q' = q1" "p' = p1 \<or> p' = noteWait p1 f" "ans \<noteq> Admitted"
      using t r False by (auto simp: tryReserve_def split: if_splits)
    then show ?thesis using b bn ok poolfull by auto
  next
    case room
    then have "q' = q1" "p' = p1" "ans = Admitted" using t r False by (auto simp: tryReserve_def)
    then show ?thesis using b qok_admit [OF ok _ nf, of n] room n False by simp
  qed
qed

lemma admitSeq_ok:
  assumes ok: "qok q ns po" and sees: "sees q p" and n: "0 \<le> n"
    and t: "admitSeq (q, p) seq n w = ((q', p'), ans)"
  shows "qok q' (if ans = Admitted then n # ns else ns) po \<and> balanced (q, p) (q', p')"
proof (cases "ans = Refused ErrRepeatWrite \<and> (q', p') = (q, p) \<or> ans = Refused ErrOutOfWindow \<and> (q', p') = (q, p)")
  case True
  then show ?thesis using ok by (auto simp: balanced_refl)
next
  case False
  then have "tryReserve (q, p) n (seq > seqNext q) w = ((q', p'), ans)"
    using t by (auto simp: admitSeq_def Let_def split: if_splits)
  from tryReserve_ok [OF ok sees n this] show ?thesis .
qed

subsection \<open>Taking a write in\<close>

lemma keepLocked_facts:
  assumes "keepLocked (q, p) n u = (q', p')"
  shows "q' = q\<lparr>resident := resident q', slots := slots q', q_room := q_room q'\<rparr>"
    "resident q' = (if freed q then resident q else resident q - (n - u))"
    "slots q' = (if freed q then slots q else slots q - (if n > 0 \<and> u = 0 then 1 else 0))"
  using releaseLocked_fields [OF assms [unfolded keepLocked_def]]
  by simp_all

lemma pend_nonneg: "qok q ns po \<Longrightarrow> n \<in> set ns \<Longrightarrow> 0 \<le> n"
  by (simp add: qok_def shaped_def)

lemma qok_keep:
  assumes ok: "qok q ns po" and n: "n \<in> set ns" and b: "int (length b) \<le> n"
    and k: "keepLocked (q, p) n (int (length b)) = (q', p')"
  shows "b = [] \<or> freed q \<Longrightarrow> qok q' (remove1 n ns) po"
    and "\<not> freed q \<Longrightarrow> qok (ch_send q' b) (remove1 n ns) po"
    and "\<not> freed q \<Longrightarrow> seqNext q < seq \<Longrightarrow> \<not> held q seq
         \<Longrightarrow> qok (q'\<lparr>seqHeld := al_put seq b (seqHeld q')\<rparr>) (remove1 n ns) po"
proof -
  note f = keepLocked_facts [OF k]
  have n0: "0 \<le> n" using pend_nonneg [OF ok n] .
  note pc = pend_count_remove1 [OF n]
  note sl = sum_list_remove1 [OF n]
  have pos: "\<forall>m \<in> set (remove1 n ns). 0 \<le> m"
    using ok set_remove1_subset [of n ns] by (auto simp: qok_def shaped_def)
  have le: "resident q' \<le> q_limit q" "slots q' \<le> queueChunks"
    using f(2,3) ok b by (auto simp: qok_def bounded_def)
  show "b = [] \<or> freed q \<Longrightarrow> qok q' (remove1 n ns) po"
    using ok f(2,3) pos le pc sl n0 b
    by (subst f(1)) (cases "freed q"; cases "n = 0"; simp add: qok_defs)
  show "\<not> freed q \<Longrightarrow> qok (ch_send q' b) (remove1 n ns) po"
    using ok f(2,3) pos le pc sl n0 b
    by (subst f(1), subst f(1)) (cases "b = []"; cases "n = 0"; simp add: qok_defs ch_send_def)
  show "qok (q'\<lparr>seqHeld := al_put seq b (seqHeld q')\<rparr>) (remove1 n ns) po"
    if nf: "\<not> freed q" and s: "seqNext q < seq" "\<not> held q seq"
  proof -
    have new: "seq \<notin> fst ` set (seqHeld q)"
      using s(2) by (simp add: held_def map_of_eq_None_iff)
    define q2 where "q2 = q'\<lparr>seqHeld := al_put seq b (seqHeld q')\<rparr>"
    have q2: "seqHeld q2 = al_put seq b (seqHeld q)" "ch q2 = ch q" "head q2 = head q" "turn q2 = turn q"
      "assigned q2 = assigned q" "resident q2 = resident q'" "slots q2 = slots q'" "freed q2 = freed q"
      "q_limit q2 = q_limit q" "q_seq q2 = q_seq q" "seqNext q2 = seqNext q" "inflight q2 = inflight q"
      "q_closed q2 = q_closed q"
      unfolding q2_def by (subst f(1), simp)+
    have "counted q2 (remove1 n ns) po"
      using ok f(2,3) pc sl n0 b nf
        total_len_al_put [OF new, of b] nonempty_count_al_put [OF new, of b]
      unfolding qok_def counted_def held_bytes_def held_slots_def q2
      by (cases "n = 0") (auto split: if_splits)
    moreover have "bounded q2" unfolding bounded_def q2 using le by simp
    moreover have "shaped q2 (remove1 n ns) po"
      using ok pos s(1) nf unfolding qok_def shaped_def poll_shape_def q2 by simp
    ultimately show ?thesis unfolding qok_def q2_def by blast
  qed
qed

lemma unreserve_ok:
  assumes "qok q ns po" "n \<in> set ns" "sees q p" "unreserve (q, p) n = (q', p')"
  shows "qok q' (remove1 n ns) po \<and> balanced (q, p) (q', p')"
  using qok_keep(1) [OF assms(1,2), of "[]" p q' p'] pend_nonneg [OF assms(1,2)] assms(3,4)
    balanced_keepLocked [of "(q, p)" 0 n]
  by (simp add: unreserve_def)

lemma enqueue_ok:
  assumes ok: "qok q ns po" and n: "n \<in> set ns" and b: "int (length b) \<le> n" and sees: "sees q p"
    and e: "enqueue (q, p) b n = ((q', p'), r)"
  shows "qok q' (remove1 n ns) po \<and> balanced (q, p) (q', p')"
proof (cases "q_closed q")
  case True
  then have "unreserve (q, p) n = (q', p')" using e by (simp add: enqueue_def unreserve_def)
  then show ?thesis using unreserve_ok ok n sees by blast
next
  case False
  obtain q1 p1 where k: "keepLocked (q, p) n (int (length b)) = (q1, p1)" by (metis surj_pair)
  have r: "q' = ch_send q1 b" "p' = p1" using e False k by (simp_all add: enqueue_def)
  have bal: "balanced (q, p) (q1, p1)"
    using balanced_keepLocked [of "(q, p)" "int (length b)" n] b k sees by simp
  have "balanced (q, p) (q', p')"
    unfolding r by (rule balanced_post [OF bal]) (simp_all add: ch_send_def)
  moreover have "qok q' (remove1 n ns) po"
    unfolding r by (rule qok_keep(2) [OF ok n b k]) (rule qok_not_freed [OF ok False])
  ultimately show ?thesis by blast
qed

lemma qok_promote: "qok q ns po \<Longrightarrow> \<not> freed q \<Longrightarrow> qok (promote q) ns po"
proof (induction q rule: promote.induct)
  case (1 q)
  let ?k = "seqNext q + 1"
  have lt: "\<And>k. k \<in> fst ` set (seqHeld q) \<Longrightarrow> seqNext q < k"
    using 1(2) by (auto simp: qok_def shaped_def)
  show ?case
  proof (cases "map_of (seqHeld q) ?k")
    case None
    then have "?k \<notin> fst ` set (seqHeld q)" by (simp add: map_of_eq_None_iff)
    then have "\<forall>k \<in> fst ` set (seqHeld q). ?k < k"
      using lt by (metis Suc_eq_plus1 Suc_lessI)
    then have "qok (q\<lparr>seqNext := ?k\<rparr>) ns po" using 1(2) by (simp add: qok_defs)
    then show ?thesis using None by (subst promote.simps) simp
  next
    case (Some b)
    let ?q1 = "ch_send (q\<lparr>seqNext := ?k, seqHeld := al_del ?k (seqHeld q)\<rparr>) b"
    have d: "distinct (map fst (seqHeld q))" using 1(2) by (simp add: qok_def shaped_def)
    have "\<forall>k \<in> fst ` set (al_del ?k (seqHeld q)). ?k < k"
      using lt by (auto simp: Suc_lessI)
    then have "qok ?q1 ns po"
      using 1(2,3) total_len_al_del [OF d Some] nonempty_count_al_del [OF d Some] d
      by (cases "b = []") (simp_all add: qok_defs ch_send_def)
    moreover have "\<not> freed ?q1" using 1(3) by (simp add: ch_send_def)
    ultimately have "qok (promote ?q1) ns po"
      using 1(1) [OF refl] Some by simp
    then show ?thesis using Some by (subst promote.simps) simp
  qed
qed

lemma promote_shape: "\<exists>n h c. promote q = q\<lparr>seqNext := n, seqHeld := h, ch := c\<rparr>"
proof (induction q rule: promote.induct)
  case (1 q)
  show ?case
  proof (cases "map_of (seqHeld q) (seqNext q + 1)")
    case None
    then have "promote q = q\<lparr>seqNext := seqNext q + 1, seqHeld := seqHeld q, ch := ch q\<rparr>"
      by (subst promote.simps) simp
    then show ?thesis by blast
  next
    case (Some b)
    obtain n h c where "promote (ch_send (q\<lparr>seqNext := seqNext q + 1,
        seqHeld := al_del (seqNext q + 1) (seqHeld q)\<rparr>) b) =
      (ch_send (q\<lparr>seqNext := seqNext q + 1,
        seqHeld := al_del (seqNext q + 1) (seqHeld q)\<rparr>) b)\<lparr>seqNext := n, seqHeld := h, ch := c\<rparr>"
      using 1 [OF refl, of b] Some by auto
    then have "promote q = q\<lparr>seqNext := n, seqHeld := h, ch := c\<rparr>"
      using Some by (subst promote.simps) (cases "b = []"; simp add: ch_send_def)
    then show ?thesis by blast
  qed
qed

lemma promote_fields [queue_simps]:
  "q_closed (promote q) = q_closed q" "turn (promote q) = turn q" "q_seq (promote q) = q_seq q"
  "assigned (promote q) = assigned q" "unacked (promote q) = unacked q" "head (promote q) = head q"
  "inflight (promote q) = inflight q" "q_limit (promote q) = q_limit q"
  "resident (promote q) = resident q" "slots (promote q) = slots q" "q_room (promote q) = q_room q"
  "pooled (promote q) = pooled q" "q_share (promote q) = q_share q" "freed (promote q) = freed q"
  using promote_shape [of q] by auto

lemma commitSeq_ok:
  assumes ok: "qok q ns po" and n: "n \<in> set ns" and b: "int (length b) \<le> n" and sees: "sees q p"
    and e: "commitSeq (q, p) seq b n = ((q', p'), r)"
  shows "qok q' (remove1 n ns) po \<and> balanced (q, p) (q', p')"
proof -
  consider "q_closed q \<or> held q seq \<or> seq < seqNext q"
    | "\<not> q_closed q" "\<not> held q seq" "seqNext q < seq"
    | "\<not> q_closed q" "\<not> held q seq" "seqNext q = seq" by linarith
  then show ?thesis
  proof cases
    case 1
    then have "unreserve (q, p) n = (q', p')"
      using e by (auto simp: commitSeq_def unreserve_def Let_def split: if_splits)
    then show ?thesis using unreserve_ok ok n sees by blast
  next
    case 2
    obtain q1 p1 where k: "keepLocked (q, p) n (int (length b)) = (q1, p1)" by (metis surj_pair)
    have r: "q' = q1\<lparr>seqHeld := al_put seq b (seqHeld q1)\<rparr>" "p' = p1"
      using e 2 keepLocked_facts(1) [OF k] by (auto simp: commitSeq_def Let_def k)
    have bal: "balanced (q, p) (q1, p1)"
      using balanced_keepLocked [of "(q, p)" "int (length b)" n] b k sees by simp
    have "balanced (q, p) (q', p')" unfolding r by (rule balanced_post [OF bal]) simp_all
    moreover have "qok q' (remove1 n ns) po"
      unfolding r by (rule qok_keep(3) [OF ok n b k qok_not_freed [OF ok 2(1)] 2(3,2)])
    ultimately show ?thesis by blast
  next
    case 3
    obtain q1 p1 r1 where k: "enqueue (q, p) b n = ((q1, p1), r1)" by (metis surj_pair)
    have r1: "r1 = Inr ()" using k 3 by (auto simp: enqueue_def split: prod.splits)
    have r: "q' = wakeLocked (promote q1)" "p' = p1"
      using e 3 k r1 by (auto simp: commitSeq_def Let_def)
    note eq = enqueue_ok [OF ok n b sees k]
    have "\<not> freed q1" using eq qok_not_freed [OF ok 3(1)] by (simp add: balanced_def)
    then have "qok q' (remove1 n ns) po"
      unfolding r using eq by (simp add: wakeLocked_def qok_promote)
    moreover have "balanced (q, p) (q', p')"
      unfolding r by (rule balanced_post [OF conjunct2 [OF eq]]) (simp_all add: wakeLocked_def queue_simps)
    ultimately show ?thesis by blast
  qed
qed

end
