(* ===== verification/Draining.thy ===== *)
theory Draining
  imports Accounting
begin

text \<open>
  The reader's half of the account: every step of a poll (\<open>dropAcked\<close>,
  \<open>drainUpTo\<close>, \<open>takeUpTo\<close>, \<open>takeWindow\<close>, \<open>pollDrain\<close>) and \<open>close\<close> keep the
  invariant of the direction, whatever other requests do in between; \<open>exec_ok\<close>
  puts them together with the writer's half.
\<close>

lemma qokI: "counted q ns po \<Longrightarrow> bounded q \<Longrightarrow> shaped q ns po \<Longrightarrow> qok q ns po"
  by (simp add: qok_def)

lemma dropAcked_fields:
  assumes "dropAcked (q, p) ack = (q', p')"
  shows "ch q' = ch q" "q_closed q' = q_closed q" "turn q' = turn q" "q_seq q' = q_seq q"
    "assigned q' = filter (\<lambda>(k, _). \<not> k \<le> ack) (assigned q)" "head q' = head q"
    "seqNext q' = seqNext q" "seqHeld q' = seqHeld q" "inflight q' = inflight q"
    "q_limit q' = q_limit q" "pooled q' = pooled q" "q_share q' = q_share q" "freed q' = freed q"
    "resident q' = (if freed q then resident q
       else resident q - int (total_len (map snd (filter (\<lambda>(k, _). k \<le> ack) (assigned q)))))"
    "slots q' = slots q"
  using releaseLocked_fields [OF assms [unfolded dropAcked_def Let_def prod.case]]
  by simp_all

lemma dropAcked_ok:
  assumes ok: "qok q ns po" and sees: "sees q p" and d: "dropAcked (q, p) ack = (q', p')"
  shows "qok q' ns po \<and> balanced (q, p) (q', p')"
proof
  note f = dropAcked_fields [OF d]
  have split: "total_len (map snd (filter (\<lambda>(k, _). k \<le> ack) (assigned q)))
      + total_len (map snd (filter (\<lambda>(k, _). \<not> k \<le> ack) (assigned q))) = total_len (map snd (assigned q))"
    using total_len_filter_split [of "\<lambda>(k, _). k \<le> ack" "assigned q"] by (simp add: case_prod_unfold)
  show "qok q' ns po"
  proof (rule qokI)
    show "counted q' ns po"
      using ok split unfolding qok_def counted_def held_bytes_def held_slots_def f by auto
    show "bounded q'" using ok unfolding qok_def bounded_def f by auto
    show "shaped q' ns po"
      using ok unfolding qok_def shaped_def poll_shape_def f
      by (auto simp: distinct_map_filter)
  qed
  let ?q0 = "q\<lparr>assigned := filter (\<lambda>(k, _). \<not> k \<le> ack) (assigned q),
      unacked := snd (oldest ack (q_seq q + 1) [] (assigned q))\<rparr>"
  have "balanced (q, p) (?q0, p)" by (rule balanced_same) simp_all
  moreover have "balanced (?q0, p) (q', p')"
    using balanced_releaseLocked [of "(?q0, p)" "int (total_len (map snd (filter (\<lambda>(k, _). k \<le> ack) (assigned q))))" 0]
      d sees by (simp add: dropAcked_def Let_def sees_def)
  ultimately show "balanced (q, p) (q', p')" by (rule balanced_trans)
qed

lemma appendCapped_fields:
  assumes "appendCapped q d b = (q', d')"
  shows "q' = q\<lparr>head := (if length b > d_limit d - length (d_out d) then drop (d_limit d - length (d_out d)) b else head q)\<rparr>"
    "d' = d\<lparr>d_out := d_out d @ take (d_limit d - length (d_out d)) b\<rparr>"
  using assms by (auto simp: appendCapped_def Let_def split: if_splits)

lemma drain_start_fields:
  assumes "drain_start q t limit = (q', d)"
  shows "q' = q\<lparr>head := drop limit (head q)\<rparr>"
    "d = \<lparr>d_out = take limit (head q), d_taken = 0, d_limit = limit, d_kind = t, d_ending = None\<rparr>"
  using assms by (auto simp: drain_start_def appendCapped_def Let_def split: if_splits)

lemma drain_start_ok:
  assumes ok: "qok q ns None" and l: "0 < limit" and w: "\<forall>w. t = TakeWindow w \<longrightarrow> w = q_seq q + 1"
    and d: "drain_start (q\<lparr>turn := True, inflight := True\<rparr>) t limit = (q', d)"
  shows "qok q' ns (Some d) \<and> balanced (q, p) (q', p)"
proof
  note f = drain_start_fields [OF d]
  show "qok q' ns (Some d)"
  proof (rule qokI)
    show "counted q' ns (Some d)"
      using ok unfolding qok_def counted_def held_bytes_def held_slots_def poll_bytes_def poll_taken_def
      by (auto simp: f)
    show "bounded q'" using ok by (simp add: qok_def bounded_def f)
    show "shaped q' ns (Some d)"
      using ok l w by (auto simp: qok_def shaped_def poll_shape_def f)
  qed
  show "balanced (q, p) (q', p)" by (rule balanced_same) (simp_all add: f)
qed

lemma pull_fields:
  assumes "pull q d = (q', d')"
  shows "q' = q\<lparr>ch := tl (ch q), head := (if length (hd (ch q)) > d_limit d - length (d_out d)
      then drop (d_limit d - length (d_out d)) (hd (ch q)) else head q)\<rparr>"
    "d' = d\<lparr>d_taken := d_taken d + 1, d_out := d_out d @ take (d_limit d - length (d_out d)) (hd (ch q))\<rparr>"
  using assms by (auto simp: pull_def appendCapped_def Let_def split: if_splits)

lemma pull_ok:
  assumes ok: "qok q ns (Some d)" and c: "can_pull q d" and e: "pull q d = (q', d')"
  shows "qok q' ns (Some d') \<and> balanced (q, p) (q', p)"
proof
  note f = pull_fields [OF e]
  have h: "head q = []" using ok c by (auto simp: qok_def shaped_def poll_shape_def can_pull_def)
  obtain b bs where b: "ch q = b # bs" using c by (auto simp: can_pull_def neq_Nil_conv)
  have lim: "length (d_out d) < d_limit d" using c by (simp add: can_pull_def)
  show "qok q' ns (Some d')"
  proof (rule qokI)
    show "counted q' ns (Some d')"
      using ok b h lim unfolding qok_def counted_def held_bytes_def held_slots_def poll_bytes_def poll_taken_def
      by (auto simp: f)
    show "bounded q'" using ok by (simp add: qok_def bounded_def f)
    show "shaped q' ns (Some d')"
      using ok b h lim by (auto simp: qok_def shaped_def poll_shape_def f)
  qed
  show "balanced (q, p) (q', p)" by (rule balanced_same) (simp_all add: f)
qed

lemma end_ok: "qok q ns (Some d) \<Longrightarrow> qok q ns (Some (d\<lparr>d_ending := e\<rparr>))"
  by (simp add: qok_defs)

lemma drain_return_ok:
  assumes ok: "qok q ns (Some d)" and sees: "sees q p"
    and e: "drain_return (q, p) d = ((q', p'), d')"
  shows "qok q' ns (Some d') \<and> balanced (q, p) (q', p')"
proof (cases "d_taken d = 0")
  case True
  then have "d\<lparr>d_taken := 0\<rparr> = d" by (cases d) simp
  moreover have "q' = q \<and> p' = p \<and> d' = d\<lparr>d_taken := 0\<rparr>" using e True by (auto simp: drain_return_def)
  ultimately have "d' = d" "q' = q" "p' = p" by metis+
  then show ?thesis using ok by (simp add: balanced_refl)
next
  case False
  then have r: "releaseLocked (q, p) 0 (int (d_taken d)) = (q', p')" and d': "d' = d\<lparr>d_taken := 0\<rparr>"
    using e by (auto simp: drain_return_def)
  note f = releaseLocked_fields [OF r]
  have "qok q' ns (Some d')"
  proof (rule qokI)
    show "counted q' ns (Some d')"
      using ok unfolding qok_def counted_def held_bytes_def held_slots_def poll_bytes_def poll_taken_def f
      by (auto simp: d')
    show "bounded q'" using ok unfolding qok_def bounded_def f by auto
    show "shaped q' ns (Some d')" using ok unfolding qok_def shaped_def poll_shape_def f by (simp add: d')
  qed
  moreover have "balanced (q, p) (q', p')"
    using balanced_releaseLocked [of "(q, p)" 0 "int (d_taken d)"] sees r by simp
  ultimately show ?thesis by blast
qed

text \<open>Both numbered takers end by assigning the data under the next number.\<close>

lemma assign_ok:
  assumes ok: "qok q ns (Some d)" and t: "d_taken d = 0" and k: "k = q_seq q + 1"
    and q': "q' = release_turn (endTake (assign (q\<lparr>q_seq := k\<rparr>) k (d_out d)))"
  shows "qok q' ns None \<and> balanced (q, p) (q', p)"
proof
  have new: "k \<notin> fst ` set (assigned q)" using ok k by (auto simp: qok_def shaped_def)
  note len = total_len_al_put [OF new, of "d_out d"]
  have f: "ch q' = ch q" "q_closed q' = q_closed q" "turn q' = False" "q_seq q' = k" "head q' = head q"
    "assigned q' = al_put k (d_out d) (assigned q)" "seqNext q' = seqNext q" "seqHeld q' = seqHeld q"
    "inflight q' = False" "q_limit q' = q_limit q" "pooled q' = pooled q" "q_share q' = q_share q"
    "freed q' = freed q" "resident q' = resident q" "slots q' = slots q"
    by (simp_all add: q' release_turn_def endTake_def assign_def)
  show "qok q' ns None"
  proof (rule qokI)
    show "counted q' ns None"
      using ok len t unfolding qok_def counted_def held_bytes_def held_slots_def poll_bytes_def poll_taken_def f
      by auto
    show "bounded q'" using ok unfolding qok_def bounded_def f by auto
    show "shaped q' ns None"
      using ok k keys_al_put [of k "d_out d" "assigned q"] unfolding qok_def shaped_def poll_shape_def f by auto
  qed
  show "balanced (q, p) (q', p)" by (rule balanced_same) (simp_all add: f)
qed

lemma let_go_ok:
  assumes ok: "qok q ns (Some d)" and t: "d_taken d = 0" and sees: "sees q p"
    and r: "releaseLocked (q, p) (int (length (d_out d))) 0 = (q1, p1)"
    and q': "q' = release_turn (endTake q1)"
  shows "qok q' ns None \<and> balanced (q, p) (q', p1)"
proof
  note f = releaseLocked_fields [OF r]
  have g: "ch q' = ch q1" "q_closed q' = q_closed q1" "turn q' = False" "q_seq q' = q_seq q1" "head q' = head q1"
    "assigned q' = assigned q1" "seqNext q' = seqNext q1" "seqHeld q' = seqHeld q1"
    "inflight q' = False" "q_limit q' = q_limit q1" "pooled q' = pooled q1" "q_share q' = q_share q1"
    "freed q' = freed q1" "resident q' = resident q1" "slots q' = slots q1"
    by (simp_all add: q' release_turn_def endTake_def)
  show "qok q' ns None"
  proof (rule qokI)
    show "counted q' ns None"
      using ok t unfolding qok_def counted_def held_bytes_def held_slots_def poll_bytes_def poll_taken_def g f
      by auto
    show "bounded q'" using ok unfolding qok_def bounded_def g f by auto
    show "shaped q' ns None" using ok unfolding qok_def shaped_def poll_shape_def g f by auto
  qed
  have "balanced (q, p) (q1, p1)"
    using balanced_releaseLocked [of "(q, p)" "int (length (d_out d))" 0] sees r by simp
  then show "balanced (q, p) (q', p1)" by (rule balanced_post) (simp_all add: g)
qed

lemma take_finish_ok:
  assumes ok: "qok q ns (Some d)" and t: "d_taken d = 0" and sees: "sees q p"
    and e: "take_finish (q, p) d = ((q', p'), r)"
  shows "qok q' ns None \<and> balanced (q, p) (q', p')"
proof -
  have empty: "qok (release_turn (endTake q)) ns None \<and> balanced (q, p) (release_turn (endTake q), p)"
    if "d_out d = []"
    using let_go_ok [OF ok t sees, of q p] that
    by (simp add: releaseLocked_def split: prod.splits)
  show ?thesis
  proof (cases "d_kind d")
    case TakeUpTo
    then show ?thesis
      using e empty assign_ok [OF ok t refl refl, of p] by (auto simp: take_finish_def Let_def split: if_splits)
  next
    case (TakeWindow w)
    then have "w = q_seq q + 1" using ok by (simp add: qok_def shaped_def poll_shape_def)
    then show ?thesis
      using e TakeWindow empty assign_ok [OF ok t refl refl, of p]
      by (auto simp: take_finish_def Let_def split: if_splits)
  next
    case TakePoll
    obtain q1 p1 where r: "releaseLocked (q, p) (int (length (d_out d))) 0 = (q1, p1)" by (metis surj_pair)
    then have "q' = release_turn (endTake q1)" "p' = p1"
      using e TakePoll by (simp_all add: take_finish_def Let_def)
    then show ?thesis using let_go_ok [OF ok t sees r refl] by simp
  qed
qed

lemma close_ok: "qok q ns po \<Longrightarrow> qok (q_close q) ns po \<and> balanced (q, p) (q_close q, p)"
proof (intro conjI)
  assume "qok q ns po" then show "qok (q_close q) ns po" by (simp add: qok_defs q_close_def)
  show "balanced (q, p) (q_close q, p)" by (rule balanced_same) (simp_all add: q_close_def)
qed

lemma free_ok:
  assumes ok: "qok q ns po" and e: "q_free (q, p) = (q', p')"
  shows "qok q' ns po \<and> pooled q' = pooled q \<and> q_share q' = q_share q \<and> freed q'"
proof (cases "freed q")
  case True
  then have "q' = q_close q" using e by (simp add: q_free_def q_close_def Let_def)
  then show ?thesis using ok close_ok [OF ok] True by (simp add: q_close_def)
next
  case False
  then have q': "q' = q\<lparr>q_closed := True, ch := [], seqHeld := [], head := [], assigned := [], unacked := [],
      resident := 0, slots := 0, freed := True, q_room := False\<rparr>"
    using e by (simp add: q_free_def q_close_def Let_def wakeLocked_def)
  have "0 \<le> q_limit q"
  proof -
    have "0 \<le> sum_list ns" using ok by (intro sum_list_nonneg) (simp add: qok_def shaped_def)
    then show ?thesis using ok False by (auto simp: qok_def counted_def bounded_def)
  qed
  moreover have "0 \<le> queueChunks" by (simp add: queueChunks_def)
  ultimately have "qok q' ns po"
    using ok unfolding qok_def counted_def bounded_def shaped_def poll_shape_def by (simp add: q')
  then show ?thesis by (simp add: q')
qed

subsection \<open>Every step of every request\<close>

lemma dir_split: "dir_ok (d\<lparr>dq := q, pend := ns\<rparr>) = qok q ns (dpoll d)"
  "dir_ok (d\<lparr>dq := q\<rparr>) = qok q (pend d) (dpoll d)"
  "dir_ok (d\<lparr>dq := q, dpoll := po\<rparr>) = qok q (pend d) po"
  "dir_ok (d\<lparr>dpoll := po\<rparr>) = qok (dq d) (pend d) po"
  by (simp_all add: dir_ok_def)

lemma turn_free: "qok q ns po \<Longrightarrow> \<not> turn q \<Longrightarrow> po = None"
  by (auto simp: qok_def shaped_def)

lemma takeUpTo_start_ok:
  assumes ok: "qok q ns None" and sees: "sees q p" and l: "0 < limit"
    and e: "takeUpTo_start (q, p) ack limit = ((q', p'), r)"
  shows "qok q' ns (case r of Inl _ \<Rightarrow> None | Inr d \<Rightarrow> Some d) \<and> balanced (q, p) (q', p')"
proof -
  obtain q1 p1 where d: "dropAcked (q, p) ack = (q1, p1)" by (metis surj_pair)
  note ok1 = dropAcked_ok [OF ok sees d]
  obtain q2 d2 where s: "drain_start (q1\<lparr>turn := True, inflight := True\<rparr>) TakeUpTo limit = (q2, d2)"
    by (metis surj_pair)
  have "qok q2 ns (Some d2) \<and> balanced (q1, p1) (q2, p1)"
    by (rule drain_start_ok [OF conjunct1 [OF ok1] l _ s]) simp
  moreover from this have "balanced (q, p) (q2, p1)" using balanced_trans ok1 by blast
  ultimately show ?thesis
    using e ok1 d s
    by (auto simp: takeUpTo_start_def beginTake_def split: option.splits)
qed

lemma window_start_ok:
  assumes ok: "qok q ns None" and l: "0 < limit" and e: "window_start q want limit = Some (q', d)"
  shows "qok q' ns (Some d) \<and> balanced (q, p) (q', p)"
  by (rule drain_start_ok [OF ok l, of "TakeWindow want"])
     (use e in \<open>auto simp: window_start_def split: if_splits\<close>)

lemma pollDrain_start_ok:
  assumes ok: "qok q ns None" and l: "0 < limit" and e: "pollDrain_start q limit = (q', d)"
  shows "qok q' ns (Some d) \<and> balanced (q, p) (q', p)"
  by (rule drain_start_ok [OF ok l, of TakePoll]) (use e in \<open>auto simp: pollDrain_start_def beginTake_def\<close>)

lemma window_look_ok:
  assumes ok: "qok q ns po" and sees: "sees q p" and e: "window_look (q, p) ack want = ((q', p'), r)"
  shows "qok q' ns po \<and> balanced (q, p) (q', p')"
proof -
  obtain q1 p1 where d: "dropAcked (q, p) ack = (q1, p1)" by (metis surj_pair)
  then have "q' = q1" "p' = p1" using e by (auto simp: window_look_def split: option.splits if_splits)
  then show ?thesis using dropAcked_ok [OF ok sees d] by simp
qed

theorem exec_ok:
  assumes ok: "dir_ok d" and sees: "sees (dq d) p" and e: "exec a d p = Some (d', p', ans)"
  shows "dir_ok d' \<and> (a \<noteq> OpFree \<longrightarrow> balanced (dq d, p) (dq d', p'))"
proof -
  note ok' = ok [unfolded dir_ok_def]
  show ?thesis
  proof (cases a)
    case (OpAdmit seq n w)
    obtain q1 p1 r where r: "admitSeq (dq d, p) seq n w = ((q1, p1), r)" by (metis surj_pair)
    then show ?thesis
      using e OpAdmit admitSeq_ok [OF ok' sees _ r] by (auto simp: dir_split dir_ok_def split: if_splits)
  next
    case (OpReserve n w)
    obtain q1 p1 r where r: "tryReserve (dq d, p) n False w = ((q1, p1), r)" by (metis surj_pair)
    then show ?thesis
      using e OpReserve tryReserve_ok [OF ok' sees _ r]
      by (auto simp: reserve_def dir_ok_def split: if_splits)
  next
    case (OpUnreserve n)
    obtain q1 p1 where r: "unreserve (dq d, p) n = (q1, p1)" by (metis surj_pair)
    then show ?thesis
      using e OpUnreserve unreserve_ok [OF ok' _ sees r] by (auto simp: dir_ok_def split: if_splits)
  next
    case (OpEnqueue b n)
    obtain q1 p1 r where r: "enqueue (dq d, p) b n = ((q1, p1), r)" by (metis surj_pair)
    then show ?thesis
      using e OpEnqueue enqueue_ok [OF ok' _ _ sees r] by (auto simp: dir_ok_def split: if_splits)
  next
    case (OpCommit seq b n)
    obtain q1 p1 r where r: "commitSeq (dq d, p) seq b n = ((q1, p1), r)" by (metis surj_pair)
    then show ?thesis
      using e OpCommit commitSeq_ok [OF ok' _ _ sees r] by (auto simp: dir_ok_def split: if_splits)
  next
    case OpClose
    then show ?thesis using e close_ok [OF ok', of p] by (auto simp: dir_ok_def)
  next
    case OpFree
    obtain q1 p1 where r: "q_free (dq d, p) = (q1, p1)" by (metis surj_pair)
    then show ?thesis using e OpFree free_ok [OF ok' r] by (auto simp: dir_ok_def)
  next
    case (OpTake ack limit)
    then have t: "\<not> turn (dq d)" "0 < limit" using e by (auto split: if_splits)
    then have po: "dpoll d = None" using turn_free ok' by blast
    obtain q1 p1 r where r: "takeUpTo_start (dq d, p) ack limit = ((q1, p1), r)" by (metis surj_pair)
    then show ?thesis
      using e OpTake t po takeUpTo_start_ok [OF ok' [unfolded po] sees t(2) r]
      by (cases r) (auto simp: dir_ok_def)
  next
    case (OpLook ack want)
    obtain q1 p1 r where r: "window_look (dq d, p) ack want = ((q1, p1), r)" by (metis surj_pair)
    then show ?thesis
      using e OpLook window_look_ok [OF ok' sees r] by (cases r) (auto simp: dir_ok_def)
  next
    case (OpWindow want limit)
    then have t: "\<not> turn (dq d)" "0 < limit" using e by (auto split: if_splits)
    then have po: "dpoll d = None" using turn_free ok' by blast
    show ?thesis
    proof (cases "window_start (dq d) want limit")
      case None
      then show ?thesis using e OpWindow t ok by (simp add: balanced_refl)
    next
      case (Some x)
      then show ?thesis
        using e OpWindow t window_start_ok [OF ok' [unfolded po] t(2), of want "fst x" "snd x" p]
        by (cases x) (auto simp: dir_ok_def)
    qed
  next
    case (OpPoll limit)
    then have t: "\<not> turn (dq d)" "0 < limit" using e by (auto split: if_splits)
    then have po: "dpoll d = None" using turn_free ok' by blast
    obtain q1 d1 where r: "pollDrain_start (dq d) limit = (q1, d1)" by (metis surj_pair)
    then show ?thesis
      using e OpPoll t pollDrain_start_ok [OF ok' [unfolded po] t(2) r, of p] by (auto simp: dir_ok_def)
  next
    case OpPull
    then obtain dr where dr: "dpoll d = Some dr" "can_pull (dq d) dr" using e
      by (auto split: option.splits if_splits)
    obtain q1 d1 where r: "pull (dq d) dr = (q1, d1)" by (metis surj_pair)
    then show ?thesis
      using e OpPull dr pull_ok [OF ok' [unfolded dr(1)] dr(2) r, of p] by (auto simp: dir_ok_def)
  next
    case (OpEnd en)
    then obtain dr where dr: "dpoll d = Some dr" "can_end (dq d) dr en" using e
      by (auto split: option.splits if_splits)
    then show ?thesis
      using e OpEnd end_ok [OF ok' [unfolded dr(1)]] by (auto simp: dir_ok_def balanced_refl)
  next
    case OpReturn
    then obtain dr where dr: "dpoll d = Some dr" "d_ending dr \<noteq> None" using e
      by (auto split: option.splits if_splits)
    obtain q1 p1 d1 where r: "drain_return (dq d, p) dr = ((q1, p1), d1)" by (metis surj_pair)
    then show ?thesis
      using e OpReturn dr drain_return_ok [OF ok' [unfolded dr(1)] sees r] by (auto simp: dir_ok_def)
  next
    case OpFinish
    then obtain dr where dr: "dpoll d = Some dr" "d_taken dr = 0" using e
      by (auto split: option.splits if_splits)
    obtain q1 p1 r where r: "take_finish (dq d, p) dr = ((q1, p1), r)" by (metis surj_pair)
    then show ?thesis
      using e OpFinish dr take_finish_ok [OF ok' [unfolded dr(1)] dr(2) sees r]
      by (auto simp: dir_ok_def split: if_splits)
  qed
qed

end
