(* ===== verification/HttpConn.thy ===== *)
theory HttpConn
  imports Prelude
begin

text \<open>
  \<open>src/internal/httpconn/httpconn.go\<close>: the two ends of a session carried over HTTP
  polls. The writer batches what \<open>Write\<close> is given into numbered \<open>/h/up\<close> posts; the
  reader fetches numbered chunks with \<open>/h/down\<close> polls, acknowledges them, and hands
  their bytes out through \<open>Read\<close>. The HTTP exchanges themselves are arguments: what
  came back for each attempt of a post or a poll.

  Two fields are ghosts: \<open>sent\<close> is the list of the posts handed out so far (post
  number k is the k-th), and \<open>read_out\<close> the bytes \<open>Read\<close> has returned.
\<close>

definition DownWindowSize :: nat where [go_defs]: "DownWindowSize = 4"
definition laneCount :: nat where [go_defs]: "laneCount = 1 + DownWindowSize"
definition writeBatchBytes :: nat where [go_defs]: "writeBatchBytes = 2 ^ 20"
definition upWindow :: nat where [go_defs]: "upWindow = 2 * DownWindowSize"
definition upAttempts :: nat where [go_defs]: "upAttempts = 4"
definition downPollAttempts :: nat where [go_defs]: "downPollAttempts = 6"
definition downMaxFloor :: nat where [go_defs]: "downMaxFloor = 2 * 2 ^ 20"
definition downMaxCeiling :: nat where [go_defs]: "downMaxCeiling = 16 * 2 ^ 20"
definition downGrowWithin :: duration where [go_defs]: "downGrowWithin = 4 * Second"
definition downShrinkPast :: duration where [go_defs]: "downShrinkPast = 30 * Second"
definition laneZeroDownMax :: nat where [go_defs]: "laneZeroDownMax = 256 * 2 ^ 10"

subsection \<open>Lanes\<close>

definition nextBulkLane :: "nat \<Rightarrow> nat" where
  "nextBulkLane i = i mod (laneCount - 1) + 1"

text \<open>One pass of \<open>acquireLane\<close> over the busy counts of one direction; \<open>None\<close> when it has to wait.\<close>

fun lane_scan :: "nat \<Rightarrow> nat \<Rightarrow> nat list \<Rightarrow> nat option" where
  "lane_scan 0 i busy = None"
| "lane_scan (Suc j) i busy = (if busy ! i = 0 then Some i else lane_scan j (nextBulkLane i) busy)"

definition acquireLane :: "nat list \<Rightarrow> nat \<Rightarrow> (nat list \<times> nat) option" where
  "acquireLane busy start =
     map_option (\<lambda>i. (busy[i := 1], i)) (lane_scan (laneCount - 1) start busy)"

definition reserveLaneZero :: "nat list \<Rightarrow> nat list" where
  "reserveLaneZero busy = busy[0 := busy ! 0 + 1]"

definition releaseLane :: "nat list \<Rightarrow> nat \<Rightarrow> nat list" where
  "releaseLane busy i = busy[i := busy ! i - 1]"

subsection \<open>The writer\<close>

datatype conn_err = ErrClosedPipe | ErrUpload | ErrEOF | ErrDeviceGone | ErrDown | ErrSeq nat nat | ErrStatus nat

record writer =
  w_pending :: "byte list"
  flushTimer :: bool
  flushGen :: nat
  w_closed :: bool
  upSeq :: nat
  upOrdered :: bool
  writeErr :: "conn_err option"
  sent :: "byte list list"

definition new_writer :: writer where
  "new_writer = \<lparr>w_pending = [], flushTimer = False, flushGen = 0, w_closed = False, upSeq = 0,
     upOrdered = False, writeErr = None, sent = []\<rparr>"

definition fail :: "writer \<Rightarrow> conn_err \<Rightarrow> writer" where
  "fail w e = (if writeErr w = None then w\<lparr>writeErr := Some e\<rparr> else w)"

text \<open>
  \<open>sendLocked\<close>: \<open>posted seq\<close> is what a post in the foreground comes to, which only a
  relay that does not order writes makes the writer wait for.
\<close>

definition sendLocked :: "(nat \<Rightarrow> conn_err option) \<Rightarrow> writer \<Rightarrow> nat \<Rightarrow> writer \<times> conn_err option" where
  "sendLocked posted w n =
     (let d = take n (w_pending w);
          w = w\<lparr>w_pending := drop n (w_pending w), upSeq := upSeq w + 1, sent := sent w @ [d]\<rparr>
      in if \<not> upOrdered w then
           (case posted (upSeq w) of Some e \<Rightarrow> (fail w e, Some e) | None \<Rightarrow> (w, None))
         else (w, None))"

definition stopFlushTimerLocked :: "writer \<Rightarrow> writer" where
  "stopFlushTimerLocked w =
     (if flushTimer w then w\<lparr>flushTimer := False, flushGen := flushGen w + 1\<rparr> else w)"

lemma writeBatchBytes_pos: "0 < writeBatchBytes"
  by (simp add: writeBatchBytes_def)

lemma sendLocked_pending: "w_pending (fst (sendLocked posted w n)) = drop n (w_pending w)"
  by (auto simp: sendLocked_def Let_def fail_def split: option.splits)

function write_loop :: "(nat \<Rightarrow> conn_err option) \<Rightarrow> writer \<Rightarrow> writer \<times> conn_err option" where
  "write_loop posted w =
     (if length (w_pending w) \<ge> writeBatchBytes then
        (case snd (sendLocked posted w writeBatchBytes) of
           Some e \<Rightarrow> (fst (sendLocked posted w writeBatchBytes), Some e)
         | None \<Rightarrow> write_loop posted (fst (sendLocked posted w writeBatchBytes)))
      else (w, None))"
  by pat_completeness auto
termination
proof (relation "measure (\<lambda>(posted, w). length (w_pending w))", goal_cases)
  case (2 posted w)
  have "writeBatchBytes \<le> length (w_pending w)" "0 < writeBatchBytes"
    using 2 writeBatchBytes_pos by simp_all
  then show ?case by (simp add: sendLocked_pending)
qed simp

declare write_loop.simps [simp del]

definition Write :: "(nat \<Rightarrow> conn_err option) \<Rightarrow> writer \<Rightarrow> byte list \<Rightarrow> writer \<times> (conn_err + nat)" where
  "Write posted w p =
     (if w_closed w then (w, Inl ErrClosedPipe)
      else case writeErr w of
        Some e \<Rightarrow> (w, Inl e)
      | None \<Rightarrow>
         (let w = w\<lparr>w_pending := w_pending w @ p\<rparr>;
              w = (if length (w_pending w) \<ge> writeBatchBytes then stopFlushTimerLocked w else w)
          in case write_loop posted w of
               (w, Some e) \<Rightarrow> (w, Inl e)
             | (w, None) \<Rightarrow>
                 ((if length (w_pending w) > 0 \<and> \<not> flushTimer w
                   then w\<lparr>flushGen := flushGen w + 1, flushTimer := True\<rparr> else w),
                  Inr (length p))))"

definition flushTimerFired :: "(nat \<Rightarrow> conn_err option) \<Rightarrow> writer \<Rightarrow> nat \<Rightarrow> writer" where
  "flushTimerFired posted w gen =
     (if \<not> flushTimer w \<or> flushGen w \<noteq> gen then w
      else
        (let w = w\<lparr>flushTimer := False\<rparr>
         in if w_closed w \<or> writeErr w \<noteq> None \<or> w_pending w = [] then w
            else fst (sendLocked posted w (length (w_pending w)))))"

definition flushWrites :: "(nat \<Rightarrow> conn_err option) \<Rightarrow> writer \<Rightarrow> writer \<times> conn_err option" where
  "flushWrites posted w =
     (case writeErr w of
        Some e \<Rightarrow> (w, Some e)
      | None \<Rightarrow>
         (let w = stopFlushTimerLocked w
          in if w_pending w = [] then (w, None) else sendLocked posted w (length (w_pending w))))"

text \<open>
  \<open>Close\<close>, up to the request it posts: the tail that rides with \<open>/h/close\<close> and its
  sequence number, when the relay orders writes.
\<close>

definition Close :: "(nat \<Rightarrow> conn_err option) \<Rightarrow> writer \<Rightarrow> writer \<times> (nat \<times> byte list) option" where
  "Close posted w =
     (if w_closed w then (w, None)
      else
        (let w = stopFlushTimerLocked w
         in if writeErr w = None \<and> w_pending w \<noteq> [] then
              (if upOrdered w then
                 (w\<lparr>w_pending := [], upSeq := upSeq w + 1, sent := sent w @ [w_pending w], w_closed := True\<rparr>,
                  Some (upSeq w + 1, w_pending w))
               else ((fst (sendLocked posted w (length (w_pending w))))\<lparr>w_closed := True\<rparr>, None))
            else (w\<lparr>w_closed := True\<rparr>, None)))"

text \<open>
  \<open>post\<close>: one attempt's answer is a network error, or a status with the ordering
  header and whether the answer's body broke off. The result says how the post
  ended, whether the relay is now known to order writes, and how many requests
  were made.
\<close>

datatype attempt = Unanswered | Answer nat bool bool

fun post_loop :: "nat \<Rightarrow> bool \<Rightarrow> conn_err option \<Rightarrow> nat \<Rightarrow> attempt list \<Rightarrow> conn_err option \<times> bool \<times> nat" where
  "post_loop n ordered lastErr k [] = (lastErr, ordered, k)"
| "post_loop n ordered lastErr k (a # as) =
     (if n > upAttempts \<or> (n > 1 \<and> \<not> ordered) then (lastErr, ordered, k)
      else case a of
        Unanswered \<Rightarrow> post_loop (n + 1) ordered (Some ErrUpload) (k + 1) as
      | Answer status hdr broken \<Rightarrow>
         (let ordered = (ordered \<or> hdr) in
          if broken then post_loop (n + 1) ordered (Some ErrUpload) (k + 1) as
          else if status = 200 then (None, ordered, k + 1)
          else if status \<ge> 500 then post_loop (n + 1) ordered (Some (ErrStatus status)) (k + 1) as
          else (Some (ErrStatus status), ordered, k + 1)))"

definition post :: "bool \<Rightarrow> attempt list \<Rightarrow> conn_err option \<times> bool \<times> nat" where
  "post ordered as = post_loop 1 ordered None 0 as"

subsection \<open>The reader\<close>

record downResult =
  dr_want :: nat
  dr_max :: nat
  dr_data :: "byte list"
  dr_seq :: nat
  dr_status :: nat
  dr_ackable :: bool
  dr_window :: bool
  dr_retried :: bool
  dr_end :: string
  dr_took :: duration
  dr_err :: "conn_err option"

record downBatch =
  b_pending :: "(nat \<times> downResult) list"
  b_next :: nat
  b_end :: nat

record reader =
  leftover :: "byte list"
  eof :: bool
  endErr :: "conn_err option"
  ackSeq :: nat
  ackable :: bool
  downMax :: nat
  downWindow :: bool
  batch :: "downBatch option"
  read_out :: "byte list"

definition new_reader :: reader where
  "new_reader = \<lparr>leftover = [], eof = False, endErr = None, ackSeq = 0, ackable = False,
     downMax = downMaxFloor, downWindow = False, batch = None, read_out = []\<rparr>"

text \<open>The polls a step launches: what they acknowledge, the chunk they want, their limit.\<close>

type_synonym launch = "nat \<times> nat \<times> nat"

definition launchPoll :: "reader \<Rightarrow> nat \<Rightarrow> nat \<Rightarrow> launch" where
  "launchPoll c ack want = (ack, want, min (downMax c) (4 * 2 ^ 20))"

definition startBatch :: "reader \<Rightarrow> reader \<times> launch list" where
  "startBatch c =
     (c\<lparr>batch := Some \<lparr>b_pending = [], b_next = ackSeq c + 1, b_end = ackSeq c + DownWindowSize\<rparr>\<rparr>,
      map (launchPoll c (ackSeq c)) [ackSeq c + 1 ..< ackSeq c + DownWindowSize + 1])"

definition extendBatch :: "reader \<Rightarrow> reader \<times> launch list" where
  "extendBatch c =
     (case batch c of None \<Rightarrow> (c, [])
      | Some b \<Rightarrow>
          (c\<lparr>batch := Some (b\<lparr>b_end := b_end b + 1\<rparr>)\<rparr>, [launchPoll c (ackSeq c) (b_end b + 1)]))"

definition stopBatch :: "reader \<Rightarrow> reader" where
  "stopBatch c = c\<lparr>batch := None\<rparr>"

text \<open>\<open>nextBatchResult\<close>: results are kept until it is their turn; \<open>None\<close> while it is not.\<close>

definition batch_arrive :: "downBatch \<Rightarrow> downResult \<Rightarrow> downBatch" where
  "batch_arrive b r = b\<lparr>b_pending := al_put (dr_want r) r (b_pending b)\<rparr>"

definition nextBatchResult :: "downBatch \<Rightarrow> (downBatch \<times> downResult) option" where
  "nextBatchResult b =
     (case map_of (b_pending b) (b_next b) of
        None \<Rightarrow> None
      | Some r \<Rightarrow> Some (b\<lparr>b_pending := al_del (b_next b) (b_pending b), b_next := b_next b + 1\<rparr>, r))"

definition adjustDownMax :: "reader \<Rightarrow> nat \<Rightarrow> duration \<Rightarrow> bool \<Rightarrow> reader" where
  "adjustDownMax c n took readErr =
     (if readErr \<or> took > downShrinkPast then c\<lparr>downMax := max (downMax c div 2) downMaxFloor\<rparr>
      else if n \<ge> downMax c \<and> took < downGrowWithin then c\<lparr>downMax := min (downMax c * 2) downMaxCeiling\<rparr>
      else c)"

text \<open>What \<open>Read\<close> returns to its caller, or that its loop polls again.\<close>

datatype read_step = Again | Bytes "byte list" | Failed conn_err

text \<open>\<open>n\<close> is the size of the caller's buffer.\<close>

definition hand_out :: "reader \<Rightarrow> nat \<Rightarrow> byte list \<Rightarrow> reader \<times> read_step" where
  "hand_out c n d =
     (c\<lparr>leftover := drop n d, read_out := read_out c @ take n d\<rparr>, Bytes (take n d))"

text \<open>The start of \<open>Read\<close>, before it polls; the flush of the writer comes first in the code.\<close>

definition read_start :: "reader \<Rightarrow> nat \<Rightarrow> reader \<times> read_step" where
  "read_start c n =
     (if leftover c \<noteq> [] then hand_out c n (leftover c)
      else if eof c then (c, Failed (case endErr c of Some e \<Rightarrow> e | None \<Rightarrow> ErrEOF))
      else (c, Again))"

text \<open>The checks at the head of each turn of the loop.\<close>

definition read_turn :: "writer \<Rightarrow> conn_err option" where
  "read_turn w = (if w_closed w then Some ErrEOF else writeErr w)"

text \<open>
  What a delivered chunk means for the window of polls: a short one stops the
  batch, a full one starts or extends it.
\<close>

definition next_batch :: "reader \<Rightarrow> bool \<Rightarrow> downResult \<Rightarrow> reader \<times> launch list" where
  "next_batch c windowed r =
     (let c = (if windowed \<and> length (dr_data r) < dr_max r then stopBatch c else c)
      in if \<not> windowed \<and> downWindow c \<and> length (dr_data r) = dr_max r then startBatch c
         else if windowed \<and> batch c \<noteq> None \<and> length (dr_data r) = dr_max r then extendBatch c
         else (c, []))"

text \<open>A 200 whose sequence is the one asked for.\<close>

definition read_chunk :: "reader \<Rightarrow> nat \<Rightarrow> bool \<Rightarrow> downResult \<Rightarrow> reader \<times> read_step \<times> launch list" where
  "read_chunk c n windowed r =
     (let c = adjustDownMax c (length (dr_data r)) (dr_took r) (dr_retried r) in
      if dr_seq r > 0 \<and> dr_seq r \<le> ackSeq c then (c, Again, [])
      else
       (let c = (if dr_seq r > 0 then c\<lparr>ackSeq := dr_seq r\<rparr> else c);
            (c, ls) = next_batch c windowed r
        in if dr_data r = [] then (c, Again, ls)
           else (let (c, s) = hand_out c n (dr_data r) in (c, s, ls))))"

text \<open>One turn of the loop of \<open>Read\<close> on a result.\<close>

definition read_result :: "reader \<Rightarrow> nat \<Rightarrow> downResult \<Rightarrow> reader \<times> read_step \<times> launch list" where
  "read_result c n r =
     (let windowed = (batch c \<noteq> None);
          stop = (if windowed then stopBatch else id) in
      case dr_err r of
        Some e \<Rightarrow> (stop c, Failed e, [])
      | None \<Rightarrow>
         (let c = c\<lparr>ackable := (ackable c \<or> dr_ackable r), downWindow := (downWindow c \<or> dr_window r)\<rparr> in
          if dr_status r = 204 then (stop c, Again, [])
          else if dr_status r = 200 then
            (if windowed \<and> dr_seq r \<noteq> dr_want r then (stopBatch c, Failed (ErrSeq (dr_want r) (dr_seq r)), [])
             else read_chunk c n windowed r)
          else if dr_status r = 410 \<or> dr_status r = 404 then
            (let c = (stop c)\<lparr>eof := True\<rparr> in
             if dr_end r = ''device-gone'' then (c\<lparr>endErr := Some ErrDeviceGone\<rparr>, Failed ErrDeviceGone, [])
             else (c, Failed ErrEOF, []))
          else (stop c, Failed (ErrStatus (dr_status r)), [])))"

text \<open>The limit a poll without \<open>want\<close> asks for.\<close>

definition poll_limit :: "reader \<Rightarrow> bool \<Rightarrow> nat" where
  "poll_limit c agent =
     (if agent \<and> downWindow c then min (downMax c) laneZeroDownMax else downMax c)"

text \<open>
  \<open>downPoll\<close>: an attempt that fails reports the status it saw (0 for none) and
  whether the relay's answer claimed the acknowledgement protocol.
\<close>

datatype down_attempt = Lost nat bool | Got downResult

fun downPoll_loop :: "nat \<Rightarrow> bool \<Rightarrow> bool \<Rightarrow> nat \<Rightarrow> down_attempt list \<Rightarrow> (conn_err + downResult) \<times> nat" where
  "downPoll_loop n retryable broke k [] = (Inl ErrDown, k)"
| "downPoll_loop n retryable broke k (Got r # as) = (Inr (r\<lparr>dr_retried := broke\<rparr>), k + 1)"
| "downPoll_loop n retryable broke k (Lost st ack # as) =
     (if \<not> retryable \<and> \<not> ack then (Inl ErrDown, k + 1)
      else if n = downPollAttempts then (Inl ErrDown, k + 1)
      else downPoll_loop (n + 1) True (broke \<or> st = 200) (k + 1) as)"

definition downPoll :: "bool \<Rightarrow> down_attempt list \<Rightarrow> (conn_err + downResult) \<times> nat" where
  "downPoll retryable as = downPoll_loop 1 retryable False 0 as"

subsection \<open>The writer's stream\<close>

definition written :: "writer \<Rightarrow> byte list" where
  "written w = concat (sent w) @ w_pending w"

definition writer_ok :: "writer \<Rightarrow> bool" where
  "writer_ok w \<longleftrightarrow> upSeq w = length (sent w) \<and> (\<forall>b \<in> set (sent w). b \<noteq> [] \<and> length b \<le> writeBatchBytes)"

lemma fail_fields [simp]: "sent (fail w e) = sent w" "w_pending (fail w e) = w_pending w"
  "upSeq (fail w e) = upSeq w" "w_closed (fail w e) = w_closed w" "upOrdered (fail w e) = upOrdered w"
  "flushTimer (fail w e) = flushTimer w"
  by (simp_all add: fail_def)

lemma stopFlush_fields [simp]:
  "sent (stopFlushTimerLocked w) = sent w" "w_pending (stopFlushTimerLocked w) = w_pending w"
  "upSeq (stopFlushTimerLocked w) = upSeq w" "writeErr (stopFlushTimerLocked w) = writeErr w"
  "upOrdered (stopFlushTimerLocked w) = upOrdered w" "w_closed (stopFlushTimerLocked w) = w_closed w"
  by (simp_all add: stopFlushTimerLocked_def)

lemma sendLocked_fields:
  assumes "sendLocked posted w n = (w', e)"
  shows "sent w' = sent w @ [take n (w_pending w)]" "w_pending w' = drop n (w_pending w)"
    "upSeq w' = upSeq w + 1" "w_closed w' = w_closed w" "upOrdered w' = upOrdered w"
  using assms by (auto simp: sendLocked_def Let_def split: if_splits option.splits)

lemma sendLocked_written:
  assumes "sendLocked posted w n = (w', e)"
  shows "written w' = written w"
  using sendLocked_fields [OF assms] by (simp add: written_def)

lemma sendLocked_ok:
  assumes "sendLocked posted w n = (w', e)" "writer_ok w" "0 < n" "n \<le> writeBatchBytes" "w_pending w \<noteq> []"
  shows "writer_ok w'"
  using sendLocked_fields [OF assms(1)] assms(2-) by (auto simp: writer_ok_def)

lemma write_loop_written: "written (fst (write_loop posted w)) = written w"
proof (induction posted w rule: write_loop.induct)
  case (1 posted w)
  obtain w1 e1 where s: "sendLocked posted w writeBatchBytes = (w1, e1)" by (metis surj_pair)
  show ?case
    using 1 s sendLocked_written [OF s]
    by (subst write_loop.simps) (auto split: option.splits)
qed

lemma write_loop_ok: "writer_ok w \<Longrightarrow> writer_ok (fst (write_loop posted w))"
proof (induction posted w rule: write_loop.induct)
  case (1 posted w)
  obtain w1 e1 where s: "sendLocked posted w writeBatchBytes = (w1, e1)" by (metis surj_pair)
  show ?case
  proof (cases "writeBatchBytes \<le> length (w_pending w)")
    case True
    then have "w_pending w \<noteq> []" using writeBatchBytes_pos by auto
    then have "writer_ok w1" using sendLocked_ok [OF s 1(2)] writeBatchBytes_pos by simp
    then show ?thesis using 1(1) True s by (subst write_loop.simps) (auto split: option.splits)
  next
    case False
    then show ?thesis using 1(2) by (subst write_loop.simps) simp
  qed
qed

lemma write_loop_short: "snd (write_loop posted w) = None \<Longrightarrow> length (w_pending (fst (write_loop posted w))) < writeBatchBytes"
proof (induction posted w rule: write_loop.induct)
  case (1 posted w)
  obtain w1 e1 where s: "sendLocked posted w writeBatchBytes = (w1, e1)" by (metis surj_pair)
  show ?case
    using 1 s by (subst write_loop.simps, subst (asm) (2) write_loop.simps) (auto split: option.splits if_splits)
qed

lemma Write_written:
  assumes "Write posted w p = (w', r)" "\<not> w_closed w" "writeErr w = None"
  shows "written w' = written w @ p"
proof -
  define w1 where "w1 = w\<lparr>w_pending := w_pending w @ p\<rparr>"
  define w2 where "w2 = (if length (w_pending w1) \<ge> writeBatchBytes then stopFlushTimerLocked w1 else w1)"
  have "written w2 = written w @ p" by (simp add: w2_def w1_def written_def)
  moreover have "written w' = written (fst (write_loop posted w2))"
    using assms by (auto simp: Write_def Let_def w1_def [symmetric] w2_def [symmetric] written_def
        split: prod.splits option.splits if_splits)
  ultimately show ?thesis by (simp add: write_loop_written)
qed

lemma Write_refused:
  "w_closed w \<or> writeErr w \<noteq> None \<Longrightarrow> Write posted w p = (w', r) \<Longrightarrow> w' = w"
  by (auto simp: Write_def split: option.splits if_splits)

lemma Write_ok:
  assumes "Write posted w p = (w', r)" "writer_ok w"
  shows "writer_ok w'"
proof (cases "w_closed w \<or> writeErr w \<noteq> None")
  case True
  then show ?thesis using Write_refused [OF True assms(1)] assms(2) by simp
next
  case False
  define w1 where "w1 = w\<lparr>w_pending := w_pending w @ p\<rparr>"
  define w2 where "w2 = (if length (w_pending w1) \<ge> writeBatchBytes then stopFlushTimerLocked w1 else w1)"
  have "writer_ok w2" using assms(2) by (simp add: w2_def w1_def writer_ok_def)
  then have "writer_ok (fst (write_loop posted w2))" by (rule write_loop_ok)
  then show ?thesis
    using assms(1) False by (auto simp: Write_def Let_def w1_def [symmetric] w2_def [symmetric] writer_ok_def
        split: prod.splits option.splits if_splits)
qed

lemma sendLocked_all:
  assumes "sendLocked posted w (length (w_pending w)) = (w', e)"
  shows "sent w' = sent w @ [w_pending w]" "w_pending w' = []"
  using sendLocked_fields [OF assms] by simp_all

text \<open>Every operation of the writer only ever adds posts.\<close>

lemma sent_append:
  "\<exists>xs. sent (fst (write_loop posted w)) = sent w @ xs"
proof (induction posted w rule: write_loop.induct)
  case (1 posted w)
  obtain w1 e1 where s: "sendLocked posted w writeBatchBytes = (w1, e1)" by (metis surj_pair)
  note f = sendLocked_fields [OF s]
  show ?case
    using 1 s f(1) by (subst write_loop.simps) (auto split: option.splits)
qed

lemma Write_sent: "Write posted w p = (w', r) \<Longrightarrow> \<exists>xs. sent w' = sent w @ xs"
proof -
  assume a: "Write posted w p = (w', r)"
  show ?thesis
  proof (cases "w_closed w \<or> writeErr w \<noteq> None")
    case True
    then show ?thesis using Write_refused [OF True a] by simp
  next
    case False
    define w1 where "w1 = w\<lparr>w_pending := w_pending w @ p\<rparr>"
    define w2 where "w2 = (if length (w_pending w1) \<ge> writeBatchBytes then stopFlushTimerLocked w1 else w1)"
    have "sent w' = sent (fst (write_loop posted w2))"
      using a False by (auto simp: Write_def Let_def w1_def [symmetric] w2_def [symmetric]
          split: prod.splits option.splits if_splits)
    moreover have "sent w2 = sent w" by (simp add: w2_def w1_def)
    ultimately show ?thesis using sent_append [of posted w2] by simp
  qed
qed

end
