(* ===== verification/Tunnel.thy ===== *)
theory Tunnel
  imports Draining HttpConn
begin

text \<open>
  One direction of a session from end to end: the writer and the reader of
  \<open>httpconn.go\<close> at its two ends, the relay's \<open>sideQueue\<close> between them, and a
  carrier that may lose, repeat, delay and reorder every request and every
  answer. \<open>tunnel_step\<close> lets each of them move in any order, one critical section
  at a time, while the other sessions change the relay's account at will.

  \<open>tlog\<close> is a ghost: the chunks numbered so far, in order. Requests and answers
  are never removed from \<open>treq\<close> and \<open>tnet\<close>, so a repeated or late one is always
  possible; losing one is never picking it.

  The one thing the carrier may not do is start an unnumbered poll on a queue
  that \<open>free\<close> has emptied: the relay takes a session out of its registry before
  it frees it, so such a poll finds no session.
\<close>

type_synonym request = "nat \<times> nat \<times> nat"  \<comment> \<open>ack, want (0 for none), limit\<close>

record tunnel =
  tw :: writer
  tr :: reader
  td :: dir
  tp :: residency
  tlog :: "bytes list"
  treq :: "request set"
  tnet :: "(request \<times> reply) set"
  tcur :: request

definition start_tunnel :: "string \<Rightarrow> residency \<Rightarrow> tunnel" where
  "start_tunnel ns p =
     (let (q, p') = attach (newSideQueue, p) ns in
      \<lparr>tw = new_writer, tr = new_reader, td = \<lparr>dq = q, pend = [], dpoll = None\<rparr>, tp = p',
       tlog = [], treq = {}, tnet = {}, tcur = (0, 0, 0)\<rparr>)"

text \<open>What the reader may see of an answer: the carrier's failure, or the answer itself.\<close>

definition answers :: "reply \<Rightarrow> request \<Rightarrow> downResult \<Rightarrow> bool" where
  "answers r rq dr \<longleftrightarrow>
     (case rq of (ack, w, limit) \<Rightarrow>
        dr_want dr = w \<and> dr_max dr = limit \<and>
        (dr_err dr = None \<longrightarrow>
           (if r_data r \<noteq> [] then dr_status dr = 200 \<and> dr_data dr = r_data r \<and> dr_seq dr = r_seq r
            else dr_status dr \<noteq> 200)))"

text \<open>What a writer's request may do to the queue.\<close>

fun upload_op :: "bytes list \<Rightarrow> op \<Rightarrow> bool" where
  "upload_op posts (OpAdmit k n w) = True"
| "upload_op posts (OpUnreserve n) = True"
| "upload_op posts (OpCommit k b n) = (1 \<le> k \<and> k \<le> length posts \<and> b = posts ! (k - 1))"
| "upload_op posts OpClose = True"
| "upload_op posts OpFree = True"
| "upload_op posts _ = False"

inductive tunnel_step :: "tunnel \<Rightarrow> tunnel \<Rightarrow> bool" where
  writes: "Write posted (tw t) p = (w', res) \<Longrightarrow> tunnel_step t (t\<lparr>tw := w'\<rparr>)"
| flush: "flushWrites posted (tw t) = (w', res) \<Longrightarrow> tunnel_step t (t\<lparr>tw := w'\<rparr>)"
| timer: "tunnel_step t (t\<lparr>tw := flushTimerFired posted (tw t) gen\<rparr>)"
| closing: "Close posted (tw t) = (w', tail) \<Longrightarrow> tunnel_step t (t\<lparr>tw := w'\<rparr>)"
| learned: "tunnel_step t (t\<lparr>tw := (tw t)\<lparr>upOrdered := True\<rparr>\<rparr>)"
| failed: "tunnel_step t (t\<lparr>tw := fail (tw t) e\<rparr>)"
| upload: "upload_op (sent (tw t)) a \<Longrightarrow> exec a (td t) (tp t) = Some (d', p', ans)
           \<Longrightarrow> tunnel_step t (t\<lparr>td := d', tp := p'\<rparr>)"
| others: "sees (dq (td t)) p' \<Longrightarrow> tunnel_step t (t\<lparr>tp := p'\<rparr>)"
| asks: "0 < limit \<Longrightarrow> tunnel_step t (t\<lparr>treq := insert (ackSeq (tr t), 0, limit) (treq t)\<rparr>)"
| take_replay: "(ack, 0, limit) \<in> treq t \<Longrightarrow> \<not> freed (dq (td t)) \<Longrightarrow>
           exec (OpTake ack limit) (td t) (tp t) = Some (d', p', ReplyIs r)
           \<Longrightarrow> tunnel_step t (t\<lparr>td := d', tp := p', tnet := insert ((ack, 0, limit), r) (tnet t)\<rparr>)"
| take_start: "(ack, 0, limit) \<in> treq t \<Longrightarrow> \<not> freed (dq (td t)) \<Longrightarrow>
           exec (OpTake ack limit) (td t) (tp t) = Some (d', p', NoAnswer)
           \<Longrightarrow> tunnel_step t (t\<lparr>td := d', tp := p', tcur := (ack, 0, limit)\<rparr>)"
| look_reply: "(ack, w, limit) \<in> treq t \<Longrightarrow> 0 < w \<Longrightarrow>
           exec (OpLook ack w) (td t) (tp t) = Some (d', p', ReplyIs r)
           \<Longrightarrow> tunnel_step t (t\<lparr>td := d', tp := p', tnet := insert ((ack, w, limit), r) (tnet t)\<rparr>)"
| look_wait: "(ack, w, limit) \<in> treq t \<Longrightarrow> 0 < w \<Longrightarrow>
           exec (OpLook ack w) (td t) (tp t) = Some (d', p', NoAnswer)
           \<Longrightarrow> tunnel_step t (t\<lparr>td := d', tp := p'\<rparr>)"
| window_go: "(ack, w, limit) \<in> treq t \<Longrightarrow> 0 < w \<Longrightarrow>
           exec (OpWindow w limit) (td t) (tp t) = Some (d', p', NoAnswer)
           \<Longrightarrow> tunnel_step t (t\<lparr>td := d', tp := p',
                 tcur := (if dpoll d' \<noteq> None then (ack, w, limit) else tcur t)\<rparr>)"
| polling: "a = OpPull \<or> a = OpReturn \<or> a = OpEnd e \<Longrightarrow>
           exec a (td t) (tp t) = Some (d', p', ans) \<Longrightarrow> tunnel_step t (t\<lparr>td := d', tp := p'\<rparr>)"
| finish: "exec OpFinish (td t) (tp t) = Some (d', p', ReplyIs r)
           \<Longrightarrow> tunnel_step t (t\<lparr>td := d', tp := p', tnet := insert (tcur t, r) (tnet t),
                 tlog := (if r_data r \<noteq> [] then tlog t @ [r_data r] else tlog t)\<rparr>)"
| hands_out: "read_start (tr t) n = (c', s) \<Longrightarrow> tunnel_step t (t\<lparr>tr := c'\<rparr>)"
| arrives: "((ack, 0, limit), r) \<in> tnet t \<Longrightarrow> answers r (ack, 0, limit) dr \<Longrightarrow>
           batch (tr t) = None \<Longrightarrow> ack = ackSeq (tr t) \<Longrightarrow> leftover (tr t) = [] \<Longrightarrow>
           read_result (tr t) n dr = (c', s, ls)
           \<Longrightarrow> tunnel_step t (t\<lparr>tr := c', treq := treq t \<union> set ls\<rparr>)"
| collects: "((ack, w, limit), r) \<in> tnet t \<Longrightarrow> 0 < w \<Longrightarrow> answers r (ack, w, limit) dr \<Longrightarrow>
           batch (tr t) = Some b
           \<Longrightarrow> tunnel_step t (t\<lparr>tr := (tr t)\<lparr>batch := Some (batch_arrive b dr)\<rparr>\<rparr>)"
| in_turn: "batch (tr t) = Some b \<Longrightarrow> nextBatchResult b = Some (b', dr) \<Longrightarrow> leftover (tr t) = [] \<Longrightarrow>
           read_result ((tr t)\<lparr>batch := Some b'\<rparr>) n dr = (c', s, ls)
           \<Longrightarrow> tunnel_step t (t\<lparr>tr := c', treq := treq t \<union> set ls\<rparr>)"

definition tunnel_reachable :: "tunnel \<Rightarrow> bool" where
  "tunnel_reachable t \<longleftrightarrow>
     (\<exists>ns p. sees (dq (td (start_tunnel ns p))) (tp (start_tunnel ns p))
             \<and> tunnel_step\<^sup>*\<^sup>* (start_tunnel ns p) t)"

subsection \<open>The invariant\<close>

definition poll_out :: "drain option \<Rightarrow> bytes" where
  "poll_out po = (case po of None \<Rightarrow> [] | Some dr \<Rightarrow> d_out dr)"

text \<open>The stream up to here: numbered chunks, what a poll holds, the split tail, the channel.\<close>

definition up_ok :: "bytes list \<Rightarrow> bytes \<Rightarrow> sideQueue \<Rightarrow> bool" where
  "up_ok posts pre q \<longleftrightarrow>
     1 \<le> seqNext q \<and> seqNext q - 1 \<le> length posts
     \<and> pre @ concat (ch q) = concat (take (seqNext q - 1) posts)
     \<and> (\<forall>(k, b) \<in> set (seqHeld q). 1 \<le> k \<and> k \<le> length posts \<and> b = posts ! (k - 1))"

definition stream_ok :: "bytes list \<Rightarrow> bytes list \<Rightarrow> dir \<Rightarrow> bool" where
  "stream_ok posts log d \<longleftrightarrow>
     (if freed (dq d) then prefix (concat log @ poll_out (dpoll d)) (concat posts) \<and> ch (dq d) = [] \<and> head (dq d) = []
      else up_ok posts (concat log @ poll_out (dpoll d) @ head (dq d)) (dq d))"

definition log_ok :: "bytes list \<Rightarrow> nat \<Rightarrow> sideQueue \<Rightarrow> bool" where
  "log_ok log got q \<longleftrightarrow>
     length log = q_seq q \<and> got \<le> q_seq q
     \<and> (\<forall>k b. map_of (assigned q) k = Some b \<longrightarrow> 1 \<le> k \<and> k \<le> q_seq q \<and> b = log ! (k - 1))
     \<and> (\<not> freed q \<longrightarrow> (\<forall>k. got < k \<and> k \<le> q_seq q \<longrightarrow> map_of (assigned q) k \<noteq> None))"

definition good_chunk :: "bytes list \<Rightarrow> nat \<Rightarrow> bytes \<Rightarrow> bool" where
  "good_chunk log k b \<longleftrightarrow> 1 \<le> k \<and> k \<le> length log \<and> b = log ! (k - 1)"

definition net_ok :: "bytes list \<Rightarrow> nat \<Rightarrow> request set \<Rightarrow> (request \<times> reply) set \<Rightarrow> bool" where
  "net_ok log got reqs net \<longleftrightarrow>
     (\<forall>(a, w, l) \<in> reqs. a \<le> got \<and> 0 < l)
     \<and> (\<forall>((a, w, l), r) \<in> net. r_data r \<noteq> [] \<longrightarrow>
          good_chunk log (r_seq r) (r_data r)
          \<and> (if w = 0 then a < got \<or> r_seq r = a + 1 else r_seq r = w))"

definition kind_ok :: "nat \<Rightarrow> request \<Rightarrow> nat \<Rightarrow> taker \<Rightarrow> bool" where
  "kind_ok got rq numbered t \<longleftrightarrow>
     (case rq of (a, w, l) \<Rightarrow>
        a \<le> got \<and> (case t of
           TakeUpTo \<Rightarrow> w = 0 \<and> (a < got \<or> numbered = a)
         | TakeWindow v \<Rightarrow> 0 < w \<and> w = v
         | TakePoll \<Rightarrow> False))"

definition cur_ok :: "nat \<Rightarrow> request \<Rightarrow> dir \<Rightarrow> bool" where
  "cur_ok got rq d \<longleftrightarrow> (\<forall>dr. dpoll d = Some dr \<longrightarrow> kind_ok got rq (q_seq (dq d)) (d_kind dr))"

definition good_result :: "bytes list \<Rightarrow> downResult \<Rightarrow> bool" where
  "good_result log dr \<longleftrightarrow>
     (dr_err dr = None \<and> dr_status dr = 200 \<longrightarrow>
        dr_data dr \<noteq> [] \<and> good_chunk log (dr_seq dr) (dr_data dr))"

definition reader_ok :: "bytes list \<Rightarrow> reader \<Rightarrow> bool" where
  "reader_ok log c \<longleftrightarrow>
     ackSeq c \<le> length log \<and> 0 < downMax c
     \<and> read_out c @ leftover c = concat (take (ackSeq c) log)
     \<and> (\<forall>b. batch c = Some b \<longrightarrow> b_next b = ackSeq c + 1
          \<and> (\<forall>(w, dr) \<in> set (b_pending b). 0 < w \<and> dr_want dr = w \<and> good_result log dr))"

definition tunnel_ok :: "tunnel \<Rightarrow> bool" where
  "tunnel_ok t \<longleftrightarrow>
     dir_ok (td t) \<and> sees (dq (td t)) (tp t)
     \<and> stream_ok (sent (tw t)) (tlog t) (td t)
     \<and> log_ok (tlog t) (ackSeq (tr t)) (dq (td t))
     \<and> net_ok (tlog t) (ackSeq (tr t)) (treq t) (tnet t)
     \<and> cur_ok (ackSeq (tr t)) (tcur t) (td t)
     \<and> reader_ok (tlog t) (tr t)"

end
