(* ===== verification/TunnelProof.thy ===== *)
theory TunnelProof
  imports Tunnel
begin

text \<open>
  The invariant of the tunnel is kept by every step: the writer's posts enter the
  stream once and in order, a chunk once numbered keeps its number and its bytes
  until the reader has acknowledged it, and the reader takes exactly the next one.
\<close>

subsection \<open>Steps of the writer's requests\<close>

definition same_stream :: "sideQueue \<Rightarrow> sideQueue \<Rightarrow> bool" where
  "same_stream q q' \<longleftrightarrow>
     ch q' = ch q \<and> head q' = head q \<and> seqNext q' = seqNext q \<and> seqHeld q' = seqHeld q
     \<and> assigned q' = assigned q \<and> q_seq q' = q_seq q \<and> freed q' = freed q"

lemma same_stream_refl [simp]: "same_stream q q"
  by (simp add: same_stream_def)

lemma same_stream_keep: "keepLocked (q, p) n u = (q', p') \<Longrightarrow> same_stream q q'"
  unfolding same_stream_def by (subst keepLocked_facts(1), assumption, simp)+ 

lemma same_stream_release: "releaseLocked (q, p) n s = (q', p') \<Longrightarrow> same_stream q q'"
  unfolding same_stream_def using releaseLocked_fields by simp

lemma same_stream_tryReserve:
  assumes "tryReserve (q, p) n ahead w = ((q', p'), ans)"
  shows "same_stream q q'"
proof (cases "q_closed q \<or> n = 0")
  case True
  then show ?thesis using assms by (auto simp: tryReserve_def split: if_splits)
next
  case False
  obtain q1 p1 r where r: "reserveLocked (q, p) n ahead = ((q1, p1), r)" by (metis surj_pair)
  have "q' = q1" using assms False r by (auto simp: tryReserve_def split: sum.splits if_splits)
  then show ?thesis using r
    by (auto elim: reserveLocked_cases simp: same_stream_def)
qed

lemma same_stream_admitSeq: "admitSeq (q, p) k n w = ((q', p'), ans) \<Longrightarrow> same_stream q q'"
  by (auto simp: admitSeq_def Let_def split: if_splits dest: same_stream_tryReserve)

lemma take_Suc_nth: "n < length xs \<Longrightarrow> concat (take (Suc n) xs) = concat (take n xs) @ xs ! n"
  by (simp add: take_Suc_conv_app_nth)

lemma promote_up_ok:
  assumes "1 \<le> seqNext q" "seqNext q \<le> length posts"
    "pre @ concat (ch q) = concat (take (seqNext q) posts)"
    "\<forall>(k, b) \<in> set (seqHeld q). 1 \<le> k \<and> k \<le> length posts \<and> b = posts ! (k - 1)"
  shows "up_ok posts pre (promote q)"
  using assms
proof (induction q rule: promote.induct)
  case (1 q)
  show ?case
  proof (cases "map_of (seqHeld q) (seqNext q + 1)")
    case None
    then have "promote q = q\<lparr>seqNext := seqNext q + 1\<rparr>" by (subst promote.simps) simp
    then show ?thesis using 1(2-) by (simp add: up_ok_def)
  next
    case (Some b)
    let ?q1 = "ch_send (q\<lparr>seqNext := seqNext q + 1, seqHeld := al_del (seqNext q + 1) (seqHeld q)\<rparr>) b"
    have mem: "(seqNext q + 1, b) \<in> set (seqHeld q)" using Some by (rule map_of_SomeD)
    then have b: "seqNext q < length posts" "b = posts ! seqNext q" using 1(5) by auto
    have c: "pre @ concat (ch ?q1) = concat (take (seqNext ?q1) posts)"
      using 1(4) take_Suc_nth [OF b(1)] b(2) by (cases "b = []") (simp_all add: ch_send_def)
    have h: "\<forall>(k, b) \<in> set (seqHeld ?q1). 1 \<le> k \<and> k \<le> length posts \<and> b = posts ! (k - 1)"
      using 1(5) by (cases "b = []") (auto simp: ch_send_def set_al_del)
    have "up_ok posts pre (promote ?q1)"
      using 1(1) [OF refl, of b] Some b(1) c h by (cases "b = []") (auto simp: ch_send_def)
    then show ?thesis using Some by (subst promote.simps) simp
  qed
qed

lemma up_ok_cong:
  "ch q' = ch q \<Longrightarrow> seqNext q' = seqNext q \<Longrightarrow> seqHeld q' = seqHeld q \<Longrightarrow> up_ok posts pre q' = up_ok posts pre q"
  by (simp add: up_ok_def)

lemma commitSeq_up_ok:
  assumes up: "up_ok posts pre q" and k: "1 \<le> k" "k \<le> length posts" "b = posts ! (k - 1)"
    and e: "commitSeq (q, p) k b n = ((q', p'), r)"
  shows "up_ok posts pre q' \<and> head q' = head q \<and> assigned q' = assigned q \<and> q_seq q' = q_seq q \<and> freed q' = freed q"
proof -
  obtain q1 p1 where k1: "keepLocked (q, p) n (int (length b)) = (q1, p1)" by (metis surj_pair)
  obtain q0 p0 where k0: "keepLocked (q, p) n 0 = (q0, p0)" by (metis surj_pair)
  have s1: "same_stream q q1" "same_stream q q0" using same_stream_keep k1 k0 by blast+
  consider "q' = q0" | "q' = q1\<lparr>seqHeld := al_put k b (seqHeld q1)\<rparr>"
    | "q' = wakeLocked (promote (ch_send q1 b))" "k = seqNext q" "\<not> q_closed q"
    using e k1 k0 by (auto simp: commitSeq_def enqueue_def Let_def split: if_splits)
  then show ?thesis
  proof cases
    case 1
    then show ?thesis using up s1 by (auto simp: same_stream_def up_ok_def)
  next
    case 2
    have "up_ok posts pre q'"
      using up s1(1) k 2 by (auto simp: same_stream_def up_ok_def dest!: set_al_put_sub)
    then show ?thesis using s1(1) by (auto simp: 2 same_stream_def)
  next
    case 3
    let ?q2 = "ch_send q1 b"
    have "seqNext q - 1 < length posts" using k 3 by simp
    from take_Suc_nth [OF this]
    have "concat (take (seqNext q) posts) = concat (take (seqNext q - 1) posts) @ b"
      using k 3 up by (simp add: up_ok_def)
    then have c: "pre @ concat (ch ?q2) = concat (take (seqNext ?q2) posts)"
      using up s1(1) by (cases "b = []") (simp_all add: up_ok_def same_stream_def ch_send_def)
    have "up_ok posts pre (promote ?q2)"
      using up s1(1) k 3 c
      by (intro promote_up_ok) (cases "b = []"; auto simp: up_ok_def same_stream_def ch_send_def)+
    then have "up_ok posts pre q'" by (simp add: 3 wakeLocked_def up_ok_def)
    then show ?thesis
      using s1(1) by (simp add: 3 wakeLocked_def queue_simps ch_send_def same_stream_def)
  qed
qed

definition flow_ok :: "bytes list \<Rightarrow> bytes list \<Rightarrow> nat \<Rightarrow> request \<Rightarrow> dir \<Rightarrow> bool" where
  "flow_ok posts log got rq d \<longleftrightarrow> stream_ok posts log d \<and> log_ok log got (dq d) \<and> cur_ok got rq d"

lemma cur_ok_cong: "dpoll d' = dpoll d \<Longrightarrow> q_seq (dq d') = q_seq (dq d) \<Longrightarrow> cur_ok got rq d' = cur_ok got rq d"
  unfolding cur_ok_def by (simp only:)

lemma log_ok_cong:
  "assigned q' = assigned q \<Longrightarrow> q_seq q' = q_seq q \<Longrightarrow> freed q' = freed q \<Longrightarrow> log_ok log got q' = log_ok log got q"
  unfolding log_ok_def by (simp only:)

lemma stream_ok_cong:
  assumes "dpoll d' = dpoll d" "freed (dq d') = freed (dq d)" "ch (dq d') = ch (dq d)" "head (dq d') = head (dq d)"
    "seqNext (dq d') = seqNext (dq d)" "seqHeld (dq d') = seqHeld (dq d)"
  shows "stream_ok posts log d' = stream_ok posts log d"
  unfolding stream_ok_def up_ok_def assms by (rule refl)

lemma flow_ok_same:
  assumes "flow_ok posts log got rq d" "same_stream (dq d) (dq d')" "dpoll d' = dpoll d"
  shows "flow_ok posts log got rq d'"
proof -
  have f: "freed (dq d') = freed (dq d)" "ch (dq d') = ch (dq d)" "head (dq d') = head (dq d)"
    "seqNext (dq d') = seqNext (dq d)" "seqHeld (dq d') = seqHeld (dq d)"
    "assigned (dq d') = assigned (dq d)" "q_seq (dq d') = q_seq (dq d)"
    using assms(2) by (simp_all add: same_stream_def)
  show ?thesis
    using assms(1) stream_ok_cong [OF assms(3) f(1-5)] log_ok_cong [OF f(6,7,1)] cur_ok_cong [OF assms(3) f(7)]
    by (simp add: flow_ok_def)
qed

lemma flow_ok_same_poll:
  assumes f: "flow_ok posts log got rq d" and s: "same_stream (dq d) (dq d')"
    and po: "dpoll d = Some dr" "dpoll d' = Some dr'" "d_out dr' = d_out dr" "d_kind dr' = d_kind dr"
  shows "flow_ok posts log got rq d'"
proof -
  have o: "poll_out (dpoll d') = poll_out (dpoll d)" using po by (simp add: poll_out_def)
  have fs: "freed (dq d') = freed (dq d)" "ch (dq d') = ch (dq d)" "head (dq d') = head (dq d)"
    "seqNext (dq d') = seqNext (dq d)" "seqHeld (dq d') = seqHeld (dq d)"
    "assigned (dq d') = assigned (dq d)" "q_seq (dq d') = q_seq (dq d)"
    using s by (simp_all add: same_stream_def)
  have "stream_ok posts log d' = stream_ok posts log d"
    unfolding stream_ok_def up_ok_def fs o by (rule refl)
  moreover have "cur_ok got rq d' = cur_ok got rq d"
    unfolding cur_ok_def po fs by (simp add: po)
  ultimately show ?thesis using f log_ok_cong [OF fs(6,7,1)] by (simp add: flow_ok_def)
qed

lemma concat_take_prefix: "prefix (concat (take n xs)) (concat xs)"
  by (metis append_take_drop_id concat_append prefixI)

lemma stream_prefix: "stream_ok posts log d \<Longrightarrow> prefix (concat log @ poll_out (dpoll d)) (concat posts)"
proof (cases "freed (dq d)")
  case False
  assume "stream_ok posts log d"
  then have "prefix (concat log @ poll_out (dpoll d)) (concat (take (seqNext (dq d) - 1) posts))"
    using False unfolding stream_ok_def up_ok_def by (metis append.assoc prefixI)
  then show ?thesis using concat_take_prefix prefix_order.trans by blast
qed (simp add: stream_ok_def)

lemma upload_flow:
  assumes u: "upload_op posts a" and e: "exec a d p = Some (d', p', ans)" and ok: "dir_ok d"
    and f: "flow_ok posts log got rq d"
  shows "flow_ok posts log got rq d'"
proof (cases a)
  case (OpAdmit k n w)
  obtain q1 p1 r where r: "admitSeq (dq d, p) k n w = ((q1, p1), r)" by (metis surj_pair)
  then have "dq d' = q1" "dpoll d' = dpoll d" using e OpAdmit by (auto split: if_splits)
  then show ?thesis using flow_ok_same [OF f] same_stream_admitSeq [OF r] by simp
next
  case (OpUnreserve n)
  obtain q1 p1 where r: "unreserve (dq d, p) n = (q1, p1)" by (metis surj_pair)
  then have "dq d' = q1" "dpoll d' = dpoll d" using e OpUnreserve by (auto split: if_splits)
  then show ?thesis using flow_ok_same [OF f] same_stream_keep [OF r [unfolded unreserve_def]] by simp
next
  case (OpCommit k b n)
  obtain q1 p1 r where r: "commitSeq (dq d, p) k b n = ((q1, p1), r)" by (metis surj_pair)
  then have d': "dq d' = q1" "dpoll d' = dpoll d" using e OpCommit by (auto split: if_splits)
  have k: "1 \<le> k" "k \<le> length posts" "b = posts ! (k - 1)" using u OpCommit by auto
  show ?thesis
  proof (cases "freed (dq d)")
    case True
    then have "q_closed (dq d)" using ok by (auto simp: dir_ok_def qok_def shaped_def)
    then have "keepLocked (dq d, p) n 0 = (q1, p1)" using r by (simp add: commitSeq_def)
    then show ?thesis using flow_ok_same [OF f] d' same_stream_keep by metis
  next
    case False
    then have "up_ok posts (concat log @ poll_out (dpoll d) @ head (dq d)) (dq d)"
      using f by (simp add: flow_ok_def stream_ok_def)
    note c = commitSeq_up_ok [OF this k r]
    show ?thesis
      using f c d' False cur_ok_cong [of d' d] log_ok_cong [of "dq d'" "dq d"]
      by (simp add: flow_ok_def stream_ok_def)
  qed
next
  case OpClose
  then have "d' = d\<lparr>dq := q_close (dq d)\<rparr>" using e by simp
  then show ?thesis using flow_ok_same [OF f, of d'] by (simp add: q_close_def same_stream_def)
next
  case OpFree
  obtain q1 p1 where r: "q_free (dq d, p) = (q1, p1)" by (metis surj_pair)
  then have d': "d' = d\<lparr>dq := q1\<rparr>" using e OpFree by simp
  show ?thesis
  proof (cases "freed (dq d)")
    case True
    then have "q1 = q_close (dq d)" using r by (simp add: q_free_def q_close_def Let_def)
    then show ?thesis using flow_ok_same [OF f, of d'] d' by (simp add: q_close_def same_stream_def)
  next
    case False
    then have "q1 = wakeLocked ((q_close (dq d))\<lparr>ch := [], seqHeld := [], head := [], assigned := [], unacked := [],
        resident := 0, slots := 0, freed := True\<rparr>)"
      using r by (auto simp: q_free_def q_close_def Let_def)
    then have q1: "ch q1 = []" "head q1 = []" "assigned q1 = []" "freed q1" "q_seq q1 = q_seq (dq d)"
      by (simp_all add: wakeLocked_def q_close_def)
    have "cur_ok got rq d'" using f cur_ok_cong [of d' d] d' q1 by (simp add: flow_ok_def)
    moreover have "log_ok log got (dq d')" using f d' q1 by (simp add: flow_ok_def log_ok_def)
    moreover have "prefix (concat log @ poll_out (dpoll d)) (concat posts)"
      by (rule stream_prefix) (use f in \<open>simp add: flow_ok_def\<close>)
    then have "stream_ok posts log d'" using d' q1 by (simp add: stream_ok_def)
    ultimately show ?thesis by (simp add: flow_ok_def)
  qed
qed (use u in auto)

lemma flow_ok_posts:
  assumes "flow_ok posts log got rq d"
  shows "flow_ok (posts @ xs) log got rq d"
proof -
  have "prefix (concat log @ poll_out (dpoll d)) (concat posts) \<Longrightarrow>
      prefix (concat log @ poll_out (dpoll d)) (concat (posts @ xs))"
    by (simp add: prefix_prefix)
  moreover have "up_ok (posts @ xs) pre q" if u: "up_ok posts pre q" for pre q
  proof -
    have "1 \<le> k \<and> k \<le> length (posts @ xs) \<and> b = (posts @ xs) ! (k - 1)" if "(k, b) \<in> set (seqHeld q)" for k b
    proof -
      have "1 \<le> k" "k \<le> length posts" "b = posts ! (k - 1)" using u that by (auto simp: up_ok_def)
      then show ?thesis by (auto simp: nth_append)
    qed
    then show ?thesis using u by (auto simp: up_ok_def)
  qed
  ultimately show ?thesis
    using assms unfolding flow_ok_def stream_ok_def by auto
qed

subsection \<open>Steps of the reader's polls\<close>

lemma assigned_filter:
  "map_of (filter (\<lambda>(k, _). \<not> k \<le> ack) xs) k = (if k \<le> ack then None else map_of xs k)"
  by (induction xs) auto

lemma drop_flow:
  assumes f: "flow_ok posts log got rq d" and a: "ack \<le> got"
    and e: "dropAcked (dq d, p) ack = (q', p')"
  shows "flow_ok posts log got rq (d\<lparr>dq := q'\<rparr>)"
proof -
  note q' = dropAcked_fields [OF e]
  have "cur_ok got rq (d\<lparr>dq := q'\<rparr>)" using f cur_ok_cong [of "d\<lparr>dq := q'\<rparr>" d] q' by (simp add: flow_ok_def)
  moreover have "stream_ok posts log (d\<lparr>dq := q'\<rparr>)"
    using f stream_ok_cong [of "d\<lparr>dq := q'\<rparr>" d] q' by (simp add: flow_ok_def)
  moreover have "log_ok log got q'"
    using f a unfolding flow_ok_def log_ok_def by (auto simp: q' assigned_filter)
  ultimately show ?thesis by (simp add: flow_ok_def)
qed

lemma first_assigned_facts:
  assumes "log_ok log got q" "ack \<le> got" "\<not> freed q"
  shows "first_assigned q ack = Some (k, b) \<Longrightarrow> good_chunk log k b \<and> (ack < got \<or> k = ack + 1)"
    and "first_assigned q ack = None \<Longrightarrow> ack < got \<or> q_seq q = ack"
proof -
  let ?P = "\<lambda>k. map_of (assigned q) k \<noteq> None"
  have has: "?P k" if "got < k" "k \<le> q_seq q" for k using assms(1,3) that by (simp add: log_ok_def)
  show "first_assigned q ack = None \<Longrightarrow> ack < got \<or> q_seq q = ack"
  proof (rule ccontr)
    assume n: "first_assigned q ack = None" and c: "\<not> (ack < got \<or> q_seq q = ack)"
    then have "ack = got" "got < q_seq q" using assms(1,2) by (auto simp: log_ok_def)
    then have "Suc ack \<in> set (filter ?P [Suc ack ..< Suc (q_seq q)])" using has by auto
    moreover have "filter ?P [Suc ack ..< Suc (q_seq q)] = []"
      using n by (simp only: first_assigned_def split: list.splits) simp
    ultimately show False by (metis empty_iff list.set(1))
  qed
  assume s: "first_assigned q ack = Some (k, b)"
  then obtain ks where ks: "filter ?P [Suc ack ..< Suc (q_seq q)] = k # ks" and b: "b = the (map_of (assigned q) k)"
    by (auto simp: first_assigned_def split: list.splits)
  have "k \<in> set (filter ?P [Suc ack ..< Suc (q_seq q)])" unfolding ks by simp
  then have k: "?P k" "ack < k" "k \<le> q_seq q" by auto
  have "good_chunk log k b"
    using assms(1) k b by (auto simp: log_ok_def good_chunk_def)
  moreover have "ack < got \<or> k = ack + 1"
  proof (rule ccontr)
    assume c: "\<not> (ack < got \<or> k = ack + 1)"
    then have P: "?P (Suc ack)" using k assms(2) by (intro has) auto
    have u: "[Suc ack ..< Suc (q_seq q)] = Suc ack # [Suc (Suc ack) ..< Suc (q_seq q)]"
      using k by (simp add: upt_conv_Cons)
    have "filter ?P [Suc ack ..< Suc (q_seq q)] = Suc ack # filter ?P [Suc (Suc ack) ..< Suc (q_seq q)]"
      unfolding u using P by (simp only: filter.simps simp_thms if_True)
    then show False using ks c by simp
  qed
  ultimately show "good_chunk log k b \<and> (ack < got \<or> k = ack + 1)" by blast
qed

lemma drain_start_flow:
  assumes f: "flow_ok posts log got rq d" and po: "dpoll d = None"
    and e: "drain_start ((dq d)\<lparr>turn := True, inflight := True\<rparr>) t limit = (q', dr)"
    and c: "cur_ok got rq' (d\<lparr>dq := q', dpoll := Some dr\<rparr>)"
  shows "flow_ok posts log got rq' (d\<lparr>dq := q', dpoll := Some dr\<rparr>)"
proof -
  note fs = drain_start_fields [OF e]
  have q': "ch q' = ch (dq d)" "seqNext q' = seqNext (dq d)" "seqHeld q' = seqHeld (dq d)"
    "assigned q' = assigned (dq d)" "q_seq q' = q_seq (dq d)" "freed q' = freed (dq d)"
    "head q' = drop limit (head (dq d))" "d_out dr = take limit (head (dq d))"
    by (simp_all add: fs)
  have "log_ok log got q'" using f log_ok_cong [of q' "dq d"] q' by (simp add: flow_ok_def)
  moreover have "stream_ok posts log (d\<lparr>dq := q', dpoll := Some dr\<rparr>)"
  proof -
    have h: "take limit x @ drop limit x @ y = x @ y" for x y :: bytes
      by (metis append.assoc append_take_drop_id)
    have "stream_ok posts log d" using f by (simp add: flow_ok_def)
    then show ?thesis
      unfolding stream_ok_def up_ok_def by (cases "freed (dq d)") (simp_all add: q' po poll_out_def h)
  qed
  ultimately show ?thesis using c by (simp add: flow_ok_def)
qed

lemma take_flow:
  assumes f: "flow_ok posts log got rq d" and ok: "dir_ok d" and a: "ack \<le> got" and nf: "\<not> freed (dq d)"
    and e: "exec (OpTake ack limit) d p = Some (d', p', ans)"
  shows "ans = NoAnswer \<Longrightarrow> flow_ok posts log got (ack, 0, l) d'"
    and "ans = ReplyIs r \<Longrightarrow> flow_ok posts log got rq d' \<and> good_chunk log (r_seq r) (r_data r)
           \<and> (ack < got \<or> r_seq r = ack + 1)"
proof -
  have t: "\<not> turn (dq d)" "limit \<noteq> 0" using e by (auto split: if_splits)
  have po: "dpoll d = None" using turn_free [OF ok [unfolded dir_ok_def] t(1)] .
  obtain q1 p1 where r1: "dropAcked (dq d, p) ack = (q1, p1)" by (metis surj_pair)
  note f1 = drop_flow [OF f a r1]
  have l1: "log_ok log got q1" using f1 by (simp add: flow_ok_def)
  have nf1: "\<not> freed q1" using nf dropAcked_fields(13) [OF r1] by simp
  note fa = first_assigned_facts [OF l1 a nf1]
  show "ans = ReplyIs r \<Longrightarrow> flow_ok posts log got rq d' \<and> good_chunk log (r_seq r) (r_data r)
           \<and> (ack < got \<or> r_seq r = ack + 1)"
    using e t r1 f1 fa(1) by (auto simp: takeUpTo_start_def split: option.splits prod.splits)
  assume ans: "ans = NoAnswer"
  obtain q2 dr where s: "drain_start (q1\<lparr>turn := True, inflight := True\<rparr>) TakeUpTo limit = (q2, dr)"
    by (metis surj_pair)
  have n: "first_assigned q1 ack = None" and d': "d' = d\<lparr>dq := q2, dpoll := Some dr\<rparr>"
    using e t r1 ans s by (auto simp: takeUpTo_start_def beginTake_def split: option.splits prod.splits)
  have "cur_ok got (ack, 0, l) (d\<lparr>dq := q2, dpoll := Some dr\<rparr>)"
    using a fa(2) [OF n] drain_start_fields [OF s] by (simp add: cur_ok_def kind_ok_def)
  then have "flow_ok posts log got (ack, 0, l) ((d\<lparr>dq := q1\<rparr>)\<lparr>dq := q2, dpoll := Some dr\<rparr>)"
    using s by (intro drain_start_flow [OF f1]) (simp_all add: po)
  then show "flow_ok posts log got (ack, 0, l) d'" by (simp add: d')
qed

lemma look_flow:
  assumes f: "flow_ok posts log got rq d" and a: "ack \<le> got"
    and e: "exec (OpLook ack w) d p = Some (d', p', ans)"
  shows "flow_ok posts log got rq d' \<and>
     (\<forall>r. ans = ReplyIs r \<longrightarrow> r_data r \<noteq> [] \<longrightarrow> good_chunk log (r_seq r) (r_data r) \<and> r_seq r = w)"
proof -
  obtain q1 p1 where r1: "dropAcked (dq d, p) ack = (q1, p1)" by (metis surj_pair)
  note f1 = drop_flow [OF f a r1]
  have l1: "log_ok log got q1" using f1 by (simp add: flow_ok_def)
  have "d' = d\<lparr>dq := q1\<rparr>"
    using e r1 by (auto simp: window_look_def split: option.splits if_splits)
  moreover have "good_chunk log (r_seq r) (r_data r) \<and> r_seq r = w" if "ans = ReplyIs r" "r_data r \<noteq> []" for r
    using e r1 that l1 by (auto simp: window_look_def log_ok_def good_chunk_def split: option.splits if_splits)
  ultimately show ?thesis using f1 by blast
qed

lemma window_flow:
  assumes f: "flow_ok posts log got rq d" and ok: "dir_ok d" and w: "0 < w" and a: "ack \<le> got"
    and e: "exec (OpWindow w limit) d p = Some (d', p', ans)"
  shows "flow_ok posts log got (if dpoll d' \<noteq> None then (ack, w, l) else rq) d'"
proof -
  have t: "\<not> turn (dq d)" "limit \<noteq> 0" using e by (auto split: if_splits)
  have po: "dpoll d = None" using turn_free [OF ok [unfolded dir_ok_def] t(1)] .
  show ?thesis
  proof (cases "w \<noteq> q_seq (dq d) + 1")
    case True
    then have "d' = d" using e t by (simp add: window_start_def)
    then show ?thesis using f po by simp
  next
    case False
    obtain q2 dr where s: "drain_start ((dq d)\<lparr>turn := True, inflight := True\<rparr>) (TakeWindow w) limit = (q2, dr)"
      by (metis surj_pair)
    then have d': "d' = d\<lparr>dq := q2, dpoll := Some dr\<rparr>"
      using e t False by (simp add: window_start_def)
    have "cur_ok got (ack, w, l) (d\<lparr>dq := q2, dpoll := Some dr\<rparr>)"
      using w a drain_start_fields [OF s] by (simp add: cur_ok_def kind_ok_def)
    then show ?thesis using drain_start_flow [OF f po s] by (simp add: d')
  qed
qed

lemma pull_flow:
  assumes f: "flow_ok posts log got rq d" and ok: "dir_ok d" and po: "dpoll d = Some dr"
    and c: "can_pull (dq d) dr" and e: "pull (dq d) dr = (q', dr')"
  shows "flow_ok posts log got rq (d\<lparr>dq := q', dpoll := Some dr'\<rparr>)"
proof -
  note fs = pull_fields [OF e]
  have h: "head (dq d) = []"
    using ok c po by (auto simp: dir_ok_def qok_def shaped_def poll_shape_def can_pull_def)
  obtain b bs where b: "ch (dq d) = b # bs" using c by (auto simp: can_pull_def neq_Nil_conv)
  have nf: "\<not> freed (dq d)" using f b by (auto simp: flow_ok_def stream_ok_def)
  let ?n = "d_limit dr - length (d_out dr)"
  have q': "ch q' = bs" "seqNext q' = seqNext (dq d)" "seqHeld q' = seqHeld (dq d)"
    "assigned q' = assigned (dq d)" "q_seq q' = q_seq (dq d)" "freed q' = freed (dq d)"
    "d_out dr' = d_out dr @ take ?n b" "d_kind dr' = d_kind dr"
    "head q' = drop ?n b"
    using b h by (simp_all add: fs)
  have "log_ok log got q'" using f log_ok_cong [of q' "dq d"] q' by (simp add: flow_ok_def)
  moreover have "cur_ok got rq (d\<lparr>dq := q', dpoll := Some dr'\<rparr>)"
    using f po q' by (simp add: flow_ok_def cur_ok_def)
  moreover have "stream_ok posts log (d\<lparr>dq := q', dpoll := Some dr'\<rparr>)"
  proof -
    have t: "take ?n b @ drop ?n b @ y = b @ y" for y by (metis append.assoc append_take_drop_id)
    have "stream_ok posts log d" using f by (simp add: flow_ok_def)
    then show ?thesis using nf
      unfolding stream_ok_def up_ok_def by (simp add: q' po poll_out_def t b h)
  qed
  ultimately show ?thesis by (simp add: flow_ok_def)
qed

lemma polling_flow:
  assumes f: "flow_ok posts log got rq d" and ok: "dir_ok d"
    and a: "a = OpPull \<or> a = OpReturn \<or> a = OpEnd en" and e: "exec a d p = Some (d', p', ans)"
  shows "flow_ok posts log got rq d'"
proof -
  obtain dr where po: "dpoll d = Some dr" using a e by (auto split: option.splits)
  consider "a = OpPull" | "a = OpReturn" | "a = OpEnd en" using a by blast
  then show ?thesis
  proof cases
    case 1
    obtain q1 d1 where r: "pull (dq d) dr = (q1, d1)" by (metis surj_pair)
    then have c: "can_pull (dq d) dr" and d': "d' = d\<lparr>dq := q1, dpoll := Some d1\<rparr>"
      using e 1 po by (auto split: if_splits)
    then show ?thesis using pull_flow [OF f ok po c r] by simp
  next
    case 2
    obtain q1 p1 d1 where r: "drain_return (dq d, p) dr = ((q1, p1), d1)" by (metis surj_pair)
    have d': "d' = d\<lparr>dq := q1, dpoll := Some d1\<rparr>" using e 2 po r by (auto split: if_splits)
    have s: "same_stream (dq d) q1" and d1: "d_out d1 = d_out dr" "d_kind d1 = d_kind dr"
      using r same_stream_release by (auto simp: drain_return_def split: if_splits)
    then show ?thesis by (intro flow_ok_same_poll [OF f _ po, of d' d1]) (simp_all add: d')
  next
    case 3
    then have "d' = d\<lparr>dpoll := Some (dr\<lparr>d_ending := Some en\<rparr>)\<rparr>" using e po by (auto split: if_splits)
    then show ?thesis by (intro flow_ok_same_poll [OF f _ po, of d' "dr\<lparr>d_ending := Some en\<rparr>"]) simp_all
  qed
qed

lemma finish_flow:
  assumes f: "flow_ok posts log got rq d" and ok: "dir_ok d"
    and e: "exec OpFinish d p = Some (d', p', ReplyIs r)" and rq: "rq = (a, w, l)"
  shows "flow_ok posts (if r_data r \<noteq> [] then log @ [r_data r] else log) got rq d'"
    and "r_data r \<noteq> [] \<Longrightarrow> r_seq r = length log + 1
           \<and> (if w = 0 then a < got \<or> r_seq r = a + 1 else r_seq r = w)"
proof -
  obtain dr where po: "dpoll d = Some dr" using e by (auto split: option.splits)
  obtain q1 p1 r1 where t: "take_finish (dq d, p) dr = ((q1, p1), r1)" by (metis surj_pair)
  have d': "d' = d\<lparr>dq := q1, dpoll := None\<rparr>" and r1: "r1 = r" using e po t by (auto split: if_splits)
  have k: "kind_ok got rq (q_seq (dq d)) (d_kind dr)" using f po by (simp add: flow_ok_def cur_ok_def)
  have len: "length log = q_seq (dq d)" using f by (simp add: flow_ok_def log_ok_def)
  have win: "\<And>v. d_kind dr = TakeWindow v \<Longrightarrow> v = q_seq (dq d) + 1"
    using ok po by (simp add: dir_ok_def qok_def shaped_def poll_shape_def)
  have np: "d_kind dr \<noteq> TakePoll" using k rq by (auto simp: kind_ok_def)
  have cur: "cur_ok got rq d'" by (simp add: cur_ok_def d')
  show "flow_ok posts (if r_data r \<noteq> [] then log @ [r_data r] else log) got rq d'"
  proof (cases "d_out dr = []")
    case True
    then have "q1 = release_turn (endTake (dq d))" "r_data r = []"
      using t np r1 by (auto simp: take_finish_def Let_def split: taker.splits)
    then have fs: "ch q1 = ch (dq d)" "head q1 = head (dq d)" "seqNext q1 = seqNext (dq d)"
      "seqHeld q1 = seqHeld (dq d)" "freed q1 = freed (dq d)" "assigned q1 = assigned (dq d)"
      "q_seq q1 = q_seq (dq d)" "r_data r = []"
      by (simp_all add: release_turn_def endTake_def)
    have "poll_out (dpoll d) = []" "poll_out (dpoll d') = []" using True po by (simp_all add: poll_out_def d')
    then have "stream_ok posts log d' = stream_ok posts log d"
      by (simp add: stream_ok_def up_ok_def d' fs)
    moreover have "log_ok log got q1 = log_ok log got (dq d)" by (rule log_ok_cong) (simp_all add: fs)
    ultimately show ?thesis using f cur fs(8) by (simp add: flow_ok_def d')
  next
    case False
    let ?k = "q_seq (dq d) + 1"
    have q1: "q1 = release_turn (endTake (assign ((dq d)\<lparr>q_seq := ?k\<rparr>) ?k (d_out dr)))" and r: "r_data r = d_out dr"
      using t np r1 False win by (auto simp: take_finish_def Let_def split: taker.splits)
    have fs: "ch q1 = ch (dq d)" "head q1 = head (dq d)" "seqNext q1 = seqNext (dq d)" "seqHeld q1 = seqHeld (dq d)"
      "freed q1 = freed (dq d)" "q_seq q1 = ?k" "map_of (assigned q1) = (map_of (assigned (dq d)))(?k \<mapsto> d_out dr)"
      by (simp_all add: q1 release_turn_def endTake_def assign_def)
    have o: "poll_out (dpoll d) = d_out dr" "poll_out (dpoll d') = []" using po by (simp_all add: poll_out_def d')
    have "stream_ok posts log d" using f by (simp add: flow_ok_def)
    then have "stream_ok posts (log @ [d_out dr]) d'"
      unfolding stream_ok_def up_ok_def o by (auto simp: d' fs split: if_splits)
    moreover have "log_ok (log @ [d_out dr]) got q1"
    proof -
      have lo: "log_ok log got (dq d)" using f by (simp add: flow_ok_def)
      have "1 \<le> k \<and> k \<le> ?k \<and> b = (log @ [d_out dr]) ! (k - 1)" if "map_of (assigned q1) k = Some b" for k b
      proof (cases "k = ?k")
        case True
        then show ?thesis using that len by (simp add: fs nth_append)
      next
        case False
        then have "map_of (assigned (dq d)) k = Some b" using that by (simp add: fs)
        then have "1 \<le> k" "k \<le> q_seq (dq d)" "b = log ! (k - 1)" using lo by (auto simp: log_ok_def)
        moreover from this have "k - 1 < length log" using len by linarith
        ultimately show ?thesis by (simp add: nth_append)
      qed
      then show ?thesis using lo len by (auto simp: log_ok_def fs le_Suc_eq)
    qed
    ultimately show ?thesis using cur r False by (simp add: flow_ok_def d')
  qed
  assume nz: "r_data r \<noteq> []"
  then have "d_out dr \<noteq> []" using t r1 by (auto simp: take_finish_def Let_def split: taker.splits if_splits prod.splits)
  then have "r_seq r = q_seq (dq d) + 1"
    using t np r1 win by (auto simp: take_finish_def Let_def split: taker.splits)
  then show "r_seq r = length log + 1 \<and> (if w = 0 then a < got \<or> r_seq r = a + 1 else r_seq r = w)"
    using k rq len win np by (auto simp: kind_ok_def split: taker.splits)
qed

lemma flow_ok_got:
  assumes f: "flow_ok posts log got rq d" and g: "got \<le> got'" "got' \<le> length log"
  shows "flow_ok posts log got' rq d"
proof -
  have "log_ok log got' (dq d)" using f g by (auto simp: flow_ok_def log_ok_def)
  moreover have "kind_ok got rq n t \<Longrightarrow> kind_ok got' rq n t" for n t
    using g by (auto simp: kind_ok_def split: prod.splits taker.splits)
  then have "cur_ok got' rq d" using f by (auto simp: flow_ok_def cur_ok_def)
  ultimately show ?thesis using f by (simp add: flow_ok_def)
qed

subsection \<open>The reader's own steps\<close>

lemma hand_out_fields:
  "hand_out c n d = (c', s) \<Longrightarrow> read_out c' @ leftover c' = read_out c @ d \<and> ackSeq c' = ackSeq c \<and> batch c' = batch c"
  by (auto simp: hand_out_def)

lemma adjust_fields [simp]:
  "ackSeq (adjustDownMax c n t e) = ackSeq c" "batch (adjustDownMax c n t e) = batch c"
  "leftover (adjustDownMax c n t e) = leftover c" "read_out (adjustDownMax c n t e) = read_out c"
  "downWindow (adjustDownMax c n t e) = downWindow c"
  by (simp_all add: adjustDownMax_def)

lemma read_start_ok: "reader_ok log c \<Longrightarrow> read_start c n = (c', s) \<Longrightarrow> reader_ok log c' \<and> ackSeq c' = ackSeq c"
  by (auto simp: read_start_def reader_ok_def hand_out_def split: if_splits)

lemma good_chunk_append: "good_chunk log k b \<Longrightarrow> good_chunk (log @ xs) k b"
  by (auto simp: good_chunk_def nth_append)

lemma good_result_append: "good_result log dr \<Longrightarrow> good_result (log @ xs) dr"
  by (auto simp: good_result_def good_chunk_append)

lemma reader_ok_append: "reader_ok log c \<Longrightarrow> reader_ok (log @ xs) c"
  by (fastforce simp: reader_ok_def good_result_append)

text \<open>
  What a result does to the reader, when it is good and, if it carries data, carries
  the chunk after the last one acknowledged. The polls it launches acknowledge no
  more than that.
\<close>

definition base_ok :: "bytes list \<Rightarrow> reader \<Rightarrow> bool" where
  "base_ok log c \<longleftrightarrow> ackSeq c \<le> length log \<and> 0 < downMax c \<and> read_out c @ leftover c = concat (take (ackSeq c) log)"

definition batch_ok :: "bytes list \<Rightarrow> nat \<Rightarrow> reader \<Rightarrow> bool" where
  "batch_ok log nxt c \<longleftrightarrow> (\<forall>b. batch c = Some b \<longrightarrow> b_next b = nxt
      \<and> (\<forall>(w, dr) \<in> set (b_pending b). 0 < w \<and> dr_want dr = w \<and> good_result log dr))"

lemma reader_ok_split: "reader_ok log c \<longleftrightarrow> base_ok log c \<and> batch_ok log (ackSeq c + 1) c"
  unfolding reader_ok_def base_ok_def batch_ok_def by blast

definition launches_ok :: "nat \<Rightarrow> launch list \<Rightarrow> bool" where
  "launches_ok got ls \<longleftrightarrow> (\<forall>(a, w, l) \<in> set ls. a \<le> got \<and> (0 < w) \<and> 0 < l)"

lemma launchPoll_ok: "0 < downMax c \<Longrightarrow> 0 < w \<Longrightarrow> launches_ok (ackSeq c) [launchPoll c (ackSeq c) w]"
  by (simp add: launches_ok_def launchPoll_def)

lemma downMax_pos: "0 < downMax c \<Longrightarrow> 0 < downMax (adjustDownMax c n t e)"
  by (simp add: adjustDownMax_def go_defs less_max_iff_disj)

text \<open>Delivering a chunk: the next one, appended to what the reader has.\<close>

lemma deliver_base:
  assumes "base_ok log c" "leftover c = []" "good_chunk log (ackSeq c + 1) b"
    and c': "0 < downMax c'" "ackSeq c' = ackSeq c + 1" "read_out c' @ leftover c' = read_out c @ b"
  shows "base_ok log c'"
proof -
  have n: "ackSeq c < length log" "b = log ! ackSeq c" using assms(3) by (auto simp: good_chunk_def)
  have "read_out c = concat (take (ackSeq c) log)" using assms(1,2) by (simp add: base_ok_def)
  then show ?thesis using n c' take_Suc_nth [OF n(1)] by (simp add: base_ok_def)
qed

lemma next_batch_ok:
  assumes e: "next_batch c windowed r = (c', ls)" and w: "windowed \<longleftrightarrow> batch c \<noteq> None"
    and b: "batch_ok log (ackSeq c + 1) c" and d: "0 < downMax c"
  shows "batch_ok log (ackSeq c' + 1) c'" "launches_ok (ackSeq c') ls"
    "ackSeq c' = ackSeq c" "leftover c' = leftover c" "read_out c' = read_out c" "downMax c' = downMax c"
proof -
  have "batch_ok log (ackSeq c' + 1) c' \<and> launches_ok (ackSeq c') ls
    \<and> ackSeq c' = ackSeq c \<and> leftover c' = leftover c \<and> read_out c' = read_out c \<and> downMax c' = downMax c"
  proof (cases windowed)
    case False
    then have n: "batch c = None" using w by simp
    have "c' = c \<and> ls = [] \<or> startBatch c = (c', ls)"
      using e False by (auto simp: next_batch_def split: if_splits)
    then show ?thesis
      using b d by (auto simp: startBatch_def batch_ok_def launches_ok_def launchPoll_def go_defs)
  next
    case True
    then obtain bt where bt: "batch c = Some bt" using w by auto
    have "c' = c \<and> ls = [] \<or> c' = stopBatch c \<and> ls = [] \<or> extendBatch c = (c', ls)"
      using e True by (auto simp: next_batch_def stopBatch_def split: if_splits)
    then show ?thesis
    proof (elim disjE conjE)
      assume "extendBatch c = (c', ls)"
      then have c': "c' = c\<lparr>batch := Some (bt\<lparr>b_end := b_end bt + 1\<rparr>)\<rparr>" and ls: "ls = [launchPoll c (ackSeq c) (b_end bt + 1)]"
        by (auto simp: extendBatch_def bt)
      have "launches_ok (ackSeq c) ls" unfolding ls by (rule launchPoll_ok [OF d]) simp
      moreover have "batch_ok log (ackSeq c + 1) c'" using b bt by (simp add: batch_ok_def c')
      ultimately show ?thesis by (simp add: c')
    qed (use b in \<open>simp_all add: batch_ok_def launches_ok_def stopBatch_def\<close>)
  qed
  then show "batch_ok log (ackSeq c' + 1) c'" "launches_ok (ackSeq c') ls"
    "ackSeq c' = ackSeq c" "leftover c' = leftover c" "read_out c' = read_out c" "downMax c' = downMax c"
    by blast+
qed


lemma read_result_ok:
  assumes e: "read_result c n r = (c', s, ls)" and base: "base_ok log c" and left: "leftover c = []"
    and b: "batch_ok log (ackSeq c + 2) c" and good: "good_result log r"
    and want: "dr_err r = None \<Longrightarrow> dr_status r = 200 \<Longrightarrow> batch c = None \<or> dr_seq r = dr_want r
        \<Longrightarrow> dr_seq r = ackSeq c + 1"
  shows "base_ok log c' \<and> batch_ok log (ackSeq c' + 1) c' \<and> launches_ok (ackSeq c') ls \<and> ackSeq c \<le> ackSeq c'"
proof -
  define w where "w \<longleftrightarrow> batch c \<noteq> None"
  define c1 where "c1 = c\<lparr>ackable := (ackable c \<or> dr_ackable r), downWindow := (downWindow c \<or> dr_window r)\<rparr>"
  define c2 where "c2 = adjustDownMax c1 (length (dr_data r)) (dr_took r) (dr_retried r)"
  have d0: "0 < downMax c" using base by (simp add: base_ok_def)
  have d2: "0 < downMax c2" using d0 by (auto simp: c2_def c1_def intro: downMax_pos)
  have stop: "batch_ok log k (x\<lparr>batch := None\<rparr>)" "batch_ok log k (stopBatch x)" for k x
    by (simp_all add: batch_ok_def stopBatch_def)
  have nob: "batch_ok log k x" if "batch x = None" for k x using that by (simp add: batch_ok_def)
  show ?thesis
  proof (cases "dr_err r = None \<and> dr_status r = 200 \<and> (w \<longrightarrow> dr_seq r = dr_want r)")
    case False
    then have "ls = []" and "batch c' = None" and "ackSeq c' = ackSeq c" and "leftover c' = leftover c"
      and "read_out c' = read_out c" and "downMax c' = downMax c"
      using e unfolding w_def
      by (auto simp: read_result_def Let_def stopBatch_def split: option.splits if_splits)
    then show ?thesis
      using base nob [of c'] by (simp add: base_ok_def launches_ok_def)
  next
    case True
    then have sq: "dr_seq r = ackSeq c + 1" using want by (auto simp: w_def)
    have gc: "good_chunk log (ackSeq c + 1) (dr_data r)" "dr_data r \<noteq> []"
      using good True sq by (auto simp: good_result_def)
    define c3 where "c3 = c2\<lparr>ackSeq := dr_seq r\<rparr>"
    obtain c4 l4 where n4: "next_batch c3 w r = (c4, l4)" by (metis surj_pair)
    obtain c5 s5 where h5: "hand_out c4 n (dr_data r) = (c5, s5)" by (metis surj_pair)
    have f2: "ackSeq c2 = ackSeq c" "batch c2 = batch c" "read_out c2 = read_out c" "leftover c2 = []"
      by (simp_all add: c2_def c1_def left)
    have "read_chunk c1 n w r = (c5, s5, l4)"
    proof -
      have "(if dr_seq r > 0 then c2\<lparr>ackSeq := dr_seq r\<rparr> else c2) = c3" using sq by (simp add: c3_def)
      then show ?thesis
        using sq gc(2) n4 h5 f2 unfolding read_chunk_def c2_def [symmetric] Let_def by simp
    qed
    moreover have "read_result c n r = read_chunk c1 n w r"
      using True unfolding read_result_def Let_def w_def c1_def by (cases "batch c") simp_all
    ultimately have "read_result c n r = (c5, s5, l4)" by simp
    then have r: "c' = c5" "ls = l4" using e by simp_all
    have b3: "batch_ok log (ackSeq c3 + 1) c3" using b sq by (simp add: c3_def batch_ok_def f2)
    have w3: "w \<longleftrightarrow> batch c3 \<noteq> None" by (simp add: w_def c3_def f2)
    have d3: "0 < downMax c3" using d2 by (simp add: c3_def)
    note nb = next_batch_ok [OF n4 w3 b3 d3]
    have a4: "ackSeq c4 = ackSeq c + 1" "read_out c4 = read_out c" "downMax c4 = downMax c3"
      using nb(3,5,6) sq by (simp_all add: c3_def f2)
    have h: "read_out c5 @ leftover c5 = read_out c4 @ dr_data r" "ackSeq c5 = ackSeq c4" "batch c5 = batch c4"
      "downMax c5 = downMax c4"
      using h5 by (auto simp: hand_out_def)
    have "base_ok log c5"
      by (rule deliver_base [OF base left gc(1)]) (use h a4 d3 in simp_all)
    moreover have "batch_ok log (ackSeq c5 + 1) c5" using nb(1) h by (simp add: batch_ok_def)
    moreover have "launches_ok (ackSeq c5) l4" using nb(2) h by simp
    ultimately show ?thesis using r h a4 by simp
  qed
qed

subsection \<open>The invariant holds throughout\<close>

lemma tunnel_okD:
  assumes "tunnel_ok t"
  shows "dir_ok (td t)" "sees (dq (td t)) (tp t)"
    "flow_ok (sent (tw t)) (tlog t) (ackSeq (tr t)) (tcur t) (td t)"
    "net_ok (tlog t) (ackSeq (tr t)) (treq t) (tnet t)" "reader_ok (tlog t) (tr t)"
  using assms by (simp_all add: tunnel_ok_def flow_ok_def)

lemma tunnel_okI:
  assumes "dir_ok (td t)" "sees (dq (td t)) (tp t)"
    "flow_ok (sent (tw t)) (tlog t) (ackSeq (tr t)) (tcur t) (td t)"
    "net_ok (tlog t) (ackSeq (tr t)) (treq t) (tnet t)" "reader_ok (tlog t) (tr t)"
  shows "tunnel_ok t"
  using assms by (simp add: tunnel_ok_def flow_ok_def)

lemma exec_sees:
  assumes "dir_ok d" "sees (dq d) p" "exec a d p = Some (d', p', ans)"
  shows "dir_ok d' \<and> sees (dq d') p'"
proof (cases "a = OpFree")
  case True
  obtain q1 p1 where r: "q_free (dq d, p) = (q1, p1)" by (metis surj_pair)
  then have "freed q1" using assms(1) free_ok [OF _ r] by (auto simp: dir_ok_def)
  then show ?thesis using True assms r exec_ok [OF assms] by (auto simp: sees_def)
next
  case False
  then have b: "balanced (dq d, p) (dq d', p')" and ok: "dir_ok d'" using exec_ok [OF assms] by auto
  have "sees (dq d') p'" using balanced_sees [OF b] assms(2) by simp
  then show ?thesis using ok by blast
qed

lemma net_ok_reply:
  assumes "net_ok log got reqs net"
    "r_data r \<noteq> [] \<Longrightarrow> good_chunk log (r_seq r) (r_data r) \<and> (if w = 0 then a < got \<or> r_seq r = a + 1 else r_seq r = w)"
  shows "net_ok log got reqs (insert ((a, w, l), r) net)"
  using assms by (auto simp: net_ok_def)

lemma net_ok_log: "net_ok log got reqs net \<Longrightarrow> net_ok (log @ xs) got reqs net"
  unfolding net_ok_def by (fast intro: good_chunk_append)

lemma net_ok_got:
  assumes "net_ok log got reqs net" "got \<le> got'" "launches_ok got' ls"
  shows "net_ok log got' (reqs \<union> set ls) net"
proof -
  have "a \<le> got' \<and> 0 < l" if "(a, w, l) \<in> reqs \<union> set ls" for a w l
    using assms that by (fastforce simp: net_ok_def launches_ok_def)
  moreover have "good_chunk log (r_seq r) (r_data r) \<and> (if w = 0 then a < got' \<or> r_seq r = a + 1 else r_seq r = w)"
    if "((a, w, l), r) \<in> net" "r_data r \<noteq> []" for a w l r
    using assms(1,2) that by (fastforce simp: net_ok_def split: if_splits)
  ultimately show ?thesis unfolding net_ok_def by blast
qed

lemma answers_good:
  assumes "answers r (a, w, l) dr" "r_data r \<noteq> [] \<Longrightarrow> good_chunk log (r_seq r) (r_data r)"
  shows "good_result log dr" "dr_want dr = w"
  using assms by (auto simp: answers_def good_result_def split: if_splits)

lemma answers_seq:
  "answers r rq dr \<Longrightarrow> dr_err dr = None \<Longrightarrow> dr_status dr = 200 \<Longrightarrow> r_data r \<noteq> [] \<and> dr_seq dr = r_seq r"
  by (auto simp: answers_def split: if_splits prod.splits)

lemma reader_step:
  assumes ok: "tunnel_ok t" and left: "leftover (tr t) = []" and base: "base_ok (tlog t) c"
    and c: "ackSeq c = ackSeq (tr t)" "leftover c = []"
    and b: "batch_ok (tlog t) (ackSeq c + 2) c" and good: "good_result (tlog t) dr"
    and want: "dr_err dr = None \<Longrightarrow> dr_status dr = 200 \<Longrightarrow> batch c = None \<or> dr_seq dr = dr_want dr
        \<Longrightarrow> dr_seq dr = ackSeq c + 1"
    and e: "read_result c n dr = (c', s, ls)"
  shows "tunnel_ok (t\<lparr>tr := c', treq := treq t \<union> set ls\<rparr>)"
proof -
  note r = read_result_ok [OF e base c(2) b good want]
  have len: "ackSeq c' \<le> length (tlog t)" using r by (simp add: base_ok_def)
  show ?thesis
  proof (rule tunnel_okI)
    show "flow_ok (sent (tw (t\<lparr>tr := c', treq := treq t \<union> set ls\<rparr>))) (tlog (t\<lparr>tr := c', treq := treq t \<union> set ls\<rparr>))
        (ackSeq (tr (t\<lparr>tr := c', treq := treq t \<union> set ls\<rparr>))) (tcur (t\<lparr>tr := c', treq := treq t \<union> set ls\<rparr>))
        (td (t\<lparr>tr := c', treq := treq t \<union> set ls\<rparr>))"
      using flow_ok_got [OF tunnel_okD(3) [OF ok]] r c len by simp
    show "net_ok (tlog (t\<lparr>tr := c', treq := treq t \<union> set ls\<rparr>)) (ackSeq (tr (t\<lparr>tr := c', treq := treq t \<union> set ls\<rparr>)))
        (treq (t\<lparr>tr := c', treq := treq t \<union> set ls\<rparr>)) (tnet (t\<lparr>tr := c', treq := treq t \<union> set ls\<rparr>))"
      using net_ok_got [OF tunnel_okD(4) [OF ok]] r c by simp
    show "reader_ok (tlog (t\<lparr>tr := c', treq := treq t \<union> set ls\<rparr>)) (tr (t\<lparr>tr := c', treq := treq t \<union> set ls\<rparr>))"
      using r by (simp add: reader_ok_split)
  qed (use tunnel_okD [OF ok] in simp_all)
qed

lemma writer_step:
  assumes ok: "tunnel_ok t" and w: "\<exists>xs. sent w' = sent (tw t) @ xs"
  shows "tunnel_ok (t\<lparr>tw := w'\<rparr>)"
proof -
  obtain xs where "sent w' = sent (tw t) @ xs" using w by blast
  then show ?thesis
    using flow_ok_posts [OF tunnel_okD(3) [OF ok], of xs] tunnel_okD [OF ok]
    by (intro tunnel_okI) simp_all
qed

text \<open>A step of the queue that keeps the stream, and what it may add to the network.\<close>

lemma queue_step:
  assumes ok: "tunnel_ok t" and e: "exec a (td t) (tp t) = Some (d', p', ans)"
    and f: "flow_ok (sent (tw t)) log (ackSeq (tr t)) rq d'"
    and n: "net_ok log (ackSeq (tr t)) (treq t) net" and log: "log = tlog t @ xs"
  shows "tunnel_ok (t\<lparr>td := d', tp := p', tnet := net, tcur := rq, tlog := log\<rparr>)"
  using f n exec_sees [OF tunnel_okD(1,2) [OF ok] e] reader_ok_append [OF tunnel_okD(5) [OF ok], of xs]
  by (intro tunnel_okI) (simp_all add: log)

end
