(* ===== verification/TunnelStream.thy ===== *)
theory TunnelStream
  imports TunnelProof
begin

text \<open>
  The tunnel delivers the stream: every reachable state satisfies the invariant of
  TunnelProof, so what the reader has handed out is a prefix of what was written,
  and a queue that reports itself settled has nothing left to deliver.
\<close>

lemma flush_sent: "flushWrites posted w = (w', res) \<Longrightarrow> \<exists>xs. sent w' = sent w @ xs"
proof -
  assume e: "flushWrites posted w = (w', res)"
  then consider "w' = w" | "w' = stopFlushTimerLocked w"
    | "sendLocked posted (stopFlushTimerLocked w) (length (w_pending (stopFlushTimerLocked w))) = (w', res)"
    by (auto simp: flushWrites_def Let_def split: option.splits if_splits)
  then show ?thesis
  proof cases
    case 3
    then show ?thesis using sendLocked_fields(1) [OF 3] by simp
  qed simp_all
qed

lemma timer_sent: "\<exists>xs. sent (flushTimerFired posted w gen) = sent w @ xs"
proof -
  let ?w = "w\<lparr>flushTimer := False\<rparr>"
  obtain w1 e1 where s: "sendLocked posted ?w (length (w_pending ?w)) = (w1, e1)" by (metis surj_pair)
  then show ?thesis
    using sendLocked_fields(1) [OF s] by (simp add: flushTimerFired_def Let_def)
qed

lemma close_sent: "Close posted w = (w', tail) \<Longrightarrow> \<exists>xs. sent w' = sent w @ xs"
proof -
  assume e: "Close posted w = (w', tail)"
  let ?w = "stopFlushTimerLocked w"
  obtain w1 e1 where s: "sendLocked posted ?w (length (w_pending ?w)) = (w1, e1)" by (metis surj_pair)
  show ?thesis using e sendLocked_fields(1) [OF s] s
    by (auto simp: Close_def Let_def split: if_splits)
qed

lemma fail_sent: "\<exists>xs. sent (fail w e) = sent w @ xs"
  by simp

lemma tunnel_step_ok: "tunnel_step t t' \<Longrightarrow> tunnel_ok t \<Longrightarrow> tunnel_ok t'"
proof (induction rule: tunnel_step.induct)
  case (writes posted t p w' res)
  then show ?case by (intro writer_step) (auto dest: Write_sent)
next
  case (flush posted t w' res)
  then show ?case by (intro writer_step) (auto dest: flush_sent)
next
  case (timer t posted gen)
  then show ?case by (intro writer_step timer_sent)
next
  case (closing posted t w' tail)
  then show ?case by (intro writer_step) (auto dest: close_sent)
next
  case (learned t)
  then show ?case by (intro writer_step) simp_all
next
  case (failed t e)
  then show ?case by (intro writer_step fail_sent)
next
  case (upload t a d' p' ans)
  note D = tunnel_okD [OF upload(3)]
  show ?case
    using queue_step [OF upload(3,2) upload_flow [OF upload(1,2) D(1,3)] D(4), of "[]"] by simp
next
  case (others t p')
  note D = tunnel_okD [OF others(2)]
  show ?case by (rule tunnel_okI) (use D others(1) in simp_all)
next
  case (asks limit t)
  note D = tunnel_okD [OF asks(2)]
  have "net_ok (tlog t) (ackSeq (tr t)) (insert (ackSeq (tr t), 0, limit) (treq t)) (tnet t)"
    using D(4) asks(1) by (simp add: net_ok_def)
  then show ?case by (intro tunnel_okI) (use D in simp_all)
next
  case (take_replay ack limit t d' p' r)
  note D = tunnel_okD [OF take_replay(4)]
  have a: "ack \<le> ackSeq (tr t)" using D(4) take_replay(1) by (auto simp: net_ok_def)
  note f = take_flow(2) [OF D(3,1) a take_replay(2,3) refl]
  have "net_ok (tlog t) (ackSeq (tr t)) (treq t) (insert ((ack, 0, limit), r) (tnet t))"
    using f by (intro net_ok_reply [OF D(4)]) simp
  then show ?case
    using queue_step [OF take_replay(4,3) _ _, of "tlog t" "tcur t" _ "[]"] f by simp
next
  case (take_start ack limit t d' p')
  note D = tunnel_okD [OF take_start(4)]
  have a: "ack \<le> ackSeq (tr t)" using D(4) take_start(1) by (auto simp: net_ok_def)
  show ?case
    using queue_step [OF take_start(4,3) take_flow(1) [OF D(3,1) a take_start(2,3) refl] D(4), of "[]"] by simp
next
  case (look_reply ack w limit t d' p' r)
  note D = tunnel_okD [OF look_reply(4)]
  have a: "ack \<le> ackSeq (tr t)" using D(4) look_reply(1) by (auto simp: net_ok_def)
  note f = look_flow [OF D(3) a look_reply(3)]
  have "net_ok (tlog t) (ackSeq (tr t)) (treq t) (insert ((ack, w, limit), r) (tnet t))"
    by (rule net_ok_reply [OF D(4)]) (use f look_reply(2) in auto)
  then show ?case
    using queue_step [OF look_reply(4,3) _ _, of "tlog t" "tcur t" _ "[]"] f by simp
next
  case (look_wait ack w limit t d' p')
  note D = tunnel_okD [OF look_wait(4)]
  have a: "ack \<le> ackSeq (tr t)" using D(4) look_wait(1) by (auto simp: net_ok_def)
  show ?case
    using queue_step [OF look_wait(4,3) conjunct1 [OF look_flow [OF D(3) a look_wait(3)]] D(4), of "[]"] by simp
next
  case (window_go ack w limit t d' p')
  note D = tunnel_okD [OF window_go(4)]
  have a: "ack \<le> ackSeq (tr t)" using D(4) window_go(1) by (auto simp: net_ok_def)
  show ?case
    using queue_step [OF window_go(4,3) window_flow [OF D(3,1) window_go(2) a window_go(3)] D(4), of "[]"] by simp
next
  case (polling a e t d' p' ans)
  note D = tunnel_okD [OF polling(3)]
  show ?case
    using queue_step [OF polling(3,2) polling_flow [OF D(3,1) polling(1,2)] D(4), of "[]"] by simp
next
  case (finish t d' p' r)
  note D = tunnel_okD [OF finish(2)]
  obtain a w l where rq: "tcur t = (a, w, l)" by (metis surj_pair)
  show ?case
  proof (cases "dpoll (td t) = None")
    case True
    then show ?thesis using finish(1) by simp
  next
    case False
    let ?log = "if r_data r \<noteq> [] then tlog t @ [r_data r] else tlog t"
    note f = finish_flow [OF D(3,1) finish(1) rq]
    have n0: "net_ok ?log (ackSeq (tr t)) (treq t) (tnet t)"
      using D(4) net_ok_log [OF D(4)] by simp
    have "net_ok ?log (ackSeq (tr t)) (treq t) (insert (tcur t, r) (tnet t))"
      unfolding rq by (rule net_ok_reply [OF n0]) (use f(2) in \<open>auto simp: good_chunk_def\<close>)
    then show ?thesis
      using queue_step [OF finish(2,1) f(1), of "insert (tcur t, r) (tnet t)" "if r_data r \<noteq> [] then [r_data r] else []"]
      by (cases "r_data r = []") simp_all
  qed
next
  case (hands_out t n c' s)
  note D = tunnel_okD [OF hands_out(2)]
  have r: "reader_ok (tlog t) c'" "ackSeq c' = ackSeq (tr t)" using read_start_ok [OF D(5) hands_out(1)] by auto
  show ?case by (rule tunnel_okI) (use D r in simp_all)
next
  case (arrives ack limit r t dr n c' s ls)
  note D = tunnel_okD [OF arrives(7)]
  have n: "r_data r \<noteq> [] \<Longrightarrow> good_chunk (tlog t) (r_seq r) (r_data r) \<and> r_seq r = ack + 1"
    using D(4) arrives(1,4) by (fastforce simp: net_ok_def)
  note g = answers_good [OF arrives(2)]
  have base: "base_ok (tlog t) (tr t)" using D(5) by (simp add: reader_ok_split)
  show ?case
  proof (rule reader_step [OF arrives(7,5) base refl arrives(5) _ _ _ arrives(6)])
    show "batch_ok (tlog t) (ackSeq (tr t) + 2) (tr t)" using arrives(3) by (simp add: batch_ok_def)
    show "good_result (tlog t) dr" using g(1) n by blast
    show "dr_seq dr = ackSeq (tr t) + 1" if "dr_err dr = None" "dr_status dr = 200"
      using answers_seq [OF arrives(2) that] n arrives(4) by simp
  qed
next
  case (collects ack w limit r t dr b)
  note D = tunnel_okD [OF collects(5)]
  have n: "r_data r \<noteq> [] \<Longrightarrow> good_chunk (tlog t) (r_seq r) (r_data r)"
    using D(4) collects(1) by (fastforce simp: net_ok_def)
  note g = answers_good [OF collects(3)]
  have "reader_ok (tlog t) ((tr t)\<lparr>batch := Some (batch_arrive b dr)\<rparr>)"
    using D(5) collects(2,4) g(1,2) n
    by (auto simp: reader_ok_def batch_arrive_def dest!: set_al_put_sub)
  then show ?case by (intro tunnel_okI) (use D in simp_all)
next
  case (in_turn t b b' dr n c' s ls)
  note D = tunnel_okD [OF in_turn(5)]
  let ?c = "(tr t)\<lparr>batch := Some b'\<rparr>"
  have base: "base_ok (tlog t) ?c" using D(5) by (simp add: reader_ok_split base_ok_def)
  have b: "b_next b = ackSeq (tr t) + 1" "\<forall>(w, dr) \<in> set (b_pending b). 0 < w \<and> dr_want dr = w \<and> good_result (tlog t) dr"
    using D(5) in_turn(1) by (auto simp: reader_ok_def)
  have m: "(b_next b, dr) \<in> set (b_pending b)"
    and b': "b' = b\<lparr>b_pending := al_del (b_next b) (b_pending b), b_next := b_next b + 1\<rparr>"
    using in_turn(2) by (auto simp: nextBatchResult_def split: option.splits dest: map_of_SomeD)
  show ?case
  proof (rule reader_step [OF in_turn(5,3) base _ _ _ _ _ in_turn(4)])
    show "batch_ok (tlog t) (ackSeq ?c + 2) ?c" using b by (auto simp: batch_ok_def b' set_al_del)
    show "good_result (tlog t) dr" using b(2) m by auto
    show "dr_seq dr = ackSeq ?c + 1" if "dr_err dr = None" "dr_status dr = 200" "batch ?c = None \<or> dr_seq dr = dr_want dr"
      using b m that by auto
  qed (use in_turn(3) in simp_all)
qed

lemma sees_start:
  assumes "sees (dq (td (start_tunnel ns p))) (tp (start_tunnel ns p))"
  shows "tunnel_ok (start_tunnel ns p)"
proof -
  obtain q p' where a: "attach (newSideQueue, p) ns = (q, p')" by (metis surj_pair)
  have q: "q = newSideQueue\<lparr>pooled := True, q_share := (if ns = [] then None else Some ns)\<rparr>"
    using a by (auto simp: attach_def Let_def newSideQueue_def split: if_splits)
  have t: "td (start_tunnel ns p) = \<lparr>dq = q, pend = [], dpoll = None\<rparr>" "tp (start_tunnel ns p) = p'"
    "tw (start_tunnel ns p) = new_writer" "tr (start_tunnel ns p) = new_reader" "tlog (start_tunnel ns p) = []"
    "treq (start_tunnel ns p) = {}" "tnet (start_tunnel ns p) = {}"
    by (simp_all add: start_tunnel_def a)
  have d: "dir_ok (td (start_tunnel ns p))"
    unfolding t q
    by (simp add: dir_ok_def newSideQueue_def qok_defs nonempty_count_def pend_count_def go_defs)
  have "flow_ok [] [] 0 rq \<lparr>dq = q, pend = [], dpoll = None\<rparr>" for rq
    by (auto simp: flow_ok_def stream_ok_def up_ok_def log_ok_def cur_ok_def q newSideQueue_def poll_out_def)
  then show ?thesis
    using d assms
    by (intro tunnel_okI) (simp_all add: t new_writer_def new_reader_def net_ok_def reader_ok_def go_defs)
qed

lemma tunnel_reachable_ok: "tunnel_reachable t \<Longrightarrow> tunnel_ok t"
  unfolding tunnel_reachable_def
proof (elim exE conjE)
  fix ns p assume s: "sees (dq (td (start_tunnel ns p))) (tp (start_tunnel ns p))"
    and r: "tunnel_step\<^sup>*\<^sup>* (start_tunnel ns p) t"
  from r show "tunnel_ok t"
    by (induction rule: rtranclp_induct) (auto intro: sees_start [OF s] tunnel_step_ok)
qed

lemma tunnel_ok_prefix:
  assumes "tunnel_ok t"
  shows "prefix (read_out (tr t)) (written (tw t))"
proof -
  note D = tunnel_okD [OF assms]
  have r: "read_out (tr t) @ leftover (tr t) = concat (take (ackSeq (tr t)) (tlog t))"
    using D(5) by (simp add: reader_ok_def)
  have "prefix (read_out (tr t)) (concat (take (ackSeq (tr t)) (tlog t)))" using r by (metis prefixI)
  also have "prefix \<dots> (concat (tlog t))" by (rule concat_take_prefix)
  also have "prefix \<dots> (concat (sent (tw t)))"
    using stream_prefix D(3) by (metis append_prefixD flow_ok_def)
  also have "prefix \<dots> (written (tw t))" by (simp add: written_def)
  finally show ?thesis .
qed

text \<open>
  \<open>settled\<close> is never a lie: with every post taken in, the reader has acknowledged
  the whole of them.
\<close>

lemma tunnel_ok_settled:
  assumes ok: "tunnel_ok t" and s: "settled (dq (td t))" and nf: "\<not> freed (dq (td t))"
  shows "read_out (tr t) @ leftover (tr t) = concat (take (seqNext (dq (td t)) - 1) (sent (tw t)))"
proof -
  note D = tunnel_okD [OF ok]
  have q: "assigned (dq (td t)) = []" "head (dq (td t)) = []" "ch (dq (td t)) = []" "\<not> inflight (dq (td t))"
    using s by (simp_all add: settled_def)
  have po: "dpoll (td t) = None" using D(1) q(4) by (auto simp: dir_ok_def qok_def shaped_def)
  have "concat (tlog t) = concat (take (seqNext (dq (td t)) - 1) (sent (tw t)))"
    using D(3) nf q po by (simp add: flow_ok_def stream_ok_def up_ok_def poll_out_def)
  moreover have "ackSeq (tr t) = length (tlog t)"
  proof (rule ccontr)
    assume "ackSeq (tr t) \<noteq> length (tlog t)"
    then have "ackSeq (tr t) < q_seq (dq (td t))" using D(3) by (auto simp: flow_ok_def log_ok_def)
    then have "map_of (assigned (dq (td t))) (q_seq (dq (td t))) \<noteq> None"
      using D(3) nf by (simp add: flow_ok_def log_ok_def)
    then show False using q(1) by simp
  qed
  ultimately show ?thesis using D(5) by (simp add: reader_ok_def)
qed

lemma tunnel_reachable_step: "tunnel_reachable t \<Longrightarrow> tunnel_step t t' \<Longrightarrow> tunnel_reachable t'"
  unfolding tunnel_reachable_def by (meson rtranclp.rtrancl_into_rtrancl)

lemma tunnel_reachable_start: "tunnel_reachable (start_tunnel [] p)"
proof -
  have "sees (dq (td (start_tunnel [] p))) (tp (start_tunnel [] p))"
    by (simp add: start_tunnel_def attach_def sees_def newSideQueue_def Let_def)
  then show ?thesis unfolding tunnel_reachable_def by blast
qed

end
