(* ===== verification/RelayAccount.thy ===== *)
theory RelayAccount
  imports Draining
begin

text \<open>
  All the directions of a relay on its one account: \<open>relay_step\<close> lets any request
  run one critical section on any direction, a new session attach two more, and
  the sweeper report; \<open>reachable\<close> is what a relay started with \<open>newResidency\<close> can
  come to. The invariant \<open>relay_ok\<close> holds in every reachable state: the account
  is the exact sum of what the directions hold, and no budget is ever passed.
\<close>

type_synonym relay_mem = "dir list \<times> residency"

definition new_dir :: "sideQueue \<Rightarrow> dir" where
  "new_dir q = \<lparr>dq = q, pend = [], dpoll = None\<rparr>"

inductive relay_step :: "relay_mem \<Rightarrow> relay_mem \<Rightarrow> bool" where
  request: "i < length ds \<Longrightarrow> exec a (ds ! i) p = Some (d', p', ans)
            \<Longrightarrow> relay_step (ds, p) (ds[i := d'], p')"
| attached: "attach (newSideQueue, p) ns = (q, p') \<Longrightarrow> relay_step (ds, p) (ds @ [new_dir q], p')"
| reporting: "relay_step (ds, p) (ds, report p now)"

inductive_cases relay_stepE: "relay_step (ds, p) (ds', p')"

definition reachable :: "relay_mem \<Rightarrow> bool" where
  "reachable m \<longleftrightarrow> (\<exists>now. relay_step\<^sup>*\<^sup>* ([], newResidency now) m)"

definition sum_dirs :: "(sideQueue \<Rightarrow> 'a) \<Rightarrow> dir list \<Rightarrow> 'a :: monoid_add" where
  "sum_dirs f ds = sum_list (map (\<lambda>d. f (dq d)) ds)"

definition relay_ok :: "relay_mem \<Rightarrow> bool" where
  "relay_ok m \<longleftrightarrow>
     (let (ds, p) = m in
      (\<forall>d \<in> set ds. dir_ok d \<and> q_limit (dq d) = maxResidentPerDirection)
      \<and> used p = sum_dirs charge ds
      \<and> (\<forall>ns. share_used p ns = sum_dirs (\<lambda>q. charge_ns q ns) ds)
      \<and> (\<forall>ns. share_refs p ns = sum_dirs (\<lambda>q. charge_refs q ns) ds)
      \<and> limit_of p = maxResidentTotal \<and> nsLimit p = maxResidentPerNamespace
      \<and> used p \<le> limit_of p \<and> (\<forall>ns. share_used p ns \<le> nsLimit p))"

lemma relay_okD:
  assumes "relay_ok (ds, p)"
  shows "d \<in> set ds \<Longrightarrow> dir_ok d" "d \<in> set ds \<Longrightarrow> q_limit (dq d) = maxResidentPerDirection"
    "used p = sum_dirs charge ds" "share_used p ns = sum_dirs (\<lambda>q. charge_ns q ns) ds"
    "share_refs p ns = sum_dirs (\<lambda>q. charge_refs q ns) ds"
    "limit_of p = maxResidentTotal" "nsLimit p = maxResidentPerNamespace"
    "used p \<le> limit_of p" "share_used p ns \<le> nsLimit p"
  using assms unfolding relay_ok_def Let_def prod.case by blast+

lemma relay_okI:
  assumes "\<forall>d \<in> set ds. dir_ok d \<and> q_limit (dq d) = maxResidentPerDirection"
    "used p = sum_dirs charge ds" "\<And>ns. share_used p ns = sum_dirs (\<lambda>q. charge_ns q ns) ds"
    "\<And>ns. share_refs p ns = sum_dirs (\<lambda>q. charge_refs q ns) ds"
    "limit_of p = maxResidentTotal" "nsLimit p = maxResidentPerNamespace"
    "used p \<le> limit_of p" "\<And>ns. share_used p ns \<le> nsLimit p"
  shows "relay_ok (ds, p)"
  unfolding relay_ok_def Let_def prod.case using assms by blast

lemma sum_dirs_update:
  fixes f :: "sideQueue \<Rightarrow> 'a :: ab_group_add"
  assumes "i < length ds"
  shows "sum_dirs f (ds[i := d]) = sum_dirs f ds - f (dq (ds ! i)) + f (dq d)"
  using assms
  by (induction ds arbitrary: i) (auto simp: sum_dirs_def algebra_simps split: nat.splits)

lemma sum_dirs_update_nat:
  assumes "i < length ds"
  shows "sum_dirs f (ds[i := d]) + f (dq (ds ! i)) = sum_dirs f ds + (f (dq d) :: nat)"
  using assms
  by (induction ds arbitrary: i) (auto simp: sum_dirs_def algebra_simps split: nat.splits)

lemma sum_dirs_append [simp]: "sum_dirs f (ds @ [d]) = sum_dirs f ds + f (dq d)"
  by (simp add: sum_dirs_def)

lemma sum_dirs_ge:
  fixes f :: "sideQueue \<Rightarrow> nat"
  shows "d \<in> set ds \<Longrightarrow> f (dq d) \<le> sum_dirs f ds"
  by (induction ds) (auto simp: sum_dirs_def)

lemma sum_dirs_nonneg: "(\<And>d. d \<in> set ds \<Longrightarrow> 0 \<le> f (dq d)) \<Longrightarrow> 0 \<le> (sum_dirs f ds :: int)"
  by (induction ds) (auto simp: sum_dirs_def)

lemma qok_resident_nonneg: "qok q ns po \<Longrightarrow> 0 \<le> resident q"
proof -
  assume ok: "qok q ns po"
  then have "0 \<le> sum_list ns" by (intro sum_list_nonneg) (simp add: qok_def shaped_def)
  then show ?thesis using ok by (auto simp: qok_def counted_def split: if_splits)
qed

text \<open>One queue among others: when it is the only one charging a namespace, the share is its own.\<close>

lemma sum_dirs_only:
  assumes i: "i < length ds" and one: "sum_dirs (\<lambda>q. charge_refs q ns) ds \<le> 1"
    and me: "charge_refs (dq (ds ! i)) ns = 1"
  shows "sum_dirs (\<lambda>q. charge_ns q ns) ds = charge_ns (dq (ds ! i)) ns"
proof -
  have split: "ds = take i ds @ ds ! i # drop (Suc i) ds"
    using id_take_nth_drop [OF i] .
  have zero: "sum_dirs (\<lambda>q. charge_ns q ns) xs = 0" if "sum_dirs (\<lambda>q. charge_refs q ns) xs = 0" for xs
    using that by (induction xs) (auto simp: sum_dirs_def charge_refs_def charge_ns_def split: if_splits)
  have app: "sum_dirs f (xs @ d # ys) = sum_dirs f xs + f (dq d) + sum_dirs f ys" for f :: "sideQueue \<Rightarrow> nat" and xs d ys
    by (simp add: sum_dirs_def)
  have app': "sum_dirs f (xs @ d # ys) = sum_dirs f xs + f (dq d) + sum_dirs f ys" for f :: "sideQueue \<Rightarrow> int" and xs d ys
    by (simp add: sum_dirs_def)
  have "sum_dirs (\<lambda>q. charge_refs q ns) (take i ds) = 0 \<and> sum_dirs (\<lambda>q. charge_refs q ns) (drop (Suc i) ds) = 0"
    using one me by (subst (asm) split) (simp add: app)
  then show ?thesis by (subst split) (simp add: app' zero)
qed

lemma relay_ok_sees: "relay_ok (ds, p) \<Longrightarrow> d \<in> set ds \<Longrightarrow> sees (dq d) p"
  unfolding sees_def
proof (intro allI impI)
  fix ns assume ok: "relay_ok (ds, p)" and d: "d \<in> set ds"
    and c: "pooled (dq d) \<and> \<not> freed (dq d) \<and> q_share (dq d) = Some ns"
  have "charge_refs (dq d) ns \<le> sum_dirs (\<lambda>q. charge_refs q ns) ds"
    using sum_dirs_ge [OF d] .
  then show "0 < share_refs p ns" using ok c by (simp add: relay_ok_def charge_refs_def)
qed

lemma balancedD:
  assumes "balanced (q, p) (q', p')"
  shows "used p' - charge q' = used p - charge q"
    "share_used p' ns - charge_ns q' ns = share_used p ns - charge_ns q ns"
    "share_refs p' ns = share_refs p ns" "charge_refs q' ns = charge_refs q ns" "q_limit q' = q_limit q"
    "limit_of p' = limit_of p" "nsLimit p' = nsLimit p"
    "used p \<le> limit_of p \<Longrightarrow> used p' \<le> limit_of p'"
    "share_used p ns \<le> nsLimit p \<Longrightarrow> share_used p' ns \<le> nsLimit p'"
  using assms unfolding balanced_def prod.case Let_def charge_refs_def by (blast | simp)+

lemma update_dirs:
  assumes "\<forall>d \<in> set ds. P d" "P d'" shows "\<forall>d \<in> set (ds[i := d']). P d"
  using assms set_update_subset_insert [of ds i d'] by blast

lemma balanced_step:
  assumes ok: "relay_ok (ds, p)" and i: "i < length ds" and d': "dir_ok d'"
    and b: "balanced (dq (ds ! i), p) (dq d', p')"
  shows "relay_ok (ds[i := d'], p')"
proof (rule relay_okI)
  note o = relay_okD [OF ok] and bd = balancedD [OF b]
  have mem: "ds ! i \<in> set ds" using i by simp
  show "\<forall>d \<in> set (ds[i := d']). dir_ok d \<and> q_limit (dq d) = maxResidentPerDirection"
    using o(1,2) d' bd(5) mem by (intro update_dirs) auto
  show "used p' = sum_dirs charge (ds[i := d'])"
    using o(3) bd(1) by (simp add: sum_dirs_update [OF i])
  show "share_used p' ns = sum_dirs (\<lambda>q. charge_ns q ns) (ds[i := d'])" for ns
    using o(4) [of ns] bd(2) [of ns] by (simp add: sum_dirs_update [OF i])
  show "share_refs p' ns = sum_dirs (\<lambda>q. charge_refs q ns) (ds[i := d'])" for ns
    using o(5) [of ns] bd(3,4) [of ns] sum_dirs_update_nat [OF i, of "\<lambda>q. charge_refs q ns" d'] by simp
  show "limit_of p' = maxResidentTotal" "nsLimit p' = maxResidentPerNamespace"
    using o(6,7) bd(6,7) by simp_all
  show "used p' \<le> limit_of p'" by (rule bd(8) [OF o(8)])
  show "share_used p' ns \<le> nsLimit p'" for ns by (rule bd(9) [OF o(9)])
qed

text \<open>\<open>free\<close> takes the queue's whole charge out, and its reference with it.\<close>

lemma free_account:
  assumes q: "\<not> freed q" "pooled q" and sees: "sees q p" and e: "q_free (q, p) = (q', p')"
    and only: "\<And>ns. q_share q = Some ns \<Longrightarrow> share_refs p ns \<le> 1 \<Longrightarrow> share_used p ns = resident q"
  shows "used p' = used p - resident q"
    "share_used p' ns = share_used p ns - charge_ns q ns"
    "share_refs p' ns = share_refs p ns - charge_refs q ns"
    "limit_of p' = limit_of p" "nsLimit p' = nsLimit p"
proof -
  have p': "p' = leave (release_pool p (q_share q) (resident q)) (q_share q)"
    using e q by (simp add: q_free_def q_close_def Let_def)
  have su: "share_used (release_pool p (q_share q) (resident q)) ns =
      share_used p ns - (if q_share q = Some ns then resident q else 0)" for ns
    using sees_refs [OF sees q(2,1), of ns] by (intro share_used_release_pool)
  show "used p' = used p - resident q" "limit_of p' = limit_of p" "nsLimit p' = nsLimit p"
    by (simp_all add: p' acct_simps)
  show "share_refs p' ns = share_refs p ns - charge_refs q ns"
    using q by (simp add: p' acct_simps charge_refs_def)
  show "share_used p' ns = share_used p ns - charge_ns q ns"
    using q only [of ns] by (simp add: p' acct_simps share_used_leave su charge_ns_def)
qed

lemma q_free_cases:
  assumes "q_free (q, p) = (q', p')"
  shows "q_limit q' = q_limit q" "freed q \<or> \<not> pooled q \<Longrightarrow> p' = p"
  using assms by (auto simp: q_free_def Let_def q_close_def wakeLocked_def split: if_splits)

lemma free_step:
  assumes ok: "relay_ok (ds, p)" and i: "i < length ds" and e: "q_free (dq (ds ! i), p) = (q', p')"
  shows "relay_ok (ds[i := (ds ! i)\<lparr>dq := q'\<rparr>], p')"
proof (cases "freed (dq (ds ! i)) \<or> \<not> pooled (dq (ds ! i))")
  case True
  let ?q = "dq (ds ! i)" and ?d = "(ds ! i)\<lparr>dq := q'\<rparr>"
  have mem: "ds ! i \<in> set ds" using i by simp
  have p': "p' = p" by (rule q_free_cases(2) [OF e True])
  have f: "dir_ok ?d" "freed q'" "pooled q' = pooled ?q" "q_share q' = q_share ?q"
    using relay_okD(1) [OF ok mem] free_ok [OF _ e, of "pend (ds ! i)" "dpoll (ds ! i)"]
    by (auto simp: dir_ok_def)
  have c: "charge q' = charge ?q" "charge_ns q' ns = charge_ns ?q ns" "charge_refs q' ns = charge_refs ?q ns" for ns
    using f True by (auto simp: charge_def charge_ns_def charge_refs_def)
  show ?thesis
  proof (rule relay_okI)
    note o = relay_okD [OF ok]
    show "\<forall>d \<in> set (ds[i := ?d]). dir_ok d \<and> q_limit (dq d) = maxResidentPerDirection"
      using o(1,2) f(1) mem q_free_cases(1) [OF e] by (intro update_dirs) auto
    show "used p' = sum_dirs charge (ds[i := ?d])"
      using o(3) c(1) by (simp add: sum_dirs_update [OF i] p')
    show "share_used p' ns = sum_dirs (\<lambda>q. charge_ns q ns) (ds[i := ?d])" for ns
      using o(4) [of ns] c(2) [of ns] by (simp add: sum_dirs_update [OF i] p')
    show "share_refs p' ns = sum_dirs (\<lambda>q. charge_refs q ns) (ds[i := ?d])" for ns
      using o(5) [of ns] c(3) [of ns] sum_dirs_update_nat [OF i, of "\<lambda>q. charge_refs q ns" ?d] by (simp add: p')
  qed (use relay_okD(6-9) [OF ok] p' in simp_all)
next
  case False
  let ?q = "dq (ds ! i)" and ?d = "(ds ! i)\<lparr>dq := q'\<rparr>"
  note o = relay_okD [OF ok]
  have mem: "ds ! i \<in> set ds" using i by simp
  note sees = relay_ok_sees [OF ok mem]
  have f: "dir_ok ?d" "freed q'"
    using o(1) [OF mem] free_ok [OF _ e, of "pend (ds ! i)" "dpoll (ds ! i)"] by (auto simp: dir_ok_def)
  have zero: "charge q' = 0" "charge_ns q' ns = 0" "charge_refs q' ns = 0" for ns
    using f by (simp_all add: charge_def charge_ns_def charge_refs_def)
  have nf: "\<not> freed ?q" "pooled ?q" using False by auto
  have only: "share_used p ns = resident ?q" if "q_share ?q = Some ns" "share_refs p ns \<le> 1" for ns
  proof -
    have "charge_refs ?q ns = 1" using that nf by (simp add: charge_refs_def)
    then have "sum_dirs (\<lambda>q. charge_ns q ns) ds = charge_ns ?q ns"
      using sum_dirs_only [OF i, of ns] that(2) o(5) [of ns] by simp
    then show ?thesis using o(4) [of ns] that nf by (simp add: charge_ns_def)
  qed
  note a = free_account [OF nf sees e only]
  have pos: "0 \<le> resident ?q" using o(1) [OF mem] by (auto simp: dir_ok_def intro: qok_resident_nonneg)
  show ?thesis
  proof (rule relay_okI)
    show "\<forall>d \<in> set (ds[i := ?d]). dir_ok d \<and> q_limit (dq d) = maxResidentPerDirection"
      using o(1,2) f(1) mem q_free_cases(1) [OF e] by (intro update_dirs) auto
    show "used p' = sum_dirs charge (ds[i := ?d])"
      using o(3) a(1) zero(1) nf by (simp add: sum_dirs_update [OF i] charge_def)
    show "share_used p' ns = sum_dirs (\<lambda>q. charge_ns q ns) (ds[i := ?d])" for ns
      using o(4) [of ns] a(2) [of ns] zero(2) [of ns] by (simp add: sum_dirs_update [OF i])
    show "share_refs p' ns = sum_dirs (\<lambda>q. charge_refs q ns) (ds[i := ?d])" for ns
      using o(5) [of ns] a(3) [of ns] zero(3) [of ns]
        sum_dirs_update_nat [OF i, of "\<lambda>q. charge_refs q ns" ?d] by simp
    show "limit_of p' = maxResidentTotal" "nsLimit p' = maxResidentPerNamespace"
      using o(6,7) a(4,5) by simp_all
    show "used p' \<le> limit_of p'" using o(8) a(1,4) pos by simp
    show "share_used p' ns \<le> nsLimit p'" for ns
      using o(9) [of ns] a(2) [of ns] a(5) pos by (simp add: charge_ns_def split: if_splits)
  qed
qed

lemma new_dir_ok: "dir_ok (new_dir (newSideQueue\<lparr>pooled := b, q_share := s\<rparr>))"
  by (simp add: dir_ok_def new_dir_def newSideQueue_def qok_defs nonempty_count_def pend_count_def go_defs)

lemma attach_step:
  assumes ok: "relay_ok (ds, p)" and e: "attach (newSideQueue, p) ns = (q, p')"
  shows "relay_ok (ds @ [new_dir q], p')"
proof -
  have q: "q = newSideQueue\<lparr>pooled := True, q_share := (if ns = [] then None else Some ns)\<rparr>"
    using e by (auto simp: attach_def Let_def newSideQueue_def split: if_splits)
  have p': "used p' = used p" "share_used p' m = share_used p m" "limit_of p' = limit_of p" "nsLimit p' = nsLimit p"
    "share_refs p' m = share_refs p m + charge_refs q m" for m
    using e by (auto simp: attach_def Let_def acct_simps charge_refs_def newSideQueue_def split: if_splits)
  have z: "charge q = 0" "charge_ns q m = 0" "q_limit q = maxResidentPerDirection" for m
    by (simp_all add: q charge_def charge_ns_def newSideQueue_def)
  have d: "dir_ok (new_dir q)" unfolding q by (rule new_dir_ok)
  show ?thesis
    using relay_okD [OF ok] p' z d by (intro relay_okI) (auto simp: new_dir_def)
qed

lemma relay_step_ok:
  assumes "relay_step m m'" "relay_ok m"
  shows "relay_ok m'"
  using assms
proof (induction rule: relay_step.induct)
  case (request i ds a p d' p' ans)
  have mem: "ds ! i \<in> set ds" using request(1) by simp
  have ok: "dir_ok (ds ! i)" using request(3) mem by (simp add: relay_ok_def)
  note x = exec_ok [OF ok relay_ok_sees [OF request(3) mem] request(2)]
  show ?case
  proof (cases "a = OpFree")
    case True
    obtain q1 p1 where f: "q_free (dq (ds ! i), p) = (q1, p1)" by (metis surj_pair)
    then have "d' = (ds ! i)\<lparr>dq := q1\<rparr>" "p' = p1" using request(2) True by simp_all
    then show ?thesis using free_step [OF request(3,1) f] by simp
  next
    case False
    then show ?thesis using balanced_step [OF request(3,1)] x by blast
  qed
next
  case (attached p ns q p' ds)
  then show ?case by (rule attach_step [rotated])
next
  case (reporting ds p now)
  note o = relay_okD [OF reporting]
  show ?case by (rule relay_okI) (use o in \<open>auto simp: acct_simps\<close>)
qed

lemma reachable_ok: "reachable m \<Longrightarrow> relay_ok m"
  unfolding reachable_def
proof (elim exE)
  fix now assume "relay_step\<^sup>*\<^sup>* ([], newResidency now) m"
  then show "relay_ok m"
  proof (induction rule: rtranclp_induct)
    case base
    show ?case by (simp add: relay_ok_def newResidency_def sum_dirs_def share_used_def share_refs_def go_defs)
  next
    case (step m m')
    then show ?case by (blast intro: relay_step_ok)
  qed
qed

subsection \<open>Running a given schedule\<close>

text \<open>A schedule is the list of requests in the order they run, each with the direction it is on.\<close>

fun relay_run :: "(nat \<times> op) list \<Rightarrow> relay_mem \<Rightarrow> relay_mem option" where
  "relay_run [] m = Some m"
| "relay_run ((i, a) # as) (ds, p) =
     (if i < length ds then
        (case exec a (ds ! i) p of
           None \<Rightarrow> None
         | Some (d', p', _) \<Rightarrow> relay_run as (ds[i := d'], p'))
      else None)"

lemma relay_run_reachable:
  "relay_run as m = Some m' \<Longrightarrow> reachable m \<Longrightarrow> reachable m'"
proof (induction as m rule: relay_run.induct)
  case (2 i a as ds p)
  then obtain d' p' ans where x: "i < length ds" "exec a (ds ! i) p = Some (d', p', ans)"
    "relay_run as (ds[i := d'], p') = Some m'"
    by (auto split: if_splits option.splits)
  have "relay_step (ds, p) (ds[i := d'], p')" using x(1,2) by (rule request)
  then have "reachable (ds[i := d'], p')"
    using 2(3) unfolding reachable_def by (meson rtranclp.rtrancl_into_rtrancl)
  then show ?case using 2(1) [OF x(1,2) refl refl x(3)] by simp
qed simp

definition fresh_relay :: "string \<Rightarrow> gotime \<Rightarrow> relay_mem" where
  "fresh_relay ns now =
     (let (q, p) = attach (newSideQueue, newResidency now) ns in ([new_dir q], p))"

lemma reachable_fresh: "reachable (fresh_relay ns now)"
proof -
  obtain q p where a: "attach (newSideQueue, newResidency now) ns = (q, p)" by (metis surj_pair)
  then have "relay_step ([], newResidency now) ([] @ [new_dir q], p)" by (rule attached)
  then show ?thesis unfolding reachable_def fresh_relay_def a by auto
qed

text \<open>What evaluating a schedule unfolds.\<close>

lemmas run_simps = fresh_relay_def attach_def Let_def newSideQueue_def newResidency_def join_def new_dir_def
  admitSeq_def reserve_def held_def tryReserve_def reserveLocked_def seqWindowLocked_def go_defs reserve_pool_def
  share_used_def add_share_def enqueue_def commitSeq_def ch_send_def keepLocked_def releaseLocked_def wakeLocked_def
  promote.simps al_del_def q_free_def q_close_def release_pool_def leave_def takeUpTo_start_def dropAcked_def
  first_assigned_def drain_start_def beginTake_def endTake_def release_turn_def assign_def appendCapped_def
  can_pull_def pull_def can_end_def drain_return_def take_finish_def end_closed_def window_look_def
  window_start_def pollDrain_start_def unreserve_def

end
