(* ===== verification/TunnelSample.thy ===== *)
theory TunnelSample
  imports TunnelStream RelayAccount
begin

text \<open>
  A run of the tunnel from its start, used to show that the properties of reachable
  states apply to states in which something happens: the writer posts two bytes
  and keeps a third pending, the relay takes the post in, a poll drains and numbers
  it, the reader collects it, and after the close a last poll acknowledges it.
\<close>

definition s_p :: residency where "s_p = newResidency 0"
definition s_q :: sideQueue where "s_q = newSideQueue\<lparr>pooled := True\<rparr>"
definition s_post :: bytes where "s_post = [5, 6]"

definition s_w1 :: writer where "s_w1 = fst (Write (\<lambda>_. None) new_writer s_post)"
definition s_w2 :: writer where "s_w2 = fst (flushWrites (\<lambda>_. None) s_w1)"
definition s_w3 :: writer where "s_w3 = fst (Write (\<lambda>_. None) s_w2 [9])"

definition s_p1 :: residency where "s_p1 = s_p\<lparr>used := 2, peak := 2\<rparr>"
definition s_d0 :: dir where "s_d0 = \<lparr>dq = s_q, pend = [], dpoll = None\<rparr>"
definition s_d1 :: dir where
  "s_d1 = \<lparr>dq = s_q\<lparr>resident := 2, slots := 1\<rparr>, pend = [2], dpoll = None\<rparr>"
definition s_d2 :: dir where
  "s_d2 = \<lparr>dq = s_q\<lparr>resident := 2, slots := 1, ch := [s_post], seqNext := 2\<rparr>, pend = [], dpoll = None\<rparr>"
definition s_dr :: drain where
  "s_dr = \<lparr>d_out = [], d_taken = 0, d_limit = 100, d_kind = TakeUpTo, d_ending = None\<rparr>"
definition s_q3 :: sideQueue where "s_q3 = (dq s_d2)\<lparr>turn := True, inflight := True\<rparr>"
definition s_d3 :: dir where "s_d3 = \<lparr>dq = s_q3, pend = [], dpoll = Some s_dr\<rparr>"
definition s_d4 :: dir where
  "s_d4 = \<lparr>dq = s_q3\<lparr>ch := []\<rparr>, pend = [], dpoll = Some (s_dr\<lparr>d_out := s_post, d_taken := 1\<rparr>)\<rparr>"
definition s_d5 :: dir where
  "s_d5 = s_d4\<lparr>dpoll := Some (s_dr\<lparr>d_out := s_post, d_taken := 1, d_ending := Some EndData\<rparr>)\<rparr>"
definition s_d6 :: dir where
  "s_d6 = \<lparr>dq = s_q3\<lparr>ch := [], slots := 0\<rparr>, pend = [],
           dpoll = Some (s_dr\<lparr>d_out := s_post, d_ending := Some EndData\<rparr>)\<rparr>"
definition s_d7 :: dir where
  "s_d7 = \<lparr>dq = (dq s_d2)\<lparr>ch := [], slots := 0, q_seq := 1, assigned := [(1, s_post)], unacked := s_post\<rparr>,
           pend = [], dpoll = None\<rparr>"
definition s_r :: reply where "s_r = \<lparr>r_data = s_post, r_seq = 1, r_closed = False\<rparr>"
definition s_dn :: downResult where
  "s_dn = \<lparr>dr_want = 0, dr_max = 100, dr_data = s_post, dr_seq = 1, dr_status = 200,
           dr_ackable = True, dr_window = False, dr_retried = False, dr_end = [], dr_took = 0, dr_err = None\<rparr>"

lemmas s_defs = s_p_def s_q_def s_post_def s_p1_def s_d0_def s_d1_def s_d2_def s_dr_def s_q3_def s_d3_def s_d4_def
  s_d5_def s_d6_def s_d7_def s_r_def s_dn_def

lemma s_writer: "sent s_w3 = [s_post]" "w_pending s_w3 = [9]"
  unfolding s_w3_def s_w2_def s_w1_def
  by (simp_all add: Write_def flushWrites_def sendLocked_def new_writer_def write_loop.simps writeBatchBytes_def
      stopFlushTimerLocked_def Let_def s_post_def)

lemma s_exec:
  "exec (OpAdmit 1 2 False) s_d0 s_p = Some (s_d1, s_p1, AdmissionIs Admitted)"
  "exec (OpCommit 1 s_post 2) s_d1 s_p1 = Some (s_d2, s_p1, WriteIs (Inr ()))"
  "exec (OpTake 0 100) s_d2 s_p1 = Some (s_d3, s_p1, NoAnswer)"
  "exec OpPull s_d3 s_p1 = Some (s_d4, s_p1, NoAnswer)"
  "exec (OpEnd EndData) s_d4 s_p1 = Some (s_d5, s_p1, NoAnswer)"
  "exec OpReturn s_d5 s_p1 = Some (s_d6, s_p1, NoAnswer)"
  "exec OpFinish s_d6 s_p1 = Some (s_d7, s_p1, ReplyIs s_r)"
  by (simp_all add: s_defs run_simps)

definition s_read :: reader where "s_read = fst (read_result new_reader 10 s_dn)"

lemma s_read: "read_out s_read = s_post" "leftover s_read = []" "ackSeq s_read = 1" "batch s_read = None"
  "snd (snd (read_result new_reader 10 s_dn)) = []"
  by (simp_all add: s_read_def read_result_def read_chunk_def next_batch_def hand_out_def adjustDownMax_def
      new_reader_def s_dn_def s_post_def go_defs)

definition s_t0 :: tunnel where
  "s_t0 = \<lparr>tw = s_w3, tr = new_reader, td = s_d0, tp = s_p, tlog = [], treq = {}, tnet = {}, tcur = (0, 0, 0)\<rparr>"

lemma s_reach0: "tunnel_reachable s_t0"
proof -
  define t where "t = start_tunnel [] s_p"
  have r: "tunnel_reachable t" unfolding t_def by (rule tunnel_reachable_start)
  have t: "t = \<lparr>tw = new_writer, tr = new_reader, td = s_d0, tp = s_p, tlog = [], treq = {}, tnet = {}, tcur = (0, 0, 0)\<rparr>"
    by (simp add: t_def start_tunnel_def s_defs run_simps)
  have wr: "tunnel_reachable t \<Longrightarrow> tunnel_reachable (t\<lparr>tw := fst (Write (\<lambda>_. None) (tw t) x)\<rparr>)" for t x
    using tunnel_reachable_step tunnel_step.writes [OF prod.collapse [symmetric]] by blast
  have fl: "tunnel_reachable t \<Longrightarrow> tunnel_reachable (t\<lparr>tw := fst (flushWrites (\<lambda>_. None) (tw t))\<rparr>)" for t
    using tunnel_reachable_step tunnel_step.flush [OF prod.collapse [symmetric]] by blast
  show ?thesis using wr [OF fl [OF wr [OF r, of s_post]], of "[9]"] by (simp add: t s_t0_def s_w3_def s_w2_def s_w1_def)
qed

text \<open>The tunnel with the post numbered, and the answer on its way.\<close>

definition s_t1 :: tunnel where
  "s_t1 = \<lparr>tw = s_w3, tr = new_reader, td = s_d7, tp = s_p1, tlog = [s_post], treq = {(0, 0, 100)},
           tnet = {((0, 0, 100), s_r)}, tcur = (0, 0, 100)\<rparr>"

lemma s_reach1: "tunnel_reachable s_t1"
proof -
  let ?at = "\<lambda>d p rq cur. s_t0\<lparr>td := d, tp := p, treq := rq, tcur := cur\<rparr>"
  have up: "tunnel_reachable (?at s_d2 s_p1 {} (0, 0, 0))"
  proof -
    have "tunnel_step s_t0 (s_t0\<lparr>td := s_d1, tp := s_p1\<rparr>)"
      by (rule tunnel_step.upload [of _ "OpAdmit 1 2 False"]) (use s_exec in \<open>simp_all add: s_t0_def\<close>)
    moreover have "tunnel_step (s_t0\<lparr>td := s_d1, tp := s_p1\<rparr>) ((s_t0\<lparr>td := s_d1, tp := s_p1\<rparr>)\<lparr>td := s_d2, tp := s_p1\<rparr>)"
      by (rule tunnel_step.upload [of _ "OpCommit 1 s_post 2"]) (use s_exec s_writer in \<open>simp_all add: s_t0_def\<close>)
    ultimately show ?thesis using tunnel_reachable_step [OF tunnel_reachable_step [OF s_reach0]] by (simp add: s_t0_def)
  qed
  have ask: "tunnel_reachable (?at s_d2 s_p1 {(0, 0, 100)} (0, 0, 0))"
    using tunnel_reachable_step [OF up tunnel_step.asks [of 100]] by (simp add: s_t0_def new_reader_def)
  have "tunnel_step (?at s_d2 s_p1 {(0, 0, 100)} (0, 0, 0))
      ((?at s_d2 s_p1 {(0, 0, 100)} (0, 0, 0))\<lparr>td := s_d3, tp := s_p1, tcur := (0, 0, 100)\<rparr>)"
    by (rule tunnel_step.take_start) (use s_exec in \<open>simp_all add: s_t0_def\<close>, simp add: s_defs newSideQueue_def)
  note go = tunnel_reachable_step [OF ask this]
  have p: "tunnel_reachable t \<Longrightarrow> exec a (td t) (tp t) = Some (d', p', NoAnswer) \<Longrightarrow> a = OpPull \<or> a = OpReturn \<or> a = OpEnd EndData
      \<Longrightarrow> tunnel_reachable (t\<lparr>td := d', tp := p'\<rparr>)" for t a d' p'
    by (rule tunnel_reachable_step [OF _ tunnel_step.polling])
  have "tunnel_reachable (?at s_d6 s_p1 {(0, 0, 100)} (0, 0, 100))"
    using p [OF p [OF p [OF go, of OpPull s_d4 s_p1], of "OpEnd EndData" s_d5 s_p1], of OpReturn s_d6 s_p1] s_exec
    by (simp add: s_t0_def)
  then have "tunnel_reachable ((?at s_d6 s_p1 {(0, 0, 100)} (0, 0, 100))\<lparr>td := s_d7, tp := s_p1,
      tnet := insert ((0, 0, 100), s_r) {}, tlog := [] @ [s_post]\<rparr>)"
    using tunnel_reachable_step [OF _ tunnel_step.finish [of "?at s_d6 s_p1 {(0, 0, 100)} (0, 0, 100)" s_d7 s_p1 s_r]] s_exec(7)
    by (simp add: s_t0_def s_r_def s_post_def)
  then show ?thesis by (simp add: s_t0_def s_t1_def)
qed

text \<open>The tunnel with the post read.\<close>

definition s_t2 :: tunnel where "s_t2 = s_t1\<lparr>tr := s_read\<rparr>"

lemma s_reach2: "tunnel_reachable s_t2"
proof -
  have "read_result (tr s_t1) 10 s_dn = (s_read, fst (snd (read_result new_reader 10 s_dn)), [])"
    using s_read(5) by (metis prod.collapse s_read_def tunnel.select_convs(2) s_t1_def)
  then have "tunnel_step s_t1 (s_t1\<lparr>tr := s_read, treq := treq s_t1 \<union> set []\<rparr>)"
    by (rule tunnel_step.arrives [of 0 100 s_r _ s_dn, rotated 5])
       (simp_all add: s_t1_def answers_def s_dn_def s_r_def new_reader_def s_post_def)
  then show ?thesis using tunnel_reachable_step [OF s_reach1] by (simp add: s_t2_def)
qed

text \<open>The writer's side closes, and the reader's next poll acknowledges what it read.\<close>

definition s_p2 :: residency where "s_p2 = s_p1\<lparr>used := 0\<rparr>"
definition s_q8 :: sideQueue where
  "s_q8 = (dq s_d7)\<lparr>q_closed := True, assigned := [], unacked := [], resident := 0\<rparr>"
definition s_d8 :: dir where "s_d8 = s_d7\<lparr>dq := (dq s_d7)\<lparr>q_closed := True\<rparr>\<rparr>"
definition s_dr9 :: drain where "s_dr9 = s_dr\<lparr>d_ending := Some EndClosed\<rparr>"
definition s_d9 :: dir where
  "s_d9 = \<lparr>dq = s_q8\<lparr>turn := True, inflight := True\<rparr>, pend = [], dpoll = Some s_dr\<rparr>"
definition s_d10 :: dir where
  "s_d10 = \<lparr>dq = s_q8\<lparr>turn := True, inflight := True\<rparr>, pend = [], dpoll = Some s_dr9\<rparr>"
definition s_d11 :: dir where "s_d11 = \<lparr>dq = s_q8, pend = [], dpoll = None\<rparr>"
definition s_r11 :: reply where "s_r11 = \<lparr>r_data = [], r_seq = 0, r_closed = True\<rparr>"

lemma s_exec_close:
  "exec OpClose s_d7 s_p1 = Some (s_d8, s_p1, NoAnswer)"
  "exec (OpTake 1 100) s_d8 s_p1 = Some (s_d9, s_p2, NoAnswer)"
  "exec (OpEnd EndClosed) s_d9 s_p2 = Some (s_d10, s_p2, NoAnswer)"
  "exec OpFinish s_d10 s_p2 = Some (s_d11, s_p2, ReplyIs s_r11)"
  by (simp_all add: s_defs s_p2_def s_q8_def s_d8_def s_dr9_def s_d9_def s_d10_def s_d11_def s_r11_def run_simps)

definition s_t3 :: tunnel where
  "s_t3 = s_t2\<lparr>td := s_d11, tp := s_p2, treq := {(1, 0, 100), (0, 0, 100)}, tcur := (1, 0, 100),
               tnet := {((1, 0, 100), s_r11), ((0, 0, 100), s_r)}\<rparr>"

lemma s_reach3: "tunnel_reachable s_t3"
proof -
  let ?at = "\<lambda>d p cur. s_t2\<lparr>td := d, tp := p, treq := {(1, 0, 100), (0, 0, 100)}, tcur := cur\<rparr>"
  have "tunnel_step s_t2 (s_t2\<lparr>td := s_d8, tp := s_p1\<rparr>)"
    by (rule tunnel_step.upload [of _ OpClose]) (use s_exec_close in \<open>simp_all add: s_t2_def s_t1_def\<close>)
  note r1 = tunnel_reachable_step [OF s_reach2 this]
  have r2: "tunnel_reachable (?at s_d8 s_p1 (0, 0, 100))"
    using tunnel_reachable_step [OF r1 tunnel_step.asks [of 100]] s_read(3) by (simp add: s_t2_def s_t1_def)
  have "tunnel_step (?at s_d8 s_p1 (0, 0, 100)) ((?at s_d8 s_p1 (0, 0, 100))\<lparr>td := s_d9, tp := s_p2, tcur := (1, 0, 100)\<rparr>)"
    by (rule tunnel_step.take_start)
       (use s_exec_close in \<open>simp_all add: s_t2_def\<close>, simp add: s_defs s_d8_def newSideQueue_def)
  note r3 = tunnel_reachable_step [OF r2 this]
  have r4: "tunnel_reachable (?at s_d10 s_p2 (1, 0, 100))"
    using tunnel_reachable_step [OF r3 tunnel_step.polling [of "OpEnd EndClosed" EndClosed _ s_d10 s_p2 NoAnswer]] s_exec_close(3)
    by (simp add: s_t2_def s_t1_def)
  have "tunnel_step (?at s_d10 s_p2 (1, 0, 100)) ((?at s_d10 s_p2 (1, 0, 100))\<lparr>td := s_d11, tp := s_p2,
      tnet := insert (tcur (?at s_d10 s_p2 (1, 0, 100)), s_r11) (tnet (?at s_d10 s_p2 (1, 0, 100))),
      tlog := (if r_data s_r11 \<noteq> [] then tlog (?at s_d10 s_p2 (1, 0, 100)) @ [r_data s_r11] else tlog (?at s_d10 s_p2 (1, 0, 100)))\<rparr>)"
    by (rule tunnel_step.finish) (use s_exec_close(4) in simp)
  from tunnel_reachable_step [OF r4 this] show ?thesis
    by (simp add: s_t3_def s_t2_def s_t1_def s_r11_def)
qed

text \<open>A schedule on one direction of a fresh relay: one admitted write, one taken in ahead of it.\<close>

definition s_relay :: relay_mem where
  "s_relay = the (relay_run [(0, OpAdmit 1 3 False), (0, OpAdmit 2 2 False), (0, OpCommit 2 [7, 8] 2)]
                            (fresh_relay ''acme'' 0))"

lemma s_relay_reachable: "reachable s_relay"
proof -
  have "relay_run [(0, OpAdmit 1 3 False), (0, OpAdmit 2 2 False), (0, OpCommit 2 [7, 8] 2)]
                            (fresh_relay ''acme'' 0) \<noteq> None"
    by (simp add: run_simps)
  then show ?thesis unfolding s_relay_def using relay_run_reachable [OF _ reachable_fresh] by fastforce
qed

lemma s_relay_state:
  "length (fst s_relay) = 1" "pend (fst s_relay ! 0) = [3]" "\<not> freed (dq (fst s_relay ! 0))" "used (snd s_relay) = 5"
  by (simp_all add: s_relay_def run_simps)

definition s_relay_freed :: relay_mem where
  "s_relay_freed = the (relay_run [(0, OpFree), (0, OpUnreserve 3)] s_relay)"

lemma s_relay_freed:
  "reachable s_relay_freed" "length (fst s_relay_freed) = 1" "freed (dq (fst s_relay_freed ! 0))"
proof -
  have r: "relay_run [(0, OpFree), (0, OpUnreserve 3)] s_relay \<noteq> None"
    by (simp add: s_relay_def run_simps)
  then show "reachable s_relay_freed"
    unfolding s_relay_freed_def using relay_run_reachable [OF _ s_relay_reachable] by fastforce
  show "length (fst s_relay_freed) = 1" "freed (dq (fst s_relay_freed ! 0))"
    by (simp_all add: s_relay_freed_def s_relay_def run_simps)
qed

end
