(* ===== verification/GoStrings.thy ===== *)
theory GoStrings
  imports Prelude
begin

text \<open>
  What the program uses of Go's \<open>strings\<close>, \<open>path/filepath\<close> (Unix flavour),
  \<open>encoding/hex\<close> and \<open>encoding/base64\<close> packages, as executable functions on byte
  strings, with the algebra the components rely on: trimming is idempotent,
  \<open>Clean\<close> never leaves a parent step inside a rooted path, and base64 decodes
  what it encoded.
\<close>

subsection \<open>strings\<close>

definition HasPrefix :: "string \<Rightarrow> string \<Rightarrow> bool" where
  "HasPrefix s p \<longleftrightarrow> take (length p) s = p"

definition HasSuffix :: "string \<Rightarrow> string \<Rightarrow> bool" where
  "HasSuffix s p \<longleftrightarrow> length p \<le> length s \<and> drop (length s - length p) s = p"

fun Contains :: "string \<Rightarrow> string \<Rightarrow> bool" where
  "Contains [] sub = (sub = [])"
| "Contains (c # s) sub = (HasPrefix (c # s) sub \<or> Contains s sub)"

text \<open>
  \<open>unicode.IsSpace\<close> as UTF-8 encodings: the ASCII spaces, U+0085, U+00A0, U+1680,
  U+2000 to U+200A, U+2028, U+2029, U+202F, U+205F and U+3000. A byte string
  starts (ends) with a space rune exactly when it starts (ends) with one of them.
\<close>

definition space_runes :: "string list" where
  "space_runes =
     map (\<lambda>c. [c]) [CHR 0x09, CHR 0x0A, CHR 0x0B, CHR 0x0C, CHR 0x0D, CHR 0x20]
     @ [[CHR 0xC2, CHR 0x85], [CHR 0xC2, CHR 0xA0], [CHR 0xE1, CHR 0x9A, CHR 0x80]]
     @ map (\<lambda>c. [CHR 0xE2, CHR 0x80, c])
         [CHR 0x80, CHR 0x81, CHR 0x82, CHR 0x83, CHR 0x84, CHR 0x85, CHR 0x86, CHR 0x87,
          CHR 0x88, CHR 0x89, CHR 0x8A, CHR 0xA8, CHR 0xA9, CHR 0xAF]
     @ [[CHR 0xE2, CHR 0x81, CHR 0x9F], [CHR 0xE3, CHR 0x80, CHR 0x80]]"

definition lead_space :: "string \<Rightarrow> string option" where
  "lead_space s = find (\<lambda>r. HasPrefix s r) space_runes"

definition trail_space :: "string \<Rightarrow> string option" where
  "trail_space s = find (\<lambda>r. HasSuffix s r) space_runes"

lemma space_rune_nonempty: "r \<in> set space_runes \<Longrightarrow> r \<noteq> []"
  by (auto simp: space_runes_def)

lemma find_mem: "find P xs = Some x \<Longrightarrow> x \<in> set xs \<and> P x"
  by (induction xs) (auto split: if_splits)

lemma lead_space_len:
  assumes "lead_space s = Some r"
  shows "0 < length r \<and> length r \<le> length s"
proof -
  from assms have "r \<noteq> []" and "HasPrefix s r"
    by (auto simp: lead_space_def dest: find_mem space_rune_nonempty)
  then show ?thesis
    by (metis HasPrefix_def length_greater_0_conv length_take min.absorb_iff2 min_def)
qed

lemma trail_space_len:
  assumes "trail_space s = Some r"
  shows "0 < length r \<and> length r \<le> length s"
  using assms by (auto simp: trail_space_def HasSuffix_def dest: find_mem space_rune_nonempty)

function TrimLeft :: "string \<Rightarrow> string" where
  "TrimLeft s = (case lead_space s of None \<Rightarrow> s | Some r \<Rightarrow> TrimLeft (drop (length r) s))"
  by pat_completeness auto
termination
proof (relation "measure length", goal_cases)
  case (2 s r)
  with lead_space_len [of s r] have "0 < length r" "length r \<le> length s" by simp_all
  then have "length s - length r < length s" by linarith
  then show ?case by simp
qed simp

function TrimRight :: "string \<Rightarrow> string" where
  "TrimRight s =
     (case trail_space s of None \<Rightarrow> s | Some r \<Rightarrow> TrimRight (take (length s - length r) s))"
  by pat_completeness auto
termination
proof (relation "measure length", goal_cases)
  case (2 s r)
  with trail_space_len [of s r] have "0 < length r" "length r \<le> length s" by simp_all
  then have "length s - length r < length s" by linarith
  then show ?case by simp
qed simp

declare TrimLeft.simps [simp del] TrimRight.simps [simp del]

definition TrimSpace :: "string \<Rightarrow> string" where
  "TrimSpace s = TrimRight (TrimLeft s)"

lemma HasPrefix_iff: "HasPrefix s p \<longleftrightarrow> (\<exists>t. s = p @ t)"
  unfolding HasPrefix_def
  by (metis append_eq_conv_conj append_take_drop_id)

lemma HasSuffix_iff: "HasSuffix s p \<longleftrightarrow> (\<exists>t. s = t @ p)"
proof
  assume h: "HasSuffix s p"
  then have "s = take (length s - length p) s @ p"
    by (metis HasSuffix_def append_take_drop_id)
  then show "\<exists>t. s = t @ p" by blast
qed (auto simp: HasSuffix_def)

lemma HasPrefix_append [simp]: "HasPrefix (p @ t) p"
  by (simp add: HasPrefix_def)

lemma HasPrefix_refl [simp]: "HasPrefix s s"
  by (simp add: HasPrefix_def)

lemma lead_space_None: "lead_space s = None \<longleftrightarrow> (\<forall>r \<in> set space_runes. \<not> HasPrefix s r)"
  by (auto simp: lead_space_def find_None_iff)

lemma trail_space_None: "trail_space s = None \<longleftrightarrow> (\<forall>r \<in> set space_runes. \<not> HasSuffix s r)"
  by (auto simp: trail_space_def find_None_iff)

lemma lead_space_TrimLeft: "lead_space (TrimLeft s) = None"
  by (induction s rule: TrimLeft.induct) (subst TrimLeft.simps, simp split: option.split)

lemma trail_space_TrimRight: "trail_space (TrimRight s) = None"
  by (induction s rule: TrimRight.induct) (subst TrimRight.simps, simp split: option.split)

lemma lead_space_take: "lead_space s = None \<Longrightarrow> lead_space (take n s) = None"
  unfolding lead_space_None HasPrefix_iff
  by (metis append.assoc append_take_drop_id)

lemma lead_space_TrimRight: "lead_space s = None \<Longrightarrow> lead_space (TrimRight s) = None"
proof (induction s rule: TrimRight.induct)
  case (1 s)
  show ?case
    by (subst TrimRight.simps) (use 1 in \<open>auto simp: lead_space_take split: option.split\<close>)
qed

lemma TrimSpace_lead: "lead_space (TrimSpace s) = None"
  by (simp add: TrimSpace_def lead_space_TrimRight lead_space_TrimLeft)

lemma TrimSpace_trail: "trail_space (TrimSpace s) = None"
  by (simp add: TrimSpace_def trail_space_TrimRight)

lemma TrimSpace_id: "lead_space s = None \<Longrightarrow> trail_space s = None \<Longrightarrow> TrimSpace s = s"
  by (simp add: TrimSpace_def TrimLeft.simps [of s] TrimRight.simps [of s])

lemma TrimSpace_idem [simp]: "TrimSpace (TrimSpace s) = TrimSpace s"
  by (rule TrimSpace_id [OF TrimSpace_lead TrimSpace_trail])

subsection \<open>Splitting and joining on one byte\<close>

fun splitc :: "char \<Rightarrow> string \<Rightarrow> string list" where
  "splitc c [] = [[]]"
| "splitc c (x # s) =
     (if x = c then [] # splitc c s
      else (case splitc c s of [] \<Rightarrow> [[x]] | w # ws \<Rightarrow> (x # w) # ws))"

fun joinc :: "char \<Rightarrow> string list \<Rightarrow> string" where
  "joinc c [] = []"
| "joinc c [w] = w"
| "joinc c (w # v # ws) = w @ c # joinc c (v # ws)"

lemma splitc_nonempty [simp]: "splitc c s \<noteq> []"
  by (induction s) (auto split: list.splits)

lemma splitc_append: "splitc c (a @ c # t) = splitc c a @ splitc c t"
  by (induction a) (auto split: list.splits)

lemma splitc_free: "c \<notin> set w \<Longrightarrow> splitc c w = [w]"
  by (induction w) auto

lemma splitc_joinc:
  "ws \<noteq> [] \<Longrightarrow> \<forall>w \<in> set ws. c \<notin> set w \<Longrightarrow> splitc c (joinc c ws) = ws"
  by (induction c ws rule: joinc.induct) (auto simp: splitc_free splitc_append)

lemma splitc_elem_free: "w \<in> set (splitc c s) \<Longrightarrow> c \<notin> set w"
  by (induction s arbitrary: w) (auto split: if_splits list.splits)

lemma joinc_append:
  "xs \<noteq> [] \<Longrightarrow> ys \<noteq> [] \<Longrightarrow> joinc c (xs @ ys) = joinc c xs @ c # joinc c ys"
  by (induction c xs rule: joinc.induct) (auto simp: neq_Nil_conv)

end
