(* ===== verification/GoPath.thy ===== *)
theory GoPath
  imports GoStrings
begin

text \<open>
  Go's \<open>path/filepath\<close> on Unix, which the policy engine and the late grants use:
  \<open>Clean\<close>, \<open>Dir\<close>, \<open>IsAbs\<close> and \<open>Ext\<close>. \<open>Clean\<close> is the lexical
  normalisation of the package's documentation: empty elements and \<open>.\<close> go, an
  inner \<open>..\<close> cancels the element before it, one that begins a rooted path is
  dropped. The lemmas at the end relate it to the list of path elements, which
  is how containment of directories is proved.
\<close>

definition slash :: char where [go_defs]: "slash = CHR 0x2F"

definition dot :: string where "dot = ''.''"
definition dotdot :: string where "dotdot = ''..''"

lemma dots_distinct [simp]: "dot \<noteq> []" "dotdot \<noteq> []" "dot \<noteq> dotdot" "dotdot \<noteq> dot"
  by (simp_all add: dot_def dotdot_def)

lemma dots_slash [simp]: "slash \<notin> set dot" "slash \<notin> set dotdot"
  by (simp_all add: dot_def dotdot_def slash_def)

definition IsAbs :: "string \<Rightarrow> bool" where
  "IsAbs p \<longleftrightarrow> HasPrefix p [slash]"

text \<open>\<open>acc\<close> holds the elements kept so far, last first.\<close>

fun clean_elems :: "bool \<Rightarrow> string list \<Rightarrow> string list \<Rightarrow> string list" where
  "clean_elems rooted acc [] = rev acc"
| "clean_elems rooted acc (e # es) =
     (if e = [] \<or> e = dot then clean_elems rooted acc es
      else if e = dotdot then
        (case acc of
           a # as \<Rightarrow> if a \<noteq> dotdot then clean_elems rooted as es
                     else clean_elems rooted (e # acc) es
         | [] \<Rightarrow> if rooted then clean_elems rooted [] es else clean_elems rooted [e] es)
      else clean_elems rooted (e # acc) es)"

definition path_elems :: "string \<Rightarrow> string list" where
  "path_elems p = clean_elems (IsAbs p) [] (splitc slash p)"

definition Clean :: "string \<Rightarrow> string" where
  "Clean p =
     (let es = path_elems p in
      if IsAbs p then slash # joinc slash es
      else if es = [] then dot else joinc slash es)"

text \<open>\<open>filepath.Dir\<close>: everything up to and including the last separator, cleaned.\<close>

definition up_to_last_slash :: "string \<Rightarrow> string" where
  "up_to_last_slash p = rev (dropWhile (\<lambda>c. c \<noteq> slash) (rev p))"

definition Dir :: "string \<Rightarrow> string" where
  "Dir p = Clean (up_to_last_slash p)"

text \<open>\<open>filepath.Ext\<close>: the suffix from the last dot of the last element.\<close>

definition Ext :: "string \<Rightarrow> string" where
  "Ext p =
     (let l = last (splitc slash p);
          stem = dropWhile (\<lambda>c. c \<noteq> CHR ''.'') (rev l)
      in if stem = [] then [] else CHR ''.'' # rev (takeWhile (\<lambda>c. c \<noteq> CHR ''.'') (rev l)))"

subsection \<open>The elements of a cleaned path\<close>

definition good_elem :: "string \<Rightarrow> bool" where
  "good_elem e \<longleftrightarrow> e \<noteq> [] \<and> e \<noteq> dot \<and> slash \<notin> set e"

definition proper_elem :: "string \<Rightarrow> bool" where
  "proper_elem e \<longleftrightarrow> good_elem e \<and> e \<noteq> dotdot"

lemma clean_elems_good:
  "\<forall>e \<in> set es. slash \<notin> set e \<Longrightarrow> \<forall>a \<in> set acc. good_elem a
   \<Longrightarrow> \<forall>e \<in> set (clean_elems r acc es). good_elem e"
proof (induction es arbitrary: acc)
  case (Cons e es)
  have free: "\<forall>e \<in> set es. slash \<notin> set e" and e: "slash \<notin> set e" using Cons.prems(1) by auto
  note IH = Cons.IH [OF free] and acc = Cons.prems(2)
  consider "e = [] \<or> e = dot" | "e = dotdot" | "e \<noteq> []" "e \<noteq> dot" "e \<noteq> dotdot" by metis
  then show ?case
  proof cases
    case 1
    then have "clean_elems r acc (e # es) = clean_elems r acc es" by simp
    then show ?thesis using IH [OF acc] by simp
  next
    case 2
    then have ge: "good_elem e" using e by (simp add: good_elem_def)
    show ?thesis
    proof (cases acc)
      case Nil
      have "\<forall>x \<in> set (clean_elems r [] es). good_elem x" by (rule IH) simp
      moreover have "\<forall>x \<in> set (clean_elems r [e] es). good_elem x" by (rule IH) (simp add: ge)
      ultimately show ?thesis by (cases r) (simp_all add: 2 Nil)
    next
      case (Cons a as)
      have "\<forall>x \<in> set (clean_elems r as es). good_elem x" by (rule IH) (use acc Cons in simp)
      moreover have "\<forall>x \<in> set (clean_elems r (e # acc) es). good_elem x"
        by (rule IH) (use acc ge in simp)
      ultimately show ?thesis by (cases "a = dotdot") (simp_all add: 2 Cons)
    qed
  next
    case 3
    then have pe: "good_elem e" using e by (simp add: proper_elem_def good_elem_def)
    have "\<forall>x \<in> set (clean_elems r (e # acc) es). good_elem x"
      by (rule IH) (use acc pe in simp)
    then show ?thesis by (simp add: 3)
  qed
qed simp

lemma clean_elems_proper:
  "\<forall>e \<in> set es. slash \<notin> set e \<Longrightarrow> \<forall>a \<in> set acc. proper_elem a
   \<Longrightarrow> \<forall>e \<in> set (clean_elems True acc es). proper_elem e"
proof (induction es arbitrary: acc)
  case (Cons e es)
  have free: "\<forall>e \<in> set es. slash \<notin> set e" and e: "slash \<notin> set e" using Cons.prems(1) by auto
  note IH = Cons.IH [OF free] and acc = Cons.prems(2)
  consider "e = [] \<or> e = dot" | "e = dotdot" | "e \<noteq> []" "e \<noteq> dot" "e \<noteq> dotdot" by metis
  then show ?case
  proof cases
    case 1
    then have "clean_elems True acc (e # es) = clean_elems True acc es" by simp
    then show ?thesis using IH [OF acc] by simp
  next
    case 2
    show ?thesis
    proof (cases acc)
      case Nil
      have "\<forall>x \<in> set (clean_elems True [] es). proper_elem x" by (rule IH) simp
      then show ?thesis by (simp add: 2 Nil)
    next
      case (Cons a as)
      then have "a \<noteq> dotdot" using acc by (simp add: proper_elem_def)
      moreover have "\<forall>x \<in> set (clean_elems True as es). proper_elem x"
        by (rule IH) (use acc Cons in simp)
      ultimately show ?thesis by (simp add: 2 Cons)
    qed
  next
    case 3
    then have pe: "proper_elem e" using e by (simp add: proper_elem_def good_elem_def)
    have "\<forall>x \<in> set (clean_elems True (e # acc) es). proper_elem x"
      by (rule IH) (use acc pe in simp)
    then show ?thesis by (simp add: 3)
  qed
qed simp

lemma path_elems_good: "e \<in> set (path_elems p) \<Longrightarrow> good_elem e"
  unfolding path_elems_def using clean_elems_good [of "splitc slash p" "[]" "IsAbs p"]
  by (auto dest: splitc_elem_free)

lemma path_elems_proper: "IsAbs p \<Longrightarrow> e \<in> set (path_elems p) \<Longrightarrow> proper_elem e"
  unfolding path_elems_def using clean_elems_proper [of "splitc slash p" "[]"]
  by (auto dest: splitc_elem_free)

lemma clean_elems_id:
  "\<forall>e \<in> set es. proper_elem e \<Longrightarrow> clean_elems r acc es = rev acc @ es"
  by (induction r acc es rule: clean_elems.induct) (auto simp: proper_elem_def good_elem_def)

lemma IsAbs_Cons [simp]: "IsAbs (slash # s)"
  by (simp add: IsAbs_def HasPrefix_def)

lemma joinc_Nil_iff:
  "\<forall>e \<in> set es. e \<noteq> [] \<Longrightarrow> (joinc c es = []) \<longleftrightarrow> es = []"
  by (induction c es rule: joinc.induct) auto

lemma path_elems_joined:
  assumes "\<forall>e \<in> set es. proper_elem e"
  shows "path_elems (slash # joinc slash es) = es"
proof (cases "es = []")
  case True
  then show ?thesis by (simp add: path_elems_def)
next
  case False
  have "\<forall>e \<in> set es. slash \<notin> set e"
    using assms by (auto simp: proper_elem_def good_elem_def)
  then have "splitc slash (joinc slash es) = es"
    using False by (simp add: splitc_joinc)
  then show ?thesis
    using assms by (simp add: path_elems_def clean_elems_id)
qed

lemma path_elems_Clean [simp]: "IsAbs p \<Longrightarrow> path_elems (Clean p) = path_elems p"
  unfolding Clean_def Let_def by (simp add: path_elems_joined path_elems_proper)

lemma IsAbs_Clean [simp]: "IsAbs p \<Longrightarrow> IsAbs (Clean p)"
  by (simp add: Clean_def Let_def)

lemma Clean_idem_abs: "IsAbs p \<Longrightarrow> Clean (Clean p) = Clean p"
  by (simp add: Clean_def [of "Clean p"] Let_def) (simp add: Clean_def Let_def)

lemma Clean_abs: "IsAbs p \<Longrightarrow> Clean p = slash # joinc slash (path_elems p)"
  by (simp add: Clean_def Let_def)

text \<open>
  Containment by string prefix is containment by elements: a rooted path \<open>p\<close> has
  the cleaned directory \<open>d\<close> and a separator as prefix exactly when \<open>d\<close>'s
  elements begin \<open>p\<close>'s, strictly.
\<close>

lemma joinc_prefix_iff:
  assumes ds: "ds \<noteq> []" "\<forall>e \<in> set ds. c \<notin> set e" and cs: "\<forall>e \<in> set cs. c \<notin> set e"
  shows "HasPrefix (joinc c cs) (joinc c ds @ [c]) \<longleftrightarrow> (\<exists>es. es \<noteq> [] \<and> cs = ds @ es)"
proof
  assume "HasPrefix (joinc c cs) (joinc c ds @ [c])"
  then obtain t where t: "joinc c cs = joinc c ds @ c # t"
    by (auto simp: HasPrefix_iff)
  then have ne: "cs \<noteq> []" by auto
  have "splitc c (joinc c cs) = splitc c (joinc c ds) @ splitc c t"
    by (simp add: t splitc_append)
  then have "cs = ds @ splitc c t"
    using ds cs ne by (simp add: splitc_joinc)
  then show "\<exists>es. es \<noteq> [] \<and> cs = ds @ es"
    using splitc_nonempty by blast
next
  assume "\<exists>es. es \<noteq> [] \<and> cs = ds @ es"
  then obtain es where "es \<noteq> []" "cs = ds @ es" by blast
  then show "HasPrefix (joinc c cs) (joinc c ds @ [c])"
    using ds by (auto simp: HasPrefix_iff joinc_append)
qed

lemma abs_prefix_iff:
  assumes "IsAbs d" "IsAbs p" "path_elems d \<noteq> []"
  shows "HasPrefix (Clean p) (Clean d @ [slash])
     \<longleftrightarrow> (\<exists>es. es \<noteq> [] \<and> path_elems p = path_elems d @ es)"
proof -
  have free: "\<forall>e \<in> set (path_elems q). slash \<notin> set e" for q
    using path_elems_good by (auto simp: good_elem_def)
  have "HasPrefix (Clean p) (Clean d @ [slash])
      \<longleftrightarrow> HasPrefix (joinc slash (path_elems p)) (joinc slash (path_elems d) @ [slash])"
    using assms by (simp add: Clean_abs HasPrefix_def)
  then show ?thesis
    using joinc_prefix_iff [OF assms(3) free free] by simp
qed

lemma Clean_eq_iff:
  assumes "IsAbs d" "IsAbs p"
  shows "Clean p = Clean d \<longleftrightarrow> path_elems p = path_elems d"
  using assms path_elems_Clean by (metis Clean_abs)

end
