(* ===== verification/GoEncoding.thy ===== *)
theory GoEncoding
  imports GoStrings
begin

text \<open>
  \<open>encoding/hex\<close>, \<open>encoding/base64\<close> (the standard alphabet with padding),
  \<open>crypto/sha256\<close> and \<open>unicode/utf8\<close> as the program uses them: byte functions
  that compute. The base64 decoder follows the package's documented behaviour:
  CR and LF are ignored, padding is required, and trailing bits are not checked.
\<close>

definition byte_of :: "char \<Rightarrow> byte" where "byte_of c = of_nat (of_char c)"
definition char_of_byte :: "byte \<Rightarrow> char" where "char_of_byte b = char_of (unat b)"

lemma unat_byte: "unat (b :: byte) < 256"
  using unsigned_less [of b, where ?'a = nat] by simp

lemma byte_of_inverse [simp]: "char_of_byte (byte_of c) = c"
  by (simp add: char_of_byte_def byte_of_def unat_of_nat)

lemma char_of_byte_inverse [simp]: "byte_of (char_of_byte b) = b"
  using unat_byte [of b] by (simp add: char_of_byte_def byte_of_def)

text \<open>The position of a byte in an alphabet.\<close>

fun index_of :: "char \<Rightarrow> string \<Rightarrow> nat option" where
  "index_of c [] = None"
| "index_of c (x # xs) = (if x = c then Some 0 else map_option Suc (index_of c xs))"

lemma index_of_nth: "distinct xs \<Longrightarrow> n < length xs \<Longrightarrow> index_of (xs ! n) xs = Some n"
proof (induction xs arbitrary: n)
  case (Cons x xs)
  then show ?case by (cases n) auto
qed simp

lemma index_of_None [simp]: "index_of c xs = None \<longleftrightarrow> c \<notin> set xs"
  by (induction xs) auto

lemma index_of_Some: "index_of c xs = Some n \<Longrightarrow> n < length xs \<and> xs ! n = c"
  by (induction xs arbitrary: n) (auto split: if_splits)

subsection \<open>hex\<close>

definition hextable :: string where "hextable = ''0123456789abcdef''"

definition hex_digit :: "nat \<Rightarrow> char" where
  "hex_digit n = hextable ! n"

definition hex_byte :: "byte \<Rightarrow> string" where
  "hex_byte b = [hex_digit (unat b div 16), hex_digit (unat b mod 16)]"

definition hex_EncodeToString :: "byte list \<Rightarrow> string" where
  "hex_EncodeToString bs = concat (map hex_byte bs)"

lemma length_hex_EncodeToString [simp]: "length (hex_EncodeToString bs) = 2 * length bs"
  by (induction bs) (auto simp: hex_EncodeToString_def hex_byte_def)

subsection \<open>base64\<close>

definition b64_alphabet :: string where
  "b64_alphabet = ''ABCDEFGHIJKLMNOPQRSTUVWXYZabcdefghijklmnopqrstuvwxyz0123456789+/''"

definition b64_char :: "nat \<Rightarrow> char" where
  "b64_char n = b64_alphabet ! n"

definition b64_val :: "char \<Rightarrow> nat option" where
  "b64_val c = index_of c b64_alphabet"

definition pad :: char where "pad = CHR ''=''"

definition enc3 :: "nat \<Rightarrow> nat \<Rightarrow> nat \<Rightarrow> nat list" where
  "enc3 a b c = [a div 4, (a mod 4) * 16 + b div 16, (b mod 16) * 4 + c div 64, c mod 64]"

fun b64_Encode :: "byte list \<Rightarrow> string" where
  "b64_Encode [] = []"
| "b64_Encode [a] = map b64_char (take 2 (enc3 (unat a) 0 0)) @ [pad, pad]"
| "b64_Encode [a, b] = map b64_char (take 3 (enc3 (unat a) (unat b) 0)) @ [pad]"
| "b64_Encode (a # b # c # bs) = map b64_char (enc3 (unat a) (unat b) (unat c)) @ b64_Encode bs"

fun b64_quanta :: "string \<Rightarrow> byte list option" where
  "b64_quanta [] = Some []"
| "b64_quanta (w # x # y # z # rest) =
     (case (b64_val w, b64_val x) of
        (Some p, Some q) \<Rightarrow>
          (if y = pad then
             (if z = pad \<and> rest = [] then Some [of_nat (p * 4 + q div 16)] else None)
           else case b64_val y of
             None \<Rightarrow> None
           | Some r \<Rightarrow>
               (if z = pad then
                  (if rest = [] then Some [of_nat (p * 4 + q div 16), of_nat ((q mod 16) * 16 + r div 4)]
                   else None)
                else case b64_val z of
                  None \<Rightarrow> None
                | Some s \<Rightarrow>
                    map_option (\<lambda>bs. of_nat (p * 4 + q div 16) # of_nat ((q mod 16) * 16 + r div 4)
                                      # of_nat ((r mod 4) * 64 + s) # bs)
                      (b64_quanta rest)))
      | _ \<Rightarrow> None)"
| "b64_quanta _ = None"

definition b64_Decode :: "string \<Rightarrow> byte list option" where
  "b64_Decode s = b64_quanta (filter (\<lambda>c. c \<noteq> CHR 0x0A \<and> c \<noteq> CHR 0x0D) s)"

lemma b64_alphabet_props: "distinct b64_alphabet" "length b64_alphabet = 64" "pad \<notin> set b64_alphabet"
  by (simp_all add: b64_alphabet_def pad_def)

lemma b64_val_char: "n < 64 \<Longrightarrow> b64_val (b64_char n) = Some n"
  by (simp add: b64_val_def b64_char_def index_of_nth b64_alphabet_props)

lemma b64_char_mem: "n < 64 \<Longrightarrow> b64_char n \<in> set b64_alphabet"
  by (simp add: b64_char_def b64_alphabet_props)

lemma b64_char_not_pad: "n < 64 \<Longrightarrow> b64_char n \<noteq> pad"
  using b64_char_mem b64_alphabet_props(3) by metis

lemma b64_Encode_set: "set (b64_Encode bs) \<subseteq> insert pad (set b64_alphabet)"
proof (induction bs rule: b64_Encode.induct)
  case (2 a)
  show ?case using unat_byte [of a] by (auto simp: enc3_def intro!: b64_char_mem)
next
  case (3 a b)
  show ?case using unat_byte [of a] unat_byte [of b] by (auto simp: enc3_def intro!: b64_char_mem)
next
  case (4 a b c bs)
  then show ?case using unat_byte [of a] unat_byte [of b] unat_byte [of c]
    by (auto simp: enc3_def intro!: b64_char_mem)
qed simp

lemma digit_div: "k < m \<Longrightarrow> (x * m + k) div m = (x::nat)"
  by simp

lemma digit_mod: "k < m \<Longrightarrow> (x * m + k) mod m = (k::nat)"
  by simp

lemma enc3_dec:
  fixes a b c :: nat
  assumes "a < 256" "b < 256" "c < 256"
  shows "(a div 4) * 4 + ((a mod 4) * 16 + b div 16) div 16 = a"
    and "((a mod 4) * 16 + b div 16) mod 16 * 16 + ((b mod 16) * 4 + c div 64) div 4 = b"
    and "((b mod 16) * 4 + c div 64) mod 4 * 64 + c mod 64 = c"
proof -
  have "b div 16 < 16" "c div 64 < 4" using assms by simp_all
  then have *: "((a mod 4) * 16 + b div 16) div 16 = a mod 4" "((a mod 4) * 16 + b div 16) mod 16 = b div 16"
    "((b mod 16) * 4 + c div 64) div 4 = b mod 16" "((b mod 16) * 4 + c div 64) mod 4 = c div 64"
    by (simp_all only: digit_div digit_mod)
  show "(a div 4) * 4 + ((a mod 4) * 16 + b div 16) div 16 = a"
    "((a mod 4) * 16 + b div 16) mod 16 * 16 + ((b mod 16) * 4 + c div 64) div 4 = b"
    "((b mod 16) * 4 + c div 64) mod 4 * 64 + c mod 64 = c"
    by (simp_all only: * div_mult_mod_eq)
qed

lemma b64_quanta_Encode: "b64_quanta (b64_Encode bs) = Some bs"
proof (induction bs rule: b64_Encode.induct)
  case (2 a)
  show ?case using unat_byte [of a] enc3_dec [of "unat a" 0 0]
    by (simp add: enc3_def b64_val_char numeral_2_eq_2)
next
  case (3 a b)
  show ?case using unat_byte [of a] unat_byte [of b] enc3_dec [of "unat a" "unat b" 0]
    by (simp add: enc3_def b64_val_char b64_char_not_pad numeral_3_eq_3)
next
  case (4 a b c bs)
  then show ?case
    using unat_byte [of a] unat_byte [of b] unat_byte [of c] enc3_dec [of "unat a" "unat b" "unat c"]
    by (simp add: enc3_def b64_val_char b64_char_not_pad)
qed simp

lemma b64_Decode_Encode [simp]: "b64_Decode (b64_Encode bs) = Some bs"
proof -
  have "CHR 0x0A \<notin> insert pad (set b64_alphabet)" "CHR 0x0D \<notin> insert pad (set b64_alphabet)"
    by (simp_all add: b64_alphabet_def pad_def)
  then have "filter (\<lambda>c. c \<noteq> CHR 0x0A \<and> c \<noteq> CHR 0x0D) (b64_Encode bs) = b64_Encode bs"
    using b64_Encode_set by (intro filter_True) blast
  then show ?thesis by (simp add: b64_Decode_def b64_quanta_Encode)
qed

subsection \<open>crypto/sha256\<close>

text \<open>The round constants and the initial state, in decimal.\<close>

definition sha_K :: "32 word list" where
  "sha_K =
     [1116352408, 1899447441, 3049323471, 3921009573, 961987163, 1508970993,
      2453635748, 2870763221, 3624381080, 310598401, 607225278, 1426881987,
      1925078388, 2162078206, 2614888103, 3248222580, 3835390401, 4022224774,
      264347078, 604807628, 770255983, 1249150122, 1555081692, 1996064986,
      2554220882, 2821834349, 2952996808, 3210313671, 3336571891, 3584528711,
      113926993, 338241895, 666307205, 773529912, 1294757372, 1396182291,
      1695183700, 1986661051, 2177026350, 2456956037, 2730485921, 2820302411,
      3259730800, 3345764771, 3516065817, 3600352804, 4094571909, 275423344,
      430227734, 506948616, 659060556, 883997877, 958139571, 1322822218,
      1537002063, 1747873779, 1955562222, 2024104815, 2227730452, 2361852424,
      2428436474, 2756734187, 3204031479, 3329325298]"

definition sha_H0 :: "32 word list" where
  "sha_H0 =
     [1779033703, 3144134277, 1013904242, 2773480762, 1359893119, 2600822924,
      528734635, 1541459225]"

text \<open>The message schedule is kept last word first, so each new word reads fixed positions.\<close>

fun sha_sched :: "nat \<Rightarrow> 32 word list \<Rightarrow> 32 word list" where
  "sha_sched 0 w = rev w"
| "sha_sched (Suc n) w =
     (let a = w ! 14; b = w ! 1;
          s0 = word_rotr 7 a XOR word_rotr 18 a XOR drop_bit 3 a;
          s1 = word_rotr 17 b XOR word_rotr 19 b XOR drop_bit 10 b
      in sha_sched n ((w ! 15 + s0 + w ! 6 + s1) # w))"

fun sha_rounds :: "32 word list \<Rightarrow> (32 word \<times> 32 word) list \<Rightarrow> 32 word list" where
  "sha_rounds [a, b, c, d, e, f, g, h] ((k, w) # kws) =
     (let S1 = word_rotr 6 e XOR word_rotr 11 e XOR word_rotr 25 e;
          ch = (e AND f) XOR (NOT e AND g);
          t1 = h + S1 + ch + k + w;
          S0 = word_rotr 2 a XOR word_rotr 13 a XOR word_rotr 22 a;
          maj = (a AND b) XOR (a AND c) XOR (b AND c)
      in sha_rounds [t1 + (S0 + maj), a, b, c, d + t1, e, f, g] kws)"
| "sha_rounds st _ = st"

definition be32 :: "byte list \<Rightarrow> 32 word" where
  "be32 bs = of_nat (foldl (\<lambda>n b. n * 256 + unat b) 0 bs)"

definition put_be32 :: "32 word \<Rightarrow> byte list" where
  "put_be32 w = [ucast (drop_bit 24 w), ucast (drop_bit 16 w), ucast (drop_bit 8 w), ucast w]"

fun chunks :: "nat \<Rightarrow> nat \<Rightarrow> 'a list \<Rightarrow> 'a list list" where
  "chunks 0 n xs = []"
| "chunks (Suc k) n xs = take n xs # chunks k n (drop n xs)"

definition sha_block :: "32 word list \<Rightarrow> byte list \<Rightarrow> 32 word list" where
  "sha_block h blk =
     (let w = sha_sched 48 (rev (map be32 (chunks 16 4 blk)))
      in map2 (+) h (sha_rounds h (zip sha_K w)))"

definition sha_pad :: "byte list \<Rightarrow> byte list" where
  "sha_pad m =
     (let n = length m; z = (119 - n mod 64) mod 64; bits = 8 * n in
      m @ [0x80] @ replicate z 0
        @ put_be32 (of_nat (bits div 2 ^ 32)) @ put_be32 (of_nat bits))"

definition sha256_Sum256 :: "byte list \<Rightarrow> byte list" where
  "sha256_Sum256 m =
     (let p = sha_pad m
      in concat (map put_be32 (foldl sha_block sha_H0 (chunks (length p div 64) 64 p))))"

lemma length_sha_rounds: "length h = 8 \<Longrightarrow> length (sha_rounds h kws) = 8"
  by (induction h kws rule: sha_rounds.induct) (auto simp: Let_def)

lemma length_sha_blocks: "length h = 8 \<Longrightarrow> length (foldl sha_block h bs) = 8"
  by (induction bs arbitrary: h) (auto simp: sha_block_def Let_def length_sha_rounds)

lemma length_concat_be32: "length (concat (map put_be32 ws)) = 4 * length ws"
  by (induction ws) (auto simp: put_be32_def)

lemma length_Sum256 [simp]: "length (sha256_Sum256 m) = 32"
  by (simp add: sha256_Sum256_def Let_def length_concat_be32 length_sha_blocks sha_H0_def)

subsection \<open>unicode/utf8\<close>

definition RuneError :: nat where "RuneError = 0xFFFD"

text \<open>For a first byte: the length of the encoding it starts and the range of the second byte.\<close>

definition utf8_first :: "nat \<Rightarrow> nat \<times> nat \<times> nat" where
  "utf8_first b =
     (if b < 0x80 then (1, 0, 0)
      else if b < 0xC2 then (1, 0, 0)
      else if b < 0xE0 then (2, 0x80, 0xBF)
      else if b = 0xE0 then (3, 0xA0, 0xBF)
      else if b = 0xED then (3, 0x80, 0x9F)
      else if b < 0xF0 then (3, 0x80, 0xBF)
      else if b = 0xF0 then (4, 0x90, 0xBF)
      else if b < 0xF4 then (4, 0x80, 0xBF)
      else if b = 0xF4 then (4, 0x80, 0x8F)
      else (1, 0, 0))"

abbreviation cont :: "nat \<Rightarrow> bool" where "cont b \<equiv> 0x80 \<le> b \<and> b \<le> 0xBF"

definition DecodeRune :: "byte list \<Rightarrow> nat \<times> nat" where
  "DecodeRune p =
     (case map unat p of
        [] \<Rightarrow> (RuneError, 0)
      | a # r \<Rightarrow>
         (let (sz, lo, hi) = utf8_first a in
          if sz = 1 then (if a < 0x80 then (a, 1) else (RuneError, 1))
          else case r of [] \<Rightarrow> (RuneError, 1) | b # r2 \<Rightarrow>
            if \<not> (lo \<le> b \<and> b \<le> hi) then (RuneError, 1)
            else if sz = 2 then ((a - 0xC0) * 64 + (b - 0x80), 2)
            else case r2 of [] \<Rightarrow> (RuneError, 1) | c # r3 \<Rightarrow>
              if \<not> cont c then (RuneError, 1)
              else if sz = 3 then ((a - 0xE0) * 4096 + (b - 0x80) * 64 + (c - 0x80), 3)
              else case r3 of [] \<Rightarrow> (RuneError, 1) | d # _ \<Rightarrow>
                if \<not> cont d then (RuneError, 1)
                else ((a - 0xF0) * 262144 + (b - 0x80) * 4096 + (c - 0x80) * 64 + (d - 0x80), 4)))"

definition FullRune :: "byte list \<Rightarrow> bool" where
  "FullRune p =
     (case map unat p of
        [] \<Rightarrow> False
      | a # r \<Rightarrow>
         (let (sz, lo, hi) = utf8_first a in
          if sz \<le> length p then True
          else case r of [] \<Rightarrow> False | b # r2 \<Rightarrow>
            if b < lo \<or> hi < b then True
            else case r2 of [] \<Rightarrow> False | c # _ \<Rightarrow> c < 0x80 \<or> 0xBF < c))"

definition RuneStart :: "byte \<Rightarrow> bool" where
  "RuneStart b \<longleftrightarrow> b AND 0xC0 \<noteq> 0x80"

lemma DecodeRune_size: "p \<noteq> [] \<Longrightarrow> 1 \<le> snd (DecodeRune p) \<and> snd (DecodeRune p) \<le> length p"
  by (cases p) (auto simp: DecodeRune_def Let_def split: list.splits prod.splits)

end
