(* ===== verification/GoUnicode.thy ===== *)
theory GoUnicode
  imports GoEncoding
begin

text \<open>
  More of Go's text packages: runes of a byte string and their UTF-16 encoding,
  validity, what \<open>encoding/json\<close> keeps of a string, \<open>strings.Fields\<close>, \<open>Cut\<close>,
  \<open>Trim\<close> and the comparisons that ignore case. A string the program compares
  with an ASCII literal after \<open>ToLower\<close> (or by \<open>EqualFold\<close>) is lowered here on the
  runes whose lower case is ASCII (A to Z, U+0130 and U+212A; for \<open>EqualFold\<close> also
  U+017F, whose fold is s, and not U+0130); every other rune stays non-ASCII in Go
  and is left as it is, so the comparison has the same answer.
\<close>

definition bytes :: "string \<Rightarrow> byte list" where "bytes s = map byte_of s"
definition string_of :: "byte list \<Rightarrow> string" where "string_of bs = map char_of_byte bs"

lemma string_of_bytes [simp]: "string_of (bytes s) = s"
  by (simp add: string_of_def bytes_def comp_def)

lemma bytes_string_of [simp]: "bytes (string_of b) = b"
  by (simp add: string_of_def bytes_def comp_def)

lemma length_bytes [simp]: "length (bytes s) = length s" "length (string_of b) = length b"
  by (simp_all add: bytes_def string_of_def)

lemma bytes_append [simp]: "bytes (s @ t) = bytes s @ bytes t" "string_of (b @ d) = string_of b @ string_of d"
  by (simp_all add: bytes_def string_of_def)

subsection \<open>Runes\<close>

function runes :: "byte list \<Rightarrow> (nat \<times> nat) list" where
  "runes p = (if p = [] then [] else DecodeRune p # runes (drop (snd (DecodeRune p)) p))"
  by pat_completeness auto
termination
proof (relation "measure length", goal_cases)
  case (2 p)
  with DecodeRune_size [of p] have "1 \<le> snd (DecodeRune p)" "p \<noteq> []" by auto
  then show ?case by (cases p) auto
qed simp

declare runes.simps [simp del]

lemma runes_Nil [simp]: "runes [] = []"
  by (simp add: runes.simps)

definition utf8_Valid :: "byte list \<Rightarrow> bool" where
  "utf8_Valid p \<longleftrightarrow> (RuneError, 1) \<notin> set (runes p)"

lemma ascii_valid: "\<forall>c \<in> set s. (of_char c :: nat) < 128 \<Longrightarrow> utf8_Valid (bytes s)"
proof (induction s)
  case (Cons c s)
  have u: "unat (byte_of c) = of_char c" by (simp add: byte_of_def unat_of_nat)
  then have "DecodeRune (bytes (c # s)) = (of_char c, 1)"
    using Cons.prems by (simp add: DecodeRune_def bytes_def utf8_first_def)
  moreover have "(of_char c :: nat) < 128" using Cons.prems by simp
  ultimately show ?case using Cons
    by (simp add: utf8_Valid_def bytes_def runes.simps [of "byte_of c # map byte_of s"] RuneError_def)
qed (simp add: utf8_Valid_def bytes_def)

text \<open>\<open>utf16.Encode\<close>, as 16-bit units.\<close>

definition utf16_units :: "nat \<Rightarrow> 16 word list" where
  "utf16_units r =
     (if r < 0x10000 then [of_nat r]
      else [of_nat (0xD800 + (r - 0x10000) div 0x400), of_nat (0xDC00 + (r - 0x10000) mod 0x400)])"

definition utf16_Encode :: "(nat \<times> nat) list \<Rightarrow> 16 word list" where
  "utf16_Encode rs = concat (map (utf16_units \<circ> fst) rs)"

text \<open>What comes back of a string that went through \<open>json.Marshal\<close>: invalid bytes are U+FFFD.\<close>

function coerceUTF8 :: "byte list \<Rightarrow> byte list" where
  "coerceUTF8 p =
     (if p = [] then []
      else if DecodeRune p = (RuneError, 1) then [0xEF, 0xBF, 0xBD] @ coerceUTF8 (drop 1 p)
      else take (snd (DecodeRune p)) p @ coerceUTF8 (drop (snd (DecodeRune p)) p))"
  by pat_completeness auto
termination
proof (relation "measure length", goal_cases)
  case (3 p)
  with DecodeRune_size [of p] have "1 \<le> snd (DecodeRune p)" "p \<noteq> []" by auto
  then show ?case by (cases p) auto
qed (auto simp: neq_Nil_conv)

declare coerceUTF8.simps [simp del]

lemma coerceUTF8_valid: "utf8_Valid p \<Longrightarrow> coerceUTF8 p = p"
proof (induction p rule: coerceUTF8.induct)
  case (1 p)
  show ?case
  proof (cases "p = []")
    case False
    have r: "runes p = DecodeRune p # runes (drop (snd (DecodeRune p)) p)"
      using False by (simp add: runes.simps [of p])
    have ne: "DecodeRune p \<noteq> (RuneError, 1)" "utf8_Valid (drop (snd (DecodeRune p)) p)"
      using 1(3) by (auto simp: utf8_Valid_def r)
    show ?thesis using False ne 1(2) by (simp add: coerceUTF8.simps [of p])
  qed (simp add: coerceUTF8.simps)
qed

definition json_string :: "string \<Rightarrow> string" where
  "json_string s = string_of (coerceUTF8 (bytes s))"

lemma json_string_valid: "utf8_Valid (bytes s) \<Longrightarrow> json_string s = s"
  by (simp add: json_string_def coerceUTF8_valid)

subsection \<open>Case\<close>

definition ascii_lower :: "char \<Rightarrow> char" where
  "ascii_lower c = (let n = of_char c :: nat in if 65 \<le> n \<and> n \<le> 90 then char_of (n + 32) else c)"

fun ToLower :: "string \<Rightarrow> string" where
  "ToLower [] = []"
| "ToLower (c # s) =
     (if HasPrefix (c # s) [CHR 0xC4, CHR 0xB0] then CHR ''i'' # ToLower (drop 1 s)
      else if HasPrefix (c # s) [CHR 0xE2, CHR 0x84, CHR 0xAA] then CHR ''k'' # ToLower (drop 2 s)
      else ascii_lower c # ToLower s)"

fun fold_case :: "string \<Rightarrow> string" where
  "fold_case [] = []"
| "fold_case (c # s) =
     (if HasPrefix (c # s) [CHR 0xC5, CHR 0xBF] then CHR ''s'' # fold_case (drop 1 s)
      else if HasPrefix (c # s) [CHR 0xE2, CHR 0x84, CHR 0xAA] then CHR ''k'' # fold_case (drop 2 s)
      else ascii_lower c # fold_case s)"

text \<open>\<open>strings.EqualFold\<close> against an ASCII literal.\<close>

definition EqualFold :: "string \<Rightarrow> string \<Rightarrow> bool" where
  "EqualFold s lit \<longleftrightarrow> fold_case s = fold_case lit"

subsection \<open>Fields, Cut, Trim\<close>

function fields_go :: "string \<Rightarrow> string \<Rightarrow> string list" where
  "fields_go acc s =
     (if s = [] then (if acc = [] then [] else [rev acc])
      else case lead_space s of
        Some r \<Rightarrow> (if acc = [] then [] else [rev acc]) @ fields_go [] (drop (length r) s)
      | None \<Rightarrow> fields_go (hd s # acc) (tl s))"
  by pat_completeness auto
termination
proof (relation "measure (length \<circ> snd)", goal_cases)
  case (2 acc s)
  then show ?case by (cases s) auto
next
  case (3 acc s r)
  with lead_space_len [of s r] have "0 < length r" "length r \<le> length s" by simp_all
  then have "length s - length r < length s" by linarith
  then show ?case by simp
qed simp

declare fields_go.simps [simp del]

definition Fields :: "string \<Rightarrow> string list" where
  "Fields s = fields_go [] s"

definition CutPrefix :: "string \<Rightarrow> string \<Rightarrow> string option" where
  "CutPrefix s p = (if HasPrefix s p then Some (drop (length p) s) else None)"

definition TrimPrefix :: "byte list \<Rightarrow> byte list \<Rightarrow> byte list" where
  "TrimPrefix s p = (if take (length p) s = p then drop (length p) s else s)"

text \<open>\<open>strings.Cut\<close> on one byte.\<close>

definition Cut :: "string \<Rightarrow> char \<Rightarrow> (string \<times> string) option" where
  "Cut s c =
     (if c \<in> set s then Some (takeWhile (\<lambda>x. x \<noteq> c) s, drop 1 (dropWhile (\<lambda>x. x \<noteq> c) s)) else None)"

lemma CutPrefix_append [simp]: "CutPrefix (p @ t) p = Some t"
  by (simp add: CutPrefix_def)

lemma Cut_append: "c \<notin> set a \<Longrightarrow> Cut (a @ c # t) c = Some (a, t)"
  by (induction a) (auto simp: Cut_def)

text \<open>\<open>strings.Trim\<close> with a cutset of ASCII characters.\<close>

definition TrimChars :: "string \<Rightarrow> char set \<Rightarrow> string" where
  "TrimChars s cs = rev (dropWhile (\<lambda>c. c \<in> cs) (rev (dropWhile (\<lambda>c. c \<in> cs) s)))"

text \<open>\<open>strings.Join\<close> with a space.\<close>

definition join_space :: "string list \<Rightarrow> string" where
  "join_space ws = joinc CHR '' '' ws"

end
