(* ===== verification/SessionAuth.thy ===== *)
theory SessionAuth
  imports GoStrings
begin

text \<open>
  \<open>src/internal/sessionauth/sessionauth.go\<close>: the capabilities of a session and the
  metadata the relay stamps on it. \<open>Capabilities\<close> is Go's \<open>uint8\<close>. What
  \<open>json.Unmarshal\<close> makes of the bytes of a JSON string is an argument of
  \<open>UnmarshalJSON\<close>; \<open>MarshalJSON\<close> gives the string that is quoted.
\<close>

type_synonym capabilities = "8 word"

definition Exec :: capabilities where "Exec = 1"
definition Read :: capabilities where "Read = 2"
definition WriteCap :: capabilities where "WriteCap = 4"
definition Logs :: capabilities where "Logs = 8"
definition Console :: capabilities where "Console = 16"

definition UseCapabilities :: capabilities where "UseCapabilities = Exec OR Read OR WriteCap OR Logs"
definition FullCapabilities :: capabilities where "FullCapabilities = UseCapabilities OR Console"

definition capabilityNames :: "(string \<times> capabilities) list" where
  "capabilityNames = [(''exec'', Exec), (''read'', Read), (''write'', WriteCap), (''logs'', Logs), (''console'', Console)]"

definition Has :: "capabilities \<Rightarrow> capabilities \<Rightarrow> bool" where
  "Has c required \<longleftrightarrow> c AND required = required"

definition Valid :: "capabilities \<Rightarrow> bool" where
  "Valid c \<longleftrightarrow> c \<noteq> 0 \<and> c AND NOT FullCapabilities = 0"

definition comma :: char where "comma = CHR '',''"

definition capString :: "capabilities \<Rightarrow> string" where
  "capString c = joinc comma (map fst (filter (\<lambda>item. Has c (snd item)) capabilityNames))"

datatype parse_error = EmptyCapabilities | UnknownCapability string | DuplicateCapability string

fun parse_names :: "capabilities \<Rightarrow> string list \<Rightarrow> parse_error + capabilities" where
  "parse_names caps [] = Inr caps"
| "parse_names caps (raw # rest) =
     (let name = TrimSpace raw;
          found = (case find (\<lambda>item. name = fst item) capabilityNames of Some item \<Rightarrow> snd item | None \<Rightarrow> 0)
      in if found = 0 then Inl (UnknownCapability name)
         else if Has caps found then Inl (DuplicateCapability name)
         else parse_names (caps OR found) rest)"

definition ParseCaps :: "string \<Rightarrow> parse_error + capabilities" where
  "ParseCaps value =
     (if TrimSpace value = [] then Inl EmptyCapabilities else parse_names 0 (splitc comma value))"

definition MarshalJSON :: "capabilities \<Rightarrow> string option" where
  "MarshalJSON c = (if \<not> Valid c then None else Some (capString c))"

definition UnmarshalJSON :: "string option \<Rightarrow> capabilities option" where
  "UnmarshalJSON decoded =
     (case decoded of None \<Rightarrow> None
      | Some value \<Rightarrow> (case ParseCaps value of Inl _ \<Rightarrow> None | Inr c \<Rightarrow> Some c))"

record Open =
  o_session :: string
  callerNS :: string
  ownerNS :: string
  o_device :: string
  o_caps :: capabilities
  o_grant :: string
  o_credential :: string
  o_controllerFP :: string
  o_expires :: gotime
  o_execOnly :: string

definition ControllerOK :: "Open \<Rightarrow> string \<Rightarrow> bool" where
  "ControllerOK o' fp \<longleftrightarrow> o_execOnly o' \<noteq> [] \<or> o_controllerFP o' = fp"

definition ValidFor :: "gotime \<Rightarrow> Open \<Rightarrow> string \<Rightarrow> bool" where
  "ValidFor now o' device \<longleftrightarrow>
     (if o_execOnly o' \<noteq> [] then
        \<not> (o_grant o' = [] \<or> o_credential o' = [] \<or> IsZero (o_expires o') \<or> \<not> now < o_expires o'
           \<or> o_caps o' \<noteq> Exec)
      else
        \<not> (o_grant o' \<noteq> [] \<and> (o_credential o' = [] \<or> o_controllerFP o' = [] \<or> IsZero (o_expires o')
           \<or> \<not> now < o_expires o' \<or> o_caps o' \<noteq> UseCapabilities)))
     \<and> o_session o' \<noteq> [] \<and> callerNS o' \<noteq> [] \<and> ownerNS o' \<noteq> [] \<and> o_device o' = device
     \<and> Valid (o_caps o')"

subsection \<open>Capabilities as sets of bits\<close>

lemmas cap_defs = Exec_def Read_def WriteCap_def Logs_def Console_def UseCapabilities_def FullCapabilities_def

lemma cap_values: "UseCapabilities = 15" "FullCapabilities = 31"
  by (simp_all add: cap_defs)

lemma bit8: "bit (c :: 8 word) n \<Longrightarrow> n < 8"
  using bit_imp_le_length [of c n] by simp

lemma Has_iff: "Has c r \<longleftrightarrow> (\<forall>n. bit r n \<longrightarrow> bit c n)"
  unfolding Has_def bit_eq_iff by (auto simp: bit_simps dest: bit8)

lemma Has_or: "Has c r \<Longrightarrow> Has (c OR d) r"
  by (simp add: Has_iff bit_simps)

lemma within_iff: "c AND NOT (f :: capabilities) = 0 \<longleftrightarrow> (\<forall>n. bit c n \<longrightarrow> bit f n)"
  unfolding bit_eq_iff by (auto simp: bit_simps dest: bit8)

lemma Valid_or: "Valid c \<Longrightarrow> Valid d \<Longrightarrow> Valid (c OR d)"
  unfolding Valid_def within_iff
  by (metis bit_or_iff or_eq_0_iff)

lemma Valid_range: "Valid c \<Longrightarrow> \<exists>n. 0 < n \<and> n < 32 \<and> c = of_nat n"
proof (intro exI conjI)
  assume v: "Valid c"
  have "c = c AND FullCapabilities"
  proof -
    have "\<forall>n. bit c n \<longrightarrow> bit FullCapabilities n" using v unfolding Valid_def within_iff by blast
    then show ?thesis unfolding bit_eq_iff by (auto simp: bit_and_iff)
  qed
  then have "c \<le> 31" unfolding cap_values by (metis word_and_le1)
  then show "unat c < 32" by (simp add: word_le_nat_alt)
  show "c = of_nat (unat c)" by simp
  show "0 < unat c" using v by (auto simp: Valid_def unat_gt_0)
qed

lemma named_caps: "find P capabilityNames = Some item \<Longrightarrow> Valid (snd item)"
  by (auto simp: capabilityNames_def Valid_def cap_defs split: if_splits)

lemma parse_names_valid:
  "parse_names caps names = Inr c \<Longrightarrow> names \<noteq> [] \<or> Valid caps \<Longrightarrow> caps = 0 \<or> Valid caps \<Longrightarrow> Valid c"
proof (induction names arbitrary: caps)
  case (Cons raw rest)
  then obtain item where i: "find (\<lambda>item. TrimSpace raw = fst item) capabilityNames = Some item"
    "parse_names (caps OR snd item) rest = Inr c"
    by (auto simp: Let_def split: if_splits option.splits)
  have "Valid (caps OR snd item)"
    using named_caps [OF i(1)] Cons.prems(3) by (auto intro: Valid_or)
  then show ?case using Cons.IH [OF i(2)] by blast
qed auto

lemma ParseCaps_valid: "ParseCaps value = Inr c \<Longrightarrow> Valid c"
  unfolding ParseCaps_def by (rule parse_names_valid) (auto split: if_splits)

text \<open>There are 31 valid values; printing and parsing each gives it back.\<close>

lemma ParseCaps_all: "\<forall>n \<in> set [1..<32]. ParseCaps (capString (of_nat n)) = Inr (of_nat n)"
  by code_simp

lemma ParseCaps_capString: "Valid c \<Longrightarrow> ParseCaps (capString c) = Inr c"
  using Valid_range [of c] ParseCaps_all by auto

end
