(* ===== verification/Access.thy ===== *)
theory Access
  imports SessionAuth GoEncoding "HOL-Library.List_Lexorder" "HOL-Library.Char_ord" "HOL-Library.Product_Lexorder"
begin

text \<open>
  Who may open a session on which device, and with what: \<open>delegation.go\<close>
  (\<open>Access\<close>), \<open>admission.go\<close>, \<open>tokenstore.go\<close>, \<open>shared.go\<close>, \<open>relay.go\<close>
  (\<open>dialAllowedReason\<close>), \<open>device_id.go\<close> (\<open>resolveLiveLabel\<close>) and
  \<open>delegation_auth.go\<close>, all under \<open>src/internal/\<close>.

  What the relay asks its databases is a record of functions, \<open>relay_view\<close>: the
  alias resolver, the labels of the live agents, the devices shared with a
  namespace and the sharing grants. \<open>equalFold\<close> stands for \<open>strings.EqualFold\<close>
  on Unicode text and \<open>validID\<close> for the UUID package's parser. The wording of a
  refusal is output only: a reason is which message it is, with its arguments.
\<close>

record device_ref =
  d_namespace :: string
  d_id :: string
  d_fingerprint :: string

definition Target :: "device_ref \<Rightarrow> string" where
  "Target d = d_namespace d @ ''/'' @ d_id d"

record access =
  a_ns :: string
  a_credential :: string
  delegated :: bool
  a_grant :: string
  a_expires :: gotime
  a_devices :: "device_ref list"
  a_controllerFP :: string
  grantedMinutes :: int
  a_execOnly :: string

definition no_access :: access where
  "no_access = \<lparr>a_ns = [], a_credential = [], delegated = False, a_grant = [], a_expires = 0,
     a_devices = [], a_controllerFP = [], grantedMinutes = 0, a_execOnly = []\<rparr>"

definition Allows :: "gotime \<Rightarrow> access \<Rightarrow> string \<Rightarrow> bool" where
  "Allows now a target \<longleftrightarrow>
     (if \<not> delegated a then True
      else if IsZero (a_expires a) \<or> \<not> now < a_expires a then False
      else (\<exists>d \<in> set (a_devices a). Target d = target))"

definition MaxGrantMinutes :: int where [go_defs]: "MaxGrantMinutes = 1440"
definition RequestWindow :: duration where [go_defs]: "RequestWindow = 10 * Minute"
definition TicketLifetime :: duration where [go_defs]: "TicketLifetime = RequestWindow + MaxGrantMinutes * Minute"
definition MinRetention :: duration where [go_defs]: "MinRetention = MaxGrantMinutes * Minute + Hour"
definition JobsPerGrantHour :: int where [go_defs]: "JobsPerGrantHour = 64"
definition MinJobsPerGrant :: int where [go_defs]: "MinJobsPerGrant = 64"

text \<open>Durations are divided towards zero, as Go does.\<close>

definition quot :: "int \<Rightarrow> int \<Rightarrow> int" where
  "quot a b = sgn a * sgn b * (\<bar>a\<bar> div \<bar>b\<bar>)"

definition MaxJobs :: "duration \<Rightarrow> int" where
  "MaxJobs granted =
     (let hours = quot (granted + Hour - 1) Hour; n = hours * JobsPerGrantHour
      in if n > MinJobsPerGrant then n else MinJobsPerGrant)"

definition GrantedDuration :: "gotime option \<Rightarrow> gotime option \<Rightarrow> duration" where
  "GrantedDuration decidedAt expiresAt =
     (case (decidedAt, expiresAt) of (Some d, Some e) \<Rightarrow> e - d | _ \<Rightarrow> 0)"

subsection \<open>Credentials\<close>

definition bytes_of :: "string \<Rightarrow> byte list" where "bytes_of s = map byte_of s"

definition HashToken :: "string \<Rightarrow> string" where
  "HashToken token = hex_EncodeToString (sha256_Sum256 (bytes_of token))"

definition ScopedTokenPrefix :: string where "ScopedTokenPrefix = ''wcs_''"
definition DelegationPrefix :: string where "DelegationPrefix = ''wfd_''"

definition restrictedToken :: "string \<Rightarrow> bool" where
  "restrictedToken token \<longleftrightarrow> HasPrefix token DelegationPrefix \<or> HasPrefix token ScopedTokenPrefix"

text \<open>A store that supports delegation has \<open>ResolveAccess\<close> beside \<open>Resolve\<close>.\<close>

record token_store =
  ts_resolve :: "string \<Rightarrow> string option"
  ts_scoped :: "(string \<Rightarrow> access option) option"

definition ResolveAccess :: "gotime \<Rightarrow> token_store \<Rightarrow> string \<Rightarrow> access option" where
  "ResolveAccess now store token =
     (case ts_scoped store of
        Some resolve \<Rightarrow>
          (case resolve token of
             None \<Rightarrow> None
           | Some a \<Rightarrow>
               if a_ns a = [] then None
               else if restrictedToken token \<and> \<not> delegated a then None
               else if (a_execOnly a \<noteq> []) \<noteq> HasPrefix token ScopedTokenPrefix then None
               else
                (let a = (if a_credential a = [] then a\<lparr>a_credential := HashToken token\<rparr> else a) in
                 if delegated a \<and> (a_grant a = [] \<or> (a_controllerFP a = [] \<and> a_execOnly a = [])
                      \<or> length (a_devices a) = 0 \<or> IsZero (a_expires a) \<or> \<not> now < a_expires a) then None
                 else if a_execOnly a \<noteq> [] \<and> (\<not> delegated a \<or> length (a_devices a) \<noteq> 1) then None
                 else Some a))
      | None \<Rightarrow>
          if restrictedToken token then None
          else (case ts_resolve store token of
                  None \<Rightarrow> None
                | Some ns \<Rightarrow> Some (no_access\<lparr>a_ns := ns, a_credential := HashToken token\<rparr>)))"

text \<open>\<open>EnvTokenStore\<close>: the store of the foundation milestone, last binding wins.\<close>

definition last_colon :: "string \<Rightarrow> nat option" where
  "last_colon s =
     (case filter (\<lambda>i. s ! i = CHR '':'') [0..<length s] of [] \<Rightarrow> None | is \<Rightarrow> Some (last is))"

definition EnvTokenStore :: "string \<Rightarrow> string \<rightharpoonup> string" where
  "EnvTokenStore spec =
     foldl (\<lambda>m pair.
        let pair = TrimSpace pair in
        if pair = [] then m
        else case last_colon pair of
               Some i \<Rightarrow> if i > 0 then m(take i pair \<mapsto> drop (i + 1) pair) else m
             | None \<Rightarrow> m)
       Map.empty (splitc comma spec)"

definition envResolve :: "(string \<rightharpoonup> string) \<Rightarrow> string \<Rightarrow> string option" where
  "envResolve m token = (if restrictedToken token then None else m token)"

text \<open>\<open>admission.Token\<close> on the fields of the Authorization header.\<close>

fun to_lower :: "char \<Rightarrow> char" where
  "to_lower c = (let n = of_char c :: nat in if 65 \<le> n \<and> n \<le> 90 then char_of (n + 32) else c)"

definition Token :: "string list \<Rightarrow> string option" where
  "Token parts =
     (case parts of
        [scheme, tok] \<Rightarrow> if map to_lower scheme = ''bearer'' \<and> tok \<noteq> [] then Some tok else None
      | _ \<Rightarrow> None)"

definition authAccess :: "gotime \<Rightarrow> token_store \<Rightarrow> string \<Rightarrow> string list \<Rightarrow> (access \<times> string) option" where
  "authAccess now store portalNS header =
     (case Token header of
        None \<Rightarrow> None
      | Some token \<Rightarrow>
         (case ResolveAccess now store token of
            None \<Rightarrow> None
          | Some a \<Rightarrow> if delegated a \<and> a_ns a = portalNS then None else Some (a, token)))"

definition auth :: "token_store \<Rightarrow> string list \<Rightarrow> string option" where
  "auth store header =
     (case Token header of
        None \<Rightarrow> None
      | Some token \<Rightarrow>
          if restrictedToken token then None else ts_resolve store token)"

subsection \<open>Dialing\<close>

datatype shared_peer = SharedPeer (p_owner: string) (p_device: string) (p_label: string) (p_online: bool)

definition p_target :: "shared_peer \<Rightarrow> string" where
  "p_target p = p_owner p @ ''/'' @ p_device p"

datatype reason =
    NoReason
  | NoSuchDevice string string
  | SharedByMany string "string list"
  | AmbiguousLabel string

datatype aliases =
    NoAliases
  | StrictAliases "string \<Rightarrow> string \<Rightarrow> string option"
  | LaxAliases "string \<Rightarrow> string \<Rightarrow> string option"

record relay_view =
  portalNS :: string
  aliases :: aliases
  liveLabels :: "string \<Rightarrow> (string \<times> string) list"
  listShared :: "string \<Rightarrow> shared_peer list"
  acl :: "(string \<Rightarrow> string \<Rightarrow> string \<Rightarrow> bool option) option"
  validID :: "string \<Rightarrow> bool"
  equalFold :: "string \<Rightarrow> string \<Rightarrow> bool"

text \<open>
  \<open>acl\<close>, when installed, answers with the grant's \<open>Manage\<close> switch. \<open>listShared\<close>
  is the rows of the database that are shared with the namespace.
\<close>

definition sharedPeers :: "relay_view \<Rightarrow> string \<Rightarrow> shared_peer list" where
  "sharedPeers r ns =
     (if ns = [] then []
      else sort_key (\<lambda>p. (p_owner p, p_device p))
        (filter (\<lambda>p. \<not> (p_owner p = [] \<or> p_owner p = ns \<or> p_device p = [])) (listShared r ns)))"

definition resolveShared :: "relay_view \<Rightarrow> string \<Rightarrow> string \<Rightarrow> reason + shared_peer" where
  "resolveShared r caller target =
     (if target = [] then Inl NoReason
      else (case filter (\<lambda>p. p_device p = target \<or> equalFold r (p_label p) target) (sharedPeers r caller) of
              [p] \<Rightarrow> Inr p
            | [] \<Rightarrow> Inl (NoSuchDevice caller target)
            | ms \<Rightarrow> Inl (SharedByMany target (map p_target ms))))"

text \<open>The scan of \<open>resolveLiveLabel\<close>; \<open>None\<close> when a second device has the label.\<close>

fun label_scan :: "string \<Rightarrow> string \<Rightarrow> (string \<times> string) list \<Rightarrow> string option" where
  "label_scan target found [] = Some found"
| "label_scan target found ((dev, label) # ls) =
     (if label = target then (if found \<noteq> [] then None else label_scan target dev ls)
      else label_scan target found ls)"

definition resolveLiveLabel :: "relay_view \<Rightarrow> string \<Rightarrow> string \<Rightarrow> string option" where
  "resolveLiveLabel r ns target =
     (let labels = liveLabels r ns in
      if map_of labels target \<noteq> None \<and> validID r target then Some target
      else case label_scan target [] labels of
             None \<Rightarrow> None
           | Some found \<Rightarrow> if found \<noteq> [] then Some found else Some target)"

definition slash' :: char where "slash' = CHR 0x2F"

text \<open>The two halves of a target around its first slash.\<close>

definition cut_slash :: "string \<Rightarrow> string \<times> string" where
  "cut_slash t = (takeWhile (\<lambda>c. c \<noteq> slash') t, drop 1 (dropWhile (\<lambda>c. c \<noteq> slash') t))"

definition open_for :: "string \<Rightarrow> string \<Rightarrow> string \<Rightarrow> capabilities \<Rightarrow> Open" where
  "open_for caller owner device caps =
     \<lparr>o_session = [], callerNS = caller, ownerNS = owner, o_device = device, o_caps = caps,
      o_grant = [], o_credential = [], o_controllerFP = [], o_expires = 0, o_execOnly = []\<rparr>"

text \<open>The resolution of the target, up to the device's route: a reason, or owner and device.\<close>

definition resolve_target :: "relay_view \<Rightarrow> string \<Rightarrow> string \<Rightarrow> reason + string \<times> string" where
  "resolve_target r caller target =
     (let bare = (slash' \<notin> set target);
          target = (if bare then caller @ slash' # target else target);
          (targetNS, device) = cut_slash target;
          own = (targetNS = caller) in
      case (case aliases r of
              StrictAliases strict \<Rightarrow>
                (case strict targetNS device of
                   Some resolved \<Rightarrow> Inr (targetNS, resolved)
                 | None \<Rightarrow>
                     if own \<and> bare then
                       (case resolveShared r caller device of
                          Inl why \<Rightarrow> Inl why
                        | Inr peer \<Rightarrow> Inr (p_owner peer, p_device peer))
                     else if own then Inl (NoSuchDevice caller device)
                     else Inl NoReason)
            | LaxAliases lax \<Rightarrow>
                (case lax targetNS device of
                   Some resolved \<Rightarrow> Inr (targetNS, resolved)
                 | None \<Rightarrow> Inr (targetNS, device))
            | NoAliases \<Rightarrow> Inr (targetNS, device)) of
        Inl why \<Rightarrow> Inl why
      | Inr (targetNS, device) \<Rightarrow>
          (case resolveLiveLabel r targetNS device of
             None \<Rightarrow> if \<not> own then Inl NoReason else Inl (AmbiguousLabel device)
           | Some resolved \<Rightarrow> Inr (targetNS, resolved)))"

definition dialAllowedReason :: "relay_view \<Rightarrow> string \<Rightarrow> string \<Rightarrow> reason + string \<times> Open" where
  "dialAllowedReason r caller target =
     (case resolve_target r caller target of
        Inl why \<Rightarrow> Inl why
      | Inr (targetNS, device) \<Rightarrow>
         (let key = targetNS @ ''/'' @ device in
          if portalNS r \<noteq> [] \<and> caller = portalNS r then Inr (key, open_for caller targetNS device FullCapabilities)
          else if targetNS = caller then Inr (key, open_for caller targetNS device FullCapabilities)
          else (case acl r of
                  None \<Rightarrow> Inl NoReason
                | Some grants \<Rightarrow>
                    (case grants caller targetNS device of
                       None \<Rightarrow> Inl NoReason
                     | Some manage \<Rightarrow>
                         Inr (key, open_for caller targetNS device
                                (if manage then FullCapabilities else UseCapabilities))))))"

definition dialAccessAllowed ::
  "gotime \<Rightarrow> relay_view \<Rightarrow> access \<Rightarrow> string \<Rightarrow> reason + string \<times> Open" where
  "dialAccessAllowed now r a target =
     (case dialAllowedReason r (a_ns a) target of
        Inl why \<Rightarrow> if delegated a then Inl NoReason else Inl why
      | Inr (key, o') \<Rightarrow>
          if delegated a then
            (if \<not> Allows now a key then Inl NoReason
             else
              (let o' = o'\<lparr>o_caps := UseCapabilities\<rparr>;
                   o' = (if a_execOnly a \<noteq> [] then o'\<lparr>o_caps := Exec, o_execOnly := a_execOnly a\<rparr> else o')
               in Inr (key, o'\<lparr>o_grant := a_grant a, o_credential := a_credential a,
                               o_controllerFP := a_controllerFP a, o_expires := a_expires a\<rparr>)))
          else Inr (key, o'))"

definition agentServes :: "access \<Rightarrow> bool \<Rightarrow> bool \<Rightarrow> bool" where
  "agentServes a delegationOK scopedOK \<longleftrightarrow>
     (if \<not> delegated a then True else delegationOK \<and> (a_execOnly a = [] \<or> scopedOK))"

text \<open>\<open>accessPeers\<close> on the online devices, their aliases and the shared peers.\<close>

definition accessPeers ::
  "gotime \<Rightarrow> access \<Rightarrow> string list \<Rightarrow> (string \<times> string) list \<Rightarrow> shared_peer list
   \<Rightarrow> string list \<times> (string \<times> string) list \<times> shared_peer list" where
  "accessPeers now a devices als shared =
     (if delegated a then
        (filter (\<lambda>d. Allows now a (a_ns a @ ''/'' @ d)) devices,
         filter (\<lambda>(d, _). Allows now a (a_ns a @ ''/'' @ d)) als,
         filter (\<lambda>p. Allows now a (p_target p)) shared)
      else (devices, als, shared))"

subsection \<open>Leases\<close>

record lease =
  l_sid :: string
  l_target :: string
  l_token :: string
  l_access :: access
  l_caps :: capabilities

text \<open>\<open>enabled\<close> is \<open>accountsEnabled\<close>: no named account is disabled, errors count as disabled.\<close>

definition accountsEnabled :: "(string \<Rightarrow> bool option) option \<Rightarrow> string list \<Rightarrow> bool" where
  "accountsEnabled disabler nss =
     (case disabler of
        None \<Rightarrow> True
      | Some disabled \<Rightarrow> (\<forall>ns \<in> set nss. disabled ns = Some False))"

definition l_owner :: "lease \<Rightarrow> string" where "l_owner l = fst (cut_slash (l_target l))"

definition credentialValid ::
  "gotime \<Rightarrow> token_store \<Rightarrow> (string \<Rightarrow> bool option) option \<Rightarrow> lease \<Rightarrow> bool" where
  "credentialValid now store disabler l \<longleftrightarrow>
     (if \<not> accountsEnabled disabler [a_ns (l_access l), l_owner l] then False
      else if \<not> delegated (l_access l) then True
      else case ResolveAccess now store (l_token l) of
             None \<Rightarrow> False
           | Some a \<Rightarrow> delegated a \<and> a_grant a = a_grant (l_access l)
               \<and> a_credential a = a_credential (l_access l)
               \<and> a_controllerFP a = a_controllerFP (l_access l) \<and> Allows now a (l_target l))"

text \<open>The leases \<open>closeRevokedShares\<close> closes, and the map of leases after it.\<close>

definition rests_on_share :: "relay_view \<Rightarrow> string list \<Rightarrow> lease \<Rightarrow> bool" where
  "rests_on_share r owners l \<longleftrightarrow>
     a_ns (l_access l) \<noteq> l_owner l
     \<and> (portalNS r = [] \<or> a_ns (l_access l) \<noteq> portalNS r) \<and> l_owner l \<in> set owners"

definition revoked_share :: "relay_view \<Rightarrow> lease \<Rightarrow> bool" where
  "revoked_share r l \<longleftrightarrow>
     (case acl r of
        None \<Rightarrow> False
      | Some grants \<Rightarrow>
          (case grants (a_ns (l_access l)) (l_owner l) (snd (cut_slash (l_target l))) of
             None \<Rightarrow> True
           | Some manage \<Rightarrow> \<not> manage \<and> Has (l_caps l) Console))"

definition closeRevokedShares :: "relay_view \<Rightarrow> string list \<Rightarrow> lease list \<Rightarrow> lease list" where
  "closeRevokedShares r owners ls =
     (if acl r = None then ls
      else filter (\<lambda>l. \<not> (rests_on_share r owners l \<and> revoked_share r l)) ls)"

definition disconnectLeases :: "string \<Rightarrow> lease list \<Rightarrow> lease list" where
  "disconnectLeases ns ls = filter (\<lambda>l. \<not> (a_ns (l_access l) = ns \<or> l_owner l = ns)) ls"

text \<open>\<open>handleAgentDelegationCheck\<close> and \<open>handleAgentWorkspaceCheck\<close>: whether the agent is told yes.\<close>

definition delegationCheck ::
  "gotime \<Rightarrow> token_store \<Rightarrow> (string \<Rightarrow> bool option) option \<Rightarrow> lease option
   \<Rightarrow> string \<Rightarrow> string \<Rightarrow> string \<Rightarrow> string \<Rightarrow> bool" where
  "delegationCheck now store disabler found ns device grant fp \<longleftrightarrow>
     (case found of
        None \<Rightarrow> False
      | Some l \<Rightarrow>
          \<not> (\<not> delegated (l_access l) \<or> l_target l \<noteq> ns @ ''/'' @ device \<or> a_grant (l_access l) \<noteq> grant
             \<or> (a_controllerFP (l_access l) \<noteq> fp \<and> a_execOnly (l_access l) = [])
             \<or> \<not> credentialValid now store disabler l))"

definition workspaceCheck ::
  "gotime \<Rightarrow> relay_view \<Rightarrow> token_store \<Rightarrow> lease option \<Rightarrow> string \<Rightarrow> string \<Rightarrow> bool" where
  "workspaceCheck now r store found ns device \<longleftrightarrow>
     (case found of
        None \<Rightarrow> False
      | Some l \<Rightarrow>
          if l_target l \<noteq> ns @ ''/'' @ device \<or> delegated (l_access l) then False
          else case ResolveAccess now store (l_token l) of
             None \<Rightarrow> False
           | Some a \<Rightarrow>
               if delegated a \<or> a_ns a \<noteq> a_ns (l_access l) then False
               else case dialAccessAllowed now r a (l_target l) of
                      Inl _ \<Rightarrow> False
                    | Inr (key, o') \<Rightarrow> key = l_target l \<and> Has (o_caps o') UseCapabilities)"

subsection \<open>What a credential can and cannot do\<close>

lemma ResolveAccess_sound:
  assumes "ResolveAccess now store token = Some a"
  shows "restrictedToken token \<Longrightarrow> delegated a"
    and "a_execOnly a \<noteq> [] \<longleftrightarrow> HasPrefix token ScopedTokenPrefix"
    and "a_execOnly a \<noteq> [] \<Longrightarrow> delegated a \<and> length (a_devices a) = 1"
    and "delegated a \<Longrightarrow> a_grant a \<noteq> [] \<and> a_devices a \<noteq> [] \<and> now < a_expires a \<and> a_expires a \<noteq> 0
           \<and> (a_controllerFP a \<noteq> [] \<or> a_execOnly a \<noteq> [])"
proof -
  have "length (HashToken token) = 64" by (simp add: HashToken_def)
  then have hash: "HashToken token \<noteq> []" by auto
  show "restrictedToken token \<Longrightarrow> delegated a"
    and "a_execOnly a \<noteq> [] \<longleftrightarrow> HasPrefix token ScopedTokenPrefix"
    and "a_execOnly a \<noteq> [] \<Longrightarrow> delegated a \<and> length (a_devices a) = 1"
    and "delegated a \<Longrightarrow> a_grant a \<noteq> [] \<and> a_devices a \<noteq> [] \<and> now < a_expires a \<and> a_expires a \<noteq> 0
           \<and> (a_controllerFP a \<noteq> [] \<or> a_execOnly a \<noteq> [])"
    using assms hash
    by (auto simp: ResolveAccess_def no_access_def restrictedToken_def IsZero_def Let_def split: option.splits if_splits)
qed

text \<open>
  The contract of a dial: what a caller is entitled to on an owner's device. The
  portal and the owner manage it; a grantee uses it, and manages it where the owner
  turned that on; nobody else has anything.
\<close>

definition entitlement :: "relay_view \<Rightarrow> string \<Rightarrow> string \<Rightarrow> string \<Rightarrow> capabilities option" where
  "entitlement r caller owner device =
     (if (portalNS r \<noteq> [] \<and> caller = portalNS r) \<or> owner = caller then Some FullCapabilities
      else case acl r of
             None \<Rightarrow> None
           | Some grants \<Rightarrow>
               map_option (\<lambda>manage. if manage then FullCapabilities else UseCapabilities) (grants caller owner device))"

lemma open_for_fields [simp]:
  "callerNS (open_for c w d caps) = c" "ownerNS (open_for c w d caps) = w" "o_device (open_for c w d caps) = d"
  "o_caps (open_for c w d caps) = caps" "o_execOnly (open_for c w d caps) = []" "o_grant (open_for c w d caps) = []"
  by (simp_all add: open_for_def)

lemma dialAllowed_entitled:
  assumes "resolve_target r caller target = Inr (owner, device)"
  shows "dialAllowedReason r caller target =
    (case entitlement r caller owner device of
       None \<Rightarrow> Inl NoReason
     | Some caps \<Rightarrow> Inr (owner @ ''/'' @ device, open_for caller owner device caps))"
  using assms by (auto simp: dialAllowedReason_def entitlement_def Let_def split: option.split)

lemma dial_caller:
  assumes "dialAllowedReason r caller target = Inr (key, o')"
  shows "callerNS o' = caller" "key = ownerNS o' @ ''/'' @ o_device o'" "o_execOnly o' = []" "o_grant o' = []"
    and "entitlement r caller (ownerNS o') (o_device o') = Some (o_caps o')"
proof -
  obtain owner device where rt: "resolve_target r caller target = Inr (owner, device)"
    using assms by (cases "resolve_target r caller target") (auto simp: dialAllowedReason_def)
  then obtain caps where e: "entitlement r caller owner device = Some caps"
    and o': "o' = open_for caller owner device caps" "key = owner @ ''/'' @ device"
    using assms by (auto simp: dialAllowed_entitled [OF rt] split: option.splits)
  show "callerNS o' = caller" "key = ownerNS o' @ ''/'' @ o_device o'" "o_execOnly o' = []" "o_grant o' = []"
    "entitlement r caller (ownerNS o') (o_device o') = Some (o_caps o')"
    using e by (simp_all add: o')
qed

lemma use_no_console: "\<not> Has UseCapabilities Console" "\<not> Has Exec Console"
  by (simp_all add: Has_def cap_defs)

lemma dial_delegated:
  assumes d: "dialAccessAllowed now r a target = Inr (key, o')" and del: "delegated a"
  shows "\<exists>dev \<in> set (a_devices a). Target dev = key" "now < a_expires a"
    "o_caps o' = (if a_execOnly a \<noteq> [] then Exec else UseCapabilities)" "o_execOnly o' = a_execOnly a"
    "o_grant o' = a_grant a" "o_credential o' = a_credential a" "o_controllerFP o' = a_controllerFP a"
    "o_expires o' = a_expires a" "callerNS o' = a_ns a" "key = ownerNS o' @ ''/'' @ o_device o'"
    "entitlement r (a_ns a) (ownerNS o') (o_device o') \<noteq> None"
proof -
  obtain key' o1 where k: "dialAllowedReason r (a_ns a) target = Inr (key', o1)"
    using d del by (auto simp: dialAccessAllowed_def split: sum.splits)
  note c = dial_caller [OF k]
  have al: "Allows now a key'" "key' = key"
    using d del k by (auto simp: dialAccessAllowed_def Let_def split: if_splits)
  then show "\<exists>dev \<in> set (a_devices a). Target dev = key" "now < a_expires a"
    using del by (auto simp: Allows_def split: if_splits)
  show "o_caps o' = (if a_execOnly a \<noteq> [] then Exec else UseCapabilities)" "o_execOnly o' = a_execOnly a"
    "o_grant o' = a_grant a" "o_credential o' = a_credential a" "o_controllerFP o' = a_controllerFP a"
    "o_expires o' = a_expires a" "callerNS o' = a_ns a" "key = ownerNS o' @ ''/'' @ o_device o'"
    "entitlement r (a_ns a) (ownerNS o') (o_device o') \<noteq> None"
    using d del k c al by (auto simp: dialAccessAllowed_def Let_def split: if_splits)
qed

text \<open>A refusal with words in it is only ever about a target in the caller's own namespace.\<close>

lemma reason_is_own:
  assumes "dialAccessAllowed now r a target = Inl why" "why \<noteq> NoReason"
  shows "\<not> delegated a \<and> (slash' \<notin> set target \<or> fst (cut_slash target) = a_ns a)"
proof -
  have nd: "\<not> delegated a"
    using assms by (auto simp: dialAccessAllowed_def Let_def split: sum.splits if_splits)
  have "resolve_target r (a_ns a) target = Inl why"
    using assms nd
    by (auto simp: dialAccessAllowed_def dialAllowedReason_def Let_def split: sum.splits if_splits option.splits)
  then have "slash' \<notin> set target \<or> fst (cut_slash target) = a_ns a"
    using assms(2)
    by (auto simp: resolve_target_def Let_def split: sum.splits if_splits option.splits aliases.splits prod.splits)
  then show ?thesis using nd by simp
qed

text \<open>After a change of shares, what is left of the sessions that rest on them is still allowed.\<close>

lemma closeRevokedShares_left:
  assumes "acl r = Some grants" "l \<in> set (closeRevokedShares r owners ls)" "rests_on_share r owners l"
  shows "\<exists>manage. grants (a_ns (l_access l)) (l_owner l) (snd (cut_slash (l_target l))) = Some manage
           \<and> (manage \<or> \<not> Has (l_caps l) Console)"
  using assms by (auto simp: closeRevokedShares_def revoked_share_def split: option.splits)

lemma closeRevokedShares_kept:
  "l \<in> set ls \<Longrightarrow> \<not> rests_on_share r owners l \<Longrightarrow> l \<in> set (closeRevokedShares r owners ls)"
  by (auto simp: closeRevokedShares_def)

lemma MaxJobs_bounds: "MinJobsPerGrant \<le> MaxJobs granted"
  by (simp add: MaxJobs_def Let_def)

section \<open>Properties of capabilities and access\<close>

text \<open>
  A valid capability set survives printing and parsing, and parsing never yields a
  set outside the known five or an empty one.
\<close>

theorem capabilities_round_trip:
  "(Valid c \<longrightarrow> UnmarshalJSON (MarshalJSON c) = Some c) \<and> (ParseCaps s = Inr d \<longrightarrow> Valid d \<and> ParseCaps (capString d) = Inr d)"
  using ParseCaps_capString ParseCaps_valid by (simp add: UnmarshalJSON_def MarshalJSON_def)

theorem capabilities_round_trip_witness:
  "UnmarshalJSON (MarshalJSON 19) = Some 19 \<and> ParseCaps ''console, exec'' = Inr 17 \<and> ParseCaps (capString 17) = Inr 17"
proof -
  have "Valid 19" "ParseCaps ''console, exec'' = Inr 17" by code_simp+
  then show ?thesis
    using capabilities_round_trip [of 19 "[]" 0] capabilities_round_trip [of 0 "''console, exec''" 17] by blast
qed


definition demo_view :: relay_view where
  "demo_view = \<lparr>portalNS = ''portal'', aliases = NoAliases, liveLabels = (\<lambda>ns. [(''d1'', ''pc'')]),
     listShared = (\<lambda>_. []),
     acl = Some (\<lambda>caller owner device. if caller = ''bob'' \<and> owner = ''ann'' \<and> device = ''d1'' then Some False else None),
     validID = (\<lambda>_. False), equalFold = (=)\<rparr>"


text \<open>
  C28. A delegated credential reaches only a device it was granted, before the grant
  expires, and never as more than use: no console, and for an execution-only ticket
  nothing but \<open>exec\<close>; the grantor must still have access to the device.
\<close>

theorem delegation_confines:
  assumes "dialAccessAllowed now r a target = Inr (key, o')" and "delegated a"
  shows "(\<exists>dev \<in> set (a_devices a). Target dev = key) \<and> now < a_expires a
    \<and> \<not> Has (o_caps o') Console \<and> (a_execOnly a \<noteq> [] \<longrightarrow> o_caps o' = Exec)
    \<and> o_grant o' = a_grant a \<and> o_credential o' = a_credential a \<and> o_expires o' = a_expires a
    \<and> entitlement r (a_ns a) (ownerNS o') (o_device o') \<noteq> None"
  using dial_delegated [OF assms] use_no_console by simp

definition demo_grant :: access where
  "demo_grant = no_access\<lparr>a_ns := ''ann'', a_credential := ''c'', delegated := True, a_grant := ''g'',
     a_expires := 100, a_devices := [\<lparr>d_namespace = ''ann'', d_id = ''d1'', d_fingerprint = ''f''\<rparr>],
     a_controllerFP := ''k'', a_execOnly := ''t''\<rparr>"

theorem delegation_confines_witness:
  "\<exists>o'. dialAccessAllowed 50 demo_view demo_grant ''ann/pc'' = Inr (''ann/d1'', o') \<and> o_caps o' = Exec
     \<and> \<not> Has (o_caps o') Console"
proof -
  have "case dialAccessAllowed 50 demo_view demo_grant ''ann/pc'' of Inl _ \<Rightarrow> False | Inr (k, _) \<Rightarrow> k = ''ann/d1''"
    by code_simp
  then obtain o' where d: "dialAccessAllowed 50 demo_view demo_grant ''ann/pc'' = Inr (''ann/d1'', o')"
    "a_execOnly demo_grant \<noteq> []" "delegated demo_grant"
    by (auto simp: demo_grant_def split: sum.splits prod.splits)
  then show ?thesis using delegation_confines [OF d(1,3)] by blast
qed

lemma entitlement_valid: "entitlement r c w d = Some caps \<Longrightarrow> Valid caps"
  by (auto simp: entitlement_def Valid_def cap_defs split: if_splits option.splits)

text \<open>
  What the relay stamps on a session is what the device accepts: for credentials
  resolved by the token store, the \<open>Open\<close> of an allowed dial passes the device's
  \<open>ValidFor\<close> check as soon as the session has an id.
\<close>

theorem stamped_open_is_accepted:
  assumes "ResolveAccess now store token = Some a" and "dialAccessAllowed now r a target = Inr (key, o')"
    and "a_ns a \<noteq> []" "ownerNS o' \<noteq> []" "a_credential a \<noteq> []" "sid \<noteq> []"
  shows "ValidFor now (o'\<lparr>o_session := sid\<rparr>) (o_device o')"
proof (cases "delegated a")
  case True
  note d = dial_delegated [OF assms(2) True] and s = ResolveAccess_sound(4) [OF assms(1) True]
  have v: "Valid Exec" "Valid UseCapabilities" by (simp_all add: Valid_def cap_defs)
  show ?thesis using d(2-9) s v assms(3-6) by (auto simp: ValidFor_def IsZero_def)
next
  case False
  then have k: "dialAllowedReason r (a_ns a) target = Inr (key, o')"
    using assms(2) by (auto simp: dialAccessAllowed_def split: sum.splits)
  note c = dial_caller [OF k]
  show ?thesis using c entitlement_valid [OF c(5)] assms(3,4,6) by (simp add: ValidFor_def)
qed

definition demo_store :: token_store where
  "demo_store = \<lparr>ts_resolve = (\<lambda>t. if t = ''secret'' then Some ''bob'' else None), ts_scoped = None\<rparr>"

theorem stamped_open_is_accepted_witness:
  "\<exists>a o'. ResolveAccess 50 demo_store ''secret'' = Some a
     \<and> dialAccessAllowed 50 demo_view a ''ann/pc'' = Inr (''ann/d1'', o')
     \<and> ValidFor 50 (o'\<lparr>o_session := ''s1''\<rparr>) ''d1''"
proof -
  let ?a = "no_access\<lparr>a_ns := ''bob'', a_credential := HashToken ''secret''\<rparr>"
  let ?o = "open_for ''bob'' ''ann'' ''d1'' UseCapabilities"
  have a: "ResolveAccess 50 demo_store ''secret'' = Some ?a"
    by (simp add: ResolveAccess_def demo_store_def restrictedToken_def DelegationPrefix_def ScopedTokenPrefix_def
        HasPrefix_def no_access_def)
  have "resolve_target demo_view ''bob'' ''ann/pc'' = Inr (''ann'', ''d1'')" by code_simp
  moreover have "entitlement demo_view ''bob'' ''ann'' ''d1'' = Some UseCapabilities"
    by (simp add: entitlement_def demo_view_def)
  ultimately have d: "dialAccessAllowed 50 demo_view ?a ''ann/pc'' = Inr (''ann/d1'', ?o)"
    by (simp add: dialAccessAllowed_def dialAllowed_entitled no_access_def)
  have "length (HashToken ''secret'') = 64" by (simp add: HashToken_def)
  then have "HashToken ''secret'' \<noteq> []" by auto
  then have "ValidFor 50 (?o\<lparr>o_session := ''s1''\<rparr>) ''d1''"
    using stamped_open_is_accepted [OF a d, of "''s1''"] by (simp add: no_access_def)
  then show ?thesis using a d by blast
qed

text \<open>
  Device names do not leak: a refusal that says anything is about a target the
  caller named in its own namespace, and a delegated caller is never told a reason.
\<close>

theorem refusals_do_not_leak:
  assumes "dialAccessAllowed now r a target = Inl why" "why \<noteq> NoReason"
  shows "\<not> delegated a \<and> (slash' \<notin> set target \<or> fst (cut_slash target) = a_ns a)"
  by (rule reason_is_own [OF assms])

definition strict_view :: relay_view where
  "strict_view = demo_view\<lparr>aliases := StrictAliases (\<lambda>_ _. None)\<rparr>"

theorem refusals_do_not_leak_witness:
  "dialAccessAllowed 50 strict_view (no_access\<lparr>a_ns := ''bob''\<rparr>) ''nas'' = Inl (NoSuchDevice ''bob'' ''nas'')
   \<and> slash' \<notin> set ''nas''"
proof -
  have "dialAccessAllowed 50 strict_view (no_access\<lparr>a_ns := ''bob''\<rparr>) ''nas'' = Inl (NoSuchDevice ''bob'' ''nas'')"
    by code_simp
  moreover have "\<not> (fst (cut_slash ''nas'') = a_ns (no_access\<lparr>a_ns := ''bob''\<rparr>))" by code_simp
  ultimately show ?thesis using refusals_do_not_leak [of 50 strict_view _ "''nas''"] by blast
qed

text \<open>
  Taking a share away ends the sessions that rest on it: after
  \<open>closeRevokedShares\<close> every session of a grantee on a device of the changed owners still
  has a grant, one with management if the session carries the console, and no other
  session was touched.
\<close>

theorem revocation_takes_effect:
  assumes "acl r = Some grants"
  shows "(\<forall>l \<in> set (closeRevokedShares r owners ls). rests_on_share r owners l \<longrightarrow>
      (\<exists>manage. grants (a_ns (l_access l)) (l_owner l) (snd (cut_slash (l_target l))) = Some manage
           \<and> (manage \<or> \<not> Has (l_caps l) Console)))
    \<and> (\<forall>l \<in> set ls. \<not> rests_on_share r owners l \<longrightarrow> l \<in> set (closeRevokedShares r owners ls))"
  using closeRevokedShares_left [OF assms] closeRevokedShares_kept by blast

definition demo_lease :: "string \<Rightarrow> capabilities \<Rightarrow> lease" where
  "demo_lease ns caps = \<lparr>l_sid = ''s1'', l_target = ''ann/d1'', l_token = ''t'',
     l_access = no_access\<lparr>a_ns := ns\<rparr>, l_caps = caps\<rparr>"

theorem revocation_takes_effect_witness:
  "closeRevokedShares demo_view [''ann'']
     [demo_lease ''bob'' UseCapabilities, demo_lease ''bob'' FullCapabilities, demo_lease ''eve'' Exec, demo_lease ''ann'' FullCapabilities]
   = [demo_lease ''bob'' UseCapabilities, demo_lease ''ann'' FullCapabilities]
   \<and> demo_lease ''ann'' FullCapabilities \<in> set (closeRevokedShares demo_view [''ann''] [demo_lease ''ann'' FullCapabilities])"
proof -
  have a: "\<exists>g. acl demo_view = Some g" by (simp add: demo_view_def)
  have "\<not> rests_on_share demo_view [''ann''] (demo_lease ''ann'' FullCapabilities)" by code_simp
  moreover have "closeRevokedShares demo_view [''ann'']
     [demo_lease ''bob'' UseCapabilities, demo_lease ''bob'' FullCapabilities, demo_lease ''eve'' Exec, demo_lease ''ann'' FullCapabilities]
   = [demo_lease ''bob'' UseCapabilities, demo_lease ''ann'' FullCapabilities]"
    by code_simp
  ultimately show ?thesis using a revocation_takes_effect [of demo_view] by auto
qed

end
