(* ===== verification/Script.thy ===== *)
theory Script
  imports GoUnicode GoPath
begin

text \<open>
  \<open>src/internal/script/script.go\<close>: how a script is carried inside a command, the
  token that names it in a policy rule, and what a person is shown of it. Strings
  of interpreter names, as in the code, are the constants themselves. Error values
  carry the parameter the message quotes.
\<close>

type_synonym interp = string

definition PowerShell :: interp where "PowerShell = ''powershell''"
definition POSIX :: interp where "POSIX = ''sh''"

datatype script_error =
    CannotInfer string
  | UnknownInterp string
  | NotUTF8
  | TooLarge nat

definition maxCommand :: nat where "maxCommand = 24000"

definition nl :: char where "nl = CHR 0x0A"
definition quote :: char where "quote = CHR 0x27"

definition psPrologue :: string where
  "psPrologue = ''$ProgressPreference='' @ quote # ''SilentlyContinue'' @ [quote] @ '';'' @ [nl]"

definition ForPath :: "string \<Rightarrow> script_error + interp" where
  "ForPath path =
     (let e = ToLower (Ext path) in
      if e = ''.ps1'' then Inr PowerShell
      else if e = ''.sh'' \<or> e = ''.bash'' \<or> e = '''' then Inr POSIX
      else Inl (CannotInfer path))"

definition ParseInterp :: "string \<Rightarrow> script_error + interp" where
  "ParseInterp s =
     (let e = ToLower (TrimSpace s) in
      if e = PowerShell \<or> e = ''pwsh'' \<or> e = ''ps1'' then Inr PowerShell
      else if e = POSIX \<or> e = ''bash'' \<or> e = ''posix'' then Inr POSIX
      else Inl (UnknownInterp s))"

definition bom :: "byte list" where "bom = [0xEF, 0xBB, 0xBF]"

definition SessionSource :: "interp \<Rightarrow> byte list \<Rightarrow> script_error + byte list" where
  "SessionSource i source =
     (if i = POSIX then Inr source
      else if i = PowerShell then
        (let src = TrimPrefix source bom in
         if \<not> utf8_Valid src then Inl NotUTF8 else Inr (bytes psPrologue @ src))
      else Inl (UnknownInterp i))"

definition utf16LE :: "byte list \<Rightarrow> byte list" where
  "utf16LE s = concat (map (\<lambda>u. [ucast u, ucast (drop_bit 8 u)]) (utf16_Encode (runes s)))"

definition posixPre :: string where "posixPre = ''printf %s '' @ [quote]"
definition posixPost :: string where "posixPost = quote # '' | base64 -d | sh''"
definition psPre :: string where
  "psPre = ''powershell -NoProfile -NonInteractive -EncodedCommand '' @ [quote]"
definition psPost :: string where "psPost = [quote]"

text \<open>The bytes the interpreter on the device is fed, and the command that carries them.\<close>

definition payload :: "interp \<Rightarrow> byte list \<Rightarrow> script_error + byte list" where
  "payload i script =
     (if i = PowerShell then
        (case SessionSource i script of Inl e \<Rightarrow> Inl e | Inr src \<Rightarrow> Inr (utf16LE src))
      else if i = POSIX then Inr script
      else Inl (UnknownInterp i))"

definition Command :: "interp \<Rightarrow> byte list \<Rightarrow> script_error + string" where
  "Command i script =
     (case payload i script of
        Inl e \<Rightarrow> Inl e
      | Inr raw \<Rightarrow>
          (let cmd = (if i = PowerShell then psPre @ b64_Encode raw @ psPost
                      else posixPre @ b64_Encode raw @ posixPost)
           in if length cmd > maxCommand then Inl (TooLarge (length cmd)) else Inr cmd))"

definition wrapped :: "string \<Rightarrow> string \<Rightarrow> string \<Rightarrow> bool" where
  "wrapped c pre post \<longleftrightarrow> length c \<ge> length pre + length post \<and> HasPrefix c pre \<and> HasSuffix c post"

text \<open>Go's \<open>s[i:j]\<close>, which panics outside \<open>0 \<le> i \<le> j \<le> len(s)\<close>.\<close>

definition slice :: "string \<Rightarrow> nat \<Rightarrow> nat \<Rightarrow> string" where
  "slice s i j = take (j - i) (drop i s)"

definition transportPayload :: "string \<Rightarrow> (interp \<times> string) option" where
  "transportPayload command =
     (let c = TrimSpace command in
      if wrapped c posixPre posixPost then Some (POSIX, slice c (length posixPre) (length c - length posixPost))
      else if wrapped c psPre psPost then Some (PowerShell, slice c (length psPre) (length c - length psPost))
      else None)"

definition CanonicalPrefix :: string where "CanonicalPrefix = ''script:''"

definition colon :: char where "colon = CHR '':''"

definition Canonical :: "string \<Rightarrow> string option" where
  "Canonical command =
     (case transportPayload command of
        None \<Rightarrow> None
      | Some (i, enc) \<Rightarrow>
          (case b64_Decode enc of
             None \<Rightarrow> None
           | Some raw \<Rightarrow> Some (CanonicalPrefix @ i @ colon # hex_EncodeToString (sha256_Sum256 raw))))"

definition shortHex :: nat where "shortHex = 16"

definition isLowerHex :: "string \<Rightarrow> bool" where
  "isLowerHex s \<longleftrightarrow>
     list_all (\<lambda>c. let n = of_char c :: nat in \<not> ((n < 48 \<or> n > 57) \<and> (n < 97 \<or> n > 102))) s"

definition ellipsis :: string where "ellipsis = [CHR 0xE2, CHR 0x80, CHR 0xA6]"

definition Short :: "string \<Rightarrow> string" where
  "Short token =
     (case CutPrefix token CanonicalPrefix of
        None \<Rightarrow> token
      | Some rest \<Rightarrow>
          (case Cut rest colon of
             None \<Rightarrow> token
           | Some (i, digest) \<Rightarrow>
               if i \<noteq> POSIX \<and> i \<noteq> PowerShell then token
               else if length digest \<noteq> 64 \<or> \<not> isLowerHex digest then token
               else CanonicalPrefix @ i @ colon # take shortHex digest @ ellipsis))"

definition isPOSIXShell :: "string \<Rightarrow> bool" where
  "isPOSIXShell c \<longleftrightarrow> c = ''sh'' \<or> c = ''bash'' \<or> c = ''zsh''"

definition containsShellControlWord :: "string \<Rightarrow> bool" where
  "containsShellControlWord command \<longleftrightarrow>
     list_ex (\<lambda>field. TrimChars field {CHR '';''} \<in> {''do'', ''done'', ''fi''}) (Fields command)"

definition POSIXShellQuoteLoss :: "string list \<Rightarrow> bool" where
  "POSIXShellQuoteLoss args \<longleftrightarrow>
     (if length args < 2 then False
      else if length args \<ge> 3 \<and> isPOSIXShell (args ! 0) \<and> args ! 1 = ''-c''
              \<and> length (Fields (join_space (drop 2 args))) > 1 then True
      else (let command = join_space args in
            Contains command '';'' \<or> Contains command ''&&'' \<or> Contains command ''||''
            \<or> containsShellControlWord command))"

definition BomlessNonASCIIPowerShell :: "string \<Rightarrow> byte list \<Rightarrow> bool" where
  "BomlessNonASCIIPowerShell remotePath data \<longleftrightarrow>
     (if \<not> EqualFold (Ext remotePath) ''.ps1'' then False
      else if take 3 data = bom then False
      else list_ex (\<lambda>b. b \<ge> 0x80) data)"

subsection \<open>Recognising what \<open>Command\<close> made\<close>

lemma slice_between [simp]: "slice (a @ b @ c) (length a) (length (a @ b @ c) - length c) = b"
  by (simp add: slice_def)

lemma HasSuffix_append [simp]: "HasSuffix (a @ b) b"
  by (auto simp: HasSuffix_iff)

lemma wrapped_intro [simp]: "wrapped (a @ b @ c) a c"
  using HasSuffix_append [of "a @ b" c] by (simp add: wrapped_def)

lemma wrapped_split: "wrapped c pre post \<longleftrightarrow> (\<exists>b. c = pre @ b @ post)"
proof
  assume w: "wrapped c pre post"
  then obtain t where t: "c = pre @ t" unfolding wrapped_def HasPrefix_iff by blast
  from w obtain u where u: "c = u @ post" unfolding wrapped_def HasSuffix_iff by blast
  have "length post \<le> length t" using w t by (simp add: wrapped_def)
  moreover have "pre @ t = u @ post" using t u by simp
  ultimately obtain b where "t = b @ post" by (auto simp: append_eq_append_conv2)
  then show "\<exists>b. c = pre @ b @ post" using t by blast
qed auto

lemma space_ends:
  "\<forall>r \<in> set space_runes. hd r \<in> {CHR 0x09, CHR 0x0A, CHR 0x0B, CHR 0x0C, CHR 0x0D, CHR 0x20, CHR 0xC2, CHR 0xE1, CHR 0xE2, CHR 0xE3}
     \<and> last r \<notin> {quote, CHR ''h''}"
  by code_simp

lemma space_first: "r \<in> set space_runes \<Longrightarrow> hd r \<in> {CHR 0x09, CHR 0x0A, CHR 0x0B, CHR 0x0C, CHR 0x0D, CHR 0x20, CHR 0xC2, CHR 0xE1, CHR 0xE2, CHR 0xE3}"
  using space_ends by blast

lemma space_last: "r \<in> set space_runes \<Longrightarrow> last r \<notin> {quote, CHR ''h''}"
  using space_ends by blast

lemma trim_transport:
  assumes "hd c = CHR ''p''" "c \<noteq> []" "last c \<in> {quote, CHR ''h''}"
  shows "TrimSpace c = c"
proof (rule TrimSpace_id)
  show "lead_space c = None" unfolding lead_space_None HasPrefix_iff
  proof (intro ballI notI, elim exE)
    fix r t assume "r \<in> set space_runes" "c = r @ t"
    then have "hd r = CHR ''p''" using assms(1) space_rune_nonempty by (metis hd_append2)
    then show False using space_first [OF \<open>r \<in> set space_runes\<close>] by simp
  qed
  show "trail_space c = None" unfolding trail_space_None HasSuffix_iff
  proof (intro ballI notI, elim exE)
    fix r t assume "r \<in> set space_runes" "c = t @ r"
    then have "last r \<in> {quote, CHR ''h''}" using assms(3) space_rune_nonempty by (metis last_appendR)
    then show False using space_last [OF \<open>r \<in> set space_runes\<close>] by blast
  qed
qed

lemma b64_no_quote: "quote \<notin> set (b64_Encode raw)"
  using b64_Encode_set [of raw] by (auto simp: b64_alphabet_def pad_def quote_def)

lemmas transport_defs = posixPre_def posixPost_def psPre_def psPost_def quote_def

lemma transport_posix: "transportPayload (posixPre @ b @ posixPost) = Some (POSIX, b)"
proof -
  have "TrimSpace (posixPre @ b @ posixPost) = posixPre @ b @ posixPost"
    by (rule trim_transport) (simp_all add: transport_defs)
  then show ?thesis by (simp add: transportPayload_def Let_def del: length_append)
qed

lemma not_wrapped_ps: "\<not> wrapped (psPre @ b @ psPost) posixPre posixPost"
  by (auto simp: wrapped_split transport_defs)

lemma transport_ps: "transportPayload (psPre @ b @ psPost) = Some (PowerShell, b)"
proof -
  have "TrimSpace (psPre @ b @ psPost) = psPre @ b @ psPost"
    by (rule trim_transport) (simp_all add: transport_defs)
  then show ?thesis using not_wrapped_ps [of b]
    by (simp add: transportPayload_def Let_def del: length_append)
qed

definition token :: "interp \<Rightarrow> byte list \<Rightarrow> string" where
  "token i raw = CanonicalPrefix @ i @ colon # hex_EncodeToString (sha256_Sum256 raw)"

lemma Canonical_Command:
  assumes "Command i script = Inr cmd"
  obtains raw where "payload i script = Inr raw" "Canonical cmd = Some (token i raw)"
    "length cmd \<le> maxCommand"
proof -
  from assms obtain raw where raw: "payload i script = Inr raw"
    by (auto simp: Command_def split: sum.splits)
  then have i: "i = PowerShell \<or> i = POSIX" by (auto simp: payload_def split: if_splits)
  have cmd: "cmd = (if i = PowerShell then psPre @ b64_Encode raw @ psPost
                    else posixPre @ b64_Encode raw @ posixPost)" "length cmd \<le> maxCommand"
    using assms raw by (auto simp: Command_def Let_def split: if_splits)
  have "Canonical cmd = Some (token i raw)"
    using i unfolding cmd(1) by (auto simp: Canonical_def token_def transport_posix transport_ps)
  then show ?thesis using that raw cmd(2) by blast
qed

lemma TrimSpace_transport [simp]: "transportPayload (TrimSpace c) = transportPayload c"
  by (simp add: transportPayload_def)

lemma Canonical_TrimSpace [simp]: "Canonical (TrimSpace c) = Canonical c"
  by (simp add: Canonical_def)

text \<open>The slices of \<open>transportPayload\<close> are in range, so it does not panic.\<close>

lemma transport_in_range:
  assumes "wrapped c pre post"
  shows "length pre \<le> length c - length post" "length c - length post \<le> length c"
  using assms unfolding wrapped_def by linarith+

subsection \<open>Tokens\<close>

lemma hex_digit_lower: "n < 16 \<Longrightarrow> isLowerHex [hex_digit n]"
proof -
  have "\<forall>n \<in> {..<16}. isLowerHex [hex_digit n]"
    by (simp add: lessThan_nat_numeral lessThan_Suc isLowerHex_def hex_digit_def hextable_def Let_def)
  then show "n < 16 \<Longrightarrow> isLowerHex [hex_digit n]" by blast
qed

lemma isLowerHex_simps [simp]: "isLowerHex []" "isLowerHex (s @ t) \<longleftrightarrow> isLowerHex s \<and> isLowerHex t"
  by (simp_all add: isLowerHex_def)

lemma hex_byte_lower: "isLowerHex (hex_byte b)"
  using hex_digit_lower [of "unat b div 16"] hex_digit_lower [of "unat b mod 16"] unat_byte [of b]
  unfolding hex_byte_def by (auto simp: isLowerHex_def)

lemma hex_lower: "isLowerHex (hex_EncodeToString bs)"
  by (induction bs) (auto simp: hex_EncodeToString_def hex_byte_lower)

lemma Canonical_shape:
  assumes "Canonical c = Some t"
  obtains i raw where "i = POSIX \<or> i = PowerShell" "t = token i raw"
  using assms
  by (auto simp: Canonical_def transportPayload_def token_def Let_def split: option.splits if_splits)

lemma colon_names: "colon \<notin> set POSIX" "colon \<notin> set PowerShell"
  by (simp_all add: colon_def POSIX_def PowerShell_def)

lemma Short_token:
  assumes "i = POSIX \<or> i = PowerShell"
  shows "Short (token i raw) =
    CanonicalPrefix @ i @ colon # take shortHex (hex_EncodeToString (sha256_Sum256 raw)) @ ellipsis"
proof -
  have "colon \<notin> set i" using assms colon_names by blast
  then show ?thesis using assms
    by (auto simp: Short_def token_def Cut_append hex_lower)
qed

text \<open>\<open>Short\<close> hides nothing that is not a token: what it changes has the shape of one.\<close>

lemma Short_changes:
  assumes "Short t \<noteq> t"
  obtains i digest where "i = POSIX \<or> i = PowerShell" "t = CanonicalPrefix @ i @ colon # digest"
    "length digest = 64" "isLowerHex digest"
proof -
  from assms obtain rest i digest where r: "CutPrefix t CanonicalPrefix = Some rest"
    "Cut rest colon = Some (i, digest)" "i = POSIX \<or> i = PowerShell" "length digest = 64" "isLowerHex digest"
    by (auto simp: Short_def split: option.splits if_splits prod.splits)
  have "rest = i @ colon # digest"
  proof -
    have "colon \<in> set rest" "i = takeWhile (\<lambda>x. x \<noteq> colon) rest"
      "digest = drop 1 (dropWhile (\<lambda>x. x \<noteq> colon) rest)"
      using r(2) by (auto simp: Cut_def split: if_splits)
    moreover from this have "dropWhile (\<lambda>x. x \<noteq> colon) rest = colon # digest"
      by (metis (mono_tags, lifting) dropWhile_eq_Nil_conv hd_dropWhile list.exhaust_sel drop_0 drop_Suc One_nat_def)
    ultimately show ?thesis by (metis takeWhile_dropWhile_id)
  qed
  moreover have "t = CanonicalPrefix @ rest"
    using r(1) by (auto simp: CutPrefix_def HasPrefix_iff split: if_splits)
  ultimately show ?thesis using that r by blast
qed

end
