(* ===== verification/Policy.thy ===== *)
theory Policy
  imports Script
begin

text \<open>
  \<open>src/internal/policy\<close>: the permission engine of the controlled device. Modes,
  scopes and kinds are strings in the code, and rules read back from the file may
  hold any, so they are strings here.

  The shell parser (\<open>mvdan.cc/sh\<close>) is the argument \<open>sh\<close>: what it makes of a command
  line is a list of statements with the attributes the code looks at and the nodes
  its walk visits. Nothing is assumed of it. The file system is what the files of the
  engine hold (\<open>policy_disk\<close>) and how each write ends. What \<open>encoding/json\<close> keeps of a
  rule is \<open>json_rule\<close>: the strings, with invalid UTF-8 replaced.
\<close>

type_synonym mode = string
type_synonym scope = string
type_synonym kind = string

definition ModeNormal :: mode where "ModeNormal = ''normal''"
definition ModeBypass :: mode where "ModeBypass = ''bypass''"
definition ScopeDir :: scope where "ScopeDir = ''dir''"
definition ScopeGlobal :: scope where "ScopeGlobal = ''global''"
definition KindExec :: kind where "KindExec = ''exec''"
definition KindRead :: kind where "KindRead = ''read''"
definition KindWrite :: kind where "KindWrite = ''write''"
definition KindLogs :: kind where "KindLogs = ''logs''"
definition KindExecElevated :: kind where "KindExecElevated = ''exec-elevated''"

lemmas kind_defs = KindExec_def KindRead_def KindWrite_def KindLogs_def KindExecElevated_def
lemmas scope_defs = ScopeDir_def ScopeGlobal_def

lemma kinds_distinct [simp]:
  "KindExec \<noteq> KindRead" "KindExec \<noteq> KindWrite" "KindExec \<noteq> KindLogs" "KindExec \<noteq> KindExecElevated"
  "KindRead \<noteq> KindExec" "KindRead \<noteq> KindWrite" "KindRead \<noteq> KindLogs" "KindRead \<noteq> KindExecElevated"
  "KindWrite \<noteq> KindExec" "KindWrite \<noteq> KindRead" "KindWrite \<noteq> KindLogs" "KindWrite \<noteq> KindExecElevated"
  "KindLogs \<noteq> KindExec" "KindLogs \<noteq> KindRead" "KindLogs \<noteq> KindWrite" "KindLogs \<noteq> KindExecElevated"
  "KindExecElevated \<noteq> KindExec" "KindExecElevated \<noteq> KindRead" "KindExecElevated \<noteq> KindWrite"
  "KindExecElevated \<noteq> KindLogs" "ScopeDir \<noteq> ScopeGlobal" "ScopeGlobal \<noteq> ScopeDir"
  by (simp_all add: kind_defs scope_defs)

record request =
  q_kind :: kind
  q_cmd :: string
  q_path :: string
  q_cwd :: string
  q_peer :: string
  q_via :: string

record rule =
  r_kind :: kind
  pattern :: string
  r_dir :: string
  r_scope :: scope
  added :: gotime

record decision =
  allow :: bool
  remember :: bool
  d_scope :: scope

record engine =
  rules :: "rule list"
  e_mode :: mode
  e_path :: string
  modePath :: string
  psShell :: bool

subsection \<open>Matching\<close>

datatype syn_node = CmdSubst | ProcSubst | OtherNode

record stmt =
  negated :: bool
  background :: bool
  coprocess :: bool
  disown :: bool
  semicolon :: bool
  redirs :: nat
  is_call :: bool
  s_nodes :: "syn_node list"

type_synonym parser = "string \<Rightarrow> stmt list option"

definition isSingleSimpleCommand :: "parser \<Rightarrow> string \<Rightarrow> bool" where
  "isSingleSimpleCommand sh command \<longleftrightarrow>
     (case sh command of
        Some [s] \<Rightarrow>
          if negated s \<or> background s \<or> coprocess s \<or> disown s \<or> semicolon s \<or> redirs s \<noteq> 0 then False
          else if \<not> is_call s then False
          else \<not> list_ex (\<lambda>n. n = CmdSubst \<or> n = ProcSubst) (s_nodes s)
      | _ \<Rightarrow> False)"

definition ps_sequences :: "string list" where
  "ps_sequences = [''@('', ''$('', ''&{'', ''.{'', ''${'', [CHR 0x60], '';'', ''|'', ''&'']"

definition hasPowerShellEval :: "string \<Rightarrow> bool" where
  "hasPowerShellEval c \<longleftrightarrow> list_ex (\<lambda>s. Contains c s) ps_sequences"

definition star :: string where "star = ''*''"
definition space_star :: string where "space_star = '' *''"

definition matchCommand :: "parser \<Rightarrow> string \<Rightarrow> string \<Rightarrow> bool \<Rightarrow> bool" where
  "matchCommand sh p c ps =
     (let p = TrimSpace p; c = TrimSpace c in
      if HasPrefix p CanonicalPrefix then Canonical c = Some p
      else if c = p then True
      else if p = star then True
      else if \<not> isSingleSimpleCommand sh c then False
      else if ps \<and> hasPowerShellEval c then False
      else if HasSuffix p space_star then HasPrefix c (take (length p - 1) p)
      else HasPrefix c (p @ '' ''))"

definition Within :: "string \<Rightarrow> string \<Rightarrow> bool" where
  "Within dir path \<longleftrightarrow>
     (if dir = [] then True
      else Clean path = Clean dir \<or> HasPrefix (Clean path) (Clean dir @ [slash]))"

definition ruleMatchesShell :: "parser \<Rightarrow> rule \<Rightarrow> request \<Rightarrow> bool \<Rightarrow> bool" where
  "ruleMatchesShell sh r req ps =
     (let k = q_kind req in
      if k = KindExec \<or> k = KindExecElevated then
        (if r_kind r \<noteq> k \<or> \<not> matchCommand sh (pattern r) (q_cmd req) ps then False
         else r_scope r = ScopeGlobal \<or> (r_scope r = ScopeDir \<and> r_dir r = q_cwd req \<and> q_cwd req \<noteq> []))
      else if k = KindRead then (r_kind r = KindRead \<or> r_kind r = KindWrite) \<and> Within (pattern r) (q_path req)
      else if k = KindWrite then r_kind r = KindWrite \<and> Within (pattern r) (q_path req)
      else if k = KindLogs then r_kind r = KindLogs \<and> r_scope r = ScopeGlobal
      else False)"

definition Allowed :: "parser \<Rightarrow> engine \<Rightarrow> request \<Rightarrow> bool" where
  "Allowed sh e req = list_ex (\<lambda>r. ruleMatchesShell sh r req (psShell e)) (rules e)"

definition AllowedFileRoot :: "parser \<Rightarrow> engine \<Rightarrow> request \<Rightarrow> string option" where
  "AllowedFileRoot sh e req =
     (if q_kind req \<noteq> KindRead \<and> q_kind req \<noteq> KindWrite then None
      else map_option pattern (find (\<lambda>r. ruleMatchesShell sh r req (psShell e)) (rules e)))"

definition Bypasses :: "engine \<Rightarrow> kind \<Rightarrow> bool \<Rightarrow> bool" where
  "Bypasses e kind elevationEnabled =
     (if e_mode e \<noteq> ModeBypass then False
      else if kind = KindExecElevated then elevationEnabled else True)"

definition SetPowerShell :: "bool \<Rightarrow> engine \<Rightarrow> engine" where
  "SetPowerShell v e = e\<lparr>psShell := v\<rparr>"

subsection \<open>What is remembered and what is shown\<close>

definition CommandPattern :: "string \<Rightarrow> string" where
  "CommandPattern cmd =
     (let cmd = TrimSpace cmd in case Canonical cmd of Some tok \<Rightarrow> tok | None \<Rightarrow> cmd)"

definition CommandLabel :: "string \<Rightarrow> string" where
  "CommandLabel cmd =
     (let cmd = TrimSpace cmd in case Canonical cmd of Some tok \<Rightarrow> Short tok | None \<Rightarrow> cmd)"

definition RuleFor :: "gotime \<Rightarrow> request \<Rightarrow> scope \<Rightarrow> rule" where
  "RuleFor now req scope =
     (let r = \<lparr>r_kind = q_kind req, pattern = [], r_dir = [], r_scope = scope, added = now\<rparr>;
          k = q_kind req in
      if k = KindExec \<or> k = KindExecElevated then
        (let r = r\<lparr>pattern := CommandPattern (q_cmd req)\<rparr> in
         if scope = ScopeDir \<and> q_cwd req \<noteq> [] then r\<lparr>r_dir := q_cwd req\<rparr>
         else r\<lparr>r_scope := ScopeGlobal\<rparr>)
      else if k = KindRead \<or> k = KindWrite then
        (if scope = ScopeDir then r\<lparr>pattern := Dir (q_path req)\<rparr> else r\<lparr>pattern := []\<rparr>)
      else if k = KindLogs then r\<lparr>pattern := star, r_scope := ScopeGlobal\<rparr>
      else r)"

text \<open>The console approver on the line it read; the other two answer always the same.\<close>

definition once :: decision where "once = \<lparr>allow = True, remember = False, d_scope = []\<rparr>"
definition deny :: decision where "deny = \<lparr>allow = False, remember = False, d_scope = []\<rparr>"

definition console_Ask :: "string \<Rightarrow> request \<Rightarrow> decision" where
  "console_Ask line req =
     (let l = ToLower (TrimSpace line) in
      if l = ''y'' \<or> l = ''yes'' then once
      else if l = ''a'' then
        (if q_kind req = KindLogs then once else \<lparr>allow = True, remember = True, d_scope = ScopeDir\<rparr>)
      else if l = ''g'' then \<lparr>allow = True, remember = True, d_scope = ScopeGlobal\<rparr>
      else deny)"

definition allow_Ask :: "request \<Rightarrow> decision" where "allow_Ask req = once"
definition deny_Ask :: "request \<Rightarrow> decision" where "deny_Ask req = deny"

subsection \<open>The files of the engine\<close>

datatype rules_file = Missing | Unreadable | Corrupt | Saved "rule list"

record policy_disk =
  disk_rules :: rules_file
  disk_mode :: "string option"

text \<open>How a write ends: done, or failed leaving this behind.\<close>

datatype mode_write = Written | WriteFailed "string option"
datatype rules_write = Renamed | TmpFailed | RenameFailed

datatype open_error = NoConfigDir | ReadError | JsonError

definition json_rule :: "rule \<Rightarrow> rule" where
  "json_rule r = r\<lparr>r_kind := json_string (r_kind r), pattern := json_string (pattern r),
     r_dir := json_string (r_dir r), r_scope := json_string (r_scope r)\<rparr>"

definition saveMode :: "mode_write \<Rightarrow> engine \<Rightarrow> policy_disk \<Rightarrow> policy_disk" where
  "saveMode w e d =
     (if modePath e = [] then d
      else case w of
        Written \<Rightarrow> d\<lparr>disk_mode := Some (e_mode e @ [CHR 0x0A])\<rparr>
      | WriteFailed left \<Rightarrow> d\<lparr>disk_mode := left\<rparr>)"

definition loadMode :: "policy_disk \<Rightarrow> mode" where
  "loadMode d =
     (case disk_mode d of
        None \<Rightarrow> []
      | Some b \<Rightarrow> (let m = TrimSpace b in if m = ModeNormal \<or> m = ModeBypass then m else []))"

definition Open_engine ::
  "mode_write \<Rightarrow> string option \<Rightarrow> string \<Rightarrow> mode \<Rightarrow> policy_disk \<Rightarrow> (open_error + engine) \<times> policy_disk" where
  "Open_engine w configDir name m d =
     (case configDir of
        None \<Rightarrow> (Inl NoConfigDir, d)
      | Some dir \<Rightarrow>
          (let explicit = (m \<noteq> []);
               m = (if explicit then m else loadMode d);
               m = (if m = [] then ModeNormal else m);
               e = \<lparr>rules = [], e_mode = m, e_path = Clean (dir @ slash # name),
                    modePath = Clean (dir @ slash # ''mode''), psShell = False\<rparr>;
               d = (if explicit then saveMode w e d else d)
           in (case disk_rules d of
                 Missing \<Rightarrow> (Inr e, d)
               | Unreadable \<Rightarrow> (Inl ReadError, d)
               | Corrupt \<Rightarrow> (Inl JsonError, d)
               | Saved rs \<Rightarrow> (Inr (e\<lparr>rules := rs\<rparr>), d))))"

definition SetMode :: "mode_write \<Rightarrow> mode \<Rightarrow> engine \<Rightarrow> policy_disk \<Rightarrow> engine \<times> policy_disk" where
  "SetMode w m e d = (let e = e\<lparr>e_mode := m\<rparr> in (e, saveMode w e d))"

text \<open>\<open>save\<close> writes a temporary file and renames it over the rules.\<close>

definition save :: "rules_write \<Rightarrow> engine \<Rightarrow> policy_disk \<Rightarrow> bool \<times> policy_disk" where
  "save w e d =
     (case w of
        TmpFailed \<Rightarrow> (False, d)
      | RenameFailed \<Rightarrow> (False, d)
      | Renamed \<Rightarrow> (True, d\<lparr>disk_rules := Saved (map json_rule (rules e))\<rparr>))"

definition append_rule :: "rule \<Rightarrow> engine \<Rightarrow> engine" where
  "append_rule r e = e\<lparr>rules := rules e @ [r]\<rparr>"

definition Add ::
  "gotime \<Rightarrow> rules_write \<Rightarrow> rule \<Rightarrow> engine \<Rightarrow> policy_disk \<Rightarrow> engine \<times> bool \<times> policy_disk" where
  "Add now w r e d =
     (let r = (if IsZero (added r) then r\<lparr>added := now\<rparr> else r);
          e = append_rule r e
      in (e, save w e d))"

definition List :: "engine \<Rightarrow> rule list" where "List e = rules e"

definition Remove ::
  "rules_write \<Rightarrow> int \<Rightarrow> engine \<Rightarrow> policy_disk \<Rightarrow> engine \<times> bool \<times> policy_disk" where
  "Remove w i e d =
     (if i < 0 \<or> i \<ge> int (length (rules e)) then (e, False, d)
      else (let n = nat i; e = e\<lparr>rules := take n (rules e) @ drop (n + 1) (rules e)\<rparr> in (e, save w e d)))"

subsection \<open>What a permission engine promises its callers\<close>

text \<open>
  The contract between the engine and the agent that asks it: adding a rule adds
  exactly what the rule covers, and a rule covers an elevated request only if it is
  a rule for elevated commands.
\<close>

locale permission_engine =
  fixes allowed :: "'e \<Rightarrow> 'q \<Rightarrow> bool"
    and add :: "'r \<Rightarrow> 'e \<Rightarrow> 'e"
    and covers :: "'e \<Rightarrow> 'r \<Rightarrow> 'q \<Rightarrow> bool"
    and elevated_request :: "'q \<Rightarrow> bool"
    and elevated_rule :: "'r \<Rightarrow> bool"
  assumes allowed_add: "allowed (add r e) q \<longleftrightarrow> allowed e q \<or> covers e r q"
    and covers_add: "covers (add r e) = covers e"
    and covers_class: "covers e r q \<Longrightarrow> elevated_request q \<longleftrightarrow> elevated_rule r"
begin

lemma covers_adds: "covers (fold add rs e) = covers e"
  by (induction rs arbitrary: e) (simp_all add: covers_add)

lemma allowed_adds: "allowed (fold add rs e) q \<longleftrightarrow> allowed e q \<or> (\<exists>r \<in> set rs. covers e r q)"
  by (induction rs arbitrary: e) (auto simp: allowed_add covers_add)

lemma adds_order: "set rs = set rs' \<Longrightarrow> allowed (fold add rs e) q = allowed (fold add rs' e) q"
  by (simp add: allowed_adds)

lemma plain_rules_never_elevate:
  assumes "\<forall>r \<in> set rs. \<not> elevated_rule r" "elevated_request q"
  shows "allowed (fold add rs e) q = allowed e q"
  using assms covers_class by (auto simp: allowed_adds)

lemma elevated_rules_only_elevate:
  assumes "\<forall>r \<in> set rs. elevated_rule r" "\<not> elevated_request q"
  shows "allowed (fold add rs e) q = allowed e q"
  using assms covers_class by (auto simp: allowed_adds)

end

interpretation pe: permission_engine "Allowed sh" append_rule
  "\<lambda>e r q. ruleMatchesShell sh r q (psShell e)"
  "\<lambda>q. q_kind q = KindExecElevated" "\<lambda>r. r_kind r = KindExecElevated" for sh
  by unfold_locales
    (auto simp: Allowed_def append_rule_def ruleMatchesShell_def Let_def split: if_splits)

subsection \<open>Commands\<close>

lemma TrimSpace_pattern [simp]: "TrimSpace (CommandPattern c) = CommandPattern c"
proof (cases "Canonical c")
  case (Some t)
  then obtain i raw where t: "i = POSIX \<or> i = PowerShell" "t = token i raw" by (rule Canonical_shape)
  have nolead: "lead_space t = None" unfolding lead_space_None HasPrefix_iff
  proof (intro ballI notI, elim exE)
    fix r u assume r: "r \<in> set space_runes" "t = r @ u"
    have "hd t = CHR ''s''" by (simp add: t(2) token_def CanonicalPrefix_def)
    then have "hd r = CHR ''s''" using r space_rune_nonempty by (metis hd_append2)
    then show False using space_first [OF r(1)] by simp
  qed
  have last: "isLowerHex [last t]"
  proof -
    let ?h = "hex_EncodeToString (sha256_Sum256 raw)"
    have "?h \<noteq> []" by (metis length_0_conv length_Sum256 length_hex_EncodeToString mult_eq_0_iff zero_neq_numeral)
    then have "last t = last ?h" by (simp add: t(2) token_def)
    moreover have "?h = butlast ?h @ [last ?h]" using \<open>?h \<noteq> []\<close> by simp
    ultimately show ?thesis using hex_lower isLowerHex_simps(2) by metis
  qed
  have notrail: "trail_space t = None" unfolding trail_space_None HasSuffix_iff
  proof (intro ballI notI, elim exE)
    fix r u assume r: "r \<in> set space_runes" "t = u @ r"
    then have "last r = last t" using space_rune_nonempty by (metis last_appendR)
    moreover have "\<forall>r \<in> set space_runes. \<not> isLowerHex [last r]" by code_simp
    ultimately show False using last r(1) by metis
  qed
  show ?thesis using TrimSpace_id [OF nolead notrail] Some by (simp add: CommandPattern_def)
qed (simp add: CommandPattern_def)

lemma token_prefix: "HasPrefix (token i raw) CanonicalPrefix"
  by (simp add: token_def)

text \<open>A remembered script authorises the commands that carry that script, and no other.\<close>

lemma script_rule_exact:
  assumes "Canonical cmd = Some tok"
  shows "matchCommand sh (CommandPattern cmd) c ps \<longleftrightarrow> Canonical c = Some tok"
proof -
  have "HasPrefix tok CanonicalPrefix" using assms token_prefix by (elim Canonical_shape) simp
  moreover have "CommandPattern cmd = tok" using assms by (simp add: CommandPattern_def)
  moreover have "TrimSpace tok = tok" using TrimSpace_pattern [of cmd] calculation(2) by simp
  ultimately show ?thesis by (simp add: matchCommand_def)
qed

text \<open>What a rule for a plain command covers besides that command itself.\<close>

lemma prefix_rule_narrow:
  assumes "matchCommand sh p c ps" "TrimSpace c \<noteq> TrimSpace p" "TrimSpace p \<noteq> star"
    and "\<not> HasPrefix (TrimSpace p) CanonicalPrefix"
  shows "isSingleSimpleCommand sh (TrimSpace c)"
    and "ps \<Longrightarrow> \<not> hasPowerShellEval (TrimSpace c)"
    and "\<exists>args. TrimSpace c = (if HasSuffix (TrimSpace p) space_star then butlast (TrimSpace p)
                     else TrimSpace p @ '' '') @ args"
  using assms by (auto simp: matchCommand_def Let_def HasPrefix_iff butlast_conv_take split: if_splits)

definition rememberable :: "request \<Rightarrow> bool" where
  "rememberable q \<longleftrightarrow>
     Canonical (q_cmd q) \<noteq> None \<or> \<not> HasPrefix (TrimSpace (q_cmd q)) CanonicalPrefix"

lemma pattern_matches_itself:
  assumes "rememberable q"
  shows "matchCommand sh (CommandPattern (q_cmd q)) (q_cmd q) ps"
proof (cases "Canonical (q_cmd q)")
  case None
  then show ?thesis using assms by (simp add: rememberable_def matchCommand_def CommandPattern_def)
next
  case (Some tok)
  then show ?thesis by (simp add: script_rule_exact)
qed

subsection \<open>Directories\<close>

lemma Within_abs:
  assumes "IsAbs d" "IsAbs p" "path_elems d \<noteq> []"
  shows "Within d p \<longleftrightarrow> prefix (path_elems d) (path_elems p)"
proof -
  have "d \<noteq> []" using assms(1) by (auto simp: IsAbs_def HasPrefix_def)
  then show ?thesis
    using abs_prefix_iff [OF assms] Clean_eq_iff [OF assms(1,2)]
    by (auto simp: Within_def prefix_def)
qed

text \<open>A directory rule covers what is under the directory after \<open>..\<close> is resolved, and nothing else.\<close>

lemma Within_no_escape:
  assumes "IsAbs d" "IsAbs p" "path_elems d \<noteq> []" "Within d p"
  obtains below where "path_elems p = path_elems d @ below" "\<forall>e \<in> set below. proper_elem e"
proof -
  from assms(4) obtain below where b: "path_elems p = path_elems d @ below"
    unfolding Within_abs [OF assms(1-3)] prefix_def by blast
  have "\<forall>e \<in> set below. proper_elem e"
    using path_elems_proper [OF assms(2)] b by auto
  then show ?thesis using that b by blast
qed

lemma up_to_last_slash_split:
  assumes "slash \<in> set p"
  obtains l where "p = up_to_last_slash p @ l" "slash \<notin> set l" "up_to_last_slash p \<noteq> []"
proof -
  have 1: "p = up_to_last_slash p @ rev (takeWhile (\<lambda>c. c \<noteq> slash) (rev p))"
    unfolding up_to_last_slash_def by (metis rev_append rev_rev_ident takeWhile_dropWhile_id)
  have 2: "slash \<notin> set (rev (takeWhile (\<lambda>c. c \<noteq> slash) (rev p)))"
    by (auto dest: set_takeWhileD)
  have 3: "up_to_last_slash p \<noteq> []"
    using assms unfolding up_to_last_slash_def by (auto simp: dropWhile_eq_Nil_conv)
  show ?thesis by (rule that [OF 1 2 3])
qed

lemma clean_elems_snoc:
  "clean_elems r acc (es @ [e]) =
     (if e = [] \<or> e = dot then clean_elems r acc es
      else if e = dotdot then clean_elems r acc (es @ [e])
      else clean_elems r acc es @ [e])"
  by (induction r acc es rule: clean_elems.induct) (auto split: list.splits)


lemma Dir_elems:
  assumes "IsAbs p" "last (splitc slash p) \<noteq> dotdot"
  shows "IsAbs (Dir p)"
    and "path_elems p = path_elems (Dir p) @
      (let l = last (splitc slash p) in if l = [] \<or> l = dot then [] else [l])"
proof -
  have "slash \<in> set p" using assms(1) by (auto simp: IsAbs_def HasPrefix_iff)
  then obtain l where l: "p = up_to_last_slash p @ l" "slash \<notin> set l" "up_to_last_slash p \<noteq> []"
    by (rule up_to_last_slash_split)
  let ?u = "butlast (up_to_last_slash p)"
  have "last (up_to_last_slash p) = slash"
    using l(3) hd_dropWhile [of "\<lambda>c. c \<noteq> slash" "rev p"] unfolding up_to_last_slash_def
    by (simp add: last_rev)
  then have u: "up_to_last_slash p = ?u @ [slash]" using l(3) by (metis append_butlast_last_id)
  have p: "p = ?u @ slash # l" using l(1) u by (metis append.assoc append_Cons append_Nil)
  have sp: "splitc slash p = splitc slash ?u @ [l]"
    using splitc_append [of slash ?u l] splitc_free [OF l(2)] p by metis
  have su: "splitc slash (up_to_last_slash p) = splitc slash ?u @ [[]]"
    using splitc_append [of slash ?u "[]"] u by simp
  have abs: "IsAbs (up_to_last_slash p)"
    using assms(1) l(1,3) unfolding IsAbs_def HasPrefix_iff by (cases "up_to_last_slash p") auto
  then show "IsAbs (Dir p)" by (simp add: Dir_def)
  have "path_elems (Dir p) = path_elems (up_to_last_slash p)" using abs by (simp add: Dir_def)
  also have "\<dots> = clean_elems True [] (splitc slash ?u)"
    using abs by (simp add: path_elems_def su clean_elems_snoc)
  finally show "path_elems p = path_elems (Dir p) @
      (let l = last (splitc slash p) in if l = [] \<or> l = dot then [] else [l])"
    using assms by (simp add: path_elems_def sp clean_elems_snoc)
qed

lemma Within_Dir:
  assumes "IsAbs p" "last (splitc slash p) \<noteq> dotdot" "path_elems (Dir p) \<noteq> []"
  shows "Within (Dir p) p"
  using Dir_elems [OF assms(1,2)] Within_abs [OF _ assms(1,3)] by (simp add: prefix_def)

lemma joinc_not_led:
  assumes "\<forall>e \<in> set es. e \<noteq> [] \<and> c \<notin> set e"
  shows "\<not> HasPrefix (joinc c es) [c]"
proof (cases es)
  case (Cons e rest)
  then have "e \<noteq> [] \<and> c \<notin> set e" using assms by simp
  then obtain x w where e: "e = x # w" "x \<noteq> c" by (cases e) auto
  then show ?thesis unfolding Cons by (cases rest) (simp_all add: HasPrefix_def)
qed (simp add: HasPrefix_def)

text \<open>
  The root directory is the exception: \<open>Clean\<close> keeps its slash, so nothing but the
  root itself is under it, and a rule remembered for a file of the root matches nothing.
\<close>

lemma Within_root:
  assumes "IsAbs p"
  shows "Within [slash] p \<longleftrightarrow> path_elems p = []"
proof -
  have r: "path_elems [slash] = []" by code_simp
  have c: "Clean p = slash # joinc slash (path_elems p)" by (rule Clean_abs [OF assms])
  have "\<forall>e \<in> set (path_elems p). e \<noteq> [] \<and> slash \<notin> set e"
    using path_elems_good by (auto simp: good_elem_def)
  then have "\<not> HasPrefix (joinc slash (path_elems p)) [slash]"
    by (rule joinc_not_led)
  then have "\<not> HasPrefix (Clean p) ([slash] @ [slash])" using c by (simp add: HasPrefix_def)
  moreover have "Clean p = [slash] \<longleftrightarrow> path_elems p = []"
    using Clean_eq_iff [of "[slash]" p] assms r by (simp add: Clean_def)
  ultimately show ?thesis using r by (simp add: Within_def Clean_def)
qed

subsection \<open>Remembering\<close>

definition fits :: "request \<Rightarrow> scope \<Rightarrow> bool" where
  "fits q scope \<longleftrightarrow>
     (if q_kind q = KindExec \<or> q_kind q = KindExecElevated then rememberable q
      else if q_kind q = KindRead \<or> q_kind q = KindWrite then
        scope \<noteq> ScopeDir \<or> (IsAbs (q_path q) \<and> last (splitc slash (q_path q)) \<noteq> dotdot
                            \<and> path_elems (Dir (q_path q)) \<noteq> [])
      else q_kind q = KindLogs)"

lemma RuleFor_covers:
  assumes "fits q scope"
  shows "ruleMatchesShell sh (RuleFor now q scope) q ps"
proof -
  have "Within [] p" for p by (simp add: Within_def)
  then show ?thesis using assms pattern_matches_itself [of q sh ps] Within_Dir [of "q_path q"]
    by (auto simp: RuleFor_def ruleMatchesShell_def fits_def Let_def split: if_splits)
qed

lemma match_added [simp]: "ruleMatchesShell sh (r\<lparr>added := t\<rparr>) q ps = ruleMatchesShell sh r q ps"
  by (simp add: ruleMatchesShell_def)

lemma Allowed_Add: "Add now w r e d = (e', ok, d') \<Longrightarrow>
    Allowed sh e' q \<longleftrightarrow> Allowed sh e q \<or> ruleMatchesShell sh r q (psShell e)"
  unfolding Add_def Let_def by (elim Pair_inject) (auto simp: pe.allowed_add split: if_splits)

subsection \<open>Restarting\<close>

definition printable :: "rule \<Rightarrow> bool" where
  "printable r \<longleftrightarrow> utf8_Valid (bytes (r_kind r)) \<and> utf8_Valid (bytes (pattern r))
     \<and> utf8_Valid (bytes (r_dir r)) \<and> utf8_Valid (bytes (r_scope r))"

lemma json_rule_id: "printable r \<Longrightarrow> json_rule r = r"
  by (simp add: printable_def json_rule_def json_string_valid)

lemma json_rules_id: "\<forall>r \<in> set rs. printable r \<Longrightarrow> map json_rule rs = rs"
  by (simp add: json_rule_id map_idI)

lemma loadMode_saved:
  assumes "modePath e \<noteq> []" "e_mode e = ModeNormal \<or> e_mode e = ModeBypass"
  shows "loadMode (saveMode Written e d) = e_mode e"
proof -
  have "TrimSpace (ModeNormal @ [CHR 0x0A]) = ModeNormal" "TrimSpace (ModeBypass @ [CHR 0x0A]) = ModeBypass"
    by code_simp+
  then show ?thesis using assms by (auto simp: saveMode_def loadMode_def Let_def)
qed

lemma disk_fields [simp]:
  "disk_rules (saveMode w e d) = disk_rules d" "disk_mode (snd (save rw e d)) = disk_mode d"
  by (auto simp: saveMode_def save_def split: mode_write.split rules_write.split)

section \<open>Properties of scripts and of the permission engine\<close>


definition echo_hi :: "byte list" where
  "echo_hi = [101, 99, 104, 111, 32, 104, 105]"

definition echo_hi_cmd :: string where
  "echo_hi_cmd = posixPre @ ''ZWNobyBoaQ=='' @ posixPost"

lemma echo_hi_Command: "Command POSIX echo_hi = Inr echo_hi_cmd"
  by code_simp


text \<open>
  C26. A rule remembered for a script authorises the commands of its kind that carry a
  script with the same digest, in the same directory where the scope is one, and no
  other command: neither one that resembles it nor one whose text is the token.
\<close>

theorem script_rule_grants_that_script:
  assumes "q_kind q = KindExec \<or> q_kind q = KindExecElevated" and "Canonical (q_cmd q) = Some tok"
  shows "ruleMatchesShell sh (RuleFor now q sc) q' ps \<longleftrightarrow>
     q_kind q' = q_kind q \<and> Canonical (q_cmd q') = Some tok
     \<and> (sc = ScopeDir \<and> q_cwd q \<noteq> [] \<longrightarrow> q_cwd q' = q_cwd q)"
  using assms(1)
  by (auto simp: RuleFor_def ruleMatchesShell_def Let_def script_rule_exact [OF assms(2)])

definition exec_req :: "string \<Rightarrow> string \<Rightarrow> request" where
  "exec_req cmd cwd = \<lparr>q_kind = KindExec, q_cmd = cmd, q_path = [], q_cwd = cwd, q_peer = [], q_via = []\<rparr>"

theorem script_rule_grants_that_script_witness:
  "\<exists>tok. Canonical echo_hi_cmd = Some tok
     \<and> \<not> ruleMatchesShell (\<lambda>_. None) (RuleFor 1 (exec_req echo_hi_cmd ''/a'') ScopeDir) (exec_req echo_hi_cmd ''/b'') False
     \<and> \<not> ruleMatchesShell (\<lambda>_. None) (RuleFor 1 (exec_req echo_hi_cmd ''/a'') ScopeDir) (exec_req tok ''/a'') False"
proof -
  obtain raw where t: "Canonical echo_hi_cmd = Some (token POSIX raw)"
    using echo_hi_Command by (rule Canonical_Command)
  have "hd (TrimSpace (token POSIX raw)) = CHR ''s''"
    using TrimSpace_pattern [of echo_hi_cmd] t by (simp add: CommandPattern_def token_def CanonicalPrefix_def)
  then have "transportPayload (token POSIX raw) = None"
    by (auto simp: transportPayload_def Let_def wrapped_split transport_defs)
  then have n: "Canonical (token POSIX raw) = None" by (simp add: Canonical_def)
  show ?thesis
    using t n script_rule_grants_that_script [of "exec_req echo_hi_cmd ''/a''" "token POSIX raw"]
    by (auto simp: exec_req_def)
qed

text \<open>
  Remembering works: after the engine added the rule for a request, at the scope
  the approver chose, that request is allowed, and so is everything that was allowed.
  What the hypothesis leaves out is a plain command that starts with \<open>script:\<close>, a
  directory rule for a file of the root directory and for a path that ends in \<open>..\<close>.
\<close>

theorem remembered_request_is_allowed:
  assumes "fits q sc" and "Add now w (RuleFor now q sc) e d = (e', ok, d')"
  shows "Allowed sh e' q \<and> (Allowed sh e q' \<longrightarrow> Allowed sh e' q')"
  using RuleFor_covers [OF assms(1)] by (simp add: Allowed_Add [OF assms(2)])

definition fresh_engine :: engine where
  "fresh_engine = \<lparr>rules = [], e_mode = ModeNormal, e_path = ''/c/policy.json'', modePath = ''/c/mode'', psShell = False\<rparr>"

definition read_req :: "string \<Rightarrow> request" where
  "read_req path = \<lparr>q_kind = KindRead, q_cmd = [], q_path = path, q_cwd = [], q_peer = [], q_via = []\<rparr>"

definition empty_disk :: policy_disk where
  "empty_disk = \<lparr>disk_rules = Missing, disk_mode = None\<rparr>"

definition log_rule :: rule where
  "log_rule = \<lparr>r_kind = KindRead, pattern = ''/srv/log'', r_dir = [], r_scope = ScopeDir, added = 1\<rparr>"

definition reader_engine :: engine where
  "reader_engine = fresh_engine\<lparr>rules := [log_rule]\<rparr>"

lemma log_rule_for: "RuleFor 1 (read_req ''/srv/log/a'') ScopeDir = log_rule"
proof -
  have "Dir ''/srv/log/a'' = ''/srv/log''" by code_simp
  then show ?thesis by (simp add: RuleFor_def read_req_def log_rule_def)
qed

lemma reader_engine_added:
  "Add 1 Renamed log_rule fresh_engine empty_disk = (reader_engine, save Renamed reader_engine empty_disk)"
  by (simp add: Add_def append_rule_def reader_engine_def log_rule_def IsZero_def fresh_engine_def Let_def)

theorem remembered_request_is_allowed_witness:
  "Allowed (\<lambda>_. None) reader_engine (read_req ''/srv/log/a'') \<and> \<not> Allowed (\<lambda>_. None) fresh_engine (read_req ''/srv/log/a'')"
proof -
  have f: "fits (read_req ''/srv/log/a'') ScopeDir" by code_simp
  have n: "\<not> Allowed (\<lambda>_. None) fresh_engine (read_req ''/srv/log/a'')" by code_simp
  show ?thesis
    using remembered_request_is_allowed [OF f, of 1 Renamed fresh_engine empty_disk] n
    unfolding log_rule_for reader_engine_added by (metis prod.collapse)
qed

text \<open>
  Elevation is a class of its own: whatever rules for ordinary commands, files and
  logs are added, no elevated command becomes allowed by them, bypass mode does not cover it
  unless the elevation channel is on, and rules for elevated commands allow nothing else.
\<close>

theorem elevation_is_separate:
  "((\<forall>r \<in> set rs. r_kind r \<noteq> KindExecElevated) \<and> q_kind q = KindExecElevated \<longrightarrow>
      Allowed sh (fold append_rule rs e) q = Allowed sh e q \<and> \<not> Bypasses e (q_kind q) False)
   \<and> ((\<forall>r \<in> set rs. r_kind r = KindExecElevated) \<and> q_kind q \<noteq> KindExecElevated \<longrightarrow>
      Allowed sh (fold append_rule rs e) q = Allowed sh e q)"
  using pe.plain_rules_never_elevate [of rs q sh e] pe.elevated_rules_only_elevate [of rs q sh e]
  by (auto simp: Bypasses_def)

definition elevated_req :: "string \<Rightarrow> request" where
  "elevated_req cmd = (exec_req cmd [])\<lparr>q_kind := KindExecElevated\<rparr>"

theorem elevation_is_separate_witness:
  "\<not> Allowed (\<lambda>_. None) (fold append_rule [RuleFor 1 (exec_req ''id'' []) ScopeGlobal] fresh_engine) (elevated_req ''id'')
   \<and> \<not> Allowed (\<lambda>_. None) (fold append_rule [RuleFor 1 (elevated_req ''id'') ScopeGlobal] fresh_engine) (exec_req ''id'' [])"
proof -
  have "r_kind (RuleFor 1 (exec_req ''id'' []) ScopeGlobal) \<noteq> KindExecElevated"
    "r_kind (RuleFor 1 (elevated_req ''id'') ScopeGlobal) = KindExecElevated"
    by (simp_all add: RuleFor_def exec_req_def elevated_req_def Let_def)
  moreover have "\<not> Allowed (\<lambda>_. None) fresh_engine q" for q by (simp add: Allowed_def fresh_engine_def)
  ultimately show ?thesis
    using elevation_is_separate [of "[RuleFor 1 (exec_req ''id'' []) ScopeGlobal]" "elevated_req ''id''"]
      elevation_is_separate [of "[RuleFor 1 (elevated_req ''id'') ScopeGlobal]" "exec_req ''id'' []"]
    by (auto simp: exec_req_def elevated_req_def)
qed

text \<open>
  A file request is allowed under the root the engine reports, and with \<open>..\<close> and \<open>.\<close>
  resolved the path is that directory or lies below it: no sequence of \<open>..\<close> leads out.
\<close>

theorem allowed_file_is_under_its_root:
  assumes "AllowedFileRoot sh e q = Some root" and "IsAbs (q_path q)" and "IsAbs root" and "path_elems root \<noteq> []"
  shows "Allowed sh e q \<and> (\<exists>r \<in> set (rules e). pattern r = root)
    \<and> (\<exists>below. path_elems (q_path q) = path_elems root @ below \<and> (\<forall>x \<in> set below. proper_elem x))"
proof -
  from assms(1) obtain r where r: "find (\<lambda>r. ruleMatchesShell sh r q (psShell e)) (rules e) = Some r"
    "pattern r = root" "q_kind q = KindRead \<or> q_kind q = KindWrite"
    by (auto simp: AllowedFileRoot_def split: if_splits)
  then have m: "r \<in> set (rules e)" "ruleMatchesShell sh r q (psShell e)"
    by (auto dest: find_mem)
  then have "Within root (q_path q)" using r by (auto simp: ruleMatchesShell_def Let_def)
  then show ?thesis using Within_no_escape [OF assms(3,2,4)] m r(2)
    by (metis (mono_tags, lifting) Allowed_def list_ex_iff)
qed

theorem allowed_file_is_under_its_root_witness:
  "\<not> Allowed (\<lambda>_. None) reader_engine (read_req ''/srv/log/../../etc/passwd'')
   \<and> (\<exists>below. path_elems ''/srv/./log/x/../b'' = path_elems ''/srv/log'' @ below \<and> (\<forall>x \<in> set below. proper_elem x))"
proof -
  have "AllowedFileRoot (\<lambda>_. None) reader_engine (read_req ''/srv/./log/x/../b'') = Some ''/srv/log''"
    "IsAbs (q_path (read_req ''/srv/./log/x/../b''))" "IsAbs ''/srv/log''" "path_elems ''/srv/log'' \<noteq> []"
    by code_simp+
  from allowed_file_is_under_its_root [OF this]
  have "\<exists>below. path_elems ''/srv/./log/x/../b'' = path_elems ''/srv/log'' @ below \<and> (\<forall>x \<in> set below. proper_elem x)"
    by (simp add: read_req_def)
  moreover have "\<not> Allowed (\<lambda>_. None) reader_engine (read_req ''/srv/log/../../etc/passwd'')" by code_simp
  ultimately show ?thesis by blast
qed

text \<open>
  A rule for a plain command that is not the wildcard covers, besides that very
  command, only single simple commands that extend it by arguments: no second command,
  no substitution, no redirection, and on a PowerShell device none of the sequences
  PowerShell evaluates.
\<close>

theorem prefix_rule_covers_one_command:
  assumes "matchCommand sh p c ps" "TrimSpace c \<noteq> TrimSpace p" "TrimSpace p \<noteq> star"
    "\<not> HasPrefix (TrimSpace p) CanonicalPrefix"
  shows "(\<exists>s. sh (TrimSpace c) = Some [s] \<and> is_call s \<and> redirs s = 0
        \<and> CmdSubst \<notin> set (s_nodes s) \<and> ProcSubst \<notin> set (s_nodes s))
    \<and> (ps \<longrightarrow> (\<forall>x \<in> set ps_sequences. \<not> Contains (TrimSpace c) x))
    \<and> (\<exists>args. TrimSpace c = (if HasSuffix (TrimSpace p) space_star then butlast (TrimSpace p)
                     else TrimSpace p @ '' '') @ args)"
proof -
  note n = prefix_rule_narrow [OF assms]
  have "\<exists>s. sh (TrimSpace c) = Some [s] \<and> is_call s \<and> redirs s = 0
        \<and> CmdSubst \<notin> set (s_nodes s) \<and> ProcSubst \<notin> set (s_nodes s)"
    using n(1) by (auto simp: isSingleSimpleCommand_def list_ex_iff split: option.splits list.splits if_splits)
  then show ?thesis using n(2,3) by (auto simp: hasPowerShellEval_def list_ex_iff)
qed

definition word_parser :: parser where
  "word_parser c =
     (if CHR '';'' \<in> set c then None
      else Some [\<lparr>negated = False, background = False, coprocess = False, disown = False, semicolon = False,
        redirs = 0, is_call = True, s_nodes = [OtherNode]\<rparr>])"

theorem prefix_rule_covers_one_command_witness:
  "matchCommand word_parser ''ping *'' ''ping -c 1 host'' True
   \<and> (\<exists>args. TrimSpace ''ping -c 1 host'' = ''ping '' @ args)
   \<and> \<not> matchCommand word_parser ''ping *'' ''ping @(rm x)'' True"
proof -
  have m: "matchCommand word_parser ''ping *'' ''ping -c 1 host'' True"
    "TrimSpace ''ping -c 1 host'' \<noteq> TrimSpace ''ping *''" "TrimSpace ''ping *'' \<noteq> star"
    "\<not> HasPrefix (TrimSpace ''ping *'') CanonicalPrefix"
    by code_simp+
  have t: "HasSuffix (TrimSpace ''ping *'') space_star" "butlast (TrimSpace ''ping *'') = ''ping ''" by code_simp+
  have "\<not> matchCommand word_parser ''ping *'' ''ping @(rm x)'' True" by code_simp
  then show ?thesis using prefix_rule_covers_one_command [OF m] m(1) t by simp
qed

text \<open>
  What is shown of a command is the command, or for a script a prefix of the very
  token the rule would store followed by an ellipsis: nothing that runs is hidden.
\<close>

theorem label_is_honest:
  "(Canonical (TrimSpace c) = None \<and> CommandLabel c = TrimSpace c \<and> CommandPattern c = TrimSpace c)
   \<or> (\<exists>shown. CommandLabel c = shown @ ellipsis \<and> prefix shown (CommandPattern c)
        \<and> Canonical c = Some (CommandPattern c))"
proof (cases "Canonical c")
  case (Some t)
  then obtain i raw where t: "i = POSIX \<or> i = PowerShell" "t = token i raw" by (rule Canonical_shape)
  have "prefix (CanonicalPrefix @ i @ colon # take shortHex (hex_EncodeToString (sha256_Sum256 raw))) t"
    by (simp add: t(2) token_def take_is_prefix)
  then show ?thesis using Some Short_token [OF t(1), of raw] t(2)
    by (auto simp: CommandLabel_def CommandPattern_def)
qed (simp add: CommandLabel_def CommandPattern_def)

text \<open>
  A restart changes nothing: an engine opened without an explicit mode after the
  rules and the mode were saved has the rules and the mode of the engine that saved
  them. (Rules whose strings are not valid UTF-8 come back repaired.)
\<close>

theorem restart_keeps_rules_and_mode:
  assumes "e_mode e = ModeNormal \<or> e_mode e = ModeBypass" and "modePath e \<noteq> []"
    and "\<forall>r \<in> set (rules e). printable r"
    and "save Renamed e (saveMode Written e d) = (ok, d')"
  shows "\<exists>e'. Open_engine w (Some dir) name [] d' = (Inr e', d') \<and> rules e' = rules e \<and> e_mode e' = e_mode e
     \<and> (\<forall>sh q. psShell e = False \<longrightarrow> Allowed sh e' q = Allowed sh e q)
     \<and> (\<forall>k ch. Bypasses e' k ch = Bypasses e k ch)"
proof -
  have d: "disk_rules d' = Saved (rules e)" "disk_mode d' = disk_mode (saveMode Written e d)"
    using assms(4) json_rules_id [OF assms(3)] by (auto simp: save_def)
  then have m: "loadMode d' = e_mode e" using loadMode_saved [OF assms(2,1), of d] by (simp add: loadMode_def)
  have ne: "e_mode e \<noteq> []" using assms(1) by (auto simp: ModeNormal_def ModeBypass_def)
  let ?e = "\<lparr>rules = rules e, e_mode = e_mode e, e_path = Clean (dir @ slash # name),
     modePath = Clean (dir @ slash # ''mode''), psShell = False\<rparr>"
  have "Open_engine w (Some dir) name [] d' = (Inr ?e, d')"
    using d(1) m ne by (simp add: Open_engine_def Let_def)
  then show ?thesis by (intro exI [of _ ?e]) (simp add: Allowed_def Bypasses_def)
qed

theorem restart_keeps_rules_and_mode_witness:
  "\<exists>e'. fst (Open_engine Written (Some ''/c'') ''policy.json'' []
      (snd (save Renamed (reader_engine\<lparr>e_mode := ModeBypass\<rparr>)
         (saveMode Written (reader_engine\<lparr>e_mode := ModeBypass\<rparr>) empty_disk)))) = Inr e'
     \<and> rules e' = rules reader_engine \<and> e_mode e' = ModeBypass"
proof -
  let ?e = "reader_engine\<lparr>e_mode := ModeBypass\<rparr>"
  have "\<forall>s \<in> {KindRead, ''/srv/log'', [], ScopeDir}. \<forall>c \<in> set s. (of_char c :: nat) < 128"
    by (simp add: KindRead_def ScopeDir_def)
  then have "printable log_rule" by (auto simp: printable_def log_rule_def intro!: ascii_valid)
  then have "\<forall>r \<in> set (rules ?e). printable r" "modePath ?e \<noteq> []"
    by (simp_all add: reader_engine_def fresh_engine_def)
  then show ?thesis
    using restart_keeps_rules_and_mode [of ?e empty_disk "fst (save Renamed ?e (saveMode Written ?e empty_disk))"
        "snd (save Renamed ?e (saveMode Written ?e empty_disk))" Written "''/c''" "''policy.json''"]
    by auto
qed

end
