(* ===== verification/Trust.thy ===== *)
theory Trust
  imports GoUnicode
begin

text \<open>
  \<open>src/internal/transport/trust.go\<close>: the remembered peers of a device or controller. The
  Go map is an association list whose order stands for the iteration order. The file
  of the store is what it holds; \<open>json_peer\<close> is what a peer becomes when it is written
  and read back. A store whose path is empty lives in memory only. Each write ends
  in one of three ways.
\<close>

record peer =
  p_fp :: string
  p_name :: string
  p_peer_label :: string
  p_added :: gotime
  p_seen :: gotime

datatype trust_file = NoTrustFile | TrustUnreadable | TrustCorrupt | TrustFile "peer list"

datatype store_write = StoreDone | StoreTmpFailed | StoreRenameFailed

datatype trust_error =
    TrustReadError | TrustParseError | SaveFailed | PinNameRequired | InvalidFingerprint string
  | Mismatch string string string

record trust_store =
  t_persist :: bool
  t_m :: "(string \<times> peer) list"

definition NewMemStore :: trust_store where
  "NewMemStore = \<lparr>t_persist = False, t_m = []\<rparr>"

definition fp_prefix :: string where "fp_prefix = ''SHA256:''"

definition ValidFingerprint :: "string \<Rightarrow> bool" where
  "ValidFingerprint fp \<longleftrightarrow>
     (if \<not> HasPrefix fp fp_prefix then False
      else case b64_Decode (drop (length fp_prefix) fp) of None \<Rightarrow> False | Some b \<Rightarrow> length b = 32)"

definition peerKey :: "string \<Rightarrow> string \<Rightarrow> string" where
  "peerKey fp name = fp @ CHR 0x00 # name"

definition json_peer :: "peer \<Rightarrow> peer" where
  "json_peer p = p\<lparr>p_fp := json_string (p_fp p), p_name := json_string (p_name p),
     p_peer_label := json_string (p_peer_label p)\<rparr>"

definition index_peers :: "peer list \<Rightarrow> (string \<times> peer) list" where
  "index_peers ps = foldl (\<lambda>m p. al_put (peerKey (p_fp p) (p_name p)) p m) [] ps"

definition load_store :: "trust_file \<Rightarrow> trust_store \<Rightarrow> trust_error option \<times> trust_store" where
  "load_store f s =
     (case f of
        NoTrustFile \<Rightarrow> (None, s\<lparr>t_m := []\<rparr>)
      | TrustUnreadable \<Rightarrow> (Some TrustReadError, s)
      | TrustCorrupt \<Rightarrow> (Some TrustParseError, s)
      | TrustFile ps \<Rightarrow> (None, s\<lparr>t_m := index_peers ps\<rparr>))"

definition OpenStore :: "trust_file \<Rightarrow> trust_error + trust_store" where
  "OpenStore f =
     (case load_store f \<lparr>t_persist = True, t_m = []\<rparr> of
        (Some e, _) \<Rightarrow> Inl e
      | (None, s) \<Rightarrow> Inr s)"

definition save_store :: "store_write \<Rightarrow> trust_store \<Rightarrow> trust_file \<Rightarrow> trust_error option \<times> trust_file" where
  "save_store w s f =
     (if \<not> t_persist s then (None, f)
      else case w of
        StoreDone \<Rightarrow> (None, TrustFile (map (json_peer \<circ> snd) (t_m s)))
      | StoreTmpFailed \<Rightarrow> (Some SaveFailed, f)
      | StoreRenameFailed \<Rightarrow> (Some SaveFailed, f))"

definition getByFingerprintLocked :: "trust_store \<Rightarrow> string \<Rightarrow> peer option" where
  "getByFingerprintLocked s fp = find (\<lambda>p. p_fp p = fp) (map snd (t_m s))"

definition Get :: "trust_file \<Rightarrow> string \<Rightarrow> trust_store \<Rightarrow> peer option \<times> trust_store" where
  "Get f fp s = (let s = (if t_persist s then snd (load_store f s) else s) in (getByFingerprintLocked s fp, s))"

definition HasPeer :: "trust_file \<Rightarrow> string \<Rightarrow> trust_store \<Rightarrow> bool \<times> trust_store" where
  "HasPeer f fp s = (let (p, s) = Get f fp s in (p \<noteq> None, s))"

definition GetByName :: "trust_store \<Rightarrow> string \<Rightarrow> peer option" where
  "GetByName s name = (if name = [] then None else find (\<lambda>p. p_name p = name) (map snd (t_m s)))"

definition add_peer :: "gotime \<Rightarrow> string \<Rightarrow> string \<Rightarrow> string \<Rightarrow> trust_store \<Rightarrow> trust_store" where
  "add_peer now fp name label s =
     s\<lparr>t_m := al_put (peerKey fp name)
        \<lparr>p_fp = fp, p_name = name, p_peer_label = label, p_added = now, p_seen = now\<rparr> (t_m s)\<rparr>"

definition AddLabeled ::
  "gotime \<Rightarrow> store_write \<Rightarrow> string \<Rightarrow> string \<Rightarrow> string \<Rightarrow> trust_file \<Rightarrow> trust_store
   \<Rightarrow> trust_error option \<times> trust_file \<times> trust_store" where
  "AddLabeled now w fp name label f s =
     (let s = add_peer now fp name label s; (e, f) = save_store w s f in (e, f, s))"

definition AddPeer ::
  "gotime \<Rightarrow> store_write \<Rightarrow> string \<Rightarrow> string \<Rightarrow> trust_file \<Rightarrow> trust_store
   \<Rightarrow> trust_error option \<times> trust_file \<times> trust_store" where
  "AddPeer now w fp name f s = AddLabeled now w fp name [] f s"

text \<open>The loop of \<open>Pin\<close> over the entries, with the map as it stands: an answer, or none yet.\<close>

datatype pin_answer = PinSame | PinMismatch string | PinNew

fun pin_loop :: "gotime \<Rightarrow> string \<Rightarrow> string \<Rightarrow> bool \<Rightarrow> (string \<times> peer) list \<Rightarrow> (string \<times> peer) list
    \<Rightarrow> pin_answer \<times> (string \<times> peer) list" where
  "pin_loop now name fp replace [] m = (PinNew, m)"
| "pin_loop now name fp replace ((key, p) # rest) m =
     (if p_name p \<noteq> name then pin_loop now name fp replace rest m
      else if p_fp p = fp then (PinSame, al_put key (p\<lparr>p_seen := now\<rparr>) m)
      else if \<not> replace then (PinMismatch (p_fp p), m)
      else pin_loop now name fp replace rest (al_del key m))"

definition Pin ::
  "gotime \<Rightarrow> store_write \<Rightarrow> string \<Rightarrow> string \<Rightarrow> bool \<Rightarrow> trust_file \<Rightarrow> trust_store
   \<Rightarrow> trust_error option \<times> trust_file \<times> trust_store" where
  "Pin now w name fp replace f s =
     (if name = [] then (Some PinNameRequired, f, s)
      else if \<not> ValidFingerprint fp then (Some (InvalidFingerprint fp), f, s)
      else (case pin_loop now name fp replace (t_m s) (t_m s) of
              (PinSame, m) \<Rightarrow> (let s = s\<lparr>t_m := m\<rparr>; (e, f) = save_store w s f in (e, f, s))
            | (PinMismatch stored, m) \<Rightarrow> (Some (Mismatch name stored fp), f, s\<lparr>t_m := m\<rparr>)
            | (PinNew, m) \<Rightarrow>
                (let s = add_peer now fp name [] (s\<lparr>t_m := m\<rparr>); (e, f) = save_store w s f in (e, f, s))))"

definition Touch :: "gotime \<Rightarrow> store_write \<Rightarrow> string \<Rightarrow> trust_file \<Rightarrow> trust_store \<Rightarrow> trust_file \<times> trust_store" where
  "Touch now w fp f s =
     (let s = s\<lparr>t_m := map (\<lambda>(k, p). (k, if p_fp p = fp then p\<lparr>p_seen := now\<rparr> else p)) (t_m s)\<rparr>
      in (snd (save_store w s f), s))"

definition ListPeers :: "trust_store \<Rightarrow> peer list" where
  "ListPeers s = map snd (t_m s)"

definition RemoveName ::
  "store_write \<Rightarrow> string \<Rightarrow> trust_file \<Rightarrow> trust_store \<Rightarrow> trust_error option \<times> trust_file \<times> trust_store" where
  "RemoveName w name f s =
     (if name = [] then (None, f, s)
      else (let s = s\<lparr>t_m := filter (\<lambda>(_, p). p_name p \<noteq> name) (t_m s)\<rparr>; (e, f) = save_store w s f in (e, f, s)))"

definition drop_peer :: "string \<Rightarrow> trust_store \<Rightarrow> trust_store" where
  "drop_peer fp s = s\<lparr>t_m := filter (\<lambda>(_, p). p_fp p \<noteq> fp) (t_m s)\<rparr>"

definition RemovePeer ::
  "store_write \<Rightarrow> string \<Rightarrow> trust_file \<Rightarrow> trust_store \<Rightarrow> trust_error option \<times> trust_file \<times> trust_store" where
  "RemovePeer w fp f s = (let s = drop_peer fp s; (e, f) = save_store w s f in (e, f, s))"

subsection \<open>A set of admitted keys\<close>

text \<open>What the rest of the program relies on: admitting and revoking are about one key each.\<close>

definition act :: "('k \<Rightarrow> 's \<Rightarrow> 's) \<Rightarrow> ('k \<Rightarrow> 's \<Rightarrow> 's) \<Rightarrow> bool \<times> 'k \<Rightarrow> 's \<Rightarrow> 's" where
  "act admit revoke op s = (if fst op then admit (snd op) s else revoke (snd op) s)"

locale admitted_keys =
  fixes admitted :: "'s \<Rightarrow> 'k \<Rightarrow> bool"
    and admit :: "'k \<Rightarrow> 's \<Rightarrow> 's"
    and revoke :: "'k \<Rightarrow> 's \<Rightarrow> 's"
    and ok :: "'s \<Rightarrow> bool"
    and good :: "'k \<Rightarrow> bool"
  assumes ok_admit: "ok s \<Longrightarrow> good k \<Longrightarrow> ok (admit k s)"
    and ok_revoke: "ok s \<Longrightarrow> ok (revoke k s)"
    and admitted_admit: "ok s \<Longrightarrow> good k \<Longrightarrow> admitted (admit k s) j \<longleftrightarrow> j = k \<or> admitted s j"
    and admitted_revoke: "ok s \<Longrightarrow> admitted (revoke k s) j \<longleftrightarrow> j \<noteq> k \<and> admitted s j"
begin

lemma acts_ok: "ok s \<Longrightarrow> \<forall>op \<in> set ops. good (snd op) \<Longrightarrow> ok (fold (act admit revoke) ops s)"
  by (induction ops arbitrary: s) (simp_all add: act_def ok_admit ok_revoke)

lemma last_act_decides:
  assumes "ok s" "\<forall>op \<in> set ops. good (snd op)"
  shows "admitted (fold (act admit revoke) ops s) j \<longleftrightarrow>
    (case filter (\<lambda>op. snd op = j) (rev ops) of [] \<Rightarrow> admitted s j | op # _ \<Rightarrow> fst op)"
  using assms(2)
proof (induction ops rule: rev_induct)
  case (snoc op ops)
  let ?s = "fold (act admit revoke) ops s"
  have o: "ok ?s" using assms(1) snoc.prems by (intro acts_ok) simp_all
  have "fold (act admit revoke) (ops @ [op]) s = (if fst op then admit (snd op) ?s else revoke (snd op) ?s)"
    by (simp add: act_def)
  moreover have "good (snd op)" using snoc.prems by simp
  ultimately have "admitted (fold (act admit revoke) (ops @ [op]) s) j
      \<longleftrightarrow> (if snd op = j then fst op else admitted ?s j)"
    using o by (auto simp: admitted_admit admitted_revoke)
  then show ?case using snoc by simp
qed simp

end

text \<open>The keys of a well formed store are those of its peers; fingerprints hold no NUL byte.\<close>

definition store_wf :: "trust_store \<Rightarrow> bool" where
  "store_wf s \<longleftrightarrow> distinct (map fst (t_m s)) \<and> (\<forall>(k, p) \<in> set (t_m s). k = peerKey (p_fp p) (p_name p))"

definition trusted :: "trust_store \<Rightarrow> string \<Rightarrow> bool" where
  "trusted s fp \<longleftrightarrow> getByFingerprintLocked s fp \<noteq> None"

lemma trusted_iff: "trusted s fp \<longleftrightarrow> (\<exists>(k, p) \<in> set (t_m s). p_fp p = fp)"
  unfolding trusted_def getByFingerprintLocked_def by (force simp: find_None_iff)

lemma set_al_put_keyed: "distinct (map fst m) \<Longrightarrow> set (al_put k v m) = {x \<in> set m. fst x \<noteq> k} \<union> {(k, v)}"
  by (induction k v m rule: al_put.induct) force+

lemma peerKey_fp: "CHR 0x00 \<notin> set fp \<Longrightarrow> takeWhile (\<lambda>c. c \<noteq> CHR 0x00) (peerKey fp n) = fp"
  by (induction fp) (auto simp: peerKey_def)

lemma peerKey_inj:
  "CHR 0x00 \<notin> set fp \<Longrightarrow> CHR 0x00 \<notin> set fp' \<Longrightarrow> peerKey fp n = peerKey fp' n' \<Longrightarrow> fp = fp'"
  using peerKey_fp by metis

definition nul_free :: "trust_store \<Rightarrow> bool" where
  "nul_free s \<longleftrightarrow> (\<forall>(k, p) \<in> set (t_m s). CHR 0x00 \<notin> set (p_fp p))"

lemma add_peer_set:
  assumes "store_wf s"
  shows "set (t_m (add_peer now fp name label s)) = {x \<in> set (t_m s). fst x \<noteq> peerKey fp name} \<union>
    {(peerKey fp name, \<lparr>p_fp = fp, p_name = name, p_peer_label = label, p_added = now, p_seen = now\<rparr>)}"
  using assms by (simp add: add_peer_def store_wf_def set_al_put_keyed)

lemma add_peer_wf:
  assumes "store_wf s"
  shows "store_wf (add_peer now fp name label s)"
proof -
  have "distinct (map fst (t_m (add_peer now fp name label s)))"
    using assms by (simp add: add_peer_def store_wf_def)
  moreover have "\<forall>(k, p) \<in> set (t_m (add_peer now fp name label s)). k = peerKey (p_fp p) (p_name p)"
    unfolding add_peer_set [OF assms] using assms by (auto simp: store_wf_def)
  ultimately show ?thesis by (simp add: store_wf_def)
qed

definition trust_ok :: "trust_store \<Rightarrow> bool" where
  "trust_ok s \<longleftrightarrow> store_wf s \<and> nul_free s"

lemma add_peer_ok: "trust_ok s \<Longrightarrow> CHR 0x00 \<notin> set fp \<Longrightarrow> trust_ok (add_peer now fp name label s)"
  unfolding trust_ok_def by (auto simp: add_peer_wf nul_free_def add_peer_set)

lemma trusted_add:
  assumes "trust_ok s" "CHR 0x00 \<notin> set fp"
  shows "trusted (add_peer now fp name label s) j \<longleftrightarrow> j = fp \<or> trusted s j"
proof -
  have same: "p_fp p = fp" if "(peerKey fp name, p) \<in> set (t_m s)" for p
    using assms that peerKey_inj [of fp "p_fp p" name "p_name p"]
    by (auto simp: trust_ok_def store_wf_def nul_free_def)
  show ?thesis using assms(1) same
    by (auto simp: trusted_iff add_peer_set trust_ok_def)
qed

lemma drop_peer_ok: "trust_ok s \<Longrightarrow> trust_ok (drop_peer fp s)"
  by (auto simp: trust_ok_def store_wf_def nul_free_def drop_peer_def distinct_map_filter)

lemma trusted_drop: "trusted (drop_peer fp s) j \<longleftrightarrow> j \<noteq> fp \<and> trusted s j"
  by (auto simp: trusted_iff drop_peer_def)

interpretation peers: admitted_keys trusted "\<lambda>fp. add_peer now fp name label" drop_peer trust_ok
  "\<lambda>fp. CHR 0x00 \<notin> set fp" for now name label
  by unfold_locales (simp_all add: add_peer_ok drop_peer_ok trusted_add trusted_drop)

subsection \<open>What is on disk\<close>

definition clean_peer :: "peer \<Rightarrow> bool" where
  "clean_peer p \<longleftrightarrow> utf8_Valid (bytes (p_fp p)) \<and> utf8_Valid (bytes (p_name p)) \<and> utf8_Valid (bytes (p_peer_label p))"

lemma json_peer_id: "clean_peer p \<Longrightarrow> json_peer p = p"
  by (simp add: clean_peer_def json_peer_def json_string_valid)

lemma foldl_keyed:
  "distinct (map fst (m @ xs)) \<Longrightarrow> (\<forall>(k, p) \<in> set xs. k = g p) \<Longrightarrow>
     foldl (\<lambda>m p. al_put (g p) p m) m (map snd xs) = m @ xs"
proof (induction xs arbitrary: m)
  case (Cons x xs)
  obtain k p where x: "x = (k, p)" by (rule prod.exhaust)
  have k: "k = g p" "k \<notin> fst ` set m" using Cons.prems x by (auto simp: image_iff)
  have "foldl (\<lambda>m p. al_put (g p) p m) (m @ [x]) (map snd xs) = (m @ [x]) @ xs"
    using Cons.prems by (intro Cons.IH) auto
  then show ?case using x k by (simp add: al_put_fresh)
qed simp

text \<open>Reading back what was saved gives the same store.\<close>

lemma saved_store_loads:
  assumes "store_wf s" "t_persist s" "\<forall>(k, p) \<in> set (t_m s). clean_peer p"
  shows "load_store (snd (save_store StoreDone s f)) s' = (None, s'\<lparr>t_m := t_m s\<rparr>)"
proof -
  have e: "map (json_peer \<circ> snd) (t_m s) = map snd (t_m s)" using assms(3) by (auto simp: json_peer_id)
  have i: "index_peers (map snd (t_m s)) = t_m s"
    using foldl_keyed [of "[]" "t_m s" "\<lambda>p. peerKey (p_fp p) (p_name p)"] assms(1)
    by (simp add: index_peers_def store_wf_def)
  show ?thesis using assms(2) by (simp add: save_store_def load_store_def e i)
qed

subsection \<open>Pins\<close>

definition pins_unique :: "trust_store \<Rightarrow> bool" where
  "pins_unique s \<longleftrightarrow> distinct (map (p_name \<circ> snd) (t_m s))"

lemma pin_loop_none:
  "\<forall>(k, p) \<in> set xs. p_name p \<noteq> name \<Longrightarrow> pin_loop now name fp replace xs m = (PinNew, m)"
  by (induction xs) auto

lemma pin_loop_at:
  assumes "\<forall>(k, p) \<in> set xs. p_name p \<noteq> name" "p_name p = name"
  shows "pin_loop now name fp replace (xs @ (k, p) # ys) m =
    (if p_fp p = fp then (PinSame, al_put k (p\<lparr>p_seen := now\<rparr>) m)
     else if \<not> replace then (PinMismatch (p_fp p), m)
     else pin_loop now name fp replace ys (al_del k m))"
  using assms by (induction xs) auto


lemma split_named:
  obtains "\<forall>(k, p) \<in> set m. p_name p \<noteq> name"
  | xs k p ys where "m = xs @ (k, p) # ys" "p_name p = name" "\<forall>(k, p) \<in> set xs. p_name p \<noteq> name"
proof (cases "\<exists>x \<in> set m. p_name (snd x) = name")
  case True
  from split_list_first_prop [OF this] obtain ys x zs
    where "m = ys @ x # zs" "p_name (snd x) = name" "\<forall>y \<in> set ys. p_name (snd y) \<noteq> name" by blast
  then show ?thesis using that(2) [of ys "fst x" "snd x" zs] by (auto simp: case_prod_beta)
next
  case False
  then show ?thesis using that(1) by (auto simp: case_prod_beta)
qed

lemma find_name_split:
  "\<forall>(k, p) \<in> set xs. p_name p \<noteq> name \<Longrightarrow> p_name p = name \<Longrightarrow>
     find (\<lambda>p. p_name p = name) (map snd (xs @ (k, p) # ys)) = Some p"
  by (induction xs) auto

lemma al_put_at: "k \<notin> fst ` set xs \<Longrightarrow> al_put k v (xs @ (k, w) # ys) = xs @ (k, v) # ys"
  by (induction xs) auto

lemma al_del_at: "k \<notin> fst ` set xs \<Longrightarrow> k \<notin> fst ` set ys \<Longrightarrow> al_del k (xs @ (k, w) # ys) = xs @ ys"
proof -
  have "k \<notin> fst ` set zs \<Longrightarrow> al_del k zs = zs" for zs :: "('a \<times> 'b) list"
    by (force simp: al_del_def filter_id_conv)
  moreover assume "k \<notin> fst ` set xs" "k \<notin> fst ` set ys"
  ultimately show ?thesis by (simp add: al_del_def)
qed

lemma b64_val_nul [simp]: "b64_val CHR 0x00 = None"
  by (simp add: b64_val_def b64_alphabet_def)

lemma b64_quanta_no_nul: "b64_quanta s = Some b \<Longrightarrow> CHR 0x00 \<notin> set s"
proof (induction s arbitrary: b rule: length_induct)
  case (1 s)
  show ?case
  proof (cases s rule: b64_quanta.cases)
    case (2 w x y z rest)
    then have "CHR 0x00 \<notin> set rest" if "b64_quanta rest = Some b'" for b' using 1(1) that by simp
    then show ?thesis using 1(2) 2 by (auto simp: pad_def split: if_splits option.splits)
  qed (use 1(2) in auto)
qed

lemma ValidFingerprint_no_nul: "ValidFingerprint fp \<Longrightarrow> CHR 0x00 \<notin> set fp"
proof -
  assume v: "ValidFingerprint fp"
  then obtain t where t: "fp = fp_prefix @ t" unfolding ValidFingerprint_def HasPrefix_iff by (auto split: if_splits)
  then obtain b where "b64_Decode t = Some b" using v by (auto simp: ValidFingerprint_def split: option.splits if_splits)
  then have "CHR 0x00 \<notin> set t" unfolding b64_Decode_def using b64_quanta_no_nul by fastforce
  then show ?thesis by (simp add: t fp_prefix_def)
qed


lemma peerKey_inj2:
  "CHR 0x00 \<notin> set fp \<Longrightarrow> CHR 0x00 \<notin> set fp' \<Longrightarrow> peerKey fp n = peerKey fp' n' \<Longrightarrow> fp = fp' \<and> n = n'"
  using peerKey_inj [of fp fp' n n'] by (auto simp: peerKey_def)

text \<open>What \<open>Pin\<close> does to the entries of a store that pins each name once.\<close>

definition pinned :: "gotime \<Rightarrow> string \<Rightarrow> string \<Rightarrow> peer" where
  "pinned now fp name = \<lparr>p_fp = fp, p_name = name, p_peer_label = [], p_added = now, p_seen = now\<rparr>"

lemma pin_key_new:
  assumes "trust_ok s" "ValidFingerprint fp" "set m \<subseteq> set (t_m s)" "\<forall>(k, p) \<in> set m. p_name p \<noteq> name"
  shows "peerKey fp name \<notin> fst ` set m"
proof
  assume "peerKey fp name \<in> fst ` set m"
  then obtain p where p: "(peerKey fp name, p) \<in> set m" by auto
  then have "peerKey fp name = peerKey (p_fp p) (p_name p)" "CHR 0x00 \<notin> set (p_fp p)"
    using assms(1,3) by (auto simp: trust_ok_def store_wf_def nul_free_def)
  then have "p_name p = name" using peerKey_inj2 ValidFingerprint_no_nul [OF assms(2)] by metis
  then show False using p assms(4) by auto
qed

lemma pin_loop_outcome:
  assumes "pins_unique s" "trust_ok s" "ValidFingerprint fp"
    and "pin_loop now name fp replace (t_m s) (t_m s) = (ans, m')"
  shows "(\<exists>stored. ans = PinMismatch stored \<and> m' = t_m s \<and> \<not> replace \<and> stored \<noteq> fp
            \<and> (\<exists>(k, p) \<in> set (t_m s). p_name p = name \<and> p_fp p = stored))
    \<or> (ans = PinSame \<and> (\<exists>xs k p ys. t_m s = xs @ (k, p) # ys \<and> p_name p = name \<and> p_fp p = fp
            \<and> (\<forall>(k, p) \<in> set (xs @ ys). p_name p \<noteq> name) \<and> m' = xs @ (k, p\<lparr>p_seen := now\<rparr>) # ys))
    \<or> (ans = PinNew \<and> (\<forall>(k, p) \<in> set (t_m s). p_name p = name \<longrightarrow> replace \<and> p_fp p \<noteq> fp)
            \<and> m' = filter (\<lambda>(k, p). p_name p \<noteq> name) (t_m s))"
proof (rule split_named [of "t_m s" name])
  assume none: "\<forall>(k, p) \<in> set (t_m s). p_name p \<noteq> name"
  then have "filter (\<lambda>(k, p). p_name p \<noteq> name) (t_m s) = t_m s" by (simp add: filter_id_conv)
  then show ?thesis using assms(4) none by (auto simp: pin_loop_none)
next
  fix xs k p ys
  assume m: "t_m s = xs @ (k, p) # ys" and n: "p_name p = name" and xs: "\<forall>(k, p) \<in> set xs. p_name p \<noteq> name"
  have "name \<notin> (p_name \<circ> snd) ` set ys" using assms(1) n unfolding pins_unique_def m by simp
  then have ys: "\<forall>(k, p) \<in> set ys. p_name p \<noteq> name" by (force simp: image_iff)
  have k: "k \<notin> fst ` set xs" "k \<notin> fst ` set ys" using assms(2) m by (auto simp: trust_ok_def store_wf_def)
  have f: "filter (\<lambda>(k, p). p_name p \<noteq> name) (t_m s) = xs @ ys"
    using xs ys n by (simp add: m filter_id_conv)
  have "pin_loop now name fp replace (t_m s) (t_m s) =
    (if p_fp p = fp then (PinSame, xs @ (k, p\<lparr>p_seen := now\<rparr>) # ys)
     else if \<not> replace then (PinMismatch (p_fp p), t_m s)
     else (PinNew, xs @ ys))"
    using pin_loop_at [OF xs n] pin_loop_none [OF ys] k by (simp add: m al_put_at al_del_at)
  then consider (same) "p_fp p = fp" "ans = PinSame" "m' = xs @ (k, p\<lparr>p_seen := now\<rparr>) # ys"
    | (mismatch) "p_fp p \<noteq> fp" "\<not> replace" "ans = PinMismatch (p_fp p)" "m' = t_m s"
    | (new) "p_fp p \<noteq> fp" "replace" "ans = PinNew" "m' = xs @ ys"
    using assms(4) by (metis prod.inject)
  then show ?thesis
  proof cases
    case same
    moreover have "\<forall>(k, p) \<in> set (xs @ ys). p_name p \<noteq> name" using xs ys by auto
    ultimately show ?thesis using m n by blast
  next
    case mismatch
    moreover have "(k, p) \<in> set (t_m s)" using m by simp
    ultimately show ?thesis using n by blast
  next
    case new
    have "q = p" if "(j, q) \<in> set (t_m s)" "p_name q = name" for j q
      using that xs ys unfolding m by auto
    then have "\<forall>(j, q) \<in> set (t_m s). p_name q = name \<longrightarrow> replace \<and> p_fp q \<noteq> fp" using new by auto
    then show ?thesis using new f by simp
  qed
qed

lemma find_name_iff:
  assumes "pins_unique s" "name \<noteq> []"
  shows "GetByName s name = Some p \<longleftrightarrow> (\<exists>k. (k, p) \<in> set (t_m s)) \<and> p_name p = name"
proof
  assume "GetByName s name = Some p"
  then show "(\<exists>k. (k, p) \<in> set (t_m s)) \<and> p_name p = name"
    using find_mem [of "\<lambda>p. p_name p = name" "map snd (t_m s)" p] by (auto simp: GetByName_def split: if_splits)
next
  assume r: "(\<exists>k. (k, p) \<in> set (t_m s)) \<and> p_name p = name"
  then have "\<exists>q. find (\<lambda>p. p_name p = name) (map snd (t_m s)) = Some q"
    by (force simp: find_None_iff simp del: not_None_eq simp add: not_None_eq [symmetric])
  then obtain q where q: "find (\<lambda>p. p_name p = name) (map snd (t_m s)) = Some q" by blast
  have "q \<in> snd ` set (t_m s)" "p_name q = name" using find_mem [OF q] by auto
  then have "q = p" using r assms(1) by (force simp: pins_unique_def distinct_map inj_on_def)
  then show "GetByName s name = Some p" using q assms(2) by (simp add: GetByName_def)
qed

lemma Pin_success:
  assumes u: "pins_unique s" and ok: "trust_ok s" and P: "Pin now w name fp replace f s = (None, f', s')"
  obtains (refreshed) xs k p ys where "t_m s = xs @ (k, p) # ys" "p_name p = name" "p_fp p = fp"
      "t_m s' = xs @ (k, p\<lparr>p_seen := now\<rparr>) # ys"
  | (added) "t_m s' = filter (\<lambda>(k, p). p_name p \<noteq> name) (t_m s) @ [(peerKey fp name, pinned now fp name)]"
proof -
  have v: "name \<noteq> []" "ValidFingerprint fp" using P by (auto simp: Pin_def split: if_splits)
  obtain ans m where pl: "pin_loop now name fp replace (t_m s) (t_m s) = (ans, m)" by (rule prod.exhaust)
  have "set (filter (\<lambda>(k, p). p_name p \<noteq> name) (t_m s)) \<subseteq> set (t_m s)" by auto
  then have "peerKey fp name \<notin> fst ` set (filter (\<lambda>(k, p). p_name p \<noteq> name) (t_m s))"
    by (rule pin_key_new [OF ok v(2)]) auto
  then have a: "al_put (peerKey fp name) (pinned now fp name) (filter (\<lambda>(k, p). p_name p \<noteq> name) (t_m s))
      = filter (\<lambda>(k, p). p_name p \<noteq> name) (t_m s) @ [(peerKey fp name, pinned now fp name)]"
    by (rule al_put_fresh)
  from pin_loop_outcome [OF u ok v(2) pl] show ?thesis
  proof (elim disjE conjE exE)
    fix stored assume "ans = PinMismatch stored"
    then show ?thesis using P v pl by (simp add: Pin_def)
  next
    fix xs k p ys
    assume "ans = PinSame" "t_m s = xs @ (k, p) # ys" "p_name p = name" "p_fp p = fp"
      "m = xs @ (k, p\<lparr>p_seen := now\<rparr>) # ys"
    moreover from this have "t_m s' = m" using P v pl by (auto simp: Pin_def Let_def split: prod.splits)
    ultimately show ?thesis using refreshed by simp
  next
    assume new: "ans = PinNew" "m = filter (\<lambda>(k, p). p_name p \<noteq> name) (t_m s)"
    have "s' = add_peer now fp name [] (s\<lparr>t_m := m\<rparr>)"
      using P v pl new(1) by (auto simp: Pin_def Let_def split: prod.splits)
    then show ?thesis using a new(2) added by (simp add: add_peer_def pinned_def)
  qed
qed

lemma Pin_keeps:
  assumes u: "pins_unique s" and ok: "trust_ok s" and P: "Pin now w name fp replace f s = (None, f', s')"
  shows "pins_unique s'" and "\<exists>k p. (k, p) \<in> set (t_m s') \<and> p_name p = name \<and> p_fp p = fp"
    and "\<And>k p. p_name p \<noteq> name \<Longrightarrow> (k, p) \<in> set (t_m s') \<longleftrightarrow> (k, p) \<in> set (t_m s)"
proof -
  have "pins_unique s' \<and> (\<exists>k p. (k, p) \<in> set (t_m s') \<and> p_name p = name \<and> p_fp p = fp)
    \<and> (\<forall>k p. p_name p \<noteq> name \<longrightarrow> (k, p) \<in> set (t_m s') \<longleftrightarrow> (k, p) \<in> set (t_m s))"
  proof (rule Pin_success [OF u ok P])
    fix xs k p ys
    assume a: "t_m s = xs @ (k, p) # ys" "p_name p = name" "p_fp p = fp" "t_m s' = xs @ (k, p\<lparr>p_seen := now\<rparr>) # ys"
    have "pins_unique s'" using u unfolding pins_unique_def a(1,4) by simp
    moreover have "(k, p\<lparr>p_seen := now\<rparr>) \<in> set (t_m s')" "p_name (p\<lparr>p_seen := now\<rparr>) = name" "p_fp (p\<lparr>p_seen := now\<rparr>) = fp"
      using a by simp_all
    moreover have "p_name q \<noteq> name \<Longrightarrow> (j, q) \<in> set (t_m s') \<longleftrightarrow> (j, q) \<in> set (t_m s)" for j q
      unfolding a(1,4) using a(2) by auto
    ultimately show ?thesis by blast
  next
    assume a: "t_m s' = filter (\<lambda>(k, p). p_name p \<noteq> name) (t_m s) @ [(peerKey fp name, pinned now fp name)]"
    have "pins_unique s'" using u unfolding pins_unique_def a
      by (auto simp: distinct_map_filter pinned_def)
    moreover have "(peerKey fp name, pinned now fp name) \<in> set (t_m s')" unfolding a by simp
    moreover have "p_name (pinned now fp name) = name" "p_fp (pinned now fp name) = fp"
      by (simp_all add: pinned_def)
    moreover have "p_name q \<noteq> name \<Longrightarrow> (j, q) \<in> set (t_m s') \<longleftrightarrow> (j, q) \<in> set (t_m s)" for j q
      unfolding a by (auto simp: pinned_def)
    ultimately show ?thesis by blast
  qed
  then show "pins_unique s'" "\<exists>k p. (k, p) \<in> set (t_m s') \<and> p_name p = name \<and> p_fp p = fp"
    "\<And>k p. p_name p \<noteq> name \<Longrightarrow> (k, p) \<in> set (t_m s') \<longleftrightarrow> (k, p) \<in> set (t_m s)" by blast+
qed

section \<open>Properties of the trust store\<close>

text \<open>
  A pin is not changed behind the user's back: pinning a name that already stands
  for another fingerprint, without asking to replace it, is refused with both
  fingerprints and changes neither the store nor its file.
\<close>

theorem pin_is_not_replaced_silently:
  assumes "pins_unique s" "trust_ok s" "name \<noteq> []" "ValidFingerprint fp"
    and "GetByName s name = Some p" "p_fp p \<noteq> fp"
  shows "Pin now w name fp False f s = (Some (Mismatch name (p_fp p) fp), f, s)"
proof -
  obtain ans m where pl: "pin_loop now name fp False (t_m s) (t_m s) = (ans, m)" by (rule prod.exhaust)
  obtain k where k: "(k, p) \<in> set (t_m s)" "p_name p = name"
    using assms(5) find_name_iff [OF assms(1,3)] by blast
  have one: "q = p" if "(j, q) \<in> set (t_m s)" "p_name q = name" for j q
    using that k assms(1) by (force simp: pins_unique_def distinct_map inj_on_def)
  have "ans = PinMismatch (p_fp p) \<and> m = t_m s"
    using pin_loop_outcome [OF assms(1,2,4) pl]
  proof (elim disjE conjE exE)
    fix stored assume "ans = PinMismatch stored" "m = t_m s"
      "\<exists>(k, p) \<in> set (t_m s). p_name p = name \<and> p_fp p = stored"
    then show ?thesis using one by blast
  next
    fix xs j q ys assume "t_m s = xs @ (j, q) # ys" "p_name q = name" "p_fp q = fp"
    then show ?thesis using one [of j q] assms(6) by simp
  next
    assume "\<forall>(k, p) \<in> set (t_m s). p_name p = name \<longrightarrow> False \<and> p_fp p \<noteq> fp"
    then show ?thesis using k by auto
  qed
  then show ?thesis using pl assms(3,4) by (simp add: Pin_def)
qed

definition key_a :: string where "key_a = fp_prefix @ replicate 43 (CHR ''A'') @ ''=''"
definition key_b :: string where "key_b = fp_prefix @ CHR ''B'' # replicate 42 (CHR ''A'') @ ''=''"

definition nas_store :: trust_store where
  "nas_store = \<lparr>t_persist = False, t_m = [(peerKey key_a ''nas'', pinned 1 key_a ''nas'')]\<rparr>"

lemma keys_valid: "ValidFingerprint key_a" "ValidFingerprint key_b" "key_a \<noteq> key_b"
  by code_simp+

lemma nas_store_ok: "pins_unique nas_store" "trust_ok nas_store"
  using ValidFingerprint_no_nul [OF keys_valid(1)]
  by (simp_all add: pins_unique_def nas_store_def trust_ok_def store_wf_def nul_free_def pinned_def)

theorem pin_is_not_replaced_silently_witness:
  "Pin 2 StoreDone ''nas'' key_b False NoTrustFile nas_store = (Some (Mismatch ''nas'' key_a key_b), NoTrustFile, nas_store)"
proof -
  have g: "GetByName nas_store ''nas'' = Some (pinned 1 key_a ''nas'')" "p_fp (pinned 1 key_a ''nas'') = key_a"
    by (simp_all add: GetByName_def nas_store_def pinned_def)
  then show ?thesis
    using pin_is_not_replaced_silently [OF nas_store_ok _ keys_valid(2) g(1)] keys_valid(3) by simp
qed

text \<open>
  A pin that succeeds is in force: the name then stands for that fingerprint alone,
  every other name stands for what it stood for, and names stay pinned once.
\<close>

theorem pin_takes_effect:
  assumes "pins_unique s" "trust_ok s" and "Pin now w name fp replace f s = (None, f', s')"
  shows "(\<exists>p. GetByName s' name = Some p \<and> p_fp p = fp) \<and> pins_unique s'
    \<and> (\<forall>other. other \<noteq> name \<longrightarrow> GetByName s' other = GetByName s other)"
proof -
  note k = Pin_keeps [OF assms]
  have ne: "name \<noteq> []" using assms(3) by (auto simp: Pin_def)
  have "\<exists>p. GetByName s' name = Some p \<and> p_fp p = fp"
    using k(2) find_name_iff [OF k(1) ne] by blast
  moreover have "GetByName s' other = GetByName s other" if o: "other \<noteq> name" for other
  proof (cases "other = []")
    case False
    have "GetByName s' other = Some p \<longleftrightarrow> GetByName s other = Some p" for p
      using k(3) [of p] o unfolding find_name_iff [OF k(1) False] find_name_iff [OF assms(1) False] by auto
    then show ?thesis by (metis not_Some_eq)
  qed (simp add: GetByName_def)
  ultimately show ?thesis using k(1) by blast
qed

theorem pin_takes_effect_witness:
  "\<exists>p s'. snd (snd (Pin 2 StoreDone ''nas'' key_b True NoTrustFile nas_store)) = s'
     \<and> GetByName s' ''nas'' = Some p \<and> p_fp p = key_b"
proof -
  have "\<exists>s'. Pin 2 StoreDone ''nas'' key_b True NoTrustFile nas_store = (None, NoTrustFile, s')"
    using keys_valid by (simp add: Pin_def nas_store_def pinned_def add_peer_def save_store_def Let_def)
  then obtain s' where P: "Pin 2 StoreDone ''nas'' key_b True NoTrustFile nas_store = (None, NoTrustFile, s')" by blast
  from pin_takes_effect [OF nas_store_ok P] P show ?thesis by auto
qed

text \<open>
  Who is trusted is decided by what was last said about that key: after any
  sequence of admissions and revocations a fingerprint is trusted exactly if the last one
  that names it admitted it, whatever was said about other keys.
\<close>

theorem last_word_on_a_key_decides:
  assumes "trust_ok s" and "\<forall>op \<in> set ops. CHR 0x00 \<notin> set (snd op)"
  shows "trusted (fold (act (\<lambda>fp. add_peer now fp name label) drop_peer) ops s) fp \<longleftrightarrow>
    (case filter (\<lambda>op. snd op = fp) (rev ops) of [] \<Rightarrow> trusted s fp | op # _ \<Rightarrow> fst op)"
  by (rule peers.last_act_decides [OF assms])

theorem last_word_on_a_key_decides_witness:
  "\<not> trusted (fold (act (\<lambda>fp. add_peer 1 fp ''n'' []) drop_peer)
      [(True, ''k''), (True, ''j''), (False, ''k'')] NewMemStore) ''k''
   \<and> trusted (fold (act (\<lambda>fp. add_peer 1 fp ''n'' []) drop_peer)
      [(True, ''k''), (True, ''j''), (False, ''k'')] NewMemStore) ''j''"
proof -
  have "trust_ok NewMemStore" by (simp add: trust_ok_def store_wf_def nul_free_def NewMemStore_def)
  moreover have "\<forall>op \<in> set [(True, ''k''), (True, ''j''), (False, ''k'')]. CHR 0x00 \<notin> set (snd op)" by simp
  ultimately show ?thesis
    using last_word_on_a_key_decides [of NewMemStore "[(True, ''k''), (True, ''j''), (False, ''k'')]" 1 "''n''" "[]"]
    by simp
qed

subsection \<open>A revocation that is lost\<close>

text \<open>
  \<open>AddLabeled\<close> writes the peers the process has in memory without reading the file
  again. A key that another process removed from the file after this one last read it
  is written back.
\<close>

lemma al_put_other: "(k, p) \<in> set m \<Longrightarrow> k \<noteq> j \<Longrightarrow> (k, p) \<in> set (al_put j q m)"
  by (induction j q m rule: al_put.induct) auto

lemma stale_store_revives_revoked_key:
  assumes "t_persist s" "(k, p) \<in> set (t_m s)" "k \<noteq> peerKey fp name"
    and "AddLabeled now StoreDone fp name label (TrustFile []) s = (e, f', s')"
  shows "\<exists>ps. f' = TrustFile ps \<and> json_peer p \<in> set ps"
  using assms al_put_other [OF assms(2,3)]
  by (force simp: AddLabeled_def add_peer_def save_store_def Let_def)

end
