(* ===== verification/BoundedStore.thy ===== *)
theory BoundedStore
  imports Prelude
begin

text \<open>
  The bounded lists the device keeps: a new item replaces the one with its key, and
  when the list is full the oldest item goes. The locale is what the components that
  keep such a list promise, and its lemmas are what their invariants rest on.
\<close>

definition keep_latest :: "nat \<Rightarrow> ('a \<Rightarrow> bool) \<Rightarrow> 'a \<Rightarrow> 'a list \<Rightarrow> 'a list" where
  "keep_latest cap same x xs =
     (let xs = DeleteFunc same xs; xs = (if length xs \<ge> cap then drop 1 xs else xs) in xs @ [x])"

lemma keep_latest_length:
  assumes "0 < cap" "length xs \<le> cap"
  shows "length (keep_latest cap same x xs) \<le> cap"
proof (cases "length (DeleteFunc same xs) \<ge> cap")
  case True
  then have "length (keep_latest cap same x xs) = length (DeleteFunc same xs) - 1 + 1"
    by (simp add: keep_latest_def)
  also have "\<dots> \<le> cap" using assms True length_DeleteFunc_le [of same xs] by linarith
  finally show ?thesis .
qed (simp add: keep_latest_def)

lemma keep_latest_mem: "y \<in> set (keep_latest cap same x xs) \<Longrightarrow> y = x \<or> (y \<in> set xs \<and> \<not> same y)"
  by (auto simp: keep_latest_def Let_def dest: in_set_dropD split: if_splits)

lemma keep_latest_new [simp]: "x \<in> set (keep_latest cap same x xs)"
  by (simp add: keep_latest_def Let_def)

lemma keep_latest_distinct:
  assumes "distinct (map f xs)" "\<And>y. y \<in> set xs \<Longrightarrow> \<not> same y \<Longrightarrow> f y \<noteq> f x"
  shows "distinct (map f (keep_latest cap same x xs))"
proof -
  let ?ys = "DeleteFunc same xs"
  have d: "distinct (map f (drop n ?ys))" for n
    using distinct_map_DeleteFunc [OF assms(1), of same] by (simp add: drop_map [symmetric])
  have n: "f x \<notin> f ` set (drop n ?ys)" for n
  proof
    assume "f x \<in> f ` set (drop n ?ys)"
    then obtain y where "y \<in> set (drop n ?ys)" "f y = f x" by (metis imageE)
    then show False using assms(2) [of y] by (auto dest: in_set_dropD)
  qed
  show ?thesis
  proof (cases "length ?ys \<ge> cap")
    case True
    then show ?thesis using d [of 1] n [of 1] by (simp add: keep_latest_def)
  next
    case False
    then show ?thesis using d [of 0] n [of 0] by (simp add: keep_latest_def)
  qed
qed

locale bounded_store =
  fixes items :: "'s \<Rightarrow> 'i list"
    and cap :: nat
    and item_key :: "'i \<Rightarrow> 'k"
    and put :: "'i \<Rightarrow> 's \<Rightarrow> 's"
    and prune :: "('i \<Rightarrow> bool) \<Rightarrow> 's \<Rightarrow> 's"
  assumes cap_pos: "0 < cap"
    and items_put: "items (put x s) = keep_latest cap (\<lambda>y. item_key y = item_key x) x (items s)"
    and items_prune: "items (prune P s) = DeleteFunc P (items s)"
begin

lemma put_bounded: "length (items s) \<le> cap \<Longrightarrow> length (items (put x s)) \<le> cap"
  unfolding items_put by (rule keep_latest_length [OF cap_pos])

lemma prune_bounded: "length (items s) \<le> cap \<Longrightarrow> length (items (prune P s)) \<le> cap"
  unfolding items_prune by (rule le_trans [OF length_DeleteFunc_le])

lemma put_keyed: "distinct (map item_key (items s)) \<Longrightarrow> distinct (map item_key (items (put x s)))"
  unfolding items_put by (rule keep_latest_distinct) auto

lemma prune_keyed: "distinct (map item_key (items s)) \<Longrightarrow> distinct (map item_key (items (prune P s)))"
  unfolding items_prune by simp

lemma put_replaces: "y \<in> set (items (put x s)) \<Longrightarrow> item_key y = item_key x \<Longrightarrow> y = x"
  unfolding items_put by (auto dest: keep_latest_mem)

lemma put_from: "y \<in> set (items (put x s)) \<Longrightarrow> y = x \<or> y \<in> set (items s)"
  unfolding items_put by (auto dest: keep_latest_mem)

lemma put_stored: "x \<in> set (items (put x s))"
  unfolding items_put by simp

lemma prune_from: "y \<in> set (items (prune P s)) \<Longrightarrow> y \<in> set (items s) \<and> \<not> P y"
  unfolding items_prune by simp

end

end
