(* ===== verification/LateGrants.thy ===== *)
theory LateGrants
  imports Policy Trust BoundedStore
begin

text \<open>
  \<open>src/internal/agent/approvals.go\<close>, the late approvals: one-shot grants the portal
  installs for a request whose wait had run out. A grant is a pointer in the code and
  is compared as one, so it carries the address it was allocated at (\<open>g_id\<close>).
  \<open>resolve_dir\<close>, the argument of \<open>gate\<close>, stands for \<open>canonicalApprovalDir\<close>, which asks
  the file system.
\<close>

definition LateGrantWindow :: duration where [go_defs]: "LateGrantWindow = 30 * Minute"
definition maxLateGrants :: nat where [go_defs]: "maxLateGrants = 32"
definition maxAskedScripts :: nat where [go_defs]: "maxAskedScripts = 64"
definition askedScriptTTL :: duration where [go_defs]: "askedScriptTTL = 24 * Hour"

record late_grant =
  g_id :: nat
  g_kind :: kind
  g_fp :: string
  g_cwd :: string
  g_key :: string
  g_expires :: gotime

record asked_script =
  s_kind :: kind
  s_fp :: string
  s_label :: string
  s_token :: string
  s_at :: gotime

record late_grants =
  lg_grants :: "late_grant list"
  lg_scripts :: "asked_script list"
  lg_next :: nat

definition no_grants :: late_grants where
  "no_grants = \<lparr>lg_grants = [], lg_scripts = [], lg_next = 0\<rparr>"

definition exec_kind :: "kind \<Rightarrow> bool" where
  "exec_kind k \<longleftrightarrow> k = KindExec \<or> k = KindExecElevated"

definition grantKey :: "request \<Rightarrow> string option" where
  "grantKey req =
     (let k = q_kind req in
      if exec_kind k then Some (CommandPattern (q_cmd req))
      else if k = KindRead \<or> k = KindWrite then Some (q_path req)
      else if k = KindLogs then Some []
      else None)"

definition lateGrantWindow :: "int \<Rightarrow> duration" where
  "lateGrantWindow sec =
     (let mx = LateGrantWindow div Second in
      if sec = 0 \<or> sec > mx then LateGrantWindow
      else if sec < 1 then Second
      else sec * Second)"

definition pruneLocked :: "gotime \<Rightarrow> late_grants \<Rightarrow> late_grants" where
  "pruneLocked now g =
     g\<lparr>lg_grants := DeleteFunc (\<lambda>x. \<not> now < g_expires x) (lg_grants g),
       lg_scripts := DeleteFunc (\<lambda>s. now - s_at s \<ge> askedScriptTTL) (lg_scripts g)\<rparr>"

datatype install_error =
    MustName kind | LogsNameNothing | UnknownKind kind | BadFingerprint string | NoApprover
  | NotCanonicalDir | NamesMany string

fun resolve_loop :: "kind \<Rightarrow> string \<Rightarrow> string \<Rightarrow> string \<Rightarrow> asked_script list \<Rightarrow> install_error + string" where
  "resolve_loop k fp label tok [] = Inr tok"
| "resolve_loop k fp label tok (s # ss) =
     (if s_kind s \<noteq> k \<or> s_fp s \<noteq> fp \<or> s_label s \<noteq> label then resolve_loop k fp label tok ss
      else if tok \<noteq> [] \<and> tok \<noteq> s_token s then Inl (NamesMany label)
      else resolve_loop k fp label (s_token s) ss)"

definition resolveLocked :: "kind \<Rightarrow> string \<Rightarrow> string \<Rightarrow> late_grants \<Rightarrow> install_error + string" where
  "resolveLocked k fp label g =
     (case resolve_loop k fp label [] (lg_scripts g) of
        Inl e \<Rightarrow> Inl e
      | Inr tok \<Rightarrow> if tok = [] then Inr label else Inr tok)"

definition install_check :: "kind \<Rightarrow> string \<Rightarrow> install_error option" where
  "install_check k label =
     (if exec_kind k \<or> k = KindRead \<or> k = KindWrite then (if label = [] then Some (MustName k) else None)
      else if k = KindLogs then (if label \<noteq> [] then Some LogsNameNothing else None)
      else Some (UnknownKind k))"

definition same_grant :: "late_grant \<Rightarrow> late_grant \<Rightarrow> bool" where
  "same_grant x y \<longleftrightarrow> g_kind y = g_kind x \<and> g_fp y = g_fp x \<and> g_key y = g_key x \<and> g_cwd y = g_cwd x"

definition put_grant :: "late_grant \<Rightarrow> late_grants \<Rightarrow> late_grants" where
  "put_grant x g = g\<lparr>lg_grants := keep_latest maxLateGrants (same_grant x) x (lg_grants g)\<rparr>"

definition install ::
  "gotime \<Rightarrow> kind \<Rightarrow> string \<Rightarrow> string \<Rightarrow> string \<Rightarrow> string \<Rightarrow> duration \<Rightarrow> late_grants
   \<Rightarrow> (install_error + late_grant) \<times> late_grants" where
  "install now k label fp approver cwd window g =
     (case install_check k label of
        Some e \<Rightarrow> (Inl e, g)
      | None \<Rightarrow>
         if \<not> ValidFingerprint fp then (Inl (BadFingerprint fp), g)
         else if approver = [] then (Inl NoApprover, g)
         else if exec_kind k \<and> (\<not> IsAbs cwd \<or> Clean cwd \<noteq> cwd) then (Inl NotCanonicalDir, g)
         else
          (let cwd = (if exec_kind k then cwd else []);
               g = pruneLocked now g
           in case (if exec_kind k then resolveLocked k fp label g else Inr label) of
                Inl e \<Rightarrow> (Inl e, g)
              | Inr key \<Rightarrow>
                  (let x = \<lparr>g_id = lg_next g, g_kind = k, g_fp = fp, g_cwd = cwd, g_key = key, g_expires = now + window\<rparr>
                   in (Inr x, (put_grant x g)\<lparr>lg_next := lg_next g + 1\<rparr>))))"

text \<open>\<open>grantOnce\<close> on the fields of the message: what is installed, or the error.\<close>

definition grantOnce ::
  "gotime \<Rightarrow> int \<Rightarrow> kind \<Rightarrow> string \<Rightarrow> string \<Rightarrow> string \<Rightarrow> string \<Rightarrow> late_grants
   \<Rightarrow> (install_error + late_grant) \<times> late_grants" where
  "grantOnce now timeoutSec k pat fp approver cwd g =
     install now k pat fp approver cwd (lateGrantWindow timeoutSec) g"

definition same_script :: "asked_script \<Rightarrow> asked_script \<Rightarrow> bool" where
  "same_script x y \<longleftrightarrow> s_kind y = s_kind x \<and> s_fp y = s_fp x \<and> s_token y = s_token x"

definition put_script :: "asked_script \<Rightarrow> late_grants \<Rightarrow> late_grants" where
  "put_script x g = g\<lparr>lg_scripts := keep_latest maxAskedScripts (same_script x) x (lg_scripts g)\<rparr>"

definition asked :: "gotime \<Rightarrow> request \<Rightarrow> late_grants \<Rightarrow> late_grants" where
  "asked now req g =
     (if \<not> exec_kind (q_kind req) then g
      else (let label = CommandLabel (q_cmd req); tok = CommandPattern (q_cmd req) in
            if label = tok then g
            else put_script \<lparr>s_kind = q_kind req, s_fp = q_peer req, s_label = label, s_token = tok, s_at = now\<rparr>
                   (pruneLocked now g)))"

definition releases_req :: "late_grant \<Rightarrow> request \<Rightarrow> bool" where
  "releases_req x req \<longleftrightarrow>
     g_kind x = q_kind req \<and> g_fp x = q_peer req \<and> Some (g_key x) = grantKey req
     \<and> g_cwd x = (if exec_kind (q_kind req) then q_cwd req else [])"

definition find_grant :: "gotime \<Rightarrow> request \<Rightarrow> late_grants \<Rightarrow> late_grant option \<times> late_grants" where
  "find_grant now req g =
     (if exec_kind (q_kind req) \<and> q_cwd req = [] then (None, g)
      else if grantKey req = None \<or> q_peer req = [] then (None, g)
      else (let g = pruneLocked now g in (find (\<lambda>x. releases_req x req) (lg_grants g), g)))"

definition take_grant :: "gotime \<Rightarrow> late_grant \<Rightarrow> late_grants \<Rightarrow> bool \<times> late_grants" where
  "take_grant now grant g =
     (let g = pruneLocked now g; n = length (lg_grants g);
          g = g\<lparr>lg_grants := DeleteFunc (\<lambda>x. g_id x = g_id grant) (lg_grants g)\<rparr>
      in (length (lg_grants g) < n, g))"

datatype grant_answer = NotHandled | Inactive | LateApproved

definition useLateGrant ::
  "gotime \<Rightarrow> gotime \<Rightarrow> request \<Rightarrow> bool \<Rightarrow> late_grants \<Rightarrow> grant_answer \<times> late_grants" where
  "useLateGrant t1 t2 req checks g =
     (case find_grant t1 req g of
        (None, g) \<Rightarrow> (NotHandled, g)
      | (Some x, g) \<Rightarrow>
          if \<not> checks then (Inactive, g)
          else (case take_grant t2 x g of
                  (False, g) \<Rightarrow> (NotHandled, g)
                | (True, g) \<Rightarrow> (LateApproved, g)))"

subsection \<open>Bounds\<close>

definition grant_slot :: "late_grant \<Rightarrow> kind \<times> string \<times> string \<times> string" where
  "grant_slot x = (g_kind x, g_fp x, g_key x, g_cwd x)"

definition script_slot :: "asked_script \<Rightarrow> kind \<times> string \<times> string" where
  "script_slot x = (s_kind x, s_fp x, s_token x)"

lemma same_slot: "same_grant x = (\<lambda>y. grant_slot y = grant_slot x)" "same_script s = (\<lambda>y. script_slot y = script_slot s)"
  by (auto simp: same_grant_def grant_slot_def same_script_def script_slot_def fun_eq_iff)

interpretation grants_store: bounded_store lg_grants maxLateGrants grant_slot put_grant
  "\<lambda>P g. g\<lparr>lg_grants := DeleteFunc P (lg_grants g)\<rparr>"
  by unfold_locales (simp_all add: maxLateGrants_def put_grant_def same_slot)

interpretation scripts_store: bounded_store lg_scripts maxAskedScripts script_slot put_script
  "\<lambda>P g. g\<lparr>lg_scripts := DeleteFunc P (lg_scripts g)\<rparr>"
  by unfold_locales (simp_all add: maxAskedScripts_def put_script_def same_slot)

lemma put_other [simp]:
  "lg_scripts (put_grant x g) = lg_scripts g" "lg_next (put_grant x g) = lg_next g"
  "lg_grants (put_script s g) = lg_grants g" "lg_next (put_script s g) = lg_next g"
  by (simp_all add: put_grant_def put_script_def)

lemma prune_fields [simp]:
  "lg_grants (pruneLocked t g) = DeleteFunc (\<lambda>x. \<not> t < g_expires x) (lg_grants g)"
  "lg_scripts (pruneLocked t g) = DeleteFunc (\<lambda>s. t - s_at s \<ge> askedScriptTTL) (lg_scripts g)"
  "lg_next (pruneLocked t g) = lg_next g"
  by (simp_all add: pruneLocked_def)

definition grants_wf :: "late_grants \<Rightarrow> bool" where
  "grants_wf g \<longleftrightarrow> length (lg_grants g) \<le> maxLateGrants \<and> distinct (map grant_slot (lg_grants g))
     \<and> distinct (map g_id (lg_grants g)) \<and> (\<forall>x \<in> set (lg_grants g). g_id x < lg_next g)
     \<and> length (lg_scripts g) \<le> maxAskedScripts \<and> distinct (map script_slot (lg_scripts g))"

lemma prune_wf: "grants_wf g \<Longrightarrow> grants_wf (pruneLocked t g)"
  by (auto simp: grants_wf_def intro: le_trans [OF length_DeleteFunc_le])

lemma put_grant_wf:
  assumes "grants_wf g" "g_id x = lg_next g"
  shows "grants_wf ((put_grant x g)\<lparr>lg_next := lg_next g + 1\<rparr>)"
proof -
  have "distinct (map g_id (lg_grants (put_grant x g)))"
    unfolding put_grant_def using assms
    by (auto simp: grants_wf_def intro!: keep_latest_distinct)
  then show ?thesis using assms grants_store.put_bounded grants_store.put_keyed
    by (auto simp: grants_wf_def dest!: grants_store.put_from)
qed

lemma put_script_wf: "grants_wf g \<Longrightarrow> grants_wf (put_script s g)"
  using scripts_store.put_bounded scripts_store.put_keyed by (simp add: grants_wf_def)

lemma install_cases:
  assumes "install t k label fp approver cwd window g = (res, g')"
  obtains (refused) e where "res = Inl e" "g' = g \<or> g' = pruneLocked t g"
  | (installed) x where "res = Inr x" "g' = (put_grant x (pruneLocked t g))\<lparr>lg_next := lg_next g + 1\<rparr>"
      "g_id x = lg_next g" "g_kind x = k" "g_fp x = fp" "g_expires x = t + window" "ValidFingerprint fp"
      "approver \<noteq> []" "exec_kind k \<Longrightarrow> g_cwd x = cwd \<and> IsAbs cwd \<and> Clean cwd = cwd \<and> label \<noteq> []"
      "(if exec_kind k then resolveLocked k fp label (pruneLocked t g) else Inr label) = Inr (g_key x)"
proof -
  show ?thesis
  proof (cases res)
    case (Inl e)
    then show ?thesis using assms refused
      by (auto simp: install_def Let_def split: option.splits sum.splits if_splits)
  next
    case (Inr x)
    show ?thesis
      by (rule installed [of x])
        (use assms Inr in \<open>auto simp: install_def install_check_def Let_def split: option.splits sum.splits if_splits\<close>)
  qed
qed

lemma install_wf: "grants_wf g \<Longrightarrow> grants_wf (snd (install t k label fp ap cwd w g))"
proof -
  assume wf: "grants_wf g"
  obtain res g' where i: "install t k label fp ap cwd w g = (res, g')" by (rule prod.exhaust)
  from i show ?thesis
  proof (cases rule: install_cases)
    case (installed x)
    then show ?thesis using put_grant_wf [OF prune_wf [OF wf], of x t] i by simp
  qed (use wf prune_wf [OF wf] i in auto)
qed

lemma asked_wf: "grants_wf g \<Longrightarrow> grants_wf (asked t req g)"
  by (simp add: asked_def Let_def put_script_wf prune_wf)

lemma find_wf: "grants_wf g \<Longrightarrow> grants_wf (snd (find_grant t req g))"
  by (simp add: find_grant_def Let_def prune_wf)

lemma take_wf: "grants_wf g \<Longrightarrow> grants_wf (snd (take_grant t x g))"
  by (auto simp: take_grant_def Let_def grants_wf_def intro: le_trans [OF length_DeleteFunc_le])

lemma resolve_loop_from:
  "resolve_loop k fp label tok ss = Inr t \<Longrightarrow>
     t = tok \<or> (\<exists>s \<in> set ss. s_kind s = k \<and> s_fp s = fp \<and> s_label s = label \<and> s_token s = t)"
  by (induction k fp label tok ss rule: resolve_loop.induct) (auto split: if_splits)

lemma resolveLocked_from:
  "resolveLocked k fp label g = Inr key \<Longrightarrow>
     key = label \<or> (\<exists>s \<in> set (lg_scripts g). s_kind s = k \<and> s_fp s = fp \<and> s_label s = label \<and> s_token s = key)"
  by (auto simp: resolveLocked_def dest: resolve_loop_from split: sum.splits if_splits)

lemma take_grant_True:
  assumes "take_grant t x g = (True, g')"
  shows "\<exists>y \<in> set (lg_grants g). g_id y = g_id x \<and> t < g_expires y" "\<forall>y \<in> set (lg_grants g'). g_id y \<noteq> g_id x"
    "set (lg_grants g') \<subseteq> set (lg_grants g)"
proof -
  have g': "lg_grants g' = DeleteFunc (\<lambda>y. g_id y = g_id x) (lg_grants (pruneLocked t g))"
    and lt: "length (lg_grants g') < length (lg_grants (pruneLocked t g))"
    using assms by (auto simp: take_grant_def Let_def)
  show "\<exists>y \<in> set (lg_grants g). g_id y = g_id x \<and> t < g_expires y"
  proof (rule ccontr)
    assume "\<not> ?thesis"
    then have "lg_grants g' = lg_grants (pruneLocked t g)"
      unfolding g' DeleteFunc_def by (auto simp: DeleteFunc_def intro!: filter_cong)
    then show False using lt by simp
  qed
  show "\<forall>y \<in> set (lg_grants g'). g_id y \<noteq> g_id x" "set (lg_grants g') \<subseteq> set (lg_grants g)"
    by (auto simp: g')
qed

end
