(* ===== verification/GrantRuns.thy ===== *)
theory GrantRuns
  imports LateGrants
begin

text \<open>
  Late approvals over a whole run of the agent: any order of installs, questions to
  the owner, searches and spendings, at any times. The run keeps a history beside the
  state of the code: what was installed, asked about and released. \<open>find\<close> and \<open>take\<close>
  are separate steps because the code holds the lock for each alone, so requests
  racing for one grant are interleavings of these steps.
\<close>

record installed =
  in_grant :: late_grant
  in_label :: string
  in_time :: gotime
  in_window :: duration

record grant_run =
  gr_state :: late_grants
  gr_installs :: "installed list"
  gr_asked :: "asked_script list"
  gr_found :: "(late_grant \<times> request) list"
  gr_released :: "(late_grant \<times> request \<times> gotime) list"

definition asked_item :: "gotime \<Rightarrow> request \<Rightarrow> asked_script" where
  "asked_item t req = \<lparr>s_kind = q_kind req, s_fp = q_peer req, s_label = CommandLabel (q_cmd req),
     s_token = CommandPattern (q_cmd req), s_at = t\<rparr>"

definition start_run :: grant_run where
  "start_run = \<lparr>gr_state = no_grants, gr_installs = [], gr_asked = [], gr_found = [], gr_released = []\<rparr>"

inductive grant_step :: "grant_run \<Rightarrow> grant_run \<Rightarrow> bool" where
  step_install:
    "grantOnce t sec k label fp approver cwd (gr_state w) = (Inr x, g) \<Longrightarrow>
     grant_step w (w\<lparr>gr_state := g, gr_installs := gr_installs w @
       [\<lparr>in_grant = x, in_label = label, in_time = t, in_window = lateGrantWindow sec\<rparr>]\<rparr>)"
| step_refused:
    "grantOnce t sec k label fp approver cwd (gr_state w) = (Inl e, g) \<Longrightarrow>
     grant_step w (w\<lparr>gr_state := g\<rparr>)"
| step_asked:
    "grant_step w (w\<lparr>gr_state := asked t req (gr_state w), gr_asked := gr_asked w @ [asked_item t req]\<rparr>)"
| step_find:
    "find_grant t req (gr_state w) = (Some x, g) \<Longrightarrow>
     grant_step w (w\<lparr>gr_state := g, gr_found := gr_found w @ [(x, req)]\<rparr>)"
| step_find_none:
    "find_grant t req (gr_state w) = (None, g) \<Longrightarrow> grant_step w (w\<lparr>gr_state := g\<rparr>)"
| step_take:
    "(x, req) \<in> set (gr_found w) \<Longrightarrow> take_grant t x (gr_state w) = (True, g) \<Longrightarrow>
     grant_step w (w\<lparr>gr_state := g, gr_released := gr_released w @ [(x, req, t)]\<rparr>)"
| step_take_lost:
    "(x, req) \<in> set (gr_found w) \<Longrightarrow> take_grant t x (gr_state w) = (False, g) \<Longrightarrow>
     grant_step w (w\<lparr>gr_state := g\<rparr>)"

inductive grant_reachable :: "grant_run \<Rightarrow> bool" where
  reach_start: "grant_reachable start_run"
| reach_step: "grant_reachable w \<Longrightarrow> grant_step w w' \<Longrightarrow> grant_reachable w'"

subsection \<open>The invariant\<close>

definition justified :: "grant_run \<Rightarrow> installed \<Rightarrow> bool" where
  "justified w i \<longleftrightarrow>
     (let x = in_grant i in
      ValidFingerprint (g_fp x) \<and> g_expires x = in_time i + in_window i
      \<and> 0 < in_window i \<and> in_window i \<le> LateGrantWindow
      \<and> (g_key x = in_label i
         \<or> (\<exists>s \<in> set (gr_asked w). s_kind s = g_kind x \<and> s_fp s = g_fp x \<and> s_label s = in_label i
              \<and> s_token s = g_key x)))"

definition run_ok :: "grant_run \<Rightarrow> bool" where
  "run_ok w \<longleftrightarrow> grants_wf (gr_state w)
     \<and> set (lg_scripts (gr_state w)) \<subseteq> set (gr_asked w)
     \<and> set (lg_grants (gr_state w)) \<subseteq> in_grant ` set (gr_installs w)
     \<and> distinct (map (g_id \<circ> in_grant) (gr_installs w))
     \<and> (\<forall>i \<in> set (gr_installs w). justified w i \<and> g_id (in_grant i) < lg_next (gr_state w))
     \<and> (\<forall>(x, req) \<in> set (gr_found w). x \<in> in_grant ` set (gr_installs w) \<and> releases_req x req)
     \<and> (\<forall>(x, req, t) \<in> set (gr_released w). (x, req) \<in> set (gr_found w) \<and> t < g_expires x)
     \<and> distinct (map (g_id \<circ> fst) (gr_released w))
     \<and> g_id ` set (lg_grants (gr_state w)) \<inter> (g_id \<circ> fst) ` set (gr_released w) = {}"

lemma window_range: "0 < lateGrantWindow sec \<and> lateGrantWindow sec \<le> LateGrantWindow"
  by (auto simp: lateGrantWindow_def LateGrantWindow_def Let_def)

lemma run_okD:
  assumes "run_ok w"
  shows "grants_wf (gr_state w)" "set (lg_scripts (gr_state w)) \<subseteq> set (gr_asked w)"
    "set (lg_grants (gr_state w)) \<subseteq> in_grant ` set (gr_installs w)"
    "distinct (map (g_id \<circ> in_grant) (gr_installs w))"
    "\<forall>i \<in> set (gr_installs w). justified w i \<and> g_id (in_grant i) < lg_next (gr_state w)"
    "\<forall>(x, req) \<in> set (gr_found w). x \<in> in_grant ` set (gr_installs w) \<and> releases_req x req"
    "\<forall>(x, req, t) \<in> set (gr_released w). (x, req) \<in> set (gr_found w) \<and> t < g_expires x"
    "distinct (map (g_id \<circ> fst) (gr_released w))"
    "g_id ` set (lg_grants (gr_state w)) \<inter> (g_id \<circ> fst) ` set (gr_released w) = {}"
  using assms unfolding run_ok_def by blast+

text \<open>The grants and scripts only shrink and the history stays: pruning, refusals, lost races.\<close>

lemma run_ok_shrink:
  assumes "run_ok w" "grants_wf g" "lg_next g = lg_next (gr_state w)"
    "set (lg_scripts g) \<subseteq> set (lg_scripts (gr_state w))" "set (lg_grants g) \<subseteq> set (lg_grants (gr_state w))"
  shows "run_ok (w\<lparr>gr_state := g\<rparr>)"
proof -
  have "justified (w\<lparr>gr_state := g\<rparr>) = justified w" by (simp add: justified_def fun_eq_iff)
  then show ?thesis using run_okD [OF assms(1)] assms(2-)
    unfolding run_ok_def by (simp add: subset_iff) blast
qed

lemma find_grant_Some:
  assumes "find_grant t req g = (Some x, g')"
  shows "x \<in> set (lg_grants g) \<and> releases_req x req \<and> g' = pruneLocked t g \<and> t < g_expires x"
proof -
  have "g' = pruneLocked t g" "find (\<lambda>x. releases_req x req) (lg_grants g') = Some x"
    using assms by (auto simp: find_grant_def Let_def split: if_splits)
  then show ?thesis using find_mem [of _ "lg_grants g'" x] by auto
qed

lemma find_grant_state: "snd (find_grant t req g) = g \<or> snd (find_grant t req g) = pruneLocked t g"
  by (simp add: find_grant_def Let_def)

lemma prune_shrinks:
  "run_ok w \<Longrightarrow> run_ok (w\<lparr>gr_state := pruneLocked t (gr_state w)\<rparr>)"
  by (rule run_ok_shrink) (auto dest: run_okD(1) intro: prune_wf)

lemma take_shrinks:
  assumes "run_ok w" "take_grant t x (gr_state w) = (b, g)"
  shows "run_ok (w\<lparr>gr_state := g\<rparr>)"
proof (rule run_ok_shrink [OF assms(1)])
  show "grants_wf g" using take_wf [OF run_okD(1) [OF assms(1)], of t x] assms(2) by simp
qed (use assms(2) in \<open>auto simp: take_grant_def Let_def\<close>)

lemma same_state [simp]: "w\<lparr>gr_state := gr_state w\<rparr> = (w :: grant_run)"
  by simp


subsection \<open>Every step keeps the invariant\<close>

lemma disjoint_insert: "A \<subseteq> insert n B \<Longrightarrow> B \<inter> C = {} \<Longrightarrow> n \<notin> C \<Longrightarrow> A \<inter> C = {}"
  by blast

lemma step_install_ok:
  assumes ok: "run_ok w" and i: "grantOnce t sec k label fp approver cwd (gr_state w) = (Inr x, g)"
  shows "run_ok (w\<lparr>gr_state := g, gr_installs := gr_installs w @
       [\<lparr>in_grant = x, in_label = label, in_time = t, in_window = lateGrantWindow sec\<rparr>]\<rparr>)" (is "run_ok ?w")
proof -
  let ?p = "pruneLocked t (gr_state w)"
  let ?i = "\<lparr>in_grant = x, in_label = label, in_time = t, in_window = lateGrantWindow sec\<rparr>"
  note o = run_okD [OF ok]
  from i have "install t k label fp approver cwd (lateGrantWindow sec) (gr_state w) = (Inr x, g)"
    by (simp add: grantOnce_def)
  then obtain g: "g = (put_grant x ?p)\<lparr>lg_next := lg_next (gr_state w) + 1\<rparr>" "g_id x = lg_next (gr_state w)"
    "g_kind x = k" "g_fp x = fp" "g_expires x = t + lateGrantWindow sec" "ValidFingerprint fp"
    and key: "(if exec_kind k then resolveLocked k fp label ?p else Inr label) = Inr (g_key x)"
    by (rule install_cases) auto
  have scripts: "set (lg_scripts ?p) \<subseteq> set (gr_asked w)" using o(2) by auto
  have "g_key x = label \<or> (\<exists>s \<in> set (gr_asked w). s_kind s = k \<and> s_fp s = fp \<and> s_label s = label \<and> s_token s = g_key x)"
    using key scripts resolveLocked_from [of k fp label ?p "g_key x"] by (auto split: if_splits)
  then have new: "justified ?w ?i"
    using g window_range [of sec] by (auto simp: justified_def)
  have old: "justified ?w j = justified w j" for j by (simp add: justified_def)
  have "grants_wf g" using put_grant_wf [OF prune_wf [OF o(1)], of x t] g by simp
  moreover have "set (lg_grants g) \<subseteq> in_grant ` set (gr_installs ?w)"
    using o(3) grants_store.put_from [of _ x ?p] by (auto simp: g(1))
  moreover have "g_id ` set (lg_grants g) \<inter> (g_id \<circ> fst) ` set (gr_released w) = {}"
  proof -
    have fresh: "lg_next (gr_state w) \<notin> (g_id \<circ> fst) ` set (gr_released w)"
    proof
      assume "lg_next (gr_state w) \<in> (g_id \<circ> fst) ` set (gr_released w)"
      then obtain y req t' where y: "(y, req, t') \<in> set (gr_released w)" "g_id y = lg_next (gr_state w)" by auto
      then have "y \<in> in_grant ` set (gr_installs w)" using o(6,7) by blast
      then show False using o(5) y(2) by auto
    qed
    have "y = x \<or> y \<in> set (lg_grants (gr_state w))" if "y \<in> set (lg_grants g)" for y
      using grants_store.put_from [of y x ?p] that unfolding g(1) by auto
    then have "g_id ` set (lg_grants g) \<subseteq> insert (lg_next (gr_state w)) (g_id ` set (lg_grants (gr_state w)))"
      unfolding g(2) [symmetric] by blast
    then show ?thesis by (rule disjoint_insert [OF _ o(9) fresh])
  qed
  moreover have "distinct (map (g_id \<circ> in_grant) (gr_installs ?w))"
  proof -
    have "lg_next (gr_state w) \<notin> (g_id \<circ> in_grant) ` set (gr_installs w)" using o(5) by auto
    then show ?thesis using o(4) g(2) by simp
  qed
  moreover have "\<forall>j \<in> set (gr_installs ?w). justified ?w j \<and> g_id (in_grant j) < lg_next g"
    using o(5) old new g(1,2) by (auto simp: less_Suc_eq)
  moreover have "set (lg_scripts g) \<subseteq> set (gr_asked w)" using scripts g(1) by simp
  ultimately show ?thesis using o(6-8) unfolding run_ok_def by auto
qed

lemma step_asked_ok:
  assumes ok: "run_ok w"
  shows "run_ok (w\<lparr>gr_state := asked t req (gr_state w), gr_asked := gr_asked w @ [asked_item t req]\<rparr>)"
    (is "run_ok ?w")
proof -
  note o = run_okD [OF ok]
  have j: "justified w i \<Longrightarrow> justified ?w i" for i
    by (auto simp: justified_def Let_def)
  have "set (lg_scripts (asked t req (gr_state w))) \<subseteq> set (gr_asked ?w)"
    using o(2) scripts_store.put_from [of _ "asked_item t req" "pruneLocked t (gr_state w)"]
    by (auto simp: asked_def Let_def asked_item_def)
  moreover have "set (lg_grants (asked t req (gr_state w))) \<subseteq> set (lg_grants (gr_state w))"
    "lg_next (asked t req (gr_state w)) = lg_next (gr_state w)"
    by (auto simp: asked_def Let_def)
  ultimately show ?thesis
    using o(3-9) asked_wf [OF o(1), of t req] j unfolding run_ok_def by (simp add: subset_iff) blast
qed

lemma step_take_ok:
  assumes ok: "run_ok w" and f: "(x, req) \<in> set (gr_found w)"
    and tk: "take_grant t x (gr_state w) = (True, g)"
  shows "run_ok (w\<lparr>gr_state := g, gr_released := gr_released w @ [(x, req, t)]\<rparr>)" (is "run_ok ?w")
proof -
  note o = run_okD [OF ok] and shrunk = run_okD [OF take_shrinks [OF ok tk], simplified]
  note tt = take_grant_True [OF tk]
  obtain y where y: "y \<in> set (lg_grants (gr_state w))" "g_id y = g_id x" "t < g_expires y" using tt(1) by blast
  have "x \<in> in_grant ` set (gr_installs w)" using o(6) f by blast
  moreover have "y \<in> in_grant ` set (gr_installs w)" using y(1) o(3) by blast
  ultimately have "x = y" using y(2) o(4) by (auto simp: distinct_map inj_on_def)
  then have fresh: "g_id x \<notin> (g_id \<circ> fst) ` set (gr_released w)" "t < g_expires x" using y o(9) by auto
  have j: "justified ?w = justified w" by (simp add: justified_def fun_eq_iff)
  have "justified (w\<lparr>gr_state := g\<rparr>) = justified w" by (simp add: justified_def fun_eq_iff)
  then have "\<forall>i \<in> set (gr_installs w). justified w i \<and> g_id (in_grant i) < lg_next g"
    using shrunk(5) by simp
  moreover have "g_id ` set (lg_grants g) \<inter> (g_id \<circ> fst) ` set (gr_released ?w) = {}"
    using shrunk(9) tt(2) by auto
  moreover have "distinct (map (g_id \<circ> fst) (gr_released ?w))" using o(8) fresh(1) by auto
  moreover have "\<forall>(x, req, t) \<in> set (gr_released ?w). (x, req) \<in> set (gr_found w) \<and> t < g_expires x"
    using o(7) f fresh(2) by auto
  ultimately show ?thesis using shrunk(1-4,6) j unfolding run_ok_def by simp
qed

lemma grant_step_ok:
  assumes "grant_step w w'" "run_ok w"
  shows "run_ok w'"
  using assms
proof (cases rule: grant_step.cases)
  case (step_refused t sec k label fp approver cwd e g)
  then have "g = gr_state w \<or> g = pruneLocked t (gr_state w)"
    unfolding grantOnce_def by (elim install_cases) auto
  then show ?thesis using step_refused(1) prune_shrinks [OF assms(2)] assms(2) by auto
next
  case (step_find t req x g)
  note f = find_grant_Some [OF step_find(2)]
  have "run_ok (w\<lparr>gr_state := g\<rparr>)" using prune_shrinks [OF assms(2)] f by simp
  then show ?thesis using f run_okD(3) [OF assms(2)] unfolding step_find(1) run_ok_def
    by (auto simp: justified_def)
next
  case (step_find_none t req g)
  then show ?thesis using find_grant_state [of t req "gr_state w"] prune_shrinks [OF assms(2)] assms(2) by auto
qed (auto intro: step_install_ok step_asked_ok step_take_ok take_shrinks)

lemma grant_reachable_ok: "grant_reachable w \<Longrightarrow> run_ok w"
proof (induction rule: grant_reachable.induct)
  case reach_start
  show ?case by (simp add: run_ok_def start_run_def no_grants_def grants_wf_def)
qed (rule grant_step_ok)


lemma released_installed:
  assumes "run_ok w" "(x, req, t) \<in> set (gr_released w)"
  obtains i where "i \<in> set (gr_installs w)" "in_grant i = x" "justified w i" "releases_req x req" "t < g_expires x"
proof -
  note o = run_okD [OF assms(1)]
  have f: "(x, req) \<in> set (gr_found w)" "t < g_expires x" using o(7) assms(2) by auto
  then have "x \<in> in_grant ` set (gr_installs w)" "releases_req x req" using o(6) by auto
  then show ?thesis using that o(5) f(2) by auto
qed

section \<open>Properties of late approvals\<close>


definition demo_fp :: string where
  "demo_fp = fp_prefix @ replicate 43 (CHR ''A'') @ ''=''"

definition demo_req :: request where
  "demo_req = \<lparr>q_kind = KindRead, q_cmd = [], q_path = ''/etc/hosts'', q_cwd = [], q_peer = demo_fp, q_via = []\<rparr>"

definition demo_late :: late_grant where
  "demo_late = \<lparr>g_id = 0, g_kind = KindRead, g_fp = demo_fp, g_cwd = [], g_key = ''/etc/hosts'', g_expires = 5 + 60 * Second\<rparr>"

definition demo_held :: late_grants where
  "demo_held = \<lparr>lg_grants = [demo_late], lg_scripts = [], lg_next = 1\<rparr>"

definition demo_run1 :: grant_run where
  "demo_run1 = start_run\<lparr>gr_state := demo_held, gr_installs :=
     [\<lparr>in_grant = demo_late, in_label = ''/etc/hosts'', in_time = 5, in_window = lateGrantWindow 60\<rparr>]\<rparr>"

definition demo_run2 :: grant_run where
  "demo_run2 = demo_run1\<lparr>gr_found := [(demo_late, demo_req)]\<rparr>"

definition demo_run3 :: grant_run where
  "demo_run3 = demo_run2\<lparr>gr_state := demo_held\<lparr>lg_grants := []\<rparr>, gr_released := [(demo_late, demo_req, 7)]\<rparr>"

lemmas demo_defs = start_run_def no_grants_def demo_run1_def demo_run2_def demo_run3_def demo_held_def demo_late_def demo_req_def

lemma demo_fp_valid: "ValidFingerprint demo_fp"
  by code_simp

lemma demo_steps: "grant_step start_run demo_run1" "grant_step demo_run1 demo_run2" "grant_step demo_run2 demo_run3"
proof -
  have w: "lateGrantWindow 60 = 60 * Second" by (simp add: lateGrantWindow_def LateGrantWindow_def)
  have "grantOnce 5 60 KindRead ''/etc/hosts'' demo_fp ''ann'' [] no_grants = (Inr demo_late, demo_held)"
    using demo_fp_valid w
    by (simp add: grantOnce_def install_def install_check_def exec_kind_def Let_def pruneLocked_def put_grant_def
        keep_latest_def DeleteFunc_def demo_defs maxLateGrants_def)
  then show "grant_step start_run demo_run1"
    using step_install [of 5 60 KindRead "''/etc/hosts''" demo_fp "''ann''" "[]" start_run demo_late demo_held]
    by (simp add: demo_run1_def start_run_def)
  have "find_grant 6 demo_req demo_held = (Some demo_late, demo_held)"
    by (simp add: find_grant_def exec_kind_def grantKey_def releases_req_def Let_def pruneLocked_def DeleteFunc_def
        demo_defs demo_fp_def fp_prefix_def)
  then show "grant_step demo_run1 demo_run2"
    using step_find [of 6 demo_req demo_run1 demo_late demo_held] by (simp add: demo_run1_def demo_run2_def start_run_def)
  have "take_grant 7 demo_late demo_held = (True, demo_held\<lparr>lg_grants := []\<rparr>)"
    by (simp add: take_grant_def Let_def pruneLocked_def DeleteFunc_def demo_held_def demo_late_def)
  then show "grant_step demo_run2 demo_run3"
    using step_take [of demo_late demo_req demo_run2 7 "demo_held\<lparr>lg_grants := []\<rparr>"]
    by (simp add: demo_run2_def demo_run3_def demo_run1_def start_run_def)
qed

lemma demo_reachable: "grant_reachable demo_run3"
  by (meson demo_steps reach_start reach_step)


text \<open>
  A late approval releases what it was given for and nothing else: a request of
  the same kind from the same controller, for the same command or path in the same
  directory, while the window the portal asked for, at most half an hour, is open.
\<close>

theorem late_approval_matches_request:
  assumes "grant_reachable w" and "(x, req, t) \<in> set (gr_released w)"
  shows "\<exists>i \<in> set (gr_installs w). in_grant i = x \<and> g_kind x = q_kind req \<and> g_fp x = q_peer req
     \<and> grantKey req = Some (g_key x) \<and> (exec_kind (q_kind req) \<longrightarrow> g_cwd x = q_cwd req)
     \<and> t < in_time i + in_window i \<and> in_window i \<le> LateGrantWindow"
proof -
  obtain i where "i \<in> set (gr_installs w)" "in_grant i = x" "justified w i" "releases_req x req" "t < g_expires x"
    by (rule released_installed [OF grant_reachable_ok [OF assms(1)] assms(2)])
  then show ?thesis by (intro bexI [of _ i]) (auto simp: releases_req_def justified_def)
qed

theorem late_approval_matches_request_witness:
  "\<exists>i \<in> set (gr_installs demo_run3). g_fp (in_grant i) = q_peer demo_req \<and> 7 < in_time i + in_window i"
proof -
  have "(demo_late, demo_req, 7) \<in> set (gr_released demo_run3)" by (simp add: demo_run3_def)
  from late_approval_matches_request [OF demo_reachable this] show ?thesis by metis
qed

text \<open>
  A script is released only by an approval of that script: the approval named its
  whole token, or it named a label under which this device had asked the owner about
  the script with exactly this token, for the same controller. A second script that
  shares the visible prefix of the label is not released by it.
\<close>

theorem late_approval_binds_whole_script:
  assumes "grant_reachable w" and "(x, req, t) \<in> set (gr_released w)"
    and "exec_kind (q_kind req)" and "Canonical (q_cmd req) = Some tok"
  shows "\<exists>i \<in> set (gr_installs w). in_grant i = x \<and> (in_label i = tok
     \<or> (\<exists>s \<in> set (gr_asked w). s_kind s = q_kind req \<and> s_fp s = q_peer req \<and> s_label s = in_label i \<and> s_token s = tok))"
proof -
  obtain i where i: "i \<in> set (gr_installs w)" "in_grant i = x" "justified w i" "releases_req x req"
    by (rule released_installed [OF grant_reachable_ok [OF assms(1)] assms(2)])
  have "grantKey req = Some tok" using assms(3,4) by (simp add: grantKey_def CommandPattern_def)
  then show ?thesis using i by (intro bexI [of _ i]) (auto simp: releases_req_def justified_def Let_def)
qed

definition script_tok :: string where "script_tok = CommandPattern echo_hi_cmd"

definition script_req :: request where
  "script_req = \<lparr>q_kind = KindExec, q_cmd = echo_hi_cmd, q_path = [], q_cwd = ''/'', q_peer = demo_fp, q_via = []\<rparr>"

definition script_late :: late_grant where
  "script_late = \<lparr>g_id = 0, g_kind = KindExec, g_fp = demo_fp, g_cwd = ''/'', g_key = script_tok, g_expires = 5 + 60 * Second\<rparr>"

definition script_run1 :: grant_run where
  "script_run1 = start_run\<lparr>gr_state := \<lparr>lg_grants = [script_late], lg_scripts = [], lg_next = 1\<rparr>, gr_installs :=
     [\<lparr>in_grant = script_late, in_label = script_tok, in_time = 5, in_window = lateGrantWindow 60\<rparr>]\<rparr>"

definition script_run3 :: grant_run where
  "script_run3 = script_run1\<lparr>gr_state := \<lparr>lg_grants = [], lg_scripts = [], lg_next = 1\<rparr>,
     gr_found := [(script_late, script_req)], gr_released := [(script_late, script_req, 7)]\<rparr>"

lemma script_tok: "Canonical echo_hi_cmd = Some script_tok" "script_tok \<noteq> []"
proof -
  obtain raw where t: "Canonical echo_hi_cmd = Some (token POSIX raw)"
    using echo_hi_Command by (rule Canonical_Command)
  then show "Canonical echo_hi_cmd = Some script_tok" "script_tok \<noteq> []"
    by (simp_all add: script_tok_def CommandPattern_def token_def CanonicalPrefix_def)
qed

lemma script_reachable: "grant_reachable script_run3"
proof -
  have w: "lateGrantWindow 60 = 60 * Second" by (simp add: lateGrantWindow_def LateGrantWindow_def)
  have c: "IsAbs ''/''" "Clean ''/'' = ''/''" by code_simp+
  let ?h = "\<lparr>lg_grants = [script_late], lg_scripts = [], lg_next = 1\<rparr>"
  have "grantOnce 5 60 KindExec script_tok demo_fp ''ann'' ''/'' no_grants = (Inr script_late, ?h)"
    using demo_fp_valid w c script_tok(2)
    by (simp add: grantOnce_def install_def install_check_def exec_kind_def Let_def pruneLocked_def put_grant_def
        keep_latest_def DeleteFunc_def resolveLocked_def script_late_def no_grants_def maxLateGrants_def)
  then have 1: "grant_step start_run script_run1"
    using step_install [of 5 60 KindExec script_tok demo_fp "''ann''" "''/''" start_run script_late ?h]
    by (simp add: script_run1_def start_run_def)
  have k: "grantKey script_req = Some script_tok"
    by (simp add: grantKey_def exec_kind_def script_req_def script_tok_def)
  have p: "demo_fp \<noteq> []" by (simp add: demo_fp_def fp_prefix_def)
  have "find_grant 6 script_req ?h = (Some script_late, ?h)"
    unfolding find_grant_def k using p k
    by (simp add: exec_kind_def releases_req_def Let_def pruneLocked_def DeleteFunc_def script_late_def script_req_def)
  then have 2: "grant_step script_run1 (script_run1\<lparr>gr_found := [(script_late, script_req)]\<rparr>)"
    using step_find [of 6 script_req script_run1 script_late ?h] by (simp add: script_run1_def start_run_def)
  have "take_grant 7 script_late ?h = (True, \<lparr>lg_grants = [], lg_scripts = [], lg_next = 1\<rparr>)"
    by (simp add: take_grant_def Let_def pruneLocked_def DeleteFunc_def script_late_def)
  then have "grant_step (script_run1\<lparr>gr_found := [(script_late, script_req)]\<rparr>) script_run3"
    using step_take [of script_late script_req "script_run1\<lparr>gr_found := [(script_late, script_req)]\<rparr>" 7
        "\<lparr>lg_grants = [], lg_scripts = [], lg_next = 1\<rparr>"]
    by (simp add: script_run3_def script_run1_def start_run_def)
  then show ?thesis using 1 2 by (meson reach_start reach_step)
qed

theorem late_approval_binds_whole_script_witness:
  "\<exists>i \<in> set (gr_installs script_run3). in_grant i = script_late \<and> in_label i = script_tok"
proof -
  have r: "(script_late, script_req, 7) \<in> set (gr_released script_run3)" "exec_kind (q_kind script_req)"
    "Canonical (q_cmd script_req) = Some script_tok" "gr_asked script_run3 = []"
    using script_tok by (simp_all add: script_run3_def script_run1_def start_run_def script_req_def exec_kind_def)
  from late_approval_binds_whole_script [OF script_reachable r(1-3)] show ?thesis using r(4) by simp
qed

text \<open>
  The device keeps a bounded memory of approvals: at any point of any run at most
  32 grants, no two for the same request, and at most 64 scripts it asked about.
\<close>

theorem late_approvals_are_bounded:
  assumes "grant_reachable w"
  shows "length (lg_grants (gr_state w)) \<le> maxLateGrants \<and> distinct (map grant_slot (lg_grants (gr_state w)))
    \<and> length (lg_scripts (gr_state w)) \<le> maxAskedScripts \<and> distinct (map script_slot (lg_scripts (gr_state w)))"
  using run_okD(1) [OF grant_reachable_ok [OF assms]] by (simp add: grants_wf_def)

theorem late_approvals_are_bounded_witness:
  "length (lg_grants (gr_state demo_run1)) = 1 \<and> length (lg_grants (gr_state demo_run1)) \<le> maxLateGrants"
proof -
  have "grant_reachable demo_run1" by (meson demo_steps reach_start reach_step)
  from late_approvals_are_bounded [OF this] show ?thesis by (simp add: demo_run1_def demo_held_def)
qed

end
