(* ===== verification/Pairing.thy ===== *)
theory Pairing
  imports Prelude
begin

text \<open>
  \<open>src/internal/console/console.go\<close>, the pairing half of the console: requests of
  unknown controllers waiting for the owner. An entry is a pointer that a waiting dial
  keeps after it left the map, so entries live in a heap (\<open>c_heap\<close>, the address is the
  index) and the map holds addresses. \<open>c_subs\<close> is the number of front-ends attending,
  \<open>c_hook\<close> whether a pairing observer is installed. The channel \<open>decided\<close> is the flag
  \<open>pe_decided\<close>: closed once, never reopened.
\<close>

definition pairTTL :: duration where [go_defs]: "pairTTL = 5 * Minute"
definition maxPendingPairs :: nat where [go_defs]: "maxPendingPairs = 16"
definition pairNotifyWindow :: duration where [go_defs]: "pairNotifyWindow = 30 * Minute"
definition DefaultTimeout :: duration where [go_defs]: "DefaultTimeout = 60 * Second"
definition MinTimeout :: duration where [go_defs]: "MinTimeout = 10 * Second"
definition MaxTimeout :: duration where [go_defs]: "MaxTimeout = 10 * Minute"

record pair_entry =
  pe_fp :: string
  pe_name :: string
  pe_label :: string
  pe_created :: gotime
  pe_decided :: bool
  pe_trust :: bool
  pe_expires :: gotime

record console =
  c_heap :: "pair_entry list"
  c_pairs :: "(string \<times> nat) list"
  c_timeout :: duration
  c_subs :: nat
  c_hook :: bool
  c_notified :: "(string \<times> gotime) list"

definition new_console :: "bool \<Rightarrow> console" where
  "new_console hook = \<lparr>c_heap = [], c_pairs = [], c_timeout = DefaultTimeout, c_subs = 0, c_hook = hook, c_notified = []\<rparr>"

definition SetTimeout :: "duration \<Rightarrow> console \<Rightarrow> duration \<times> console" where
  "SetTimeout d s =
     (let d = (if d = 0 then DefaultTimeout else d);
          d = (if d < MinTimeout then MinTimeout else d);
          d = (if d > MaxTimeout then MaxTimeout else d)
      in (d, s\<lparr>c_timeout := d\<rparr>))"

definition pruneExpiredPairsLocked :: "gotime \<Rightarrow> console \<Rightarrow> console" where
  "pruneExpiredPairsLocked now s =
     s\<lparr>c_pairs := filter (\<lambda>(_, a). \<not> pe_expires (c_heap s ! a) < now) (c_pairs s)\<rparr>"

definition undecidedPairsLocked :: "console \<Rightarrow> nat" where
  "undecidedPairsLocked s = length (filter (\<lambda>(_, a). \<not> pe_decided (c_heap s ! a)) (c_pairs s))"

definition claimPairNotifyLocked :: "gotime \<Rightarrow> string \<Rightarrow> console \<Rightarrow> bool \<times> console" where
  "claimPairNotifyLocked now fp s =
     (let n = filter (\<lambda>(_, t). \<not> now - t \<ge> pairNotifyWindow) (c_notified s);
          s = s\<lparr>c_notified := n\<rparr>
      in if fp \<in> fst ` set n \<or> length n \<ge> maxPendingPairs then (False, s)
         else (True, s\<lparr>c_notified := al_put fp now n\<rparr>))"

datatype pair_answer = Answer bool | TooManyPairings | Waiting nat

definition refresh_entry :: "gotime \<Rightarrow> string \<Rightarrow> string \<Rightarrow> pair_entry \<Rightarrow> pair_entry" where
  "refresh_entry now name label p =
     p\<lparr>pe_name := (if name \<noteq> [] then name else pe_name p),
       pe_label := (if label \<noteq> [] then label else pe_label p), pe_expires := now + pairTTL\<rparr>"

text \<open>\<open>askPair\<close> up to its wait: the answer, whether the observer is told, and the state.\<close>

definition askPair_start ::
  "gotime \<Rightarrow> string \<Rightarrow> string \<Rightarrow> string \<Rightarrow> bool \<Rightarrow> console \<Rightarrow> pair_answer \<times> bool \<times> console" where
  "askPair_start now fp name label waitForDecision s =
     (let s = pruneExpiredPairsLocked now s;
          hasFrontend = (waitForDecision \<and> c_subs s > 0) in
      case map_of (c_pairs s) fp of
        Some a \<Rightarrow>
          (if pe_decided (c_heap s ! a) then
             (Answer (pe_trust (c_heap s ! a)), False, s\<lparr>c_pairs := al_del fp (c_pairs s)\<rparr>)
           else
             (if hasFrontend then Waiting a else Answer False, False,
              s\<lparr>c_heap := (c_heap s)[a := refresh_entry now name label (c_heap s ! a)]\<rparr>))
      | None \<Rightarrow>
          (if undecidedPairsLocked s \<ge> maxPendingPairs then (TooManyPairings, False, s)
           else
             (let a = length (c_heap s);
                  s = s\<lparr>c_heap := c_heap s @ [\<lparr>pe_fp = fp, pe_name = name, pe_label = label, pe_created = now,
                           pe_decided = False, pe_trust = False, pe_expires = now + pairTTL\<rparr>],
                        c_pairs := al_put fp a (c_pairs s)\<rparr>;
                  (report, s) = (if c_hook s then claimPairNotifyLocked now fp s else (False, s))
              in (if hasFrontend then Waiting a else Answer False, report, s))))"

text \<open>The two ends of the wait: the verdict arrived, or time ran out.\<close>

definition askPair_decided :: "string \<Rightarrow> nat \<Rightarrow> console \<Rightarrow> bool \<times> console" where
  "askPair_decided fp a s =
     (pe_trust (c_heap s ! a),
      if map_of (c_pairs s) fp = Some a then s\<lparr>c_pairs := al_del fp (c_pairs s)\<rparr> else s)"

definition askPair_timeout :: "console \<Rightarrow> bool \<times> console" where
  "askPair_timeout s = (False, s)"

definition DecidePair :: "gotime \<Rightarrow> string \<Rightarrow> bool \<Rightarrow> console \<Rightarrow> bool \<times> console" where
  "DecidePair now fp trust s =
     (let s = pruneExpiredPairsLocked now s in
      case map_of (c_pairs s) fp of
        None \<Rightarrow> (False, s)
      | Some a \<Rightarrow>
          (if pe_decided (c_heap s ! a) then (False, s)
           else
             (let p = (c_heap s ! a)\<lparr>pe_trust := trust, pe_decided := True\<rparr> in
              if \<not> trust then (True, s\<lparr>c_heap := (c_heap s)[a := p], c_pairs := al_del fp (c_pairs s)\<rparr>)
              else (True, s\<lparr>c_heap := (c_heap s)[a := p\<lparr>pe_expires := now + pairTTL\<rparr>]\<rparr>))))"

text \<open>What \<open>State\<close> shows of the pairings: the undecided ones, after pruning.\<close>

definition shown_pairs :: "gotime \<Rightarrow> console \<Rightarrow> pair_entry list \<times> console" where
  "shown_pairs now s =
     (let s = pruneExpiredPairsLocked now s
      in (map (\<lambda>(_, a). c_heap s ! a) (filter (\<lambda>(_, a). \<not> pe_decided (c_heap s ! a)) (c_pairs s)), s))"

subsection \<open>Runs\<close>

text \<open>The history beside the state: approvals given, dials waiting, and answers of yes.\<close>

record pair_run =
  pr_state :: console
  pr_approved :: "(string \<times> nat \<times> gotime) list"
  pr_waiting :: "(string \<times> nat) list"
  pr_collected :: "(string \<times> nat \<times> gotime) list"
  pr_woken :: "(string \<times> nat) list"

definition approval :: "gotime \<Rightarrow> string \<Rightarrow> bool \<Rightarrow> console \<Rightarrow> (string \<times> nat \<times> gotime) list" where
  "approval t fp trust s =
     (if trust \<and> fst (DecidePair t fp trust s)
      then [(fp, the (map_of (c_pairs (pruneExpiredPairsLocked t s)) fp), t)] else [])"

definition collected :: "gotime \<Rightarrow> string \<Rightarrow> pair_answer \<Rightarrow> console \<Rightarrow> (string \<times> nat \<times> gotime) list" where
  "collected t fp ans s =
     (if ans = Answer True then [(fp, the (map_of (c_pairs (pruneExpiredPairsLocked t s)) fp), t)] else [])"

inductive pair_step :: "pair_run \<Rightarrow> pair_run \<Rightarrow> bool" where
  step_ask:
    "askPair_start t fp name label wait (pr_state w) = (ans, report, s) \<Longrightarrow>
     pair_step w (w\<lparr>pr_state := s, pr_collected := pr_collected w @ collected t fp ans (pr_state w),
       pr_waiting := pr_waiting w @ (case ans of Waiting a \<Rightarrow> [(fp, a)] | _ \<Rightarrow> [])\<rparr>)"
| step_wake:
    "(fp, a) \<in> set (pr_waiting w) \<Longrightarrow> pe_decided (c_heap (pr_state w) ! a) \<Longrightarrow>
     askPair_decided fp a (pr_state w) = (yes, s) \<Longrightarrow>
     pair_step w (w\<lparr>pr_state := s, pr_woken := pr_woken w @ (if yes then [(fp, a)] else [])\<rparr>)"
| step_decide:
    "DecidePair t fp trust (pr_state w) = (b, s) \<Longrightarrow>
     pair_step w (w\<lparr>pr_state := s, pr_approved := pr_approved w @ approval t fp trust (pr_state w)\<rparr>)"
| step_show: "pair_step w (w\<lparr>pr_state := snd (shown_pairs t (pr_state w))\<rparr>)"
| step_subs: "pair_step w (w\<lparr>pr_state := (pr_state w)\<lparr>c_subs := n\<rparr>\<rparr>)"
| step_settimeout: "pair_step w (w\<lparr>pr_state := snd (SetTimeout d (pr_state w))\<rparr>)"

definition start_pairing :: "bool \<Rightarrow> pair_run" where
  "start_pairing hook = \<lparr>pr_state = new_console hook, pr_approved = [], pr_waiting = [], pr_collected = [], pr_woken = []\<rparr>"

inductive pair_reachable :: "pair_run \<Rightarrow> bool" where
  pair_start: "pair_reachable (start_pairing hook)"
| pair_next: "pair_reachable w \<Longrightarrow> pair_step w w' \<Longrightarrow> pair_reachable w'"

subsection \<open>The invariant of the state\<close>

definition pairs_wf :: "console \<Rightarrow> bool" where
  "pairs_wf s \<longleftrightarrow> distinct (map fst (c_pairs s))
     \<and> (\<forall>(fp, a) \<in> set (c_pairs s). a < length (c_heap s) \<and> pe_fp (c_heap s ! a) = fp)
     \<and> undecidedPairsLocked s \<le> maxPendingPairs
     \<and> length (c_notified s) \<le> maxPendingPairs"

lemma pairs_wfD:
  assumes "pairs_wf s"
  shows "distinct (map fst (c_pairs s))"
    "(fp, a) \<in> set (c_pairs s) \<Longrightarrow> a < length (c_heap s) \<and> pe_fp (c_heap s ! a) = fp"
    "undecidedPairsLocked s \<le> maxPendingPairs" "length (c_notified s) \<le> maxPendingPairs"
  using assms unfolding pairs_wf_def by auto

lemma length_filter_filter: "length (filter Q (filter P xs)) \<le> length (filter Q xs)"
  by (induction xs) auto

lemma wf_sub_pairs:
  assumes "pairs_wf s" "ps = filter P (c_pairs s)"
  shows "pairs_wf (s\<lparr>c_pairs := ps\<rparr>)"
proof -
  have "undecidedPairsLocked (s\<lparr>c_pairs := ps\<rparr>) \<le> undecidedPairsLocked s"
    unfolding undecidedPairsLocked_def assms(2) by (simp add: length_filter_filter del: filter_filter)
  then show ?thesis using assms unfolding pairs_wf_def
    by (auto simp: distinct_map_filter)
qed

lemma prune_pairs_wf: "pairs_wf s \<Longrightarrow> pairs_wf (pruneExpiredPairsLocked now s)"
  unfolding pruneExpiredPairsLocked_def by (rule wf_sub_pairs) auto

lemma del_pair_wf: "pairs_wf s \<Longrightarrow> pairs_wf (s\<lparr>c_pairs := al_del fp (c_pairs s)\<rparr>)"
  unfolding al_del_def by (rule wf_sub_pairs) auto

lemma prune_pairs_fields [simp]:
  "c_heap (pruneExpiredPairsLocked now s) = c_heap s" "c_subs (pruneExpiredPairsLocked now s) = c_subs s"
  "c_hook (pruneExpiredPairsLocked now s) = c_hook s" "c_notified (pruneExpiredPairsLocked now s) = c_notified s"
  "c_timeout (pruneExpiredPairsLocked now s) = c_timeout s"
  by (simp_all add: pruneExpiredPairsLocked_def)

lemma prune_pairs_mem:
  "(fp, a) \<in> set (c_pairs (pruneExpiredPairsLocked now s)) \<longleftrightarrow>
     (fp, a) \<in> set (c_pairs s) \<and> now \<le> pe_expires (c_heap s ! a)"
  by (auto simp: pruneExpiredPairsLocked_def)

text \<open>An entry of the map is rewritten in place: decided only ever becomes true.\<close>

lemma set_entry_wf:
  assumes "pairs_wf s" "a < length (c_heap s)" "pe_fp p = pe_fp (c_heap s ! a)" "pe_decided (c_heap s ! a) \<longrightarrow> pe_decided p"
  shows "pairs_wf (s\<lparr>c_heap := (c_heap s)[a := p]\<rparr>)"
proof -
  have "undecidedPairsLocked (s\<lparr>c_heap := (c_heap s)[a := p]\<rparr>) \<le> undecidedPairsLocked s"
    unfolding undecidedPairsLocked_def
    by (simp, rule length_filter_mono) (use assms(2,4) in \<open>auto simp: nth_list_update split: if_splits\<close>)
  then show ?thesis using assms pairs_wfD [OF assms(1)] unfolding pairs_wf_def
    by (auto simp: nth_list_update)
qed

lemma claim_wf:
  assumes "pairs_wf s" "claimPairNotifyLocked now fp s = (b, s')"
  shows "pairs_wf s'" "c_heap s' = c_heap s" "c_pairs s' = c_pairs s"
proof -
  let ?n = "filter (\<lambda>(_, t). \<not> now - t \<ge> pairNotifyWindow) (c_notified s)"
  have "length ?n \<le> maxPendingPairs" using pairs_wfD(4) [OF assms(1)] length_filter_le le_trans by blast
  then have "length (c_notified s') \<le> maxPendingPairs"
    using assms(2) by (auto simp: claimPairNotifyLocked_def Let_def length_al_put split: if_splits)
  moreover show h: "c_heap s' = c_heap s" "c_pairs s' = c_pairs s"
    using assms(2) by (auto simp: claimPairNotifyLocked_def Let_def split: if_splits)
  ultimately show "pairs_wf s'" using assms(1) by (simp add: pairs_wf_def undecidedPairsLocked_def)
qed

subsection \<open>The invariant of a run\<close>

definition pair_ok :: "pair_run \<Rightarrow> bool" where
  "pair_ok w \<longleftrightarrow> (let s = pr_state w; h = c_heap s in
     pairs_wf s
     \<and> (\<forall>fp a. (fp, a) \<in> set (pr_waiting w) \<longrightarrow> a < length h \<and> pe_fp (h ! a) = fp)
     \<and> (\<forall>a < length h. pe_decided (h ! a) \<and> pe_trust (h ! a) \<longrightarrow>
          (\<exists>t. (pe_fp (h ! a), a, t) \<in> set (pr_approved w) \<and> pe_expires (h ! a) = t + pairTTL))
     \<and> (\<forall>fp a t. (fp, a, t) \<in> set (pr_approved w) \<longrightarrow> a < length h \<and> pe_decided (h ! a))
     \<and> distinct (map (fst \<circ> snd) (pr_approved w))
     \<and> (\<forall>fp a t. (fp, a, t) \<in> set (pr_collected w) \<longrightarrow> a < length h \<and> pe_decided (h ! a) \<and> (\<forall>f. (f, a) \<notin> set (c_pairs s))
          \<and> (\<exists>t0. (fp, a, t0) \<in> set (pr_approved w) \<and> t \<le> t0 + pairTTL))
     \<and> distinct (map (fst \<circ> snd) (pr_collected w))
     \<and> (\<forall>fp a. (fp, a) \<in> set (pr_woken w) \<longrightarrow> (\<exists>t0. (fp, a, t0) \<in> set (pr_approved w))))"

lemma pair_okD:
  assumes "pair_ok w"
  shows "pairs_wf (pr_state w)"
    "(fp, a) \<in> set (pr_waiting w) \<Longrightarrow> a < length (c_heap (pr_state w)) \<and> pe_fp (c_heap (pr_state w) ! a) = fp"
    "a < length (c_heap (pr_state w)) \<Longrightarrow> pe_decided (c_heap (pr_state w) ! a) \<Longrightarrow> pe_trust (c_heap (pr_state w) ! a)
       \<Longrightarrow> \<exists>t. (pe_fp (c_heap (pr_state w) ! a), a, t) \<in> set (pr_approved w) \<and> pe_expires (c_heap (pr_state w) ! a) = t + pairTTL"
    "(fp, a, t) \<in> set (pr_approved w) \<Longrightarrow> a < length (c_heap (pr_state w)) \<and> pe_decided (c_heap (pr_state w) ! a)"
    "distinct (map (fst \<circ> snd) (pr_approved w))"
    "(fp, a, t) \<in> set (pr_collected w) \<Longrightarrow> a < length (c_heap (pr_state w)) \<and> pe_decided (c_heap (pr_state w) ! a)
       \<and> (\<forall>f. (f, a) \<notin> set (c_pairs (pr_state w))) \<and> (\<exists>t0. (fp, a, t0) \<in> set (pr_approved w) \<and> t \<le> t0 + pairTTL)"
    "distinct (map (fst \<circ> snd) (pr_collected w))"
    "(fp, a) \<in> set (pr_woken w) \<Longrightarrow> \<exists>t0. (fp, a, t0) \<in> set (pr_approved w)"
  using assms unfolding pair_ok_def Let_def by blast+

text \<open>A change of the state that decides nothing in favour of anyone.\<close>

definition undecisive :: "console \<Rightarrow> console \<Rightarrow> bool" where
  "undecisive s s' \<longleftrightarrow> length (c_heap s) \<le> length (c_heap s')
     \<and> (\<forall>a < length (c_heap s). pe_fp (c_heap s' ! a) = pe_fp (c_heap s ! a)
          \<and> (pe_decided (c_heap s ! a) \<longrightarrow> c_heap s' ! a = c_heap s ! a))
     \<and> (\<forall>a < length (c_heap s'). pe_decided (c_heap s' ! a) \<and> pe_trust (c_heap s' ! a) \<longrightarrow>
          a < length (c_heap s) \<and> pe_decided (c_heap s ! a))
     \<and> (\<forall>fp a. (fp, a) \<in> set (c_pairs s') \<longrightarrow> (fp, a) \<in> set (c_pairs s) \<or> length (c_heap s) \<le> a)"

lemma undecisiveD:
  assumes "undecisive s s'"
  shows "length (c_heap s) \<le> length (c_heap s')"
    "a < length (c_heap s) \<Longrightarrow> pe_fp (c_heap s' ! a) = pe_fp (c_heap s ! a)"
    "a < length (c_heap s) \<Longrightarrow> pe_decided (c_heap s ! a) \<Longrightarrow> c_heap s' ! a = c_heap s ! a"
    "a < length (c_heap s') \<Longrightarrow> pe_decided (c_heap s' ! a) \<Longrightarrow> pe_trust (c_heap s' ! a) \<Longrightarrow>
       a < length (c_heap s) \<and> pe_decided (c_heap s ! a)"
    "(fp, a) \<in> set (c_pairs s') \<Longrightarrow> (fp, a) \<in> set (c_pairs s) \<or> length (c_heap s) \<le> a"
  using assms unfolding undecisive_def by blast+

lemma undecisive_ok:
  assumes ok: "pair_ok w" and wf: "pairs_wf s'" and u: "undecisive (pr_state w) s'"
  shows "pair_ok (w\<lparr>pr_state := s'\<rparr>)"
proof -
  note o = pair_okD [OF ok] and d = undecisiveD [OF u]
  have W: "\<forall>fp a. (fp, a) \<in> set (pr_waiting w) \<longrightarrow> a < length (c_heap s') \<and> pe_fp (c_heap s' ! a) = fp"
    using o(2) d(1,2) by (metis less_le_trans)
  have D: "\<forall>a < length (c_heap s'). pe_decided (c_heap s' ! a) \<and> pe_trust (c_heap s' ! a) \<longrightarrow>
      (\<exists>t. (pe_fp (c_heap s' ! a), a, t) \<in> set (pr_approved w) \<and> pe_expires (c_heap s' ! a) = t + pairTTL)"
    using o(3) d(3,4) by metis
  have A: "\<forall>fp a t. (fp, a, t) \<in> set (pr_approved w) \<longrightarrow> a < length (c_heap s') \<and> pe_decided (c_heap s' ! a)"
    using o(4) d(1,3) by (metis less_le_trans)
  have C: "\<forall>fp a t. (fp, a, t) \<in> set (pr_collected w) \<longrightarrow> a < length (c_heap s') \<and> pe_decided (c_heap s' ! a)
      \<and> (\<forall>f. (f, a) \<notin> set (c_pairs s')) \<and> (\<exists>t0. (fp, a, t0) \<in> set (pr_approved w) \<and> t \<le> t0 + pairTTL)"
  proof (intro allI impI)
    fix fp a t assume c: "(fp, a, t) \<in> set (pr_collected w)"
    note oc = o(6) [OF c]
    have "(f, a) \<notin> set (c_pairs s')" for f using oc d(5) [of f a] by auto
    then show "a < length (c_heap s') \<and> pe_decided (c_heap s' ! a) \<and> (\<forall>f. (f, a) \<notin> set (c_pairs s'))
        \<and> (\<exists>t0. (fp, a, t0) \<in> set (pr_approved w) \<and> t \<le> t0 + pairTTL)"
      using oc d(1) d(3) [of a] by auto
  qed
  show ?thesis using wf W D A C o(5,7,8) unfolding pair_ok_def Let_def by simp
qed

lemma undecisive_same_heap:
  "c_heap s' = c_heap s \<Longrightarrow> set (c_pairs s') \<subseteq> set (c_pairs s) \<Longrightarrow> undecisive s s'"
  unfolding undecisive_def by auto

lemma undecisive_trans_prune:
  assumes u: "undecisive (pruneExpiredPairsLocked t s) s'"
  shows "undecisive s s'"
proof -
  have p: "\<forall>fp a. (fp, a) \<in> set (c_pairs s') \<longrightarrow> (fp, a) \<in> set (c_pairs s) \<or> length (c_heap s) \<le> a"
  proof (intro allI impI)
    fix fp a assume "(fp, a) \<in> set (c_pairs s')"
    from undecisiveD(5) [OF u this] show "(fp, a) \<in> set (c_pairs s) \<or> length (c_heap s) \<le> a"
      unfolding prune_pairs_mem by auto
  qed
  show ?thesis using u p unfolding undecisive_def prune_pairs_fields by (elim conjE) (intro conjI; assumption)
qed

subsection \<open>The steps\<close>

lemma askPair_cases:
  assumes "askPair_start t fp name label wait s = (ans, report, s')"
  defines "p \<equiv> pruneExpiredPairsLocked t s"
  obtains (taken) a where "map_of (c_pairs p) fp = Some a" "pe_decided (c_heap p ! a)"
      "ans = Answer (pe_trust (c_heap p ! a))" "s' = p\<lparr>c_pairs := al_del fp (c_pairs p)\<rparr>"
  | (refreshed) a where "map_of (c_pairs p) fp = Some a" "\<not> pe_decided (c_heap p ! a)"
      "ans = Waiting a \<or> ans = Answer False"
      "s' = p\<lparr>c_heap := (c_heap p)[a := refresh_entry t name label (c_heap p ! a)]\<rparr>"
  | (full) "ans = TooManyPairings" "s' = p"
  | (created) e where "map_of (c_pairs p) fp = None" "undecidedPairsLocked p < maxPendingPairs"
      "ans = Waiting (length (c_heap p)) \<or> ans = Answer False" "pe_fp e = fp" "\<not> pe_decided e"
      "let q = p\<lparr>c_heap := c_heap p @ [e], c_pairs := al_put fp (length (c_heap p)) (c_pairs p)\<rparr>
       in s' = q \<or> (\<exists>b. claimPairNotifyLocked t fp q = (b, s'))"
proof (cases "map_of (c_pairs p) fp")
  case None
  show ?thesis
  proof (cases "undecidedPairsLocked p \<ge> maxPendingPairs")
    case True
    then show ?thesis using None assms(1) full by (simp add: askPair_start_def Let_def p_def)
  next
    case False
    let ?e = "\<lparr>pe_fp = fp, pe_name = name, pe_label = label, pe_created = t,
                           pe_decided = False, pe_trust = False, pe_expires = t + pairTTL\<rparr>"
    show ?thesis
      by (rule created [of ?e])
        (use None False assms(1) in \<open>auto simp: askPair_start_def Let_def p_def split: if_splits prod.splits\<close>)
  qed
next
  case (Some a)
  then show ?thesis using assms(1) taken [of a] refreshed [of a]
    by (cases "pe_decided (c_heap p ! a)") (auto simp: askPair_start_def Let_def p_def split: if_splits)
qed

lemma created_wf:
  assumes wf: "pairs_wf p" and n: "map_of (c_pairs p) fp = None" "undecidedPairsLocked p < maxPendingPairs" "pe_fp e = fp"
  shows "pairs_wf (p\<lparr>c_heap := c_heap p @ [e], c_pairs := al_put fp (length (c_heap p)) (c_pairs p)\<rparr>)"
proof -
  let ?a = "length (c_heap p)"
  have put: "al_put fp ?a (c_pairs p) = c_pairs p @ [(fp, ?a)]"
    using n(1) by (intro al_put_fresh) (simp add: map_of_eq_None_iff)
  have "filter (\<lambda>(_, a). \<not> pe_decided ((c_heap p @ [e]) ! a)) (c_pairs p)
      = filter (\<lambda>(_, a). \<not> pe_decided (c_heap p ! a)) (c_pairs p)"
    using pairs_wfD(2) [OF wf] by (intro filter_cong) (auto simp: nth_append)
  then have "undecidedPairsLocked (p\<lparr>c_heap := c_heap p @ [e], c_pairs := al_put fp ?a (c_pairs p)\<rparr>)
      \<le> Suc (undecidedPairsLocked p)"
    unfolding undecidedPairsLocked_def put by simp
  moreover have "distinct (map fst (c_pairs p @ [(fp, ?a)]))"
    using pairs_wfD(1) [OF wf] n(1) by (simp add: map_of_eq_None_iff)
  moreover have "\<forall>(f, a) \<in> set (c_pairs p @ [(fp, ?a)]). a < length (c_heap p @ [e]) \<and> pe_fp ((c_heap p @ [e]) ! a) = f"
    using pairs_wfD(2) [OF wf] n(3) by (force simp: nth_append)
  ultimately show ?thesis using pairs_wfD(4) [OF wf] n(2) unfolding pairs_wf_def put by simp
qed

lemma mapped_in: "map_of (c_pairs s) fp = Some a \<Longrightarrow> (fp, a) \<in> set (c_pairs s)"
  by (rule map_of_SomeD)

lemma prune_ok: "pair_ok w \<Longrightarrow> pair_ok (w\<lparr>pr_state := pruneExpiredPairsLocked t (pr_state w)\<rparr>)"
  by (rule undecisive_ok)
    (auto intro: prune_pairs_wf undecisive_same_heap dest: pair_okD(1) simp: prune_pairs_mem)

lemma address_of_fp:
  assumes "pairs_wf s" "(f, a) \<in> set (c_pairs s)" "(g, a) \<in> set (c_pairs s)"
  shows "f = g"
  using pairs_wfD(2) [OF assms(1,2)] pairs_wfD(2) [OF assms(1,3)] by simp

text \<open>Collecting a verdict: the entry leaves the map for good.\<close>

lemma collect_ok:
  assumes ok: "pair_ok w" and m: "map_of (c_pairs (pruneExpiredPairsLocked t (pr_state w))) fp = Some a"
    and dec: "pe_decided (c_heap (pr_state w) ! a)" "pe_trust (c_heap (pr_state w) ! a)"
  shows "pair_ok (w\<lparr>pr_state := (pruneExpiredPairsLocked t (pr_state w))
      \<lparr>c_pairs := al_del fp (c_pairs (pruneExpiredPairsLocked t (pr_state w)))\<rparr>,
      pr_collected := pr_collected w @ [(fp, a, t)]\<rparr>)" (is "pair_ok ?w")
proof -
  let ?s = "pr_state w" and ?p = "pruneExpiredPairsLocked t (pr_state w)"
  let ?q = "?p\<lparr>c_pairs := al_del fp (c_pairs ?p)\<rparr>"
  note o = pair_okD [OF ok]
  have mem: "(fp, a) \<in> set (c_pairs ?s)" "t \<le> pe_expires (c_heap ?s ! a)"
    using mapped_in [OF m] by (simp_all add: prune_pairs_mem)
  have a: "a < length (c_heap ?s)" "pe_fp (c_heap ?s ! a) = fp" using pairs_wfD(2) [OF o(1) mem(1)] by auto
  obtain t0 where t0: "(fp, a, t0) \<in> set (pr_approved w)" "t \<le> t0 + pairTTL"
    using o(3) [OF a(1) dec] a(2) mem(2) by auto
  have gone: "(f, a) \<notin> set (c_pairs ?q)" for f
  proof
    assume q: "(f, a) \<in> set (c_pairs ?q)"
    then have "(f, a) \<in> set (c_pairs ?s)" "f \<noteq> fp" by (auto simp: set_al_del prune_pairs_mem)
    then show False using address_of_fp [OF o(1) _ mem(1)] by blast
  qed
  have "pair_ok (w\<lparr>pr_state := ?q\<rparr>)"
    by (rule undecisive_ok [OF ok del_pair_wf [OF prune_pairs_wf [OF o(1)]]])
      (rule undecisive_same_heap, auto simp: set_al_del prune_pairs_mem)
  note o' = pair_okD [OF this, simplified]
  have fresh: "a \<notin> (fst \<circ> snd) ` set (pr_collected w)"
  proof
    assume "a \<in> (fst \<circ> snd) ` set (pr_collected w)"
    then obtain f u where "(f, a, u) \<in> set (pr_collected w)" by auto
    from o(6) [OF this] show False using mem(1) by blast
  qed
  have C: "\<forall>f b u. (f, b, u) \<in> set (pr_collected ?w) \<longrightarrow> b < length (c_heap ?s) \<and> pe_decided (c_heap ?s ! b)
      \<and> (\<forall>g. (g, b) \<notin> set (c_pairs ?q)) \<and> (\<exists>t0. (f, b, t0) \<in> set (pr_approved w) \<and> u \<le> t0 + pairTTL)"
    using o'(6) a(1) dec(1) gone t0 by auto
  have "distinct (map (fst \<circ> snd) (pr_collected ?w))" using o(7) fresh by simp
  then show ?thesis using C o'(1) o(2-5,8) unfolding pair_ok_def Let_def by simp
qed

lemma heap_set_undecisive:
  assumes "a < length (c_heap s)" "\<not> pe_decided (c_heap s ! a)" "pe_fp p = pe_fp (c_heap s ! a)"
    "\<not> (pe_decided p \<and> pe_trust p)" "set ps \<subseteq> set (c_pairs s)"
  shows "undecisive s (s\<lparr>c_heap := (c_heap s)[a := p], c_pairs := ps\<rparr>)"
  using assms unfolding undecisive_def by (auto simp: nth_list_update)

lemma step_ask_ok:
  assumes ok: "pair_ok w" and st: "askPair_start t fp name label wait (pr_state w) = (ans, report, s)"
  shows "pair_ok (w\<lparr>pr_state := s, pr_collected := pr_collected w @ collected t fp ans (pr_state w),
       pr_waiting := pr_waiting w @ (case ans of Waiting a \<Rightarrow> [(fp, a)] | _ \<Rightarrow> [])\<rparr>)" (is "pair_ok ?w")
proof -
  let ?p = "pruneExpiredPairsLocked t (pr_state w)"
  have okp: "pair_ok (w\<lparr>pr_state := ?p\<rparr>)" by (rule prune_ok [OF ok])
  note wfp = pair_okD(1) [OF okp, simplified]
  have wait_ok: "pair_ok (v\<lparr>pr_waiting := pr_waiting v @ [(fp, a)]\<rparr>)"
    if "pair_ok v" "a < length (c_heap (pr_state v))" "pe_fp (c_heap (pr_state v) ! a) = fp" for v a
    using that unfolding pair_ok_def Let_def by auto
  have plain: "pair_ok ?w" if "pair_ok (w\<lparr>pr_state := s\<rparr>)" "ans = Answer False \<or> ans = TooManyPairings
      \<or> (\<exists>a. ans = Waiting a \<and> a < length (c_heap s) \<and> pe_fp (c_heap s ! a) = fp)"
    using that wait_ok [of "w\<lparr>pr_state := s\<rparr>"] by (auto simp: collected_def)
  from st show ?thesis
  proof (cases rule: askPair_cases)
    case (taken a)
    show ?thesis
    proof (cases "pe_trust (c_heap (pr_state w) ! a)")
      case True
      then show ?thesis using collect_ok [OF ok taken(1)] taken by (simp add: collected_def)
    next
      case False
      have "pair_ok (w\<lparr>pr_state := s\<rparr>)" unfolding taken(4)
        by (rule undecisive_ok [OF ok del_pair_wf [OF wfp]])
          (rule undecisive_same_heap, auto simp: set_al_del prune_pairs_mem)
      then show ?thesis using plain False taken(3) by simp
    qed
  next
    case (refreshed a)
    have a: "a < length (c_heap ?p)" "pe_fp (c_heap ?p ! a) = fp"
      using pairs_wfD(2) [OF wfp mapped_in [OF refreshed(1)]] by auto
    let ?e = "refresh_entry t name label (c_heap ?p ! a)"
    have e: "pe_fp ?e = pe_fp (c_heap ?p ! a)" "pe_decided ?e = pe_decided (c_heap ?p ! a)"
      by (simp_all add: refresh_entry_def)
    have "undecisive ?p (?p\<lparr>c_heap := (c_heap ?p)[a := ?e], c_pairs := c_pairs ?p\<rparr>)"
      by (rule heap_set_undecisive) (use a e refreshed(2) in auto)
    then have "pair_ok (w\<lparr>pr_state := s\<rparr>)"
      using undecisive_ok [OF ok set_entry_wf [OF wfp a(1), of ?e]] undecisive_trans_prune [of t "pr_state w" s] e refreshed(4)
      by simp
    moreover have "a < length (c_heap s)" "pe_fp (c_heap s ! a) = fp" using a e(1) refreshed(4) by simp_all
    ultimately show ?thesis using plain refreshed(3) by blast
  next
    case full
    then show ?thesis using plain okp by simp
  next
    case (created e)
    let ?q = "?p\<lparr>c_heap := c_heap ?p @ [e], c_pairs := al_put fp (length (c_heap ?p)) (c_pairs ?p)\<rparr>"
    have wfq: "pairs_wf ?q" by (rule created_wf [OF wfp created(1,2,4)])
    consider "s = ?q" | b where "claimPairNotifyLocked t fp ?q = (b, s)"
      using created(6) unfolding Let_def by blast
    then have "c_heap s = c_heap ?q \<and> c_pairs s = c_pairs ?q \<and> pairs_wf s"
    proof cases
      case 1
      then show ?thesis using wfq by blast
    next
      case 2
      then show ?thesis using claim_wf [OF wfq] by blast
    qed
    then have same: "c_heap s = c_heap ?q" "c_pairs s = c_pairs ?q" "pairs_wf s" by blast+
    have "undecisive ?p s"
      unfolding undecisive_def same(1,2) using created(5) set_al_put_sub [of _ fp "length (c_heap ?p)" "c_pairs ?p"]
      by (auto simp: nth_append less_Suc_eq)
    then have "pair_ok (w\<lparr>pr_state := s\<rparr>)" using undecisive_ok [OF ok same(3)] undecisive_trans_prune by blast
    moreover have "length (c_heap ?p) < length (c_heap s)" "pe_fp (c_heap s ! length (c_heap ?p)) = fp"
      using created(4) unfolding same(1) by simp_all
    ultimately show ?thesis using plain created(3) by blast
  qed
qed

lemma step_wake_ok:
  assumes ok: "pair_ok w" and w: "(fp, a) \<in> set (pr_waiting w)" "pe_decided (c_heap (pr_state w) ! a)"
    and st: "askPair_decided fp a (pr_state w) = (yes, s)"
  shows "pair_ok (w\<lparr>pr_state := s, pr_woken := pr_woken w @ (if yes then [(fp, a)] else [])\<rparr>)"
proof -
  note o = pair_okD [OF ok]
  have s: "c_heap s = c_heap (pr_state w)" "set (c_pairs s) \<subseteq> set (c_pairs (pr_state w))" "pairs_wf s"
    "yes = pe_trust (c_heap (pr_state w) ! a)"
    using st o(1) del_pair_wf [OF o(1)] by (auto simp: askPair_decided_def set_al_del split: if_splits)
  have "pair_ok (w\<lparr>pr_state := s\<rparr>)"
    by (rule undecisive_ok [OF ok s(3) undecisive_same_heap [OF s(1,2)]])
  moreover have "yes \<Longrightarrow> \<exists>t0. (fp, a, t0) \<in> set (pr_approved w)"
    using o(2) [OF w(1)] o(3) [of a] w(2) s(4) by auto
  ultimately show ?thesis unfolding pair_ok_def Let_def by (cases yes) simp_all
qed

lemma step_decide_ok:
  assumes ok: "pair_ok w" and st: "DecidePair t fp trust (pr_state w) = (b, s)"
  shows "pair_ok (w\<lparr>pr_state := s, pr_approved := pr_approved w @ approval t fp trust (pr_state w)\<rparr>)"
proof -
  let ?p = "pruneExpiredPairsLocked t (pr_state w)"
  note okp = prune_ok [OF ok, of t]
  note op = pair_okD [OF okp, simplified]
  have same: ?thesis if "b = False \<or> \<not> trust" "pair_ok (w\<lparr>pr_state := s\<rparr>)"
    using that st by (auto simp: approval_def)
  show ?thesis
  proof (cases "map_of (c_pairs ?p) fp")
    case None
    then show ?thesis using same st okp by (simp add: DecidePair_def Let_def)
  next
    case (Some a)
    note mem = mapped_in [OF Some]
    have a: "a < length (c_heap ?p)" "pe_fp (c_heap ?p ! a) = fp" using pairs_wfD(2) [OF op(1) mem] by auto
    show ?thesis
    proof (cases "pe_decided (c_heap ?p ! a)")
      case True
      then show ?thesis using same st okp Some by (simp add: DecidePair_def Let_def)
    next
      case und: False
      show ?thesis
      proof (cases trust)
        case False
        let ?e = "(c_heap ?p ! a)\<lparr>pe_trust := False, pe_decided := True\<rparr>"
        have s: "s = ?p\<lparr>c_heap := (c_heap ?p)[a := ?e], c_pairs := al_del fp (c_pairs ?p)\<rparr>"
          using st Some und False by (simp add: DecidePair_def Let_def)
        have "undecisive ?p s" unfolding s
          by (rule heap_set_undecisive) (use a und in \<open>auto simp: set_al_del\<close>)
        moreover have "pairs_wf s"
          using del_pair_wf [OF set_entry_wf [OF op(1), of a ?e]] a by (simp add: s)
        ultimately have "pair_ok (w\<lparr>pr_state := s\<rparr>)" using undecisive_ok [OF ok] undecisive_trans_prune by blast
        then show ?thesis using same False by blast
      next
        case True
        let ?e = "(c_heap ?p ! a)\<lparr>pe_trust := True, pe_decided := True, pe_expires := t + pairTTL\<rparr>"
        have s: "s = ?p\<lparr>c_heap := (c_heap ?p)[a := ?e]\<rparr>" "b"
          using st Some und True by (simp_all add: DecidePair_def Let_def)
        have ap: "approval t fp trust (pr_state w) = [(fp, a, t)]"
          using st s(2) True Some by (simp add: approval_def)
        have wf: "pairs_wf s" unfolding s(1) by (rule set_entry_wf [OF op(1)]) (use a in auto)
        have heap: "c_heap s = (c_heap ?p)[a := ?e]" "c_pairs s = c_pairs ?p" by (simp_all add: s(1))
        have fresh: "a \<notin> (fst \<circ> snd) ` set (pr_approved w)"
        proof
          assume "a \<in> (fst \<circ> snd) ` set (pr_approved w)"
          then obtain f u where "(f, a, u) \<in> set (pr_approved w)" by auto
          from op(4) [OF this] und show False by simp
        qed
        have C: "b' < length (c_heap s) \<and> pe_decided (c_heap s ! b') \<and> (\<forall>g. (g, b') \<notin> set (c_pairs s))
            \<and> (\<exists>t0. (f, b', t0) \<in> set (pr_approved w @ [(fp, a, t)]) \<and> u \<le> t0 + pairTTL)"
          if "(f, b', u) \<in> set (pr_collected w)" for f b' u
          using op(6) [OF that] a by (auto simp: heap nth_list_update)
        have D: "\<exists>u. (pe_fp (c_heap s ! c), c, u) \<in> set (pr_approved w @ [(fp, a, t)]) \<and> pe_expires (c_heap s ! c) = u + pairTTL"
          if "c < length (c_heap s)" "pe_decided (c_heap s ! c)" "pe_trust (c_heap s ! c)" for c
        proof (cases "c = a")
          case True
          then show ?thesis using a by (simp add: heap)
        next
          case False
          then show ?thesis using op(3) [of c] that by (auto simp: heap)
        qed
        have W: "c < length (c_heap s) \<and> pe_fp (c_heap s ! c) = f" if "(f, c) \<in> set (pr_waiting w)" for f c
          using op(2) [OF that] a by (simp add: heap nth_list_update)
        have A: "c < length (c_heap s) \<and> pe_decided (c_heap s ! c)" if "(f, c, u) \<in> set (pr_approved w @ [(fp, a, t)])" for f c u
          using that op(4) a by (auto simp: heap nth_list_update)
        have K: "\<exists>t0. (f, c, t0) \<in> set (pr_approved w @ [(fp, a, t)])" if "(f, c) \<in> set (pr_woken w)" for f c
          using op(8) [OF that] by auto
        have "distinct (map (fst \<circ> snd) (pr_approved w @ [(fp, a, t)]))" using op(5) fresh by simp
        then show ?thesis using wf C D W A K op(7) unfolding pair_ok_def Let_def ap by simp
      qed
    qed
  qed
qed

lemma pair_step_ok: "pair_step w w' \<Longrightarrow> pair_ok w \<Longrightarrow> pair_ok w'"
proof (induction rule: pair_step.induct)
  case (step_wake fp a w yes s)
  show ?case by (rule step_wake_ok [OF step_wake(4,1-3)])
next
  case (step_subs w n)
  show ?case
    by (rule undecisive_ok [OF step_subs])
      (use pair_okD(1) [OF step_subs] in \<open>auto simp: pairs_wf_def undecidedPairsLocked_def intro: undecisive_same_heap\<close>)
next
  case (step_settimeout w d)
  show ?case
    by (rule undecisive_ok [OF step_settimeout])
      (use pair_okD(1) [OF step_settimeout] in
        \<open>auto simp: SetTimeout_def Let_def pairs_wf_def undecidedPairsLocked_def intro: undecisive_same_heap\<close>)
qed (auto intro: step_ask_ok step_wake_ok step_decide_ok prune_ok simp: shown_pairs_def Let_def)

lemma pair_reachable_ok: "pair_reachable w \<Longrightarrow> pair_ok w"
proof (induction rule: pair_reachable.induct)
  case (pair_start hook)
  show ?case by (simp add: pair_ok_def start_pairing_def new_console_def pairs_wf_def undecidedPairsLocked_def)
qed (rule pair_step_ok)

section \<open>Properties of pairing\<close>

text \<open>
  C31. Nobody is paired without the owner: every dial that is told yes, whether it
  collected an earlier verdict or was waiting for one, is told so of an entry for its
  own fingerprint that the owner approved, and an approval nobody collected within five
  minutes is not handed out any more.
\<close>

theorem pairing_needs_the_owner:
  assumes "pair_reachable w"
  shows "(\<forall>fp a t. (fp, a, t) \<in> set (pr_collected w) \<longrightarrow> (\<exists>t0. (fp, a, t0) \<in> set (pr_approved w) \<and> t \<le> t0 + pairTTL))
    \<and> (\<forall>fp a. (fp, a) \<in> set (pr_woken w) \<longrightarrow> (\<exists>t0. (fp, a, t0) \<in> set (pr_approved w)))"
  using pair_okD(6,8) [OF pair_reachable_ok [OF assms]] by blast

definition pd_entry :: pair_entry where
  "pd_entry = \<lparr>pe_fp = ''k'', pe_name = ''pc'', pe_label = ''me'', pe_created = 1, pe_decided = False, pe_trust = False, pe_expires = 1 + pairTTL\<rparr>"

definition pd_yes :: pair_entry where
  "pd_yes = pd_entry\<lparr>pe_trust := True, pe_decided := True, pe_expires := 2 + pairTTL\<rparr>"

definition pd_run1 :: pair_run where
  "pd_run1 = (start_pairing False)\<lparr>pr_state := (new_console False)\<lparr>c_heap := [pd_entry], c_pairs := [(''k'', 0)]\<rparr>\<rparr>"

definition pd_run2 :: pair_run where
  "pd_run2 = pd_run1\<lparr>pr_state := (new_console False)\<lparr>c_heap := [pd_yes], c_pairs := [(''k'', 0)]\<rparr>, pr_approved := [(''k'', 0, 2)]\<rparr>"

definition pd_run3 :: pair_run where
  "pd_run3 = pd_run2\<lparr>pr_state := (new_console False)\<lparr>c_heap := [pd_yes], c_pairs := []\<rparr>, pr_collected := [(''k'', 0, 3)]\<rparr>"

lemmas pd_defs = pd_run1_def pd_run2_def pd_run3_def start_pairing_def new_console_def pd_entry_def pd_yes_def

lemma pd_steps: "pair_step (start_pairing False) pd_run1" "pair_step pd_run1 pd_run2" "pair_step pd_run2 pd_run3"
proof -
  have 1: "askPair_start 1 ''k'' ''pc'' ''me'' True (pr_state (start_pairing False))
      = (Answer False, False, (new_console False)\<lparr>c_heap := [pd_entry], c_pairs := [(''k'', 0)]\<rparr>)"
    by (simp add: askPair_start_def Let_def pruneExpiredPairsLocked_def undecidedPairsLocked_def
        maxPendingPairs_def pd_defs)
  show "pair_step (start_pairing False) pd_run1"
    using step_ask [OF 1]
    by (simp add: pd_run1_def start_pairing_def collected_def)
  have 2: "DecidePair 2 ''k'' True (pr_state pd_run1)
      = (True, (new_console False)\<lparr>c_heap := [pd_yes], c_pairs := [(''k'', 0)]\<rparr>)"
    by (simp add: DecidePair_def Let_def pruneExpiredPairsLocked_def pairTTL_def pd_defs)
  have two: "approval 2 ''k'' True (pr_state pd_run1) = [(''k'', 0, 2)]"
    unfolding approval_def 2 by (simp add: pruneExpiredPairsLocked_def pairTTL_def pd_defs)
  show "pair_step pd_run1 pd_run2"
    using step_decide [OF 2] unfolding two by (simp add: pd_run2_def pd_run1_def start_pairing_def)
  have 3: "askPair_start 3 ''k'' [] [] True (pr_state pd_run2)
      = (Answer True, False, (new_console False)\<lparr>c_heap := [pd_yes], c_pairs := []\<rparr>)"
    by (simp add: askPair_start_def Let_def pruneExpiredPairsLocked_def pairTTL_def al_del_def pd_defs)
  have three: "collected 3 ''k'' (Answer True) (pr_state pd_run2) = [(''k'', 0, 3)]"
    by (simp add: collected_def pruneExpiredPairsLocked_def pairTTL_def pd_defs)
  show "pair_step pd_run2 pd_run3"
    using step_ask [OF 3] unfolding three by (simp add: pd_run3_def pd_run2_def pd_run1_def start_pairing_def)
qed

lemma pd_reachable: "pair_reachable pd_run1" "pair_reachable pd_run3"
  by (meson pd_steps pair_start pair_next)+

theorem pairing_needs_the_owner_witness:
  "(''k'', 0, 3) \<in> set (pr_collected pd_run3) \<and> (\<exists>t0. (''k'', 0, t0) \<in> set (pr_approved pd_run3) \<and> 3 \<le> t0 + pairTTL)"
proof -
  have "(''k'', 0, 3) \<in> set (pr_collected pd_run3)" by (simp add: pd_run3_def)
  then show ?thesis using pairing_needs_the_owner [OF pd_reachable(2)] by blast
qed



text \<open>
  A flood of unknown controllers is contained: at any point of any run at most 16
  requests wait for the owner and at most 16 notifications are remembered as recent,
  each waiting request under its own fingerprint.
\<close>

theorem pairing_flood_is_contained:
  assumes "pair_reachable w"
  shows "undecidedPairsLocked (pr_state w) \<le> maxPendingPairs \<and> length (c_notified (pr_state w)) \<le> maxPendingPairs
    \<and> distinct (map fst (c_pairs (pr_state w)))
    \<and> (\<forall>fp a. (fp, a) \<in> set (c_pairs (pr_state w)) \<longrightarrow> pe_fp (c_heap (pr_state w) ! a) = fp)"
  using pairs_wfD [OF pair_okD(1) [OF pair_reachable_ok [OF assms]]] by blast

theorem pairing_flood_is_contained_witness:
  "undecidedPairsLocked (pr_state pd_run1) = 1 \<and> undecidedPairsLocked (pr_state pd_run1) \<le> maxPendingPairs"
  using pairing_flood_is_contained [OF pd_reachable(1)] by (simp add: undecidedPairsLocked_def pd_run1_def pd_entry_def)

end
