(* ===== verification/Gate.thy ===== *)
theory Gate
  imports LateGrants SessionAuth
begin

text \<open>
  \<open>src/internal/agent/agent.go\<close> and \<open>agent/delegation.go\<close>: what a device lets a
  controller do. \<open>gate\<close> and \<open>gateFile\<close> decide one operation, \<open>serve_request\<close> is one turn
  of the loop of \<open>serveAuthorized\<close>, \<open>handleSession\<close> the admission of a session.

  Everything the code asks of the outside is an argument: the shell parser, the file
  system behind \<open>canonicalApprovalDir\<close>, the clock at each call, and the answers of the
  checks (each call of \<open>checksPass\<close> is one boolean). The approver may take a minute, in
  which other sessions change the device, so it is a function from the device to its
  decision and the device as it is then.
\<close>

record device =
  eng :: engine
  dsk :: policy_disk
  late :: late_grants

record gate_env =
  ge_parser :: parser
  ge_eval :: "string \<Rightarrow> string option"
  ge_elevation :: bool
  ge_find :: gotime
  ge_take :: gotime
  ge_asked :: gotime
  ge_add :: gotime
  ge_write :: rules_write
  ge_before :: bool
  ge_after :: bool

type_synonym approver = "request \<Rightarrow> device \<Rightarrow> decision \<times> device"

definition canonicalApprovalDir :: "(string \<Rightarrow> string option) \<Rightarrow> string \<Rightarrow> string" where
  "canonicalApprovalDir evalSymlinks dir =
     (if \<not> IsAbs dir then []
      else case evalSymlinks dir of
        None \<Rightarrow> []
      | Some physical \<Rightarrow>
          (case evalSymlinks (Clean dir) of
             None \<Rightarrow> []
           | Some logical \<Rightarrow> if Clean physical \<noteq> Clean logical then [] else Clean physical))"

definition checksPass :: "bool option list \<Rightarrow> bool" where
  "checksPass checks \<longleftrightarrow> (\<forall>c \<in> set checks. c \<noteq> Some False)"

definition inactive :: string where "inactive = ''delegation inactive''"

definition gate :: "gate_env \<Rightarrow> approver \<Rightarrow> request \<Rightarrow> device \<Rightarrow> (bool \<times> string) \<times> device" where
  "gate env ask req d =
     (if Bypasses (eng d) (q_kind req) (ge_elevation env) then ((True, ''bypass''), d)
      else if Allowed (ge_parser env) (eng d) req then ((True, ''pre-approved''), d)
      else
       (let ruleReq = req;
            req = (if exec_kind (q_kind req)
                   then req\<lparr>q_cwd := canonicalApprovalDir (ge_eval env) (q_cwd req)\<rparr> else req);
            (ans, g) = useLateGrant (ge_find env) (ge_take env) req (ge_before env) (late d);
            d = d\<lparr>late := g\<rparr>
        in case ans of
             LateApproved \<Rightarrow> ((True, ''late-approved''), d)
           | Inactive \<Rightarrow> ((False, inactive), d)
           | NotHandled \<Rightarrow>
              (let d = d\<lparr>late := asked (ge_asked env) req (late d)\<rparr>;
                   (v, d) = ask req d
               in if \<not> ge_after env then ((False, inactive), d)
                  else if \<not> allow v then ((False, ''denied''), d)
                  else if remember v then
                    (let (e, ok, k) = Add (ge_add env) (ge_write env) (RuleFor (ge_add env) ruleReq (d_scope v)) (eng d) (dsk d)
                     in ((True, ''remembered:'' @ d_scope v), d\<lparr>eng := e, dsk := k\<rparr>))
                  else ((True, ''approved''), d))))"

text \<open>\<open>gateFile\<close> also answers the directory that confines the open; the empty one is the whole volume.\<close>

definition gateFile :: "gate_env \<Rightarrow> approver \<Rightarrow> request \<Rightarrow> device \<Rightarrow> (bool \<times> string \<times> string) \<times> device" where
  "gateFile env ask req d =
     (if e_mode (eng d) = ModeBypass then ((True, ''bypass'', []), d)
      else case AllowedFileRoot (ge_parser env) (eng d) req of
        Some root \<Rightarrow> ((True, ''pre-approved'', root), d)
      | None \<Rightarrow>
         (let (ans, g) = useLateGrant (ge_find env) (ge_take env) req (ge_before env) (late d);
              d = d\<lparr>late := g\<rparr>
          in case ans of
               LateApproved \<Rightarrow> ((True, ''late-approved'', Dir (q_path req)), d)
             | Inactive \<Rightarrow> ((False, inactive, []), d)
             | NotHandled \<Rightarrow>
                (let (v, d) = ask req d
                 in if \<not> ge_after env then ((False, inactive, []), d)
                    else if \<not> allow v then ((False, ''denied'', []), d)
                    else if remember v then
                      (let r = RuleFor (ge_add env) req (d_scope v);
                           (e, ok, k) = Add (ge_add env) (ge_write env) r (eng d) (dsk d)
                       in ((True, ''remembered:'' @ d_scope v, pattern r), d\<lparr>eng := e, dsk := k\<rparr>))
                    else ((True, ''approved'', Dir (q_path req)), d))))"

definition gateDataCapability ::
  "gate_env \<Rightarrow> approver \<Rightarrow> string \<Rightarrow> string \<Rightarrow> device \<Rightarrow> (bool \<times> string) \<times> device" where
  "gateDataCapability env ask cap peerFP d =
     (if cap = ''read-event-log''
      then gate env ask \<lparr>q_kind = KindLogs, q_cmd = [], q_path = [], q_cwd = [], q_peer = peerFP, q_via = []\<rparr> d
      else ((False, ''unsupported-capability''), d))"

subsection \<open>One request of a session\<close>

definition M_hello :: string where "M_hello = ''hello''"
definition M_exec :: string where "M_exec = ''exec''"
definition M_cancel :: string where "M_cancel = ''cancel''"
definition M_exec_async :: string where "M_exec_async = ''exec_async''"
definition M_exec_poll :: string where "M_exec_poll = ''exec_poll''"
definition M_desktop :: string where "M_desktop = ''desktop''"
definition M_workspace :: string where "M_workspace = ''workspace''"
definition M_file_put :: string where "M_file_put = ''file_put''"
definition M_file_get :: string where "M_file_get = ''file_get''"
definition M_file_read :: string where "M_file_read = ''file_read''"
definition M_file_edit :: string where "M_file_edit = ''file_edit''"
definition M_file_write :: string where "M_file_write = ''file_write''"
definition M_logs :: string where "M_logs = ''logs''"
definition M_status :: string where "M_status = ''status''"
definition M_console_hello :: string where "M_console_hello = ''console_hello''"
definition M_workspace_hello :: string where "M_workspace_hello = ''workspace_hello''"

lemmas msg_kinds = M_hello_def M_exec_def M_cancel_def M_exec_async_def M_exec_poll_def M_desktop_def M_workspace_def
  M_file_put_def M_file_get_def M_file_read_def M_file_edit_def M_file_write_def M_logs_def M_status_def
  M_console_hello_def M_workspace_hello_def

text \<open>
  The fields of \<open>protocol.Message\<close> the gate looks at; \<open>m_rest\<close> says whether any other
  field is set, which is what \<open>reflect.DeepEqual\<close> with a message built from a few
  fields finds out.
\<close>

record message =
  m_kind :: string
  m_command :: string
  m_oneShot :: bool
  m_cwd :: string
  m_path :: string
  m_elevate :: bool
  m_via :: string
  m_spillAfter :: int
  m_rest :: bool

definition zero_message :: message where
  "zero_message = \<lparr>m_kind = [], m_command = [], m_oneShot = False, m_cwd = [], m_path = [], m_elevate = False,
     m_via = [], m_spillAfter = 0, m_rest = False\<rparr>"

definition scopedRequestAllowed :: "message \<Rightarrow> string \<Rightarrow> bool" where
  "scopedRequestAllowed m command \<longleftrightarrow>
     (if m_kind m = M_cancel then m = zero_message\<lparr>m_kind := M_cancel\<rparr>
      else if m_spillAfter m < 0 then False
      else m = zero_message\<lparr>m_kind := M_exec, m_command := command, m_oneShot := True, m_spillAfter := m_spillAfter m\<rparr>)"

definition requiredCapability :: "string \<Rightarrow> capabilities" where
  "requiredCapability k =
     (if k = M_exec \<or> k = M_exec_async \<or> k = M_exec_poll \<or> k = M_desktop then Exec
      else if k = M_file_get \<or> k = M_file_read then Read
      else if k = M_file_put \<or> k = M_file_edit \<or> k = M_file_write then WriteCap
      else if k = M_logs then Logs
      else 0)"

record session_audit =
  sa_grant :: string
  sa_credential :: string
  sa_session :: string
  sa_execOnly :: string

definition auditSession :: "Open \<Rightarrow> session_audit" where
  "auditSession auth =
     (if o_grant auth = [] then \<lparr>sa_grant = [], sa_credential = [], sa_session = [], sa_execOnly = []\<rparr>
      else \<lparr>sa_grant = o_grant auth, sa_credential = o_credential auth, sa_session = o_session auth,
            sa_execOnly = o_execOnly auth\<rparr>)"

datatype verdict =
    EndSession string
  | Skip string
  | HandledByWorkspace
  | Dispatch message
  | UnknownRequest

text \<open>
  The checks of one turn, in their order. \<open>ws\<close> is the workspace check (with its answer
  now) when the session is a workspace connection, \<open>active\<close> the delegation check when
  it is delegated, \<open>workspace\<close> what \<open>handleWorkspace\<close> does with the message: it deals with
  it, or leaves a message, possibly rewritten, to be dispatched.
\<close>

definition serve_request ::
  "bool option \<Rightarrow> bool option \<Rightarrow> session_audit \<Rightarrow> capabilities \<Rightarrow> (message \<Rightarrow> message option) \<Rightarrow> message \<Rightarrow> verdict" where
  "serve_request ws active audit caps workspace m =
     (if ws \<noteq> None \<and> (m_kind m \<noteq> M_workspace \<or> ws = Some False) then EndSession ''workspace access inactive''
      else if active = Some False then EndSession inactive
      else if sa_execOnly audit \<noteq> [] \<and> \<not> scopedRequestAllowed m (sa_execOnly audit)
        then Skip ''scoped token allows only its one command''
      else if active \<noteq> None \<and> (m_kind m = M_workspace \<or> m_kind m = M_exec_async \<or> m_kind m = M_exec_poll
              \<or> (m_kind m = M_exec \<and> \<not> m_oneShot m))
        then Skip ''delegated execution requires a synchronous one-shot command''
      else if m_kind m = M_workspace \<and> workspace m = None then HandledByWorkspace
      else
       (let m = (if m_kind m = M_workspace then the (workspace m) else m);
            required = requiredCapability (m_kind m)
        in if required \<noteq> 0 \<and> \<not> Has caps required then Skip (''session capability denied: '' @ capString required)
           else if m_kind m \<in> {M_desktop, M_exec, M_cancel, M_exec_async, M_exec_poll, M_logs, M_status, M_file_put,
                    M_file_get, M_file_read, M_file_edit, M_file_write}
             then Dispatch m
             else UnknownRequest))"

text \<open>A file request, as each of the five cases of the loop treats it: the root to open under, or a refusal.\<close>

definition file_kind :: "string \<Rightarrow> kind" where
  "file_kind k = (if k = M_file_get \<or> k = M_file_read then KindRead else KindWrite)"

definition serve_file ::
  "gate_env \<Rightarrow> approver \<Rightarrow> bool option list \<Rightarrow> string \<Rightarrow> message \<Rightarrow> device \<Rightarrow> (string + string) \<times> device" where
  "serve_file env ask checksNow fp m d =
     (let ((ok, decision, root), d) = gateFile env ask
            \<lparr>q_kind = file_kind (m_kind m), q_cmd = [], q_path = m_path m, q_cwd = [], q_peer = fp, q_via = []\<rparr> d;
          (ok, decision) = (if ok \<and> \<not> checksPass checksNow then (False, inactive) else (ok, decision))
      in (if ok then Inr root else Inl decision, d))"

definition serve_logs ::
  "gate_env \<Rightarrow> approver \<Rightarrow> bool option list \<Rightarrow> string \<Rightarrow> device \<Rightarrow> (string + unit) \<times> device" where
  "serve_logs env ask checksNow fp d =
     (let ((ok, decision), d) = gateDataCapability env ask ''read-event-log'' fp d;
          (ok, decision) = (if ok \<and> \<not> checksPass checksNow then (False, inactive) else (ok, decision))
      in (if ok then Inr () else Inl decision, d))"

text \<open>
  The part of \<open>doExecAuthorized\<close> that decides: \<open>capture\<close> is \<open>server.IsDesktopCapture\<close>,
  \<open>parseVia\<close> is \<open>elevate.ParseKind\<close>. The answer is the class the command runs in.
\<close>

definition exec_gate ::
  "gate_env \<Rightarrow> approver \<Rightarrow> (string \<Rightarrow> bool) \<Rightarrow> (string \<Rightarrow> string option) \<Rightarrow> bool option list \<Rightarrow> string \<Rightarrow> message
   \<Rightarrow> device \<Rightarrow> (string + kind) \<times> device" where
  "exec_gate env ask capture parseVia checksNow fp m d =
     (let k = (if m_elevate m \<and> \<not> capture (m_command m) then KindExecElevated else KindExec) in
      case (if m_elevate m \<and> m_via m \<noteq> [] then parseVia (m_via m) else Some []) of
        None \<Rightarrow> (Inl ''via'', d)
      | Some via \<Rightarrow>
         (let ((ok, decision), d) = gate env ask
                \<lparr>q_kind = k, q_cmd = m_command m, q_path = [], q_cwd = m_cwd m, q_peer = fp, q_via = via\<rparr> d;
              (ok, decision) = (if ok \<and> \<not> checksPass checksNow then (False, inactive) else (ok, decision))
          in (if ok then Inr k else Inl decision, d)))"

definition async_gate :: "gate_env \<Rightarrow> approver \<Rightarrow> string \<Rightarrow> message \<Rightarrow> device \<Rightarrow> (string + kind) \<times> device" where
  "async_gate env ask fp m d =
     (let ((ok, decision), d) = gate env ask
            \<lparr>q_kind = KindExec, q_cmd = m_command m, q_path = [], q_cwd = m_cwd m, q_peer = fp, q_via = []\<rparr> d
      in (if ok then Inr KindExec else Inl decision, d))"

subsection \<open>Admitting a session\<close>

record hello =
  h_kind :: string
  h_fp :: string
  h_label :: string

definition unlabeledPairing :: "bool \<Rightarrow> bool \<Rightarrow> string \<Rightarrow> bool" where
  "unlabeledPairing known autoYes label \<longleftrightarrow> \<not> known \<and> \<not> autoYes \<and> TrimSpace label = []"

definition mustIdentify :: "string \<Rightarrow> bool \<Rightarrow> bool \<Rightarrow> string \<Rightarrow> bool" where
  "mustIdentify helloKind known autoYes label \<longleftrightarrow>
     (if helloKind = M_console_hello then False else unlabeledPairing known autoYes label)"

text \<open>
  \<open>delegationActive\<close> on what its request to the relay answered: \<open>relaySays\<close> is whether
  the answer was \<open>204\<close>, \<open>alive\<close> whether the context still stands.
\<close>

definition delegationActive :: "gotime \<Rightarrow> Open \<Rightarrow> string \<Rightarrow> string \<Rightarrow> bool \<Rightarrow> bool \<Rightarrow> bool" where
  "delegationActive now auth device fp alive relaySays \<longleftrightarrow>
     (if o_grant auth = [] then True
      else if \<not> alive \<or> \<not> ValidFor now auth device \<or> \<not> ControllerOK auth fp then False
      else relaySays \<and> now < o_expires auth)"

definition workspaceSessionActive :: "gotime \<Rightarrow> Open \<Rightarrow> string \<Rightarrow> bool \<Rightarrow> bool \<Rightarrow> bool \<Rightarrow> bool" where
  "workspaceSessionActive now auth device known alive relaySays \<longleftrightarrow>
     (if \<not> alive \<or> o_grant auth \<noteq> [] \<or> \<not> ValidFor now auth device \<or> \<not> known then False else relaySays)"

text \<open>
  What the device knows when a session arrives: whether the key is trusted, is a portal
  administrator, the \<open>--yes\<close> option, and what the pairing request answers (\<open>Inl ()\<close> when
  too many wait). Admission answers a refusal, or the kind of session.
\<close>

record admission_view =
  av_now :: gotime
  av_device :: string
  av_known :: bool
  av_admin :: bool
  av_autoYes :: bool
  av_pair :: "unit + bool"
  av_alive :: bool
  av_relayDelegation :: bool
  av_relayWorkspace :: bool

definition authorize :: "admission_view \<Rightarrow> unit + bool" where
  "authorize v = (if av_known v then Inr True else if av_autoYes v then Inr True else av_pair v)"

text \<open>Whether \<open>authorize\<close> adds the key to the trusted ones.\<close>

definition authorize_adds :: "admission_view \<Rightarrow> bool" where
  "authorize_adds v \<longleftrightarrow> \<not> av_known v \<and> (av_autoYes v \<or> av_pair v = Inr True)"

definition handleSession :: "admission_view \<Rightarrow> Open \<Rightarrow> hello \<Rightarrow> string option + string" where
  "handleSession v auth h =
     (if h_kind h \<noteq> M_hello \<and> h_kind h \<noteq> M_console_hello \<and> h_kind h \<noteq> M_workspace_hello then Inl None
      else if \<not> ValidFor (av_now v) auth (av_device v) then Inl (Some ''rejected:session'')
      else if o_grant auth \<noteq> [] \<and> (\<not> ControllerOK auth (h_fp h)
             \<or> \<not> delegationActive (av_now v) auth (av_device v) (h_fp h) (av_alive v) (av_relayDelegation v))
        then Inl (Some ''rejected:delegation'')
      else if h_kind h = M_console_hello \<and> \<not> Has (o_caps auth) Console then Inl (Some ''rejected:capability'')
      else if h_kind h = M_console_hello \<and> \<not> av_admin v then Inl (Some ''rejected:not-console-admin'')
      else if mustIdentify (h_kind h) (av_known v) (av_autoYes v) (h_label h) then Inl (Some ''rejected:unlabeled'')
      else (case authorize v of
              Inl _ \<Rightarrow> Inl (Some ''rejected:pairing-full'')
            | Inr yes \<Rightarrow>
                (if \<not> yes then Inl (Some ''rejected:unpaired'')
                 else if h_kind h = M_workspace_hello
                    \<and> \<not> workspaceSessionActive (av_now v) auth (av_device v) (av_known v \<or> authorize_adds v)
                        (av_alive v) (av_relayWorkspace v)
                 then Inl (Some ''rejected:workspace-access'')
                 else Inr (h_kind h))))"

end
