(* ===== verification/GateProps.thy ===== *)
theory GateProps
  imports Gate
begin

text \<open>
  What the gate of a device guarantees: an operation runs only on the owner's word in
  one of its forms, what the owner was asked to remember is not asked again, scoped and
  delegated sessions cannot leave their bounds, and a session is admitted only with the
  relay's and the owner's consent.
\<close>

subsection \<open>The decisions of the gate\<close>

definition located :: "gate_env \<Rightarrow> request \<Rightarrow> request" where
  "located env req =
     (if exec_kind (q_kind req) then req\<lparr>q_cwd := canonicalApprovalDir (ge_eval env) (q_cwd req)\<rparr> else req)"

text \<open>The device as it is when the approver is asked.\<close>

definition before_ask :: "gate_env \<Rightarrow> request \<Rightarrow> device \<Rightarrow> device" where
  "before_ask env req d =
     d\<lparr>late := asked (ge_asked env) (located env req)
        (snd (useLateGrant (ge_find env) (ge_take env) (located env req) (ge_before env) (late d)))\<rparr>"

lemma useLateGrant_approved:
  assumes "useLateGrant t1 t2 req checks g = (LateApproved, g')" "grants_wf g"
  shows "\<exists>x \<in> set (lg_grants g). releases_req x req \<and> t1 < g_expires x \<and> t2 < g_expires x \<and> checks"
proof -
  obtain o' g1 where f: "find_grant t1 req g = (o', g1)" by (rule prod.exhaust)
  then obtain x where x: "o' = Some x" "checks" "fst (take_grant t2 x g1)"
    using assms by (auto simp: useLateGrant_def split: option.splits if_splits prod.splits bool.splits)
  have g1: "g1 = pruneLocked t1 g" "find (\<lambda>x. releases_req x req) (lg_grants g1) = Some x"
    using f x(1) by (auto simp: find_grant_def Let_def split: if_splits)
  have "x \<in> set (lg_grants g1)" "releases_req x req" using find_mem [OF g1(2)] by auto
  moreover have "t2 < g_expires x"
  proof -
    obtain y where "y \<in> set (lg_grants g1)" "g_id y = g_id x" "t2 < g_expires y"
      using take_grant_True(1) [of t2 x g1] x(3) by (metis prod.collapse)
    moreover have "distinct (map g_id (lg_grants g1))" using prune_wf [OF assms(2), of t1] g1(1) by (simp add: grants_wf_def)
    ultimately have "y = x" using \<open>x \<in> set (lg_grants g1)\<close> by (auto simp: distinct_map inj_on_def)
    then show ?thesis using \<open>t2 < g_expires y\<close> by simp
  qed
  ultimately show ?thesis using x(2) g1(1) by auto
qed

text \<open>The five ways a request passes the gate.\<close>

definition owner_said_yes :: "gate_env \<Rightarrow> approver \<Rightarrow> request \<Rightarrow> device \<Rightarrow> bool" where
  "owner_said_yes env ask req d \<longleftrightarrow>
     Bypasses (eng d) (q_kind req) (ge_elevation env)
     \<or> Allowed (ge_parser env) (eng d) req
     \<or> (ge_before env \<and> (\<exists>x \<in> set (lg_grants (late d)). releases_req x (located env req) \<and> ge_take env < g_expires x))
     \<or> (ge_after env \<and> allow (fst (ask (located env req) (before_ask env req d))))"

lemma gate_unfold:
  "gate env ask req d =
     (if Bypasses (eng d) (q_kind req) (ge_elevation env) then ((True, ''bypass''), d)
      else if Allowed (ge_parser env) (eng d) req then ((True, ''pre-approved''), d)
      else
       (case fst (useLateGrant (ge_find env) (ge_take env) (located env req) (ge_before env) (late d)) of
             LateApproved \<Rightarrow> ((True, ''late-approved''), d\<lparr>late := snd (useLateGrant (ge_find env) (ge_take env) (located env req) (ge_before env) (late d))\<rparr>)
           | Inactive \<Rightarrow> ((False, inactive), d\<lparr>late := snd (useLateGrant (ge_find env) (ge_take env) (located env req) (ge_before env) (late d))\<rparr>)
           | NotHandled \<Rightarrow>
              (let (v, d') = ask (located env req) (before_ask env req d)
               in if \<not> ge_after env then ((False, inactive), d')
                  else if \<not> allow v then ((False, ''denied''), d')
                  else if remember v then
                    (let (e, ok, k) = Add (ge_add env) (ge_write env) (RuleFor (ge_add env) req (d_scope v)) (eng d') (dsk d')
                     in ((True, ''remembered:'' @ d_scope v), d'\<lparr>eng := e, dsk := k\<rparr>))
                  else ((True, ''approved''), d'))))"
proof -
  obtain ans g where u: "useLateGrant (ge_find env) (ge_take env) (located env req) (ge_before env) (late d) = (ans, g)"
    by (rule prod.exhaust)
  show ?thesis
    unfolding gate_def Let_def located_def [symmetric] before_ask_def u
    by (cases ans) simp_all
qed

lemma gate_sound:
  assumes "grants_wf (late d)" "fst (fst (gate env ask req d))"
  shows "owner_said_yes env ask req d"
proof (rule ccontr)
  assume no: "\<not> owner_said_yes env ask req d"
  then have n: "\<not> Bypasses (eng d) (q_kind req) (ge_elevation env)" "\<not> Allowed (ge_parser env) (eng d) req"
    "\<not> (ge_after env \<and> allow (fst (ask (located env req) (before_ask env req d))))"
    by (auto simp: owner_said_yes_def)
  let ?u = "useLateGrant (ge_find env) (ge_take env) (located env req) (ge_before env) (late d)"
  have "fst ?u \<noteq> LateApproved"
  proof
    assume "fst ?u = LateApproved"
    then obtain g where "?u = (LateApproved, g)" by (metis prod.collapse)
    from useLateGrant_approved [OF this assms(1)] no show False by (auto simp: owner_said_yes_def)
  qed
  moreover obtain v d' where a: "ask (located env req) (before_ask env req d) = (v, d')" by (rule prod.exhaust)
  ultimately have "\<not> fst (fst (gate env ask req d))"
    using n unfolding gate_unfold a by (cases "fst ?u") auto
  then show False using assms(2) by simp
qed

lemma gate_denied_keeps_rules:
  assumes "\<not> fst (fst (gate env ask req d))" "\<And>r d'. eng (snd (ask r d')) = eng d'"
  shows "eng (snd (gate env ask req d)) = eng d"
proof -
  obtain v d' where a: "ask (located env req) (before_ask env req d) = (v, d')" by (rule prod.exhaust)
  have "eng d' = eng d" using assms(2) [of "located env req" "before_ask env req d"] a by (simp add: before_ask_def)
  then show ?thesis using assms(1) unfolding gate_unfold a
    by (auto split: grant_answer.splits if_splits prod.splits)
qed

text \<open>After the owner chose to remember, the engine has the rule for the request as it was made.\<close>

lemma gate_remembers:
  assumes "gate env ask req d = ((True, ''remembered:'' @ sc), d')"
  shows "\<exists>v e. snd (ask (located env req) (before_ask env req d)) = e \<and> fst (ask (located env req) (before_ask env req d)) = v
    \<and> d_scope v = sc \<and> allow v \<and> eng d' = fst (Add (ge_add env) (ge_write env) (RuleFor (ge_add env) req sc) (eng e) (dsk e))"
  using assms unfolding gate_unfold Let_def
  by (auto split: if_splits grant_answer.splits prod.splits)

lemma Allowed_gate: "Allowed (ge_parser env) (eng d) req \<Longrightarrow> \<exists>why. gate env ask req d = ((True, why), d)"
  unfolding gate_unfold by simp

subsection \<open>Files\<close>

lemma gateFile_root:
  assumes "fst (fst (gateFile env ask req d))" and "snd (snd (fst (gateFile env ask req d))) = root"
    and "q_kind req = KindRead \<or> q_kind req = KindWrite"
  shows "e_mode (eng d) = ModeBypass \<and> root = []
    \<or> AllowedFileRoot (ge_parser env) (eng d) req = Some root
    \<or> root = Dir (q_path req)
    \<or> (root = [] \<and> (\<exists>v. allow v \<and> remember v \<and> d_scope v \<noteq> ScopeDir
          \<and> (\<exists>x. fst (ask req x) = v)))"
proof -
  let ?u = "useLateGrant (ge_find env) (ge_take env) req (ge_before env) (late d)"
  obtain ans g where u: "?u = (ans, g)" by (rule prod.exhaust)
  obtain v d' where a: "ask req (d\<lparr>late := g\<rparr>) = (v, d')" by (rule prod.exhaust)
  show ?thesis
  proof (cases "remember v \<and> d_scope v \<noteq> ScopeDir")
    case True
    have "\<exists>x. fst (ask req x) = v" using a by (metis fst_conv)
    then show ?thesis using assms True u a unfolding gateFile_def
      by (auto simp: RuleFor_def Let_def split: if_splits option.splits grant_answer.splits prod.splits)
  next
    case False
    then show ?thesis using assms u a unfolding gateFile_def
      by (auto simp: RuleFor_def Let_def split: if_splits option.splits grant_answer.splits prod.splits)
  qed
qed

subsection \<open>Sessions\<close>

lemma dispatched:
  assumes "serve_request ws active audit caps workspace m = Dispatch m'"
  shows "requiredCapability (m_kind m') \<noteq> 0 \<Longrightarrow> Has caps (requiredCapability (m_kind m'))"
    and "ws \<noteq> None \<Longrightarrow> m_kind m = M_workspace \<and> ws = Some True"
    and "active \<noteq> Some False"
    and "sa_execOnly audit \<noteq> [] \<Longrightarrow> scopedRequestAllowed m (sa_execOnly audit)"
    and "active \<noteq> None \<Longrightarrow> m_kind m \<noteq> M_workspace \<and> m_kind m \<noteq> M_exec_async \<and> m_kind m \<noteq> M_exec_poll
           \<and> (m_kind m = M_exec \<longrightarrow> m_oneShot m)"
    and "m_kind m \<noteq> M_workspace \<Longrightarrow> m' = m"
  using assms unfolding serve_request_def Let_def
  by (auto split: if_splits)

lemma scoped_message:
  assumes "scopedRequestAllowed m cmd"
  shows "m = zero_message\<lparr>m_kind := M_cancel\<rparr>
    \<or> (m_kind m = M_exec \<and> m_command m = cmd \<and> m_oneShot m \<and> \<not> m_elevate m \<and> m_cwd m = [] \<and> m_via m = [] \<and> \<not> m_rest m)"
  using assms unfolding scopedRequestAllowed_def zero_message_def by (auto split: if_splits) (cases m; simp)+

lemma admitted_iff:
  "handleSession v auth h = Inr k \<longleftrightarrow> k = h_kind h
     \<and> (h_kind h = M_hello \<or> h_kind h = M_console_hello \<or> h_kind h = M_workspace_hello)
     \<and> ValidFor (av_now v) auth (av_device v)
     \<and> (o_grant auth \<noteq> [] \<longrightarrow> ControllerOK auth (h_fp h)
             \<and> delegationActive (av_now v) auth (av_device v) (h_fp h) (av_alive v) (av_relayDelegation v))
     \<and> (h_kind h = M_console_hello \<longrightarrow> Has (o_caps auth) Console)
     \<and> (h_kind h = M_console_hello \<longrightarrow> av_admin v)
     \<and> \<not> mustIdentify (h_kind h) (av_known v) (av_autoYes v) (h_label h)
     \<and> authorize v = Inr True
     \<and> (h_kind h = M_workspace_hello \<longrightarrow> workspaceSessionActive (av_now v) auth (av_device v) (av_known v \<or> authorize_adds v)
                        (av_alive v) (av_relayWorkspace v))"
proof (cases "authorize v")
  case (Inl u)
  then show ?thesis unfolding handleSession_def by simp
next
  case (Inr b)
  then show ?thesis unfolding handleSession_def Inr by (cases b) (auto split: if_splits)
qed

lemma admitted:
  assumes "handleSession v auth h = Inr k"
  shows "k = h_kind h" "ValidFor (av_now v) auth (av_device v)"
    and "o_grant auth \<noteq> [] \<Longrightarrow> ControllerOK auth (h_fp h) \<and> av_relayDelegation v \<and> av_now v < o_expires auth"
    and "k = M_console_hello \<Longrightarrow> Has (o_caps auth) Console \<and> av_admin v"
    and "av_known v \<or> authorize_adds v"
    and "authorize_adds v \<Longrightarrow> k \<noteq> M_console_hello \<Longrightarrow> TrimSpace (h_label h) \<noteq> [] \<or> av_autoYes v"
    and "k = M_workspace_hello \<Longrightarrow> o_grant auth = []"
proof -
  note h = assms [unfolded admitted_iff]
  show "k = h_kind h" "ValidFor (av_now v) auth (av_device v)" using h by blast+
  show "k = M_console_hello \<Longrightarrow> Has (o_caps auth) Console \<and> av_admin v" using h by simp
  show "o_grant auth \<noteq> [] \<Longrightarrow> ControllerOK auth (h_fp h) \<and> av_relayDelegation v \<and> av_now v < o_expires auth"
    using h by (auto simp: delegationActive_def split: if_splits)
  have "authorize v = Inr True" using h by blast
  then show "av_known v \<or> authorize_adds v" by (auto simp: authorize_def authorize_adds_def split: if_splits)
  have "\<not> mustIdentify (h_kind h) (av_known v) (av_autoYes v) (h_label h)" using h by blast
  then show "authorize_adds v \<Longrightarrow> k \<noteq> M_console_hello \<Longrightarrow> TrimSpace (h_label h) \<noteq> [] \<or> av_autoYes v"
    using h by (auto simp: mustIdentify_def unlabeledPairing_def authorize_adds_def)
  show "k = M_workspace_hello \<Longrightarrow> o_grant auth = []"
    using h by (auto simp: workspaceSessionActive_def split: if_splits)
qed

section \<open>Properties of the gate\<close>

definition owner_env :: gate_env where
  "owner_env = \<lparr>ge_parser = (\<lambda>_. None), ge_eval = (\<lambda>p. Some p), ge_elevation = False, ge_find = 10, ge_take = 11,
     ge_asked = 12, ge_add = 13, ge_write = Renamed, ge_before = True, ge_after = True\<rparr>"

definition fresh_device :: device where
  "fresh_device = \<lparr>eng = fresh_engine, dsk = empty_disk, late = no_grants\<rparr>"

definition answers :: "decision \<Rightarrow> approver" where
  "answers v req d = (v, d)"

definition dir_always :: decision where
  "dir_always = \<lparr>allow = True, remember = True, d_scope = ScopeDir\<rparr>"

text \<open>
  C33. Nothing runs without the owner's word in one of its four forms: the mode of the
  device, a rule, a late approval that names this request and still stands when it is
  taken, or the approver's yes to this request with the session's checks passing
  afterwards. The approver is asked about the request with its directory resolved.
\<close>

theorem gate_needs_the_owner:
  assumes "grants_wf (late d)" and "fst (fst (gate env ask req d))"
  shows "Bypasses (eng d) (q_kind req) (ge_elevation env)
     \<or> Allowed (ge_parser env) (eng d) req
     \<or> (ge_before env \<and> (\<exists>x \<in> set (lg_grants (late d)). releases_req x (located env req) \<and> ge_take env < g_expires x))
     \<or> (ge_after env \<and> allow (fst (ask (located env req) (before_ask env req d))))"
  using gate_sound [OF assms] by (simp add: owner_said_yes_def)

lemma fresh_device_wf: "grants_wf (late fresh_device)"
  by (simp add: fresh_device_def grants_wf_def no_grants_def)

theorem gate_needs_the_owner_witness:
  "fst (fst (gate owner_env (answers once) (read_req ''/srv/log/a'') fresh_device))
   \<and> \<not> fst (fst (gate owner_env (answers deny) (read_req ''/srv/log/a'') fresh_device))
   \<and> allow (fst (answers once (located owner_env (read_req ''/srv/log/a''))
            (before_ask owner_env (read_req ''/srv/log/a'') fresh_device)))"
proof -
  have g: "fst (fst (gate owner_env (answers once) (read_req ''/srv/log/a'') fresh_device))" by code_simp
  have "\<not> fst (fst (gate owner_env (answers deny) (read_req ''/srv/log/a'') fresh_device))" by code_simp
  moreover have "\<not> Bypasses (eng fresh_device) (q_kind (read_req ''/srv/log/a'')) (ge_elevation owner_env)"
    "\<not> Allowed (ge_parser owner_env) (eng fresh_device) (read_req ''/srv/log/a'')"
    "lg_grants (late fresh_device) = []"
    by code_simp+
  ultimately show ?thesis using gate_needs_the_owner [OF fresh_device_wf g] g by simp
qed

text \<open>
  What the owner chose to remember is not asked again: when the gate answered that
  it remembered the request, the same request passes at once later on, under any clock,
  parser and approver and without changing the device, as long as the request is one a
  rule can describe.
\<close>

theorem remembered_is_not_asked_again:
  assumes "gate env ask req d = ((True, ''remembered:'' @ sc), d')" and "fits req sc"
  shows "\<exists>why. gate env' ask' req d' = ((True, why), d')"
proof -
  obtain e :: device where e: "eng d' = fst (Add (ge_add env) (ge_write env) (RuleFor (ge_add env) req sc) (eng e) (dsk e))"
    using gate_remembers [OF assms(1)] by metis
  obtain e1 ok k where a: "Add (ge_add env) (ge_write env) (RuleFor (ge_add env) req sc) (eng e) (dsk e) = (e1, ok, k)"
    by (metis prod_cases3)
  then have "Allowed (ge_parser env') (eng d') req"
    using Allowed_Add [OF a] RuleFor_covers [OF assms(2)] e by simp
  then show ?thesis by (rule Allowed_gate)
qed

theorem remembered_is_not_asked_again_witness:
  "\<exists>d' why. gate owner_env (answers dir_always) (read_req ''/srv/log/a'') fresh_device = ((True, ''remembered:'' @ ScopeDir), d')
     \<and> gate owner_env (answers deny) (read_req ''/srv/log/a'') d' = ((True, why), d')"
proof -
  have f: "fits (read_req ''/srv/log/a'') ScopeDir" by code_simp
  have "\<not> Bypasses (eng fresh_device) (q_kind (read_req ''/srv/log/a'')) (ge_elevation owner_env)"
    "\<not> Allowed (ge_parser owner_env) (eng fresh_device) (read_req ''/srv/log/a'')"
    "fst (useLateGrant (ge_find owner_env) (ge_take owner_env) (located owner_env (read_req ''/srv/log/a''))
            (ge_before owner_env) (late fresh_device)) = NotHandled"
    by code_simp+
  then have "fst (gate owner_env (answers dir_always) (read_req ''/srv/log/a'') fresh_device) = (True, ''remembered:'' @ ScopeDir)"
    unfolding gate_unfold by (simp add: answers_def dir_always_def owner_env_def split: prod.split)
  then obtain d' where g: "gate owner_env (answers dir_always) (read_req ''/srv/log/a'') fresh_device
      = ((True, ''remembered:'' @ ScopeDir), d')"
    by (metis prod.collapse)
  show ?thesis using remembered_is_not_asked_again [OF g f] g by blast
qed



text \<open>
  C35. A scoped ticket runs its one command and nothing else: in a session stamped with
  \<open>ExecOnly\<close>, whatever the controller sends, a dispatched request is a bare cancel or
  the ticket's command as a one-shot, not elevated, in no directory of its choice and
  with no other field set, and the session's capability is \<open>exec\<close> alone.
\<close>

theorem scoped_ticket_runs_one_command:
  assumes "handleSession v auth h = Inr k" and "o_execOnly auth \<noteq> []"
    and "serve_request ws active (auditSession auth) (o_caps auth) workspace m = Dispatch m'"
  shows "m' = m \<and> o_caps auth = Exec \<and> o_grant auth \<noteq> []
    \<and> (m = zero_message\<lparr>m_kind := M_cancel\<rparr>
       \<or> (m_kind m = M_exec \<and> m_command m = o_execOnly auth \<and> m_oneShot m \<and> \<not> m_elevate m \<and> m_cwd m = []
          \<and> m_via m = [] \<and> \<not> m_rest m))"
proof -
  have v: "o_caps auth = Exec \<and> o_grant auth \<noteq> []"
    using admitted(2) [OF assms(1)] assms(2) by (simp add: ValidFor_def)
  then have a: "sa_execOnly (auditSession auth) = o_execOnly auth" by (simp add: auditSession_def)
  then have s: "scopedRequestAllowed m (o_execOnly auth)" using dispatched(4) [OF assms(3)] assms(2) by simp
  then have "m_kind m \<noteq> M_workspace"
    using scoped_message [OF s] by (auto simp: zero_message_def msg_kinds)
  then show ?thesis using dispatched(6) [OF assms(3)] v scoped_message [OF s] by blast
qed

definition ticket :: Open where
  "ticket = \<lparr>o_session = ''s1'', callerNS = ''ann'', ownerNS = ''ann'', o_device = ''d1'', o_caps = Exec, o_grant = ''g'',
     o_credential = ''c'', o_controllerFP = [], o_expires = 100, o_execOnly = ''uptime''\<rparr>"

definition quiet_view :: admission_view where
  "quiet_view = \<lparr>av_now = 50, av_device = ''d1'', av_known = True, av_admin = False, av_autoYes = False,
     av_pair = Inl (), av_alive = True, av_relayDelegation = True, av_relayWorkspace = True\<rparr>"

definition hello_from :: "string \<Rightarrow> hello" where
  "hello_from kind = \<lparr>h_kind = kind, h_fp = ''fp'', h_label = ''pc''\<rparr>"

definition run_message :: "string \<Rightarrow> message" where
  "run_message cmd = zero_message\<lparr>m_kind := M_exec, m_command := cmd, m_oneShot := True\<rparr>"

theorem scoped_ticket_runs_one_command_witness:
  "handleSession quiet_view ticket (hello_from M_hello) = Inr M_hello
   \<and> serve_request None (Some True) (auditSession ticket) (o_caps ticket) Some (run_message ''uptime'') = Dispatch (run_message ''uptime'')
   \<and> m_command (run_message ''uptime'') = o_execOnly ticket
   \<and> serve_request None (Some True) (auditSession ticket) (o_caps ticket) Some (run_message ''id'')
       = Skip ''scoped token allows only its one command''"
proof -
  have h: "handleSession quiet_view ticket (hello_from M_hello) = Inr M_hello" "o_execOnly ticket \<noteq> []"
    "serve_request None (Some True) (auditSession ticket) (o_caps ticket) Some (run_message ''uptime'') = Dispatch (run_message ''uptime'')"
    "serve_request None (Some True) (auditSession ticket) (o_caps ticket) Some (run_message ''id'')
       = Skip ''scoped token allows only its one command''"
    "run_message ''uptime'' \<noteq> zero_message\<lparr>m_kind := M_cancel\<rparr>"
    by code_simp+
  show ?thesis using scoped_ticket_runs_one_command [OF h(1-3)] h by blast
qed

text \<open>
  A session does only what its capabilities name: a request that is dispatched
  needs a capability the session has, or none (status, cancel), whatever the workspace
  service made of it; a revoked delegation or workspace ends the session instead, and a
  delegated session runs commands only as synchronous one-shots.
\<close>

theorem dispatch_needs_capability:
  assumes "serve_request ws active audit caps workspace m = Dispatch m'"
  shows "Has caps (requiredCapability (m_kind m')) \<and> active \<noteq> Some False \<and> ws \<noteq> Some False
    \<and> (active \<noteq> None \<and> (m_kind m' = M_exec \<or> m_kind m' = M_exec_async) \<longrightarrow> m_kind m' = M_exec \<and> m_oneShot m')"
proof -
  note d = dispatched [OF assms]
  have "Has caps 0" by (simp add: Has_def)
  then have "Has caps (requiredCapability (m_kind m'))" using d(1) by metis
  then show ?thesis using d(2,3,5,6) by (auto simp: msg_kinds)
qed

theorem dispatch_needs_capability_witness:
  "serve_request None None (auditSession ticket\<lparr>sa_execOnly := []\<rparr>) Read Some (run_message ''id'') = Skip ''session capability denied: exec''
   \<and> serve_request None None (auditSession ticket\<lparr>sa_execOnly := []\<rparr>) Exec Some (run_message ''id'') = Dispatch (run_message ''id'')
   \<and> Has Exec (requiredCapability M_exec)"
proof -
  have "serve_request None None (auditSession ticket\<lparr>sa_execOnly := []\<rparr>) Read Some (run_message ''id'') = Skip ''session capability denied: exec''"
    by code_simp
  moreover have e: "serve_request None None (auditSession ticket\<lparr>sa_execOnly := []\<rparr>) Exec Some (run_message ''id'') = Dispatch (run_message ''id'')"
    by code_simp
  moreover have "m_kind (run_message ''id'') = M_exec" by (simp add: run_message_def)
  ultimately show ?thesis using dispatch_needs_capability [OF e] by simp
qed

text \<open>
  C36. A session is admitted only with everybody's consent: the relay stamped it for
  this device, a delegated one comes from the granted controller before it expires while
  the relay still confirms it, the console needs the console capability and a portal
  administrator's key, and the key is trusted already or becomes so now by the owner's
  yes (or \<open>--yes\<close>), which outside the console needs a name to show the owner.
\<close>

theorem admission_needs_consent:
  assumes "handleSession v auth h = Inr k"
  shows "k = h_kind h \<and> ValidFor (av_now v) auth (av_device v)
    \<and> (o_grant auth \<noteq> [] \<longrightarrow> ControllerOK auth (h_fp h) \<and> av_relayDelegation v \<and> av_now v < o_expires auth)
    \<and> (k = M_console_hello \<longrightarrow> Has (o_caps auth) Console \<and> av_admin v)
    \<and> (av_known v \<or> av_autoYes v \<or> av_pair v = Inr True)
    \<and> (\<not> av_known v \<and> \<not> av_autoYes v \<and> k \<noteq> M_console_hello \<longrightarrow> TrimSpace (h_label h) \<noteq> [])
    \<and> (k = M_workspace_hello \<longrightarrow> o_grant auth = [])"
  using admitted [OF assms] by (auto simp: authorize_adds_def)

theorem admission_needs_consent_witness:
  "handleSession (quiet_view\<lparr>av_known := False, av_pair := Inr True\<rparr>) ticket (hello_from M_hello) = Inr M_hello
   \<and> TrimSpace (h_label (hello_from M_hello)) \<noteq> []
   \<and> handleSession (quiet_view\<lparr>av_known := False\<rparr>) ticket (hello_from M_hello) = Inl (Some ''rejected:pairing-full'')
   \<and> handleSession quiet_view ticket (hello_from M_console_hello) = Inl (Some ''rejected:capability'')"
proof -
  have h: "handleSession (quiet_view\<lparr>av_known := False, av_pair := Inr True\<rparr>) ticket (hello_from M_hello) = Inr M_hello"
    by code_simp
  have "handleSession (quiet_view\<lparr>av_known := False\<rparr>) ticket (hello_from M_hello) = Inl (Some ''rejected:pairing-full'')"
    "handleSession quiet_view ticket (hello_from M_console_hello) = Inl (Some ''rejected:capability'')"
    "M_hello \<noteq> M_console_hello"
    by code_simp+
  moreover have "\<not> av_known (quiet_view\<lparr>av_known := False, av_pair := Inr True\<rparr>)"
    "\<not> av_autoYes (quiet_view\<lparr>av_known := False, av_pair := Inr True\<rparr>)"
    by (simp_all add: quiet_view_def)
  ultimately show ?thesis using admission_needs_consent [OF h] h by blast
qed

end
