(* ===== verification/Jobs.thy ===== *)
theory Jobs
  imports GoUnicode
begin

text \<open>
  \<open>src/internal/agent/jobs.go\<close> and \<open>limits/limits.go\<close>: background jobs. A job is a
  pointer that its goroutine and the store share, so the store keeps addresses into
  \<open>js_heap\<close>; \<open>js_jobs\<close> is the Go map, with its iteration order. A start has three
  pieces that run on their own: \<open>start_job\<close>, then \<open>finish_job\<close> (the end of the goroutine's
  command), then \<open>leave_job\<close>. Indexing an empty slice, which would panic, is \<open>None\<close>.
\<close>

definition MaxConcurrentJobs :: int where [go_defs]: "MaxConcurrentJobs = 4"
definition JobRunTimeout :: duration where [go_defs]: "JobRunTimeout = 30 * Minute"
definition MaxJobOutputBytes :: int where [go_defs]: "MaxJobOutputBytes = 8 * 2 ^ 20"
definition MaxRetainedJobs :: int where [go_defs]: "MaxRetainedJobs = 64"
definition MaxRetainedBytes :: int where [go_defs]: "MaxRetainedBytes = 64 * 2 ^ 20"
definition JobRetention :: duration where [go_defs]: "JobRetention = Hour"

definition jobOutputTruncated :: "byte list" where
  "jobOutputTruncated = bytes (CHR 0x0A # ''[wanctl: job output truncated]'' @ [CHR 0x0A])"

record job_limits =
  maxConcurrent :: int
  runTimeout :: duration
  maxOutput :: int
  maxRetained :: int
  maxBytes :: int
  retain :: duration

definition defaultJobLimits :: job_limits where
  "defaultJobLimits = \<lparr>maxConcurrent = MaxConcurrentJobs, runTimeout = JobRunTimeout, maxOutput = MaxJobOutputBytes,
     maxRetained = MaxRetainedJobs, maxBytes = MaxRetainedBytes, retain = JobRetention\<rparr>"

record job =
  j_id :: string
  j_cmd :: string
  j_started :: gotime
  j_owner :: string
  j_out :: "byte list"
  j_done :: bool
  j_code :: int
  j_finished :: gotime
  j_maxOutput :: int

text \<open>Go's \<open>copy(dst[k:], src)\<close> for \<open>k\<close> within \<open>dst\<close>.\<close>

definition copy_at :: "nat \<Rightarrow> 'a list \<Rightarrow> 'a list \<Rightarrow> 'a list" where
  "copy_at k src dst = take k dst @ take (length dst - k) src @ drop (k + length src) dst"

definition output_limit :: "job \<Rightarrow> int" where
  "output_limit j = (if j_maxOutput j \<le> 0 then MaxJobOutputBytes else j_maxOutput j)"

definition Write_job :: "byte list \<Rightarrow> job \<Rightarrow> job" where
  "Write_job p j =
     (let limit = output_limit j;
          remaining = limit - int (length (j_out j));
          remaining = (if remaining > int (length p) then int (length p) else remaining);
          out = (if remaining > 0 then j_out j @ take (nat remaining) p else j_out j);
          out = (if remaining < int (length p) \<and> limit \<ge> int (length jobOutputTruncated)
                 then copy_at (nat (limit - int (length jobOutputTruncated))) jobOutputTruncated out else out)
      in j\<lparr>j_out := out\<rparr>)"

definition snapshot :: "int \<Rightarrow> job \<Rightarrow> byte list \<times> int \<times> bool \<times> int" where
  "snapshot offset j =
     (let total = int (length (j_out j));
          offset = (if offset < 0 then 0 else offset);
          offset = (if offset > total then total else offset)
      in (drop (nat offset) (j_out j), total, j_done j, j_code j))"

record job_store =
  js_heap :: "job list"
  js_jobs :: "(string \<times> nat) list"
  js_running :: int
  js_limits :: job_limits

definition newJobStoreWithLimits :: "job_limits \<Rightarrow> job_store" where
  "newJobStoreWithLimits l = \<lparr>js_heap = [], js_jobs = [], js_running = 0, js_limits = l\<rparr>"

definition newJobStore :: job_store where
  "newJobStore = newJobStoreWithLimits defaultJobLimits"

subsection \<open>Retention\<close>

record retained_job =
  rj_id :: string
  rj_finished :: gotime
  rj_bytes :: int

fun evict_loop :: "int \<Rightarrow> int \<Rightarrow> retained_job list \<Rightarrow> int \<Rightarrow> (string \<times> nat) list \<Rightarrow> (string \<times> nat) list option" where
  "evict_loop mr mb rs b m =
     (if int (length rs) > mr \<or> b > mb
      then (case rs of [] \<Rightarrow> None | oldest # rest \<Rightarrow> evict_loop mr mb rest (b - rj_bytes oldest) (al_del (rj_id oldest) m))
      else Some m)"

declare evict_loop.simps [simp del]

definition expired_job :: "gotime \<Rightarrow> job_store \<Rightarrow> nat \<Rightarrow> bool" where
  "expired_job now s a \<longleftrightarrow> j_done (js_heap s ! a) \<and> j_finished (js_heap s ! a) < now - retain (js_limits s)"

definition retained_jobs :: "job_store \<Rightarrow> (string \<times> nat) list \<Rightarrow> retained_job list" where
  "retained_jobs s m =
     map (\<lambda>(jid, a). \<lparr>rj_id = jid, rj_finished = j_finished (js_heap s ! a), rj_bytes = int (length (j_out (js_heap s ! a)))\<rparr>)
       (filter (\<lambda>(jid, a). j_done (js_heap s ! a)) m)"

definition job_gcLocked :: "gotime \<Rightarrow> job_store \<Rightarrow> job_store option" where
  "job_gcLocked now s =
     (let m = filter (\<lambda>(jid, a). \<not> expired_job now s a) (js_jobs s);
          retained = retained_jobs s m;
          retainedBytes = sum_list (map rj_bytes retained);
          retained = sort_key rj_finished retained
      in map_option (\<lambda>m. s\<lparr>js_jobs := m\<rparr>)
           (evict_loop (maxRetained (js_limits s)) (maxBytes (js_limits s)) retained retainedBytes m))"

definition runningCount :: "job_store \<Rightarrow> int" where
  "runningCount s = js_running s"

definition get_job :: "gotime \<Rightarrow> string \<Rightarrow> job_store \<Rightarrow> (nat option \<times> job_store) option" where
  "get_job now jid s = map_option (\<lambda>s. (map_of (js_jobs s) jid, s)) (job_gcLocked now s)"

definition getFor :: "gotime \<Rightarrow> string \<Rightarrow> string \<Rightarrow> job_store \<Rightarrow> (nat option \<times> job_store) option" where
  "getFor now jid owner s =
     map_option (\<lambda>(j, s). (case j of None \<Rightarrow> None
        | Some a \<Rightarrow> if j_owner (js_heap s ! a) \<noteq> owner then None else Some a, s)) (get_job now jid s)"

subsection \<open>Running a job\<close>

text \<open>\<open>start\<close> up to the goroutine: the address of the new job, or that too many run.\<close>

definition start_job ::
  "gotime \<Rightarrow> gotime \<Rightarrow> string \<Rightarrow> string \<Rightarrow> string \<Rightarrow> job_store \<Rightarrow> (nat option \<times> job_store) option" where
  "start_job now1 now2 jid owner command s =
     (let j = \<lparr>j_id = jid, j_cmd = command, j_started = now1, j_owner = owner, j_out = [], j_done = False, j_code = 0,
               j_finished = 0, j_maxOutput = maxOutput (js_limits s)\<rparr>
      in map_option (\<lambda>s.
           (if js_running s \<ge> maxConcurrent (js_limits s) then (None, s)
            else (Some (length (js_heap s)),
                  s\<lparr>js_heap := js_heap s @ [j], js_jobs := al_put jid (length (js_heap s)) (js_jobs s),
                    js_running := js_running s + 1\<rparr>))) (job_gcLocked now2 s))"

definition error_note :: "string \<Rightarrow> byte list" where
  "error_note err = bytes (CHR 0x0A # ''[wanctl: job error: '' @ err @ '']'' @ [CHR 0x0A])"

text \<open>
  The end of the command: its exit code and error, with \<open>deadline\<close> the text of the
  time-out error when the run time was exceeded.
\<close>

definition finish_job :: "gotime \<Rightarrow> string option \<Rightarrow> int \<Rightarrow> string option \<Rightarrow> job \<Rightarrow> job" where
  "finish_job now deadline code err j =
     (let (code, err) = (case deadline of Some t \<Rightarrow> (-1, Some t) | None \<Rightarrow> (code, err));
          (code, j) = (case err of Some e \<Rightarrow> (-1, Write_job (error_note e) j) | None \<Rightarrow> (code, j))
      in j\<lparr>j_done := True, j_code := code, j_finished := now\<rparr>)"

definition leave_job :: "gotime \<Rightarrow> job_store \<Rightarrow> job_store option" where
  "leave_job now s = job_gcLocked now (s\<lparr>js_running := js_running s - 1\<rparr>)"

definition at_job :: "nat \<Rightarrow> (job \<Rightarrow> job) \<Rightarrow> job_store \<Rightarrow> job_store" where
  "at_job a f s = s\<lparr>js_heap := (js_heap s)[a := f (js_heap s ! a)]\<rparr>"

text \<open>
  \<open>doExecPoll\<close>: whether the attempt is recorded as one on another controller's job, and
  what is sent: the output past the offset and the status, or that there is no such job.
\<close>

datatype poll_reply = UnknownJob string | JobStatus "byte list" int bool int

definition exec_poll ::
  "gotime \<Rightarrow> gotime \<Rightarrow> string \<Rightarrow> string \<Rightarrow> int \<Rightarrow> job_store \<Rightarrow> (bool \<times> poll_reply \<times> job_store) option" where
  "exec_poll now1 now2 jid fp offset s =
     (case getFor now1 jid fp s of
        None \<Rightarrow> None
      | Some (None, s) \<Rightarrow> map_option (\<lambda>(j, s). (j \<noteq> None, UnknownJob jid, s)) (get_job now2 jid s)
      | Some (Some a, s) \<Rightarrow>
          (let (new, total, finished, code) = snapshot offset (js_heap s ! a)
           in Some (False, JobStatus new total (\<not> finished) code, s)))"

end
