(* ===== verification/RunInvariant.thy ===== *)
theory RunInvariant
  imports Main
begin

text \<open>
  The contract a component gives when it claims that something holds in every state its
  operations can lead to: the invariant holds at the start and every step keeps it. A
  step that keeps the invariant may use it, so steps can be shown to be enabled as well.
\<close>

locale run_invariant =
  fixes start :: "'s \<Rightarrow> bool"
    and step :: "'s \<Rightarrow> 's \<Rightarrow> bool"
    and inv :: "'s \<Rightarrow> bool"
  assumes inv_start: "start s \<Longrightarrow> inv s"
    and inv_step: "step s t \<Longrightarrow> inv s \<Longrightarrow> inv t"
begin

lemma inv_from: "rtranclp step s t \<Longrightarrow> inv s \<Longrightarrow> inv t"
  by (induction rule: rtranclp_induct) (auto intro: inv_step)

lemma inv_run: "rtranclp step s t \<Longrightarrow> start s \<Longrightarrow> inv t"
  using inv_from inv_start by blast

end

text \<open>A quantity that no step lowers is no lower at the end of a run.\<close>

locale monotone_run = run_invariant +
  fixes mark :: "'s \<Rightarrow> 'a::order"
  assumes mark_step: "step s t \<Longrightarrow> inv s \<Longrightarrow> mark s \<le> mark t"
begin

lemma mark_from: "rtranclp step s t \<Longrightarrow> inv s \<Longrightarrow> mark s \<le> mark t"
proof (induction rule: rtranclp_induct)
  case (step t u)
  then show ?case using inv_from [OF step.hyps(1)] mark_step [OF step.hyps(2)] by (meson order_trans)
qed simp

end

end
