(* ===== verification/Bags.thy ===== *)
theory Bags
  imports Prelude "HOL-Library.Multiset"
begin

text \<open>
  Sums over lists and the multisets behind them, for the components that count bytes or
  sort what they hold.
\<close>

lemma mset_eq_sum:
  fixes f :: "'a \<Rightarrow> int"
  assumes "mset xs = mset ys"
  shows "sum_list (map f xs) = sum_list (map f ys)"
proof -
  have "sum_list (map f zs) = sum_mset (image_mset f (mset zs))" for zs
    by (induction zs) auto
  then show ?thesis using assms by simp
qed

lemma sum_filter_mono:
  fixes f :: "'a \<Rightarrow> int"
  assumes "\<And>x. x \<in> set xs \<Longrightarrow> P x \<Longrightarrow> Q x" "\<And>x. 0 \<le> f x"
  shows "sum_list (map f (filter P xs)) \<le> sum_list (map f (filter Q xs))"
  using assms by (induction xs) (auto simp: add_increasing)

lemma sum_list_split:
  fixes f :: "'a \<Rightarrow> int"
  shows "sum_list (map f xs) = sum_list (map f (filter P xs)) + sum_list (map f (filter (\<lambda>x. \<not> P x) xs))"
  by (induction xs) auto

lemma sum_bounded_list:
  fixes f :: "'a \<Rightarrow> int"
  assumes "\<And>x. x \<in> set xs \<Longrightarrow> f x \<le> k"
  shows "sum_list (map f xs) \<le> int (length xs) * k"
  using assms by (induction xs) (auto simp: algebra_simps add_mono)

lemma filter_not_taken:
  "distinct (map f xs) \<Longrightarrow> filter (\<lambda>x. f x \<notin> f ` set (take k xs)) xs = drop k xs"
proof (induction xs arbitrary: k)
  case (Cons x xs)
  show ?case
  proof (cases k)
    case (Suc n)
    have "filter (\<lambda>y. f y \<notin> f ` set (take (Suc n) (x # xs))) xs = filter (\<lambda>y. f y \<notin> f ` set (take n xs)) xs"
    proof (rule filter_cong [OF refl])
      fix y assume "y \<in> set xs"
      then have "f y \<in> f ` set xs" by (rule imageI)
      moreover have "f x \<notin> f ` set xs" using Cons.prems by simp
      ultimately have "f y \<noteq> f x" by metis
      then show "(f y \<notin> f ` set (take (Suc n) (x # xs))) = (f y \<notin> f ` set (take n xs))" by simp
    qed
    then show ?thesis using Cons Suc by simp
  qed simp
qed simp

end
