(* ===== verification/JobProps.thy ===== *)
theory JobProps
  imports Jobs RunInvariant Bags
begin

text \<open>
  What the job store guarantees: bounded output, retention and concurrency in every
  interleaving of starts, writes, ends and polls; a poll gets the output only for the
  controller that started the job; polling from the last total collects the output.
\<close>

subsection \<open>Output of one job\<close>

definition job_fits :: "job \<Rightarrow> bool" where
  "job_fits j \<longleftrightarrow> int (length (j_out j)) \<le> output_limit j"

lemma output_limit_pos: "0 < output_limit j"
  by (simp add: output_limit_def MaxJobOutputBytes_def)

lemma Write_job_other [simp]:
  "j_id (Write_job p j) = j_id j" "j_done (Write_job p j) = j_done j" "j_owner (Write_job p j) = j_owner j"
  "j_finished (Write_job p j) = j_finished j" "j_maxOutput (Write_job p j) = j_maxOutput j"
  "output_limit (Write_job p j) = output_limit j"
  by (simp_all add: Write_job_def Let_def output_limit_def)

lemma length_copy_at: "k \<le> length dst \<Longrightarrow> length (copy_at k src dst) = length dst"
  by (simp add: copy_at_def)

text \<open>
  A write that fits is appended; one that does not fills the output to its limit and
  puts the notice over its end. The copy stays in range.
\<close>

lemma Write_job_fits:
  assumes "int (length (j_out j) + length p) \<le> output_limit j"
  shows "j_out (Write_job p j) = j_out j @ p"
proof (cases p)
  case (Cons x xs)
  then show ?thesis using assms by (auto simp: Write_job_def Let_def)
qed (use assms in \<open>simp add: Write_job_def Let_def\<close>)

lemma Write_job_full:
  assumes "job_fits j" "output_limit j < int (length (j_out j) + length p)"
  shows "j_out (Write_job p j) =
    (let full = take (nat (output_limit j)) (j_out j @ p) in
     if output_limit j \<ge> int (length jobOutputTruncated)
     then take (nat (output_limit j) - length jobOutputTruncated) full @ jobOutputTruncated else full)"
proof -
  let ?L = "nat (output_limit j)"
  let ?full = "take ?L (j_out j @ p)"
  have r: "(if output_limit j - int (length (j_out j)) > int (length p) then int (length p)
            else output_limit j - int (length (j_out j))) = output_limit j - int (length (j_out j))"
    using assms(2) by simp
  have full: "(if output_limit j - int (length (j_out j)) > 0
      then j_out j @ take (nat (output_limit j - int (length (j_out j)))) p else j_out j) = ?full"
    using assms by (auto simp: job_fits_def nat_diff_distrib)
  have len: "length ?full = ?L" using assms(2) by simp
  have c: "copy_at (nat (output_limit j - int (length jobOutputTruncated))) jobOutputTruncated ?full
      = take (?L - length jobOutputTruncated) ?full @ jobOutputTruncated"
    if l: "output_limit j \<ge> int (length jobOutputTruncated)"
  proof -
    have k: "nat (output_limit j - int (length jobOutputTruncated)) = ?L - length jobOutputTruncated" by simp
    have "length ?full - (?L - length jobOutputTruncated) = length jobOutputTruncated" using l len by linarith
    moreover have "length ?full \<le> ?L - length jobOutputTruncated + length jobOutputTruncated" using l len by linarith
    ultimately show ?thesis unfolding copy_at_def k by (simp only: take_all drop_all order_refl append_Nil2)
  qed
  have lt: "output_limit j - int (length (j_out j)) < int (length p)" using assms(2) by simp
  show ?thesis
    unfolding Write_job_def Let_def r full using c lt by simp
qed

lemma Write_job_bounded: "job_fits j \<Longrightarrow> job_fits (Write_job p j)"
proof (cases "output_limit j < int (length (j_out j) + length p)")
  case True
  assume j: "job_fits j"
  let ?full = "take (nat (output_limit j)) (j_out j @ p)"
  have "int (length ?full) \<le> output_limit j" using output_limit_pos [of j] unfolding length_take by linarith
  then show ?thesis
    using Write_job_full [OF j True] unfolding job_fits_def Write_job_other(6) Let_def
    by (auto simp del: take_append)
next
  case False
  then show ?thesis by (simp add: job_fits_def Write_job_fits)
qed

lemma finish_job_fields [simp]:
  "j_id (finish_job now d c e j) = j_id j" "j_done (finish_job now d c e j)" "j_owner (finish_job now d c e j) = j_owner j"
  "j_finished (finish_job now d c e j) = now" "j_maxOutput (finish_job now d c e j) = j_maxOutput j"
  by (auto simp: finish_job_def Let_def split: option.splits prod.splits)

lemma finish_job_bounded: "job_fits j \<Longrightarrow> job_fits (finish_job now d c e j)"
  using Write_job_bounded [of j]
  by (auto simp: finish_job_def Let_def job_fits_def output_limit_def split: option.splits prod.splits)

subsection \<open>Eviction\<close>

lemma evict_loop_least:
  assumes "0 \<le> mr" "0 \<le> mb" "b = sum_list (map rj_bytes rs)"
  obtains k where "k \<le> length rs"
    and "evict_loop mr mb rs b m = Some (filter (\<lambda>(jid, _). jid \<notin> rj_id ` set (take k rs)) m)"
    and "int (length (drop k rs)) \<le> mr" and "sum_list (map rj_bytes (drop k rs)) \<le> mb"
    and "\<And>i. i < k \<Longrightarrow> \<not> (int (length (drop i rs)) \<le> mr \<and> sum_list (map rj_bytes (drop i rs)) \<le> mb)"
  using assms
proof (induction rs arbitrary: b m thesis)
  case Nil
  then show ?case by (auto simp: evict_loop.simps [of _ _ "[]"])
next
  case (Cons r rs)
  show ?case
  proof (cases "int (length (r # rs)) > mr \<or> b > mb")
    case False
    then show ?thesis using Cons.prems(1) [of 0] Cons.prems(4)
      by (auto simp: evict_loop.simps [of _ _ "r # rs"])
  next
    case True
    have b: "b - rj_bytes r = sum_list (map rj_bytes rs)" using Cons.prems(4) by simp
    obtain k where k: "k \<le> length rs"
      "evict_loop mr mb rs (b - rj_bytes r) (al_del (rj_id r) m)
        = Some (filter (\<lambda>(jid, _). jid \<notin> rj_id ` set (take k rs)) (al_del (rj_id r) m))"
      "int (length (drop k rs)) \<le> mr" "sum_list (map rj_bytes (drop k rs)) \<le> mb"
      "\<And>i. i < k \<Longrightarrow> \<not> (int (length (drop i rs)) \<le> mr \<and> sum_list (map rj_bytes (drop i rs)) \<le> mb)"
      by (rule Cons.IH [OF _ Cons.prems(2,3) b]) blast
    have f: "filter (\<lambda>(jid, _). jid \<notin> rj_id ` set (take k rs)) (al_del (rj_id r) m)
        = filter (\<lambda>(jid, _). jid \<notin> rj_id ` set (take (Suc k) (r # rs))) m"
      unfolding al_del_def filter_filter by (rule filter_cong) auto
    show ?thesis
    proof (rule Cons.prems(1) [of "Suc k"])
      show "evict_loop mr mb (r # rs) b m = Some (filter (\<lambda>(jid, _). jid \<notin> rj_id ` set (take (Suc k) (r # rs))) m)"
        using True k(2) f by (simp add: evict_loop.simps [of _ _ "r # rs"])
      fix i assume "i < Suc k"
      then show "\<not> (int (length (drop i (r # rs))) \<le> mr \<and> sum_list (map rj_bytes (drop i (r # rs))) \<le> mb)"
        using True k(5) [of "i - 1"] Cons.prems(4) by (cases i) auto
    qed (use k in auto)
  qed
qed

subsection \<open>What the collector leaves\<close>

definition limits_wf :: "job_limits \<Rightarrow> bool" where
  "limits_wf l \<longleftrightarrow> 0 < maxConcurrent l \<and> 0 \<le> maxRetained l \<and> 0 \<le> maxBytes l"

text \<open>
  With budgets that are not negative the loop never indexes an empty list. What stays is
  in its order: every job that still runs, and of the finished ones that are not too old
  the newest, which keep to both budgets.
\<close>

lemma job_gcLocked_result:
  assumes "limits_wf (js_limits s)" "distinct (map fst (js_jobs s))"
  obtains keep where "job_gcLocked now s = Some (s\<lparr>js_jobs := filter keep (js_jobs s)\<rparr>)"
    and "\<And>jid a. \<not> j_done (js_heap s ! a) \<Longrightarrow> keep (jid, a)"
    and "\<And>jid a. keep (jid, a) \<Longrightarrow> \<not> expired_job now s a"
    and "int (length (retained_jobs s (filter keep (js_jobs s)))) \<le> maxRetained (js_limits s)"
    and "sum_list (map rj_bytes (retained_jobs s (filter keep (js_jobs s)))) \<le> maxBytes (js_limits s)"
proof -
  let ?m = "filter (\<lambda>(jid, a). \<not> expired_job now s a) (js_jobs s)"
  let ?rs = "sort_key rj_finished (retained_jobs s ?m)"
  have b: "sum_list (map rj_bytes (retained_jobs s ?m)) = sum_list (map rj_bytes ?rs)"
    by (rule mset_eq_sum) simp
  obtain k where k: "k \<le> length ?rs"
    "evict_loop (maxRetained (js_limits s)) (maxBytes (js_limits s)) ?rs (sum_list (map rj_bytes (retained_jobs s ?m))) ?m
      = Some (filter (\<lambda>(jid, _). jid \<notin> rj_id ` set (take k ?rs)) ?m)"
    "int (length (drop k ?rs)) \<le> maxRetained (js_limits s)" "sum_list (map rj_bytes (drop k ?rs)) \<le> maxBytes (js_limits s)"
    using evict_loop_least [OF _ _ b] assms(1) unfolding limits_wf_def by metis
  let ?out = "\<lambda>x. rj_id x \<notin> rj_id ` set (take k ?rs)"
  define keep where "keep = (\<lambda>(jid, a). \<not> expired_job now s a
      \<and> (j_done (js_heap s ! a) \<longrightarrow> jid \<notin> rj_id ` set (take k ?rs)))"
  have dm: "distinct (map fst ?m)" using assms(2) by (rule distinct_map_filter)
  have ids: "map rj_id (retained_jobs s m) = map fst (filter (\<lambda>(jid, a). j_done (js_heap s ! a)) m)" for m
    by (induction m) (auto simp: retained_jobs_def)
  have dr: "distinct (map rj_id (retained_jobs s ?m))"
    unfolding ids by (rule distinct_map_filter [OF dm])
  have ds: "distinct (map rj_id ?rs)"
  proof -
    have "mset (map rj_id ?rs) = mset (map rj_id (retained_jobs s ?m))" by simp
    then show ?thesis using dr mset_eq_imp_distinct_iff by blast
  qed
  have running: "jid \<notin> rj_id ` set (take k ?rs)" if "(jid, a) \<in> set ?m" "\<not> j_done (js_heap s ! a)" for jid a
  proof
    assume "jid \<in> rj_id ` set (take k ?rs)"
    then have "jid \<in> rj_id ` set (retained_jobs s ?m)" by (auto dest: in_set_takeD)
    then obtain a' where a': "(jid, a') \<in> set ?m" "j_done (js_heap s ! a')" by (auto simp: retained_jobs_def)
    have "a' = a" by (rule eq_key_imp_eq_value [OF dm a'(1) that(1)])
    then show False using a'(2) that(2) by simp
  qed
  have kept: "filter (\<lambda>(jid, _). jid \<notin> rj_id ` set (take k ?rs)) ?m = filter keep (js_jobs s)"
    unfolding filter_filter keep_def
    by (rule filter_cong [OF refl]) (use running in auto)
  have "retained_jobs s (filter (\<lambda>(jid, _). jid \<notin> rj_id ` set (take k ?rs)) ?m) = filter ?out (retained_jobs s ?m)"
    unfolding retained_jobs_def filter_map filter_filter o_def
    by (rule arg_cong [where f = "map _"], rule filter_cong) auto
  then have r: "mset (retained_jobs s (filter keep (js_jobs s))) = mset (drop k ?rs)"
    unfolding kept [symmetric] filter_not_taken [OF ds, of k, symmetric] by simp
  show thesis
  proof (rule that [of keep])
    show "job_gcLocked now s = Some (s\<lparr>js_jobs := filter keep (js_jobs s)\<rparr>)"
      unfolding job_gcLocked_def Let_def k(2) kept by simp
    show "int (length (retained_jobs s (filter keep (js_jobs s)))) \<le> maxRetained (js_limits s)"
      using k(3) arg_cong [OF r, of size] by simp
    show "sum_list (map rj_bytes (retained_jobs s (filter keep (js_jobs s)))) \<le> maxBytes (js_limits s)"
      using k(4) mset_eq_sum [OF r, of rj_bytes] by simp
  qed (auto simp: keep_def expired_job_def)
qed

subsection \<open>Runs\<close>

text \<open>
  Starts, writes, ends and polls in any interleaving. The phase of a job is where its
  goroutine is. Twelve random bytes name a job; a run is one in which no name comes twice.
\<close>

datatype job_phase = Executing | Ended | Gone

record job_run =
  jr_store :: job_store
  jr_phase :: "job_phase list"

definition start_jobs :: job_run where
  "start_jobs = \<lparr>jr_store = newJobStore, jr_phase = []\<rparr>"

inductive job_step :: "job_run \<Rightarrow> job_run \<Rightarrow> bool" where
  started: "start_job t1 t2 jid owner cmd (jr_store r) = Some (ans, s)
    \<Longrightarrow> jid \<notin> j_id ` set (js_heap (jr_store r))
    \<Longrightarrow> job_step r \<lparr>jr_store = s, jr_phase = (case ans of None \<Rightarrow> jr_phase r | Some _ \<Rightarrow> jr_phase r @ [Executing])\<rparr>"
| wrote: "a < length (jr_phase r) \<Longrightarrow> jr_phase r ! a = Executing
    \<Longrightarrow> job_step r (r\<lparr>jr_store := at_job a (Write_job p) (jr_store r)\<rparr>)"
| ended: "a < length (jr_phase r) \<Longrightarrow> jr_phase r ! a = Executing
    \<Longrightarrow> job_step r \<lparr>jr_store = at_job a (finish_job now d code err) (jr_store r), jr_phase = (jr_phase r)[a := Ended]\<rparr>"
| left: "a < length (jr_phase r) \<Longrightarrow> jr_phase r ! a = Ended \<Longrightarrow> leave_job now (jr_store r) = Some s
    \<Longrightarrow> job_step r \<lparr>jr_store = s, jr_phase = (jr_phase r)[a := Gone]\<rparr>"
| polled: "exec_poll t1 t2 jid fp offset (jr_store r) = Some (alarm, reply, s)
    \<Longrightarrow> job_step r (r\<lparr>jr_store := s\<rparr>)"

definition live_count :: "job_phase list \<Rightarrow> nat" where
  "live_count ph = length (filter (\<lambda>x. x \<noteq> Gone) ph)"

definition gone_jobs :: "job_run \<Rightarrow> (string \<times> nat) list" where
  "gone_jobs r = filter (\<lambda>(_, a). jr_phase r ! a = Gone) (js_jobs (jr_store r))"

definition out_bytes :: "job_store \<Rightarrow> (string \<times> nat) list \<Rightarrow> int" where
  "out_bytes s m = sum_list (map (\<lambda>(_, a). int (length (j_out (js_heap s ! a)))) m)"

definition job_entries_ok :: "job_run \<Rightarrow> bool" where
  "job_entries_ok r \<longleftrightarrow>
     length (jr_phase r) = length (js_heap (jr_store r))
     \<and> distinct (map j_id (js_heap (jr_store r))) \<and> distinct (map fst (js_jobs (jr_store r)))
     \<and> (\<forall>jid a. (jid, a) \<in> set (js_jobs (jr_store r)) \<longrightarrow>
          a < length (js_heap (jr_store r)) \<and> j_id (js_heap (jr_store r) ! a) = jid)
     \<and> (\<forall>a < length (js_heap (jr_store r)).
          job_fits (js_heap (jr_store r) ! a) \<and> j_maxOutput (js_heap (jr_store r) ! a) = MaxJobOutputBytes
          \<and> (j_done (js_heap (jr_store r) ! a) \<longleftrightarrow> jr_phase r ! a \<noteq> Executing)
          \<and> (jr_phase r ! a = Executing \<longrightarrow> (j_id (js_heap (jr_store r) ! a), a) \<in> set (js_jobs (jr_store r))))"

definition job_run_ok :: "job_run \<Rightarrow> bool" where
  "job_run_ok r \<longleftrightarrow> js_limits (jr_store r) = defaultJobLimits \<and> job_entries_ok r
     \<and> js_running (jr_store r) = int (live_count (jr_phase r)) \<and> js_running (jr_store r) \<le> MaxConcurrentJobs
     \<and> int (length (gone_jobs r)) \<le> MaxRetainedJobs \<and> out_bytes (jr_store r) (gone_jobs r) \<le> MaxRetainedBytes"

lemma default_limits_wf: "limits_wf defaultJobLimits"
  by (simp add: limits_wf_def defaultJobLimits_def MaxConcurrentJobs_def MaxRetainedJobs_def MaxRetainedBytes_def)

text \<open>A collection drops entries of finished jobs only, and keeps all of the above.\<close>

lemma gc_effect:
  assumes "job_entries_ok r" "js_limits (jr_store r) = defaultJobLimits"
  obtains keep where "job_gcLocked now (jr_store r) = Some (jr_store r\<lparr>js_jobs := filter keep (js_jobs (jr_store r))\<rparr>)"
    and "job_entries_ok (r\<lparr>jr_store := jr_store r\<lparr>js_jobs := filter keep (js_jobs (jr_store r))\<rparr>\<rparr>)"
    and "int (length (retained_jobs (jr_store r) (filter keep (js_jobs (jr_store r))))) \<le> MaxRetainedJobs"
    and "sum_list (map rj_bytes (retained_jobs (jr_store r) (filter keep (js_jobs (jr_store r))))) \<le> MaxRetainedBytes"
    and "\<And>jid a. keep (jid, a) \<Longrightarrow> \<not> expired_job now (jr_store r) a"
proof -
  have d: "distinct (map fst (js_jobs (jr_store r)))" using assms(1) by (simp add: job_entries_ok_def)
  have l: "limits_wf (js_limits (jr_store r))" using assms(2) default_limits_wf by simp
  obtain keep where k: "job_gcLocked now (jr_store r) = Some (jr_store r\<lparr>js_jobs := filter keep (js_jobs (jr_store r))\<rparr>)"
    "\<And>jid a. \<not> j_done (js_heap (jr_store r) ! a) \<Longrightarrow> keep (jid, a)"
    "\<And>jid a. keep (jid, a) \<Longrightarrow> \<not> expired_job now (jr_store r) a"
    "int (length (retained_jobs (jr_store r) (filter keep (js_jobs (jr_store r))))) \<le> maxRetained (js_limits (jr_store r))"
    "sum_list (map rj_bytes (retained_jobs (jr_store r) (filter keep (js_jobs (jr_store r))))) \<le> maxBytes (js_limits (jr_store r))"
    by (rule job_gcLocked_result [OF l d, of now]) blast
  have "job_entries_ok (r\<lparr>jr_store := jr_store r\<lparr>js_jobs := filter keep (js_jobs (jr_store r))\<rparr>\<rparr>)"
    using assms(1) k(2) d unfolding job_entries_ok_def by (auto simp: distinct_map_filter)
  then show thesis
    using that [OF k(1) _ _ _ k(3)] k(4,5) assms(2) by (simp add: defaultJobLimits_def)
qed

lemma retained_bytes:
  "sum_list (map rj_bytes (retained_jobs s m)) = out_bytes s (filter (\<lambda>(_, a). j_done (js_heap s ! a)) m)"
  by (induction m) (auto simp: retained_jobs_def out_bytes_def)

lemma gone_retained:
  assumes "job_entries_ok r"
  shows "length (gone_jobs r) \<le> length (retained_jobs (jr_store r) (js_jobs (jr_store r)))"
    and "out_bytes (jr_store r) (gone_jobs r) \<le> sum_list (map rj_bytes (retained_jobs (jr_store r) (js_jobs (jr_store r))))"
proof -
  have d: "j_done (js_heap (jr_store r) ! a)" if "(jid, a) \<in> set (js_jobs (jr_store r))" "jr_phase r ! a = Gone" for jid a
    using assms that unfolding job_entries_ok_def by (metis job_phase.distinct(4))
  show "length (gone_jobs r) \<le> length (retained_jobs (jr_store r) (js_jobs (jr_store r)))"
    unfolding gone_jobs_def retained_jobs_def length_map by (rule length_filter_mono) (use d in auto)
  show "out_bytes (jr_store r) (gone_jobs r) \<le> sum_list (map rj_bytes (retained_jobs (jr_store r) (js_jobs (jr_store r))))"
    unfolding retained_bytes gone_jobs_def out_bytes_def by (rule sum_filter_mono) (use d in auto)
qed

lemma retained_jobs_cong: "js_heap s = js_heap s' \<Longrightarrow> retained_jobs s m = retained_jobs s' m"
  by (simp add: retained_jobs_def)

text \<open>So every step that collects leaves a state within bounds.\<close>

lemma gc_ok:
  assumes "job_entries_ok r" "js_limits (jr_store r) = defaultJobLimits"
    "js_running (jr_store r) = int (live_count (jr_phase r))" "js_running (jr_store r) \<le> MaxConcurrentJobs"
  shows "\<exists>s. job_gcLocked now (jr_store r) = Some s \<and> job_run_ok (r\<lparr>jr_store := s\<rparr>) \<and> js_heap s = js_heap (jr_store r)
    \<and> js_running s = js_running (jr_store r) \<and> js_limits s = js_limits (jr_store r)"
proof -
  obtain keep where k: "job_gcLocked now (jr_store r) = Some (jr_store r\<lparr>js_jobs := filter keep (js_jobs (jr_store r))\<rparr>)"
    "job_entries_ok (r\<lparr>jr_store := jr_store r\<lparr>js_jobs := filter keep (js_jobs (jr_store r))\<rparr>\<rparr>)"
    "int (length (retained_jobs (jr_store r) (filter keep (js_jobs (jr_store r))))) \<le> MaxRetainedJobs"
    "sum_list (map rj_bytes (retained_jobs (jr_store r) (filter keep (js_jobs (jr_store r))))) \<le> MaxRetainedBytes"
    by (rule gc_effect [OF assms(1,2), of now]) blast
  let ?s = "jr_store r\<lparr>js_jobs := filter keep (js_jobs (jr_store r))\<rparr>"
  have "retained_jobs ?s (js_jobs ?s) = retained_jobs (jr_store r) (filter keep (js_jobs (jr_store r)))"
    using retained_jobs_cong [of ?s "jr_store r"] by simp
  then have "int (length (gone_jobs (r\<lparr>jr_store := ?s\<rparr>))) \<le> MaxRetainedJobs"
    "out_bytes ?s (gone_jobs (r\<lparr>jr_store := ?s\<rparr>)) \<le> MaxRetainedBytes"
    using gone_retained [OF k(2)] k(3,4) by simp_all
  then show ?thesis using k(1,2) assms by (simp add: job_run_ok_def)
qed

lemma job_run_okD:
  assumes "job_run_ok r"
  shows "job_entries_ok r" "js_limits (jr_store r) = defaultJobLimits"
    "js_running (jr_store r) = int (live_count (jr_phase r))" "js_running (jr_store r) \<le> MaxConcurrentJobs"
    "int (length (gone_jobs r)) \<le> MaxRetainedJobs" "out_bytes (jr_store r) (gone_jobs r) \<le> MaxRetainedBytes"
  using assms by (auto simp: job_run_ok_def)

lemma live_count_update:
  assumes "a < length ph" "ph ! a \<noteq> Gone"
  shows "live_count (ph[a := Ended]) = live_count ph" "Suc (live_count (ph[a := Gone])) = live_count ph"
proof -
  have u: "ph = take a ph @ ph ! a # drop (Suc a) ph" "ph[a := x] = take a ph @ x # drop (Suc a) ph" for x
    using assms(1) by (simp_all add: id_take_nth_drop upd_conv_take_nth_drop)
  have "live_count ph = live_count (take a ph) + 1 + live_count (drop (Suc a) ph)"
    using assms(2) by (subst u(1)) (simp add: live_count_def)
  moreover have "live_count (ph[a := x]) = live_count (take a ph) + (if x = Gone then 0 else 1) + live_count (drop (Suc a) ph)" for x
    unfolding u(2) by (simp add: live_count_def)
  ultimately show "live_count (ph[a := Ended]) = live_count ph" "Suc (live_count (ph[a := Gone])) = live_count ph"
    by simp_all
qed

lemma start_job_result:
  assumes "start_job t1 t2 jid owner cmd s = Some (ans, s')"
  shows "\<exists>s1. job_gcLocked t2 s = Some s1 \<and>
    ((ans = None \<and> s' = s1 \<and> js_running s1 \<ge> maxConcurrent (js_limits s1))
     \<or> (ans = Some (length (js_heap s1)) \<and> js_running s1 < maxConcurrent (js_limits s1)
        \<and> s' = s1\<lparr>js_heap := js_heap s1 @ [\<lparr>j_id = jid, j_cmd = cmd, j_started = t1, j_owner = owner, j_out = [], j_done = False,
               j_code = 0, j_finished = 0, j_maxOutput = maxOutput (js_limits s)\<rparr>],
               js_jobs := al_put jid (length (js_heap s1)) (js_jobs s1), js_running := js_running s1 + 1\<rparr>))"
  using assms by (auto simp: start_job_def Let_def split: if_splits)

lemma add_job_ok:
  assumes "job_run_ok r" "jid \<notin> j_id ` set (js_heap (jr_store r))" "js_running (jr_store r) < MaxConcurrentJobs"
    and j: "j_id j = jid" "j_out j = []" "\<not> j_done j" "j_maxOutput j = MaxJobOutputBytes"
  shows "job_run_ok \<lparr>jr_store = jr_store r\<lparr>js_heap := js_heap (jr_store r) @ [j],
      js_jobs := al_put jid (length (js_heap (jr_store r))) (js_jobs (jr_store r)), js_running := js_running (jr_store r) + 1\<rparr>,
    jr_phase = jr_phase r @ [Executing]\<rparr>"
proof -
  let ?s = "jr_store r" let ?n = "length (js_heap ?s)"
  note o = job_run_okD [OF assms(1)]
  have e: "length (jr_phase r) = ?n" "distinct (map j_id (js_heap ?s))" "distinct (map fst (js_jobs ?s))"
    "\<And>jid a. (jid, a) \<in> set (js_jobs ?s) \<Longrightarrow> a < ?n \<and> j_id (js_heap ?s ! a) = jid"
    using o(1) by (auto simp: job_entries_ok_def)
  have h: "job_fits (js_heap ?s ! a) \<and> j_maxOutput (js_heap ?s ! a) = MaxJobOutputBytes
      \<and> (j_done (js_heap ?s ! a) \<longleftrightarrow> jr_phase r ! a \<noteq> Executing)
      \<and> (jr_phase r ! a = Executing \<longrightarrow> (j_id (js_heap ?s ! a), a) \<in> set (js_jobs ?s))" if "a < ?n" for a
    using o(1) that by (auto simp: job_entries_ok_def)
  have "jid \<notin> fst ` set (js_jobs ?s)"
  proof
    assume "jid \<in> fst ` set (js_jobs ?s)"
    then obtain a where "(jid, a) \<in> set (js_jobs ?s)" by auto
    then have "jid \<in> j_id ` set (js_heap ?s)" using e(4) by (metis image_eqI nth_mem)
    then show False using assms(2) by blast
  qed
  then have put: "al_put jid ?n (js_jobs ?s) = js_jobs ?s @ [(jid, ?n)]" by (rule al_put_fresh)
  have fits: "job_fits j" using j by (simp add: job_fits_def output_limit_def MaxJobOutputBytes_def)
  have old: "(js_heap ?s @ [j]) ! a = js_heap ?s ! a" "(jr_phase r @ [Executing]) ! a = jr_phase r ! a" if "a < ?n" for a
    using that e(1) by (simp_all add: nth_append)
  have new: "(js_heap ?s @ [j]) ! ?n = j" "(jr_phase r @ [Executing]) ! ?n = Executing"
    using e(1) by (simp, metis nth_append_length)
  have ent: "job_entries_ok \<lparr>jr_store = ?s\<lparr>js_heap := js_heap ?s @ [j],
      js_jobs := al_put jid ?n (js_jobs ?s), js_running := js_running ?s + 1\<rparr>, jr_phase = jr_phase r @ [Executing]\<rparr>"
    unfolding job_entries_ok_def put
    using e j h fits assms(2) \<open>jid \<notin> fst ` set (js_jobs ?s)\<close>
    by (auto simp: less_Suc_eq old new)
  have "filter (\<lambda>(_, a). (jr_phase r @ [Executing]) ! a = Gone) (js_jobs ?s @ [(jid, ?n)]) = gone_jobs r"
    using e(4) old(2) new(2) unfolding gone_jobs_def by (auto intro!: filter_cong)
  then have g: "gone_jobs \<lparr>jr_store = ?s\<lparr>js_heap := js_heap ?s @ [j],
      js_jobs := al_put jid ?n (js_jobs ?s), js_running := js_running ?s + 1\<rparr>, jr_phase = jr_phase r @ [Executing]\<rparr> = gone_jobs r"
    by (simp add: gone_jobs_def put)
  have b: "out_bytes (?s\<lparr>js_heap := js_heap ?s @ [j], js_jobs := m, js_running := k\<rparr>) (gone_jobs r) = out_bytes ?s (gone_jobs r)" for m k
    unfolding out_bytes_def using e(4) old(1)
    by (intro arg_cong [where f = sum_list] map_cong refl) (auto simp: gone_jobs_def)
  show ?thesis
    using ent g b o assms(3) by (simp add: job_run_ok_def live_count_def)
qed

lemma at_job_ok:
  assumes "job_run_ok r" "a < length (jr_phase r)" "jr_phase r ! a = Executing" "x \<noteq> Gone"
    and f: "\<And>j. j_id (f j) = j_id j" "\<And>j. j_maxOutput (f j) = j_maxOutput j" "\<And>j. job_fits j \<Longrightarrow> job_fits (f j)"
      "\<And>j. \<not> j_done j \<Longrightarrow> j_done (f j) \<longleftrightarrow> x \<noteq> Executing"
  shows "job_run_ok \<lparr>jr_store = at_job a f (jr_store r), jr_phase = (jr_phase r)[a := x]\<rparr>"
proof -
  let ?s = "jr_store r" let ?r = "\<lparr>jr_store = at_job a f (jr_store r), jr_phase = (jr_phase r)[a := x]\<rparr>"
  note o = job_run_okD [OF assms(1)]
  have n: "a < length (js_heap ?s)" using o(1) assms(2) by (simp add: job_entries_ok_def)
  have ids: "map j_id ((js_heap ?s)[a := f (js_heap ?s ! a)]) = map j_id (js_heap ?s)"
    using n f(1) by (metis list_update_id map_update)
  have id: "j_id ((js_heap ?s)[a := f (js_heap ?s ! a)] ! b) = j_id (js_heap ?s ! b)" if "b < length (js_heap ?s)" for b
    using f(1) that by (cases "b = a") auto
  have e: "job_entries_ok ?r"
    using o(1) n f(2-4) assms(2,3) unfolding job_entries_ok_def at_job_def
    by (auto simp: ids id nth_list_update f(1))
  have g: "gone_jobs ?r = gone_jobs r"
    unfolding gone_jobs_def using assms(2-4) by (auto simp: at_job_def nth_list_update intro!: filter_cong)
  have "out_bytes (at_job a f ?s) (gone_jobs r) = out_bytes ?s (gone_jobs r)"
    unfolding out_bytes_def gone_jobs_def using assms(3)
    by (intro arg_cong [where f = sum_list] map_cong refl)
      (auto simp: at_job_def, metis job_phase.distinct(3) nth_list_update_neq)
  moreover have "live_count ((jr_phase r)[a := x]) = live_count (jr_phase r)"
    using live_count_update(1) [of a "jr_phase r"] assms(2-4) list_update_id [of "jr_phase r" a] by (cases x) auto
  ultimately show ?thesis
    using e g o by (simp add: job_run_ok_def at_job_def)
qed

lemma get_job_ok:
  assumes "job_run_ok r" "get_job now jid (jr_store r) = Some (ans, s)"
  shows "job_run_ok (r\<lparr>jr_store := s\<rparr>)" "js_heap s = js_heap (jr_store r)" "ans = map_of (js_jobs s) jid"
proof -
  obtain s1 where s1: "job_gcLocked now (jr_store r) = Some s1" "job_run_ok (r\<lparr>jr_store := s1\<rparr>)"
    "js_heap s1 = js_heap (jr_store r)"
    using gc_ok [OF job_run_okD(1-4) [OF assms(1)], of now] by blast
  then show "job_run_ok (r\<lparr>jr_store := s\<rparr>)" "js_heap s = js_heap (jr_store r)" "ans = map_of (js_jobs s) jid"
    using assms(2) by (auto simp: get_job_def)
qed

lemma exec_poll_ok:
  assumes "job_run_ok r" "exec_poll t1 t2 jid fp offset (jr_store r) = Some (alarm, reply, s)"
  shows "job_run_ok (r\<lparr>jr_store := s\<rparr>)"
proof -
  obtain j s1 where g: "get_job t1 jid (jr_store r) = Some (j, s1)"
    using assms(2) by (auto simp: exec_poll_def getFor_def split: option.splits)
  note s1 = get_job_ok [OF assms(1) g]
  consider "s = s1" | k where "get_job t2 jid s1 = Some (k, s)"
    using assms(2) g by (auto simp: exec_poll_def getFor_def split: option.splits if_splits prod.splits)
  then show ?thesis
  proof cases
    case 2
    then show ?thesis using get_job_ok(1) [of "r\<lparr>jr_store := s1\<rparr>" t2 jid k s] s1(1) by simp
  qed (use s1 in simp)
qed

lemma job_step_ok:
  assumes "job_step r r'" "job_run_ok r"
  shows "job_run_ok r'"
  using assms(1)
proof cases
  case (started t1 t2 jid owner cmd ans s)
  note o = job_run_okD [OF assms(2)]
  obtain s1 where s1: "job_gcLocked t2 (jr_store r) = Some s1" "job_run_ok (r\<lparr>jr_store := s1\<rparr>)"
    "js_heap s1 = js_heap (jr_store r)" "js_running s1 = js_running (jr_store r)" "js_limits s1 = js_limits (jr_store r)"
    using gc_ok [OF o(1-4), of t2] by blast
  have l: "maxConcurrent (js_limits s1) = MaxConcurrentJobs" "maxOutput (js_limits (jr_store r)) = MaxJobOutputBytes"
    using s1(5) o(2) by (simp_all add: defaultJobLimits_def)
  show ?thesis
  proof (cases ans)
    case None
    then have "s = s1" using start_job_result [OF started(2)] s1(1) by auto
    then show ?thesis using None started(1) s1(2) by (cases r) simp
  next
    case (Some a)
    let ?j = "\<lparr>j_id = jid, j_cmd = cmd, j_started = t1, j_owner = owner, j_out = [], j_done = False,
               j_code = 0, j_finished = 0, j_maxOutput = maxOutput (js_limits (jr_store r))\<rparr>"
    have s: "s = s1\<lparr>js_heap := js_heap s1 @ [?j], js_jobs := al_put jid (length (js_heap s1)) (js_jobs s1),
        js_running := js_running s1 + 1\<rparr>" "js_running s1 < MaxConcurrentJobs"
      using start_job_result [OF started(2)] s1(1) Some l(1) by auto
    show ?thesis
      using add_job_ok [OF s1(2), of jid ?j] started(1,3) s s1(3) Some l(2) by simp
  qed
next
  case (wrote a p)
  have "(jr_phase r)[a := Executing] = jr_phase r" using wrote(3) by (metis list_update_id)
  then show ?thesis
    using at_job_ok [OF assms(2) wrote(2,3), of Executing "Write_job p"] wrote(1) Write_job_bounded by (cases r) simp
next
  case (ended a now d code err)
  then show ?thesis
    using at_job_ok [OF assms(2) ended(2,3), of Ended "finish_job now d code err"] finish_job_bounded by simp
next
  case (left a now s)
  note o = job_run_okD [OF assms(2)]
  let ?r = "\<lparr>jr_store = jr_store r\<lparr>js_running := js_running (jr_store r) - 1\<rparr>, jr_phase = (jr_phase r)[a := Gone]\<rparr>"
  have n: "a < length (js_heap (jr_store r))" using left(2) o(1) by (simp add: job_entries_ok_def)
  have e: "job_entries_ok ?r"
    using o(1) left(3) n unfolding job_entries_ok_def by (auto simp: nth_list_update)
  have "Suc (live_count ((jr_phase r)[a := Gone])) = live_count (jr_phase r)"
    using live_count_update(2) [OF left(2)] left(3) by simp
  then have c: "js_running (jr_store ?r) = int (live_count (jr_phase ?r))" "js_running (jr_store ?r) \<le> MaxConcurrentJobs"
    using o(3,4) by auto
  show ?thesis
    using gc_ok [OF e _ c, of now] o(2) left(1,4) by (auto simp: leave_job_def)
next
  case (polled t1 t2 jid fp offset alarm reply s)
  then show ?thesis using exec_poll_ok [OF assms(2)] by simp
qed

interpretation job_runs: run_invariant "\<lambda>r. r = start_jobs" job_step job_run_ok
proof unfold_locales
  fix r assume "r = start_jobs"
  then show "job_run_ok r"
    by (simp add: job_run_ok_def job_entries_ok_def start_jobs_def newJobStore_def newJobStoreWithLimits_def live_count_def
        gone_jobs_def out_bytes_def MaxConcurrentJobs_def MaxRetainedJobs_def MaxRetainedBytes_def)
qed (rule job_step_ok)

subsection \<open>What is held at any moment\<close>

text \<open>Entries whose goroutine has not left are at most as many as the running count.\<close>

lemma live_entries:
  assumes "job_run_ok r"
  shows "int (length (filter (\<lambda>(_, a). jr_phase r ! a \<noteq> Gone) (js_jobs (jr_store r)))) \<le> MaxConcurrentJobs"
proof -
  note o = job_run_okD [OF assms]
  let ?live = "filter (\<lambda>(_, a). jr_phase r ! a \<noteq> Gone) (js_jobs (jr_store r))"
  have e: "distinct (map fst (js_jobs (jr_store r)))" "length (jr_phase r) = length (js_heap (jr_store r))"
    "\<And>jid a. (jid, a) \<in> set (js_jobs (jr_store r)) \<Longrightarrow> a < length (js_heap (jr_store r)) \<and> j_id (js_heap (jr_store r) ! a) = jid"
    using o(1) by (auto simp: job_entries_ok_def)
  have "distinct (map fst ?live)" using e(1) by (rule distinct_map_filter)
  moreover have "map fst ?live = map (\<lambda>a. j_id (js_heap (jr_store r) ! a)) (map snd ?live)"
    unfolding map_map o_def by (rule map_cong [OF refl]) (use e(3) in auto)
  ultimately have "distinct (map snd ?live)" by (metis distinct_map)
  then have "length ?live = card (set (map snd ?live))" by (metis distinct_card length_map)
  also have "\<dots> \<le> card {a. a < length (jr_phase r) \<and> jr_phase r ! a \<noteq> Gone}"
    using e(2,3) by (intro card_mono) auto
  also have "\<dots> = live_count (jr_phase r)"
    by (simp add: live_count_def length_filter_conv_card)
  finally show ?thesis using o(3,4) by linarith
qed

lemma job_output_bound:
  assumes "job_run_ok r" "(jid, a) \<in> set (js_jobs (jr_store r))"
  shows "int (length (j_out (js_heap (jr_store r) ! a))) \<le> MaxJobOutputBytes"
proof -
  have "a < length (js_heap (jr_store r))" using assms by (auto simp: job_run_ok_def job_entries_ok_def)
  then have "job_fits (js_heap (jr_store r) ! a)" "j_maxOutput (js_heap (jr_store r) ! a) = MaxJobOutputBytes"
    using assms(1) by (auto simp: job_run_ok_def job_entries_ok_def)
  then show ?thesis by (simp add: job_fits_def output_limit_def split: if_splits)
qed

lemma held_output:
  assumes "job_run_ok r"
  shows "out_bytes (jr_store r) (js_jobs (jr_store r)) \<le> MaxRetainedBytes + MaxConcurrentJobs * MaxJobOutputBytes"
    and "int (length (js_jobs (jr_store r))) \<le> MaxRetainedJobs + MaxConcurrentJobs"
proof -
  note o = job_run_okD [OF assms]
  let ?f = "\<lambda>(_, a). int (length (j_out (js_heap (jr_store r) ! a)))"
  let ?live = "filter (\<lambda>x. \<not> (\<lambda>(_, a). jr_phase r ! a = Gone) x) (js_jobs (jr_store r))"
  have l: "?live = filter (\<lambda>(_, a). jr_phase r ! a \<noteq> Gone) (js_jobs (jr_store r))"
    by (rule filter_cong) auto
  have n: "int (length ?live) \<le> MaxConcurrentJobs" using live_entries [OF assms] unfolding l .
  have "sum_list (map ?f ?live) \<le> int (length ?live) * MaxJobOutputBytes"
    by (rule sum_bounded_list) (auto dest: job_output_bound [OF assms])
  also have "\<dots> \<le> MaxConcurrentJobs * MaxJobOutputBytes"
    using n by (rule mult_right_mono) (simp add: MaxJobOutputBytes_def)
  finally show "out_bytes (jr_store r) (js_jobs (jr_store r)) \<le> MaxRetainedBytes + MaxConcurrentJobs * MaxJobOutputBytes"
    using o(6) sum_list_split [of ?f "js_jobs (jr_store r)" "\<lambda>(_, a). jr_phase r ! a = Gone"]
    unfolding out_bytes_def gone_jobs_def by linarith
  have "length (js_jobs (jr_store r)) = length (gone_jobs r) + length ?live"
    unfolding gone_jobs_def using sum_length_filter_compl [of "\<lambda>(_, a). jr_phase r ! a = Gone" "js_jobs (jr_store r)"] by simp
  then show "int (length (js_jobs (jr_store r))) \<le> MaxRetainedJobs + MaxConcurrentJobs"
    using o(5) n by linarith
qed

lemma running_is_kept:
  assumes "job_run_ok r" "a < length (jr_phase r)" "jr_phase r ! a = Executing"
  shows "map_of (js_jobs (jr_store r)) (j_id (js_heap (jr_store r) ! a)) = Some a"
  using assms by (auto simp: job_run_ok_def job_entries_ok_def)

subsection \<open>Polling\<close>

text \<open>A poll from offset \<open>n\<close> gets what is past it; polling from total to total gets the output once.\<close>

lemma snapshot_from:
  "snapshot (int n) j = (drop n (j_out j), int (length (j_out j)), j_done j, j_code j)"
  by (cases "n \<le> length (j_out j)") (simp_all add: snapshot_def Let_def)

datatype job_event = Printed "byte list" | Polled

fun poller :: "job_event list \<Rightarrow> job \<Rightarrow> byte list \<Rightarrow> job \<times> byte list" where
  "poller [] j got = (j, got)"
| "poller (Printed p # es) j got = poller es (Write_job p j) got"
| "poller (Polled # es) j got = poller es j (got @ fst (snapshot (int (length got)) j))"

fun printed :: "job_event list \<Rightarrow> byte list" where
  "printed [] = []"
| "printed (Printed p # es) = p @ printed es"
| "printed (Polled # es) = printed es"

lemma poller_collects:
  assumes "int (length (j_out j) + length (printed es)) \<le> output_limit j" "prefix got (j_out j)"
  shows "j_out (fst (poller es j got)) = j_out j @ printed es \<and> prefix (snd (poller es j got)) (j_out j @ printed es)"
  using assms
proof (induction es j got rule: poller.induct)
  case (2 p es j got)
  have "j_out (Write_job p j) = j_out j @ p" using 2(2) by (intro Write_job_fits) simp
  then show ?case using 2 by simp
next
  case (3 es j got)
  then show ?case by (auto simp: snapshot_from prefix_def)
qed simp

text \<open>
  The comment of \<open>jobWriter\<close> promises polls a consistent prefix. The truncation notice
  breaks that: it is written over output that may have been polled, and a poll from the
  total then never sees it.
\<close>

lemma truncation_is_not_polled:
  assumes "job_fits j" "int (length (j_out j)) = output_limit j" "p \<noteq> []"
    and "length jobOutputTruncated \<le> length (j_out j)"
  shows "fst (snapshot (int (length (j_out j))) (Write_job p j)) = []
    \<and> j_out (Write_job p j) = take (length (j_out j) - length jobOutputTruncated) (j_out j) @ jobOutputTruncated"
proof -
  have f: "output_limit j < int (length (j_out j) + length p)" using assms(2,3) by (cases p) auto
  have n: "nat (output_limit j) = length (j_out j)" using assms(2) by simp
  have w: "j_out (Write_job p j) = take (length (j_out j) - length jobOutputTruncated) (j_out j) @ jobOutputTruncated"
    using Write_job_full [OF assms(1) f] assms(2,4) by (simp add: n Let_def)
  then have "length (j_out (Write_job p j)) = length (j_out j)" using assms(4) by simp
  then show ?thesis using w by (simp add: snapshot_from)
qed

lemma exec_poll_answers:
  assumes "job_run_ok r"
  shows "\<exists>alarm reply s. exec_poll t1 t2 jid fp offset (jr_store r) = Some (alarm, reply, s)
    \<and> (reply = UnknownJob jid \<or> (\<exists>a total. (jid, a) \<in> set (js_jobs (jr_store r)) \<and> j_owner (js_heap (jr_store r) ! a) = fp
          \<and> reply = JobStatus (drop (nat offset) (j_out (js_heap (jr_store r) ! a))) total
                      (\<not> j_done (js_heap (jr_store r) ! a)) (j_code (js_heap (jr_store r) ! a))))
    \<and> (\<forall>a < length (jr_phase r). jr_phase r ! a = Executing \<and> j_id (js_heap (jr_store r) ! a) = jid
          \<and> j_owner (js_heap (jr_store r) ! a) = fp \<longrightarrow> reply \<noteq> UnknownJob jid)"
proof -
  note o = job_run_okD [OF assms]
  obtain keep where k: "job_gcLocked t1 (jr_store r) = Some (jr_store r\<lparr>js_jobs := filter keep (js_jobs (jr_store r))\<rparr>)"
    by (rule gc_effect [OF o(1,2), of t1]) blast
  let ?s = "jr_store r\<lparr>js_jobs := filter keep (js_jobs (jr_store r))\<rparr>"
  have ok: "job_run_ok (r\<lparr>jr_store := ?s\<rparr>)" using gc_ok [OF o(1-4), of t1] k by auto
  have g: "get_job t1 jid (jr_store r) = Some (map_of (js_jobs ?s) jid, ?s)" by (simp add: get_job_def k)
  have running: "map_of (js_jobs ?s) (j_id (js_heap (jr_store r) ! a)) = Some a"
    if "a < length (jr_phase r)" "jr_phase r ! a = Executing" for a
    using running_is_kept [OF ok] that by simp
  obtain ans s2 where g2: "get_job t2 jid ?s = Some (ans, s2)"
    using gc_ok [OF job_run_okD(1-4) [OF ok], of t2] by (auto simp: get_job_def)
  show ?thesis
  proof (cases "map_of (js_jobs ?s) jid")
    case None
    have "exec_poll t1 t2 jid fp offset (jr_store r) = Some (ans \<noteq> None, UnknownJob jid, s2)"
      using g g2 None by (simp add: exec_poll_def getFor_def)
    moreover have "\<not> (a < length (jr_phase r) \<and> jr_phase r ! a = Executing \<and> j_id (js_heap (jr_store r) ! a) = jid)" for a
      using running [of a] None by auto
    ultimately show ?thesis by blast
  next
    case (Some a)
    then have mem: "(jid, a) \<in> set (js_jobs (jr_store r))" by (auto dest: map_of_SomeD)
    show ?thesis
    proof (cases "j_owner (js_heap (jr_store r) ! a) = fp")
      case False
      have "exec_poll t1 t2 jid fp offset (jr_store r) = Some (ans \<noteq> None, UnknownJob jid, s2)"
        using g g2 Some False by (simp add: exec_poll_def getFor_def)
      moreover have "b = a" if "b < length (jr_phase r)" "jr_phase r ! b = Executing" "j_id (js_heap (jr_store r) ! b) = jid" for b
        using running [OF that(1,2)] Some that(3) by simp
      ultimately show ?thesis using False by blast
    next
      case True
      have d: "fst (snapshot offset j) = drop (nat offset) (j_out j)" for j
        by (auto simp: snapshot_def Let_def)
      obtain new total fin code where sn: "snapshot offset (js_heap (jr_store r) ! a) = (new, total, fin, code)"
        by (metis prod_cases4)
      have "new = drop (nat offset) (j_out (js_heap (jr_store r) ! a))" "fin = j_done (js_heap (jr_store r) ! a)"
        "code = j_code (js_heap (jr_store r) ! a)"
        using d [of "js_heap (jr_store r) ! a"] sn by (auto simp: snapshot_def Let_def)
      moreover have "exec_poll t1 t2 jid fp offset (jr_store r) = Some (False, JobStatus new total (\<not> fin) code, ?s)"
        using g Some True sn by (simp add: exec_poll_def getFor_def)
      ultimately show ?thesis using mem True by blast
    qed
  qed
qed

section \<open>Properties of background jobs\<close>

text \<open>
  C37. Background jobs cannot exhaust the device: in every interleaving of starts,
  output, ends and polls at most 4 run, the store keeps at most 68 jobs and 96 MiB of
  their output, no job more than 8 MiB, a job that runs is never evicted, and the
  collector never fails.
\<close>

theorem jobs_are_bounded:
  assumes "rtranclp job_step start_jobs r"
  shows "runningCount (jr_store r) \<le> 4 \<and> int (length (js_jobs (jr_store r))) \<le> 68
    \<and> out_bytes (jr_store r) (js_jobs (jr_store r)) \<le> 96 * 2 ^ 20
    \<and> (\<forall>(jid, a) \<in> set (js_jobs (jr_store r)). int (length (j_out (js_heap (jr_store r) ! a))) \<le> 8 * 2 ^ 20)
    \<and> (\<forall>a < length (jr_phase r). jr_phase r ! a = Executing \<longrightarrow>
          map_of (js_jobs (jr_store r)) (j_id (js_heap (jr_store r) ! a)) = Some a)
    \<and> job_gcLocked now (jr_store r) \<noteq> None"
proof -
  have ok: "job_run_ok r" using job_runs.inv_run [OF assms] by simp
  note c = MaxConcurrentJobs_def MaxRetainedJobs_def MaxRetainedBytes_def MaxJobOutputBytes_def
  have "job_gcLocked now (jr_store r) \<noteq> None" using gc_ok [OF job_run_okD(1-4) [OF ok], of now] by auto
  then show ?thesis
    using job_run_okD(4) [OF ok] held_output [OF ok] job_output_bound [OF ok] running_is_kept [OF ok]
    by (auto simp: runningCount_def c)
qed

definition jd_job :: job where
  "jd_job = \<lparr>j_id = ''j1'', j_cmd = ''ls'', j_started = 1, j_owner = ''ann'', j_out = [], j_done = False, j_code = 0,
     j_finished = 0, j_maxOutput = MaxJobOutputBytes\<rparr>"

definition jd_run1 :: job_run where
  "jd_run1 = \<lparr>jr_store = newJobStore\<lparr>js_heap := [jd_job], js_jobs := [(''j1'', 0)], js_running := 1\<rparr>, jr_phase = [Executing]\<rparr>"

definition jd_run2 :: job_run where
  "jd_run2 = jd_run1\<lparr>jr_store := at_job 0 (Write_job [7, 8]) (jr_store jd_run1)\<rparr>"

lemma jd_started: "start_job 1 2 ''j1'' ''ann'' ''ls'' (jr_store start_jobs) = Some (Some 0, jr_store jd_run1)"
  by (simp add: start_job_def jd_run1_def start_jobs_def newJobStore_def newJobStoreWithLimits_def job_gcLocked_def
      retained_jobs_def evict_loop.simps defaultJobLimits_def go_defs jd_job_def)

lemma jd_reached: "rtranclp job_step start_jobs jd_run2"
proof -
  have "job_step start_jobs \<lparr>jr_store = jr_store jd_run1, jr_phase = (case Some (0::nat) of None \<Rightarrow> jr_phase start_jobs
      | Some _ \<Rightarrow> jr_phase start_jobs @ [Executing])\<rparr>"
    by (rule job_step.started [OF jd_started]) (simp add: start_jobs_def newJobStore_def newJobStoreWithLimits_def)
  then have "job_step start_jobs jd_run1" by (simp add: jd_run1_def start_jobs_def)
  moreover have "job_step jd_run1 jd_run2"
    unfolding jd_run2_def by (rule job_step.wrote) (simp_all add: jd_run1_def)
  ultimately show ?thesis by auto
qed

lemma jd_state:
  "jr_phase jd_run2 = [Executing]" "js_jobs (jr_store jd_run2) = [(''j1'', 0)]" "js_running (jr_store jd_run2) = 1"
  "j_out (js_heap (jr_store jd_run2) ! 0) = [7, 8]" "j_owner (js_heap (jr_store jd_run2) ! 0) = ''ann''"
  "j_id (js_heap (jr_store jd_run2) ! 0) = ''j1''" "j_done (js_heap (jr_store jd_run2) ! 0) = False"
  by (simp_all add: jd_run2_def jd_run1_def at_job_def Write_job_def Let_def jd_job_def output_limit_def go_defs)

theorem jobs_are_bounded_witness:
  "runningCount (jr_store jd_run2) = 1 \<and> out_bytes (jr_store jd_run2) (js_jobs (jr_store jd_run2)) = 2
   \<and> map_of (js_jobs (jr_store jd_run2)) ''j1'' = Some 0 \<and> job_gcLocked 5 (jr_store jd_run2) \<noteq> None"
  using jobs_are_bounded [OF jd_reached, of 5] jd_state by (simp add: runningCount_def out_bytes_def)

text \<open>
  The output of a job is for the controller that started it: a poll always gets an
  answer, it is the output past the offset with the state of the job only if the job is
  the caller's, and otherwise exactly the answer for a job that does not exist; the owner
  of a running job is never told that.
\<close>

theorem job_output_is_private:
  assumes "rtranclp job_step start_jobs r"
  shows "\<exists>alarm reply s. exec_poll t1 t2 jid fp offset (jr_store r) = Some (alarm, reply, s)
    \<and> (reply = UnknownJob jid \<or> (\<exists>a total. (jid, a) \<in> set (js_jobs (jr_store r)) \<and> j_owner (js_heap (jr_store r) ! a) = fp
          \<and> reply = JobStatus (drop (nat offset) (j_out (js_heap (jr_store r) ! a))) total
                      (\<not> j_done (js_heap (jr_store r) ! a)) (j_code (js_heap (jr_store r) ! a))))
    \<and> (\<forall>a < length (jr_phase r). jr_phase r ! a = Executing \<and> j_id (js_heap (jr_store r) ! a) = jid
          \<and> j_owner (js_heap (jr_store r) ! a) = fp \<longrightarrow> reply \<noteq> UnknownJob jid)"
  by (rule exec_poll_answers [OF job_runs.inv_run [OF assms refl]])

theorem job_output_is_private_witness:
  "(\<exists>alarm s. exec_poll 5 6 ''j1'' ''eve'' 1 (jr_store jd_run2) = Some (alarm, UnknownJob ''j1'', s))
   \<and> (\<exists>alarm s total code. exec_poll 5 6 ''j1'' ''ann'' 1 (jr_store jd_run2) = Some (alarm, JobStatus [8] total True code, s))"
proof
  show "\<exists>alarm s. exec_poll 5 6 ''j1'' ''eve'' 1 (jr_store jd_run2) = Some (alarm, UnknownJob ''j1'', s)"
    using job_output_is_private [OF jd_reached, of 5 6 "''j1''" "''eve''" 1] jd_state by auto
  show "\<exists>alarm s total code. exec_poll 5 6 ''j1'' ''ann'' 1 (jr_store jd_run2) = Some (alarm, JobStatus [8] total True code, s)"
    using job_output_is_private [OF jd_reached, of 5 6 "''j1''" "''ann''" 1] jd_state by auto
qed

end
