(* ===== verification/FileEdit.thy ===== *)
theory FileEdit
  imports GoUnicode
begin

text \<open>
  \<open>src/internal/server/fileops.go\<close>: replacing text in a file on the device and writing a
  whole text file. Opening the file and putting the new one in its place are I/O: what
  \<open>openPolicyFile\<close>, \<open>Stat\<close> and the read answered, and how the upload ended, are arguments.
  A handler answers its reply and, if the file was replaced, what it now holds.
\<close>

subsection \<open>strings.Index, Count and Replace\<close>

text \<open>Callers never search for the empty string; for it \<open>Count\<close> and \<open>Replace\<close> are left at what they start with.\<close>

fun Index :: "string \<Rightarrow> string \<Rightarrow> nat option" where
  "Index [] sub = (if HasPrefix [] sub then Some 0 else None)"
| "Index (c # s) sub = (if HasPrefix (c # s) sub then Some 0 else map_option Suc (Index s sub))"

function Count :: "string \<Rightarrow> string \<Rightarrow> nat" where
  "Count s sub = (if sub = [] then 0 else case Index s sub of None \<Rightarrow> 0 | Some i \<Rightarrow> Suc (Count (drop (i + length sub) s) sub))"
  by pat_completeness auto

lemma Index_split:
  "Index s sub = Some i \<Longrightarrow> s = take i s @ sub @ drop (i + length sub) s \<and> i + length sub \<le> length s"
proof (induction s arbitrary: i)
  case Nil
  then show ?case by (auto simp: HasPrefix_def split: if_splits)
next
  case (Cons c s)
  show ?case
  proof (cases "HasPrefix (c # s) sub")
    case True
    then have "i = 0" "take (length sub) (c # s) = sub" using Cons.prems by (simp_all add: HasPrefix_def)
    then show ?thesis by (metis append_take_drop_id append_self_conv2 add_0 take_0 nat_le_linear take_all_iff order_refl)
  next
    case False
    then obtain j where j: "Index s sub = Some j" "i = Suc j" using Cons.prems by auto
    then show ?thesis using Cons.IH by simp
  qed
qed

termination Count
  by (relation "measure (length \<circ> fst)") (auto dest!: Index_split simp flip: length_greater_0_conv)

declare Count.simps [simp del]

function Replace :: "string \<Rightarrow> string \<Rightarrow> string \<Rightarrow> nat \<Rightarrow> string" where
  "Replace s sub new n =
     (if n = 0 \<or> sub = [] then s
      else case Index s sub of None \<Rightarrow> s | Some i \<Rightarrow> take i s @ new @ Replace (drop (i + length sub) s) sub new (n - 1))"
  by pat_completeness auto

termination by (relation "measure (\<lambda>(_, _, _, n). n)") auto

declare Replace.simps [simp del]

subsection \<open>Text files\<close>

definition sniffLen :: nat where "sniffLen = 8 * 2 ^ 10"
definition MaxEditBytes :: int where "MaxEditBytes = 8 * 2 ^ 20"
definition MaxBatchEdits :: nat where "MaxBatchEdits = 64"

fun cut_back :: "nat \<Rightarrow> byte list \<Rightarrow> byte list" where
  "cut_back 0 b = b"
| "cut_back (Suc n) b = (if b = [] \<or> utf8_Valid b then b else cut_back n (butlast b))"

definition trimCutRune :: "byte list \<Rightarrow> byte list" where
  "trimCutRune b = cut_back 3 b"

definition isText :: "byte list \<Rightarrow> int \<Rightarrow> bool" where
  "isText sniff fileSize \<longleftrightarrow>
     (if 0 \<in> set sniff then False
      else utf8_Valid (if int (length sniff) < fileSize then cut_back 3 sniff else sniff))"

definition sha256Hex :: "string \<Rightarrow> string" where
  "sha256Hex b = hex_EncodeToString (sha256_Sum256 (bytes b))"

subsection \<open>A batch of edits\<close>

record file_edit =
  fe_old :: string
  fe_new :: string

record span =
  sp_index :: nat
  sp_from :: nat
  sp_to :: nat
  sp_replace :: string

datatype edit_error = EmptyOld nat | OldNotFound nat | OldAmbiguous nat nat | EditsOverlap nat nat | EditsTooBig int

fun find_spans :: "string \<Rightarrow> nat \<Rightarrow> file_edit list \<Rightarrow> edit_error + span list" where
  "find_spans text i [] = Inr []"
| "find_spans text i (e # es) =
     (if fe_old e = [] then Inl (EmptyOld i)
      else if Count text (fe_old e) = 0 then Inl (OldNotFound i)
      else if Count text (fe_old e) \<noteq> 1 then Inl (OldAmbiguous i (Count text (fe_old e)))
      else (let at = the (Index text (fe_old e)) in
            case find_spans text (Suc i) es of
              Inl err \<Rightarrow> Inl err
            | Inr spans \<Rightarrow> Inr (\<lparr>sp_index = i, sp_from = at, sp_to = at + length (fe_old e), sp_replace = fe_new e\<rparr> # spans)))"

fun find_overlap :: "span list \<Rightarrow> (nat \<times> nat) option" where
  "find_overlap (p # q # rest) =
     (if sp_from q < sp_to p then Some (max (sp_index p) (sp_index q), min (sp_index p) (sp_index q))
      else find_overlap (q # rest))"
| "find_overlap _ = None"

fun splice :: "string \<Rightarrow> nat \<Rightarrow> span list \<Rightarrow> string" where
  "splice text at [] = drop at text"
| "splice text at (s # rest) = take (sp_from s - at) (drop at text) @ sp_replace s @ splice text (sp_to s) rest"

definition applyEdits :: "string \<Rightarrow> file_edit list \<Rightarrow> int \<Rightarrow> edit_error + string" where
  "applyEdits text edits maxSize =
     (case find_spans text 0 edits of
        Inl err \<Rightarrow> Inl err
      | Inr spans \<Rightarrow>
         (let ordered = sort_key sp_from spans in
          case find_overlap ordered of
            Some (b, a) \<Rightarrow> Inl (EditsOverlap b a)
          | None \<Rightarrow>
             (let projected = foldl (\<lambda>n s. n + (int (length (sp_replace s)) - int (sp_to s - sp_from s))) (int (length text)) spans
              in if projected > maxSize then Inl (EditsTooBig projected) else Inr (splice text 0 ordered))))"

subsection \<open>The handlers\<close>

record file_result =
  fr_content :: string
  fr_totalLines :: int
  fr_firstLine :: int
  fr_lastLine :: int
  fr_truncated :: bool
  fr_longLine :: int
  fr_replaced :: nat
  fr_occurrences :: nat
  fr_created :: bool
  fr_size :: int
  fr_sha :: string

definition no_result :: file_result where
  "no_result = \<lparr>fr_content = [], fr_totalLines = 0, fr_firstLine = 0, fr_lastLine = 0, fr_truncated = False, fr_longLine = 0,
     fr_replaced = 0, fr_occurrences = 0, fr_created = False, fr_size = 0, fr_sha = []\<rparr>"

datatype file_reason =
    BothForms | TooManyEdits nat | AllWithBatch | NothingToFind | FileIO string | OverLimit | NotText
  | ChangedSinceRead string | BatchRefused edit_error | NotFound | Ambiguous nat | WouldGrow int | ContentTooLong nat

datatype file_reply = FileError file_reason "file_result option" | FileDone file_result

record edit_request =
  er_old :: string
  er_new :: string
  er_edits :: "file_edit list"
  er_all :: bool
  er_expected :: string

datatype upload = UploadFailed string | UploadCommitted

definition commitEdit :: "upload \<Rightarrow> string \<Rightarrow> nat \<Rightarrow> nat \<Rightarrow> file_reply \<times> string option" where
  "commitEdit up updated replaced occurrences =
     (case up of
        UploadFailed why \<Rightarrow> (FileError (FileIO why) None, None)
      | UploadCommitted \<Rightarrow>
          (FileDone (no_result\<lparr>fr_replaced := replaced, fr_occurrences := occurrences, fr_size := int (length updated),
             fr_sha := sha256Hex updated\<rparr>), Some updated))"

definition handleFileEdit ::
  "string + string \<Rightarrow> upload \<Rightarrow> edit_request \<Rightarrow> int \<Rightarrow> file_reply \<times> string option" where
  "handleFileEdit opened up m maxSize =
     (if er_edits m \<noteq> [] \<and> (er_old m \<noteq> [] \<or> er_new m \<noteq> []) then (FileError BothForms None, None)
      else if length (er_edits m) > MaxBatchEdits then (FileError (TooManyEdits (length (er_edits m))) None, None)
      else if er_edits m \<noteq> [] \<and> er_all m then (FileError AllWithBatch None, None)
      else if er_edits m = [] \<and> er_old m = [] then (FileError NothingToFind None, None)
      else case opened of
        Inl why \<Rightarrow> (FileError (FileIO why) None, None)
      | Inr content \<Rightarrow>
         (let original = take (nat (maxSize + 1)) content;
              current = sha256Hex original;
              seen = no_result\<lparr>fr_sha := current, fr_size := int (length original)\<rparr> in
          if int (length original) > maxSize then (FileError OverLimit None, None)
          else if \<not> isText (bytes (take sniffLen original)) (int (length original)) then (FileError NotText None, None)
          else if er_expected m \<noteq> [] \<and> \<not> EqualFold (er_expected m) current
            then (FileError (ChangedSinceRead current) (Some seen), None)
          else if er_edits m \<noteq> [] then
            (case applyEdits original (er_edits m) maxSize of
               Inl err \<Rightarrow> (FileError (BatchRefused err) (Some seen), None)
             | Inr updated \<Rightarrow> commitEdit up updated (length (er_edits m)) (length (er_edits m)))
          else
            (let count = Count original (er_old m) in
             if count = 0 then (FileError NotFound (Some seen), None)
             else if count > 1 \<and> \<not> er_all m then (FileError (Ambiguous count) (Some (seen\<lparr>fr_occurrences := count\<rparr>)), None)
             else
               (let replaced = (if er_all m then count else 1);
                    projected = int (length original) + int replaced * (int (length (er_new m)) - int (length (er_old m)))
                in if projected > maxSize
                   then (FileError (WouldGrow projected) (Some (seen\<lparr>fr_occurrences := count\<rparr>)), None)
                   else commitEdit up (Replace original (er_old m) (er_new m) replaced) replaced count))))"

text \<open>
  \<open>handleFileWrite\<close>: what is there is a file with its mode, nothing, or an error that is
  not absence (a failed \<open>Stat\<close> counts as nothing). Also the mode the new file gets.
\<close>

datatype existing = FileThere nat | NoFile | OpenFailed string

definition handleFileWrite :: "existing \<Rightarrow> upload \<Rightarrow> string \<Rightarrow> int \<Rightarrow> file_reply \<times> (string \<times> nat) option" where
  "handleFileWrite there up content maxSize =
     (if int (length content) > maxSize then (FileError (ContentTooLong (length content)) None, None)
      else if \<not> utf8_Valid (bytes content) \<or> CHR 0x00 \<in> set content then (FileError NotText None, None)
      else case there of
        OpenFailed why \<Rightarrow> (FileError (FileIO why) None, None)
      | _ \<Rightarrow>
         (let (perm, created) = (case there of FileThere p \<Rightarrow> (p, False) | _ \<Rightarrow> (0x1A4, True)) in
          case up of
            UploadFailed why \<Rightarrow> (FileError (FileIO why) None, None)
          | UploadCommitted \<Rightarrow>
              (FileDone (no_result\<lparr>fr_created := created, fr_size := int (length content), fr_sha := sha256Hex content\<rparr>),
               Some (content, perm))))"

end
