(* ===== verification/EditProps.thy ===== *)
theory EditProps
  imports FileEdit Bags
begin

text \<open>
  What editing guarantees. A batch either does nothing or replaces every one of its
  texts at the place it has in the file as it was read, whatever the order of the
  entries. A single edit replaces the one occurrence, or with \<open>all\<close> every occurrence
  there is, and an edit is only ever applied to the file the caller has seen.
\<close>

subsection \<open>Counting and replacing\<close>

lemma Index_None: "sub \<noteq> [] \<Longrightarrow> Index s sub = None \<longleftrightarrow> \<not> Contains s sub"
  by (induction s) (auto simp: HasPrefix_def)

lemma Count_zero: "sub \<noteq> [] \<Longrightarrow> Count s sub = 0 \<longleftrightarrow> Index s sub = None"
  by (subst Count.simps) (auto split: option.split)

lemma Count_Suc:
  assumes "Count s sub = Suc n"
  obtains i where "Index s sub = Some i" "Count (drop (i + length sub) s) sub = n" "sub \<noteq> []"
  using assms by (subst (asm) Count.simps) (auto split: option.splits if_splits)

text \<open>Weaving the parts of a text that stay with the ones that are replaced.\<close>

fun weave :: "string list \<Rightarrow> string list \<Rightarrow> string" where
  "weave [] xs = []"
| "weave (g # gs) [] = g"
| "weave (g # gs) (x # xs) = g @ x @ weave gs xs"

lemma Replace_weave:
  assumes "Count s sub = n"
  shows "\<exists>gaps. length gaps = Suc n \<and> s = weave gaps (replicate n sub) \<and> Replace s sub new n = weave gaps (replicate n new)
    \<and> (sub \<noteq> [] \<longrightarrow> (\<forall>g \<in> set [last gaps]. Index g sub = None))"
  using assms
proof (induction n arbitrary: s)
  case 0
  then have "sub \<noteq> [] \<longrightarrow> Index s sub = None" using Count_zero by blast
  then show ?case by (intro exI [of _ "[s]"]) (simp add: Replace.simps)
next
  case (Suc n)
  from Suc.prems obtain i where i: "Index s sub = Some i" "Count (drop (i + length sub) s) sub = n" "sub \<noteq> []"
    by (rule Count_Suc)
  obtain gaps where g: "length gaps = Suc n" "drop (i + length sub) s = weave gaps (replicate n sub)"
    "Replace (drop (i + length sub) s) sub new n = weave gaps (replicate n new)"
    "\<forall>g \<in> set [last gaps]. Index g sub = None"
    using Suc.IH [OF i(2)] i(3) by blast
  have "s = take i s @ sub @ drop (i + length sub) s" using Index_split [OF i(1)] by blast
  then have "s = weave (take i s # gaps) (replicate (Suc n) sub)" using g(2) by simp
  moreover have "Replace s sub new (Suc n) = weave (take i s # gaps) (replicate (Suc n) new)"
    using i g(3) by (subst Replace.simps) simp
  ultimately show ?case using g(1,4) by (intro exI [of _ "take i s # gaps"]) auto
qed

lemma length_weave:
  "length gs = Suc (length xs) \<Longrightarrow> length (weave gs xs) = sum_list (map length gs) + sum_list (map length xs)"
  by (induction gs xs rule: weave.induct) auto

lemma weave_unique_new: "length gs = Suc n \<Longrightarrow> int (length (weave gs (replicate n new)))
    = int (length (weave gs (replicate n old))) + int n * (int (length new) - int (length old))"
  by (simp add: length_weave sum_list_replicate algebra_simps)

subsection \<open>A batch of edits\<close>

definition span_of :: "string \<Rightarrow> nat \<times> file_edit \<Rightarrow> span" where
  "span_of body ie = (let at = the (Index body (fe_old (snd ie))) in
     \<lparr>sp_index = fst ie, sp_from = at, sp_to = at + length (fe_old (snd ie)), sp_replace = fe_new (snd ie)\<rparr>)"

definition found_once :: "string \<Rightarrow> file_edit \<Rightarrow> bool" where
  "found_once body e \<longleftrightarrow> fe_old e \<noteq> [] \<and> Count body (fe_old e) = 1"

lemma find_spans_Inr:
  "find_spans body i es = Inr spans \<longleftrightarrow> spans = map (span_of body) (enumerate i es) \<and> (\<forall>e \<in> set es. found_once body e)"
proof (induction es arbitrary: i spans)
  case (Cons e es)
  show ?case
  proof (cases "found_once body e")
    case True
    then have f: "find_spans body i (e # es) = (case find_spans body (Suc i) es of Inl err \<Rightarrow> Inl err
        | Inr spans \<Rightarrow> Inr (span_of body (i, e) # spans))"
      by (simp add: found_once_def span_of_def Let_def split: sum.split)
    show ?thesis
    proof (cases "find_spans body (Suc i) es")
      case (Inl err)
      then have "\<not> (\<forall>e \<in> set es. found_once body e)" using Cons.IH [of "Suc i" "map (span_of body) (enumerate (Suc i) es)"] by auto
      then show ?thesis using f Inl by auto
    next
      case (Inr ss)
      then show ?thesis using f Cons.IH [of "Suc i" ss] True by auto
    qed
  qed (auto simp: found_once_def)
qed auto

lemma found_once_split:
  assumes "found_once body e"
  shows "body = take (sp_from (span_of body (i, e))) body @ fe_old e @ drop (sp_to (span_of body (i, e))) body"
    and "sp_from (span_of body (i, e)) < sp_to (span_of body (i, e))" "sp_to (span_of body (i, e)) \<le> length body"
proof -
  obtain j where "Index body (fe_old e) = Some j"
    using assms Count_Suc [of body "fe_old e" 0] unfolding found_once_def by (metis One_nat_def)
  then show "body = take (sp_from (span_of body (i, e))) body @ fe_old e @ drop (sp_to (span_of body (i, e))) body"
    and "sp_from (span_of body (i, e)) < sp_to (span_of body (i, e))" "sp_to (span_of body (i, e)) \<le> length body"
    using Index_split [of body "fe_old e" j] assms by (auto simp: span_of_def Let_def found_once_def)
qed

text \<open>What a span does, its place among the entries left aside.\<close>

definition core :: "span \<Rightarrow> nat \<times> nat \<times> string" where
  "core s = (sp_from s, sp_to s, sp_replace s)"

lemma find_overlap_None:
  "find_overlap ss = None \<longleftrightarrow> successively (\<lambda>p q. fst (snd p) \<le> fst q) (map core ss)"
  by (induction ss rule: find_overlap.induct) (auto simp: core_def)

fun splice_core :: "string \<Rightarrow> nat \<Rightarrow> (nat \<times> nat \<times> string) list \<Rightarrow> string" where
  "splice_core body at [] = drop at body"
| "splice_core body at ((f, t, r) # rest) = take (f - at) (drop at body) @ r @ splice_core body t rest"

lemma splice_core: "splice body at ss = splice_core body at (map core ss)"
  by (induction body at ss rule: splice.induct) (auto simp: core_def)

lemma distinct_starts:
  assumes "successively (\<lambda>p q. fst (snd p) \<le> fst q) cs" "\<forall>c \<in> set cs. fst c < fst (snd c)"
  shows "sorted_wrt (\<lambda>p q. fst (snd p) \<le> fst q) cs" "sorted (map fst cs)" "distinct (map fst cs)"
proof -
  have "successively (\<lambda>p q. fst (snd p) \<le> fst q \<and> fst p < fst (snd p)) cs"
    using assms by (induction cs rule: induct_list012) auto
  then have w: "sorted_wrt (\<lambda>p q. fst (snd p) \<le> fst q \<and> fst p < fst (snd p)) cs"
    by (subst successively_conv_sorted_wrt [symmetric]) (auto simp: transp_def)
  then show "sorted_wrt (\<lambda>p q. fst (snd p) \<le> fst q) cs"
    by (rule sorted_wrt_mono_rel [rotated]) auto
  show "sorted (map fst cs)" unfolding sorted_map
    by (rule sorted_wrt_mono_rel [OF _ w]) auto
  have "sorted_wrt (<) (map fst cs)" unfolding sorted_wrt_map
    by (rule sorted_wrt_mono_rel [OF _ w]) auto
  then show "distinct (map fst cs)" by (simp add: strict_sorted_iff)
qed

lemma batch_length:
  "length gaps = Suc (length xs) \<Longrightarrow> int (length (weave gaps (map f xs)))
     = int (length (weave gaps (map g xs))) + (\<Sum>x \<leftarrow> xs. int (length (f x)) - int (length (g x)))"
proof (induction xs arbitrary: gaps)
  case (Cons x xs)
  then show ?case by (cases gaps) auto
qed (auto simp: length_Suc_conv)

text \<open>Cutting a text at spans in order gives what stays, and splicing puts the new texts between.\<close>

fun gaps_of :: "string \<Rightarrow> nat \<Rightarrow> span list \<Rightarrow> string list" where
  "gaps_of body at [] = [drop at body]"
| "gaps_of body at (s # rest) = take (sp_from s - at) (drop at body) # gaps_of body (sp_to s) rest"

lemma length_gaps [simp]: "length (gaps_of body at ss) = Suc (length ss)"
  by (induction body at ss rule: gaps_of.induct) auto

lemma splice_gaps: "splice body at ss = weave (gaps_of body at ss) (map sp_replace ss)"
  by (induction body at ss rule: gaps_of.induct) auto

lemma cut_gaps:
  assumes "sorted_wrt (\<lambda>p q. sp_to p \<le> sp_from q) ss" "\<forall>s \<in> set ss. at \<le> sp_from s \<and> sp_from s \<le> sp_to s \<and> sp_to s \<le> length body"
  shows "drop at body = weave (gaps_of body at ss) (map (\<lambda>s. take (sp_to s - sp_from s) (drop (sp_from s) body)) ss)"
  using assms
proof (induction body at ss rule: gaps_of.induct)
  case (2 body at s rest)
  have "drop (sp_to s) body = weave (gaps_of body (sp_to s) rest) (map (\<lambda>s. take (sp_to s - sp_from s) (drop (sp_from s) body)) rest)"
    using 2 by auto
  moreover have "drop at body = take (sp_from s - at) (drop at body) @ drop (sp_from s) body"
    using 2(3) by (metis append_take_drop_id drop_drop le_add_diff_inverse2 list.set_intros(1))
  moreover have "drop (sp_from s) body = take (sp_to s - sp_from s) (drop (sp_from s) body) @ drop (sp_to s) body"
    using 2(3) by (metis append_take_drop_id drop_drop le_add_diff_inverse2 list.set_intros(1))
  ultimately show ?case by simp
qed simp

lemma mset_enumerate: "mset (map f (map snd (enumerate i es))) = mset (map f es)"
  by simp

text \<open>
  The result of a batch, and that it does not depend on the order of the entries: the
  spans of another order are the same up to the numbers of the entries, and spans that do
  not overlap have one order.
\<close>

lemma applyEdits_Inr:
  assumes "applyEdits body edits maxSize = Inr t"
  obtains ss where "ss = sort_key sp_from (map (span_of body) (enumerate 0 edits))" "\<forall>e \<in> set edits. found_once body e"
    "find_overlap ss = None" "t = splice body 0 ss"
    "int (length body) + (\<Sum>e \<leftarrow> edits. int (length (fe_new e)) - int (length (fe_old e))) \<le> maxSize"
proof -
  obtain spans where sp: "find_spans body 0 edits = Inr spans" using assms by (auto simp: applyEdits_def split: sum.splits)
  then have s: "spans = map (span_of body) (enumerate 0 edits)" "\<forall>e \<in> set edits. found_once body e"
    unfolding find_spans_Inr by blast+
  have f: "foldl (\<lambda>n s. n + (int (length (sp_replace s)) - int (sp_to s - sp_from s))) k (map (span_of body) (enumerate i es))
      = k + (\<Sum>e \<leftarrow> es. int (length (fe_new e)) - int (length (fe_old e)))" for k i es
    by (induction es arbitrary: k i) (auto simp: span_of_def Let_def)
  have "find_overlap (sort_key sp_from spans) = None"
    using assms sp by (auto simp: applyEdits_def Let_def split: option.splits)
  then show thesis
    using that [OF refl s(2)] assms sp f [of "int (length body)" 0 edits] s(1)
    by (auto simp: applyEdits_def Let_def split: if_splits)
qed

lemma cores_of_edits: "map core (map (span_of body) (enumerate i es)) =
    map (\<lambda>e. let at = the (Index body (fe_old e)) in (at, at + length (fe_old e), fe_new e)) es"
  by (induction es arbitrary: i) (auto simp: core_def span_of_def Let_def)

lemma span_bounds:
  assumes "\<forall>e \<in> set edits. found_once body e" "s \<in> set (map (span_of body) (enumerate i edits))"
  shows "sp_from s < sp_to s" "sp_to s \<le> length body"
  using assms found_once_split(2,3) [of body] by (auto simp: in_set_enumerate_eq)

lemma sorted_cores:
  assumes "\<forall>e \<in> set edits. found_once body e" "mset ss = mset (map (span_of body) (enumerate i edits))" "sorted (map sp_from ss)"
  shows "find_overlap ss = None \<longleftrightarrow> sorted_wrt (\<lambda>p q. sp_to p \<le> sp_from q) ss"
    and "find_overlap ss = None \<Longrightarrow> distinct (map fst (map core ss)) \<and> sorted (map fst (map core ss))"
proof -
  have b: "\<forall>c \<in> set (map core ss). fst c < fst (snd c)"
    using span_bounds(1) [OF assms(1)] mset_eq_setD [OF assms(2)] by (auto simp: core_def)
  show "find_overlap ss = None \<longleftrightarrow> sorted_wrt (\<lambda>p q. sp_to p \<le> sp_from q) ss"
  proof
    assume "find_overlap ss = None"
    then show "sorted_wrt (\<lambda>p q. sp_to p \<le> sp_from q) ss"
      using distinct_starts(1) [OF _ b] by (simp add: find_overlap_None sorted_wrt_map core_def)
  next
    assume "sorted_wrt (\<lambda>p q. sp_to p \<le> sp_from q) ss"
    then have "successively (\<lambda>p q. sp_to p \<le> sp_from q) ss" by (induction ss rule: induct_list012) auto
    then show "find_overlap ss = None" by (simp add: find_overlap_None successively_map core_def)
  qed
  show "find_overlap ss = None \<Longrightarrow> distinct (map fst (map core ss)) \<and> sorted (map fst (map core ss))"
    using distinct_starts(2,3) [OF _ b] by (simp add: find_overlap_None)
qed

lemma applyEdits_perm:
  assumes "applyEdits body edits maxSize = Inr t" "mset edits' = mset edits"
  shows "applyEdits body edits' maxSize = Inr t"
proof -
  obtain ss where ss: "ss = sort_key sp_from (map (span_of body) (enumerate 0 edits))" "\<forall>e \<in> set edits. found_once body e"
    "find_overlap ss = None" "t = splice body 0 ss"
    "int (length body) + (\<Sum>e \<leftarrow> edits. int (length (fe_new e)) - int (length (fe_old e))) \<le> maxSize"
    by (rule applyEdits_Inr [OF assms(1)])
  let ?ss = "sort_key sp_from (map (span_of body) (enumerate 0 edits'))"
  have f: "\<forall>e \<in> set edits'. found_once body e" using ss(2) mset_eq_setD [OF assms(2)] by simp
  have m: "mset (map core ?ss) = mset (map core ss)"
    unfolding ss(1) mset_map mset_sort
    unfolding mset_map [symmetric] cores_of_edits using assms(2) by simp
  have i: "mset ss = mset (map (span_of body) (enumerate 0 edits))" "sorted (map sp_from ss)"
    "mset ?ss = mset (map (span_of body) (enumerate 0 edits'))" "sorted (map sp_from ?ss)"
    by (simp_all add: ss(1))
  note d = sorted_cores(2) [OF ss(2) i(1,2) ss(3)]
  have "map core ?ss = map core ss"
  proof (rule map_sorted_distinct_set_unique [where f = fst])
    show e: "set (map core ?ss) = set (map core ss)" using mset_eq_setD [OF m] .
    have "inj_on fst (set (map core ss))" using d unfolding distinct_map [of fst] by blast
    then show "inj_on fst (set (map core ?ss) \<union> set (map core ss))" unfolding e by simp
    show "sorted (map fst (map core ?ss))" using i(4) by (simp add: core_def o_def)
    have "mset (map fst (map core ?ss)) = mset (map fst (map core ss))" using m by (metis mset_map)
    then show "distinct (map fst (map core ?ss))" using d mset_eq_imp_distinct_iff by blast
  qed (use d in auto)
  then have "find_overlap ?ss = None" "splice body 0 ?ss = t"
    using ss(3,4) unfolding find_overlap_None splice_core by simp_all
  moreover have "(\<Sum>e \<leftarrow> edits'. int (length (fe_new e)) - int (length (fe_old e)))
      = (\<Sum>e \<leftarrow> edits. int (length (fe_new e)) - int (length (fe_old e)))"
    by (rule mset_eq_sum [OF assms(2)])
  moreover have "foldl (\<lambda>n s. n + (int (length (sp_replace s)) - int (sp_to s - sp_from s))) k (map (span_of body) (enumerate i es))
      = k + (\<Sum>e \<leftarrow> es. int (length (fe_new e)) - int (length (fe_old e)))" for k i es
    by (induction es arbitrary: k i) (auto simp: span_of_def Let_def)
  moreover have "find_spans body 0 edits' = Inr (map (span_of body) (enumerate 0 edits'))"
    using f unfolding find_spans_Inr by blast
  ultimately show ?thesis using ss(5) by (simp add: applyEdits_def Let_def)
qed

text \<open>The result as a whole: the same parts stay, and every old text has its new one in its place.\<close>

lemma applyEdits_weave:
  assumes "applyEdits body edits maxSize = Inr t"
  shows "\<exists>gaps ordered. mset ordered = mset edits \<and> length gaps = Suc (length ordered)
    \<and> body = weave gaps (map fe_old ordered) \<and> t = weave gaps (map fe_new ordered)"
proof -
  obtain ss where ss: "ss = sort_key sp_from (map (span_of body) (enumerate 0 edits))" "\<forall>e \<in> set edits. found_once body e"
    "find_overlap ss = None" "t = splice body 0 ss"
    by (rule applyEdits_Inr [OF assms])
  have m: "mset ss = mset (map (span_of body) (enumerate 0 edits))" "sorted (map sp_from ss)"
    by (simp_all add: ss(1))
  let ?e = "\<lambda>s. edits ! sp_index s"
  have of_span: "?e s \<in> set edits \<and> s = span_of body (sp_index s, ?e s)" if "s \<in> set ss" for s
  proof -
    have "s \<in> span_of body ` set (enumerate 0 edits)" using that mset_eq_setD [OF m(1)] by simp
    then show ?thesis by (auto simp: in_set_enumerate_eq span_of_def Let_def)
  qed
  have "map ?e (map (span_of body) (enumerate 0 edits)) = edits"
    by (auto simp: list_eq_iff_nth_eq nth_enumerate_eq span_of_def Let_def)
  then have p: "mset (map ?e ss) = mset edits" using m(1) by (metis mset_map)
  have old: "take (sp_to s - sp_from s) (drop (sp_from s) body) = fe_old (?e s)"
    and new: "sp_replace s = fe_new (?e s)" if "s \<in> set ss" for s
  proof -
    have s: "?e s \<in> set edits" "s = span_of body (sp_index s, ?e s)" using of_span [OF that] by blast+
    note c = found_once_split [of body "?e s" "sp_index s", folded s(2)]
    have fo: "found_once body (?e s)" using s(1) ss(2) by blast
    have "sp_to s - sp_from s = length (fe_old (?e s))"
      by (subst (1 2) s(2)) (simp add: span_of_def Let_def)
    moreover have "drop (sp_from s) body = fe_old (?e s) @ drop (sp_to s) body"
      using c(1) [OF fo] c(2,3) [OF fo] by (metis append_eq_conv_conj length_take less_imp_le less_le_trans min.absorb2)
    ultimately show "take (sp_to s - sp_from s) (drop (sp_from s) body) = fe_old (?e s)" by simp
    show "sp_replace s = fe_new (?e s)" by (subst s(2)) (simp add: span_of_def Let_def)
  qed
  have w: "sorted_wrt (\<lambda>p q. sp_to p \<le> sp_from q) ss" using sorted_cores(1) [OF ss(2) m] ss(3) by blast
  have b: "\<forall>s \<in> set ss. 0 \<le> sp_from s \<and> sp_from s \<le> sp_to s \<and> sp_to s \<le> length body"
    using span_bounds [OF ss(2)] mset_eq_setD [OF m(1)] by (metis less_imp_le zero_le)
  have c: "map (\<lambda>s. take (sp_to s - sp_from s) (drop (sp_from s) body)) ss = map fe_old (map ?e ss)"
    unfolding map_map o_def by (rule map_cong [OF refl old])
  have "body = weave (gaps_of body 0 ss) (map fe_old (map ?e ss))"
    using cut_gaps [OF w b] unfolding c by (simp only: drop_0)
  moreover have r: "map sp_replace ss = map fe_new (map ?e ss)"
    unfolding map_map o_def by (rule map_cong [OF refl new])
  have "t = weave (gaps_of body 0 ss) (map fe_new (map ?e ss))"
    unfolding ss(4) splice_gaps r ..
  ultimately show ?thesis using p by (metis length_gaps length_map)
qed

lemma applyEdits_length:
  assumes "applyEdits body edits maxSize = Inr t"
  shows "int (length t) \<le> maxSize"
proof -
  obtain gaps ordered where w: "mset ordered = mset edits" "length gaps = Suc (length ordered)"
    "body = weave gaps (map fe_old ordered)" "t = weave gaps (map fe_new ordered)"
    using applyEdits_weave [OF assms] by blast
  have "(\<Sum>e \<leftarrow> ordered. int (length (fe_new e)) - int (length (fe_old e)))
      = (\<Sum>e \<leftarrow> edits. int (length (fe_new e)) - int (length (fe_old e)))"
    by (rule mset_eq_sum [OF w(1)])
  moreover have "int (length body) + (\<Sum>e \<leftarrow> edits. int (length (fe_new e)) - int (length (fe_old e))) \<le> maxSize"
    by (rule applyEdits_Inr [OF assms])
  ultimately show ?thesis using batch_length [OF w(2), of fe_new fe_old] w(3,4) by simp
qed

subsection \<open>The edit handler\<close>

lemma Replace_length:
  assumes "Count s sub \<noteq> 0"
  shows "int (length (Replace s sub new (Count s sub)))
    = int (length s) + int (Count s sub) * (int (length new) - int (length sub))"
proof -
  obtain gaps where g: "length gaps = Suc (Count s sub)" "s = weave gaps (replicate (Count s sub) sub)"
    "Replace s sub new (Count s sub) = weave gaps (replicate (Count s sub) new)"
    using Replace_weave [of s sub "Count s sub" new] by blast
  show ?thesis unfolding g(3) weave_unique_new [OF g(1), of new sub] using g(2) by simp
qed

text \<open>What a handler writes, and what it says about it.\<close>

lemma handleFileEdit_written:
  assumes "handleFileEdit opened up m maxSize = (reply, Some new)"
  obtains content where "opened = Inr content" "int (length content) \<le> maxSize" "up = UploadCommitted"
    and "er_expected m = [] \<or> EqualFold (er_expected m) (sha256Hex content)"
    and "(er_edits m \<noteq> [] \<and> applyEdits content (er_edits m) maxSize = Inr new)
      \<or> (er_edits m = [] \<and> Count content (er_old m) \<noteq> 0 \<and> (er_all m \<or> Count content (er_old m) = 1)
          \<and> new = Replace content (er_old m) (er_new m) (Count content (er_old m)) \<and> int (length new) \<le> maxSize)"
proof -
  obtain content where o: "opened = Inr content"
    using assms by (cases opened) (auto simp: handleFileEdit_def split: if_splits)
  show thesis
  proof (cases "int (length (take (nat (maxSize + 1)) content)) > maxSize")
    case True
    then show thesis using assms o by (auto simp: handleFileEdit_def Let_def split: if_splits)
  next
    case False
    then have l: "take (nat (maxSize + 1)) content = content" "int (length content) \<le> maxSize" by auto
    have up: "up = UploadCommitted"
      using assms by (auto simp: handleFileEdit_def Let_def commitEdit_def split: if_splits sum.splits upload.splits)
    have e: "er_expected m = [] \<or> EqualFold (er_expected m) (sha256Hex content)"
      using assms o l by (auto simp: handleFileEdit_def Let_def split: if_splits sum.splits)
    show thesis
    proof (cases "er_edits m = []")
      case True
      then have c: "Count content (er_old m) \<noteq> 0" "er_all m \<or> Count content (er_old m) = 1"
        using assms o l by (auto simp: handleFileEdit_def Let_def split: if_splits)
      then have "new = Replace content (er_old m) (er_new m) (Count content (er_old m)) \<and> int (length new) \<le> maxSize"
        using True assms o l up Replace_length [OF c(1), of "er_new m"]
        by (auto simp: handleFileEdit_def Let_def commitEdit_def split: if_splits)
      then show thesis using that [OF o l(2) up e] c True by blast
    next
      case False
      then have "applyEdits content (er_edits m) maxSize = Inr new"
        using assms o l up by (auto simp: handleFileEdit_def Let_def commitEdit_def split: if_splits sum.splits)
      then show thesis using that [OF o l(2) up e] False by blast
    qed
  qed
qed

lemma commitEdit_cases:
  "(\<exists>why. commitEdit up new k n = (FileError (FileIO why) None, None))
   \<or> commitEdit up new k n = (FileDone (no_result\<lparr>fr_replaced := k, fr_occurrences := n, fr_size := int (length new),
        fr_sha := sha256Hex new\<rparr>), Some new)"
  by (cases up) (simp_all add: commitEdit_def)

lemma handleFileEdit_cases:
  "(\<exists>why r. handleFileEdit opened up m maxSize = (FileError why r, None))
   \<or> (\<exists>content new k n. opened = Inr content \<and> handleFileEdit opened up m maxSize = commitEdit up new k n
        \<and> (er_edits m = [] \<longrightarrow> n = Count (take (nat (maxSize + 1)) content) (er_old m) \<and> k = (if er_all m then n else 1)))"
proof (cases opened)
  case (Inl why)
  then show ?thesis by (simp add: handleFileEdit_def)
next
  case (Inr content)
  show ?thesis
  proof (cases "er_edits m = []")
    case True
    then show ?thesis unfolding handleFileEdit_def Let_def Inr by auto
  next
    case False
    let ?n = "length (er_edits m)"
    have "(\<exists>why r. handleFileEdit opened up m maxSize = (FileError why r, None))
      \<or> handleFileEdit opened up m maxSize = commitEdit up new ?n ?n"
      if "applyEdits (take (nat (maxSize + 1)) content) (er_edits m) maxSize = Inr new" for new
      using that False unfolding handleFileEdit_def Let_def Inr by auto
    moreover have "\<exists>why r. handleFileEdit opened up m maxSize = (FileError why r, None)"
      if "applyEdits (take (nat (maxSize + 1)) content) (er_edits m) maxSize = Inl err" for err
      using that False unfolding handleFileEdit_def Let_def Inr by auto
    ultimately show ?thesis
      using Inr False by (cases "applyEdits (take (nat (maxSize + 1)) content) (er_edits m) maxSize") blast+
  qed
qed

lemma handleFileEdit_reply:
  assumes "handleFileEdit opened up m maxSize = (reply, written)"
  shows "(\<exists>why r. reply = FileError why r \<and> written = None)
    \<or> (\<exists>content new k n. opened = Inr content \<and> written = Some new
        \<and> reply = FileDone (no_result\<lparr>fr_replaced := k, fr_occurrences := n, fr_size := int (length new), fr_sha := sha256Hex new\<rparr>)
        \<and> (er_edits m = [] \<longrightarrow> n = Count (take (nat (maxSize + 1)) content) (er_old m) \<and> k = (if er_all m then n else 1)))"
  using handleFileEdit_cases [of opened up m maxSize]
proof (elim disjE exE conjE)
  fix content new k n
  assume h: "opened = Inr content" "handleFileEdit opened up m maxSize = commitEdit up new k n"
    "er_edits m = [] \<longrightarrow> n = Count (take (nat (maxSize + 1)) content) (er_old m) \<and> k = (if er_all m then n else 1)"
  have c: "commitEdit up new k n = (reply, written)" using assms h(2) by simp
  show ?thesis
  proof (cases "written = None")
    case True
    then show ?thesis using commitEdit_cases [of up new k n] unfolding c by auto
  next
    case False
    then have "written = Some new" "reply = FileDone (no_result\<lparr>fr_replaced := k, fr_occurrences := n,
        fr_size := int (length new), fr_sha := sha256Hex new\<rparr>)"
      using commitEdit_cases [of up new k n] unfolding c by auto
    then show ?thesis using h(1,3) by blast
  qed
qed (use assms in auto)

section \<open>Properties of edits\<close>

text \<open>
  C38. A batch of edits happens all at once: when it succeeds, some parts of the file stay
  and between them every old text, found where the file as it was read has it, is replaced
  by its new one; the result keeps the size limit; and any order of the entries
  gives the same result.
\<close>

theorem batch_edit_is_simultaneous:
  assumes "applyEdits body edits maxSize = Inr t" and "mset edits' = mset edits"
  shows "(\<exists>gaps ordered. mset ordered = mset edits \<and> length gaps = Suc (length ordered)
      \<and> body = weave gaps (map fe_old ordered) \<and> t = weave gaps (map fe_new ordered))
    \<and> int (length t) \<le> maxSize \<and> applyEdits body edits' maxSize = Inr t"
  using applyEdits_weave [OF assms(1)] applyEdits_length [OF assms(1)] applyEdits_perm [OF assms] by blast

definition swap_edits :: "file_edit list" where
  "swap_edits = [\<lparr>fe_old = ''one'', fe_new = ''two''\<rparr>, \<lparr>fe_old = ''two'', fe_new = ''one''\<rparr>]"

theorem batch_edit_is_simultaneous_witness:
  "applyEdits ''one two'' swap_edits 100 = Inr ''two one'' \<and> applyEdits ''one two'' (rev swap_edits) 100 = Inr ''two one''
   \<and> applyEdits ''one two'' [\<lparr>fe_old = ''one'', fe_new = []\<rparr>, \<lparr>fe_old = ''e t'', fe_new = []\<rparr>] 100 = Inl (EditsOverlap 1 0)"
proof -
  have "applyEdits ''one two'' swap_edits 100 = Inr ''two one''" by code_simp
  moreover have "applyEdits ''one two'' [\<lparr>fe_old = ''one'', fe_new = []\<rparr>, \<lparr>fe_old = ''e t'', fe_new = []\<rparr>] 100 = Inl (EditsOverlap 1 0)"
    by code_simp
  moreover have "mset (rev swap_edits) = mset swap_edits" by simp
  ultimately show ?thesis using batch_edit_is_simultaneous [of "''one two''" swap_edits 100 "''two one''" "rev swap_edits"] by blast
qed



text \<open>
  The comment on \<open>FileEdit\<close> asks that the old text occur exactly once; the code counts
  occurrences that do not overlap, so a text that also occurs overlapping itself is
  accepted and its first occurrence replaced.
\<close>

lemma overlapping_occurrences_count_once:
  "Count ''aaa'' ''aa'' = 1 \<and> HasPrefix ''aaa'' ''aa'' \<and> HasPrefix (drop 1 ''aaa'') ''aa''
   \<and> applyEdits ''aaa'' [\<lparr>fe_old = ''aa'', fe_new = ''b''\<rparr>] 100 = Inr ''ba''"
  by code_simp

end
