(* ===== verification/Database.thy ===== *)
theory Database
  imports Access Trust GoUnicode
begin

text \<open>
  The relay's account database: the tables of \<open>src/internal/relay/migrations\<close> and the
  statements \<open>PGStore\<close> runs on them for accounts, tokens, devices, friends, shares and
  admission (\<open>pgstore.go\<close>, \<open>admin.go\<close>, \<open>friends.go\<close>, \<open>disable.go\<close>, \<open>device_id.go\<close>,
  \<open>alias.go\<close>, \<open>access.go\<close>). Delegations, scoped tokens and OAuth are in \<open>Delegations\<close>
  and \<open>OAuth\<close>.

  A table is the list of its rows, a column that may be NULL an option. A method of the
  store is one transaction: it returns an error, and then nothing was written, or its
  result and the new database. The advisory and row locks the code takes are what makes
  a transaction atomic with respect to the others. A connection that breaks is an error
  without an effect and has no branch of its own; where the code goes on after one
  (\<open>RemoveDevice\<close>) its outcome is an argument. The clock of the relay and \<open>now()\<close> of
  the database are one clock.

  \<open>externals\<close> are the UUID package's parser, the database's \<open>lower\<close> and the two
  names compared by \<open>strings.EqualFold\<close>. Columns nothing here reads (versions, mail,
  byte counts) are left out.
\<close>

record externals =
  x_validID :: "string \<Rightarrow> bool"
  x_lower :: "string \<Rightarrow> string"
  x_equalFold :: "string \<Rightarrow> string \<Rightarrow> bool"

subsection \<open>Tables\<close>

record user_row =
  us_provider :: string
  us_subject :: string
  us_ns :: string
  us_name :: "string option"
  us_role :: string
  us_disabled :: "gotime option"

record device_row =
  dv_owner :: string
  dv_id :: string
  dv_display :: string
  dv_alias :: "string option"
  dv_legacy :: "string option"
  dv_fp :: "string option"
  dv_seen :: "gotime option"
  dv_uses :: bool

record token_row =
  tk_id :: nat
  tk_ns :: string
  tk_kind :: string
  tk_hash :: string
  tk_label :: string
  tk_expires :: "gotime option"
  tk_revoked :: "gotime option"

record acl_row =
  ac_id :: nat
  ac_owner :: string
  ac_device :: string
  ac_grantee :: string
  ac_manage :: bool
  ac_revoked :: "gotime option"

datatype friend_status = FriendPending | FriendAccepted

record friend_row =
  fr_id :: nat
  fr_requester :: string
  fr_addressee :: string
  fr_status :: friend_status
  fr_accepted :: "gotime option"

record invite_row =
  iv_id :: nat
  iv_login :: "string option"
  iv_by :: "string option"
  iv_used :: "gotime option"
  iv_used_by :: "string option"

record access_row =
  ar_id :: nat
  ar_provider :: string
  ar_subject :: string
  ar_login :: string
  ar_note :: string
  ar_status :: string
  ar_decided :: "gotime option"
  ar_by :: string

record audit_row =
  au_ns :: string
  au_device :: string
  au_token :: "nat option"
  au_event :: string

datatype request_status = ReqPending | ReqApproved | ReqRejected

record request_row =
  rq_id :: string
  rq_ticket :: string
  rq_token :: string
  rq_label :: string
  rq_controller :: string
  rq_status :: request_status
  rq_ns :: string
  rq_tokenid :: "nat option"
  rq_created :: gotime
  rq_expires :: gotime
  rq_decided :: "gotime option"

record gdevice_row =
  gd_grant :: string
  gd_dev :: device_ref

record djob_row =
  jb_id :: string
  jb_grant :: string
  jb_request :: string
  jb_hash :: string
  jb_payload :: string
  jb_state :: string
  jb_result :: "string option"
  jb_created :: gotime

record scoped_row =
  sc_token :: nat
  sc_ns :: string
  sc_device :: string
  sc_fp :: string
  sc_command :: string

record oauth_client =
  oc_id :: string
  oc_secret :: string
  oc_name :: string
  oc_uris :: "string list"
  oc_method :: string
  oc_created :: gotime

record oauth_refresh =
  rf_hash :: string
  rf_client :: string
  rf_ns :: string
  rf_grant :: string
  rf_expires :: gotime
  rf_revoked :: "gotime option"

record database =
  users :: "user_row list"
  devices :: "device_row list"
  tokens :: "token_row list"
  acls :: "acl_row list"
  friends :: "friend_row list"
  invites :: "invite_row list"
  accesses :: "access_row list"
  audits :: "audit_row list"
  drequests :: "request_row list"
  gdevices :: "gdevice_row list"
  djobs :: "djob_row list"
  scopeds :: "scoped_row list"
  oclients :: "oauth_client list"
  orefreshes :: "oauth_refresh list"
  token_seq :: nat
  acl_seq :: nat
  friend_seq :: nat
  invite_seq :: nat
  access_seq :: nat

definition new_database :: database where
  "new_database = \<lparr>users = [], devices = [], tokens = [], acls = [], friends = [], invites = [], accesses = [],
     audits = [], drequests = [], gdevices = [], djobs = [], scopeds = [], oclients = [], orefreshes = [],
     token_seq = 1, acl_seq = 1, friend_seq = 1, invite_seq = 1, access_seq = 1\<rparr>"

datatype db_error =
    DbFailed
  | ErrNoRows
  | ErrNamespaceConflict
  | ErrPendingInvite
  | ErrInviteLogin
  | ErrAccountDisabled
  | ErrIdentity
  | ErrNoSuchUser
  | ErrNoSuchFriend
  | ErrNotFriends
  | ErrAliasInvalid
  | ErrAmbiguousName
  | ErrDeviceNotFound
  | ErrDeviceConflict
  | ErrAccessRequestOpen
  | ErrAccessRequestCooldown
  | ErrAccessRequestSettled
  | ErrNotFound
  | ErrForbidden
  | ErrConflict
  | ErrExpired
  | ErrInvalid
  | ErrLimit
  | ErrScopedInvalid
  | ErrScopedLimit

text \<open>\<open>SELECT\<close> of one row, \<open>UPDATE\<close>, and how many rows a condition selects.\<close>

definition sel :: "('r \<Rightarrow> bool) \<Rightarrow> 'r list \<Rightarrow> 'r option" where "sel P rows = find P rows"
definition upd :: "('r \<Rightarrow> bool) \<Rightarrow> ('r \<Rightarrow> 'r) \<Rightarrow> 'r list \<Rightarrow> 'r list" where
  "upd P f rows = map (\<lambda>r. if P r then f r else r) rows"
definition hits :: "('r \<Rightarrow> bool) \<Rightarrow> 'r list \<Rightarrow> nat" where "hits P rows = length (filter P rows)"

text \<open>What a transaction leaves behind.\<close>

definition commit :: "database \<Rightarrow> db_error + 'a \<times> database \<Rightarrow> database" where
  "commit db r = (case r of Inl _ \<Rightarrow> db | Inr (_, db') \<Rightarrow> db')"

subsection \<open>Tokens and accounts\<close>

definition namespaceEnabled :: "database \<Rightarrow> string \<Rightarrow> bool" where
  "namespaceEnabled db ns \<longleftrightarrow> \<not> (\<exists>u \<in> set (users db). us_ns u = ns \<and> us_disabled u \<noteq> None)"

text \<open>\<open>revoked_at IS NULL AND (expires_at IS NULL OR expires_at > now())\<close>.\<close>

definition token_live :: "gotime \<Rightarrow> token_row \<Rightarrow> bool" where
  "token_live now t \<longleftrightarrow> tk_revoked t = None \<and> (case tk_expires t of None \<Rightarrow> True | Some x \<Rightarrow> now < x)"

definition Resolve :: "gotime \<Rightarrow> database \<Rightarrow> string \<Rightarrow> string option" where
  "Resolve now db token =
     map_option tk_ns (sel (\<lambda>t. tk_hash t = HashToken token \<and> tk_kind t \<noteq> ''delegated'' \<and> token_live now t
        \<and> namespaceEnabled db (tk_ns t)) (tokens db))"

definition TokenAccountDisabled :: "gotime \<Rightarrow> database \<Rightarrow> string \<Rightarrow> bool" where
  "TokenAccountDisabled now db token \<longleftrightarrow>
     (\<exists>t \<in> set (tokens db). tk_hash t = HashToken token \<and> tk_kind t \<noteq> ''delegated'' \<and> token_live now t
        \<and> \<not> namespaceEnabled db (tk_ns t))"

text \<open>A new row of \<open>tokens\<close>; its hash is unique.\<close>

definition insert_token ::
  "string \<Rightarrow> string \<Rightarrow> string \<Rightarrow> string \<Rightarrow> gotime option \<Rightarrow> database \<Rightarrow> db_error + nat \<times> database" where
  "insert_token ns kind hash label expires db =
     (if \<exists>t \<in> set (tokens db). tk_hash t = hash then Inl DbFailed
      else Inr (token_seq db,
        db\<lparr>tokens := tokens db @ [\<lparr>tk_id = token_seq db, tk_ns = ns, tk_kind = kind, tk_hash = hash,
             tk_label = label, tk_expires = expires, tk_revoked = None\<rparr>],
           token_seq := token_seq db + 1\<rparr>))"

text \<open>\<open>rnd\<close> is what \<open>randHex(20)\<close> draws; calendar days are 24 hours.\<close>

definition IssueToken ::
  "gotime \<Rightarrow> string \<Rightarrow> string \<Rightarrow> int \<Rightarrow> string \<Rightarrow> database \<Rightarrow> db_error + string \<times> database" where
  "IssueToken now ns label days rnd db =
     (let raw = ''wanctl_'' @ rnd;
          expires = (if days > 0 then Some (now + days * 24 * Hour) else None)
      in case insert_token ns ''access'' (HashToken raw) label expires db of
           Inl e \<Rightarrow> Inl e
         | Inr (_, db) \<Rightarrow> Inr (raw, db))"

definition RevokeToken :: "gotime \<Rightarrow> string \<Rightarrow> nat \<Rightarrow> database \<Rightarrow> database" where
  "RevokeToken now ns i db =
     db\<lparr>tokens := upd (\<lambda>t. tk_id t = i \<and> tk_ns t = ns \<and> tk_revoked t = None)
                     (\<lambda>t. t\<lparr>tk_revoked := Some now\<rparr>) (tokens db)\<rparr>"

text \<open>The answer is the time of the disabling, and whether the account exists.\<close>

definition AccountDisabled :: "database \<Rightarrow> string \<Rightarrow> gotime option \<times> bool" where
  "AccountDisabled db ns =
     (case sel (\<lambda>u. us_ns u = ns) (users db) of None \<Rightarrow> (None, False) | Some u \<Rightarrow> (us_disabled u, True))"

definition SetAccountDisabled :: "gotime \<Rightarrow> string \<Rightarrow> bool \<Rightarrow> database \<Rightarrow> (gotime option \<times> bool) \<times> database" where
  "SetAccountDisabled now ns disabled db =
     (let db = db\<lparr>users := upd (\<lambda>u. us_ns u = ns)
                 (\<lambda>u. u\<lparr>us_disabled := (if disabled then (case us_disabled u of None \<Rightarrow> Some now | Some t \<Rightarrow> Some t)
                                          else None)\<rparr>) (users db)\<rparr>
      in (AccountDisabled db ns, db))"

definition Audit :: "string \<Rightarrow> string \<Rightarrow> string \<Rightarrow> database \<Rightarrow> database" where
  "Audit ns device event db =
     db\<lparr>audits := audits db @ [\<lparr>au_ns = ns, au_device = device, au_token = None, au_event = event\<rparr>]\<rparr>"

subsection \<open>Admission\<close>

definition guardNamespace :: "externals \<Rightarrow> string \<Rightarrow> string \<Rightarrow> bool" where
  "guardNamespace x ns reserved \<longleftrightarrow>
     ns \<noteq> [] \<and> \<not> (reserved \<noteq> [] \<and> x_equalFold x ns (TrimSpace reserved)) \<and> \<not> EqualFold ns ''portal''"

definition ascii_between :: "char \<Rightarrow> char \<Rightarrow> char \<Rightarrow> bool" where
  "ascii_between lo hi c \<longleftrightarrow> (of_char lo :: nat) \<le> of_char c \<and> (of_char c :: nat) \<le> of_char hi"

definition login_char :: "char \<Rightarrow> bool" where
  "login_char c \<longleftrightarrow> ascii_between CHR ''a'' CHR ''z'' c \<or> ascii_between CHR ''0'' CHR ''9'' c \<or> c = CHR ''-''"

definition validGitHubLogin :: "string \<Rightarrow> bool" where
  "validGitHubLogin login \<longleftrightarrow> login \<noteq> [] \<and> list_all login_char login"

definition decimalString :: "string \<Rightarrow> bool" where
  "decimalString v \<longleftrightarrow> v \<noteq> [] \<and> list_all (ascii_between CHR ''0'' CHR ''9'') v"

text \<open>\<open>deriveNS\<close>: the mailbox part, one dash for every rune that is not a login character.\<close>

definition deriveNS :: "string \<Rightarrow> string" where
  "deriveNS identity =
     (let s = (case Cut identity CHR ''@'' of Some (m, _) \<Rightarrow> if m \<noteq> [] then m else identity | None \<Rightarrow> identity);
          s = ToLower s
      in TrimChars (map (\<lambda>(r, _). if r < 128 \<and> login_char (char_of r) then char_of r else CHR ''-'')
           (runes (bytes s))) {CHR ''-''})"

definition lookupIdentity :: "database \<Rightarrow> string \<Rightarrow> string \<Rightarrow> (string \<times> string) option" where
  "lookupIdentity db provider subject =
     map_option (\<lambda>u. (us_ns u, us_role u)) (sel (\<lambda>u. us_provider u = provider \<and> us_subject u = subject) (users db))"

definition insertIdentity ::
  "string \<Rightarrow> string \<Rightarrow> string \<Rightarrow> string \<Rightarrow> string \<Rightarrow> database \<Rightarrow> db_error + (string \<times> string) \<times> database" where
  "insertIdentity provider subject ns name role db =
     (if \<exists>u \<in> set (users db). us_ns u = ns then
        (case lookupIdentity db provider subject of
           Some r \<Rightarrow> Inr (r, db)
         | None \<Rightarrow> Inl ErrNamespaceConflict)
      else if \<exists>u \<in> set (users db). us_provider u = provider \<and> us_subject u = subject then Inl DbFailed
      else Inr ((ns, role), db\<lparr>users := users db @ [\<lparr>us_provider = provider, us_subject = subject, us_ns = ns,
             us_name = (if name = [] then None else Some name), us_role = role, us_disabled = None\<rparr>]\<rparr>))"

definition resolveGitHubIdentity ::
  "externals \<Rightarrow> gotime \<Rightarrow> string \<Rightarrow> string \<Rightarrow> string \<Rightarrow> database \<Rightarrow> db_error + (string \<times> string) \<times> database" where
  "resolveGitHubIdentity x now subject ns name db =
     (case lookupIdentity db ''github'' subject of
        Some r \<Rightarrow> Inr (r, db)
      | None \<Rightarrow>
         (let hasAdmin = (\<exists>u \<in> set (users db). us_role u = ''admin'');
              profile = (if name = [] then ns else name);
              role = (if hasAdmin then ''user'' else ''admin'');
              open_invite = (\<lambda>i. map_option (x_lower x) (iv_login i) = Some (x_lower x ns) \<and> iv_used i = None)
          in case (if hasAdmin then map_option Some (sel open_invite (invites db)) else Some None) of
               None \<Rightarrow> Inl ErrPendingInvite
             | Some invite \<Rightarrow>
                (case insertIdentity ''github'' subject ns profile role db of
                   Inl e \<Rightarrow> Inl e
                 | Inr ((ns, role), db) \<Rightarrow>
                    (case invite of
                       None \<Rightarrow> Inr ((ns, role), db)
                     | Some i \<Rightarrow>
                        (let P = (\<lambda>j. iv_id j = iv_id i \<and> iv_used j = None) in
                         if hits P (invites db) \<noteq> 1 then Inl ErrPendingInvite
                         else Inr ((ns, role), db\<lparr>invites := upd P
                            (\<lambda>j. j\<lparr>iv_used := Some now, iv_used_by := Some ns\<rparr>) (invites db)\<rparr>))))))"

definition ResolveIdentity ::
  "externals \<Rightarrow> gotime \<Rightarrow> string \<Rightarrow> string \<Rightarrow> string \<Rightarrow> string \<Rightarrow> string \<Rightarrow> database
   \<Rightarrow> db_error + (string \<times> string) \<times> database" where
  "ResolveIdentity x now provider subject login name reserved db =
     (let provider = ToLower (TrimSpace provider); subject = TrimSpace subject;
          login = TrimSpace login; name = TrimSpace name
      in if subject = [] then Inl ErrNoRows
      else case lookupIdentity db provider subject of
        Some (ns, role) \<Rightarrow>
          if fst (AccountDisabled db ns) \<noteq> None then Inl ErrAccountDisabled else Inr ((ns, role), db)
      | None \<Rightarrow>
          if provider = ''header'' then
            (let ns = deriveNS subject in
             if \<not> guardNamespace x ns reserved then Inl ErrNamespaceConflict
             else insertIdentity provider subject ns subject ''user'' db)
          else if provider = ''github'' then
            (let ns = ToLower login in
             if \<not> decimalString subject \<or> \<not> validGitHubLogin ns then Inl ErrIdentity
             else if \<not> guardNamespace x ns reserved then Inl ErrNamespaceConflict
             else resolveGitHubIdentity x now subject ns name db)
          else Inl ErrIdentity)"

text \<open>The unique index on open invites covers the rows that name a login.\<close>

definition insert_invite :: "string \<Rightarrow> string option \<Rightarrow> database \<Rightarrow> database option" where
  "insert_invite login invited_by db =
     (if \<exists>i \<in> set (invites db). iv_login i = Some login \<and> iv_used i = None then None
      else Some (db\<lparr>invites := invites db @ [\<lparr>iv_id = invite_seq db, iv_login = Some login, iv_by = invited_by,
                      iv_used = None, iv_used_by = None\<rparr>],
                    invite_seq := invite_seq db + 1\<rparr>))"

definition CreateInvite :: "string \<Rightarrow> database \<Rightarrow> db_error + nat \<times> database" where
  "CreateInvite login db =
     (let login = ToLower (TrimSpace login) in
      if login = [] \<or> \<not> validGitHubLogin login then Inl ErrInviteLogin
      else case insert_invite login None db of None \<Rightarrow> Inl DbFailed | Some db' \<Rightarrow> Inr (invite_seq db, db'))"

definition RevokeInvite :: "nat \<Rightarrow> database \<Rightarrow> bool \<times> database" where
  "RevokeInvite i db =
     (let P = (\<lambda>v. iv_id v = i \<and> iv_used v = None)
      in (hits P (invites db) = 1, db\<lparr>invites := DeleteFunc P (invites db)\<rparr>))"

definition accessRetryAfter :: duration where [go_defs]: "accessRetryAfter = 7 * 24 * Hour"

definition accessRequestGate :: "access_row option \<Rightarrow> gotime \<Rightarrow> db_error option" where
  "accessRequestGate latest now =
     (case latest of
        None \<Rightarrow> None
      | Some r \<Rightarrow>
          if ar_status r = ''pending'' then Some ErrAccessRequestOpen
          else if ar_status r = ''approved'' then Some ErrAccessRequestSettled
          else if ar_status r = ''declined'' then
            (case ar_decided r of
               Some d \<Rightarrow> if now < d + accessRetryAfter then Some ErrAccessRequestCooldown else None
             | None \<Rightarrow> None)
          else None)"

definition accessRetryAt :: "access_row option \<Rightarrow> gotime \<Rightarrow> gotime" where
  "accessRetryAt latest now =
     (case latest of
        None \<Rightarrow> 0
      | Some r \<Rightarrow>
          if ar_status r \<noteq> ''declined'' then 0
          else case ar_decided r of
                 None \<Rightarrow> 0
               | Some d \<Rightarrow> if now < d + accessRetryAfter then d + accessRetryAfter else 0)"

text \<open>\<open>ORDER BY id DESC LIMIT 1\<close>: rows are kept in the order of their ids.\<close>

definition latestAccessRequest :: "database \<Rightarrow> string \<Rightarrow> string \<Rightarrow> access_row option" where
  "latestAccessRequest db provider subject =
     sel (\<lambda>r. ar_provider r = provider \<and> ar_subject r = subject) (rev (accesses db))"

definition CreateAccessRequest ::
  "gotime \<Rightarrow> string \<Rightarrow> string \<Rightarrow> string \<Rightarrow> string \<Rightarrow> database \<Rightarrow> db_error + nat \<times> database" where
  "CreateAccessRequest now provider subject login note db =
     (case accessRequestGate (latestAccessRequest db provider subject) now of
        Some e \<Rightarrow> Inl e
      | None \<Rightarrow>
          if \<exists>r \<in> set (accesses db). ar_provider r = provider \<and> ar_subject r = subject \<and> ar_status r = ''pending''
          then Inl DbFailed
          else Inr (access_seq db, db\<lparr>accesses := accesses db @ [\<lparr>ar_id = access_seq db, ar_provider = provider, ar_subject = subject,
               ar_login = login, ar_note = note, ar_status = ''pending'', ar_decided = None, ar_by = []\<rparr>],
             access_seq := access_seq db + 1\<rparr>))"

definition DecideAccessRequest ::
  "gotime \<Rightarrow> nat \<Rightarrow> string \<Rightarrow> string \<Rightarrow> database \<Rightarrow> db_error + bool \<times> database" where
  "DecideAccessRequest now i status by db =
     (if status \<noteq> ''approved'' \<and> status \<noteq> ''declined'' then Inl DbFailed
      else case sel (\<lambda>r. ar_id r = i \<and> ar_status r = ''pending'') (accesses db) of
        None \<Rightarrow> Inr (False, db)
      | Some r \<Rightarrow>
         (let db = db\<lparr>accesses := upd (\<lambda>r. ar_id r = i \<and> ar_status r = ''pending'')
                       (\<lambda>r. r\<lparr>ar_status := status, ar_decided := Some now, ar_by := by\<rparr>) (accesses db)\<rparr>
          in if status = ''approved''
             then Inr (True, case insert_invite (ar_login r) (if by = [] then None else Some by) db of
                               None \<Rightarrow> db | Some db' \<Rightarrow> db')
             else Inr (True, db)))"

end
