(* ===== verification/Sharing.thy ===== *)
theory Sharing
  imports Database
begin

text \<open>
  Devices, their names, friends and shares in the account database: \<open>friends.go\<close>,
  \<open>device_id.go\<close> (\<open>RegisterDevice\<close>, \<open>allowLegacyRegistration\<close>), \<open>alias.go\<close> and the device
  methods of \<open>admin.go\<close>, with the rows \<open>sharedPeers\<close> and \<open>ACLGrant\<close> give to \<open>Access\<close>.
\<close>

subsection \<open>Devices\<close>

text \<open>\<open>unicode.IsControl\<close>: C0, DEL and C1.\<close>

definition IsControl :: "nat \<Rightarrow> bool" where
  "IsControl r \<longleftrightarrow> r < 0x20 \<or> (0x7F \<le> r \<and> r < 0xA0)"

definition cleanLabel :: "string \<Rightarrow> bool" where
  "cleanLabel s \<longleftrightarrow> utf8_Valid (bytes s) \<and> list_all (\<lambda>(r, _). r \<noteq> 0x2F \<and> \<not> IsControl r) (runes (bytes s))"

definition validDeviceName :: "string \<Rightarrow> bool" where
  "validDeviceName name \<longleftrightarrow> name \<noteq> [] \<and> length name \<le> 255 \<and> cleanLabel name"

definition null_if_empty :: "string \<Rightarrow> string option" where
  "null_if_empty s = (if s = [] then None else Some s)"

definition device_at :: "string \<Rightarrow> string \<Rightarrow> device_row \<Rightarrow> bool" where
  "device_at ns i d \<longleftrightarrow> dv_owner d = ns \<and> dv_id d = i"

text \<open>A device of an old agent: named by its host name, and only while no device ID has its place.\<close>

definition UpsertDevice :: "gotime \<Rightarrow> string \<Rightarrow> string \<Rightarrow> string \<Rightarrow> database \<Rightarrow> database" where
  "UpsertDevice now ns name fp db =
     (if \<exists>d \<in> set (devices db). device_at ns name d then
        db\<lparr>devices := upd (\<lambda>d. device_at ns name d \<and> \<not> dv_uses d)
             (\<lambda>d. d\<lparr>dv_seen := Some now, dv_fp := (if fp = [] then dv_fp d else Some fp)\<rparr>) (devices db)\<rparr>
      else db\<lparr>devices := devices db @ [\<lparr>dv_owner = ns, dv_id = name, dv_display = name, dv_alias = None,
                dv_legacy = None, dv_fp = null_if_empty fp, dv_seen = Some now, dv_uses = False\<rparr>]\<rparr>)"

text \<open>The old record of this installation: same certificate, its name only breaks ties.\<close>

definition legacy_row :: "database \<Rightarrow> string \<Rightarrow> string \<Rightarrow> string \<Rightarrow> device_row option" where
  "legacy_row db ns name fp =
     (case sort_key (\<lambda>d. (dv_id d \<noteq> name, dv_id d))
             (filter (\<lambda>d. dv_owner d = ns \<and> dv_fp d = Some fp \<and> \<not> dv_uses d) (devices db)) of
        [] \<Rightarrow> None | d # _ \<Rightarrow> Some d)"

definition promote_device :: "string \<Rightarrow> string \<Rightarrow> string \<Rightarrow> database \<Rightarrow> database" where
  "promote_device ns old i db =
     db\<lparr>devices := upd (device_at ns old) (\<lambda>d. d\<lparr>dv_id := i, dv_legacy := Some old, dv_uses := True\<rparr>) (devices db),
        acls := upd (\<lambda>a. ac_owner a = ns \<and> ac_device a = old) (\<lambda>a. a\<lparr>ac_device := i\<rparr>) (acls db),
        audits := upd (\<lambda>a. au_ns a = ns \<and> au_device a = old) (\<lambda>a. a\<lparr>au_device := i\<rparr>) (audits db)\<rparr>"

definition RegisterDevice ::
  "gotime \<Rightarrow> string \<Rightarrow> string \<Rightarrow> string \<Rightarrow> string \<Rightarrow> database \<Rightarrow> db_error + bool \<times> database" where
  "RegisterDevice now ns i name fp db =
     (let known = (\<exists>d \<in> set (devices db). device_at ns i d);
          (known, db) = (if known then (True, db)
                         else case legacy_row db ns name fp of
                                Some d \<Rightarrow> (True, promote_device ns (dv_id d) i db)
                              | None \<Rightarrow> (False, db))
      in if \<exists>d \<in> set (devices db). device_at ns i d then
           (let P = (\<lambda>d. device_at ns i d \<and> dv_uses d) in
            if hits P (devices db) \<noteq> 1 then Inl ErrDeviceConflict
            else Inr (\<not> known, db\<lparr>devices := upd P
                   (\<lambda>d. d\<lparr>dv_display := name, dv_fp := Some fp, dv_seen := Some now\<rparr>) (devices db)\<rparr>))
         else Inr (\<not> known, db\<lparr>devices := devices db @ [\<lparr>dv_owner = ns, dv_id = i, dv_display = name,
                 dv_alias = None, dv_legacy = None, dv_fp = Some fp, dv_seen = Some now, dv_uses = True\<rparr>]\<rparr>))"

definition registerDeviceID ::
  "externals \<Rightarrow> gotime \<Rightarrow> string \<Rightarrow> string \<Rightarrow> string \<Rightarrow> string \<Rightarrow> database \<Rightarrow> db_error + bool \<times> database" where
  "registerDeviceID x now ns i name fp db =
     (if \<not> x_validID x i \<or> \<not> validDeviceName name \<or> \<not> ValidFingerprint fp then Inl DbFailed
      else RegisterDevice now ns i name fp db)"

definition allowLegacyRegistration :: "externals \<Rightarrow> database \<Rightarrow> string \<Rightarrow> string \<Rightarrow> bool" where
  "allowLegacyRegistration x db ns device \<longleftrightarrow>
     validDeviceName device \<and> \<not> x_validID x device
     \<and> \<not> (\<exists>d \<in> set (devices db). dv_owner d = ns \<and> dv_uses d \<and> dv_legacy d = Some device)"

text \<open>
  The device goes, and then its shares: a second statement whose failure the code
  ignores (\<open>acl_ok\<close>). The approval phone's row is not part of this database.
\<close>

definition RemoveDevice :: "string \<Rightarrow> string \<Rightarrow> bool \<Rightarrow> database \<Rightarrow> database" where
  "RemoveDevice ns i acl_ok db =
     (let db = db\<lparr>devices := DeleteFunc (device_at ns i) (devices db)\<rparr> in
      if acl_ok then db\<lparr>acls := DeleteFunc (\<lambda>a. ac_owner a = ns \<and> ac_device a = i) (acls db)\<rparr> else db)"

definition normalizeDeviceAlias :: "string \<Rightarrow> string option" where
  "normalizeDeviceAlias alias =
     (let alias = TrimSpace alias in
      if alias = [] then Some []
      else if \<not> cleanLabel alias \<or> length (runes (bytes alias)) > 40 then None
      else Some alias)"

definition SetDeviceAlias :: "string \<Rightarrow> string \<Rightarrow> string \<Rightarrow> database \<Rightarrow> db_error + (string \<times> string) \<times> database" where
  "SetDeviceAlias ns device alias db =
     (case normalizeDeviceAlias alias of
        None \<Rightarrow> Inl ErrAliasInvalid
      | Some alias \<Rightarrow>
          if \<exists>d \<in> set (devices db). device_at ns device d
          then Inr ((device, alias), db\<lparr>devices := upd (device_at ns device)
                 (\<lambda>d. d\<lparr>dv_alias := null_if_empty alias\<rparr>) (devices db)\<rparr>)
          else Inl ErrDeviceNotFound)"

definition ResolveDeviceTargetStrict :: "externals \<Rightarrow> database \<Rightarrow> string \<Rightarrow> string \<Rightarrow> db_error + string" where
  "ResolveDeviceTargetStrict x db ns target =
     (let found = map dv_id (filter (\<lambda>d. dv_owner d = ns \<and> (dv_id d = target \<or> dv_display d = target
                      \<or> map_option (x_lower x) (dv_alias d) = Some (x_lower x target))) (devices db));
          matches = filter (\<lambda>i. i = target) found @ filter (\<lambda>i. i \<noteq> target) found
      in if matches \<noteq> [] \<and> hd matches = target \<and> x_validID x target then Inr target
         else case matches of [] \<Rightarrow> Inl ErrDeviceNotFound | [i] \<Rightarrow> Inr i | _ \<Rightarrow> Inl ErrAmbiguousName)"

definition ListDeviceAliases :: "database \<Rightarrow> string \<Rightarrow> (string \<times> string) list" where
  "ListDeviceAliases db ns =
     map (\<lambda>d. (dv_id d, case dv_alias d of Some a \<Rightarrow> a | None \<Rightarrow> if dv_display d \<noteq> [] then dv_display d else dv_id d))
       (filter (\<lambda>d. dv_owner d = ns) (devices db))"

subsection \<open>Friends\<close>

text \<open>\<open>LEAST\<close> and \<open>GREATEST\<close> of the two names agree: the same unordered pair.\<close>

definition same_pair :: "string \<Rightarrow> string \<Rightarrow> friend_row \<Rightarrow> bool" where
  "same_pair a b r \<longleftrightarrow>
     (fr_requester r = a \<and> fr_addressee r = b) \<or> (fr_requester r = b \<and> fr_addressee r = a)"

definition LookupUser :: "database \<Rightarrow> string \<Rightarrow> bool" where
  "LookupUser db ns \<longleftrightarrow> (\<exists>u \<in> set (users db). us_ns u = ns)"

definition IsFriend :: "database \<Rightarrow> string \<Rightarrow> string \<Rightarrow> bool" where
  "IsFriend db a b \<longleftrightarrow>
     (if a = b then False else \<exists>r \<in> set (friends db). same_pair a b r \<and> fr_status r = FriendAccepted)"

definition validateFriendRequest :: "externals \<Rightarrow> string \<Rightarrow> string \<Rightarrow> string \<Rightarrow> bool" where
  "validateFriendRequest x requester addressee reserved \<longleftrightarrow>
     guardNamespace x (TrimSpace requester) reserved \<and> guardNamespace x (TrimSpace addressee) reserved
     \<and> requester \<noteq> addressee"

definition FriendRequest ::
  "externals \<Rightarrow> gotime \<Rightarrow> string \<Rightarrow> string \<Rightarrow> string \<Rightarrow> database \<Rightarrow> db_error + friend_status \<times> database" where
  "FriendRequest x now requester addressee reserved db =
     (let requester = TrimSpace requester; addressee = TrimSpace addressee in
      if \<not> validateFriendRequest x requester addressee reserved then Inl ErrNamespaceConflict
      else if \<not> LookupUser db addressee then Inl ErrNoSuchUser
      else case sel (same_pair requester addressee) (friends db) of
        None \<Rightarrow> Inr (FriendPending,
          db\<lparr>friends := friends db @ [\<lparr>fr_id = friend_seq db, fr_requester = requester, fr_addressee = addressee,
               fr_status = FriendPending, fr_accepted = None\<rparr>],
             friend_seq := friend_seq db + 1\<rparr>)
      | Some r \<Rightarrow>
          if fr_status r = FriendAccepted \<or> fr_requester r = requester then Inr (fr_status r, db)
          else Inr (FriendAccepted, db\<lparr>friends := upd (\<lambda>f. fr_requester f = fr_requester r
                 \<and> fr_addressee f = fr_addressee r \<and> fr_status f = FriendPending)
               (\<lambda>f. f\<lparr>fr_status := FriendAccepted, fr_accepted := Some now\<rparr>) (friends db)\<rparr>))"

text \<open>The request of \<open>requester\<close> that waits for \<open>ns\<close>.\<close>

definition waiting_for :: "string \<Rightarrow> string \<Rightarrow> friend_row \<Rightarrow> bool" where
  "waiting_for ns requester f \<longleftrightarrow>
     fr_addressee f = ns \<and> fr_requester f = requester \<and> fr_status f = FriendPending"

definition FriendAccept :: "gotime \<Rightarrow> string \<Rightarrow> string \<Rightarrow> database \<Rightarrow> db_error + unit \<times> database" where
  "FriendAccept now ns requester db =
     (if hits (waiting_for ns requester) (friends db) = 0 then Inl ErrNoSuchFriend
      else Inr ((), db\<lparr>friends := upd (waiting_for ns requester)
             (\<lambda>f. f\<lparr>fr_status := FriendAccepted, fr_accepted := Some now\<rparr>) (friends db)\<rparr>))"

definition FriendDecline :: "string \<Rightarrow> string \<Rightarrow> database \<Rightarrow> db_error + unit \<times> database" where
  "FriendDecline ns requester db =
     (if hits (waiting_for ns requester) (friends db) = 0 then Inl ErrNoSuchFriend
      else Inr ((), db\<lparr>friends := DeleteFunc (waiting_for ns requester) (friends db)\<rparr>))"

definition between :: "string \<Rightarrow> string \<Rightarrow> acl_row \<Rightarrow> bool" where
  "between a b r \<longleftrightarrow>
     (ac_owner r = a \<and> ac_grantee r = b) \<or> (ac_owner r = b \<and> ac_grantee r = a)"

text \<open>Removing a friend revokes the shares between the two, both ways, in the same transaction.\<close>

definition FriendRemove :: "gotime \<Rightarrow> string \<Rightarrow> string \<Rightarrow> database \<Rightarrow> db_error + unit \<times> database" where
  "FriendRemove now ns other db =
     (if hits (same_pair ns other) (friends db) = 0 then Inl ErrNoSuchFriend
      else Inr ((), db\<lparr>friends := DeleteFunc (same_pair ns other) (friends db),
             acls := upd (\<lambda>a. ac_revoked a = None \<and> between ns other a) (\<lambda>a. a\<lparr>ac_revoked := Some now\<rparr>) (acls db)\<rparr>))"

subsection \<open>Shares\<close>

definition GrantACL ::
  "string \<Rightarrow> string \<Rightarrow> string \<Rightarrow> bool \<Rightarrow> database \<Rightarrow> db_error + nat \<times> database" where
  "GrantACL ns device grantee manage db =
     (if ns = grantee then Inl ErrNotFriends
      else if sel (\<lambda>r. same_pair ns grantee r \<and> fr_status r = FriendAccepted) (friends db) = None
      then Inl ErrNotFriends
      else Inr (acl_seq db, db\<lparr>acls := acls db @ [\<lparr>ac_id = acl_seq db, ac_owner = ns, ac_device = device,
             ac_grantee = grantee, ac_manage = manage, ac_revoked = None\<rparr>], acl_seq := acl_seq db + 1\<rparr>))"

definition RevokeACL :: "gotime \<Rightarrow> string \<Rightarrow> nat \<Rightarrow> database \<Rightarrow> database" where
  "RevokeACL now ns i db =
     db\<lparr>acls := upd (\<lambda>a. ac_id a = i \<and> ac_owner a = ns) (\<lambda>a. a\<lparr>ac_revoked := Some now\<rparr>) (acls db)\<rparr>"

definition live_share :: "string \<Rightarrow> string \<Rightarrow> string \<Rightarrow> acl_row \<Rightarrow> bool" where
  "live_share ns device grantee a \<longleftrightarrow>
     ac_owner a = ns \<and> ac_device a = device \<and> ac_grantee a = grantee \<and> ac_revoked a = None"

definition RevokeACLMatch ::
  "gotime \<Rightarrow> string \<Rightarrow> nat \<Rightarrow> string \<Rightarrow> string \<Rightarrow> database \<Rightarrow> bool \<times> database" where
  "RevokeACLMatch now ns i device grantee db =
     (let P = (if i \<noteq> 0 then (\<lambda>a. ac_id a = i \<and> ac_owner a = ns \<and> ac_revoked a = None)
               else live_share ns device grantee)
      in (hits P (acls db) > 0, db\<lparr>acls := upd P (\<lambda>a. a\<lparr>ac_revoked := Some now\<rparr>) (acls db)\<rparr>))"

definition SetACLManage ::
  "string \<Rightarrow> string \<Rightarrow> string \<Rightarrow> bool \<Rightarrow> database \<Rightarrow> bool \<times> database" where
  "SetACLManage ns device grantee manage db =
     (hits (live_share ns device grantee) (acls db) > 0,
      db\<lparr>acls := upd (live_share ns device grantee) (\<lambda>a. a\<lparr>ac_manage := manage\<rparr>) (acls db)\<rparr>)"

text \<open>The managing grant wins when a pair holds several.\<close>

definition ACLGrant :: "database \<Rightarrow> string \<Rightarrow> string \<Rightarrow> string \<Rightarrow> bool option" where
  "ACLGrant db caller owner device =
     (let live = filter (live_share owner device caller) (acls db) in
      if live = [] then None else Some (\<exists>a \<in> set live. ac_manage a))"

definition ListReceivedACL :: "database \<Rightarrow> string \<Rightarrow> (string \<times> string \<times> bool) list" where
  "ListReceivedACL db ns =
     map (\<lambda>a. (ac_device a, ac_owner a, ac_manage a))
       (rev (filter (\<lambda>a. ac_grantee a = ns \<and> ac_revoked a = None) (acls db)))"

text \<open>
  The shared half of \<open>ListDevices\<close>, one row for each share and device, as \<open>sharedPeers\<close>
  reads it.
\<close>

definition sharedPeerLabel :: "device_row \<Rightarrow> string" where
  "sharedPeerLabel d =
     (case filter (\<lambda>s. s \<noteq> []) [case dv_alias d of None \<Rightarrow> [] | Some a \<Rightarrow> a, dv_display d,
              case dv_legacy d of None \<Rightarrow> [] | Some l \<Rightarrow> l, dv_id d] of
        [] \<Rightarrow> [] | s # _ \<Rightarrow> s)"

definition shared_rows :: "database \<Rightarrow> (string \<Rightarrow> string \<Rightarrow> bool) \<Rightarrow> string \<Rightarrow> shared_peer list" where
  "shared_rows db live ns =
     concat (map (\<lambda>a. map (\<lambda>d. SharedPeer (dv_owner d) (dv_id d) (sharedPeerLabel d) (live (dv_owner d) (dv_id d)))
              (filter (device_at (ac_owner a) (ac_device a)) (devices db)))
       (filter (\<lambda>a. ac_grantee a = ns \<and> ac_revoked a = None) (acls db)))"

text \<open>What the relay asks of this database, for a portal and the devices online now.\<close>

definition db_view :: "externals \<Rightarrow> database \<Rightarrow> string \<Rightarrow> (string \<Rightarrow> (string \<times> string) list) \<Rightarrow> relay_view" where
  "db_view x db portal_ns labels =
     \<lparr>portalNS = portal_ns,
      aliases = StrictAliases (\<lambda>ns target. case ResolveDeviceTargetStrict x db ns target of
                                 Inl _ \<Rightarrow> None | Inr i \<Rightarrow> Some i),
      liveLabels = labels,
      listShared = shared_rows db (\<lambda>ns i. i \<in> fst ` set (labels ns)),
      acl = Some (ACLGrant db),
      validID = x_validID x,
      equalFold = x_equalFold x\<rparr>"

end
