(* ===== verification/Delegations.thy ===== *)
theory Delegations
  imports Sharing
begin

text \<open>
  Delegations and scoped command tokens in the account database: \<open>delegation_store.go\<close>,
  \<open>delegation_cleanup.go\<close>, \<open>scoped_store.go\<close> and the handlers of \<open>delegation_admin.go\<close>.
  A JSON document is the string it is written as; whether it is one (\<open>json.Valid\<close>) is
  an argument. Hashes a client sends are compared as text.
\<close>

definition maxPendingDelegations :: nat where "maxPendingDelegations = 1000"
definition maxDelegationDevices :: nat where "maxDelegationDevices = 16"
definition maxDelegationPayload :: nat where "maxDelegationPayload = 32768"
definition maxDelegationResult :: nat where "maxDelegationResult = 262144"

definition id_char :: "char \<Rightarrow> bool" where
  "id_char c \<longleftrightarrow> ascii_between CHR ''a'' CHR ''z'' c \<or> ascii_between CHR ''A'' CHR ''Z'' c
     \<or> ascii_between CHR ''0'' CHR ''9'' c \<or> c = CHR ''_'' \<or> c = CHR ''-''"

definition validDelegationID :: "string \<Rightarrow> bool" where
  "validDelegationID s \<longleftrightarrow> 1 \<le> length s \<and> length s \<le> 128 \<and> list_all id_char s"

text \<open>Hex digits that \<open>strings.ToLower\<close> leaves alone.\<close>

definition validDelegationHash :: "string \<Rightarrow> bool" where
  "validDelegationHash s \<longleftrightarrow>
     length s = 64 \<and> list_all (\<lambda>c. ascii_between CHR ''0'' CHR ''9'' c \<or> ascii_between CHR ''a'' CHR ''f'' c) s"

subsection \<open>Reading\<close>

datatype request_view_status = VPending | VApproved | VRejected | VExpired | VRevoked

record request_view =
  rv_id :: string
  rv_label :: string
  rv_controller :: string
  rv_status :: request_view_status
  rv_ns :: string
  rv_created :: gotime
  rv_request_expires :: gotime
  rv_decided :: "gotime option"
  rv_expires :: "gotime option"
  rv_devices :: "device_ref list"
  rv_token :: nat

text \<open>\<open>strconv.Itoa\<close> of a serial.\<close>

fun Itoa :: "nat \<Rightarrow> string" where
  "Itoa n = (if n < 10 then [char_of (48 + n)] else Itoa (n div 10) @ [char_of (48 + n mod 10)])"

declare Itoa.simps [simp del]

text \<open>A granted device is still there under the certificate that was approved.\<close>

definition device_stands :: "database \<Rightarrow> device_ref \<Rightarrow> bool" where
  "device_stands db g \<longleftrightarrow>
     (\<exists>d \<in> set (devices db). dv_owner d = d_namespace g \<and> dv_id d = d_id g \<and> dv_uses d
        \<and> dv_fp d = Some (d_fingerprint g))"

definition grant_devices :: "database \<Rightarrow> string \<Rightarrow> device_ref list" where
  "grant_devices db i = map gd_dev (filter (\<lambda>g. gd_grant g = i) (gdevices db))"

definition token_of :: "database \<Rightarrow> request_row \<Rightarrow> token_row option" where
  "token_of db r = (case rq_tokenid r of None \<Rightarrow> None | Some k \<Rightarrow> sel (\<lambda>t. tk_id t = k) (tokens db))"

definition view_status :: "gotime \<Rightarrow> database \<Rightarrow> request_row \<Rightarrow> request_view_status" where
  "view_status now db r =
     (let t = token_of db r in
      if rq_status r = ReqApproved
         \<and> (case t of None \<Rightarrow> True
            | Some t \<Rightarrow> tk_revoked t \<noteq> None \<or> \<not> list_all (device_stands db) (grant_devices db (rq_id r)))
      then VRevoked
      else if rq_status r = ReqApproved
         \<and> (case t of None \<Rightarrow> True
            | Some t \<Rightarrow> (case tk_expires t of None \<Rightarrow> True | Some e \<Rightarrow> e \<le> now))
      then VExpired
      else if rq_status r = ReqPending \<and> rq_expires r \<le> now then VExpired
      else case rq_status r of ReqPending \<Rightarrow> VPending | ReqApproved \<Rightarrow> VApproved | ReqRejected \<Rightarrow> VRejected)"

definition request_at :: "database \<Rightarrow> string \<Rightarrow> request_row option" where
  "request_at db i = sel (\<lambda>r. rq_id r = i) (drequests db)"

text \<open>An empty \<open>ticket\<close> stands for any.\<close>

definition readDelegation :: "gotime \<Rightarrow> database \<Rightarrow> string \<Rightarrow> string \<Rightarrow> db_error + request_view" where
  "readDelegation now db i ticket =
     (case sel (\<lambda>r. rq_id r = i \<and> (ticket = [] \<or> rq_ticket r = ticket)) (drequests db) of
        None \<Rightarrow> Inl ErrNotFound
      | Some r \<Rightarrow> Inr \<lparr>rv_id = rq_id r, rv_label = rq_label r, rv_controller = rq_controller r,
          rv_status = view_status now db r, rv_ns = rq_ns r, rv_created = rq_created r,
          rv_request_expires = rq_expires r, rv_decided = rq_decided r,
          rv_expires = (case token_of db r of None \<Rightarrow> None | Some t \<Rightarrow> tk_expires t),
          rv_devices = sort_key d_id (grant_devices db i),
          rv_token = (case rq_tokenid r of None \<Rightarrow> 0 | Some k \<Rightarrow> k)\<rparr>)"

definition GetDelegation :: "gotime \<Rightarrow> database \<Rightarrow> string \<Rightarrow> db_error + request_view" where
  "GetDelegation now db i = readDelegation now db i []"

definition GetDelegationByTicket :: "gotime \<Rightarrow> database \<Rightarrow> string \<Rightarrow> string \<Rightarrow> db_error + request_view" where
  "GetDelegationByTicket now db i ticket =
     (if \<not> validDelegationHash ticket then Inl ErrNotFound else readDelegation now db i ticket)"

definition granted :: "request_view \<Rightarrow> duration" where
  "granted v = GrantedDuration (rv_decided v) (rv_expires v)"

text \<open>\<open>Duration.Round(time.Minute) / time.Minute\<close>: half a minute is rounded away from zero.\<close>

definition round_minutes :: "duration \<Rightarrow> int" where
  "round_minutes d = sgn d * ((\<bar>d\<bar> + 30 * Second) div Minute)"

subsection \<open>Asking and deciding\<close>

record new_request =
  n_id :: string
  n_ticket :: string
  n_token :: string
  n_label :: string
  n_controller :: string
  n_expires :: gotime

definition pendingCount :: "gotime \<Rightarrow> database \<Rightarrow> nat" where
  "pendingCount now db = hits (\<lambda>r. rq_status r = ReqPending \<and> now < rq_expires r) (drequests db)"

definition CreateDelegation ::
  "gotime \<Rightarrow> new_request \<Rightarrow> database \<Rightarrow> db_error + request_view \<times> database" where
  "CreateDelegation now n db =
     (if \<not> validDelegationID (n_id n) \<or> \<not> validDelegationHash (n_ticket n) \<or> \<not> validDelegationHash (n_token n)
         \<or> length (n_label n) = 0 \<or> length (n_label n) > 200 \<or> \<not> ValidFingerprint (n_controller n)
      then Inl ErrInvalid
      else case request_at db (n_id n) of
        Some r \<Rightarrow>
          if rq_ticket r \<noteq> n_ticket n \<or> rq_token r \<noteq> n_token n \<or> rq_controller r \<noteq> n_controller n
          then Inl ErrConflict
          else map_sum id (\<lambda>v. (v, db)) (readDelegation now db (n_id n) (n_ticket n))
      | None \<Rightarrow>
          if \<not> n_expires n > now then Inl ErrInvalid
          else if pendingCount now db \<ge> maxPendingDelegations then Inl ErrLimit
          else if \<exists>r \<in> set (drequests db). rq_ticket r = n_ticket n \<or> rq_token r = n_token n then Inl ErrConflict
          else
            (let db = db\<lparr>drequests := drequests db @ [\<lparr>rq_id = n_id n, rq_ticket = n_ticket n, rq_token = n_token n,
                   rq_label = n_label n, rq_controller = n_controller n, rq_status = ReqPending, rq_ns = [],
                   rq_tokenid = None, rq_created = now,
                   rq_expires = (if n_expires n > now + 10 * Minute then now + 10 * Minute else n_expires n),
                   rq_decided = None\<rparr>]\<rparr>
             in map_sum id (\<lambda>v. (v, db)) (readDelegation now db (n_id n) (n_ticket n))))"

record approval =
  p_request :: string
  p_ns :: string
  p_devices :: "string list"
  p_minutes :: int
  p_controller :: string
  p_fps :: "string \<Rightarrow> string"

text \<open>\<open>p_fps\<close> is a Go map: empty for a device that has no entry; \<open>nfps\<close> is how many it has.\<close>

text \<open>The loop over the sorted devices: each must be the owner's, under the shown certificate.\<close>

fun grant_loop :: "string \<Rightarrow> string \<Rightarrow> (string \<Rightarrow> string) \<Rightarrow> string list \<Rightarrow> database \<Rightarrow> db_error + database" where
  "grant_loop i ns fps [] db = Inr db"
| "grant_loop i ns fps (dev # ds) db =
     (case sel (\<lambda>d. device_at ns dev d \<and> dv_uses d) (devices db) of
        None \<Rightarrow> Inl ErrForbidden
      | Some d \<Rightarrow>
          (case dv_fp d of
             None \<Rightarrow> Inl DbFailed
           | Some actual \<Rightarrow>
               if actual \<noteq> fps dev then Inl ErrConflict
               else if \<exists>g \<in> set (gdevices db). gd_grant g = i \<and> d_id (gd_dev g) = dev then Inl DbFailed
               else grant_loop i ns fps ds
                 (db\<lparr>gdevices := gdevices db @ [\<lparr>gd_grant = i,
                    gd_dev = \<lparr>d_namespace = ns, d_id = dev, d_fingerprint = actual\<rparr>\<rparr>]\<rparr>)))"

definition approval_event :: "string \<Rightarrow> string" where
  "approval_event i = ''delegation-approved:'' @ i"

definition approval_valid :: "externals \<Rightarrow> approval \<Rightarrow> nat \<Rightarrow> bool" where
  "approval_valid x p nfps \<longleftrightarrow>
     guardNamespace x (p_ns p) [] \<and> length (p_ns p) \<le> 128 \<and> 1 \<le> p_minutes p \<and> p_minutes p \<le> MaxGrantMinutes
     \<and> 1 \<le> length (p_devices p) \<and> length (p_devices p) \<le> maxDelegationDevices \<and> ValidFingerprint (p_controller p)
     \<and> nfps = length (p_devices p)
     \<and> list_all (\<lambda>i. x_validID x i \<and> ValidFingerprint (p_fps p i)) (p_devices p) \<and> distinct (p_devices p)"

definition ApproveDelegation ::
  "externals \<Rightarrow> gotime \<Rightarrow> approval \<Rightarrow> nat \<Rightarrow> database \<Rightarrow> db_error + request_view \<times> database" where
  "ApproveDelegation x now p nfps db =
     (if \<not> approval_valid x p nfps then Inl ErrInvalid
      else case request_at db (p_request p) of
        None \<Rightarrow> Inl ErrNotFound
      | Some r \<Rightarrow>
          if rq_ns r \<noteq> [] \<and> rq_ns r \<noteq> p_ns p then Inl ErrForbidden
          else if rq_status r \<noteq> ReqPending then Inl ErrConflict
          else if \<not> now < rq_expires r then Inl ErrExpired
          else if rq_controller r \<noteq> p_controller p then Inl ErrConflict
          else case grant_loop (p_request p) (p_ns p) (p_fps p) (sort (p_devices p)) db of
            Inl e \<Rightarrow> Inl e
          | Inr db \<Rightarrow>
             (case insert_token (p_ns p) ''delegated'' (rq_token r) (rq_label r)
                     (Some (now + p_minutes p * Minute)) db of
                Inl e \<Rightarrow> Inl e
              | Inr (k, db) \<Rightarrow>
                 (let db = db\<lparr>drequests := upd (\<lambda>q. rq_id q = p_request p)
                        (\<lambda>q. q\<lparr>rq_status := ReqApproved, rq_ns := p_ns p, rq_tokenid := Some k,
                               rq_decided := Some now\<rparr>) (drequests db),
                      audits := audits db @ [\<lparr>au_ns = p_ns p, au_device = [], au_token = Some k,
                        au_event = approval_event (p_request p)\<rparr>]\<rparr>
                  in map_sum id (\<lambda>v. (v, db)) (readDelegation now db (p_request p) []))))"

text \<open>The refusal of one transaction and, when it changed nothing, the reading that explains why.\<close>

definition RejectDelegation ::
  "externals \<Rightarrow> gotime \<Rightarrow> string \<Rightarrow> string \<Rightarrow> database \<Rightarrow> db_error + unit \<times> database" where
  "RejectDelegation x now i ns db =
     (if \<not> guardNamespace x ns [] then Inl ErrInvalid
      else
       (let P = (\<lambda>r. rq_id r = i \<and> rq_status r = ReqPending \<and> now < rq_expires r \<and> rq_ns r = []) in
        if hits P (drequests db) = 1
        then Inr ((), db\<lparr>drequests := upd P
               (\<lambda>r. r\<lparr>rq_status := ReqRejected, rq_ns := ns, rq_decided := Some now\<rparr>) (drequests db)\<rparr>)
        else case GetDelegation now db i of
          Inl e \<Rightarrow> Inl e
        | Inr v \<Rightarrow>
            if rv_ns v \<noteq> [] \<and> rv_ns v \<noteq> ns then Inl ErrForbidden
            else if rv_status v = VRejected then Inr ((), db)
            else if rv_status v = VExpired then Inl ErrExpired
            else Inl ErrConflict))"

subsection \<open>Scoped command tokens\<close>

definition ScopedDefaultDays :: int where [go_defs]: "ScopedDefaultDays = 90"
definition ScopedMaxDays :: int where [go_defs]: "ScopedMaxDays = 365"
definition scopedMaxLive :: nat where "scopedMaxLive = 50"
definition scopedMaxCommand :: nat where "scopedMaxCommand = 4096"
definition scopedMaxLabel :: nat where "scopedMaxLabel = 200"

definition validScopedCommand :: "string \<Rightarrow> bool" where
  "validScopedCommand c \<longleftrightarrow>
     c \<noteq> [] \<and> length c \<le> scopedMaxCommand \<and> utf8_Valid (bytes c)
     \<and> list_all (\<lambda>(r, _). \<not> (IsControl r \<and> r \<noteq> 9)) (runes (bytes c))"

definition is_scoped :: "database \<Rightarrow> token_row \<Rightarrow> bool" where
  "is_scoped db t \<longleftrightarrow> (\<exists>s \<in> set (scopeds db). sc_token s = tk_id t)"

text \<open>\<open>rnd\<close> is what \<open>randHex(20)\<close> draws.\<close>

definition IssueScopedToken ::
  "externals \<Rightarrow> gotime \<Rightarrow> string \<Rightarrow> string \<Rightarrow> string \<Rightarrow> string \<Rightarrow> int \<Rightarrow> string \<Rightarrow> database
   \<Rightarrow> db_error + (string \<times> nat) \<times> database" where
  "IssueScopedToken x now ns device command label days rnd db =
     (let days = (if days = 0 then ScopedDefaultDays else days) in
      if days < 0 \<or> days > ScopedMaxDays \<or> \<not> validScopedCommand command \<or> length label > scopedMaxLabel
         \<or> \<not> cleanLabel label
      then Inl ErrScopedInvalid
      else case ResolveDeviceTargetStrict x db ns device of
        Inl e \<Rightarrow> Inl e
      | Inr i \<Rightarrow>
         (case sel (\<lambda>d. device_at ns i d \<and> dv_uses d) (devices db) of
            None \<Rightarrow> Inl ErrDeviceNotFound
          | Some d \<Rightarrow>
             (case dv_fp d of
                None \<Rightarrow> Inl ErrDeviceNotFound
              | Some fp \<Rightarrow>
                  if fp = [] then Inl ErrDeviceNotFound
                  else if hits (\<lambda>t. tk_ns t = ns \<and> tk_revoked t = None
                              \<and> (case tk_expires t of None \<Rightarrow> False | Some e \<Rightarrow> now < e) \<and> is_scoped db t) (tokens db)
                          \<ge> scopedMaxLive
                  then Inl ErrScopedLimit
                  else
                   (let raw = ScopedTokenPrefix @ rnd in
                    case insert_token ns ''delegated'' (HashToken raw) label (Some (now + days * 24 * Hour)) db of
                      Inl e \<Rightarrow> Inl e
                    | Inr (k, db) \<Rightarrow>
                        Inr ((raw, k), db\<lparr>scopeds := scopeds db @ [\<lparr>sc_token = k, sc_ns = ns, sc_device = i,
                               sc_fp = fp, sc_command = command\<rparr>]\<rparr>)))))"

definition RevokeScopedToken :: "gotime \<Rightarrow> string \<Rightarrow> nat \<Rightarrow> database \<Rightarrow> bool \<times> database" where
  "RevokeScopedToken now ns i db =
     (let P = (\<lambda>t. tk_id t = i \<and> tk_ns t = ns \<and> tk_revoked t = None \<and> is_scoped db t)
      in (hits P (tokens db) = 1, db\<lparr>tokens := upd P (\<lambda>t. t\<lparr>tk_revoked := Some now\<rparr>) (tokens db)\<rparr>))"

subsection \<open>Resolving a credential\<close>

definition resolveScoped :: "database \<Rightarrow> nat \<Rightarrow> access \<Rightarrow> access option" where
  "resolveScoped db k out =
     (case sel (\<lambda>s. sc_token s = k \<and> sc_ns s = a_ns out
               \<and> device_stands db \<lparr>d_namespace = sc_ns s, d_id = sc_device s, d_fingerprint = sc_fp s\<rparr>) (scopeds db) of
        None \<Rightarrow> None
      | Some s \<Rightarrow>
          if IsZero (a_expires out) \<or> sc_command s = [] then None
          else Some (out\<lparr>delegated := True, a_grant := ''sc_'' @ Itoa k,
                 a_devices := [\<lparr>d_namespace = a_ns out, d_id = sc_device s, d_fingerprint = sc_fp s\<rparr>],
                 a_execOnly := sc_command s\<rparr>))"

text \<open>
  \<open>ResolveAccess\<close> keeps the scope of a delegated token: the grant is read again, so it
  ends with the token, with a device that went away or with a changed certificate.
\<close>

definition PGResolveAccess :: "gotime \<Rightarrow> database \<Rightarrow> string \<Rightarrow> access option" where
  "PGResolveAccess now db raw =
     (case sel (\<lambda>t. tk_hash t = HashToken raw \<and> token_live now t \<and> namespaceEnabled db (tk_ns t)) (tokens db) of
        None \<Rightarrow> None
      | Some t \<Rightarrow>
         (let out = no_access\<lparr>a_ns := tk_ns t, a_credential := Itoa (tk_id t),
                      a_expires := (case tk_expires t of None \<Rightarrow> 0 | Some e \<Rightarrow> e)\<rparr>;
              grant = (case sel (\<lambda>r. rq_tokenid r = Some (tk_id t)) (drequests db) of
                         None \<Rightarrow> [] | Some r \<Rightarrow> rq_id r)
          in if is_scoped db t then resolveScoped db (tk_id t) out
             else if tk_kind t \<noteq> ''delegated'' then Some out
             else case GetDelegation now db grant of
               Inl _ \<Rightarrow> None
             | Inr v \<Rightarrow>
                (case rv_expires v of
                   None \<Rightarrow> None
                 | Some e \<Rightarrow>
                     if rv_status v \<noteq> VApproved \<or> rv_ns v \<noteq> a_ns out \<or> rv_devices v = [] then None
                     else Some (out\<lparr>delegated := True, a_grant := rv_id v, a_expires := e,
                            grantedMinutes := round_minutes (granted v), a_controllerFP := rv_controller v,
                            a_devices := rv_devices v\<rparr>))))"

text \<open>The token store of a relay with a database.\<close>

definition PGStore :: "gotime \<Rightarrow> database \<Rightarrow> token_store" where
  "PGStore now db = \<lparr>ts_resolve = Resolve now db, ts_scoped = Some (PGResolveAccess now db)\<rparr>"

subsection \<open>The job ledger\<close>

definition job_at :: "database \<Rightarrow> string \<Rightarrow> string \<Rightarrow> djob_row option" where
  "job_at db grant rid = sel (\<lambda>j. jb_grant j = grant \<and> jb_request j = rid) (djobs db)"

definition FindJob :: "database \<Rightarrow> string \<Rightarrow> string \<Rightarrow> db_error + djob_row" where
  "FindJob db grant rid =
     (if \<not> validDelegationID grant \<or> \<not> validDelegationID rid then Inl ErrInvalid
      else case job_at db grant rid of None \<Rightarrow> Inl ErrNotFound | Some j \<Rightarrow> Inr j)"

text \<open>\<open>rnd\<close> is what \<open>randHex(16)\<close> draws, \<open>json_ok\<close> whether the payload is JSON.\<close>

definition BeginJob ::
  "gotime \<Rightarrow> string \<Rightarrow> string \<Rightarrow> string \<Rightarrow> string \<Rightarrow> bool \<Rightarrow> string \<Rightarrow> database
   \<Rightarrow> db_error + (djob_row \<times> bool) \<times> database" where
  "BeginJob now grant rid hash payload json_ok rnd db =
     (if \<not> validDelegationID grant \<or> \<not> validDelegationID rid \<or> \<not> validDelegationHash hash
         \<or> length payload > maxDelegationPayload \<or> \<not> json_ok
      then Inl ErrInvalid
      else case job_at db grant rid of
        Some old \<Rightarrow> if jb_hash old \<noteq> hash then Inl ErrConflict else Inr ((old, False), db)
      | None \<Rightarrow>
         (case readDelegation now db grant [] of
            Inl e \<Rightarrow> Inl e
          | Inr v \<Rightarrow>
              if rv_status v \<noteq> VApproved then Inl ErrForbidden
              else if int (hits (\<lambda>j. jb_grant j = grant) (djobs db)) \<ge> MaxJobs (granted v) then Inl ErrLimit
              else if \<exists>j \<in> set (djobs db). jb_id j = ''j_'' @ rnd then Inl DbFailed
              else
               (let j = \<lparr>jb_id = ''j_'' @ rnd, jb_grant = grant, jb_request = rid, jb_hash = hash,
                         jb_payload = payload, jb_state = ''running'', jb_result = None, jb_created = now\<rparr>
                in Inr ((j, True), db\<lparr>djobs := djobs db @ [j]\<rparr>))))"

definition GetJob :: "database \<Rightarrow> string \<Rightarrow> string \<Rightarrow> db_error + djob_row" where
  "GetJob db grant i =
     (case sel (\<lambda>j. jb_grant j = grant \<and> jb_id j = i) (djobs db) of None \<Rightarrow> Inl ErrNotFound | Some j \<Rightarrow> Inr j)"

definition FinishJob ::
  "string \<Rightarrow> string \<Rightarrow> string \<Rightarrow> string \<Rightarrow> bool \<Rightarrow> database \<Rightarrow> db_error + unit \<times> database" where
  "FinishJob grant i state result json_ok db =
     (if state \<notin> {''done'', ''failed'', ''unknown''} \<or> length result > maxDelegationResult \<or> \<not> json_ok
      then Inl ErrInvalid
      else
       (let P = (\<lambda>j. jb_grant j = grant \<and> jb_id j = i \<and> jb_state j = ''running'') in
        if hits P (djobs db) = 1
        then Inr ((), db\<lparr>djobs := upd P (\<lambda>j. j\<lparr>jb_state := state, jb_result := Some result\<rparr>) (djobs db)\<rparr>)
        else case GetJob db grant i of Inl e \<Rightarrow> Inl e | Inr _ \<Rightarrow> Inl ErrConflict))"

subsection \<open>Clean-up\<close>

text \<open>A record that can no longer give access and is older than \<open>cutoff\<close>.\<close>

definition cleanable :: "gotime \<Rightarrow> gotime \<Rightarrow> database \<Rightarrow> request_row \<Rightarrow> bool" where
  "cleanable now cutoff db r \<longleftrightarrow>
     rq_created r < cutoff
     \<and> (case rq_status r of
          ReqRejected \<Rightarrow> True
        | ReqPending \<Rightarrow> rq_expires r \<le> now
        | ReqApproved \<Rightarrow>
            (case token_of db r of
               None \<Rightarrow> True
             | Some t \<Rightarrow> tk_revoked t \<noteq> None
                 \<or> (case tk_expires t of None \<Rightarrow> True | Some e \<Rightarrow> e \<le> now)
                 \<or> \<not> list_all (device_stands db) (grant_devices db (rq_id r))))"

text \<open>\<open>SKIP LOCKED\<close>: rows that another transaction holds (\<open>locked\<close>) are left for later.\<close>

definition cleanup_rows :: "gotime \<Rightarrow> gotime \<Rightarrow> (string \<Rightarrow> bool) \<Rightarrow> database \<Rightarrow> request_row list" where
  "cleanup_rows now cutoff locked db =
     take 256 (sort_key (\<lambda>r. (rq_created r, rq_id r))
       (filter (\<lambda>r. cleanable now cutoff db r \<and> \<not> locked (rq_id r)) (drequests db)))"

definition cleanupDelegationBatch ::
  "gotime \<Rightarrow> gotime \<Rightarrow> (string \<Rightarrow> bool) \<Rightarrow> database \<Rightarrow> nat \<times> database" where
  "cleanupDelegationBatch now cutoff locked db =
     (let rows = cleanup_rows now cutoff locked db; is = map rq_id rows;
          ks = concat (map (\<lambda>r. case token_of db r of None \<Rightarrow> [] | Some t \<Rightarrow> [tk_id t]) rows)
      in if is = [] then (0, db)
         else (length is,
           db\<lparr>djobs := DeleteFunc (\<lambda>j. jb_grant j \<in> set is) (djobs db),
              gdevices := DeleteFunc (\<lambda>g. gd_grant g \<in> set is) (gdevices db),
              drequests := DeleteFunc (\<lambda>r. rq_id r \<in> set is) (drequests db),
              tokens := DeleteFunc (\<lambda>t. tk_id t \<in> set ks \<and> tk_kind t = ''delegated'') (tokens db)\<rparr>))"

end
