(* ===== verification/GoJson.thy ===== *)
theory GoJson
  imports Delegations
begin

text \<open>
  What the program uses of \<open>strconv.Atoi\<close>, and of \<open>encoding/json\<close> when it writes a struct: strings with their
  escapes (\<open>json.Marshal\<close> escapes HTML, U+2028 and U+2029 and writes U+FFFD for bytes that
  are not UTF-8), integers, booleans and fields left out by \<open>omitempty\<close>. Two documents of
  the same struct are equal only if their fields are, as long as the strings are UTF-8.
\<close>

subsection \<open>strconv.Atoi\<close>

definition digit :: "char \<Rightarrow> bool" where
  "digit c \<longleftrightarrow> ascii_between CHR ''0'' CHR ''9'' c"

definition decimal :: "string \<Rightarrow> nat" where
  "decimal s = foldl (\<lambda>n c. 10 * n + (of_char c - 48)) 0 s"

text \<open>An optional sign, at least one digit, and a value that fits 64 bits.\<close>

definition Atoi :: "string \<Rightarrow> int option" where
  "Atoi s =
     (let neg = HasPrefix s ''-''; ds = (if neg \<or> HasPrefix s ''+'' then tl s else s); n = int (decimal ds)
      in if ds = [] \<or> \<not> list_all digit ds then None
         else if neg then (if n \<le> 2 ^ 63 then Some (- n) else None)
         else if n < 2 ^ 63 then Some n else None)"

lemma decimal_snoc: "decimal (s @ [c]) = 10 * decimal s + (of_char c - 48)"
  by (simp add: decimal_def)

lemma digit_of: "n < 10 \<Longrightarrow> digit (char_of (48 + n)) \<and> (of_char (char_of (48 + n)) :: nat) = 48 + n"
  by (simp add: digit_def ascii_between_def)

lemma Itoa_digits: "list_all digit (Itoa n) \<and> Itoa n \<noteq> [] \<and> decimal (Itoa n) = n"
proof (induction n rule: Itoa.induct)
  case (1 n)
  show ?case
  proof (cases "n < 10")
    case True
    then show ?thesis using digit_of [of n] by (simp add: Itoa.simps [of n] decimal_def)
  next
    case False
    then have "list_all digit (Itoa (n div 10)) \<and> Itoa (n div 10) \<noteq> [] \<and> decimal (Itoa (n div 10)) = n div 10" using 1 by simp
    then show ?thesis using False digit_of [of "n mod 10"] by (simp add: Itoa.simps [of n] decimal_snoc)
  qed
qed

lemma Atoi_Itoa: "int n < 2 ^ 63 \<Longrightarrow> Atoi (Itoa n) = Some (int n)"
proof -
  assume n: "int n < 2 ^ 63"
  obtain c r where i: "Itoa n = c # r" "digit c" using Itoa_digits [of n] by (cases "Itoa n") auto
  then have "c \<noteq> CHR ''-''" "c \<noteq> CHR ''+''" by (auto simp: digit_def ascii_between_def)
  then have "\<not> HasPrefix (Itoa n) ''-''" "\<not> HasPrefix (Itoa n) ''+''" by (auto simp: HasPrefix_def i)
  then show ?thesis using Itoa_digits [of n] n by (simp add: Atoi_def Let_def)
qed

subsection \<open>Strings\<close>

abbreviation bs_line_sep :: "byte list" where "bs_line_sep \<equiv> [0xE2, 0x80, 0xA8]"
abbreviation bs_para_sep :: "byte list" where "bs_para_sep \<equiv> [0xE2, 0x80, 0xA9]"

abbreviation quotech :: byte where "quotech \<equiv> 0x22"
abbreviation backslash :: byte where "backslash \<equiv> 0x5C"

definition json_safe :: "byte \<Rightarrow> bool" where
  "json_safe a \<longleftrightarrow> 0x20 \<le> a \<and> a \<notin> {quotech, backslash, 0x26, 0x3C, 0x3E}"

definition json_ascii :: "byte \<Rightarrow> byte list" where
  "json_ascii a =
     (if json_safe a then [a]
      else if a = quotech \<or> a = backslash then [backslash, a]
      else if a = 8 then bytes [CHR 0x5C, CHR ''b'']
      else if a = 12 then bytes [CHR 0x5C, CHR ''f'']
      else if a = 10 then bytes [CHR 0x5C, CHR ''n'']
      else if a = 13 then bytes [CHR 0x5C, CHR ''r'']
      else if a = 9 then bytes [CHR 0x5C, CHR ''t'']
      else bytes ([CHR 0x5C, CHR ''u'', CHR ''0'', CHR ''0''] @ hex_byte a))"

text \<open>What is written for the first rune of a string.\<close>

definition json_rune :: "byte list \<Rightarrow> byte list" where
  "json_rune p =
     (if unat (hd p) < 0x80 then json_ascii (hd p)
      else if DecodeRune p = (RuneError, 1) then bytes [CHR 0x5C, CHR ''u'', CHR ''f'', CHR ''f'', CHR ''f'', CHR ''d'']
      else if take 3 p = bs_line_sep then bytes [CHR 0x5C, CHR ''u'', CHR ''2'', CHR ''0'', CHR ''2'', CHR ''8'']
      else if take 3 p = bs_para_sep then bytes [CHR 0x5C, CHR ''u'', CHR ''2'', CHR ''0'', CHR ''2'', CHR ''9'']
      else take (snd (DecodeRune p)) p)"

function json_text :: "byte list \<Rightarrow> byte list" where
  "json_text p = (if p = [] then [] else json_rune p @ json_text (drop (snd (DecodeRune p)) p))"
  by pat_completeness auto
termination
proof (relation "measure length", goal_cases)
  case (2 p)
  with DecodeRune_size [of p] have "1 \<le> snd (DecodeRune p)" "p \<noteq> []" by auto
  then show ?case by (cases p) auto
qed simp

declare json_text.simps [simp del]

definition json_quote :: "string \<Rightarrow> string" where
  "json_quote s = string_of (quotech # json_text (bytes s) @ [quotech])"

subsection \<open>Objects\<close>

datatype json_value = JStr string | JInt int | JBool bool

definition json_int :: "int \<Rightarrow> string" where
  "json_int n = (if n < 0 then CHR ''-'' # Itoa (nat (- n)) else Itoa (nat n))"

fun json_render :: "json_value \<Rightarrow> string" where
  "json_render (JStr s) = json_quote s"
| "json_render (JInt n) = json_int n"
| "json_render (JBool v) = (if v then ''true'' else ''false'')"

text \<open>Every field that is there, with a comma before it, then the closing brace.\<close>

fun json_fields :: "(string \<times> json_value option) list \<Rightarrow> string" where
  "json_fields [] = ''}''"
| "json_fields ((n, None) # fs) = json_fields fs"
| "json_fields ((n, Some v) # fs) = '','' @ json_quote n @ '':'' @ json_render v @ json_fields fs"

definition json_object :: "(string \<times> json_value option) list \<Rightarrow> string" where
  "json_object fs = ''{'' @ (if \<exists>f \<in> set fs. snd f \<noteq> None then tl (json_fields fs) else json_fields fs)"

text \<open>\<open>omitempty\<close> on a string.\<close>

definition omit_empty :: "string \<Rightarrow> json_value option" where
  "omit_empty s = (if s = [] then None else Some (JStr s))"

subsection \<open>The code is a prefix code\<close>

text \<open>Every rune that is not copied, with what is written for it.\<close>

definition json_escapes :: "(byte list \<times> byte list) list" where
  "json_escapes = map (\<lambda>a. ([a], json_ascii a)) (filter (\<lambda>a. \<not> json_safe a) (map of_nat [0..<128]))
     @ [(bs_line_sep, bytes [CHR 0x5C, CHR ''u'', CHR ''2'', CHR ''0'', CHR ''2'', CHR ''8'']),
        (bs_para_sep, bytes [CHR 0x5C, CHR ''u'', CHR ''2'', CHR ''0'', CHR ''2'', CHR ''9''])]"

lemma json_escapes_shape:
  "list_all (\<lambda>(k, c). take 1 c = [backslash] \<and> length c = (if c ! 1 = 0x75 then 6 else 2)) json_escapes"
  by code_simp

lemma json_escapes_distinct: "distinct (map (map uint \<circ> snd) json_escapes)"
  by code_simp

lemma escape_head: "(k, c) \<in> set json_escapes \<Longrightarrow> c \<noteq> [] \<and> hd c = backslash"
  using json_escapes_shape by (cases c) (auto simp: list_all_iff)

lemma escape_unique:
  assumes k: "(k, c) \<in> set json_escapes" "(k', c') \<in> set json_escapes" and eq: "c @ u = c' @ v"
  shows "k = k' \<and> u = v"
proof -
  have sh: "length c = (if c ! 1 = 0x75 then 6 else 2)" "length c' = (if c' ! 1 = 0x75 then 6 else 2)"
    using json_escapes_shape k by (auto simp: list_all_iff)
  then have "1 < length c" "1 < length c'" by (auto split: if_splits)
  then have "c ! 1 = c' ! 1" using eq by (metis nth_append)
  then have "length c = length c'" using sh by simp
  then have c: "c = c'" "u = v" using eq by simp_all
  have "inj_on (map uint \<circ> snd) (set json_escapes)" using json_escapes_distinct by (simp add: distinct_map)
  from inj_onD [OF this _ k] have "(k, c) = (k', c')" using c by simp
  then show ?thesis using c by simp
qed

lemma DecodeRune_length:
  assumes "p \<noteq> []" "DecodeRune p \<noteq> (RuneError, 1)"
  shows "snd (DecodeRune p) = fst (utf8_first (unat (hd p)))"
proof -
  obtain a ps where c: "p = a # ps" using assms(1) by (cases p) simp_all
  obtain sz lo up where f: "utf8_first (unat a) = (sz, lo, up)" by (cases "utf8_first (unat a)") simp
  have "sz \<in> {1, 2, 3, 4}" using f by (simp add: utf8_first_def split: if_splits)
  moreover obtain r where r: "map unat ps = r" by simp
  ultimately show ?thesis using assms(2)
    by (cases r; cases "tl r"; cases "tl (tl r)") (auto simp: c f r DecodeRune_def split: if_splits)
qed

lemma below_128: "unat (a :: byte) < 128 \<Longrightarrow> a \<in> of_nat ` set [0..<128]"
  by (rule image_eqI [of _ _ "unat a"]) simp_all

lemma json_rune_cases:
  assumes p: "p \<noteq> []" "DecodeRune p \<noteq> (RuneError, 1)"
  obtains "json_rune p = take (snd (DecodeRune p)) p" "hd p \<noteq> backslash"
  | "(take (snd (DecodeRune p)) p, json_rune p) \<in> set json_escapes"
proof (cases "unat (hd p) < 0x80")
  case True
  then have n: "snd (DecodeRune p) = 1" using DecodeRune_length [OF p] by (simp add: utf8_first_def)
  have t: "take 1 p = [hd p]" using p by (cases p) simp_all
  show thesis
  proof (cases "json_safe (hd p)")
    case True
    then show thesis using \<open>unat (hd p) < 0x80\<close> by (intro that(1)) (simp_all add: json_rune_def json_ascii_def n t json_safe_def del: One_nat_def)
  next
    case False
    then show thesis using below_128 \<open>unat (hd p) < 0x80\<close>
      by (intro that(2)) (auto simp: json_rune_def json_escapes_def n t simp del: One_nat_def)
  qed
next
  case False
  then have h: "hd p \<noteq> backslash" by auto
  have n: "snd (DecodeRune p) = 3" if "take 3 p = bs_line_sep \<or> take 3 p = bs_para_sep"
  proof -
    have "hd p = 0xE2" using that p by (cases p) auto
    then show ?thesis using DecodeRune_length [OF p] by (simp add: utf8_first_def)
  qed
  consider "take 3 p = bs_line_sep" | "take 3 p = bs_para_sep" | "take 3 p \<noteq> bs_line_sep" "take 3 p \<noteq> bs_para_sep" by blast
  then show thesis
  proof cases
    case 1
    then show thesis using n False p by (intro that(2)) (simp add: json_rune_def json_escapes_def)
  next
    case 2
    then show thesis using n False p by (intro that(2)) (simp add: json_rune_def json_escapes_def)
  next
    case 3
    then show thesis using False p h by (intro that(1)) (simp_all add: json_rune_def)
  qed
qed

lemma json_rune_unique:
  assumes p: "p \<noteq> []" "DecodeRune p \<noteq> (RuneError, 1)" and q: "q \<noteq> []" "DecodeRune q \<noteq> (RuneError, 1)"
    and eq: "json_rune p @ u = json_rune q @ v"
  shows "take (snd (DecodeRune p)) p = take (snd (DecodeRune q)) q \<and> u = v"
proof -
  have ne: "r \<noteq> [] \<Longrightarrow> take (snd (DecodeRune r)) r \<noteq> [] \<and> hd (take (snd (DecodeRune r)) r) = hd r" for r
    using DecodeRune_size [of r] by (cases r) auto
  show ?thesis
  proof (cases rule: json_rune_cases [OF p])
    case 1
    show ?thesis
    proof (cases rule: json_rune_cases [OF q])
      case q1: 1
      have h: "hd p = hd q" using eq ne [OF p(1)] ne [OF q(1)] by (metis 1(1) q1(1) hd_append2)
      then have n: "snd (DecodeRune p) = snd (DecodeRune q)" by (simp add: DecodeRune_length [OF p] DecodeRune_length [OF q])
      then have "length (take (snd (DecodeRune p)) p) = length (take (snd (DecodeRune q)) q)"
        using DecodeRune_size [OF p(1)] DecodeRune_size [OF q(1)] by simp
      then show ?thesis using eq by (simp add: 1(1) q1(1))
    next
      case 2
      then show ?thesis using eq ne [OF p(1)] 1 escape_head [OF 2] by (metis hd_append2)
    qed
  next
    case 2
    show ?thesis
    proof (cases rule: json_rune_cases [OF q])
      case 1
      then show ?thesis using eq ne [OF q(1)] 2 escape_head [OF 2] by (metis hd_append2)
    next
      case q2: 2
      then show ?thesis using escape_unique [OF 2 q2 eq] by simp
    qed
  qed
qed

lemma json_rune_head: "p \<noteq> [] \<Longrightarrow> DecodeRune p \<noteq> (RuneError, 1) \<Longrightarrow> json_rune p \<noteq> [] \<and> hd (json_rune p) \<noteq> quotech"
proof -
  assume p: "p \<noteq> []" "DecodeRune p \<noteq> (RuneError, 1)"
  have ne: "take (snd (DecodeRune p)) p \<noteq> [] \<and> hd (take (snd (DecodeRune p)) p) = hd p"
    using DecodeRune_size [of p] p by (cases p) auto
  show ?thesis
  proof (cases rule: json_rune_cases [OF p])
    case 1
    have "hd p \<noteq> quotech"
    proof
      assume h: "hd p = quotech"
      then have "json_rune p = [backslash, quotech]" by (simp add: json_rune_def json_ascii_def json_safe_def)
      then show False using 1 ne h by (metis list.sel(1))
    qed
    then show ?thesis using 1 ne by simp
  next
    case 2
    then show ?thesis using escape_head [OF 2] by simp
  qed
qed

lemma utf8_Valid_step: "p \<noteq> [] \<Longrightarrow> utf8_Valid p \<Longrightarrow> DecodeRune p \<noteq> (RuneError, 1) \<and> utf8_Valid (drop (snd (DecodeRune p)) p)"
  by (auto simp: utf8_Valid_def runes.simps [of p])

lemma json_text_unique:
  "utf8_Valid p \<Longrightarrow> utf8_Valid q \<Longrightarrow> json_text p @ quotech # u = json_text q @ quotech # v \<Longrightarrow> p = q \<and> u = v"
proof (induction p arbitrary: q rule: json_text.induct)
  case (1 p)
  have head: "quotech # x \<noteq> json_text r @ y" if "r \<noteq> []" "utf8_Valid r" for r x y
  proof
    assume "quotech # x = json_text r @ y"
    then have "hd (json_rune r) = quotech"
      using json_rune_head [OF that(1) conjunct1 [OF utf8_Valid_step [OF that]]] that(1)
      by (simp add: json_text.simps [of r]) (metis hd_append2 list.sel(1))
    then show False using json_rune_head [OF that(1) conjunct1 [OF utf8_Valid_step [OF that]]] by simp
  qed
  have empty: "json_text [] = []" by (simp add: json_text.simps)
  show ?case
  proof (cases "p = [] \<or> q = []")
    case True
    then consider "p = []" "q = []" | "p = []" "q \<noteq> []" | "p \<noteq> []" "q = []" by blast
    then show ?thesis
    proof cases
      case 1
      then show ?thesis using \<open>json_text p @ quotech # u = json_text q @ quotech # v\<close> by simp
    next
      case 2
      then show ?thesis using head [OF 2(2) \<open>utf8_Valid q\<close>] \<open>json_text p @ quotech # u = json_text q @ quotech # v\<close> empty by simp
    next
      case 3
      then show ?thesis using head [OF 3(1) \<open>utf8_Valid p\<close>, of v "quotech # u"] \<open>json_text p @ quotech # u = json_text q @ quotech # v\<close> empty by simp
    qed
  next
    case False
    then have ne: "p \<noteq> []" "q \<noteq> []" by simp_all
    note vp = utf8_Valid_step [OF ne(1) 1(2)] and vq = utf8_Valid_step [OF ne(2) 1(3)]
    let ?p = "drop (snd (DecodeRune p)) p" and ?q = "drop (snd (DecodeRune q)) q"
    have "json_rune p @ (json_text ?p @ quotech # u) = json_rune q @ (json_text ?q @ quotech # v)"
      using 1(4) ne by (simp add: json_text.simps [of p] json_text.simps [of q])
    note r = json_rune_unique [OF ne(1) conjunct1 [OF vp] ne(2) conjunct1 [OF vq] this]
    then have "?p = ?q \<and> u = v" using 1(1) [OF ne(1) conjunct2 [OF vp] conjunct2 [OF vq]] by blast
    then show ?thesis using r by (metis append_take_drop_id)
  qed
qed

lemma json_quote_unique:
  assumes "utf8_Valid (bytes s)" "utf8_Valid (bytes t)" "json_quote s @ u = json_quote t @ v"
  shows "s = t \<and> u = v"
proof -
  have "bytes (json_quote s @ u) = bytes (json_quote t @ v)" using assms(3) by simp
  then have "json_text (bytes s) @ quotech # bytes u = json_text (bytes t) @ quotech # bytes v" by (simp add: json_quote_def)
  then have "bytes s = bytes t \<and> bytes u = bytes v" by (rule json_text_unique [OF assms(1,2)])
  then show ?thesis by (metis string_of_bytes)
qed

subsection \<open>Objects of one struct\<close>

definition int_char :: "char \<Rightarrow> bool" where
  "int_char c \<longleftrightarrow> digit c \<or> c = CHR ''-''"

lemma json_int_chars: "list_all int_char (json_int n)"
  using Itoa_digits by (auto simp: json_int_def int_char_def list_all_iff)

lemma json_int_unique: "json_int n = json_int m \<Longrightarrow> n = m"
proof -
  assume eq: "json_int n = json_int m"
  have d: "\<exists>c r. Itoa k = c # r \<and> c \<noteq> CHR ''-''" for k
    using Itoa_digits [of k] by (cases "Itoa k") (auto simp: digit_def ascii_between_def)
  have i: "Itoa k = Itoa l \<longleftrightarrow> k = l" for k l using Itoa_digits by metis
  have "n < 0 \<longleftrightarrow> m < 0" using eq d [of "nat n"] d [of "nat m"] by (auto simp: json_int_def split: if_splits)
  then show ?thesis using eq by (simp add: json_int_def i split: if_splits)
qed

lemma json_int_tail:
  assumes "json_int n @ c # u = json_int m @ d # v" "\<not> int_char c" "\<not> int_char d"
  shows "n = m \<and> c # u = d # v"
proof -
  have t: "takeWhile int_char (json_int k @ e # w) = json_int k" if "\<not> int_char e" for k e w
    using json_int_chars [of k] that by (simp add: takeWhile_append2 list_all_iff)
  have "json_int n = json_int m" using assms t by metis
  then show ?thesis using assms(1) json_int_unique by auto
qed

text \<open>Two documents of one struct: the same fields, each of one type, with strings that are UTF-8.\<close>

fun same_field :: "string \<times> json_value option \<Rightarrow> string \<times> json_value option \<Rightarrow> bool" where
  "same_field (n, Some (JStr s)) (m, Some (JStr t)) \<longleftrightarrow> n = m \<and> utf8_Valid (bytes s) \<and> utf8_Valid (bytes t)"
| "same_field (n, Some (JInt a)) (m, Some (JInt b)) \<longleftrightarrow> n = m"
| "same_field (n, Some (JBool a)) (m, Some (JBool b)) \<longleftrightarrow> n = m"
| "same_field (n, None) (m, v) \<longleftrightarrow> n = m"
| "same_field (n, v) (m, None) \<longleftrightarrow> n = m"
| "same_field _ _ \<longleftrightarrow> False"

lemma same_field_name: "same_field f g \<Longrightarrow> fst f = fst g"
  by (cases "(f, g)" rule: same_field.cases) auto

lemma json_fields_head: "\<exists>c u. json_fields fs = c # u \<and> c \<in> {CHR ''}'', CHR '',''}"
  by (induction fs rule: json_fields.induct) simp_all

lemma json_fields_start:
  "json_fields fs = ''}'' \<or> (\<exists>n u. json_fields fs = '','' @ json_quote n @ u \<and> n \<in> fst ` set fs)"
  by (induction fs rule: json_fields.induct) auto

lemma json_render_tail:
  assumes "same_field (n, Some v) (n, Some w)" "json_render v @ json_fields fs = json_render w @ json_fields gs"
  shows "v = w \<and> json_fields fs = json_fields gs"
proof -
  obtain c u d z where h: "json_fields fs = c # u" "json_fields gs = d # z"
    and cd: "c \<in> {CHR ''}'', CHR '',''}" "d \<in> {CHR ''}'', CHR '',''}"
    using json_fields_head by metis
  have n: "\<not> int_char c" "\<not> int_char d" using cd by (auto simp: int_char_def digit_def ascii_between_def)
  show ?thesis
  proof (cases v)
    case (JStr s)
    then obtain t where w: "w = JStr t" using assms(1) by (cases w) simp_all
    have "s = t \<and> json_fields fs = json_fields gs" by (rule json_quote_unique) (use assms in \<open>simp_all add: JStr w\<close>)
    then show ?thesis by (simp add: JStr w)
  next
    case (JInt a)
    then obtain b where w: "w = JInt b" using assms(1) by (cases w) simp_all
    then show ?thesis using assms(2) json_int_tail n by (simp add: JInt h)
  next
    case (JBool a)
    then obtain b where w: "w = JBool b" using assms(1) by (cases w) simp_all
    then show ?thesis using assms(2) by (simp add: JBool split: if_splits)
  qed
qed

lemma json_fields_unique:
  assumes "list_all2 same_field fs gs" "distinct (map fst fs)" "\<forall>f \<in> set fs. utf8_Valid (bytes (fst f))"
    "json_fields fs = json_fields gs"
  shows "fs = gs"
  using assms
proof (induction rule: list_all2_induct)
  case (Cons f fs g gs)
  obtain n v w where f: "f = (n, v)" "g = (n, w)" using same_field_name [OF Cons.hyps(1)] by (metis prod.collapse)
  have names: "fst ` set gs = fst ` set fs"
    using Cons.hyps(2) by (induction rule: list_all2_induct) (auto dest: same_field_name)
  have no: "json_fields hs \<noteq> '','' @ json_quote n @ u" if hs: "fst ` set hs = fst ` set fs" for hs u
  proof
    assume a: "json_fields hs = '','' @ json_quote n @ u"
    then obtain m z where m: "json_fields hs = '','' @ json_quote m @ z" "m \<in> fst ` set fs"
      using json_fields_start [of hs] hs by auto
    then have "utf8_Valid (bytes m)" "utf8_Valid (bytes n)" using Cons.prems(2) f by auto
    moreover have "json_quote m @ z = json_quote n @ u" using a m(1) by simp
    ultimately have "m = n" using json_quote_unique by blast
    then show False using Cons.prems(1) m(2) f by (auto simp: image_iff)
  qed
  have IH: "json_fields fs = json_fields gs \<Longrightarrow> fs = gs" using Cons.IH Cons.prems by simp
  show ?case
  proof (cases v)
    case None
    show ?thesis
    proof (cases w)
      case (Some b)
      then show ?thesis using Cons.prems(3) no [OF refl, of "'':'' @ json_render b @ json_fields gs"] by (simp add: f None)
    qed (use Cons.prems(3) IH in \<open>simp add: f None\<close>)
  next
    case (Some a)
    show ?thesis
    proof (cases w)
      case None
      then show ?thesis using Cons.prems(3) no [OF names, of "'':'' @ json_render a @ json_fields fs"] by (simp add: f Some)
    next
      case s: (Some b)
      have "json_render a @ json_fields fs = json_render b @ json_fields gs" using Cons.prems(3) by (simp add: f Some s)
      then show ?thesis using json_render_tail [of n a b] Cons.hyps(1) IH by (simp add: f Some s)
    qed
  qed
qed simp

lemma json_object_unique:
  assumes fs: "list_all2 same_field fs gs" "distinct (map fst fs)" "\<forall>f \<in> set fs. utf8_Valid (bytes (fst f))"
    and some: "\<exists>f \<in> set fs. snd f \<noteq> None" "\<exists>g \<in> set gs. snd g \<noteq> None"
    and eq: "json_object fs = json_object gs"
  shows "fs = gs"
proof -
  have "json_fields hs = CHR '','' # tl (json_fields hs)" if "\<exists>f \<in> set hs. snd f \<noteq> None" for hs
    using that by (induction hs rule: json_fields.induct) auto
  from this [OF some(1)] this [OF some(2)] have "json_fields fs = json_fields gs"
    using eq some by (simp add: json_object_def)
  then show ?thesis by (rule json_fields_unique [OF fs])
qed

end
