(* ===== verification/WebOps.thy ===== *)
theory WebOps
  imports GoJson
begin

text \<open>
  The operations a WebFetch caller can ask for (\<open>src/internal/webfetch/handler.go\<close>):
  how a query string is read as one, the canonical JSON document whose hash identifies it,
  how long it may run, and what its state looks like to somebody who polls. A query is
  Go's \<open>url.Values\<close>; the wording of a refusal is output only, so an error says which
  check refused, with the parameter it names.
\<close>

definition MaxURLBytes :: nat where [go_defs]: "MaxURLBytes = 8192"
definition MaxOutputBytes :: nat where [go_defs]: "MaxOutputBytes = 32768"
definition MaxWriteBytes :: nat where [go_defs]: "MaxWriteBytes = 2048"
definition web_maxReadLines :: int where [go_defs]: "web_maxReadLines = 1048576"
definition maxLineNumber :: int where [go_defs]: "maxLineNumber = 2147483647"
definition MaxExecSeconds :: int where [go_defs]: "MaxExecSeconds = 14400"
definition DefaultExecSeconds :: int where [go_defs]: "DefaultExecSeconds = 300"
definition MaxFileSeconds :: int where [go_defs]: "MaxFileSeconds = 60"
definition DefaultFileSeconds :: int where [go_defs]: "DefaultFileSeconds = 30"
definition staleGrace :: duration where [go_defs]: "staleGrace = 90 * Second"

subsection \<open>Operations\<close>

record operation =
  o_tool :: string
  o_target :: string
  o_command :: string
  o_cwd :: string
  o_path :: string
  o_content :: string
  o_offset :: "int option"
  o_limit :: "int option"
  o_old :: string
  o_new :: string
  o_all :: "bool option"
  o_sha :: string
  o_timeout :: "int option"

definition new_operation :: "string \<Rightarrow> string \<Rightarrow> operation" where
  "new_operation tool target = \<lparr>o_tool = tool, o_target = target, o_command = [], o_cwd = [], o_path = [],
     o_content = [], o_offset = None, o_limit = None, o_old = [], o_new = [], o_all = None, o_sha = [], o_timeout = None\<rparr>"

definition timeoutBounds :: "string \<Rightarrow> int \<times> int" where
  "timeoutBounds tool =
     (if tool = ''exec'' then (MaxExecSeconds, DefaultExecSeconds) else (MaxFileSeconds, DefaultFileSeconds))"

definition op_timeout :: "operation \<Rightarrow> int" where
  "op_timeout p = (case o_timeout p of Some n \<Rightarrow> n | None \<Rightarrow> snd (timeoutBounds (o_tool p)))"

definition effectiveDeadline :: "gotime \<Rightarrow> int \<Rightarrow> gotime \<Rightarrow> gotime" where
  "effectiveDeadline created timeout grantExpiry =
     (let deadline = created + timeout * Second
      in if \<not> IsZero grantExpiry \<and> grantExpiry < deadline then grantExpiry else deadline)"

definition jobState :: "string \<Rightarrow> gotime \<Rightarrow> gotime \<Rightarrow> string" where
  "jobState state now deadline =
     (if state \<noteq> ''running'' \<and> state \<noteq> ''queued'' then state
      else if now > deadline + staleGrace then ''unknown''
      else state)"

text \<open>
  \<open>json.Marshal\<close> of an operation: the document that is stored with a job, and whose hash
  says whether a request with the same id asks for the same thing.
\<close>

definition op_fields :: "operation \<Rightarrow> (string \<times> json_value option) list" where
  "op_fields p =
     [(''tool'', Some (JStr (o_tool p))), (''target'', Some (JStr (o_target p))),
      (''command'', omit_empty (o_command p)), (''cwd'', omit_empty (o_cwd p)), (''path'', omit_empty (o_path p)),
      (''content'', omit_empty (o_content p)),
      (''offset'', map_option JInt (o_offset p)), (''limit'', map_option JInt (o_limit p)),
      (''old'', omit_empty (o_old p)), (''new'', omit_empty (o_new p)),
      (''all'', map_option JBool (o_all p)), (''expected_sha256'', omit_empty (o_sha p)),
      (''timeout_seconds'', map_option JInt (o_timeout p))]"

definition op_payload :: "operation \<Rightarrow> string" where
  "op_payload p = json_object (op_fields p)"

subsection \<open>Reading a query\<close>

type_synonym url_values = "(string \<times> string list) list"

definition Values_Get :: "url_values \<Rightarrow> string \<Rightarrow> string" where
  "Values_Get q key = (case map_of q key of Some (v # vs) \<Rightarrow> v | _ \<Rightarrow> [])"

definition Values_Has :: "url_values \<Rightarrow> string \<Rightarrow> bool" where
  "Values_Has q key \<longleftrightarrow> map_of q key \<noteq> None"

datatype op_error =
    BadRid | BadTarget | BadCommand | BadPath | BadContent | BadLine string | BadOld | BadNew | BadAll | BadSHA
  | UnknownTool | BadTimeout | UnknownParameter string

definition ContainsAny :: "string \<Rightarrow> char set \<Rightarrow> bool" where
  "ContainsAny s cs \<longleftrightarrow> list_ex (\<lambda>c. c \<in> cs) s"

abbreviation NUL :: char where "NUL \<equiv> CHR 0x00"
abbreviation CR :: char where "CR \<equiv> CHR 0x0D"
abbreviation LF :: char where "LF \<equiv> CHR 0x0A"

definition ridPattern :: "string \<Rightarrow> bool" where
  "ridPattern s \<longleftrightarrow> 1 \<le> length s \<and> length s \<le> 64 \<and> list_all id_char s"

definition sha256Pattern :: "string \<Rightarrow> bool" where
  "sha256Pattern s \<longleftrightarrow> length s = 64
     \<and> list_all (\<lambda>c. digit c \<or> ascii_between CHR ''a'' CHR ''f'' c \<or> ascii_between CHR ''A'' CHR ''F'' c) s"

definition lineParam :: "url_values \<Rightarrow> string \<Rightarrow> int \<Rightarrow> op_error + int option" where
  "lineParam q key ceiling =
     (if \<not> Values_Has q key then Inr None
      else case Atoi (Values_Get q key) of
        None \<Rightarrow> Inl (BadLine key)
      | Some n \<Rightarrow> if n < 1 \<or> n > ceiling then Inl (BadLine key) else Inr (Some n))"

text \<open>The part of an operation that its tool reads, and the parameters the tool adds.\<close>

definition parse_exec :: "url_values \<Rightarrow> operation \<Rightarrow> op_error + operation" where
  "parse_exec q p =
     (let p = p\<lparr>o_command := Values_Get q ''command'', o_cwd := Values_Get q ''cwd''\<rparr>
      in if o_command p = [] \<or> length (o_command p) > 2048 \<or> length (o_cwd p) > 1024
            \<or> ContainsAny (o_command p @ o_cwd p) {NUL}
         then Inl BadCommand else Inr p)"

definition parse_write :: "url_values \<Rightarrow> operation \<Rightarrow> op_error + operation" where
  "parse_write q p =
     (let p = p\<lparr>o_content := Values_Get q ''content''\<rparr>
      in if \<not> Values_Has q ''content'' \<or> length (o_content p) > MaxWriteBytes \<or> \<not> utf8_Valid (bytes (o_content p))
         then Inl BadContent else Inr p)"

definition parse_read :: "url_values \<Rightarrow> operation \<Rightarrow> op_error + operation" where
  "parse_read q p =
     (case lineParam q ''offset'' maxLineNumber of Inl e \<Rightarrow> Inl e | Inr offset \<Rightarrow>
      (case lineParam q ''limit'' web_maxReadLines of Inl e \<Rightarrow> Inl e | Inr limit \<Rightarrow>
         Inr (p\<lparr>o_offset := offset, o_limit := limit\<rparr>)))"

definition parse_edit :: "url_values \<Rightarrow> operation \<Rightarrow> op_error + operation" where
  "parse_edit q p =
     (let p = p\<lparr>o_old := Values_Get q ''old'', o_new := Values_Get q ''new''\<rparr> in
      if o_old p = [] \<or> \<not> utf8_Valid (bytes (o_old p)) \<or> NUL \<in> set (o_old p) then Inl BadOld
      else if \<not> Values_Has q ''new'' \<or> \<not> utf8_Valid (bytes (o_new p)) \<or> NUL \<in> set (o_new p) then Inl BadNew
      else if Values_Has q ''all'' \<and> Values_Get q ''all'' \<noteq> ''true'' \<and> Values_Get q ''all'' \<noteq> ''false'' then Inl BadAll
      else
       (let p = (if Values_Has q ''all'' then p\<lparr>o_all := Some (Values_Get q ''all'' = ''true'')\<rparr> else p)
        in if \<not> Values_Has q ''expected_sha256'' then Inr p
           else if \<not> sha256Pattern (Values_Get q ''expected_sha256'') then Inl BadSHA
           else Inr (p\<lparr>o_sha := Values_Get q ''expected_sha256''\<rparr>)))"

definition common_params :: "string list" where
  "common_params = [''rid'', ''tool'', ''target'', ''format'', ''timeout_seconds'']"

definition tool_params :: "string \<Rightarrow> string list" where
  "tool_params tool =
     (if tool = ''exec'' then [''command'', ''cwd'']
      else ''path'' #
       (if tool = ''write_text'' then [''content'']
        else if tool = ''read_text'' then [''offset'', ''limit'']
        else [''old'', ''new'', ''all'', ''expected_sha256'']))"

definition parse_tool :: "url_values \<Rightarrow> operation \<Rightarrow> op_error + operation" where
  "parse_tool q p =
     (if o_tool p = ''exec'' then parse_exec q p
      else if o_tool p \<in> {''write_text'', ''read_text'', ''edit_text''} then
       (let p = p\<lparr>o_path := Values_Get q ''path''\<rparr> in
        if o_path p = [] \<or> length (o_path p) > 1024 \<or> ContainsAny (o_path p) {NUL} then Inl BadPath
        else if o_tool p = ''write_text'' then parse_write q p
        else if o_tool p = ''read_text'' then parse_read q p
        else parse_edit q p)
      else Inl UnknownTool)"

definition parse_timeout :: "url_values \<Rightarrow> operation \<Rightarrow> op_error + operation" where
  "parse_timeout q p =
     (let value = Values_Get q ''timeout_seconds'' in
      if value = [] then Inr p
      else case Atoi value of
        None \<Rightarrow> Inl BadTimeout
      | Some n \<Rightarrow> if n < 1 \<or> n > fst (timeoutBounds (o_tool p)) then Inl BadTimeout else Inr (p\<lparr>o_timeout := Some n\<rparr>))"

definition valid_target :: "string \<Rightarrow> bool" where
  "valid_target t \<longleftrightarrow> length t \<le> 200 \<and> \<not> ContainsAny t {CR, LF, NUL} \<and> count_list t CHR ''/'' = 1
     \<and> \<not> HasPrefix t ''/'' \<and> \<not> HasSuffix t ''/''"

definition parseOperation :: "url_values \<Rightarrow> op_error + operation" where
  "parseOperation q =
     (let p = new_operation (Values_Get q ''tool'') (Values_Get q ''target'') in
      if \<not> ridPattern (Values_Get q ''rid'') then Inl BadRid
      else if \<not> valid_target (o_target p) then Inl BadTarget
      else case parse_tool q p of Inl e \<Rightarrow> Inl e | Inr p \<Rightarrow>
       (case parse_timeout q p of Inl e \<Rightarrow> Inl e | Inr p \<Rightarrow>
         (case find (\<lambda>(k, _). k \<notin> set (common_params @ tool_params (o_tool p))) q of
            Some (k, _) \<Rightarrow> Inl (UnknownParameter k)
          | None \<Rightarrow> Inr p)))"

subsection \<open>The payload identifies the operation\<close>

definition op_utf8 :: "operation \<Rightarrow> bool" where
  "op_utf8 p \<longleftrightarrow> list_all (\<lambda>s. utf8_Valid (bytes s))
     [o_tool p, o_target p, o_command p, o_cwd p, o_path p, o_content p, o_old p, o_new p, o_sha p]"

lemma omit_same: "utf8_Valid (bytes s) \<Longrightarrow> utf8_Valid (bytes t) \<Longrightarrow> same_field (n, omit_empty s) (n, omit_empty t)"
  by (simp add: omit_empty_def)

lemma int_same: "same_field (n, map_option JInt a) (n, map_option JInt c)"
  by (cases a; cases c) simp_all

lemma bool_same: "same_field (n, map_option JBool a) (n, map_option JBool c)"
  by (cases a; cases c) simp_all

lemma op_fields_same: "op_utf8 p \<Longrightarrow> op_utf8 q \<Longrightarrow> list_all2 same_field (op_fields p) (op_fields q)"
  by (simp add: op_fields_def op_utf8_def omit_same int_same bool_same)

lemma op_field_names: "distinct (map fst (op_fields p)) \<and> (\<forall>f \<in> set (op_fields p). utf8_Valid (bytes (fst f)))"
  by (simp add: op_fields_def ascii_valid)

lemma omit_unique: "omit_empty s = omit_empty t \<Longrightarrow> s = t"
  by (simp add: omit_empty_def split: if_splits)

lemma number_unique: "map_option JInt a = map_option JInt c \<Longrightarrow> a = c"
  by (cases a; cases c) simp_all

lemma flag_unique: "map_option JBool a = map_option JBool c \<Longrightarrow> a = c"
  by (cases a; cases c) simp_all

lemma op_fields_unique: "op_fields p = op_fields q \<Longrightarrow> p = q"
  by (intro operation.equality) (auto simp: op_fields_def dest: omit_unique number_unique flag_unique)

lemma op_payload_unique: "op_utf8 p \<Longrightarrow> op_utf8 q \<Longrightarrow> op_payload p = op_payload q \<Longrightarrow> p = q"
proof (rule op_fields_unique, rule json_object_unique)
  assume "op_utf8 p" "op_utf8 q"
  then show "list_all2 same_field (op_fields p) (op_fields q)" by (rule op_fields_same)
qed (use op_field_names [of p] in \<open>simp_all add: op_payload_def op_fields_def\<close>)

text \<open>
  Without it the document does not: two commands that are not UTF-8 can have the same.
\<close>

lemma invalid_commands_share_a_payload:
  "op_payload ((new_operation ''exec'' ''a/b'')\<lparr>o_command := [CHR 0xFE]\<rparr>) = op_payload ((new_operation ''exec'' ''a/b'')\<lparr>o_command := [CHR 0xFF]\<rparr>)"
proof -
  have "DecodeRune [0xFE] = (RuneError, 1) \<and> DecodeRune [0xFF] = (RuneError, 1)" by (simp add: DecodeRune_def utf8_first_def)
  then have "json_text [0xFE] = json_text [0xFF]" by (simp add: json_text.simps [of "[0xFE]"] json_text.simps [of "[0xFF]"] json_rune_def)
  moreover have "bytes [CHR 0xFE] = [0xFE] \<and> bytes [CHR 0xFF] = [0xFF]" by (simp add: bytes_def byte_of_def)
  ultimately show ?thesis by (simp add: op_payload_def op_fields_def new_operation_def omit_empty_def json_object_def json_quote_def)
qed

end
