(* ===== verification/LineRange.thy ===== *)
theory LineRange
  imports FileEdit
begin

text \<open>
  \<open>src/internal/server/fileops.go\<close>, \<open>readLineRange\<close>: a range of lines out of a file that
  arrives in pieces of any size. \<open>int\<close> is Go's 64-bit \<open>int\<close>; only the last line number asked
  for can wrap, so its wrap-around is written out.
\<close>

definition MaxReadBytes :: int where "MaxReadBytes = 256 * 2 ^ 10"
definition DefaultReadLines :: int where "DefaultReadLines = 2000"
definition maxReadLines :: int where "maxReadLines = 2 ^ 20"
definition MaxInt :: int where "MaxInt = 2 ^ 63 - 1"

definition wrap64 :: "int \<Rightarrow> int" where
  "wrap64 x = (x + 2 ^ 63) mod 2 ^ 64 - 2 ^ 63"

definition newline :: byte where "newline = 10"

record collector =
  lc_from :: int
  lc_to :: int
  lc_line :: int
  lc_first :: int
  lc_last :: int
  lc_truncated :: bool
  lc_done :: bool
  lc_longLine :: int
  lc_out :: "byte list"
  lc_pending :: "byte list"
  lc_pendingLen :: int

definition buffer_piece :: "byte list \<Rightarrow> collector \<Rightarrow> collector" where
  "buffer_piece piece c =
     (let room = MaxReadBytes - int (length (lc_pending c));
          c = (if room > 0 then c\<lparr>lc_pending := lc_pending c @ take (min (length piece) (nat room)) piece\<rparr> else c)
      in c\<lparr>lc_pendingLen := lc_pendingLen c + int (length piece)\<rparr>)"

definition commitLine :: "collector \<Rightarrow> collector" where
  "commitLine c =
     (let room = MaxReadBytes - int (length (lc_out c));
          c = (if lc_pendingLen c \<le> room then
                 c\<lparr>lc_out := lc_out c @ lc_pending c, lc_first := (if lc_first c = 0 then lc_line c else lc_first c),
                   lc_last := lc_line c\<rparr>
               else if length (lc_out c) = 0 then
                 c\<lparr>lc_out := lc_out c @ trimCutRune (lc_pending c), lc_first := lc_line c, lc_last := lc_line c,
                   lc_longLine := lc_line c, lc_truncated := True, lc_done := True\<rparr>
               else c\<lparr>lc_truncated := True, lc_done := True\<rparr>)
      in c\<lparr>lc_pending := [], lc_pendingLen := 0\<rparr>)"

definition wanted :: "collector \<Rightarrow> bool" where
  "wanted c \<longleftrightarrow> \<not> lc_done c \<and> lc_line c \<ge> lc_from c \<and> lc_line c \<le> lc_to c"

definition cut_line :: "byte list \<Rightarrow> (byte list \<times> byte list) option" where
  "cut_line chunk =
     (if newline \<in> set chunk
      then Some (takeWhile (\<lambda>b. b \<noteq> newline) chunk @ [newline], tl (dropWhile (\<lambda>b. b \<noteq> newline) chunk)) else None)"

lemma cut_line_split: "cut_line chunk = Some (piece, rest) \<Longrightarrow> chunk = piece @ rest \<and> length rest < length chunk"
proof -
  assume c: "cut_line chunk = Some (piece, rest)"
  then have n: "newline \<in> set chunk" by (auto simp: cut_line_def split: if_splits)
  then obtain ys where d: "dropWhile (\<lambda>b. b \<noteq> newline) chunk = newline # ys"
    by (metis (mono_tags, lifting) dropWhile_eq_Nil_conv hd_dropWhile list.exhaust_sel)
  then have "chunk = takeWhile (\<lambda>b. b \<noteq> newline) chunk @ newline # ys" by (metis takeWhile_dropWhile_id)
  then have "chunk = piece @ rest" "piece \<noteq> []" using c n d by (auto simp: cut_line_def)
  then show ?thesis by (cases piece) auto
qed

function feed :: "byte list \<Rightarrow> collector \<Rightarrow> collector" where
  "feed chunk c =
     (if chunk = [] then c
      else case cut_line chunk of
        None \<Rightarrow> (if wanted c then buffer_piece chunk c else c)
      | Some (piece, rest) \<Rightarrow>
          (let c = (if wanted c then commitLine (buffer_piece piece c) else c)
           in feed rest (c\<lparr>lc_line := lc_line c + 1\<rparr>)))"
  by pat_completeness auto

termination
  by (relation "measure (length \<circ> fst)") (auto dest: cut_line_split)

declare feed.simps [simp del]

definition finish :: "collector \<Rightarrow> collector" where
  "finish c = (if \<not> lc_done c \<and> lc_pendingLen c > 0 then commitLine c else c)"

definition new_collector :: "int \<Rightarrow> int \<Rightarrow> collector" where
  "new_collector frm to = \<lparr>lc_from = frm, lc_to = to, lc_line = 1, lc_first = 0, lc_last = 0, lc_truncated = False,
     lc_done = False, lc_longLine = 0, lc_out = [], lc_pending = [], lc_pendingLen = 0\<rparr>"

text \<open>What is kept beside the lines: the size, the first bytes, the last byte, all bytes for the hash.\<close>

record read_state =
  rd_collector :: collector
  rd_sum :: "byte list"
  rd_size :: int
  rd_sniff :: "byte list"
  rd_lastByte :: byte

definition read_piece :: "byte list \<Rightarrow> read_state \<Rightarrow> read_state" where
  "read_piece chunk s =
     (if chunk = [] then s
      else s\<lparr>rd_sum := rd_sum s @ chunk, rd_size := rd_size s + int (length chunk),
             rd_sniff := (if length (rd_sniff s) < sniffLen
                          then rd_sniff s @ take (min (length chunk) (sniffLen - length (rd_sniff s))) chunk
                          else rd_sniff s),
             rd_lastByte := last chunk, rd_collector := feed chunk (rd_collector s)\<rparr>)"

definition clamp_range :: "int \<Rightarrow> int \<Rightarrow> int \<times> int" where
  "clamp_range offset lim =
     (let offset = (if offset \<le> 0 then 1 else offset);
          lim = (if lim \<le> 0 then DefaultReadLines else lim);
          lim = (if lim > maxReadLines then maxReadLines else lim);
          to = wrap64 (offset + lim - 1);
          to = (if to < offset then MaxInt else to)
      in (offset, to))"

datatype read_error = ReadFailed string | ErrNotText

text \<open>The reads end with \<open>EOF\<close> or an error; each one before gave a piece of the file.\<close>

definition readLineRange :: "byte list list \<Rightarrow> string option \<Rightarrow> int \<Rightarrow> int \<Rightarrow> read_error + file_result" where
  "readLineRange pieces failed offset lim =
     (let (frm, to) = clamp_range offset lim;
          s = foldl (\<lambda>s chunk. read_piece chunk s) \<lparr>rd_collector = new_collector frm to, rd_sum = [], rd_size = 0,
                rd_sniff = [], rd_lastByte = 0\<rparr> pieces
      in case failed of
           Some why \<Rightarrow> Inl (ReadFailed why)
         | None \<Rightarrow>
            (let c = finish (rd_collector s) in
             if \<not> isText (rd_sniff s) (rd_size s) then Inl ErrNotText
             else if \<not> utf8_Valid (lc_out c) then Inl ErrNotText
             else
              (let total = lc_line c - 1;
                   total = (if rd_size s > 0 \<and> rd_lastByte s \<noteq> newline then total + 1 else total)
               in Inr (no_result\<lparr>fr_content := string_of (lc_out c), fr_totalLines := total, fr_firstLine := lc_first c,
                    fr_lastLine := lc_last c, fr_truncated := lc_truncated c, fr_longLine := lc_longLine c,
                    fr_size := rd_size s, fr_sha := hex_EncodeToString (sha256_Sum256 (rd_sum s))\<rparr>))))"

end
