(* ===== verification/WebResults.thy ===== *)
theory WebResults
  imports WebOps LineRange
begin

text \<open>
  How an operation's result is cut to what one WebFetch response may carry, and how a
  failure is classified (\<open>src/internal/webfetch/handler.go\<close>). A result is the record of
  the keys the code sets; \<open>execution_started\<close> is a key only ever set to \<open>false\<close>. An
  instruction is which text it is. The chain of an error is the record of what
  \<open>errors.As\<close> finds in it, beside its text.
\<close>

subsection \<open>Bounded text\<close>

definition trimPartialRune :: "byte list \<Rightarrow> byte list" where
  "trimPartialRune p = cut_back 3 p"

text \<open>The loop of \<open>boundedText\<close> takes a byte away each time, so the length is fuel enough.\<close>

definition boundedText :: "string \<Rightarrow> nat \<Rightarrow> string" where
  "boundedText text limit =
     (if length text \<le> limit then text
      else (let t = take limit text in string_of (cut_back (length t) (bytes t)) @ '' [truncated]''))"

record boundedOutput =
  bo_buffer :: "byte list"
  bo_limit :: nat
  bo_truncated :: bool
  bo_cancelled :: bool

definition bo_new :: "nat \<Rightarrow> boundedOutput" where
  "bo_new limit = \<lparr>bo_buffer = [], bo_limit = limit, bo_truncated = False, bo_cancelled = False\<rparr>"

definition bo_Write :: "byte list \<Rightarrow> boundedOutput \<Rightarrow> nat \<times> boundedOutput" where
  "bo_Write p bo =
     (let n = length p; remaining = int (bo_limit bo) - int (length (bo_buffer bo)) in
      if int n > remaining
      then (n, bo\<lparr>bo_truncated := True, bo_cancelled := True,
                  bo_buffer := (if remaining > 0 then bo_buffer bo @ take (nat remaining) p else bo_buffer bo)\<rparr>)
      else (n, bo\<lparr>bo_buffer := bo_buffer bo @ p\<rparr>))"

subsection \<open>A read that fits\<close>

datatype instruction = UnknownOutcome | LineTooLong int | ContinueAt int | AgentTooOld | PairFirst | EditRefused | ReadRefused

record web_result =
  wr_ok :: bool
  wr_error :: "string option"
  wr_error_code :: "string option"
  wr_not_started :: bool
  wr_instruction :: "instruction option"
  wr_content :: "string option"
  wr_lines :: "(int \<times> int \<times> int) option"
  wr_size :: "int option"
  wr_sha :: "string option"
  wr_truncated :: "bool option"
  wr_long_line :: "int option"
  wr_next_offset :: "int option"
  wr_occurrences :: "nat option"
  wr_pairing :: "string option"
  wr_stdout :: "byte list option"
  wr_stderr :: "byte list option"
  wr_exit :: "int option"
  wr_count :: "nat option"
  wr_replaced :: "nat option"

definition web_result0 :: web_result where
  "web_result0 = \<lparr>wr_ok = False, wr_error = None, wr_error_code = None, wr_not_started = False, wr_instruction = None,
     wr_content = None, wr_lines = None, wr_size = None, wr_sha = None, wr_truncated = None, wr_long_line = None,
     wr_next_offset = None, wr_occurrences = None, wr_pairing = None,
     wr_stdout = None, wr_stderr = None, wr_exit = None, wr_count = None, wr_replaced = None\<rparr>"

definition LastIndexByte :: "string \<Rightarrow> char \<Rightarrow> nat option" where
  "LastIndexByte s c = (if c \<in> set s then Some (length s - 1 - length (takeWhile (\<lambda>x. x \<noteq> c) (rev s))) else None)"

definition fit_content :: "file_result \<Rightarrow> string \<times> int \<times> bool \<times> int" where
  "fit_content res =
     (if length (fr_content res) > MaxOutputBytes then
       (case LastIndexByte (take MaxOutputBytes (fr_content res)) LF of
          Some brk \<Rightarrow>
            (let content = take (brk + 1) (take MaxOutputBytes (fr_content res))
             in (content, fr_firstLine res + int (count_list content LF) - 1, True, 0))
        | None \<Rightarrow>
            (string_of (trimPartialRune (bytes (take MaxOutputBytes (fr_content res)))), fr_firstLine res, True, fr_firstLine res))
      else (fr_content res, fr_lastLine res, fr_truncated res, fr_longLine res))"

definition fitRead :: "file_result \<Rightarrow> web_result \<Rightarrow> web_result" where
  "fitRead res out =
     (let (content, last, truncated, longLine) = fit_content res;
          out = out\<lparr>wr_content := Some content, wr_lines := Some (fr_totalLines res, fr_firstLine res, last),
                    wr_size := Some (fr_size res), wr_sha := Some (fr_sha res), wr_truncated := Some truncated\<rparr>
      in if longLine \<noteq> 0 then out\<lparr>wr_long_line := Some longLine, wr_instruction := Some (LineTooLong longLine)\<rparr>
         else if truncated then out\<lparr>wr_next_offset := Some (last + 1), wr_instruction := Some (ContinueAt (last + 1))\<rparr>
         else out)"

subsection \<open>Failures\<close>

record client_error =
  ce_text :: string
  ce_rejected :: "(string \<times> string) option"
  ce_untrusted :: bool
  ce_refused :: "file_result option option"
  ce_unsupported :: bool

definition refusalInstruction :: "string \<Rightarrow> instruction" where
  "refusalInstruction tool = (if tool = ''edit_text'' then EditRefused else ReadRefused)"

definition lost_edit :: string where
  "lost_edit = ''the device session ended without an reply_with to this edit''"

text \<open>\<open>ownerLink\<close> says whether a link is the portal's own (\<open>net/url\<close>'s parser).\<close>

definition recordFailure ::
  "(string \<Rightarrow> bool) \<Rightarrow> string \<Rightarrow> client_error \<Rightarrow> web_result \<Rightarrow> string \<times> web_result" where
  "recordFailure ownerLink tool err result =
     (let result = result\<lparr>wr_error := Some (boundedText (ce_text err) 4096)\<rparr>;
          tooOld = (ce_unsupported err \<and> tool \<noteq> ''edit_text'');
          decided = (ce_rejected err \<noteq> None \<or> ce_untrusted err \<or> ce_refused err \<noteq> None \<or> tooOld);
          lost = (\<not> decided \<and> tool \<noteq> ''read_text'');
          result = (if lost then result\<lparr>wr_instruction := Some UnknownOutcome\<rparr> else result);
          result = (if ce_unsupported err \<and> \<not> tooOld then result\<lparr>wr_error := Some lost_edit\<rparr> else result);
          result = (case ce_refused err of
              None \<Rightarrow> result
            | Some r \<Rightarrow>
               (let result = result\<lparr>wr_error_code := Some ''file_refused'', wr_not_started := True\<rparr>;
                    result = (case r of None \<Rightarrow> result | Some r \<Rightarrow>
                       result\<lparr>wr_sha := (if fr_sha r \<noteq> [] then Some (fr_sha r) else wr_sha result),
                              wr_size := (if fr_size r \<noteq> 0 then Some (fr_size r) else wr_size result),
                              wr_occurrences := (if fr_occurrences r \<noteq> 0 then Some (fr_occurrences r) else wr_occurrences result)\<rparr>)
                in result\<lparr>wr_instruction := Some (refusalInstruction tool)\<rparr>));
          result = (if tooOld then result\<lparr>wr_error_code := Some ''device_agent_too_old'', wr_not_started := True,
                                           wr_instruction := Some AgentTooOld\<rparr> else result);
          result = (case ce_rejected err of
              None \<Rightarrow> result
            | Some (reason, pairing) \<Rightarrow>
               (let result = result\<lparr>wr_error := Some (boundedText reason 4096)\<rparr> in
                if length pairing \<le> 2048 \<and> ownerLink pairing
                then result\<lparr>wr_pairing := Some pairing, wr_error_code := Some ''pairing_required'', wr_not_started := True,
                            wr_instruction := Some PairFirst\<rparr>
                else result))
      in (if lost then ''unknown'' else ''failed'', result))"

text \<open>\<open>value\<close> and \<open>flag\<close>: what an absent parameter stands for when the device is asked.\<close>

definition int_value :: "int option \<Rightarrow> int" where
  "int_value n = (case n of None \<Rightarrow> 0 | Some n \<Rightarrow> n)"

definition flag :: "bool option \<Rightarrow> bool" where
  "flag p = (p = Some True)"

subsection \<open>What became of an operation\<close>

text \<open>
  What the client library reports of an operation on a device: what the command wrote, in
  the pieces it came in, its exit code, the answer to a file operation, an error, or a
  panic on the way.
\<close>

record device_outcome =
  do_panic :: bool
  do_error :: "client_error option"
  do_stdout :: "byte list list"
  do_stderr :: "byte list list"
  do_code :: int
  do_file :: file_result

definition bo_Writes :: "byte list list \<Rightarrow> boundedOutput \<Rightarrow> boundedOutput" where
  "bo_Writes ps bo = foldl (\<lambda>bo p. snd (bo_Write p bo)) bo ps"

definition tool_result :: "operation \<Rightarrow> device_outcome \<Rightarrow> web_result \<Rightarrow> web_result" where
  "tool_result p out result =
     (if o_tool p = ''exec'' then
       (let stdout = bo_Writes (do_stdout out) (bo_new (MaxOutputBytes div 2));
            stderr = bo_Writes (do_stderr out) (bo_new (MaxOutputBytes div 2))
        in result\<lparr>wr_stdout := Some (bo_buffer stdout), wr_stderr := Some (bo_buffer stderr), wr_exit := Some (do_code out),
                  wr_truncated := Some (bo_truncated stdout \<or> bo_truncated stderr)\<rparr>)
      else if o_tool p = ''write_text'' then
        result\<lparr>wr_count := Some (length (o_content p)), wr_sha := Some (sha256Hex (o_content p))\<rparr>
      else if o_tool p = ''read_text'' then (if do_error out = None then fitRead (do_file out) result else result)
      else if o_tool p = ''edit_text'' then
       (if do_error out = None
        then result\<lparr>wr_replaced := Some (fr_replaced (do_file out)), wr_sha := Some (fr_sha (do_file out)),
                    wr_size := Some (fr_size (do_file out))\<rparr>
        else result)
      else result)"

definition operation_outcome :: "(string \<Rightarrow> bool) \<Rightarrow> operation \<Rightarrow> device_outcome \<Rightarrow> string \<times> web_result" where
  "operation_outcome ownerLink p out =
     (if do_panic out
      then (''unknown'', web_result0\<lparr>wr_error := Some ''internal adapter failure; outcome unknown'',
                                      wr_instruction := Some UnknownOutcome\<rparr>)
      else
       (let result = tool_result p out web_result0 in
        case do_error out of
          Some err \<Rightarrow> recordFailure ownerLink (o_tool p) err result
        | None \<Rightarrow> (''done'', result\<lparr>wr_ok := True\<rparr>)))"

end
