(* ===== verification/LineProps.thy ===== *)
theory LineProps
  imports LineRange
begin

text \<open>
  What a reader of a file relies on. However the file is cut into pieces, the answer is
  the one for the file as a whole: whole lines from the one asked for on, as many as
  fit, and reading on from the line after the last one misses and repeats nothing.
\<close>

subsection \<open>The pieces do not matter\<close>

lemma cut_line_None: "cut_line chunk = None \<longleftrightarrow> newline \<notin> set chunk"
  by (simp add: cut_line_def)

lemma cut_line_left:
  assumes "cut_line a = Some (piece, rest)"
  shows "cut_line (a @ b) = Some (piece, rest @ b)"
proof -
  have n: "newline \<in> set a" using assms by (auto simp: cut_line_def split: if_splits)
  then have "dropWhile (\<lambda>b. b \<noteq> newline) a \<noteq> []" by simp
  then have "tl (dropWhile (\<lambda>b. b \<noteq> newline) (a @ b)) = tl (dropWhile (\<lambda>b. b \<noteq> newline) a) @ b"
    using n by (simp add: dropWhile_append1)
  moreover have "takeWhile (\<lambda>b. b \<noteq> newline) (a @ b) = takeWhile (\<lambda>b. b \<noteq> newline) a"
    using n by (simp add: takeWhile_append1)
  ultimately show ?thesis using assms n by (simp add: cut_line_def)
qed

lemma cut_line_right:
  assumes "cut_line a = None"
  shows "cut_line (a @ b) = map_option (\<lambda>(piece, rest). (a @ piece, rest)) (cut_line b)"
proof -
  have "\<forall>x \<in> set a. x \<noteq> newline" using assms by (auto simp: cut_line_None)
  then show ?thesis by (auto simp: cut_line_def takeWhile_append2 dropWhile_append2)
qed

definition held_ok :: "collector \<Rightarrow> bool" where
  "held_ok c \<longleftrightarrow> int (length (lc_pending c)) \<le> MaxReadBytes"

lemma buffer_fields [simp]:
  "lc_from (buffer_piece p c) = lc_from c" "lc_to (buffer_piece p c) = lc_to c" "lc_line (buffer_piece p c) = lc_line c"
  "lc_first (buffer_piece p c) = lc_first c" "lc_last (buffer_piece p c) = lc_last c" "lc_done (buffer_piece p c) = lc_done c"
  "lc_truncated (buffer_piece p c) = lc_truncated c" "lc_longLine (buffer_piece p c) = lc_longLine c"
  "lc_out (buffer_piece p c) = lc_out c" "lc_pendingLen (buffer_piece p c) = lc_pendingLen c + int (length p)"
  "wanted (buffer_piece p c) = wanted c"
  by (simp_all add: buffer_piece_def Let_def wanted_def)

lemma buffer_pending:
  "held_ok c \<Longrightarrow> lc_pending (buffer_piece p c) = take (nat MaxReadBytes) (lc_pending c @ p)"
proof -
  assume h: "held_ok c"
  have n: "nat (MaxReadBytes - int (length (lc_pending c))) = nat MaxReadBytes - length (lc_pending c)"
    by (simp add: nat_diff_distrib' MaxReadBytes_def)
  have t: "take (min (length p) k) p = take k p" for k by (simp add: min_def)
  show ?thesis
    using h unfolding buffer_piece_def Let_def n t by (auto simp: held_ok_def MaxReadBytes_def)
qed

lemma buffer_held: "held_ok c \<Longrightarrow> held_ok (buffer_piece p c)"
  by (simp add: held_ok_def buffer_pending MaxReadBytes_def)

lemma buffer_append: "held_ok c \<Longrightarrow> buffer_piece b (buffer_piece a c) = buffer_piece (a @ b) c"
proof -
  assume h: "held_ok c"
  have "lc_pending (buffer_piece b (buffer_piece a c)) = lc_pending (buffer_piece (a @ b) c)"
    unfolding buffer_pending [OF buffer_held [OF h]] buffer_pending [OF h] by (simp add: min_def)
  then show ?thesis by (intro collector.equality) simp_all
qed

lemma commit_held [simp]: "held_ok (commitLine c)"
  by (simp add: commitLine_def Let_def held_ok_def MaxReadBytes_def)

lemma feed_Nil [simp]: "feed [] c = c"
  by (simp add: feed.simps)

lemma feed_append: "held_ok c \<Longrightarrow> feed b (feed a c) = feed (a @ b) c"
proof (induction a c rule: feed.induct)
  case (1 a c)
  show ?case
  proof (cases "a = [] \<or> b = []")
    case False
    show ?thesis
    proof (cases "cut_line a")
      case None
      have a: "feed a c = (if wanted c then buffer_piece a c else c)" using None False by (subst feed.simps) simp
      show ?thesis
        using False None 1(2) unfolding a
        by (subst (1 2) feed.simps) (auto simp: cut_line_right buffer_append split: option.split)
    next
      case (Some pr)
      obtain piece rest where pr: "pr = (piece, rest)" by (rule prod.exhaust)
      let ?c = "if wanted c then commitLine (buffer_piece piece c) else c"
      have h: "held_ok (?c\<lparr>lc_line := lc_line ?c + 1\<rparr>)" using 1(2) commit_held by (simp add: held_ok_def)
      have "feed b (feed rest (?c\<lparr>lc_line := lc_line ?c + 1\<rparr>)) = feed (rest @ b) (?c\<lparr>lc_line := lc_line ?c + 1\<rparr>)"
        by (rule 1(1) [OF _ Some pr [symmetric] refl h]) (use False in simp)
      moreover have "feed a c = feed rest (?c\<lparr>lc_line := lc_line ?c + 1\<rparr>)"
        using False Some pr by (subst feed.simps) (simp add: Let_def)
      moreover have "feed (a @ b) c = feed (rest @ b) (?c\<lparr>lc_line := lc_line ?c + 1\<rparr>)"
        using False cut_line_left [OF Some [unfolded pr], of b] by (subst feed.simps) (simp add: Let_def)
      ultimately show ?thesis by simp
    qed
  qed auto
qed

subsection \<open>Lines\<close>

function file_lines :: "byte list \<Rightarrow> byte list list" where
  "file_lines b =
     (if b = [] then [] else case cut_line b of None \<Rightarrow> [b] | Some (piece, rest) \<Rightarrow> piece # file_lines rest)"
  by pat_completeness auto

termination
  by (relation "measure length") (auto dest: cut_line_split)

declare file_lines.simps [simp del]

lemma file_lines_Nil [simp]: "file_lines [] = []"
  by (simp add: file_lines.simps)

lemma concat_file_lines [simp]: "concat (file_lines b) = b"
proof (induction b rule: file_lines.induct)
  case (1 b)
  then show ?case
    by (subst file_lines.simps) (auto split: option.split dest: cut_line_split)
qed

lemma file_lines_nonempty: "l \<in> set (file_lines b) \<Longrightarrow> l \<noteq> []"
proof (induction b rule: file_lines.induct)
  case (1 b)
  show ?case
  proof (cases "b = [] \<or> cut_line b = None")
    case True
    then show ?thesis using 1(2) by (subst (asm) file_lines.simps) (auto split: if_splits)
  next
    case False
    then obtain piece rest where c: "b \<noteq> []" "cut_line b = Some (piece, rest)" by auto
    then have "piece \<noteq> []" by (auto simp: cut_line_def split: if_splits)
    moreover have "l = piece \<or> l \<in> set (file_lines rest)"
      using 1(2) c by (subst (asm) file_lines.simps) simp
    ultimately show ?thesis using 1(1) [OF c refl] by blast
  qed
qed

definition collect :: "byte list \<Rightarrow> collector \<Rightarrow> collector" where
  "collect l c = (if wanted c then commitLine (buffer_piece l c) else c)\<lparr>lc_line := lc_line c + 1\<rparr>"

definition settled_collector :: "collector \<Rightarrow> bool" where
  "settled_collector c \<longleftrightarrow> lc_pending c = [] \<and> lc_pendingLen c = 0"

lemma commit_fields [simp]:
  "lc_from (commitLine c) = lc_from c" "lc_to (commitLine c) = lc_to c" "lc_line (commitLine c) = lc_line c"
  "lc_pending (commitLine c) = []" "lc_pendingLen (commitLine c) = 0"
  by (simp_all add: commitLine_def Let_def)

lemma collect_fields [simp]:
  "lc_from (collect l c) = lc_from c" "lc_to (collect l c) = lc_to c" "lc_line (collect l c) = lc_line c + 1"
  "settled_collector c \<Longrightarrow> settled_collector (collect l c)"
  by (simp_all add: collect_def settled_collector_def)

text \<open>Feeding a file and finishing is taking its lines one after another.\<close>

lemma finish_feed:
  assumes "settled_collector c"
  shows "(finish (feed b c))\<lparr>lc_line := lc_line (feed b c) + (if b \<noteq> [] \<and> last b \<noteq> newline then 1 else 0)\<rparr>
    = foldl (\<lambda>c l. collect l c) c (file_lines b)"
  using assms
proof (induction b c rule: feed.induct)
  case (1 b c)
  have fin: "finish c = c" using 1(2) by (simp add: finish_def settled_collector_def)
  show ?case
  proof (cases "b = []")
    case False
    show ?thesis
    proof (cases "cut_line b")
      case None
      then have "newline \<notin> set b" by (simp add: cut_line_None)
      then have "last b \<noteq> newline" using False by (metis last_in_set)
      moreover have "feed b c = (if wanted c then buffer_piece b c else c)" using None False by (subst feed.simps) simp
      moreover have "file_lines b = [b]" using None False by (subst file_lines.simps) simp
      moreover have "finish (buffer_piece b c) = commitLine (buffer_piece b c)" if "wanted c"
        using that False 1(2) by (simp add: finish_def settled_collector_def wanted_def)
      ultimately show ?thesis using False fin by (simp add: collect_def)
    next
      case (Some pr)
      obtain piece rest where pr: "pr = (piece, rest)" by (rule prod.exhaust)
      let ?c = "if wanted c then commitLine (buffer_piece piece c) else c"
      have c: "?c\<lparr>lc_line := lc_line ?c + 1\<rparr> = collect piece c" by (simp add: collect_def)
      have "piece = takeWhile (\<lambda>b. b \<noteq> newline) b @ [newline]"
        using Some pr by (simp add: cut_line_def split: if_splits)
      then have "b = piece @ rest" "piece \<noteq> []" "last piece = newline"
        using Some pr cut_line_split [of b piece rest] by simp_all
      then have l: "(b \<noteq> [] \<and> last b \<noteq> newline) = (rest \<noteq> [] \<and> last rest \<noteq> newline)"
        by (cases "rest = []") auto
      have f: "feed b c = feed rest (collect piece c)"
        using False Some pr by (subst feed.simps) (simp add: Let_def c)
      have fl: "file_lines b = piece # file_lines rest" using False Some pr by (subst file_lines.simps) simp
      have h: "settled_collector (?c\<lparr>lc_line := lc_line ?c + 1\<rparr>)" unfolding c using 1(2) by simp
      note ih = 1(1) [OF False Some pr [symmetric] refl h]
      show ?thesis using ih unfolding c f fl l by simp
    qed
  qed (simp add: fin)
qed

text \<open>What has been taken after the lines \<open>ls\<close>: everything wanted, a part that fits, or one line that never does.\<close>

definition took_all :: "nat \<Rightarrow> nat \<Rightarrow> byte list list \<Rightarrow> collector \<Rightarrow> bool" where
  "took_all frm to ls c \<longleftrightarrow>
     \<not> lc_done c \<and> \<not> lc_truncated c \<and> lc_longLine c = 0
     \<and> lc_out c = concat (drop (frm - 1) (take (min (length ls) to) ls)) \<and> int (length (lc_out c)) \<le> MaxReadBytes
     \<and> lc_first c = (if frm \<le> min (length ls) to then int frm else 0)
     \<and> lc_last c = (if frm \<le> min (length ls) to then int (min (length ls) to) else 0)"

definition took_part :: "nat \<Rightarrow> nat \<Rightarrow> byte list list \<Rightarrow> collector \<Rightarrow> bool" where
  "took_part frm to ls c \<longleftrightarrow>
     lc_done c \<and> lc_truncated c \<and> lc_longLine c = 0
     \<and> (\<exists>k. frm \<le> k \<and> k < min (length ls) to \<and> lc_first c = int frm \<and> lc_last c = int k
          \<and> lc_out c = concat (drop (frm - 1) (take k ls)) \<and> int (length (lc_out c)) \<le> MaxReadBytes
          \<and> int (length (lc_out c) + length (ls ! k)) > MaxReadBytes)"

definition took_prefix :: "nat \<Rightarrow> nat \<Rightarrow> byte list list \<Rightarrow> collector \<Rightarrow> bool" where
  "took_prefix frm to ls c \<longleftrightarrow>
     lc_done c \<and> lc_truncated c \<and> lc_longLine c = int frm \<and> lc_first c = int frm \<and> lc_last c = int frm
     \<and> frm \<le> min (length ls) to \<and> int (length (ls ! (frm - 1))) > MaxReadBytes
     \<and> lc_out c = trimCutRune (take (nat MaxReadBytes) (ls ! (frm - 1)))"

lemma concat_from_nonempty:
  assumes "\<forall>l \<in> set ls. l \<noteq> []" "0 < frm" "frm \<le> length ls"
  shows "concat (drop (frm - 1) ls) \<noteq> []"
proof -
  have "drop (frm - 1) ls \<noteq> []" using assms(2,3) by simp
  then obtain l rest where "drop (frm - 1) ls = l # rest" by (cases "drop (frm - 1) ls") auto
  moreover then have "l \<in> set ls" by (metis in_set_dropD list.set_intros(1))
  ultimately show ?thesis using assms(1) by simp
qed

text \<open>One line: taken whole, taken as a prefix, or left for the next read.\<close>

lemma collect_one:
  assumes "wanted c" "settled_collector c"
  shows "collect l c =
    (if int (length l) \<le> MaxReadBytes - int (length (lc_out c)) then
       c\<lparr>lc_out := lc_out c @ l, lc_first := (if lc_first c = 0 then lc_line c else lc_first c), lc_last := lc_line c,
         lc_line := lc_line c + 1\<rparr>
     else if lc_out c = [] then
       c\<lparr>lc_out := trimCutRune (take (nat MaxReadBytes) l), lc_first := lc_line c, lc_last := lc_line c,
         lc_longLine := lc_line c, lc_truncated := True, lc_done := True, lc_line := lc_line c + 1\<rparr>
     else c\<lparr>lc_truncated := True, lc_done := True, lc_line := lc_line c + 1\<rparr>)"
proof -
  have b: "lc_pending (buffer_piece l c) = take (nat MaxReadBytes) l" "lc_pendingLen (buffer_piece l c) = int (length l)"
    using assms(2) buffer_pending [of c l] by (simp_all add: settled_collector_def held_ok_def MaxReadBytes_def)
  have p: "take (nat MaxReadBytes) l = l" if "int (length l) \<le> MaxReadBytes - int (length (lc_out c))"
    using that by simp
  have s: "lc_pending c = []" "lc_pendingLen c = 0" using assms(2) by (simp_all add: settled_collector_def)
  show ?thesis
    using assms(1) p s unfolding collect_def commitLine_def Let_def
    by (intro collector.equality) (auto simp: b)
qed

lemma collect_unwanted: "\<not> wanted c \<Longrightarrow> collect l c = c\<lparr>lc_line := lc_line c + 1\<rparr>"
  by (simp add: collect_def)

lemma collected_step:
  assumes "0 < frm" "frm \<le> to" "l \<noteq> []" "\<forall>x \<in> set ls. x \<noteq> []"
    and c: "lc_from c = int frm" "lc_to c = int to" "lc_line c = int (length ls) + 1" "settled_collector c"
    and "took_all frm to ls c \<or> took_part frm to ls c \<or> took_prefix frm to ls c"
  shows "took_all frm to (ls @ [l]) (collect l c) \<or> took_part frm to (ls @ [l]) (collect l c)
      \<or> took_prefix frm to (ls @ [l]) (collect l c)"
  using assms(9)
proof (elim disjE)
  assume "took_part frm to ls c"
  then have "took_part frm to (ls @ [l]) (collect l c)"
    by (subst collect_unwanted) (auto simp: took_part_def wanted_def nth_append)
  then show ?thesis by blast
next
  assume "took_prefix frm to ls c"
  then have "took_prefix frm to (ls @ [l]) (collect l c)"
    using assms(1) by (subst collect_unwanted) (auto simp: took_prefix_def wanted_def nth_append)
  then show ?thesis by blast
next
  assume a: "took_all frm to ls c"
  show ?thesis
  proof (cases "wanted c")
    case False
    then have "length ls + 1 < frm \<or> to < length ls + 1" using a c by (auto simp: took_all_def wanted_def)
    then have "took_all frm to (ls @ [l]) (collect l c)"
      using a assms(1,2) unfolding collect_unwanted [OF False] by (auto simp: took_all_def)
    then show ?thesis ..
  next
    case w: True
    then have n: "frm \<le> length ls + 1" "length ls + 1 \<le> to" using c by (auto simp: wanted_def)
    have m: "min (length ls) to = length ls" "min (length (ls @ [l])) to = Suc (length ls)"
      "take (Suc (length ls)) (ls @ [l]) = ls @ [l]" using n(2) by simp_all
    have out: "lc_out c = concat (drop (frm - 1) ls)" "int (length (lc_out c)) \<le> MaxReadBytes"
      "lc_first c = (if frm \<le> length ls then int frm else 0)" "\<not> lc_done c" "\<not> lc_truncated c" "lc_longLine c = 0"
      using a unfolding took_all_def m by (simp, blast, simp, blast+)
    have d: "drop (frm - 1) (ls @ [l]) = drop (frm - 1) ls @ [l]" using n(1) by simp
    note one = collect_one [OF w c(4), of l]
    consider (fit) "int (length l) \<le> MaxReadBytes - int (length (lc_out c))"
      | (part) "\<not> int (length l) \<le> MaxReadBytes - int (length (lc_out c))" "lc_out c \<noteq> []"
      | (long) "\<not> int (length l) \<le> MaxReadBytes - int (length (lc_out c))" "lc_out c = []"
      by blast
    then show ?thesis
    proof cases
      case fit
      then have "collect l c = c\<lparr>lc_out := lc_out c @ l, lc_first := (if lc_first c = 0 then lc_line c else lc_first c),
          lc_last := lc_line c, lc_line := lc_line c + 1\<rparr>"
        using one by simp
      then have "took_all frm to (ls @ [l]) (collect l c)"
        using fit n(1) out assms(1) c(3) unfolding took_all_def m d by auto
      then show ?thesis ..
    next
      case part
      then have "frm \<le> length ls" using out(1) by (cases "frm \<le> length ls") auto
      then have f: "lc_first c = int frm" "lc_last c = int (length ls)" using a unfolding took_all_def m(1) by simp_all
      have "collect l c = c\<lparr>lc_truncated := True, lc_done := True, lc_line := lc_line c + 1\<rparr>" using one part by simp
      moreover have "int (length (lc_out c) + length ((ls @ [l]) ! length ls)) > MaxReadBytes" using part(1) by simp
      ultimately have "took_part frm to (ls @ [l]) (collect l c)"
        using f out(1,2,6) \<open>frm \<le> length ls\<close> m(2) unfolding took_part_def
        by (intro conjI exI [of _ "length ls"]) simp_all
      then show ?thesis by blast
    next
      case long
      then have "\<not> frm \<le> length ls" using concat_from_nonempty [OF assms(4,1)] out(1) by auto
      then have f: "frm = Suc (length ls)" using n(1) by simp
      then have "took_prefix frm to (ls @ [l]) (collect l c)"
        using long one c(3) n unfolding took_prefix_def by auto
      then show ?thesis by blast
    qed
  qed
qed

lemma collected:
  assumes "0 < frm" "frm \<le> to" "\<forall>l \<in> set ls. l \<noteq> []"
  shows "lc_from (foldl (\<lambda>c l. collect l c) (new_collector (int frm) (int to)) ls) = int frm
    \<and> lc_to (foldl (\<lambda>c l. collect l c) (new_collector (int frm) (int to)) ls) = int to
    \<and> lc_line (foldl (\<lambda>c l. collect l c) (new_collector (int frm) (int to)) ls) = int (length ls) + 1
    \<and> settled_collector (foldl (\<lambda>c l. collect l c) (new_collector (int frm) (int to)) ls)
    \<and> (took_all frm to ls (foldl (\<lambda>c l. collect l c) (new_collector (int frm) (int to)) ls)
       \<or> took_part frm to ls (foldl (\<lambda>c l. collect l c) (new_collector (int frm) (int to)) ls)
       \<or> took_prefix frm to ls (foldl (\<lambda>c l. collect l c) (new_collector (int frm) (int to)) ls))"
  using assms(3)
proof (induction ls rule: rev_induct)
  case Nil
  have "took_all frm to [] (new_collector (int frm) (int to))"
    using assms(1) by (simp add: took_all_def new_collector_def MaxReadBytes_def)
  then show ?case by (simp add: new_collector_def settled_collector_def)
next
  case (snoc l ls)
  then show ?case using collected_step [OF assms(1,2), of l ls] by simp
qed

subsection \<open>Reading\<close>

lemma clamp_range_bounds:
  assumes "clamp_range offset lim = (frm, to)" "offset \<le> MaxInt"
  shows "1 \<le> frm" "frm \<le> to" "offset \<ge> 1 \<Longrightarrow> frm = offset"
proof -
  let ?lim = "if (if lim \<le> 0 then DefaultReadLines else lim) > maxReadLines then maxReadLines
    else if lim \<le> 0 then DefaultReadLines else lim"
  have l: "1 \<le> ?lim" by (simp add: DefaultReadLines_def maxReadLines_def)
  have f: "frm = (if offset \<le> 0 then 1 else offset)"
    "to = (if wrap64 (frm + ?lim - 1) < frm then MaxInt else wrap64 (frm + ?lim - 1))"
    using assms(1) unfolding clamp_range_def Let_def by auto
  show "1 \<le> frm" "offset \<ge> 1 \<Longrightarrow> frm = offset" using f(1) by auto
  have "frm \<le> MaxInt" using f(1) assms(2) by (simp add: MaxInt_def)
  then show "frm \<le> to" unfolding f(2) by auto
qed

lemma held_line [simp]: "held_ok (c\<lparr>lc_line := n\<rparr>) = held_ok c"
  by (simp add: held_ok_def)

lemma feed_held: "held_ok c \<Longrightarrow> held_ok (feed b c)"
proof (induction b c rule: feed.induct)
  case (1 b c)
  then show ?case
    by (subst feed.simps) (auto simp: Let_def buffer_held split: option.split)
qed

lemma read_piece_Nil [simp]: "read_piece [] s = s"
  by (simp add: read_piece_def)

lemma read_pieces:
  assumes "held_ok (rd_collector s)" "length (rd_sniff s) \<le> sniffLen"
  shows "rd_collector (foldl (\<lambda>s chunk. read_piece chunk s) s pieces) = feed (concat pieces) (rd_collector s)"
    and "rd_sum (foldl (\<lambda>s chunk. read_piece chunk s) s pieces) = rd_sum s @ concat pieces"
    and "rd_size (foldl (\<lambda>s chunk. read_piece chunk s) s pieces) = rd_size s + int (length (concat pieces))"
    and "rd_sniff (foldl (\<lambda>s chunk. read_piece chunk s) s pieces) = take sniffLen (rd_sniff s @ concat pieces)"
    and "rd_lastByte (foldl (\<lambda>s chunk. read_piece chunk s) s pieces) = (if concat pieces = [] then rd_lastByte s else last (concat pieces))"
proof -
  have "rd_collector (foldl (\<lambda>s chunk. read_piece chunk s) s pieces) = feed (concat pieces) (rd_collector s)
    \<and> rd_sum (foldl (\<lambda>s chunk. read_piece chunk s) s pieces) = rd_sum s @ concat pieces
    \<and> rd_size (foldl (\<lambda>s chunk. read_piece chunk s) s pieces) = rd_size s + int (length (concat pieces))
    \<and> rd_sniff (foldl (\<lambda>s chunk. read_piece chunk s) s pieces) = take sniffLen (rd_sniff s @ concat pieces)
    \<and> rd_lastByte (foldl (\<lambda>s chunk. read_piece chunk s) s pieces) = (if concat pieces = [] then rd_lastByte s else last (concat pieces))"
    using assms
  proof (induction pieces arbitrary: s)
    case (Cons p ps)
    have s: "rd_collector (read_piece p s) = feed p (rd_collector s)" "rd_sum (read_piece p s) = rd_sum s @ p"
      "rd_size (read_piece p s) = rd_size s + int (length p)" "rd_sniff (read_piece p s) = take sniffLen (rd_sniff s @ p)"
      "rd_lastByte (read_piece p s) = (if p = [] then rd_lastByte s else last p)"
      using Cons.prems(2) by (auto simp: read_piece_def min_def)
    have "held_ok (rd_collector (read_piece p s))" "length (rd_sniff (read_piece p s)) \<le> sniffLen"
      using feed_held [OF Cons.prems(1)] by (simp_all add: s)
    note ih = Cons.IH [OF this]
    have "take sniffLen (take sniffLen (rd_sniff s @ p) @ concat ps) = take sniffLen (rd_sniff s @ p @ concat ps)"
      by (simp add: min_def)
    then show ?case
      using ih feed_append [OF Cons.prems(1), of "concat ps" p] by (simp add: s)
  qed (simp add: min_def)
  then show "rd_collector (foldl (\<lambda>s chunk. read_piece chunk s) s pieces) = feed (concat pieces) (rd_collector s)"
    and "rd_sum (foldl (\<lambda>s chunk. read_piece chunk s) s pieces) = rd_sum s @ concat pieces"
    and "rd_size (foldl (\<lambda>s chunk. read_piece chunk s) s pieces) = rd_size s + int (length (concat pieces))"
    and "rd_sniff (foldl (\<lambda>s chunk. read_piece chunk s) s pieces) = take sniffLen (rd_sniff s @ concat pieces)"
    and "rd_lastByte (foldl (\<lambda>s chunk. read_piece chunk s) s pieces) = (if concat pieces = [] then rd_lastByte s else last (concat pieces))"
    by blast+
qed

text \<open>The answer in terms of the lines of the file.\<close>

lemma readLineRange_lines:
  assumes "readLineRange pieces None offset lim = Inr r" "offset \<le> MaxInt" "clamp_range offset lim = (int frm, int to)"
  obtains c where "took_all frm to (file_lines (concat pieces)) c \<or> took_part frm to (file_lines (concat pieces)) c
      \<or> took_prefix frm to (file_lines (concat pieces)) c"
    and "fr_content r = string_of (lc_out c)" "fr_firstLine r = lc_first c" "fr_lastLine r = lc_last c"
    "fr_truncated r = lc_truncated c" "fr_longLine r = lc_longLine c"
    and "fr_totalLines r = int (length (file_lines (concat pieces)))" "fr_size r = int (length (concat pieces))"
    and "fr_sha r = hex_EncodeToString (sha256_Sum256 (concat pieces))" "0 < frm" "frm \<le> to"
proof -
  let ?start = "\<lparr>rd_collector = new_collector (int frm) (int to), rd_sum = [], rd_size = 0, rd_sniff = [], rd_lastByte = 0\<rparr>"
  let ?s = "foldl (\<lambda>s chunk. read_piece chunk s) ?start pieces"
  let ?b = "concat pieces"
  let ?c = "foldl (\<lambda>c l. collect l c) (new_collector (int frm) (int to)) (file_lines ?b)"
  have b: "0 < frm" "frm \<le> to" using clamp_range_bounds [OF assms(3,2)] by simp_all
  have h: "held_ok (rd_collector ?start)" "length (rd_sniff ?start) \<le> sniffLen" "settled_collector (new_collector (int frm) (int to))"
    by (simp_all add: held_ok_def new_collector_def MaxReadBytes_def settled_collector_def)
  note p = read_pieces [OF h(1,2), of pieces, simplified]
  have f: "(finish (rd_collector ?s))\<lparr>lc_line := lc_line (rd_collector ?s) + (if ?b \<noteq> [] \<and> last ?b \<noteq> newline then 1 else 0)\<rparr> = ?c"
    using finish_feed [OF h(3), of ?b] by (simp add: p)
  have fl: "lc_line (finish c) = lc_line c" for c by (simp add: finish_def)
  have eq: "lc_out (finish (rd_collector ?s)) = lc_out ?c" "lc_first (finish (rd_collector ?s)) = lc_first ?c"
    "lc_last (finish (rd_collector ?s)) = lc_last ?c" "lc_truncated (finish (rd_collector ?s)) = lc_truncated ?c"
    "lc_longLine (finish (rd_collector ?s)) = lc_longLine ?c"
    "lc_line (rd_collector ?s) + (if ?b \<noteq> [] \<and> last ?b \<noteq> newline then 1 else 0) = lc_line ?c"
    unfolding f [symmetric] by simp_all
  have col: "lc_line ?c = int (length (file_lines ?b)) + 1"
    "took_all frm to (file_lines ?b) ?c \<or> took_part frm to (file_lines ?b) ?c \<or> took_prefix frm to (file_lines ?b) ?c"
    using collected [OF b, of "file_lines ?b"] file_lines_nonempty by blast+
  have sz: "rd_size ?s = int (length ?b)" "rd_sum ?s = ?b" "?b \<noteq> [] \<Longrightarrow> rd_lastByte ?s = last ?b"
    using read_pieces(2,3,5) [OF h(1,2), of pieces] by (simp_all del: concat_eq_Nil_conv)
  have tot: "(if rd_size ?s > 0 \<and> rd_lastByte ?s \<noteq> newline then lc_line (finish (rd_collector ?s)) - 1 + 1
      else lc_line (finish (rd_collector ?s)) - 1) = int (length (file_lines ?b))"
    using eq(6) col(1) sz(1,3) unfolding fl by (cases "?b = []") (auto simp del: concat_eq_Nil_conv)
  have r: "r = no_result\<lparr>fr_content := string_of (lc_out ?c), fr_totalLines := int (length (file_lines ?b)),
      fr_firstLine := lc_first ?c, fr_lastLine := lc_last ?c, fr_truncated := lc_truncated ?c, fr_longLine := lc_longLine ?c,
      fr_size := int (length ?b), fr_sha := hex_EncodeToString (sha256_Sum256 ?b)\<rparr>"
    using assms(1) tot unfolding readLineRange_def assms(3) Let_def prod.case option.case eq sz(1,2)
    by (auto split: if_splits)
  show thesis by (rule that [of ?c]) (use col(2) b r in simp_all)
qed

lemma pieces_do_not_matter:
  "readLineRange pieces failed offset lim = readLineRange [concat pieces] failed offset lim"
proof -
  obtain frm to where c: "clamp_range offset lim = (frm, to)" by (rule prod.exhaust)
  let ?start = "\<lparr>rd_collector = new_collector frm to, rd_sum = [], rd_size = 0, rd_sniff = [], rd_lastByte = 0\<rparr>"
  have h: "held_ok (rd_collector ?start)" "length (rd_sniff ?start) \<le> sniffLen"
    by (simp_all add: held_ok_def new_collector_def MaxReadBytes_def)
  have "foldl (\<lambda>s chunk. read_piece chunk s) ?start pieces = foldl (\<lambda>s chunk. read_piece chunk s) ?start [concat pieces]"
    using read_pieces [OF h, of pieces] read_pieces [OF h, of "[concat pieces]"]
    by (intro read_state.equality) (simp_all del: concat_eq_Nil_conv foldl.simps)
  then show ?thesis unfolding readLineRange_def c by simp
qed

text \<open>Reading on from the line after the last one misses nothing and repeats nothing.\<close>

definition read_lines :: "byte list list \<Rightarrow> nat \<Rightarrow> nat \<Rightarrow> byte list" where
  "read_lines ls frm last_line = concat (drop (frm - 1) (take last_line ls))"

lemma read_lines_join:
  assumes "0 < frm" "frm \<le> Suc k" "k \<le> n"
  shows "read_lines ls frm k @ read_lines ls (Suc k) n = read_lines ls frm n"
proof -
  have "take n ls = take k ls @ drop k (take n ls)" by (metis append_take_drop_id assms(3) min.absorb1 take_take)
  moreover have "drop (frm - 1) (take k ls @ drop k (take n ls)) = drop (frm - 1) (take k ls) @ drop k (take n ls)"
  proof (cases "k \<le> length ls")
    case True
    then show ?thesis using assms(1,2) by simp
  next
    case False
    then show ?thesis by simp
  qed
  ultimately show ?thesis unfolding read_lines_def by (metis concat_append diff_Suc_1)
qed

lemma read_all_lines: "read_lines ls 1 (length ls) = concat ls"
  by (simp add: read_lines_def)

lemma took_content:
  assumes c: "took_all frm to ls c \<or> took_part frm to ls c \<or> took_prefix frm to ls c" and frm: "0 < frm" "frm \<le> to"
  shows "length ls < frm \<Longrightarrow> lc_out c = [] \<and> lc_last c = 0 \<and> \<not> lc_truncated c"
    "frm \<le> length ls \<Longrightarrow> lc_first c = int frm \<and> int frm \<le> lc_last c \<and> lc_last c \<le> int (min (length ls) to)
        \<and> (if lc_longLine c \<noteq> 0 then lc_last c = int frm \<and> MaxReadBytes < int (length (ls ! (frm - 1)))
               \<and> lc_out c = trimCutRune (take (nat MaxReadBytes) (ls ! (frm - 1)))
            else lc_out c = read_lines ls frm (nat (lc_last c))
               \<and> (if lc_truncated c then MaxReadBytes < int (length (lc_out c) + length (ls ! nat (lc_last c)))
                  else lc_last c = int (min (length ls) to)))"
proof -
  let ?short = "length ls < frm \<longrightarrow> lc_out c = [] \<and> lc_last c = 0 \<and> \<not> lc_truncated c"
  let ?long = "frm \<le> length ls \<longrightarrow> lc_first c = int frm \<and> int frm \<le> lc_last c \<and> lc_last c \<le> int (min (length ls) to)
        \<and> (if lc_longLine c \<noteq> 0 then lc_last c = int frm \<and> MaxReadBytes < int (length (ls ! (frm - 1)))
               \<and> lc_out c = trimCutRune (take (nat MaxReadBytes) (ls ! (frm - 1)))
            else lc_out c = read_lines ls frm (nat (lc_last c))
               \<and> (if lc_truncated c then MaxReadBytes < int (length (lc_out c) + length (ls ! nat (lc_last c)))
                  else lc_last c = int (min (length ls) to)))"
  have "?short \<and> ?long" using c
  proof (elim disjE)
    assume t: "took_all frm to ls c"
    show ?thesis
    proof (cases "frm \<le> length ls")
      case True
      then have m: "frm \<le> min (length ls) to" using frm(2) by simp
      then show ?thesis using t True unfolding took_all_def read_lines_def by simp
    next
      case False
      then have "\<not> frm \<le> min (length ls) to" "drop (frm - 1) (take (min (length ls) to) ls) = []" by auto
      then show ?thesis using t False unfolding took_all_def by simp
    qed
  next
    assume "took_part frm to ls c"
    then show ?thesis using frm(1) unfolding took_part_def read_lines_def by auto
  next
    assume "took_prefix frm to ls c"
    then show ?thesis using frm(1) unfolding took_prefix_def by auto
  qed
  then show "length ls < frm \<Longrightarrow> lc_out c = [] \<and> lc_last c = 0 \<and> \<not> lc_truncated c"
    "frm \<le> length ls \<Longrightarrow> lc_first c = int frm \<and> int frm \<le> lc_last c \<and> lc_last c \<le> int (min (length ls) to)
        \<and> (if lc_longLine c \<noteq> 0 then lc_last c = int frm \<and> MaxReadBytes < int (length (ls ! (frm - 1)))
               \<and> lc_out c = trimCutRune (take (nat MaxReadBytes) (ls ! (frm - 1)))
            else lc_out c = read_lines ls frm (nat (lc_last c))
               \<and> (if lc_truncated c then MaxReadBytes < int (length (lc_out c) + length (ls ! nat (lc_last c)))
                  else lc_last c = int (min (length ls) to)))"
    by blast+
qed

text \<open>A page of whole lines, as the device answers it.\<close>

lemma device_page:
  assumes "readLineRange pieces None offset lim = Inr r" "offset \<le> MaxInt" "clamp_range offset lim = (int frm, int to)"
    and "frm \<le> length (file_lines (concat pieces))" "fr_longLine r = 0"
  shows "fr_totalLines r = int (length (file_lines (concat pieces)))" "fr_firstLine r = int frm" "0 < frm" "int frm \<le> fr_lastLine r"
    "fr_lastLine r \<le> int (min (length (file_lines (concat pieces))) to)"
    "bytes (fr_content r) = read_lines (file_lines (concat pieces)) frm (nat (fr_lastLine r))"
    "\<not> fr_truncated r \<Longrightarrow> fr_lastLine r = int (min (length (file_lines (concat pieces))) to)"
proof -
  let ?ls = "file_lines (concat pieces)"
  obtain c where c: "took_all frm to ?ls c \<or> took_part frm to ?ls c \<or> took_prefix frm to ?ls c"
    "fr_content r = string_of (lc_out c)" "fr_firstLine r = lc_first c" "fr_lastLine r = lc_last c"
    "fr_truncated r = lc_truncated c" "fr_longLine r = lc_longLine c"
    "fr_totalLines r = int (length ?ls)" "0 < frm" "frm \<le> to"
    using readLineRange_lines [OF assms(1-3)] by metis
  show "fr_totalLines r = int (length ?ls)" "fr_firstLine r = int frm" "0 < frm" "int frm \<le> fr_lastLine r"
    "fr_lastLine r \<le> int (min (length ?ls) to)"
    "bytes (fr_content r) = read_lines ?ls frm (nat (fr_lastLine r))"
    "\<not> fr_truncated r \<Longrightarrow> fr_lastLine r = int (min (length ?ls) to)"
    using took_content(2) [OF c(1,8,9) assms(4)] c assms(5) by simp_all
qed

text \<open>A file of two lines in two pieces, for the witnesses.\<close>

lemma sample_lines: "file_lines (concat [bytes ''on'', bytes (''e'' @ [CHR 0x0A] @ ''two'')]) = [bytes (''one'' @ [CHR 0x0A]), bytes ''two'']"
  by (simp add: bytes_def byte_of_def file_lines.simps cut_line_def newline_def)

lemma sample_range: "clamp_range 2 1 = (int 2, int 2)"
  by (simp add: clamp_range_def wrap64_def maxReadLines_def Let_def)

lemma sample_read:
  "\<exists>r. readLineRange [bytes ''on'', bytes (''e'' @ [CHR 0x0A] @ ''two'')] None 2 1 = Inr r \<and> fr_content r = ''two'' \<and> fr_longLine r = 0"
proof -
  let ?ps = "[bytes ''on'', bytes (''e'' @ [CHR 0x0A] @ ''two'')]"
  note l = sample_lines and cl = sample_range
  have v: "utf8_Valid (bytes (''one'' @ [CHR 0x0A] @ ''two''))" "utf8_Valid (bytes ''two'')"
    by (rule ascii_valid, simp)+
  have "0 \<notin> set (bytes (''one'' @ [CHR 0x0A] @ ''two''))" by code_simp
  then have t: "isText (bytes (''one'' @ [CHR 0x0A] @ ''two'')) 7" using v(1) by (simp add: isText_def)
  let ?b = "bytes (''one'' @ [CHR 0x0A] @ ''two'')" and ?ls = "[bytes (''one'' @ [CHR 0x0A]), bytes ''two'']"
  have lb: "file_lines ?b = ?ls" using l by (simp add: bytes_def)
  let ?c = "foldl (\<lambda>c l. collect l c) (new_collector (int 2) (int 2)) ?ls"
  have "took_all 2 2 ?ls ?c \<or> took_part 2 2 ?ls ?c \<or> took_prefix 2 2 ?ls ?c"
    using collected [of 2 2 ?ls] by (simp add: bytes_def)
  moreover have "\<not> took_part 2 2 ?ls ?c" "\<not> took_prefix 2 2 ?ls ?c"
    by (auto simp: took_part_def took_prefix_def MaxReadBytes_def)
  ultimately have out: "lc_out ?c = bytes ''two''" by (simp add: took_all_def)
  have "settled_collector (new_collector (int 2) (int 2))" by (simp add: settled_collector_def new_collector_def)
  from arg_cong [OF finish_feed [OF this, of ?b], of lc_out]
  have f: "lc_out (finish (feed ?b (new_collector 2 2))) = bytes ''two''" unfolding lb using out by simp
  let ?start = "\<lparr>rd_collector = new_collector (int 2) (int 2), rd_sum = [], rd_size = 0, rd_sniff = [], rd_lastByte = 0\<rparr>"
  let ?s = "foldl (\<lambda>s chunk. read_piece chunk s) ?start ?ps"
  have h: "held_ok (rd_collector ?start)" "length (rd_sniff ?start) \<le> sniffLen"
    by (simp_all add: held_ok_def new_collector_def MaxReadBytes_def)
  have cc: "concat ?ps = ?b" by (simp add: bytes_def)
  have p: "rd_collector ?s = feed ?b (new_collector (int 2) (int 2))" "rd_sniff ?s = ?b" "rd_size ?s = 7"
    using read_pieces(1,3,4) [OF h, of ?ps] unfolding cc by (simp_all add: sniffLen_def del: foldl_Cons bytes_append)
  obtain r where r: "readLineRange ?ps None 2 1 = Inr r"
    using t v(2) f p unfolding readLineRange_def cl Let_def prod.case option.case
    by (simp del: foldl_Cons bytes_append)
  show ?thesis
  proof (rule readLineRange_lines [OF r _ cl, unfolded l])
    fix c assume c: "took_all 2 2 ?ls c \<or> took_part 2 2 ?ls c \<or> took_prefix 2 2 ?ls c" "fr_content r = string_of (lc_out c)"
      "fr_longLine r = lc_longLine c"
    have "\<not> took_part 2 2 ?ls c" "\<not> took_prefix 2 2 ?ls c" by (auto simp: took_part_def took_prefix_def MaxReadBytes_def)
    then have "lc_out c = bytes ''two''" "lc_longLine c = 0" using c(1) by (simp_all add: took_all_def)
    then have "fr_content r = ''two''" "fr_longLine r = 0" using c(2,3) by simp_all
    then show ?thesis using r by blast
  qed (simp add: MaxInt_def)
qed

section \<open>Properties of reading\<close>

text \<open>
  C40. Reading a range is exact, however the file arrives in pieces: the answer counts
  the lines, gives the first line asked for and whole lines from there on, as many as
  were asked for unless the next one would not fit in the limit, and always at least one,
  so that reading on from the line after the last makes progress. Only a line that is
  longer than the limit by itself comes as a prefix, and is named.
\<close>

theorem read_range_is_exact:
  assumes "readLineRange pieces None offset lim = Inr r" and "offset \<le> MaxInt"
    and "clamp_range offset lim = (int frm, int to)" and "ls = file_lines (concat pieces)"
  shows "readLineRange [concat pieces] None offset lim = Inr r
    \<and> fr_totalLines r = int (length ls) \<and> fr_size r = int (length (concat pieces))
    \<and> (length ls < frm \<longrightarrow> fr_content r = [] \<and> fr_lastLine r = 0 \<and> \<not> fr_truncated r)
    \<and> (frm \<le> length ls \<longrightarrow> fr_firstLine r = int frm \<and> int frm \<le> fr_lastLine r \<and> fr_lastLine r \<le> int (min (length ls) to)
        \<and> (if fr_longLine r \<noteq> 0 then fr_lastLine r = int frm \<and> MaxReadBytes < int (length (ls ! (frm - 1)))
               \<and> bytes (fr_content r) = trimCutRune (take (nat MaxReadBytes) (ls ! (frm - 1)))
            else bytes (fr_content r) = read_lines ls frm (nat (fr_lastLine r))
               \<and> (if fr_truncated r then MaxReadBytes < int (length (fr_content r) + length (ls ! nat (fr_lastLine r)))
                  else fr_lastLine r = int (min (length ls) to))))"
proof -
  obtain c where c: "took_all frm to ls c \<or> took_part frm to ls c \<or> took_prefix frm to ls c"
    "fr_content r = string_of (lc_out c)" "fr_firstLine r = lc_first c" "fr_lastLine r = lc_last c"
    "fr_truncated r = lc_truncated c" "fr_longLine r = lc_longLine c"
    "fr_totalLines r = int (length ls)" "fr_size r = int (length (concat pieces))" "0 < frm" "frm \<le> to"
    using readLineRange_lines [OF assms(1-3)] unfolding assms(4) by metis
  have one: "readLineRange [concat pieces] None offset lim = Inr r" using pieces_do_not_matter [of pieces] assms(1) by metis
  have n: "string_of x = [] \<longleftrightarrow> x = []" for x by (simp add: string_of_def)
  show ?thesis unfolding c(2-8) bytes_string_of length_bytes n using one took_content [OF c(1,9,10)] by blast
qed

theorem read_range_is_exact_witness:
  "\<exists>r. readLineRange [bytes ''on'', bytes (''e'' @ [CHR 0x0A] @ ''two'')] None 2 1 = Inr r
     \<and> fr_totalLines r = 2 \<and> fr_firstLine r = 2 \<and> fr_lastLine r = 2"
proof -
  obtain r where r: "readLineRange [bytes ''on'', bytes (''e'' @ [CHR 0x0A] @ ''two'')] None 2 1 = Inr r" using sample_read by blast
  show ?thesis
    using read_range_is_exact [OF r _ sample_range refl] r unfolding sample_lines by (auto simp: MaxInt_def)
qed

end
