(* ===== verification/WebPages.thy ===== *)
theory WebPages
  imports WebResults LineProps WebOps
begin

text \<open>
  What a caller reads back: a page of a file is whole lines even after the adapter cut it
  to its own size, a bounded output is the beginning of what the command wrote, and the
  outcome of a failure never claims more than is known.
\<close>

subsection \<open>Cutting at a line\<close>

fun text_lines :: "byte list list \<Rightarrow> bool" where
  "text_lines [] = True"
| "text_lines (l # ls) = (l \<noteq> [] \<and> newline \<notin> set (butlast l) \<and> (ls \<noteq> [] \<longrightarrow> last l = newline) \<and> text_lines ls)"

lemma file_lines_text: "text_lines (file_lines b)"
proof (induction b rule: file_lines.induct)
  case (1 b)
  show ?case
  proof (cases "b = []")
    case False
    show ?thesis
    proof (cases "cut_line b")
      case None
      then have "newline \<notin> set b" by (simp add: cut_line_None)
      then show ?thesis using False None by (simp add: file_lines.simps [of b]) (metis in_set_butlastD)
    next
      case (Some pr)
      obtain piece rest where pr: "pr = (piece, rest)" by (cases pr)
      then have "piece = takeWhile (\<lambda>b. b \<noteq> newline) b @ [newline]" using Some by (auto simp: cut_line_def split: if_splits)
      then have "piece \<noteq> []" "newline \<notin> set (butlast piece)" "last piece = newline"
        by (auto simp: butlast_append dest: set_takeWhileD)
      then show ?thesis using 1(1) [OF False Some pr [symmetric]] False Some pr by (simp add: file_lines.simps [of b])
    qed
  qed simp
qed

lemma text_lines_drop: "text_lines ls \<Longrightarrow> text_lines (drop n ls)"
proof (induction ls arbitrary: n)
  case (Cons l ls)
  then show ?case by (cases n) simp_all
qed simp

lemma text_lines_take: "text_lines ls \<Longrightarrow> text_lines (take n ls)"
proof (induction ls arbitrary: n)
  case (Cons l ls)
  then show ?case by (cases n) (auto simp: take_eq_Nil)
qed simp

text \<open>A beginning that ends with a line end is as many whole lines as it has line ends.\<close>

lemma cut_at_line:
  assumes "text_lines ls" "concat ls = p @ q" "p = [] \<or> last p = newline"
  shows "count_list p newline \<le> length ls \<and> p = concat (take (count_list p newline) ls)"
  using assms
proof (induction ls arbitrary: p)
  case (Cons l ls)
  show ?case
  proof (cases "p = []")
    case False
    obtain x y where l: "l = x @ [y]" using Cons.prems(1) by (cases l rule: rev_cases) auto
    have nx: "newline \<notin> set x" and y: "ls \<noteq> [] \<longrightarrow> y = newline" and t: "text_lines ls" using Cons.prems(1) by (simp_all add: l)
    have eq: "x @ [y] @ concat ls = p @ q" using Cons.prems(2) by (simp add: l)
    have np: "newline \<in> set p" using False Cons.prems(3) by (metis last_in_set)
    have "\<not> length p \<le> length x"
    proof
      assume "length p \<le> length x"
      then have "p = take (length p) x" using eq by (metis append_eq_append_conv_if append_eq_conv_conj)
      then show False using np nx by (metis in_set_takeD)
    qed
    then obtain p' where p': "p = x @ y # p'" "p' @ q = concat ls"
      using eq by (auto simp: append_eq_append_conv2 Cons_eq_append_conv)
    have yn: "y = newline"
    proof (cases "ls = []")
      case True
      then have "p' = []" using p'(2) by simp
      then show ?thesis using np nx p'(1) by auto
    qed (use y in simp)
    have c0: "count_list x newline = 0" using nx by (simp add: count_list_0_iff)
    have c: "count_list p newline = Suc (count_list p' newline)" by (simp add: p'(1) yn c0)
    have "p' = [] \<or> last p' = newline" using Cons.prems(3) p'(1) by (cases "p' = []") simp_all
    from Cons.IH [OF t p'(2) [symmetric] this] show ?thesis unfolding c by (simp add: p'(1) yn l)
  qed simp
qed simp

lemma LastIndexByte_Some:
  assumes "LastIndexByte s c = Some k"
  shows "k < length s \<and> s ! k = c"
proof -
  let ?w = "takeWhile (\<lambda>x. x \<noteq> c) (rev s)"
  have c: "c \<in> set s" and k: "k = length s - 1 - length ?w" using assms by (auto simp: LastIndexByte_def split: if_splits)
  have "?w \<noteq> rev s" using c by (auto simp: takeWhile_eq_all_conv)
  then have "length ?w \<noteq> length (rev s)" by (metis takeWhile_eq_take take_all order_refl)
  then have "length ?w < length (rev s)" using length_takeWhile_le [of "\<lambda>x. x \<noteq> c" "rev s"] by simp
  then have "length ?w < length s" "rev s ! length ?w = c" using nth_length_takeWhile [of "\<lambda>x. x \<noteq> c" "rev s"] by auto
  then show ?thesis using k by (auto simp: rev_nth)
qed

subsection \<open>Bounded output\<close>

lemma bo_Writes_snoc: "bo_Writes (ps @ [p]) bo = snd (bo_Write p (bo_Writes ps bo))"
  by (simp add: bo_Writes_def)

text \<open>
  What is kept of a command's output is the beginning of it, as much as the limit
  allows, in whatever pieces it was written; it is marked as cut, and the command is
  cancelled, exactly when something was lost.
\<close>

theorem bounded_output_is_prefix:
  "bo_buffer (bo_Writes ps (bo_new limit)) = take limit (concat ps)
   \<and> (bo_truncated (bo_Writes ps (bo_new limit)) \<longleftrightarrow> limit < length (concat ps))
   \<and> (bo_cancelled (bo_Writes ps (bo_new limit)) \<longleftrightarrow> limit < length (concat ps))"
proof -
  have "bo_limit (bo_Writes ps (bo_new limit)) = limit \<and> ?thesis"
  proof (induction ps rule: rev_induct)
    case Nil
    show ?case by (simp add: bo_Writes_def bo_new_def)
  next
    case (snoc p ps)
    let ?bo = "bo_Writes ps (bo_new limit)"
    have r: "int limit - int (length (take limit (concat ps))) = int (limit - length (concat ps))" by (simp add: min_def)
    have n: "nat (int limit - int m) = limit - m" for m by simp
    show ?case unfolding bo_Writes_snoc using snoc.IH
      by (cases "limit < length (concat ps)"; cases "limit < length (concat ps) + length p") (auto simp: bo_Write_def Let_def r n)
  qed
  then show ?thesis by blast
qed

subsection \<open>A page of a file\<close>

lemma cut_back_set: "set (cut_back n b) \<subseteq> set b"
  by (induction n b rule: cut_back.induct) (auto dest: in_set_butlastD)

lemma text_line_inner: "text_lines ls \<Longrightarrow> i < length ls \<Longrightarrow> newline \<notin> set (butlast (ls ! i))"
proof (induction ls arbitrary: i)
  case (Cons l ls)
  then show ?case by (cases i) auto
qed simp

lemma LF_newline: "LF \<in> set s \<longleftrightarrow> newline \<in> set (bytes s)" "count_list (bytes s) newline = count_list s LF"
proof -
  have eq: "byte_of c = newline \<longleftrightarrow> c = LF" for c
  proof
    assume "byte_of c = newline"
    then have "char_of_byte (byte_of c) = char_of_byte newline" by (rule arg_cong)
    moreover have "char_of_byte newline = LF" unfolding newline_def by code_simp
    moreover have "char_of_byte (byte_of c) = c" by simp
    ultimately show "c = LF" by (simp only:)
  next
    assume "c = LF"
    then show "byte_of c = newline" by (simp add: byte_of_def newline_def)
  qed
  have eq': "newline = byte_of c \<longleftrightarrow> LF = c" for c using eq [of c] by metis
  show "LF \<in> set s \<longleftrightarrow> newline \<in> set (bytes s)" by (induction s) (simp_all add: bytes_def eq')
  show "count_list (bytes s) newline = count_list s LF" by (induction s) (simp_all add: bytes_def eq)
qed

text \<open>The device's own prefix of an overlong line has no line end.\<close>

lemma device_long_line:
  assumes "readLineRange pieces None offset lim = Inr r" "offset \<le> MaxInt" "clamp_range offset lim = (int frm, int to)"
    and "frm \<le> length (file_lines (concat pieces))" "fr_longLine r \<noteq> 0"
  shows "LF \<notin> set (fr_content r) \<and> fr_firstLine r \<noteq> 0"
proof -
  let ?ls = "file_lines (concat pieces)"
  obtain c where c: "took_all frm to ?ls c \<or> took_part frm to ?ls c \<or> took_prefix frm to ?ls c"
    "fr_content r = string_of (lc_out c)" "fr_firstLine r = lc_first c" "fr_longLine r = lc_longLine c" "0 < frm" "frm \<le> to"
    using readLineRange_lines [OF assms(1-3)] by metis
  let ?l = "?ls ! (frm - 1)"
  have l: "MaxReadBytes < int (length ?l)" "lc_out c = trimCutRune (take (nat MaxReadBytes) ?l)" "lc_first c = int frm"
    using took_content(2) [OF c(1,5,6) assms(4)] assms(5) c(4) by simp_all
  have "newline \<notin> set (butlast ?l)" by (rule text_line_inner [OF file_lines_text]) (use assms(4) c(5) in simp)
  moreover have "take (nat MaxReadBytes) ?l = take (nat MaxReadBytes) (butlast ?l)"
    using l(1) by (simp add: butlast_conv_take min_def MaxReadBytes_def)
  ultimately have "newline \<notin> set (take (nat MaxReadBytes) ?l)" by (metis in_set_takeD)
  then have "newline \<notin> set (lc_out c)" using cut_back_set unfolding l(2) trimCutRune_def by blast
  then show ?thesis using l(3) c(3,5) by (simp add: LF_newline c(2))
qed

lemma fit_whole:
  assumes "fit_content r = (content, lst, trunc, 0)" "fr_longLine r \<noteq> 0 \<longrightarrow> LF \<notin> set (fr_content r)" "fr_firstLine r \<noteq> 0"
  shows "fr_longLine r = 0
    \<and> (length (fr_content r) \<le> MaxOutputBytes \<and> content = fr_content r \<and> lst = fr_lastLine r \<and> trunc = fr_truncated r
       \<or> (\<exists>rest. rest \<noteq> [] \<and> fr_content r = content @ rest \<and> content \<noteq> [] \<and> last content = LF \<and> length content \<le> MaxOutputBytes
            \<and> lst = fr_firstLine r + int (count_list content LF) - 1 \<and> trunc))"
proof (cases "length (fr_content r) > MaxOutputBytes")
  case False
  then show ?thesis using assms(1) by (auto simp: fit_content_def)
next
  case True
  let ?h = "take MaxOutputBytes (fr_content r)"
  obtain k where k: "LastIndexByte ?h LF = Some k" using assms(1,3) True by (cases "LastIndexByte ?h LF") (auto simp: fit_content_def)
  have kk: "k < length ?h" "?h ! k = LF" using LastIndexByte_Some [OF k] by blast+
  have c: "content = take (k + 1) ?h" "lst = fr_firstLine r + int (count_list content LF) - 1" "trunc"
    using assms(1) True k by (auto simp: fit_content_def Let_def)
  have "content = take k ?h @ [LF]" using take_Suc_conv_app_nth [OF kk(1)] kk(2) c(1) by simp
  then have l: "length content = k + 1" "last content = LF" using kk(1) by simp_all
  have "LF \<in> set (fr_content r)" using kk by (metis in_set_takeD nth_mem)
  moreover have "content = take (k + 1) (fr_content r)" using kk(1) by (simp add: c(1) take_take)
  then have "fr_content r = content @ drop (k + 1) (fr_content r)" by simp
  moreover have "drop (k + 1) (fr_content r) \<noteq> []" using kk(1) True by simp
  moreover have "length content \<le> MaxOutputBytes" using kk(1) by (simp add: l)
  moreover have "content \<noteq> []" using l(1) by auto
  ultimately show ?thesis using assms(2) c l(2) by blast
qed

text \<open>A page that was cut is still whole lines.\<close>

lemma cut_page:
  assumes "text_lines ls" "bytes pg = read_lines ls frm n" "0 < frm" "frm \<le> n" "n \<le> length ls"
    and "pg = content @ rest" "content \<noteq> []" "last content = LF" "last_line = frm + count_list content LF - 1"
  shows "frm \<le> last_line \<and> last_line \<le> n \<and> bytes content = read_lines ls frm last_line"
proof -
  let ?ls = "drop (frm - 1) (take n ls)" and ?p = "bytes content" and ?m = "count_list content LF"
  have t: "text_lines ?ls" by (intro text_lines_drop text_lines_take assms(1))
  have c: "concat ?ls = ?p @ bytes rest" using assms(2,6) by (simp add: read_lines_def)
  have "bytes content \<noteq> []" using assms(7) by (simp add: bytes_def)
  moreover have "LF \<in> set content" using assms(7,8) by (metis last_in_set)
  moreover have "last ?p = byte_of LF" using assms(7,8) by (simp add: bytes_def last_map)
  moreover have "byte_of LF = newline" by (simp add: byte_of_def newline_def)
  ultimately have k: "?m \<le> length ?ls \<and> ?p = concat (take ?m ?ls)" "0 < ?m"
    using cut_at_line [OF t c] by (auto simp: LF_newline(2) count_list_0_iff intro: gr0I)
  have m: "?m \<le> n - (frm - 1)" using k(1) assms(5) by simp
  have "take ?m ?ls = drop (frm - 1) (take (?m + (frm - 1)) (take n ls))" by (simp add: take_drop)
  also have "\<dots> = drop (frm - 1) (take last_line ls)" using m assms(3,4,9) by (simp add: min_def add.commute)
  finally have "bytes content = read_lines ls frm last_line" using k(1) by (simp add: read_lines_def)
  moreover have "frm \<le> last_line" "last_line \<le> n" using k(2) m assms(3,4,9) by linarith+
  ultimately show ?thesis by blast
qed

text \<open>
  C17. A page that the web hands on is exact, although it may have to be shorter than what
  the device answered: unless it is the beginning of a single overlong line, which it says,
  it is whole lines of the file from the one asked for on, it is never over the size of
  one answer, it names the lines it holds, and when lines asked for are still missing it
  names the next one, so that asking on from there misses and repeats nothing.
\<close>

theorem web_page_is_exact:
  assumes "readLineRange pieces None offset lim = Inr r" and "offset \<le> MaxInt"
    and "clamp_range offset lim = (int frm, int to)" and "ls = file_lines (concat pieces)" and "frm \<le> length ls"
    and "out = fitRead r web_result0" and "wr_long_line out = None"
  shows "\<exists>last_line content. frm \<le> last_line \<and> last_line \<le> min (length ls) to
    \<and> wr_lines out = Some (int (length ls), int frm, int last_line)
    \<and> wr_content out = Some content \<and> bytes content = read_lines ls frm last_line \<and> length content \<le> MaxOutputBytes
    \<and> (last_line < min (length ls) to \<longrightarrow> wr_next_offset out = Some (int last_line + 1))"
proof -
  obtain content lst trunc long where f: "fit_content r = (content, lst, trunc, long)" by (rule prod_cases4)
  have l: "long = 0" using assms(7) unfolding assms(6) by (auto simp: fitRead_def f web_result0_def Let_def split: if_splits)
  note dl = device_long_line [OF assms(1-3), folded assms(4), OF assms(5)]
  note dp = device_page [OF assms(1-3), folded assms(4), OF assms(5)]
  have "fr_firstLine r \<noteq> 0" using dl dp(2,3) by (cases "fr_longLine r = 0") auto
  note fw = fit_whole [OF f [unfolded l] _ this] and dp = dp [OF conjunct1, OF fw]
  have n: "wr_lines out = Some (fr_totalLines r, fr_firstLine r, lst)" "wr_content out = Some content"
    "trunc \<longrightarrow> wr_next_offset out = Some (lst + 1)" unfolding assms(6) by (simp_all add: fitRead_def f l Let_def)
  let ?k = "nat lst"
  have e: "lst = int ?k \<and> frm \<le> ?k \<and> ?k \<le> min (length ls) to \<and> bytes content = read_lines ls frm ?k
    \<and> length content \<le> MaxOutputBytes \<and> (?k < min (length ls) to \<longrightarrow> trunc)"
  proof (cases "length (fr_content r) \<le> MaxOutputBytes \<and> content = fr_content r \<and> lst = fr_lastLine r \<and> trunc = fr_truncated r")
    case True
    then show ?thesis using dp(4-7) dl by auto
  next
    case False
    then obtain rest where c: "fr_content r = content @ rest" "content \<noteq> []" "last content = LF" "length content \<le> MaxOutputBytes"
      "lst = fr_firstLine r + int (count_list content LF) - 1" "trunc" using fw dl by blast
    have k: "?k = frm + count_list content LF - 1" using c(5) dp(2,3) dl by simp
    have "frm \<le> nat (fr_lastLine r)" "nat (fr_lastLine r) \<le> length ls" "nat (fr_lastLine r) \<le> to" using dp(4,5) dl by auto
    then show ?thesis
      using cut_page [OF file_lines_text [of "concat pieces", folded assms(4)] _ _ _ _ c(1-3) k] dp dl c(4-6) by force
  qed
  then show ?thesis using n dp(1,2) dl by (intro exI [of _ ?k] exI [of _ content]) auto
qed

theorem web_page_is_exact_witness:
  "\<exists>r content. wr_lines (fitRead r web_result0) = Some (2, 2, 2) \<and> wr_content (fitRead r web_result0) = Some content
     \<and> bytes content = read_lines [bytes (''one'' @ [CHR 0x0A]), bytes ''two''] 2 2"
proof -
  obtain r where r: "readLineRange [bytes ''on'', bytes (''e'' @ [CHR 0x0A] @ ''two'')] None 2 1 = Inr r" "fr_content r = ''two''" "fr_longLine r = 0"
    using sample_read by blast
  then have l: "wr_long_line (fitRead r web_result0) = None"
    by (simp add: fitRead_def fit_content_def MaxOutputBytes_def web_result0_def Let_def)
  have n: "2 \<le> length [bytes (''one'' @ [CHR 0x0A]), bytes ''two'']" and m: "2 \<le> MaxInt" by (simp_all add: MaxInt_def)
  obtain k content where k: "2 \<le> k" "k \<le> min (length [bytes (''one'' @ [CHR 0x0A]), bytes ''two'']) 2"
    "wr_lines (fitRead r web_result0) = Some (int (length [bytes (''one'' @ [CHR 0x0A]), bytes ''two'']), int 2, int k)"
    "wr_content (fitRead r web_result0) = Some content" "bytes content = read_lines [bytes (''one'' @ [CHR 0x0A]), bytes ''two''] 2 k"
    using web_page_is_exact [OF r(1) m sample_range refl _ refl l, unfolded sample_lines, OF n] by blast
  have "k = 2" using k(1,2) by simp
  then show ?thesis using k(3-5) by auto
qed

subsection \<open>What an outcome claims\<close>

text \<open>What the client library can tell of an operation: that the device, or the adapter itself, decided it.\<close>

definition decided_by :: "string \<Rightarrow> client_error \<Rightarrow> bool" where
  "decided_by tool e \<longleftrightarrow> ce_rejected e \<noteq> None \<or> ce_untrusted e \<or> ce_refused e \<noteq> None \<or> ce_unsupported e \<and> tool \<noteq> ''edit_text''"

lemma tool_result_claims [simp]:
  "wr_ok (tool_result p out web_result0) = False" "wr_not_started (tool_result p out web_result0) = False"
  by (simp_all add: tool_result_def fitRead_def web_result0_def Let_def split: prod.split)

lemma recordFailure_state:
  "fst (recordFailure ownerLink tool e r) = (if decided_by tool e \<or> tool = ''read_text'' then ''failed'' else ''unknown'')"
  by (simp add: recordFailure_def Let_def decided_by_def)

lemma recordFailure_ok: "wr_ok (snd (recordFailure ownerLink tool e r)) = wr_ok r"
  by (simp add: recordFailure_def Let_def split: option.split)

lemma recordFailure_undecided:
  assumes "\<not> decided_by tool e"
  shows "wr_not_started (snd (recordFailure ownerLink tool e r)) = wr_not_started r"
    "tool \<noteq> ''read_text'' \<Longrightarrow> wr_instruction (snd (recordFailure ownerLink tool e r)) = Some UnknownOutcome"
proof -
  have "ce_rejected e = None" "ce_refused e = None" "\<not> (ce_unsupported e \<and> tool \<noteq> ''edit_text'')" "\<not> ce_untrusted e"
    using assms by (simp_all add: decided_by_def del: not_None_eq)
  then show "wr_not_started (snd (recordFailure ownerLink tool e r)) = wr_not_started r"
    "tool \<noteq> ''read_text'' \<Longrightarrow> wr_instruction (snd (recordFailure ownerLink tool e r)) = Some UnknownOutcome"
    by (simp_all add: recordFailure_def Let_def)
qed

text \<open>
  C18. An outcome claims no more than is known. It is a success exactly when the operation
  ended without an error. It says that nothing ran only if the device, or the adapter before
  asking it, refused; and an operation that can change the device, whose error decides
  nothing, is \<open>unknown\<close>, never \<open>failed\<close>, with the instruction not to repeat it.
\<close>

theorem nothing_ran_is_never_a_guess:
  assumes "operation_outcome ownerLink p out = (state, r)"
  shows "(wr_ok r \<longleftrightarrow> state = ''done'') \<and> (state = ''done'' \<longleftrightarrow> \<not> do_panic out \<and> do_error out = None)
    \<and> (state = ''unknown'' \<longleftrightarrow> do_panic out \<or> (\<exists>e. do_error out = Some e \<and> \<not> decided_by (o_tool p) e \<and> o_tool p \<noteq> ''read_text''))
    \<and> (state = ''unknown'' \<longrightarrow> wr_instruction r = Some UnknownOutcome \<and> \<not> wr_not_started r)
    \<and> (wr_not_started r \<longrightarrow> state = ''failed'' \<and> (\<exists>e. do_error out = Some e \<and> decided_by (o_tool p) e))"
proof (cases "do_panic out")
  case True
  then show ?thesis using assms by (auto simp: operation_outcome_def web_result0_def)
next
  case False
  show ?thesis
  proof (cases "do_error out")
    case None
    then show ?thesis using assms False by (auto simp: operation_outcome_def Let_def)
  next
    case (Some e)
    then have "recordFailure ownerLink (o_tool p) e (tool_result p out web_result0) = (state, r)"
      using assms False by (simp add: operation_outcome_def Let_def)
    then have r: "state = fst (recordFailure ownerLink (o_tool p) e (tool_result p out web_result0))"
      "r = snd (recordFailure ownerLink (o_tool p) e (tool_result p out web_result0))" by simp_all
    show ?thesis using False Some unfolding r recordFailure_ok recordFailure_state
      by (cases "decided_by (o_tool p) e") (auto simp: recordFailure_undecided)
  qed
qed

theorem nothing_ran_is_never_a_guess_witness:
  "fst (operation_outcome (\<lambda>_. False) (new_operation ''edit_text'' ''ann/dev1'')
     \<lparr>do_panic = False, do_error = Some \<lparr>ce_text = ''EOF'', ce_rejected = None, ce_untrusted = False, ce_refused = None,
        ce_unsupported = True\<rparr>, do_stdout = [], do_stderr = [], do_code = 0, do_file = no_result\<rparr>) = ''unknown''"
  using nothing_ran_is_never_a_guess [OF surjective_pairing, of "\<lambda>_. False" "new_operation ''edit_text'' ''ann/dev1''"]
  by (simp add: decided_by_def new_operation_def)

end
