(* ===== verification/Sessions.thy ===== *)
theory Sessions
  imports RelayAccount HttpConn Access
begin

text \<open>
  The registry of the HTTP transport: \<open>src/internal/relay/http.go\<close> (the devices that
  poll, the sessions, their handlers and sweepers), \<open>bridge.go\<close> (opening and closing
  sessions, the in-process ends) and \<open>http_disconnect.go\<close>, with the leases of
  \<open>delegation_auth.go\<close>.

  Pointers are indices: a session is a position of \<open>sess\<close>, a polling device one of
  \<open>agents\<close>, a direction of a session one of the directions of \<open>RelayAccount\<close>, so that
  the bytes a session holds are on the account proved there. The maps \<open>hsess\<close>,
  \<open>hagents\<close> and \<open>leases\<close> name them; a handler that looked a pointer up keeps it after
  the map has lost it, as in the code.

  A request is a list of \<open>task\<close>s, each one critical section of the code (what runs
  under one lock), and \<open>exec_task\<close> runs the first of them; other requests may run
  between any two. A branch of a handler is the list its section leaves behind, and
  \<open>TAnswer\<close> is the status it writes. What a section learns from outside (the time, the
  stores, the request body, which case of a \<open>select\<close> fires) is the record \<open>env\<close>.
\<close>

definition httpAgentTTL :: duration where [go_defs]: "httpAgentTTL = 40 * Second"
definition httpAgentsPerNS :: nat where "httpAgentsPerNS = 256"
definition httpSessionsPerNS :: nat where "httpSessionsPerNS = 64"
definition httpSessionsTotal :: nat where "httpSessionsTotal = 4096"
definition downPollWait :: duration where [go_defs]: "downPollWait = 20 * Second"
definition httpSessionIdle :: duration where [go_defs]: "httpSessionIdle = 3 * downPollWait"
definition unackedRetention :: duration where [go_defs]: "unackedRetention = 10 * Minute"
definition deviceGoneAfter :: duration where [go_defs]: "deviceGoneAfter = 40 * Second"
definition sessionEndDeviceGone :: string where "sessionEndDeviceGone = ''device-gone''"
definition controllerDisconnectGrace :: duration where
  [go_defs]: "controllerDisconnectGrace = 2 * Second"

record http_agent =
  ag_ns :: string
  ag_device :: string
  ag_name :: string
  ag_open :: "Open list"
  ag_lastSeen :: gotime
  ag_inst :: string
  retired :: "string list"
  ag_changed :: nat
  ag_delegation :: bool
  ag_scopedExec :: bool
  polls :: int

text \<open>\<open>ag_changed\<close> counts how often the channel \<open>changed\<close> was closed and replaced.\<close>

datatype lease_state = NoLease | Held lease bool | Ended lease

text \<open>\<open>Held l c\<close>: the lease is open, and \<open>c\<close> says whether the session's closer is on it.\<close>

record http_session =
  toClient :: nat
  toAgent :: nat
  hs_callerNS :: string
  hs_credential :: string
  hs_lease :: lease_state
  hs_ownerNS :: string
  lastActive :: gotime
  clientSeen :: gotime
  clientBridged :: bool
  clientPollGeneration :: nat
  disconnectTimer :: bool
  closedAt :: gotime
  agentKey :: string
  agentInst :: string
  endReason :: string
  endTold :: bool

record registry =
  hagents :: "(string \<times> nat) list"
  agents :: "http_agent list"
  hsess :: "(string \<times> nat) list"
  sess :: "http_session list"
  leases :: "(string \<times> nat) list"
  mem :: relay_mem
  maxSessions :: nat
  portal :: string
  regLock :: bool
  timers :: "(gotime \<times> string \<times> nat \<times> nat) list"

definition new_registry :: "gotime \<Rightarrow> string \<Rightarrow> registry" where
  "new_registry now portal_ns =
     \<lparr>hagents = [], agents = [], hsess = [], sess = [], leases = [], mem = ([], newResidency now),
      maxSessions = httpSessionsTotal, portal = portal_ns, regLock = False, timers = []\<rparr>"

datatype wait = GotOpen | PollChanged | PollTimedOut | PollGone

record env =
  e_now :: gotime
  e_store :: token_store
  e_disabler :: "(string \<Rightarrow> bool option) option"
  e_registered :: bool
  e_ws :: "string \<Rightarrow> (bool \<times> bool) option"
  e_sent :: bool
  e_wait :: wait
  e_gone :: bool
  e_body :: "bytes option"
  e_end :: "ending option"

text \<open>
  \<open>e_ws\<close> is the table of connected WebSocket agents with what each can serve; \<open>e_sent\<close>
  whether the control message or the WebSocket upgrade went through; \<open>e_gone\<close> whether
  the request's own context has ended; \<open>e_end\<close> which case ends the select of a drain,
  \<open>None\<close> for the one that receives a chunk.
\<close>

record poll_request =
  pr_ns :: string
  pr_device :: string
  pr_deviceID :: string
  pr_inst :: string
  pr_name :: string
  pr_delegation :: bool
  pr_scopedExec :: bool

text \<open>A query parameter: absent, present but not a number, or a number.\<close>

type_synonym number_param = "nat option option"

record up_request =
  u_session :: string
  u_role :: string
  u_seq :: number_param
  u_length :: int

record down_request =
  w_session :: string
  w_role :: string
  w_ack :: number_param
  w_max :: "int option"
  w_want :: number_param

datatype dial_kind = ToAgent nat | FromWS nat | ToWS string

text \<open>Who takes bytes from a direction: an \<open>/h/down\<close> poll, or an in-process end.\<close>

datatype byte_taker = ByPoll string nat down_request nat | ByConn string nat

datatype (plugins only: ) task =
    TAnswer nat
  | TFree nat
  | TClose nat
  | TSettled string nat
  | TSettledToo string nat
  | TRetire string nat
  | TRemove string nat
  | TCloseFound string
  | TCloser string nat
  | TEndLease nat
  | TOpen string Open access string dial_kind
  | TPublish string nat string Open lease dial_kind
  | TLease string nat lease
  | TLeaseEnabled nat
  | TAddCloser string nat
  | TLeaseDone string nat Open dial_kind
  | TOffer nat Open "(string \<times> nat) option"
  | TReach string nat
  | TUpgrade string nat
  | TRegister string nat poll_request
  | TEnabled string nat poll_request nat
  | TWait string nat string nat
  | TTaken string string nat Open
  | TRequeue string Open
  | TSend nat Open
  | TMark string string Open
  | TChanged string string
  | TPollEnd nat
  | TUp up_request nat
  | TUpClosed up_request nat
  | TUpload nat nat int bool "(string \<times> nat \<times> string) option"
  | TBody nat nat int "(string \<times> nat \<times> string) option"
  | TPush nat bytes
  | TPushed nat bytes
  | TClosedAt string nat bool
  | TStarted string nat down_request
  | TDown string nat down_request nat
  | TTake nat nat nat byte_taker
  | TLook nat nat nat nat byte_taker
  | TWindow nat nat nat nat byte_taker
  | TPoll nat nat byte_taker
  | TDrain nat byte_taker
  | TReturn nat byte_taker
  | TFinish nat byte_taker
  | TDownEnd string nat down_request nat "reply option"
  | TTold nat
  | TSeen nat bool
  | TEvict string
  | TReport

subsection \<open>Access to the tables\<close>

definition upd_s :: "nat \<Rightarrow> (http_session \<Rightarrow> http_session) \<Rightarrow> registry \<Rightarrow> registry" where
  "upd_s s f R = R\<lparr>sess := (sess R)[s := f (sess R ! s)]\<rparr>"

definition upd_a :: "nat \<Rightarrow> (http_agent \<Rightarrow> http_agent) \<Rightarrow> registry \<Rightarrow> registry" where
  "upd_a a f R = R\<lparr>agents := (agents R)[a := f (agents R ! a)]\<rparr>"

text \<open>One critical section of direction \<open>i\<close>; \<open>None\<close> while it has to wait.\<close>

definition run_op :: "op \<Rightarrow> nat \<Rightarrow> registry \<Rightarrow> (registry \<times> answer) option" where
  "run_op a i R =
     (let (ds, p) = mem R in
      if i < length ds then
        (case exec a (ds ! i) p of
           None \<Rightarrow> None
         | Some (d, p', ans) \<Rightarrow> Some (R\<lparr>mem := (ds[i := d], p')\<rparr>, ans))
      else None)"

definition dir_of :: "registry \<Rightarrow> nat \<Rightarrow> dir" where "dir_of R i = fst (mem R) ! i"

definition do_op :: "op \<Rightarrow> nat \<Rightarrow> registry \<Rightarrow> registry" where
  "do_op a i R = (case run_op a i R of None \<Rightarrow> R | Some (R', _) \<Rightarrow> R')"

definition countNamespaceAgentsLocked :: "registry \<Rightarrow> string \<Rightarrow> nat" where
  "countNamespaceAgentsLocked R ns = length (filter (\<lambda>(_, a). ag_ns (agents R ! a) = ns) (hagents R))"

definition countNamespaceSessionsLocked :: "registry \<Rightarrow> string \<Rightarrow> nat" where
  "countNamespaceSessionsLocked R ns =
     length (filter (\<lambda>(_, s). hs_callerNS (sess R ! s) = ns) (hsess R))"

definition httpLive :: "env \<Rightarrow> http_agent \<Rightarrow> bool" where
  "httpLive e a \<longleftrightarrow> e_now e - ag_lastSeen a \<le> httpAgentTTL"

definition httpAgentObsolete :: "registry \<Rightarrow> string \<Rightarrow> string \<Rightarrow> bool" where
  "httpAgentObsolete R key inst \<longleftrightarrow>
     (case map_of (hagents R) key of
        None \<Rightarrow> False
      | Some a \<Rightarrow>
          if inst = [] then False
          else if inst \<in> set (retired (agents R ! a)) then True
          else ag_inst (agents R ! a) \<noteq> [] \<and> ag_inst (agents R ! a) \<noteq> inst)"

definition deviceLive :: "env \<Rightarrow> registry \<Rightarrow> string \<Rightarrow> string \<Rightarrow> bool" where
  "deviceLive e R ns device =
     (let key = ns @ ''/'' @ device in
      (case map_of (hagents R) key of Some a \<Rightarrow> httpLive e (agents R ! a) | None \<Rightarrow> False)
      \<or> e_ws e key \<noteq> None)"

text \<open>
  Delegated controllers can touch only their own session's client role. Full
  credentials reach the sessions of their account, on either side.
\<close>

definition allowsAccess :: "http_session \<Rightarrow> access \<Rightarrow> string \<Rightarrow> bool" where
  "allowsAccess s a role \<longleftrightarrow>
     (if delegated a then
        (role = [] \<or> role = ''client'') \<and> hs_credential s \<noteq> [] \<and> a_credential a = hs_credential s
        \<and> a_ns a = hs_callerNS s
      else a_ns a = hs_callerNS s \<or> a_ns a = hs_ownerNS s)"

definition touch :: "env \<Rightarrow> string \<Rightarrow> http_session \<Rightarrow> http_session" where
  "touch e role s =
     (if role \<noteq> ''agent'' then s\<lparr>lastActive := e_now e, clientSeen := e_now e\<rparr>
      else s\<lparr>lastActive := e_now e\<rparr>)"

definition sessionForAccess ::
  "env \<Rightarrow> registry \<Rightarrow> string \<Rightarrow> access \<Rightarrow> string \<Rightarrow> registry \<times> nat option" where
  "sessionForAccess e R sid a role =
     (case map_of (hsess R) sid of
        None \<Rightarrow> (R, None)
      | Some s \<Rightarrow>
          if \<not> allowsAccess (sess R ! s) a role then (R, None)
          else (upd_s s (touch e role) R, Some s))"

definition leaseOK :: "env \<Rightarrow> http_session \<Rightarrow> bool" where
  "leaseOK e s \<longleftrightarrow>
     (case hs_lease s of
        NoLease \<Rightarrow> True
      | Held l _ \<Rightarrow> credentialValid (e_now e) (e_store e) (e_disabler e) l
      | Ended l \<Rightarrow> credentialValid (e_now e) (e_store e) (e_disabler e) l)"

definition writes_to :: "http_session \<Rightarrow> string \<Rightarrow> nat" where
  "writes_to s role = (if role = ''agent'' then toClient s else toAgent s)"

definition reads_from :: "http_session \<Rightarrow> string \<Rightarrow> nat" where
  "reads_from s role = (if role = ''agent'' then toAgent s else toClient s)"

subsection \<open>Ending a session\<close>

text \<open>\<open>r.hsess[sid] == s\<close>, and the deletion under it.\<close>

definition registered :: "registry \<Rightarrow> string \<Rightarrow> nat \<Rightarrow> bool" where
  "registered R sid s \<longleftrightarrow> map_of (hsess R) sid = Some s"

definition unregister :: "string \<Rightarrow> nat \<Rightarrow> registry \<Rightarrow> registry" where
  "unregister sid s R = (if registered R sid s then R\<lparr>hsess := al_del sid (hsess R)\<rparr> else R)"

text \<open>\<open>s.free()\<close> and \<open>s.close()\<close>.\<close>

definition free_session :: "registry \<Rightarrow> nat \<Rightarrow> task list" where
  "free_session R s = [TFree (toClient (sess R ! s)), TFree (toAgent (sess R ! s))]"

definition close_session :: "registry \<Rightarrow> nat \<Rightarrow> task list" where
  "close_session R s = [TClose (toClient (sess R ! s)), TClose (toAgent (sess R ! s))]"

definition closeHTTPSession :: "registry \<Rightarrow> string \<Rightarrow> nat \<Rightarrow> registry \<times> task list" where
  "closeHTTPSession R sid s = (unregister sid s R, free_session R s @ [TEndLease s])"

text \<open>
  \<open>releaseDrainedSession\<close>: each direction is asked under its own lock, then the
  registry is taken.
\<close>

definition releaseDrained_client :: "registry \<Rightarrow> string \<Rightarrow> nat \<Rightarrow> task list" where
  "releaseDrained_client R sid s =
     (if settled (dq (dir_of R (toClient (sess R ! s)))) then [TSettledToo sid s] else [])"

definition releaseDrained_agent :: "registry \<Rightarrow> string \<Rightarrow> nat \<Rightarrow> task list" where
  "releaseDrained_agent R sid s =
     (if settled (dq (dir_of R (toAgent (sess R ! s)))) then [TRetire sid s] else [])"

definition retires :: "registry \<Rightarrow> string \<Rightarrow> nat \<Rightarrow> bool" where
  "retires R sid s \<longleftrightarrow>
     \<not> IsZero (closedAt (sess R ! s)) \<and> registered R sid s
     \<and> (endReason (sess R ! s) = [] \<or> endTold (sess R ! s))"

definition releaseDrained_retire :: "registry \<Rightarrow> string \<Rightarrow> nat \<Rightarrow> registry \<times> task list" where
  "releaseDrained_retire R sid s =
     (if retires R sid s
      then (R\<lparr>hsess := al_del sid (hsess R)\<rparr>, free_session R s @ [TEndLease s])
      else (R, []))"

text \<open>\<open>accessLease.close\<close>: once, and then the session's closer if it is on the lease.\<close>

definition lease_close :: "registry \<Rightarrow> nat \<Rightarrow> registry \<times> task list" where
  "lease_close R s =
     (case hs_lease (sess R ! s) of
        Held l c \<Rightarrow>
          (let R = upd_s s (\<lambda>h. h\<lparr>hs_lease := Ended l\<rparr>) R in
           (if map_of (leases R) (l_sid l) = Some s then R\<lparr>leases := al_del (l_sid l) (leases R)\<rparr> else R,
            if c then [TCloser (l_sid l) s] else []))
      | _ \<Rightarrow> (R, []))"

definition session_closer :: "registry \<Rightarrow> string \<Rightarrow> nat \<Rightarrow> registry \<times> task list" where
  "session_closer R sid s = (unregister sid s R, free_session R s)"

definition addCloser :: "registry \<Rightarrow> string \<Rightarrow> nat \<Rightarrow> registry \<times> task list" where
  "addCloser R sid s =
     (case hs_lease (sess R ! s) of
        Held l _ \<Rightarrow> (upd_s s (\<lambda>h. h\<lparr>hs_lease := Held l True\<rparr>) R, [])
      | _ \<Rightarrow> (R, [TCloser sid s]))"

text \<open>The mark of \<open>handleHClose\<close> (always) and of \<open>closeHTTPSessionDrainable\<close> (if it is the first).\<close>

definition mark_closed :: "env \<Rightarrow> registry \<Rightarrow> string \<Rightarrow> nat \<Rightarrow> bool \<Rightarrow> registry" where
  "mark_closed e R sid s gently =
     (if gently \<and> \<not> (registered R sid s \<and> IsZero (closedAt (sess R ! s))) then R
      else upd_s s (\<lambda>h. h\<lparr>closedAt := e_now e\<rparr>) R)"

definition closeHTTPSessionDrainable :: "registry \<Rightarrow> string \<Rightarrow> nat \<Rightarrow> task list" where
  "closeHTTPSessionDrainable R sid s = TClosedAt sid s True # close_session R s @ [TSettled sid s]"

text \<open>Closing the in-process end that plays \<open>role\<close>.\<close>

definition conn_close :: "registry \<Rightarrow> string \<Rightarrow> nat \<Rightarrow> string \<Rightarrow> task list" where
  "conn_close R sid s role = TFree (reads_from (sess R ! s) role) # closeHTTPSessionDrainable R sid s"

text \<open>What is left of \<open>handleHClose\<close> once the last bytes are in.\<close>

definition handleHClose_end :: "registry \<Rightarrow> string \<Rightarrow> nat \<Rightarrow> string \<Rightarrow> task list" where
  "handleHClose_end R sid s role =
     TClosedAt sid s False # close_session R s
     @ [TFree (if role = ''agent'' then toAgent (sess R ! s) else toClient (sess R ! s)), TSettled sid s]"

definition writeSessionClosed :: "nat \<Rightarrow> registry \<Rightarrow> registry" where
  "writeSessionClosed s R = upd_s s (\<lambda>h. h\<lparr>endTold := True\<rparr>) R"

subsection \<open>Opening a session\<close>

text \<open>The two directions of a new session, attached to the relay's account.\<close>

definition charged_ns :: "registry \<Rightarrow> Open \<Rightarrow> string" where
  "charged_ns R msg =
     (if portal R \<noteq> [] \<and> callerNS msg = portal R then [] else callerNS msg)"

definition add_dir :: "relay_mem \<Rightarrow> string \<Rightarrow> relay_mem" where
  "add_dir m ns = (let (q, p) = attach (newSideQueue, snd m) ns in (fst m @ [new_dir q], p))"

definition newHTTPSession ::
  "env \<Rightarrow> registry \<Rightarrow> string \<Rightarrow> Open \<Rightarrow> access \<Rightarrow> string \<Rightarrow> dial_kind \<Rightarrow> registry \<times> task list" where
  "newHTTPSession e R sid msg a token kind =
     (let ns = charged_ns R msg; n = length (fst (mem R));
          s = \<lparr>toClient = n, toAgent = n + 1, hs_callerNS = callerNS msg,
               hs_credential = o_credential msg, hs_lease = NoLease, hs_ownerNS = ownerNS msg,
               lastActive = e_now e, clientSeen = e_now e, clientBridged = False,
               clientPollGeneration = 0, disconnectTimer = False, closedAt = 0,
               agentKey = [], agentInst = [], endReason = [], endTold = False\<rparr>;
          l = \<lparr>l_sid = sid, l_target = ownerNS msg @ ''/'' @ o_device msg, l_token = token,
               l_access = a, l_caps = o_caps msg\<rparr>
      in (R\<lparr>sess := sess R @ [s], mem := add_dir (add_dir (mem R) ns) ns\<rparr>,
          [TPublish sid (length (sess R)) ns msg l kind]))"

text \<open>The count and the registration, under one lock.\<close>

definition publish_session ::
  "registry \<Rightarrow> string \<Rightarrow> nat \<Rightarrow> string \<Rightarrow> Open \<Rightarrow> lease \<Rightarrow> dial_kind \<Rightarrow> registry \<times> task list" where
  "publish_session R sid s ns msg l kind =
     (if length (hsess R) \<ge> maxSessions R \<or> (ns \<noteq> [] \<and> countNamespaceSessionsLocked R ns \<ge> httpSessionsPerNS)
      then (R, free_session R s @ [TAnswer 429])
      else (R\<lparr>hsess := al_put sid s (hsess R)\<rparr>,
            [TLease sid s l, TLeaseEnabled s, TAddCloser sid s, TLeaseDone sid s msg kind]))"

definition beginAccessLease :: "registry \<Rightarrow> string \<Rightarrow> nat \<Rightarrow> lease \<Rightarrow> registry" where
  "beginAccessLease R sid s l =
     upd_s s (\<lambda>h. h\<lparr>hs_lease := Held l False\<rparr>) (R\<lparr>leases := al_put sid s (leases R)\<rparr>)"

definition lease_enabled :: "env \<Rightarrow> registry \<Rightarrow> nat \<Rightarrow> task list" where
  "lease_enabled e R s =
     (case hs_lease (sess R ! s) of
        Held l _ \<Rightarrow>
          if accountsEnabled (e_disabler e) [a_ns (l_access l), l_owner l] then [] else [TEndLease s]
      | _ \<Rightarrow> [])"

definition lease_done :: "registry \<Rightarrow> nat \<Rightarrow> bool" where
  "lease_done R s \<longleftrightarrow> (case hs_lease (sess R ! s) of Ended _ \<Rightarrow> True | _ \<Rightarrow> False)"

text \<open>
  What each dial does with the session it got: the offer to a polling device, the same
  for a controller on WebSocket (whose session the relay marks as bridged), or the
  message to a device on WebSocket.
\<close>

definition session_opened ::
  "registry \<Rightarrow> string \<Rightarrow> nat \<Rightarrow> Open \<Rightarrow> dial_kind \<Rightarrow> registry \<times> task list" where
  "session_opened R sid s msg kind =
     (if lease_done R s then (R, [TAnswer 429])
      else case kind of
             ToAgent a \<Rightarrow> (R, [TOffer a msg None])
           | FromWS a \<Rightarrow> (upd_s s (\<lambda>h. h\<lparr>clientBridged := True\<rparr>) R, [TOffer a msg (Some (sid, s))])
           | ToWS _ \<Rightarrow> (R, [TReach sid s]))"

text \<open>The offer never waits: the device's channel holds eight. A refused dial closes its session.\<close>

definition offer :: "registry \<Rightarrow> nat \<Rightarrow> Open \<Rightarrow> (string \<times> nat) option \<Rightarrow> registry \<times> task list" where
  "offer R a msg bridged =
     (if length (ag_open (agents R ! a)) < 8
      then (upd_a a (\<lambda>g. g\<lparr>ag_open := ag_open g @ [msg]\<rparr>) R,
            case bridged of None \<Rightarrow> [TAnswer 200] | Some (sid, s) \<Rightarrow> [TUpgrade sid s])
      else (R, (case bridged of None \<Rightarrow> [TCloseFound (o_session msg)] | Some (sid, s) \<Rightarrow> [TRemove sid s])
               @ [TAnswer 503]))"

definition close_found :: "registry \<Rightarrow> string \<Rightarrow> task list" where
  "close_found R sid =
     (case map_of (hsess R) sid of None \<Rightarrow> [] | Some s \<Rightarrow> [TRemove sid s])"

definition handleHDialToWS ::
  "env \<Rightarrow> string \<Rightarrow> string \<Rightarrow> Open \<Rightarrow> access \<Rightarrow> string \<Rightarrow> task list" where
  "handleHDialToWS e sid key msg a token =
     (case e_ws e key of
        None \<Rightarrow> [TAnswer 404]
      | Some (delegationOK, scopedOK) \<Rightarrow>
          if \<not> agentServes a delegationOK scopedOK then [TAnswer 409]
          else [TOpen sid (msg\<lparr>o_session := sid\<rparr>) a token (ToWS key)])"

definition handleHDial ::
  "env \<Rightarrow> registry \<Rightarrow> relay_view \<Rightarrow> access \<Rightarrow> string \<Rightarrow> string \<Rightarrow> string \<Rightarrow> task list" where
  "handleHDial e R view a token target sid =
     (case dialAccessAllowed (e_now e) view a target of
        Inl why \<Rightarrow> [TAnswer 403]
      | Inr (key, msg) \<Rightarrow>
         (case map_of (hagents R) key of
            None \<Rightarrow> handleHDialToWS e sid key msg a token
          | Some g \<Rightarrow>
              if \<not> httpLive e (agents R ! g) then handleHDialToWS e sid key msg a token
              else if \<not> agentServes a (ag_delegation (agents R ! g)) (ag_scopedExec (agents R ! g))
              then [TAnswer 409]
              else [TOpen sid (msg\<lparr>o_session := sid\<rparr>) a token (ToAgent g)]))"

text \<open>\<open>handleDial\<close> of the WebSocket transport, for a device that polls.\<close>

definition handleWSDialToHTTP ::
  "env \<Rightarrow> registry \<Rightarrow> string \<Rightarrow> Open \<Rightarrow> access \<Rightarrow> string \<Rightarrow> string \<Rightarrow> task list" where
  "handleWSDialToHTTP e R key msg a token sid =
     (case map_of (hagents R) key of
        None \<Rightarrow> [TAnswer 404]
      | Some g \<Rightarrow>
          if \<not> httpLive e (agents R ! g) then [TAnswer 404]
          else if \<not> agentServes a (ag_delegation (agents R ! g)) (ag_scopedExec (agents R ! g))
          then [TAnswer 409]
          else [TOpen sid (msg\<lparr>o_session := sid\<rparr>) a token (FromWS g)])"

subsection \<open>Devices that poll\<close>

text \<open>
  \<open>handleHPoll\<close> up to its wait. The registration of a poll holds \<open>registrationMu\<close>
  (\<open>regLock\<close>) from the look at the old entry to the publication of the new one; what
  the device's records say about it (\<open>registerDeviceID\<close> and its relatives) is
  \<open>e_registered\<close>.
\<close>

definition new_agent :: "string \<Rightarrow> string \<Rightarrow> http_agent" where
  "new_agent ns device =
     \<lparr>ag_ns = ns, ag_device = device, ag_name = [], ag_open = [], ag_lastSeen = 0, ag_inst = [],
      retired = [], ag_changed = 0, ag_delegation = False, ag_scopedExec = False, polls = 0\<rparr>"

definition poll_key :: "poll_request \<Rightarrow> string" where
  "poll_key q = pr_ns q @ ''/'' @ pr_device q"

definition poll_look :: "registry \<Rightarrow> poll_request \<Rightarrow> registry \<times> task list" where
  "poll_look R q =
     (if pr_device q = [] then (R, [TAnswer 400])
      else if length (pr_inst q) > 255 then (R, [TAnswer 400])
      else case map_of (hagents R) (poll_key q) of
             None \<Rightarrow>
               if countNamespaceAgentsLocked R (pr_ns q) \<ge> httpAgentsPerNS then (R, [TAnswer 429])
               else (R\<lparr>agents := agents R @ [new_agent (pr_ns q) (pr_device q)], regLock := True\<rparr>,
                     [TRegister (poll_key q) (length (agents R)) q])
           | Some a \<Rightarrow>
               if pr_inst q \<noteq> [] \<and> pr_inst q \<in> set (retired (agents R ! a)) then (R, [TAnswer 409])
               else (R\<lparr>regLock := True\<rparr>, [TRegister (poll_key q) a q]))"

text \<open>A poll of another instance retires the one that polled before.\<close>

definition take_over :: "string \<Rightarrow> http_agent \<Rightarrow> http_agent" where
  "take_over inst g =
     (if inst \<noteq> [] then
        (if ag_inst g \<noteq> [] \<and> ag_inst g \<noteq> inst
         then g\<lparr>retired := ag_inst g # retired g, ag_changed := ag_changed g + 1, ag_inst := inst\<rparr>
         else g\<lparr>ag_inst := inst\<rparr>)
      else g)"

definition poll_publish ::
  "env \<Rightarrow> registry \<Rightarrow> string \<Rightarrow> nat \<Rightarrow> poll_request \<Rightarrow> registry \<times> task list" where
  "poll_publish e R key a q =
     (if pr_deviceID q \<noteq> [] \<and> pr_deviceID q \<noteq> pr_device q then (R\<lparr>regLock := False\<rparr>, [TAnswer 400])
      else if \<not> e_registered e then (R\<lparr>regLock := False\<rparr>, [TAnswer 409])
      else
        (let R = upd_a a (\<lambda>g. (take_over (pr_inst q) g)
               \<lparr>ag_name := pr_name q, ag_delegation := pr_delegation q, ag_scopedExec := pr_scopedExec q,
                ag_lastSeen := e_now e, polls := polls g + 1\<rparr>) R
         in (R\<lparr>hagents := al_put key a (hagents R)\<rparr>, [TEnabled key a q (ag_changed (agents R ! a))])))"

definition poll_enabled ::
  "env \<Rightarrow> registry \<Rightarrow> string \<Rightarrow> nat \<Rightarrow> poll_request \<Rightarrow> nat \<Rightarrow> registry \<times> task list" where
  "poll_enabled e R key a q gen =
     (if \<not> accountsEnabled (e_disabler e) [pr_ns q] then
        ((upd_a a (\<lambda>g. g\<lparr>polls := polls g - 1\<rparr>) R)\<lparr>hagents := al_del key (hagents R), regLock := False\<rparr>,
         [TAnswer 403])
      else (R\<lparr>regLock := False\<rparr>, [TWait key a (pr_inst q) gen]))"

text \<open>The \<open>select\<close> at the end of \<open>handleHPoll\<close>; it stays where it is while no case is ready.\<close>

definition poll_wait ::
  "env \<Rightarrow> registry \<Rightarrow> string \<Rightarrow> nat \<Rightarrow> string \<Rightarrow> nat \<Rightarrow> registry \<times> task list" where
  "poll_wait e R key a inst gen =
     (case e_wait e of
        GotOpen \<Rightarrow>
          (case ag_open (agents R ! a) of
             [] \<Rightarrow> (R, [TWait key a inst gen])
           | msg # msgs \<Rightarrow> (upd_a a (\<lambda>g. g\<lparr>ag_open := msgs\<rparr>) R, [TTaken key inst a msg]))
      | PollChanged \<Rightarrow>
          if gen < ag_changed (agents R ! a) then (R, [TChanged key inst, TPollEnd a])
          else (R, [TWait key a inst gen])
      | PollTimedOut \<Rightarrow> (R, [TAnswer 200, TPollEnd a])
      | PollGone \<Rightarrow> (R, [TPollEnd a]))"

definition poll_taken_open :: "registry \<Rightarrow> string \<Rightarrow> string \<Rightarrow> nat \<Rightarrow> Open \<Rightarrow> task list" where
  "poll_taken_open R key inst a msg =
     (if inst \<noteq> [] \<and> httpAgentObsolete R key inst then [TRequeue key msg, TAnswer 409, TPollEnd a]
      else [TMark key inst msg, TAnswer 200, TPollEnd a])"

definition requeueHTTPJob :: "registry \<Rightarrow> string \<Rightarrow> Open \<Rightarrow> task list" where
  "requeueHTTPJob R key msg =
     (case map_of (hagents R) key of None \<Rightarrow> [] | Some a \<Rightarrow> [TSend a msg])"

definition send_open :: "registry \<Rightarrow> nat \<Rightarrow> Open \<Rightarrow> registry \<times> task list" where
  "send_open R a msg =
     (if length (ag_open (agents R ! a)) < 8
      then (upd_a a (\<lambda>g. g\<lparr>ag_open := ag_open g @ [msg]\<rparr>) R, []) else (R, [TSend a msg]))"

text \<open>The session now belongs to the process that took it.\<close>

definition mark_agent :: "registry \<Rightarrow> string \<Rightarrow> string \<Rightarrow> Open \<Rightarrow> registry" where
  "mark_agent R key inst msg =
     (case map_of (hsess R) (o_session msg) of
        None \<Rightarrow> R
      | Some s \<Rightarrow> upd_s s (\<lambda>h. h\<lparr>agentKey := key, agentInst := inst\<rparr>) R)"

definition poll_changed :: "registry \<Rightarrow> string \<Rightarrow> string \<Rightarrow> task list" where
  "poll_changed R key inst =
     [TAnswer (if inst \<noteq> [] \<and> httpAgentObsolete R key inst then 409 else 200)]"

definition poll_end :: "env \<Rightarrow> nat \<Rightarrow> registry \<Rightarrow> registry" where
  "poll_end e a R = upd_a a (\<lambda>g. g\<lparr>polls := polls g - 1, ag_lastSeen := e_now e\<rparr>) R"

definition handleHDeregister :: "registry \<Rightarrow> string \<Rightarrow> string \<Rightarrow> string \<Rightarrow> registry \<times> task list" where
  "handleHDeregister R ns device inst =
     (let key = ns @ ''/'' @ device in
      if inst \<noteq> [] \<and> (case map_of (hagents R) key of
            None \<Rightarrow> False
          | Some a \<Rightarrow> ag_inst (agents R ! a) \<noteq> [] \<and> ag_inst (agents R ! a) \<noteq> inst)
      then (R, [TAnswer 200])
      else (R\<lparr>hagents := al_del key (hagents R)\<rparr>, [TAnswer 200]))"

text \<open>\<open>adminDeviceRemove\<close> on the registry, and the devices' part of \<open>disconnectNamespace\<close>.\<close>

definition remove_agent :: "registry \<Rightarrow> string \<Rightarrow> string \<Rightarrow> registry" where
  "remove_agent R ns device = R\<lparr>hagents := al_del (ns @ ''/'' @ device) (hagents R)\<rparr>"

definition evict_agents :: "registry \<Rightarrow> string \<Rightarrow> registry" where
  "evict_agents R ns =
     (let gone = filter (\<lambda>(_, a). ag_ns (agents R ! a) = ns) (hagents R) in
      (foldr (\<lambda>(_, a). upd_a a (\<lambda>g. g\<lparr>ag_changed := ag_changed g + 1\<rparr>)) gone R)
        \<lparr>hagents := filter (\<lambda>(_, a). ag_ns (agents R ! a) \<noteq> ns) (hagents R)\<rparr>)"

text \<open>The leases \<open>disconnectNamespace\<close> closes first.\<close>

definition lease_of :: "http_session \<Rightarrow> lease option" where
  "lease_of h = (case hs_lease h of NoLease \<Rightarrow> None | Held l _ \<Rightarrow> Some l | Ended l \<Rightarrow> Some l)"

definition disconnectNamespace :: "registry \<Rightarrow> string \<Rightarrow> task list" where
  "disconnectNamespace R ns =
     map (\<lambda>(_, s). TEndLease s)
       (filter (\<lambda>(_, s). case lease_of (sess R ! s) of
                  None \<Rightarrow> False | Some l \<Rightarrow> a_ns (l_access l) = ns \<or> l_owner l = ns) (leases R))
     @ [TEvict ns]"

subsection \<open>Uploads\<close>

definition handleHUp ::
  "env \<Rightarrow> registry \<Rightarrow> access \<Rightarrow> up_request \<Rightarrow> registry \<times> task list" where
  "handleHUp e R a u =
     (case sessionForAccess e R (u_session u) a (u_role u) of
        (R, None) \<Rightarrow> (R, [TAnswer 404])
      | (R, Some s) \<Rightarrow> (R, [TUp u s]))"

definition up_lease :: "env \<Rightarrow> registry \<Rightarrow> up_request \<Rightarrow> nat \<Rightarrow> task list" where
  "up_lease e R u s =
     (if \<not> leaseOK e (sess R ! s) then [TRemove (u_session u) s, TAnswer 410] else [TUpClosed u s])"

text \<open>The start of \<open>acceptUpload\<close>: a body of unknown length is given the most it may have.\<close>

definition acceptUpload ::
  "nat \<Rightarrow> nat \<Rightarrow> int \<Rightarrow> (string \<times> nat \<times> string) option \<Rightarrow> task list" where
  "acceptUpload i seq n closing =
     (if n > maxUploadBytes then [TAnswer 413]
      else [TUpload i seq (if n < 0 then maxUploadBytes else n) False closing])"

definition up_closed :: "registry \<Rightarrow> up_request \<Rightarrow> nat \<Rightarrow> task list" where
  "up_closed R u s =
     (if \<not> IsZero (closedAt (sess R ! s)) then [TTold s, TAnswer 410]
      else case u_seq u of
             None \<Rightarrow> acceptUpload (writes_to (sess R ! s) (u_role u)) 0 (u_length u) None
           | Some None \<Rightarrow> [TAnswer 400]
           | Some (Some seq) \<Rightarrow>
               if seq = 0 then [TAnswer 400]
               else acceptUpload (writes_to (sess R ! s) (u_role u)) seq (u_length u) None)"

text \<open>
  What follows an upload: the status of \<open>/h/up\<close>, or for the last bytes of a close
  the close itself, which a direction that has already closed does not stop.
\<close>

definition upload_taken :: "registry \<Rightarrow> (string \<times> nat \<times> string) option \<Rightarrow> task list" where
  "upload_taken R closing =
     (case closing of
        None \<Rightarrow> [TAnswer 200]
      | Some (sid, s, role) \<Rightarrow> handleHClose_end R sid s role @ [TAnswer 200])"

definition upload_closed :: "registry \<Rightarrow> (string \<times> nat \<times> string) option \<Rightarrow> task list" where
  "upload_closed R closing =
     TAnswer 410 # (case closing of None \<Rightarrow> [] | Some (sid, s, role) \<Rightarrow> handleHClose_end R sid s role)"

definition upload_admit ::
  "env \<Rightarrow> registry \<Rightarrow> nat \<Rightarrow> nat \<Rightarrow> int \<Rightarrow> bool \<Rightarrow> (string \<times> nat \<times> string) option \<Rightarrow> registry \<times> task list" where
  "upload_admit e R i seq n waited closing =
     (case run_op (if seq = 0 then OpReserve n waited else OpAdmit seq n waited) i R of
        Some (R, AdmissionIs Admitted) \<Rightarrow> (R, [TBody i seq n closing])
      | Some (R, AdmissionIs (MustWait w)) \<Rightarrow>
          (R, if e_gone e then [TAnswer 503] else [TUpload i seq n w closing])
      | Some (R, AdmissionIs (Refused ErrRepeatWrite)) \<Rightarrow> (R, upload_taken R closing)
      | Some (R, AdmissionIs (Refused ErrQueueClosed)) \<Rightarrow> (R, upload_closed R closing)
      | Some (R, _) \<Rightarrow> (R, [TAnswer 503])
      | None \<Rightarrow> (R, [TAnswer 503]))"

text \<open>\<open>readUpload\<close> failed, or its bytes go into the stream.\<close>

definition upload_body ::
  "env \<Rightarrow> registry \<Rightarrow> nat \<Rightarrow> nat \<Rightarrow> int \<Rightarrow> (string \<times> nat \<times> string) option \<Rightarrow> registry \<times> task list" where
  "upload_body e R i seq n closing =
     (case e_body e of
        None \<Rightarrow> (do_op (OpUnreserve n) i R, [TAnswer 400])
      | Some b \<Rightarrow>
          if int (length b) > n then (do_op (OpUnreserve n) i R, [TAnswer 413])
          else
           (case run_op (if seq = 0 then OpEnqueue b n else OpCommit seq b n) i R of
              Some (R, WriteIs (Inr _)) \<Rightarrow> (R, upload_taken R closing)
            | Some (R, _) \<Rightarrow> (R, upload_closed R closing)
            | None \<Rightarrow> (R, upload_closed R closing)))"

subsection \<open>Polls\<close>

definition handleHDown ::
  "env \<Rightarrow> registry \<Rightarrow> access \<Rightarrow> down_request \<Rightarrow> registry \<times> task list" where
  "handleHDown e R a d =
     (case sessionForAccess e R (w_session d) a (w_role d) of
        (R, None) \<Rightarrow> (R, [TAnswer 404])
      | (R, Some s) \<Rightarrow>
          (R, if w_role d \<noteq> ''agent'' then [TStarted (w_session d) s d] else [TDown (w_session d) s d 0]))"

text \<open>A number of \<open>0\<close> stands for no controller poll.\<close>

definition controllerPollStarted :: "registry \<Rightarrow> string \<Rightarrow> nat \<Rightarrow> registry \<times> nat" where
  "controllerPollStarted R sid s =
     (if \<not> registered R sid s then (R, 0)
      else (let R = upd_s s (\<lambda>h. h\<lparr>clientPollGeneration := clientPollGeneration h + 1,
                                   disconnectTimer := False\<rparr>) R
            in (R, clientPollGeneration (sess R ! s))))"

definition controllerPollCancelled :: "env \<Rightarrow> registry \<Rightarrow> string \<Rightarrow> nat \<Rightarrow> nat \<Rightarrow> registry" where
  "controllerPollCancelled e R sid s generation =
     (let h = sess R ! s in
      if \<not> registered R sid s \<or> clientPollGeneration h \<noteq> generation \<or> \<not> IsZero (closedAt h)
         \<or> endReason h \<noteq> [] then R
      else if \<not> disconnectTimer h
      then (upd_s s (\<lambda>h. h\<lparr>disconnectTimer := True\<rparr>) R)
             \<lparr>timers := (e_now e + controllerDisconnectGrace, sid, s, generation) # timers R\<rparr>
      else R)"

text \<open>
  A timer that was stopped may have fired already, so its callback stays in \<open>timers\<close>
  and may run at any time after it is due.
\<close>

definition expireControllerDisconnect ::
  "registry \<Rightarrow> string \<Rightarrow> nat \<Rightarrow> nat \<Rightarrow> registry \<times> task list" where
  "expireControllerDisconnect R sid s generation =
     (let h = sess R ! s in
      if clientPollGeneration h \<noteq> generation \<or> \<not> disconnectTimer h then (R, [])
      else
        (let R = upd_s s (\<lambda>h. h\<lparr>disconnectTimer := False\<rparr>) R in
         if \<not> registered R sid s \<or> \<not> IsZero (closedAt h) \<or> endReason h \<noteq> [] then (R, [])
         else (R\<lparr>hsess := al_del sid (hsess R)\<rparr>, [TRemove sid s])))"

definition down_limit :: "down_request \<Rightarrow> nat" where
  "down_limit d =
     (case w_max d of
        Some m \<Rightarrow> if m > 0 then min (nat m) maxDrainLimit else maxDrainBytes
      | None \<Rightarrow> maxDrainBytes)"

definition down_take :: "registry \<Rightarrow> string \<Rightarrow> nat \<Rightarrow> down_request \<Rightarrow> nat \<Rightarrow> task list" where
  "down_take R sid s d g =
     (let i = reads_from (sess R ! s) (w_role d); p = ByPoll sid s d g in
      case w_ack d of
        None \<Rightarrow> [TPoll i maxDrainBytes p]
      | Some None \<Rightarrow> [TAnswer 400, TSettled sid s]
      | Some (Some ack) \<Rightarrow>
         (case w_want d of
            None \<Rightarrow> [TTake i ack (down_limit d) p]
          | Some None \<Rightarrow> [TAnswer 400, TSettled sid s]
          | Some (Some want) \<Rightarrow>
              if want \<le> ack \<or> want - ack > DownWindowSize then [TAnswer 400, TSettled sid s]
              else [TLook i ack want (min (down_limit d) (4 * 2 ^ 20)) p]))"

text \<open>A take is over; \<open>None\<close> when the reader gave up before its turn.\<close>

definition after_poll :: "nat \<Rightarrow> byte_taker \<Rightarrow> reply option \<Rightarrow> task list" where
  "after_poll i p r =
     (case p of
        ByPoll sid s d g \<Rightarrow> [TDownEnd sid s d g r, TSettled sid s]
      | ByConn sid s \<Rightarrow>
          if (case r of None \<Rightarrow> False | Some r \<Rightarrow> r_data r \<noteq> [] \<or> r_closed r) then [TSettled sid s]
          else [TPoll i maxDrainBytes p])"

definition no_data :: "reply" where "no_data = \<lparr>r_data = [], r_seq = 0, r_closed = False\<rparr>"

definition poll_start :: "env \<Rightarrow> registry \<Rightarrow> op \<Rightarrow> nat \<Rightarrow> byte_taker \<Rightarrow> task \<Rightarrow> registry \<times> task list" where
  "poll_start e R a i p again =
     (case run_op a i R of
        None \<Rightarrow> (R, if e_gone e then after_poll i p None else [again])
      | Some (R, ReplyIs r) \<Rightarrow> (R, after_poll i p (Some r))
      | Some (R, _) \<Rightarrow> (R, [TDrain i p]))"

text \<open>What a numbered poll does while it cannot go on: its own timeout is an empty answer.\<close>

definition window_wait :: "env \<Rightarrow> registry \<Rightarrow> nat \<Rightarrow> byte_taker \<Rightarrow> task \<Rightarrow> registry \<times> task list" where
  "window_wait e R i p again =
     (R, if e_gone e then after_poll i p None
         else if e_end e = Some EndIdle then after_poll i p (Some no_data) else [again])"

definition is_next :: "registry \<Rightarrow> nat \<Rightarrow> nat \<Rightarrow> bool" where
  "is_next R i want \<longleftrightarrow> want = q_seq (dq (dir_of R i)) + 1"

definition window_next ::
  "env \<Rightarrow> registry \<Rightarrow> nat \<Rightarrow> nat \<Rightarrow> nat \<Rightarrow> nat \<Rightarrow> byte_taker \<Rightarrow> registry \<times> task list" where
  "window_next e R i ack want limit p =
     (case run_op (OpLook ack want) i R of
        Some (R, ReplyIs r) \<Rightarrow> (R, after_poll i p (Some r))
      | Some (R, _) \<Rightarrow>
          if is_next R i want then (R, [TWindow i ack want limit p])
          else window_wait e R i p (TLook i ack want limit p)
      | None \<Rightarrow> (R, []))"

definition window_turn ::
  "env \<Rightarrow> registry \<Rightarrow> nat \<Rightarrow> nat \<Rightarrow> nat \<Rightarrow> nat \<Rightarrow> byte_taker \<Rightarrow> registry \<times> task list" where
  "window_turn e R i ack want limit p =
     (case run_op (OpWindow want limit) i R of
        None \<Rightarrow> window_wait e R i p (TWindow i ack want limit p)
      | Some (R', _) \<Rightarrow> (R', [if is_next R i want then TDrain i p else TLook i ack want limit p]))"

definition drain_turn :: "env \<Rightarrow> registry \<Rightarrow> nat \<Rightarrow> byte_taker \<Rightarrow> registry \<times> task list" where
  "drain_turn e R i p =
     (case e_end e of
        None \<Rightarrow>
          (case run_op OpPull i R of None \<Rightarrow> (R, [TDrain i p]) | Some (R, _) \<Rightarrow> (R, [TDrain i p]))
      | Some en \<Rightarrow>
          (case run_op (OpEnd en) i R of None \<Rightarrow> (R, [TDrain i p]) | Some (R, _) \<Rightarrow> (R, [TReturn i p])))"

definition drain_finish :: "registry \<Rightarrow> nat \<Rightarrow> byte_taker \<Rightarrow> registry \<times> task list" where
  "drain_finish R i p =
     (case run_op OpFinish i R of
        Some (R, ReplyIs r) \<Rightarrow> (R, after_poll i p (Some r))
      | _ \<Rightarrow> (R, []))"

text \<open>The end of \<open>handleHDown\<close>.\<close>

definition down_end ::
  "env \<Rightarrow> registry \<Rightarrow> string \<Rightarrow> nat \<Rightarrow> down_request \<Rightarrow> nat \<Rightarrow> reply option \<Rightarrow> registry \<times> task list" where
  "down_end e R sid s d g r =
     (let data = (case r of None \<Rightarrow> [] | Some r \<Rightarrow> r_data r);
          closed = (case r of None \<Rightarrow> False | Some r \<Rightarrow> r_closed r) in
      if e_gone e \<and> data = [] \<and> g \<noteq> 0 \<and> w_want d = None then (controllerPollCancelled e R sid s g, [])
      else if r = None then (R, [])
      else if \<not> leaseOK e (sess R ! s) then (R, [TRemove sid s, TAnswer 410])
      else if closed \<and> data = [] then (R, [TTold s, TAnswer 410])
      else if data = [] then (R, [TAnswer 204])
      else (R, [TAnswer 200, TSeen s (w_role d \<noteq> ''agent'')]))"

definition down_seen :: "env \<Rightarrow> nat \<Rightarrow> bool \<Rightarrow> registry \<Rightarrow> registry" where
  "down_seen e s client R =
     upd_s s (\<lambda>h. if client then h\<lparr>lastActive := e_now e, clientSeen := e_now e\<rparr>
                  else h\<lparr>lastActive := e_now e\<rparr>) R"

definition handleHClose :: "registry \<Rightarrow> access \<Rightarrow> up_request \<Rightarrow> task list" where
  "handleHClose R a u =
     (case map_of (hsess R) (u_session u) of
        None \<Rightarrow> [TAnswer 404]
      | Some s \<Rightarrow>
          if \<not> allowsAccess (sess R ! s) a (u_role u) then [TAnswer 404]
          else case u_seq u of
                 None \<Rightarrow> handleHClose_end R (u_session u) s (u_role u) @ [TAnswer 200]
               | Some None \<Rightarrow> [TAnswer 400]
               | Some (Some seq) \<Rightarrow>
                   if seq = 0 then [TAnswer 400]
                   else acceptUpload (writes_to (sess R ! s) (u_role u)) seq (u_length u)
                          (Some (u_session u, s, u_role u)))"

subsection \<open>The sweepers\<close>

text \<open>Whether \<open>reapHTTP\<close> drops session \<open>h\<close>.\<close>

definition reaps :: "registry \<Rightarrow> gotime \<Rightarrow> http_session \<Rightarrow> bool" where
  "reaps R now h \<longleftrightarrow>
     (let (serveC, heldC) = undelivered (dq (dir_of R (toClient h)));
          (serveA, heldA) = undelivered (dq (dir_of R (toAgent h)));
          idle = (if heldC \<or> heldA then unackedRetention else httpSessionIdle)
      in if \<not> clientBridged h \<and> \<not> serveC \<and> IsZero (closedAt h) \<and> \<not> IsZero (clientSeen h)
            \<and> now - clientSeen h > idle then True
         else if serveC \<or> serveA then False
         else \<not> IsZero (lastActive h) \<and> now - lastActive h > idle)"

definition reapHTTP :: "env \<Rightarrow> registry \<Rightarrow> registry \<times> task list" where
  "reapHTTP e R =
     (R\<lparr>hagents := filter (\<lambda>(_, a). \<not> e_now e - ag_lastSeen (agents R ! a) > httpAgentTTL) (hagents R),
        hsess := filter (\<lambda>(_, s). \<not> reaps R (e_now e) (sess R ! s)) (hsess R)\<rparr>,
      concat (map (\<lambda>(_, s). free_session R s @ [TEndLease s])
                (filter (\<lambda>(_, s). reaps R (e_now e) (sess R ! s)) (hsess R))) @ [TReport])"

text \<open>Whether the process that took session \<open>h\<close> is gone.\<close>

definition agent_gone :: "registry \<Rightarrow> gotime \<Rightarrow> http_session \<Rightarrow> bool" where
  "agent_gone R now h \<longleftrightarrow>
     \<not> (agentKey h = [] \<or> endReason h \<noteq> [])
     \<and> \<not> (case map_of (hagents R) (agentKey h) of
            None \<Rightarrow> False
          | Some a \<Rightarrow>
              (agentInst h = [] \<or> ag_inst (agents R ! a) = agentInst h)
              \<and> (polls (agents R ! a) > 0 \<or> now - ag_lastSeen (agents R ! a) \<le> deviceGoneAfter))"

definition end_gone :: "gotime \<Rightarrow> http_session \<Rightarrow> http_session" where
  "end_gone now h =
     h\<lparr>endReason := sessionEndDeviceGone, closedAt := (if IsZero (closedAt h) then now else closedAt h)\<rparr>"

definition endSessionsOfGoneAgents :: "env \<Rightarrow> registry \<Rightarrow> registry \<times> task list" where
  "endSessionsOfGoneAgents e R =
     (let gone = filter (\<lambda>(_, s). agent_gone R (e_now e) (sess R ! s)) (hsess R) in
      (foldr (\<lambda>(_, s). upd_s s (end_gone (e_now e))) gone R,
       concat (map (\<lambda>(_, s). [TFree (toAgent (sess R ! s)), TClose (toClient (sess R ! s))]) gone)))"

subsection \<open>Running\<close>

definition reach_agent :: "env \<Rightarrow> string \<Rightarrow> nat \<Rightarrow> task list" where
  "reach_agent e sid s = (if e_sent e then [TAnswer 200] else [TRemove sid s, TAnswer 502])"

definition upgrade :: "env \<Rightarrow> string \<Rightarrow> nat \<Rightarrow> task list" where
  "upgrade e sid s = (if e_sent e then [] else [TRemove sid s])"

text \<open>\<open>httpSessionConn.Write\<close>: the in-process end waits for room without a limit.\<close>

definition conn_push :: "registry \<Rightarrow> nat \<Rightarrow> bytes \<Rightarrow> registry \<times> task list" where
  "conn_push R i b =
     (case run_op (OpReserve (int (length b)) False) i R of
        Some (R, AdmissionIs Admitted) \<Rightarrow> (R, [TPushed i b])
      | Some (R, AdmissionIs (MustWait _)) \<Rightarrow> (R, [TPush i b])
      | Some (R, _) \<Rightarrow> (R, [])
      | None \<Rightarrow> (R, []))"

definition report_resident :: "env \<Rightarrow> registry \<Rightarrow> registry" where
  "report_resident e R = R\<lparr>mem := (fst (mem R), report (snd (mem R)) (e_now e))\<rparr>"

text \<open>One critical section of a request, and what the request does after it.\<close>

primrec exec_task :: "task \<Rightarrow> env \<Rightarrow> registry \<Rightarrow> registry \<times> task list" where
  "exec_task (TAnswer n) e R = (R, [])"
| "exec_task (TFree i) e R = (do_op OpFree i R, [])"
| "exec_task (TClose i) e R = (do_op OpClose i R, [])"
| "exec_task (TSettled sid s) e R = (R, releaseDrained_client R sid s)"
| "exec_task (TSettledToo sid s) e R = (R, releaseDrained_agent R sid s)"
| "exec_task (TRetire sid s) e R = releaseDrained_retire R sid s"
| "exec_task (TRemove sid s) e R = closeHTTPSession R sid s"
| "exec_task (TCloseFound sid) e R = (R, close_found R sid)"
| "exec_task (TCloser sid s) e R = session_closer R sid s"
| "exec_task (TEndLease s) e R = lease_close R s"
| "exec_task (TOpen sid msg a token kind) e R = newHTTPSession e R sid msg a token kind"
| "exec_task (TPublish sid s ns msg l kind) e R = publish_session R sid s ns msg l kind"
| "exec_task (TLease sid s l) e R = (beginAccessLease R sid s l, [])"
| "exec_task (TLeaseEnabled s) e R = (R, lease_enabled e R s)"
| "exec_task (TAddCloser sid s) e R = addCloser R sid s"
| "exec_task (TLeaseDone sid s msg kind) e R = session_opened R sid s msg kind"
| "exec_task (TOffer a msg bridged) e R = offer R a msg bridged"
| "exec_task (TReach sid s) e R = (R, reach_agent e sid s)"
| "exec_task (TUpgrade sid s) e R = (R, upgrade e sid s)"
| "exec_task (TRegister key a q) e R = poll_publish e R key a q"
| "exec_task (TEnabled key a q gen) e R = poll_enabled e R key a q gen"
| "exec_task (TWait key a inst gen) e R = poll_wait e R key a inst gen"
| "exec_task (TTaken key inst a msg) e R = (R, poll_taken_open R key inst a msg)"
| "exec_task (TRequeue key msg) e R = (R, requeueHTTPJob R key msg)"
| "exec_task (TSend a msg) e R = send_open R a msg"
| "exec_task (TMark key inst msg) e R = (mark_agent R key inst msg, [])"
| "exec_task (TChanged key inst) e R = (R, poll_changed R key inst)"
| "exec_task (TPollEnd a) e R = (poll_end e a R, [])"
| "exec_task (TUp u s) e R = (R, up_lease e R u s)"
| "exec_task (TUpClosed u s) e R = (R, up_closed R u s)"
| "exec_task (TUpload i seq n w closing) e R = upload_admit e R i seq n w closing"
| "exec_task (TBody i seq n closing) e R = upload_body e R i seq n closing"
| "exec_task (TPush i b) e R = conn_push R i b"
| "exec_task (TPushed i b) e R = (do_op (OpEnqueue b (int (length b))) i R, [])"
| "exec_task (TClosedAt sid s gently) e R = (mark_closed e R sid s gently, [])"
| "exec_task (TStarted sid s d) e R =
     (case controllerPollStarted R sid s of (R, g) \<Rightarrow> (R, [TDown sid s d g]))"
| "exec_task (TDown sid s d g) e R = (R, down_take R sid s d g)"
| "exec_task (TTake i ack limit p) e R = poll_start e R (OpTake ack limit) i p (TTake i ack limit p)"
| "exec_task (TLook i ack want limit p) e R = window_next e R i ack want limit p"
| "exec_task (TWindow i ack want limit p) e R = window_turn e R i ack want limit p"
| "exec_task (TPoll i limit p) e R = poll_start e R (OpPoll limit) i p (TPoll i limit p)"
| "exec_task (TDrain i p) e R = drain_turn e R i p"
| "exec_task (TReturn i p) e R = (do_op OpReturn i R, [TFinish i p])"
| "exec_task (TFinish i p) e R = drain_finish R i p"
| "exec_task (TDownEnd sid s d g r) e R = down_end e R sid s d g r"
| "exec_task (TTold s) e R = (writeSessionClosed s R, [])"
| "exec_task (TSeen s client) e R = (down_seen e s client R, [])"
| "exec_task (TEvict ns) e R = (if regLock R then (R, [TEvict ns]) else (evict_agents R ns, []))"
| "exec_task TReport e R = (report_resident e R, [])"

text \<open>What can begin: a request, the end of an in-process leg, a timer, a sweep, an administrator.\<close>

datatype (plugins only: ) entry =
    EPoll poll_request
  | EDial relay_view access string string string
  | EDialWS string Open access string string
  | EUp access up_request
  | EDown access down_request
  | EClose access up_request
  | EDeregister string string string
  | EConnRead string nat string
  | EConnWrite nat string bytes
  | EConnClose string nat string
  | EBridgeTimeout string nat
  | EExpire nat
  | EReap
  | EGoneScan
  | ELeaseEnds nat
  | EDisconnect string
  | ERemoveDevice string string

primrec enter :: "entry \<Rightarrow> env \<Rightarrow> registry \<Rightarrow> (registry \<times> task list) option" where
  "enter (EPoll q) e R = (if regLock R then None else Some (poll_look R q))"
| "enter (EDial view a token target sid) e R = Some (R, handleHDial e R view a token target sid)"
| "enter (EDialWS key msg a token sid) e R = Some (R, handleWSDialToHTTP e R key msg a token sid)"
| "enter (EUp a u) e R = Some (handleHUp e R a u)"
| "enter (EDown a d) e R = Some (handleHDown e R a d)"
| "enter (EClose a u) e R = Some (R, handleHClose R a u)"
| "enter (EDeregister ns device inst) e R = Some (handleHDeregister R ns device inst)"
| "enter (EConnRead sid s role) e R =
     (if s < length (sess R)
      then Some (R, [TPoll (reads_from (sess R ! s) role) maxDrainBytes (ByConn sid s)]) else None)"
| "enter (EConnWrite s role b) e R =
     (if s < length (sess R) \<and> b \<noteq> [] then Some (R, [TPush (writes_to (sess R ! s) role) b]) else None)"
| "enter (EConnClose sid s role) e R =
     (if s < length (sess R) then Some (R, conn_close R sid s role) else None)"
| "enter (EBridgeTimeout sid s) e R = (if s < length (sess R) then Some (R, [TRemove sid s]) else None)"
| "enter (EExpire k) e R =
     (if k < length (timers R) \<and> fst (timers R ! k) \<le> e_now e
      then (case timers R ! k of
              (_, sid, s, g) \<Rightarrow>
                Some (expireControllerDisconnect (R\<lparr>timers := take k (timers R) @ drop (k + 1) (timers R)\<rparr>) sid s g))
      else None)"
| "enter EReap e R = Some (reapHTTP e R)"
| "enter EGoneScan e R = Some (endSessionsOfGoneAgents e R)"
| "enter (ELeaseEnds s) e R = (if s < length (sess R) then Some (R, [TEndLease s]) else None)"
| "enter (EDisconnect ns) e R = Some (R, disconnectNamespace R ns)"
| "enter (ERemoveDevice ns device) e R = Some (remove_agent R ns device, [TAnswer 200])"

text \<open>
  A relay at work: the registry and the requests in progress. \<open>newID\<close> draws 128
  random bits, so a session is never registered under the name of another that still
  is; the clock never shows the zero time.
\<close>

type_synonym relay = "registry \<times> task list list"

definition fresh_id :: "task \<Rightarrow> registry \<Rightarrow> bool" where
  "fresh_id t R \<longleftrightarrow>
     (case t of TPublish sid _ _ _ _ _ \<Rightarrow> map_of (hsess R) sid = None | _ \<Rightarrow> True)"

inductive reg_step :: "relay \<Rightarrow> relay \<Rightarrow> bool" where
  enters: "e_now e > 0 \<Longrightarrow> enter en e R = Some (R', ts) \<Longrightarrow> reg_step (R, hs) (R', hs @ [ts])"
| runs: "e_now e > 0 \<Longrightarrow> i < length hs \<Longrightarrow> hs ! i = t # rest \<Longrightarrow> fresh_id t R
         \<Longrightarrow> exec_task t e R = (R', ts) \<Longrightarrow> reg_step (R, hs) (R', hs[i := ts @ rest])"

inductive_cases reg_stepE: "reg_step (R, hs) (R', hs')"

definition reg_start :: "relay \<Rightarrow> bool" where
  "reg_start m \<longleftrightarrow> (\<exists>now ns. m = (new_registry now ns, []))"

definition reg_reachable :: "relay \<Rightarrow> bool" where
  "reg_reachable m \<longleftrightarrow> (\<exists>start. reg_start start \<and> reg_step\<^sup>*\<^sup>* start m)"

end
