(* ===== verification/SessionFrames.thy ===== *)
theory SessionFrames
  imports Sessions RunInvariant Bags
begin

text \<open>
  What each critical section of \<open>Sessions\<close> leaves alone, and what the tasks it leaves
  behind point to: the case analyses over all tasks that the invariants of the
  registry share.
\<close>

subsection \<open>What no section touches\<close>

definition same_core :: "http_session \<Rightarrow> http_session \<Rightarrow> bool" where
  "same_core h h' \<longleftrightarrow>
     toClient h' = toClient h \<and> toAgent h' = toAgent h \<and> hs_callerNS h' = hs_callerNS h
     \<and> hs_credential h' = hs_credential h \<and> hs_ownerNS h' = hs_ownerNS h
     \<and> clientPollGeneration h \<le> clientPollGeneration h'"

definition grows :: "registry \<Rightarrow> registry \<Rightarrow> bool" where
  "grows R R' \<longleftrightarrow>
     length (sess R) \<le> length (sess R') \<and> length (agents R) \<le> length (agents R')
     \<and> (\<forall>s < length (sess R). same_core (sess R ! s) (sess R' ! s))
     \<and> (\<forall>a < length (agents R). ag_ns (agents R' ! a) = ag_ns (agents R ! a))
     \<and> maxSessions R' = maxSessions R \<and> portal R' = portal R"

lemma same_core_refl [simp]: "same_core h h"
  by (simp add: same_core_def)

lemma same_core_trans: "same_core h h' \<Longrightarrow> same_core h' h'' \<Longrightarrow> same_core h h''"
  by (auto simp: same_core_def)

lemma grows_refl [simp, intro]: "grows R R"
  by (simp add: grows_def)

lemma grows_trans: "grows R R' \<Longrightarrow> grows R' R'' \<Longrightarrow> grows R R''"
  unfolding grows_def
proof (intro conjI allI impI)
  fix s assume *: "length (sess R) \<le> length (sess R') \<and> length (agents R) \<le> length (agents R')
     \<and> (\<forall>s < length (sess R). same_core (sess R ! s) (sess R' ! s))
     \<and> (\<forall>a < length (agents R). ag_ns (agents R' ! a) = ag_ns (agents R ! a))
     \<and> maxSessions R' = maxSessions R \<and> portal R' = portal R"
    and **: "length (sess R') \<le> length (sess R'') \<and> length (agents R') \<le> length (agents R'')
     \<and> (\<forall>s < length (sess R'). same_core (sess R' ! s) (sess R'' ! s))
     \<and> (\<forall>a < length (agents R'). ag_ns (agents R'' ! a) = ag_ns (agents R' ! a))
     \<and> maxSessions R'' = maxSessions R' \<and> portal R'' = portal R'"
    and s: "s < length (sess R)"
  have "same_core (sess R ! s) (sess R' ! s)" "same_core (sess R' ! s) (sess R'' ! s)"
    using * ** s by auto
  then show "same_core (sess R ! s) (sess R'' ! s)" by (rule same_core_trans)
qed auto

lemma nth_upd: "xs[i := x] ! j = (if i = j \<and> i < length xs then x else xs ! j)"
  by (cases "i < length xs") (auto simp: list_update_beyond)

lemma grows_upd_s: "grows R R' \<Longrightarrow> (\<And>h. same_core h (f h)) \<Longrightarrow> grows R (upd_s s f R')"
  by (rule grows_trans, assumption) (auto simp: grows_def upd_s_def nth_upd)

lemma grows_upd_a: "grows R R' \<Longrightarrow> (\<And>g. ag_ns (f g) = ag_ns g) \<Longrightarrow> grows R (upd_a a f R')"
  by (rule grows_trans, assumption) (auto simp: grows_def upd_a_def nth_upd)

lemma grows_fields [simp]:
  "grows R (R'\<lparr>hagents := x\<rparr>) = grows R R'" "grows R (R'\<lparr>hsess := y\<rparr>) = grows R R'"
  "grows R (R'\<lparr>leases := y\<rparr>) = grows R R'" "grows R (R'\<lparr>mem := m\<rparr>) = grows R R'"
  "grows R (R'\<lparr>regLock := b\<rparr>) = grows R R'" "grows R (R'\<lparr>timers := w\<rparr>) = grows R R'"
  "grows (R\<lparr>hagents := x\<rparr>) R' = grows R R'" "grows (R\<lparr>leases := y\<rparr>) R' = grows R R'"
  "grows (R\<lparr>timers := w\<rparr>) R' = grows R R'"
  by (simp_all add: grows_def)

lemma grows_new_session [simp, intro]: "grows R (R\<lparr>sess := sess R @ hs, mem := m\<rparr>)"
  by (simp add: grows_def nth_append)

lemma grows_new_agent [simp, intro]: "grows R (R\<lparr>agents := agents R @ gs, regLock := b\<rparr>)"
  by (simp add: grows_def nth_append)

lemma run_op_shape:
  assumes "run_op a i R = Some (R', ans)"
  shows "R' = R\<lparr>mem := mem R'\<rparr>" and "relay_step (mem R) (mem R')" and "i < length (fst (mem R))"
proof -
  obtain ds p where m: "mem R = (ds, p)" by (metis surj_pair)
  show "R' = R\<lparr>mem := mem R'\<rparr>" "i < length (fst (mem R))"
    using assms m by (auto simp: run_op_def split: if_splits option.splits)
  show "relay_step (mem R) (mem R')"
    using assms m by (auto simp: run_op_def split: if_splits option.splits intro: request)
qed

lemma grows_run_op: "run_op a i R = Some (R', ans) \<Longrightarrow> grows R R'"
  using run_op_shape(1) [of a i R R' ans] by (metis grows_fields(4) grows_refl)

lemma grows_do_op [simp, intro]: "grows R (do_op a i R)"
  by (auto simp: do_op_def split: option.splits dest: grows_run_op)

lemma upd_keeps [simp]:
  "hagents (upd_s s f R) = hagents R" "agents (upd_s s f R) = agents R" "hsess (upd_s s f R) = hsess R"
  "leases (upd_s s f R) = leases R" "mem (upd_s s f R) = mem R" "maxSessions (upd_s s f R) = maxSessions R"
  "portal (upd_s s f R) = portal R" "regLock (upd_s s f R) = regLock R" "timers (upd_s s f R) = timers R"
  "hagents (upd_a a g R) = hagents R" "sess (upd_a a g R) = sess R" "hsess (upd_a a g R) = hsess R"
  "leases (upd_a a g R) = leases R" "mem (upd_a a g R) = mem R" "maxSessions (upd_a a g R) = maxSessions R"
  "portal (upd_a a g R) = portal R" "regLock (upd_a a g R) = regLock R" "timers (upd_a a g R) = timers R"
  "length (sess (upd_s s f R)) = length (sess R)" "length (agents (upd_a a g R)) = length (agents R)"
  by (simp_all add: upd_s_def upd_a_def)

lemma foldr_s_keeps [simp]:
  "hagents (foldr (\<lambda>(k, s). upd_s s f) xs R) = hagents R" "agents (foldr (\<lambda>(k, s). upd_s s f) xs R) = agents R"
  "hsess (foldr (\<lambda>(k, s). upd_s s f) xs R) = hsess R" "leases (foldr (\<lambda>(k, s). upd_s s f) xs R) = leases R"
  "regLock (foldr (\<lambda>(k, s). upd_s s f) xs R) = regLock R" "timers (foldr (\<lambda>(k, s). upd_s s f) xs R) = timers R"
  "mem (foldr (\<lambda>(k, s). upd_s s f) xs R) = mem R"
  "length (sess (foldr (\<lambda>(k, s). upd_s s f) xs R)) = length (sess R)"
  by (induction xs) (auto simp: upd_s_def)

lemma foldr_a_keeps [simp]:
  "hagents (foldr (\<lambda>(k, s). upd_a s f) xs R) = hagents R" "sess (foldr (\<lambda>(k, s). upd_a s f) xs R) = sess R"
  "hsess (foldr (\<lambda>(k, s). upd_a s f) xs R) = hsess R" "leases (foldr (\<lambda>(k, s). upd_a s f) xs R) = leases R"
  "regLock (foldr (\<lambda>(k, s). upd_a s f) xs R) = regLock R" "timers (foldr (\<lambda>(k, s). upd_a s f) xs R) = timers R"
  "mem (foldr (\<lambda>(k, s). upd_a s f) xs R) = mem R"
  "length (agents (foldr (\<lambda>(k, s). upd_a s f) xs R)) = length (agents R)"
  by (induction xs) (auto simp: upd_a_def)

lemma cancelled_keeps [simp]:
  "hsess (controllerPollCancelled e R sid s g) = hsess R" "mem (controllerPollCancelled e R sid s g) = mem R"
  "leases (controllerPollCancelled e R sid s g) = leases R" "agents (controllerPollCancelled e R sid s g) = agents R"
  "hagents (controllerPollCancelled e R sid s g) = hagents R" "regLock (controllerPollCancelled e R sid s g) = regLock R"
  "length (sess (controllerPollCancelled e R sid s g)) = length (sess R)"
  by (auto simp: controllerPollCancelled_def Let_def)

lemma evict_keeps [simp]:
  "sess (evict_agents R ns) = sess R" "hsess (evict_agents R ns) = hsess R" "mem (evict_agents R ns) = mem R"
  "leases (evict_agents R ns) = leases R" "timers (evict_agents R ns) = timers R"
  "regLock (evict_agents R ns) = regLock R" "length (agents (evict_agents R ns)) = length (agents R)"
  by (auto simp: evict_agents_def Let_def)

lemma grows_foldr_s: "(\<And>h. same_core h (f h)) \<Longrightarrow> grows R (foldr (\<lambda>(k, s). upd_s s f) xs R)"
  by (induction xs) (auto intro: grows_upd_s grows_upd_a)

lemma grows_foldr_a: "(\<And>g. ag_ns (f g) = ag_ns g) \<Longrightarrow> grows R (foldr (\<lambda>(k, s). upd_a s f) xs R)"
  by (induction xs) (auto intro: grows_upd_s grows_upd_a)

text \<open>What the sections of a task are, for case analysis over all of them.\<close>

lemmas section_defs = releaseDrained_retire_def closeHTTPSession_def session_closer_def lease_close_def
  newHTTPSession_def publish_session_def beginAccessLease_def addCloser_def session_opened_def offer_def
  poll_publish_def poll_enabled_def poll_wait_def send_open_def mark_agent_def poll_end_def
  upload_admit_def upload_body_def conn_push_def mark_closed_def controllerPollStarted_def
  poll_start_def window_next_def window_wait_def window_turn_def drain_turn_def drain_finish_def down_end_def
  writeSessionClosed_def down_seen_def report_resident_def unregister_def

lemmas entry_defs = poll_look_def handleHUp_def handleHDown_def handleHDeregister_def sessionForAccess_def
  expireControllerDisconnect_def reapHTTP_def endSessionsOfGoneAgents_def remove_agent_def Let_def

lemma take_over_ns [simp]: "ag_ns (take_over inst g) = ag_ns g"
  by (simp add: take_over_def)

lemma same_core_updates [simp]:
  "same_core h (h\<lparr>hs_lease := l\<rparr>)" "same_core h (h\<lparr>closedAt := c\<rparr>)" "same_core h (h\<lparr>endTold := b\<rparr>)"
  "same_core h (h\<lparr>clientBridged := b\<rparr>)" "same_core h (h\<lparr>agentKey := k, agentInst := j\<rparr>)"
  "same_core h (h\<lparr>disconnectTimer := b\<rparr>)" "same_core h (h\<lparr>lastActive := w\<rparr>)"
  "same_core h (h\<lparr>lastActive := w, clientSeen := v\<rparr>)" "same_core h (end_gone w h)" "same_core h (touch e r h)"
  "same_core h (h\<lparr>clientPollGeneration := Suc (clientPollGeneration h), disconnectTimer := b\<rparr>)"
  by (simp_all add: same_core_def end_gone_def touch_def)

lemmas step_splits = if_splits option.splits prod.splits lease_state.splits dial_kind.splits wait.splits
  list.splits answer.splits admission.splits werr.splits sum.splits

lemma exec_grows: "exec_task t e R = (R', ts) \<Longrightarrow> grows R R'"
  by (cases t)
    (auto simp: section_defs Let_def controllerPollCancelled_def evict_agents_def intro!: grows_upd_s grows_upd_a
       grows_foldr_a split: step_splits dest: grows_run_op)

lemma enter_grows: "enter en e R = Some (R', ts) \<Longrightarrow> grows R R'"
  by (cases en)
    (auto simp: entry_defs intro!: grows_upd_s grows_foldr_s split: if_splits option.splits prod.splits)

subsection \<open>The byte account\<close>

lemma relay_step_run_op: "run_op a i R = Some (R', ans) \<Longrightarrow> relay_step\<^sup>*\<^sup>* (mem R) (mem R')"
  using run_op_shape(2) by blast

lemma relay_step_do_op [simp]: "relay_step\<^sup>*\<^sup>* (mem R) (mem (do_op a i R))"
  by (auto simp: do_op_def split: option.splits dest: relay_step_run_op)

lemma relay_step_add_dir: "relay_step m (add_dir m ns)"
proof -
  obtain ds p q p' where "m = (ds, p)" "attach (newSideQueue, p) ns = (q, p')" by (metis surj_pair)
  then show ?thesis by (simp add: add_dir_def attached)
qed

lemma relay_step_add_dirs: "relay_step\<^sup>*\<^sup>* m (add_dir (add_dir m ns) ns)"
  using relay_step_add_dir [of m ns] relay_step_add_dir [of "add_dir m ns" ns] by auto

lemma relay_step_report: "relay_step\<^sup>*\<^sup>* m (fst m, report (snd m) now)"
  using reporting [of "fst m" "snd m" now] by auto

lemma exec_mem: "exec_task t e R = (R', ts) \<Longrightarrow> relay_step\<^sup>*\<^sup>* (mem R) (mem R')"
  by (cases t)
    (auto simp: section_defs Let_def split: step_splits dest: relay_step_run_op
       intro: relay_step_report relay_step_add_dirs)

lemma enter_mem: "enter en e R = Some (R', ts) \<Longrightarrow> mem R' = mem R"
  by (cases en) (auto simp: entry_defs split: if_splits option.splits prod.splits)

subsection \<open>Addresses\<close>

text \<open>The sessions a task holds pointers to.\<close>

definition closing_sess :: "(string \<times> nat \<times> string) option \<Rightarrow> nat list" where
  "closing_sess c = (case c of None \<Rightarrow> [] | Some (_, s, _) \<Rightarrow> [s])"

definition poller_sess :: "byte_taker \<Rightarrow> nat list" where
  "poller_sess p = (case p of ByPoll _ s _ _ \<Rightarrow> [s] | ByConn _ s \<Rightarrow> [s])"

primrec sess_of :: "task \<Rightarrow> nat list" where
  "sess_of (TAnswer ax) = []"
| "sess_of (TFree ax) = []"
| "sess_of (TClose ax) = []"
| "sess_of (TSettled ax bx) = [bx]"
| "sess_of (TSettledToo ax bx) = [bx]"
| "sess_of (TRetire ax bx) = [bx]"
| "sess_of (TRemove ax bx) = [bx]"
| "sess_of (TCloseFound ax) = []"
| "sess_of (TCloser ax bx) = [bx]"
| "sess_of (TEndLease ax) = [ax]"
| "sess_of (TOpen ax bx cx dx ex) = []"
| "sess_of (TPublish ax bx cx dx ex fx) = [bx]"
| "sess_of (TLease ax bx cx) = [bx]"
| "sess_of (TLeaseEnabled ax) = [ax]"
| "sess_of (TAddCloser ax bx) = [bx]"
| "sess_of (TLeaseDone ax bx cx dx) = [bx]"
| "sess_of (TOffer ax bx cx) = (case cx of None \<Rightarrow> [] | Some (_, s) \<Rightarrow> [s])"
| "sess_of (TReach ax bx) = [bx]"
| "sess_of (TUpgrade ax bx) = [bx]"
| "sess_of (TRegister ax bx cx) = []"
| "sess_of (TEnabled ax bx cx dx) = []"
| "sess_of (TWait ax bx cx dx) = []"
| "sess_of (TTaken ax bx cx dx) = []"
| "sess_of (TRequeue ax bx) = []"
| "sess_of (TSend ax bx) = []"
| "sess_of (TMark ax bx cx) = []"
| "sess_of (TChanged ax bx) = []"
| "sess_of (TPollEnd ax) = []"
| "sess_of (TUp ax bx) = [bx]"
| "sess_of (TUpClosed ax bx) = [bx]"
| "sess_of (TUpload ax bx cx dx ex) = closing_sess ex"
| "sess_of (TBody ax bx cx dx) = closing_sess dx"
| "sess_of (TPush ax bx) = []"
| "sess_of (TPushed ax bx) = []"
| "sess_of (TClosedAt ax bx cx) = [bx]"
| "sess_of (TStarted ax bx cx) = [bx]"
| "sess_of (TDown ax bx cx dx) = [bx]"
| "sess_of (TTake ax bx cx dx) = poller_sess dx"
| "sess_of (TLook ax bx cx dx ex) = poller_sess ex"
| "sess_of (TWindow ax bx cx dx ex) = poller_sess ex"
| "sess_of (TPoll ax bx cx) = poller_sess cx"
| "sess_of (TDrain ax bx) = poller_sess bx"
| "sess_of (TReturn ax bx) = poller_sess bx"
| "sess_of (TFinish ax bx) = poller_sess bx"
| "sess_of (TDownEnd ax bx cx dx ex) = [bx]"
| "sess_of (TTold ax) = [ax]"
| "sess_of (TSeen ax bx) = [ax]"
| "sess_of (TEvict ax) = []"
| "sess_of (TReport) = []"

definition task_ok :: "registry \<Rightarrow> task \<Rightarrow> bool" where
  "task_ok R t \<longleftrightarrow> (\<forall>s \<in> set (sess_of t). s < length (sess R))"

text \<open>Session \<open>s\<close> owns the directions \<open>2 s\<close> and \<open>2 s + 1\<close>; every pointer is in range.\<close>

definition addressed :: "registry \<Rightarrow> bool" where
  "addressed R \<longleftrightarrow>
     length (fst (mem R)) = 2 * length (sess R)
     \<and> (\<forall>s < length (sess R). toClient (sess R ! s) = 2 * s \<and> toAgent (sess R ! s) = 2 * s + 1)
     \<and> (\<forall>s \<in> snd ` set (hsess R). s < length (sess R))
     \<and> (\<forall>s \<in> snd ` set (leases R). s < length (sess R))
     \<and> (\<forall>(w, sid, s, g) \<in> set (timers R). s < length (sess R))"

lemma task_ok_grows: "grows R R' \<Longrightarrow> task_ok R t \<Longrightarrow> task_ok R' t"
  by (auto simp: task_ok_def grows_def)

lemma length_dirs_run_op: "run_op a i R = Some (R', ans) \<Longrightarrow> length (fst (mem R')) = length (fst (mem R))"
  by (auto simp: run_op_def split: if_splits option.splits prod.splits)

lemma run_op_keeps:
  assumes "run_op a i R = Some (R', ans)"
  shows "sess R' = sess R" "hsess R' = hsess R" "leases R' = leases R" "timers R' = timers R"
    "agents R' = agents R" "hagents R' = hagents R" "regLock R' = regLock R" "maxSessions R' = maxSessions R"
    "portal R' = portal R" "length (fst (mem R')) = length (fst (mem R))"
  using assms by (auto simp: run_op_def split: if_splits option.splits prod.splits)

lemma do_op_keeps [simp]:
  "sess (do_op a i R) = sess R" "hsess (do_op a i R) = hsess R" "leases (do_op a i R) = leases R"
  "timers (do_op a i R) = timers R" "agents (do_op a i R) = agents R" "hagents (do_op a i R) = hagents R"
  "regLock (do_op a i R) = regLock R" "maxSessions (do_op a i R) = maxSessions R" "portal (do_op a i R) = portal R"
  "length (fst (mem (do_op a i R))) = length (fst (mem R))"
  by (auto simp: do_op_def run_op_keeps split: option.splits)

text \<open>The tasks a section leaves behind hold pointers it had or found in the tables.\<close>

lemmas task_list_defs = free_session_def close_session_def releaseDrained_client_def releaseDrained_agent_def
  closeHTTPSessionDrainable_def conn_close_def handleHClose_end_def lease_enabled_def close_found_def
  handleHDialToWS_def handleHDial_def handleWSDialToHTTP_def poll_taken_open_def requeueHTTPJob_def
  poll_changed_def disconnectNamespace_def up_lease_def acceptUpload_def up_closed_def upload_taken_def
  upload_closed_def down_take_def after_poll_def reach_agent_def upgrade_def handleHClose_def
  closing_sess_def poller_sess_def

lemma after_poll_sess: "t \<in> set (after_poll i p r) \<Longrightarrow> set (sess_of t) \<subseteq> set (poller_sess p)"
  by (auto simp: after_poll_def poller_sess_def split: byte_taker.splits if_splits)

lemma closing_tasks_sess:
  "t \<in> set (handleHClose_end R sid s role) \<Longrightarrow> set (sess_of t) \<subseteq> {s}"
  "t \<in> set (upload_taken R c) \<Longrightarrow> set (sess_of t) \<subseteq> set (closing_sess c)"
  "t \<in> set (upload_closed R c) \<Longrightarrow> set (sess_of t) \<subseteq> set (closing_sess c)"
  by (auto simp: upload_taken_def upload_closed_def handleHClose_end_def close_session_def closing_sess_def
      split: option.splits)

lemma acceptUpload_sess: "t \<in> set (acceptUpload i seq n c) \<Longrightarrow> set (sess_of t) \<subseteq> set (closing_sess c)"
  by (auto simp: acceptUpload_def split: if_splits)

lemma upload_admit_sess:
  assumes "upload_admit e R i seq n w c = (R', ts)" "t \<in> set ts"
  shows "set (sess_of t) \<subseteq> set (closing_sess c)" "sess R' = sess R"
  using assms
  by (auto dest: subsetD [OF closing_tasks_sess(2)] subsetD [OF closing_tasks_sess(3)] simp: upload_admit_def run_op_keeps split: option.splits prod.splits answer.splits admission.splits
      werr.splits if_splits)

lemma upload_body_sess:
  assumes "upload_body e R i seq n c = (R', ts)" "t \<in> set ts"
  shows "set (sess_of t) \<subseteq> set (closing_sess c)" "sess R' = sess R"
  using assms
  by (auto dest: subsetD [OF closing_tasks_sess(2)] subsetD [OF closing_tasks_sess(3)] simp: upload_body_def run_op_keeps split: option.splits prod.splits answer.splits sum.splits if_splits)

lemma poll_start_sess:
  assumes "poll_start e R a i p again = (R', ts)" "t \<in> set ts" "set (sess_of again) \<subseteq> set (poller_sess p)"
  shows "set (sess_of t) \<subseteq> set (poller_sess p)" "sess R' = sess R"
  using assms
  by (auto dest: subsetD [OF after_poll_sess] simp: poll_start_def run_op_keeps split: option.splits prod.splits answer.splits if_splits)

lemma window_sess:
  assumes "window_next e R i ack want limit p = (R', ts) \<or> window_turn e R i ack want limit p = (R', ts)"
    "t \<in> set ts"
  shows "set (sess_of t) \<subseteq> set (poller_sess p)" "sess R' = sess R"
  using assms
  by (auto dest: subsetD [OF after_poll_sess] simp: window_next_def window_turn_def window_wait_def run_op_keeps
      split: option.splits prod.splits answer.splits if_splits)

lemma drain_sess:
  assumes "drain_turn e R i p = (R', ts) \<or> drain_finish R i p = (R', ts)" "t \<in> set ts"
  shows "set (sess_of t) \<subseteq> set (poller_sess p)" "sess R' = sess R"
  using assms
  by (auto dest: subsetD [OF after_poll_sess] simp: drain_turn_def drain_finish_def run_op_keeps
      split: option.splits prod.splits answer.splits if_splits)

lemma conn_push_sess:
  assumes "conn_push R i b = (R', ts)" "t \<in> set ts"
  shows "sess_of t = []" "sess R' = sess R"
  using assms
  by (auto simp: conn_push_def run_op_keeps split: option.splits prod.splits answer.splits admission.splits)

lemma down_tasks_sess:
  "t \<in> set (up_closed R u s) \<Longrightarrow> set (sess_of t) \<subseteq> {s}"
  "t \<in> set (down_take R sid s d g) \<Longrightarrow> set (sess_of t) \<subseteq> {s}"
  "down_end e R sid s d g r = (R', ts) \<Longrightarrow> t \<in> set ts \<Longrightarrow> set (sess_of t) \<subseteq> {s}"
  by (auto simp: up_closed_def down_take_def down_end_def poller_sess_def Let_def closing_sess_def
      dest: subsetD [OF acceptUpload_sess] split: option.splits if_splits)

lemmas queue_task_sess = upload_admit_sess upload_body_sess poll_start_sess window_sess drain_sess conn_push_sess
  down_tasks_sess

text \<open>The tasks that do not touch a direction.\<close>

lemmas control_defs = releaseDrained_retire_def closeHTTPSession_def session_closer_def lease_close_def
  newHTTPSession_def publish_session_def addCloser_def session_opened_def offer_def
  poll_publish_def poll_enabled_def poll_wait_def send_open_def controllerPollStarted_def Let_def
  free_session_def releaseDrained_client_def releaseDrained_agent_def lease_enabled_def close_found_def
  poll_taken_open_def requeueHTTPJob_def poll_changed_def up_lease_def reach_agent_def upgrade_def

lemma exec_task_ok:
  assumes e: "exec_task t e R = (R', ts)" and ok: "addressed R" "task_ok R t" and t': "t' \<in> set ts"
  shows "task_ok R' t'"
proof -
  have ran: "s < length (sess R)" if "map_of (hsess R) sid = Some s" for sid s
    using ok(1) map_of_SomeD [OF that] by (force simp: addressed_def)
  have len: "length (sess R) \<le> length (sess R')" using exec_grows [OF e] by (simp add: grows_def)
  have "set (sess_of t') \<subseteq> {..<length (sess R')}"
  proof (cases t)
    case (TCloseFound sid)
    then show ?thesis using e t' ran by (auto simp: close_found_def split: option.splits)
  next
    case (TUpload i seq n w c)
    then show ?thesis using e t' ok(2) upload_admit_sess [of e R i seq n w c R' ts t'] by (auto simp: task_ok_def)
  next
    case (TBody i seq n c)
    then show ?thesis using e t' ok(2) upload_body_sess [of e R i seq n c R' ts t'] by (auto simp: task_ok_def)
  next
    case (TTake i ack limit p)
    then show ?thesis
      using e t' ok(2) poll_start_sess [of e R "OpTake ack limit" i p t R' ts t'] by (auto simp: task_ok_def)
  next
    case (TPoll i limit p)
    then show ?thesis
      using e t' ok(2) poll_start_sess [of e R "OpPoll limit" i p t R' ts t'] by (auto simp: task_ok_def)
  next
    case (TLook i ack want limit p)
    then show ?thesis
      using e t' ok(2) window_sess [of e R i ack want limit p R' ts t'] by (auto simp: task_ok_def)
  next
    case (TWindow i ack want limit p)
    then show ?thesis
      using e t' ok(2) window_sess [of e R i ack want limit p R' ts t'] by (auto simp: task_ok_def)
  next
    case (TDrain i p)
    then show ?thesis using e t' ok(2) drain_sess [of e R i p R' ts t'] by (auto simp: task_ok_def)
  next
    case (TFinish i p)
    then show ?thesis using e t' ok(2) drain_sess [of e R i p R' ts t'] by (auto simp: task_ok_def)
  next
    case (TPush i b)
    then show ?thesis using e t' conn_push_sess [of R i b R' ts t'] by auto
  next
    case (TUpClosed u s)
    then show ?thesis using e t' ok(2) down_tasks_sess(1) [of t' R u s] by (auto simp: task_ok_def)
  next
    case (TDown sid s d g)
    then show ?thesis using e t' ok(2) down_tasks_sess(2) [of t' R sid s d g] by (auto simp: task_ok_def)
  next
    case (TDownEnd sid s d g r)
    then show ?thesis
      using e t' ok(2) down_tasks_sess(3) [of e R sid s d g r R' ts t'] len
      by (auto simp: task_ok_def)
  qed (use e t' ok(2) len in \<open>auto simp: control_defs task_ok_def split: step_splits\<close>)
  then show ?thesis by (auto simp: task_ok_def)
qed

text \<open>The sections of a direction change nothing but the directions and the account.\<close>

definition on_queue :: "task \<Rightarrow> bool" where
  "on_queue t \<longleftrightarrow>
     (case t of
        TFree _ \<Rightarrow> True | TClose _ \<Rightarrow> True | TUpload _ _ _ _ _ \<Rightarrow> True | TBody _ _ _ _ \<Rightarrow> True
      | TPush _ _ \<Rightarrow> True | TPushed _ _ \<Rightarrow> True | TTake _ _ _ _ \<Rightarrow> True | TLook _ _ _ _ _ \<Rightarrow> True
      | TWindow _ _ _ _ _ \<Rightarrow> True | TPoll _ _ _ \<Rightarrow> True | TDrain _ _ \<Rightarrow> True | TReturn _ _ \<Rightarrow> True
      | TFinish _ _ \<Rightarrow> True | TReport \<Rightarrow> True | _ \<Rightarrow> False)"

text \<open>One operation at most, on one direction.\<close>

definition queue_change :: "registry \<Rightarrow> registry \<Rightarrow> bool" where
  "queue_change R R' \<longleftrightarrow> R' = R \<or> (\<exists>a i ans. run_op a i R = Some (R', ans)) \<or> (\<exists>e. R' = report_resident e R)"

lemma queue_change_do_op: "queue_change R (do_op a i R)"
  by (auto simp: queue_change_def do_op_def split: option.splits)

lemma exec_on_queue:
  assumes "exec_task t e R = (R', ts)" "on_queue t"
  shows "queue_change R R'"
proof (cases t)
  case (TUpload i seq n w c)
  then show ?thesis using assms
    by (auto simp: upload_admit_def queue_change_def split: option.splits prod.splits answer.splits
        admission.splits werr.splits if_splits)
next
  case (TBody i seq n c)
  then show ?thesis using assms queue_change_do_op
    by (auto simp: upload_body_def split: option.splits prod.splits answer.splits sum.splits if_splits)
      (auto simp: queue_change_def)
next
  case (TPush i b)
  then show ?thesis using assms
    by (auto simp: conn_push_def queue_change_def split: option.splits prod.splits answer.splits admission.splits)
next
  case (TTake i ack limit p)
  then show ?thesis using assms
    by (auto simp: poll_start_def queue_change_def split: option.splits prod.splits answer.splits if_splits)
next
  case (TPoll i limit p)
  then show ?thesis using assms
    by (auto simp: poll_start_def queue_change_def split: option.splits prod.splits answer.splits if_splits)
next
  case (TLook i ack want limit p)
  then show ?thesis using assms
    by (auto simp: window_next_def window_wait_def queue_change_def split: option.splits prod.splits answer.splits if_splits)
next
  case (TWindow i ack want limit p)
  then show ?thesis using assms
    by (auto simp: window_turn_def window_wait_def queue_change_def split: option.splits prod.splits answer.splits if_splits)
next
  case (TDrain i p)
  then show ?thesis using assms
    by (auto simp: drain_turn_def queue_change_def split: option.splits prod.splits answer.splits if_splits)
next
  case (TFinish i p)
  then show ?thesis using assms
    by (auto simp: drain_finish_def queue_change_def split: option.splits prod.splits answer.splits if_splits)
next
  case TReport
  then show ?thesis using assms by (auto simp: queue_change_def)
qed (use assms queue_change_do_op in \<open>auto simp: on_queue_def\<close>)

lemma queue_change_keeps:
  assumes "queue_change R R'"
  shows "sess R' = sess R" "hsess R' = hsess R" "leases R' = leases R" "timers R' = timers R"
    "agents R' = agents R" "hagents R' = hagents R" "regLock R' = regLock R" "maxSessions R' = maxSessions R"
    "portal R' = portal R" "length (fst (mem R')) = length (fst (mem R))"
  using assms by (auto simp: queue_change_def run_op_keeps report_resident_def)

text \<open>How the registry of sessions can change, and what is owed when a session leaves it.\<close>

lemma exec_hsess:
  assumes "exec_task t e R = (R', ts)"
  shows "hsess R' = hsess R
    \<or> (\<exists>sid s. registered R sid s \<and> hsess R' = al_del sid (hsess R) \<and> set (free_session R s) \<subseteq> set ts)
    \<or> (\<exists>sid s ns msg l k. t = TPublish sid s ns msg l k \<and> hsess R' = al_put sid s (hsess R)
         \<and> length (hsess R) < maxSessions R \<and> (ns \<noteq> [] \<longrightarrow> countNamespaceSessionsLocked R ns < httpSessionsPerNS))"
proof (cases "on_queue t")
  case True
  then show ?thesis using queue_change_keeps(2) [OF exec_on_queue [OF assms True]] by simp
next
  case False
  show ?thesis
  proof (cases t)
    case (TRetire sid s)
    then show ?thesis using assms
      by (auto simp: releaseDrained_retire_def retires_def split: if_splits intro!: exI [of _ sid] exI [of _ s])
  next
    case (TRemove sid s)
    then show ?thesis using assms
      by (auto simp: closeHTTPSession_def unregister_def split: if_splits intro!: exI [of _ sid] exI [of _ s])
  next
    case (TCloser sid s)
    then show ?thesis using assms
      by (auto simp: session_closer_def unregister_def split: if_splits intro!: exI [of _ sid] exI [of _ s])
  next
    case (TPublish sid s ns msg l k)
    then show ?thesis using assms by (auto simp: publish_session_def not_le split: if_splits)
  qed (use assms False in \<open>auto simp: section_defs on_queue_def Let_def split: step_splits\<close>)
qed

lemma exec_lengths:
  assumes "exec_task t e R = (R', ts)" "\<not> (\<exists>sid msg a w k. t = TOpen sid msg a w k)"
  shows "length (sess R') = length (sess R)" "length (fst (mem R')) = length (fst (mem R))"
proof -
  have "length (sess R') = length (sess R) \<and> length (fst (mem R')) = length (fst (mem R))"
  proof (cases "on_queue t")
    case True
    then show ?thesis using queue_change_keeps(1,10) [OF exec_on_queue [OF assms(1) True]] by simp
  next
    case False
    then show ?thesis
      using assms by (cases t) (auto simp: on_queue_def section_defs Let_def split: step_splits)
  qed
  then show "length (sess R') = length (sess R)" "length (fst (mem R')) = length (fst (mem R))" by auto
qed

end
