(* ===== verification/SessionRuns.thy ===== *)
theory SessionRuns
  imports SessionFrames
begin

text \<open>
  What carries the invariant of the registry along a run: the tasks that are pending,
  the range of every pointer, and two facts about a direction that no section takes
  back, that it has been freed and that it is spent.
\<close>

subsection \<open>Pending tasks\<close>

definition pending :: "task list list \<Rightarrow> task set" where
  "pending hs = (\<Union>ts \<in> set hs. set ts)"

lemma pending_enter [simp]: "pending (hs @ [ts]) = pending hs \<union> set ts"
  by (auto simp: pending_def)

lemma pending_run:
  assumes "i < length hs" "hs ! i = t # rest"
  shows "pending (hs[i := ts @ rest]) \<subseteq> pending hs \<union> set ts"
    "pending hs \<subseteq> insert t (pending (hs[i := ts @ rest]))" "set ts \<subseteq> pending (hs[i := ts @ rest])"
    "t \<in> pending hs"
proof -
  have mem: "t # rest \<in> set hs" using assms by (metis nth_mem)
  show "pending (hs[i := ts @ rest]) \<subseteq> pending hs \<union> set ts"
  proof
    fix u assume "u \<in> pending (hs[i := ts @ rest])"
    then obtain us where us: "us \<in> set (hs[i := ts @ rest])" "u \<in> set us" by (auto simp: pending_def)
    then have "us = ts @ rest \<or> us \<in> set hs" using set_update_subset_insert [of hs i "ts @ rest"] by blast
    then show "u \<in> pending hs \<union> set ts"
    proof
      assume "us = ts @ rest"
      then have "u \<in> set ts \<or> u \<in> set (t # rest)" using us(2) by auto
      then show ?thesis using mem unfolding pending_def by blast
    qed (use us(2) in \<open>auto simp: pending_def\<close>)
  qed
  have new: "ts @ rest \<in> set (hs[i := ts @ rest])" using assms(1) by (rule set_update_memI)
  then show "set ts \<subseteq> pending (hs[i := ts @ rest])" by (auto simp: pending_def)
  show "t \<in> pending hs" using mem by (force simp: pending_def)
  show "pending hs \<subseteq> insert t (pending (hs[i := ts @ rest]))"
  proof
    fix u assume "u \<in> pending hs"
    then obtain us where "us \<in> set hs" "u \<in> set us" by (auto simp: pending_def)
    then obtain k where k: "k < length hs" "u \<in> set (hs ! k)" by (metis in_set_conv_nth)
    show "u \<in> insert t (pending (hs[i := ts @ rest]))"
    proof (cases "k = i")
      case True
      then have "u = t \<or> u \<in> set (ts @ rest)" using k assms(2) by auto
      then show ?thesis using new unfolding pending_def by blast
    next
      case False
      then have "hs[i := ts @ rest] ! k = hs ! k" by simp
      then have "hs ! k \<in> set (hs[i := ts @ rest])" using k(1) by (metis length_list_update nth_mem)
      then show ?thesis using k(2) by (auto simp: pending_def)
    qed
  qed
qed

text \<open>A count over the pending tasks.\<close>

definition count_tasks :: "(task \<Rightarrow> bool) \<Rightarrow> task list list \<Rightarrow> nat" where
  "count_tasks P hs = length (filter P (concat hs))"

lemma count_tasks_enter [simp]: "count_tasks P (hs @ [ts]) = count_tasks P hs + length (filter P ts)"
  by (simp add: count_tasks_def)

lemma count_tasks_run:
  assumes "i < length hs" "hs ! i = t # rest"
  shows "count_tasks P (hs[i := ts @ rest]) + (if P t then 1 else 0) = count_tasks P hs + length (filter P ts)"
proof -
  have split: "hs = take i hs @ (t # rest) # drop (Suc i) hs"
    using id_take_nth_drop [OF assms(1)] assms(2) by simp
  have "hs[i := ts @ rest] = take i hs @ (ts @ rest) # drop (Suc i) hs"
    using assms(1) by (rule upd_conv_take_nth_drop)
  then have "count_tasks P (hs[i := ts @ rest]) = count_tasks P (take i hs) + length (filter P ts)
      + length (filter P rest) + count_tasks P (drop (Suc i) hs)"
    by (simp add: count_tasks_def)
  moreover have "count_tasks P hs = count_tasks P (take i hs) + (if P t then 1 else 0)
      + length (filter P rest) + count_tasks P (drop (Suc i) hs)"
    by (subst split) (simp add: count_tasks_def)
  ultimately show ?thesis by simp
qed

lemma count_tasks_0: "count_tasks P hs = 0 \<longleftrightarrow> (\<forall>t \<in> pending hs. \<not> P t)"
  by (auto simp: count_tasks_def pending_def filter_empty_conv)

subsection \<open>Addresses\<close>

lemma addressedD:
  assumes "addressed R"
  shows "length (fst (mem R)) = 2 * length (sess R)"
    "s < length (sess R) \<Longrightarrow> toClient (sess R ! s) = 2 * s"
    "s < length (sess R) \<Longrightarrow> toAgent (sess R ! s) = 2 * s + 1"
    "map_of (hsess R) sid = Some s \<Longrightarrow> s < length (sess R)"
  using assms map_of_SomeD [of "hsess R" sid s] unfolding addressed_def by (force)+

lemma length_add_dir [simp]: "length (fst (add_dir m ns)) = length (fst m) + 1"
  by (simp add: add_dir_def Let_def split: prod.splits)

lemma exec_leases_timers:
  assumes "exec_task t e R = (R', ts)"
  shows "snd ` set (leases R') \<subseteq> snd ` set (leases R) \<union> set (sess_of t)"
    and "set (timers R') \<subseteq> set (timers R) \<union> {(w, sid, s, g) |w sid s g. s \<in> set (sess_of t)}"
proof -
  have "snd ` set (leases R') \<subseteq> snd ` set (leases R) \<union> set (sess_of t)
    \<and> set (timers R') \<subseteq> set (timers R) \<union> {(w, sid, s, g) |w sid s g. s \<in> set (sess_of t)}"
  proof (cases "on_queue t")
    case True
    then show ?thesis using queue_change_keeps(3,4) [OF exec_on_queue [OF assms True]] by simp
  next
    case False
    have put: "snd ` set (al_put k v xs) \<subseteq> insert v (snd ` set xs)" for k :: string and v :: nat and xs
      using set_al_put_sub [of _ k v xs] by force
    show ?thesis
    proof (cases t)
      case (TLease sid s l)
      then show ?thesis using assms put [of sid s "leases R"]
        by (auto simp: beginAccessLease_def dest: subsetD [OF _ imageI])
    next
      case (TEndLease s)
      then show ?thesis using assms
        by (auto simp: lease_close_def Let_def set_al_del split: lease_state.splits if_splits)
    next
      case (TDownEnd sid s d g r)
      then show ?thesis using assms
        by (auto simp: down_end_def controllerPollCancelled_def Let_def split: if_splits option.splits)
    qed (use assms False in \<open>auto simp: section_defs on_queue_def Let_def split: step_splits\<close>)
  qed
  then show "snd ` set (leases R') \<subseteq> snd ` set (leases R) \<union> set (sess_of t)"
    "set (timers R') \<subseteq> set (timers R) \<union> {(w, sid, s, g) |w sid s g. s \<in> set (sess_of t)}" by blast+
qed

lemma exec_addressed:
  assumes e: "exec_task t e R = (R', ts)" and ok: "addressed R" "task_ok R t"
  shows "addressed R'"
proof -
  note g = exec_grows [OF e, unfolded grows_def]
  have shape: "length (fst (mem R')) = 2 * length (sess R')
    \<and> (\<forall>s < length (sess R'). toClient (sess R' ! s) = 2 * s \<and> toAgent (sess R' ! s) = 2 * s + 1)"
  proof (cases "\<exists>sid msg a w k. t = TOpen sid msg a w k")
    case True
    then show ?thesis using e ok(1) unfolding addressed_def
      by (auto simp: newHTTPSession_def Let_def nth_append less_Suc_eq)
  next
    case False
    then show ?thesis using exec_lengths [OF e] ok(1) g by (auto simp: addressed_def same_core_def)
  qed
  have len: "length (sess R) \<le> length (sess R')" using g by simp
  have in_t: "s < length (sess R)" if "s \<in> set (sess_of t)" for s using that ok(2) by (simp add: task_ok_def)
  have "snd ` set (al_del sid (hsess R)) \<subseteq> snd ` set (hsess R)" for sid by (auto simp: set_al_del)
  moreover have "snd ` set (al_put sid s (hsess R)) \<subseteq> insert s (snd ` set (hsess R))" for sid s
    using set_al_put_sub [of _ sid s "hsess R"] by force
  ultimately have "snd ` set (hsess R') \<subseteq> snd ` set (hsess R) \<union> set (sess_of t)"
    using exec_hsess [OF e] by (elim disjE exE conjE) auto
  then have h: "\<forall>s \<in> snd ` set (hsess R'). s < length (sess R')"
    using ok(1) in_t len unfolding addressed_def by (meson UnE less_le_trans subsetD)
  have l: "\<forall>s \<in> snd ` set (leases R'). s < length (sess R')"
    using exec_leases_timers(1) [OF e] ok(1) in_t len unfolding addressed_def by (meson UnE less_le_trans subsetD)
  have "s < length (sess R')" if "(w, sid, s, g) \<in> set (timers R')" for w sid s g
    using that exec_leases_timers(2) [OF e] ok(1) in_t [of s] len unfolding addressed_def by fastforce
  then show ?thesis using shape h l by (auto simp: addressed_def)
qed


subsection \<open>Directions that stay freed, and directions that stay spent\<close>

text \<open>Nothing is left in direction \<open>d\<close> for a reader, and it takes nothing more.\<close>

definition spent :: "dir \<Rightarrow> bool" where
  "spent d \<longleftrightarrow>
     q_closed (dq d) \<and> ch (dq d) = [] \<and> head (dq d) = [] \<and> assigned (dq d) = []
     \<and> (\<forall>dr. dpoll d = Some dr \<longrightarrow> d_out dr = [])"

lemma settled_spent: "dir_ok d \<Longrightarrow> settled (dq d) \<Longrightarrow> spent d"
  by (auto simp: spent_def settled_def dir_ok_def qok_def shaped_def)

lemma keepLocked_closed:
  assumes "keepLocked (q, p) n m = (q', p')"
  shows "ch q' = ch q" "head q' = head q" "assigned q' = assigned q" "q_closed q' = q_closed q"
  using releaseLocked_fields [OF assms [unfolded keepLocked_def]] by auto

lemma dropAcked_none:
  assumes "dropAcked (q, p) ack = (q', p')" "assigned q = []"
  shows "assigned q' = []" "ch q' = ch q" "head q' = head q" "q_closed q' = q_closed q"
  using dropAcked_fields [OF assms(1)] assms(2) by auto

lemma exec_spent:
  assumes sp: "spent d" and e: "exec a d p = Some (d', p', ans)"
  shows "spent d'"
proof -
  note s = sp [unfolded spent_def]
  show ?thesis
  proof (cases a)
    case (OpAdmit seq n w)
    then show ?thesis using e s
      by (auto simp: admitSeq_def tryReserve_def Let_def spent_def split: if_splits)
  next
    case (OpReserve n w)
    then show ?thesis using e s by (auto simp: reserve_def tryReserve_def spent_def split: if_splits)
  next
    case (OpUnreserve n)
    then show ?thesis using e s
      by (auto simp: unreserve_def spent_def keepLocked_closed split: if_splits prod.splits)
  next
    case (OpEnqueue b n)
    obtain q1 p1 where k: "keepLocked (dq d, p) n 0 = (q1, p1)" by (metis surj_pair)
    then show ?thesis using e OpEnqueue s keepLocked_closed [OF k]
      by (auto simp: enqueue_def spent_def split: if_splits)
  next
    case (OpCommit seq b n)
    obtain q1 p1 where k: "keepLocked (dq d, p) n 0 = (q1, p1)" by (metis surj_pair)
    then show ?thesis using e OpCommit s keepLocked_closed [OF k]
      by (auto simp: commitSeq_def spent_def split: if_splits)
  next
    case OpClose
    then show ?thesis using e s by (auto simp: q_close_def spent_def)
  next
    case OpFree
    then show ?thesis using e s
      by (auto simp: q_free_def q_close_def wakeLocked_def Let_def spent_def split: if_splits)
  next
    case (OpTake ack limit)
    obtain q1 p1 where k: "dropAcked (dq d, p) ack = (q1, p1)" by (metis surj_pair)
    note n = dropAcked_none [OF k]
    show ?thesis using e OpTake s k n
      by (auto simp: takeUpTo_start_def first_assigned_def drain_start_def beginTake_def spent_def
          split: if_splits option.splits list.splits)
  next
    case (OpLook ack want)
    obtain q1 p1 where k: "dropAcked (dq d, p) ack = (q1, p1)" by (metis surj_pair)
    show ?thesis using e OpLook s k dropAcked_none [OF k]
      by (auto simp: window_look_def spent_def split: if_splits option.splits)
  next
    case (OpWindow want limit)
    then show ?thesis using e s
      by (auto simp: window_start_def drain_start_def spent_def split: if_splits)
  next
    case (OpPoll limit)
    then show ?thesis using e s
      by (auto simp: pollDrain_start_def drain_start_def beginTake_def Let_def spent_def split: if_splits)
  next
    case OpPull
    then show ?thesis using e s by (auto simp: can_pull_def split: option.splits if_splits)
  next
    case (OpEnd en)
    then show ?thesis using e s by (auto simp: spent_def split: option.splits if_splits)
  next
    case OpReturn
    then obtain dr where dr: "dpoll d = Some dr" "d_ending dr \<noteq> None"
      using e by (auto split: option.splits if_splits)
    obtain q1 p1 where k: "releaseLocked (dq d, p) 0 (int (d_taken dr)) = (q1, p1)" by (metis surj_pair)
    show ?thesis using e OpReturn s dr k releaseLocked_fields(1,2,5,7) [OF k]
      by (simp add: drain_return_def spent_def) (auto split: if_splits)
  next
    case OpFinish
    then obtain dr where dr: "dpoll d = Some dr" "d_ending dr \<noteq> None" "d_taken dr = 0"
      using e by (auto split: option.splits if_splits)
    then have out: "d_out dr = []" using s by simp
    obtain q1 p1 where k: "releaseLocked (dq d, p) 0 0 = (q1, p1)" by (metis surj_pair)
    obtain q2 p2 r where f: "take_finish (dq d, p) dr = ((q2, p2), r)" by (metis surj_pair)
    have "ch q2 = [] \<and> head q2 = [] \<and> assigned q2 = [] \<and> q_closed q2"
      using f out s k releaseLocked_fields(1,2,5,7) [OF k]
      by (cases "d_kind dr") (auto simp: take_finish_def release_turn_def endTake_def)
    then show ?thesis using e OpFinish dr f by (auto simp: spent_def)
  qed
qed

lemma exec_freed:
  assumes "dir_ok d" "sees (dq d) p" "exec a d p = Some (d', p', ans)" "freed (dq d)"
  shows "freed (dq d')"
proof (cases "a = OpFree")
  case True
  then show ?thesis using assms(3,4) by (auto simp: q_free_def q_close_def Let_def split: prod.splits if_splits)
next
  case False
  then show ?thesis using exec_ok [OF assms(1-3)] assms(4) by (auto simp: balanced_def split: prod.splits)
qed

lemma relay_step_dirs:
  assumes "relay_step m m'" "relay_ok m" "i < length (fst m)"
  shows "i < length (fst m')" "freed (dq (fst m ! i)) \<Longrightarrow> freed (dq (fst m' ! i))"
    "spent (fst m ! i) \<Longrightarrow> spent (fst m' ! i)"
proof -
  have "i < length (fst m') \<and> (freed (dq (fst m ! i)) \<longrightarrow> freed (dq (fst m' ! i)))
    \<and> (spent (fst m ! i) \<longrightarrow> spent (fst m' ! i))"
    using assms
  proof (induction rule: relay_step.induct)
    case (request k ds a p d' p' ans)
    have "dir_ok (ds ! k)" "sees (dq (ds ! k)) p"
      using relay_okD(1) [OF request(3)] relay_ok_sees [OF request(3)] request(1) by auto
    then show ?case using request(1,2,4) exec_freed exec_spent by (auto simp: nth_list_update)
  qed (auto simp: nth_append)
  then show "i < length (fst m')" "freed (dq (fst m ! i)) \<Longrightarrow> freed (dq (fst m' ! i))"
    "spent (fst m ! i) \<Longrightarrow> spent (fst m' ! i)" by blast+
qed

lemma relay_steps_dirs:
  assumes "relay_step\<^sup>*\<^sup>* m m'" "relay_ok m"
  shows "relay_ok m'" and "i < length (fst m) \<Longrightarrow> i < length (fst m')
    \<and> (freed (dq (fst m ! i)) \<longrightarrow> freed (dq (fst m' ! i))) \<and> (spent (fst m ! i) \<longrightarrow> spent (fst m' ! i))"
proof -
  have "relay_ok m' \<and> (i < length (fst m) \<longrightarrow> i < length (fst m')
    \<and> (freed (dq (fst m ! i)) \<longrightarrow> freed (dq (fst m' ! i))) \<and> (spent (fst m ! i) \<longrightarrow> spent (fst m' ! i)))"
    using assms
  proof (induction rule: rtranclp_induct)
    case (step y z)
    then show ?case using relay_step_ok relay_step_dirs [OF step(2)] by auto
  qed simp
  then show "relay_ok m'" and "i < length (fst m) \<Longrightarrow> i < length (fst m')
    \<and> (freed (dq (fst m ! i)) \<longrightarrow> freed (dq (fst m' ! i))) \<and> (spent (fst m ! i) \<longrightarrow> spent (fst m' ! i))" by auto
qed

end
