(* ===== verification/SessionInvariant.thy ===== *)
theory SessionInvariant
  imports SessionRuns
begin

text \<open>
  The invariant \<open>reg_ok\<close> of the registry of \<open>Sessions\<close> and the proof that each
  critical section keeps it, whatever the order in which the requests take their turns.
  Its parts are that the byte account is exact, that every pointer is in range, that a
  session which left the registry has given back its directions or somebody is about to
  (\<open>owed\<close>), that the counts are within their limits (\<open>counts_ok\<close>), that a registration
  has the lock to itself (\<open>lock_ok\<close>) and that a session about to be retired owes nobody
  a byte (\<open>spent_ok\<close>).
\<close>

subsection \<open>Entries\<close>

lemma enter_tables:
  assumes "enter en e R = Some (R', ts)"
  shows "set (hsess R') \<subseteq> set (hsess R)" "leases R' = leases R" "set (timers R') \<subseteq> set (timers R)"
    "length (sess R') = length (sess R)" "mem R' = mem R"
proof -
  have "set (hsess R') \<subseteq> set (hsess R) \<and> leases R' = leases R \<and> set (timers R') \<subseteq> set (timers R)
    \<and> length (sess R') = length (sess R)"
    using assms
    by (cases en) (auto simp: entry_defs set_al_del dest: in_set_takeD in_set_dropD
        split: if_splits option.splits prod.splits)
  then show "set (hsess R') \<subseteq> set (hsess R)" "leases R' = leases R" "set (timers R') \<subseteq> set (timers R)"
    "length (sess R') = length (sess R)" by blast+
  show "mem R' = mem R" by (rule enter_mem [OF assms])
qed

lemma enter_addressed:
  assumes e: "enter en e R = Some (R', ts)" and ok: "addressed R"
  shows "addressed R'"
proof -
  note t = enter_tables [OF e] and g = enter_grows [OF e, unfolded grows_def]
  have "toClient (sess R' ! s) = 2 * s \<and> toAgent (sess R' ! s) = 2 * s + 1" if "s < length (sess R')" for s
    using that g t(4) ok by (auto simp: addressed_def same_core_def)
  moreover have "\<forall>s \<in> snd ` set (hsess R'). s < length (sess R')"
    using t(1,4) ok unfolding addressed_def by auto
  moreover have "\<forall>(w, sid, s, g) \<in> set (timers R'). s < length (sess R')"
    using t(3,4) ok unfolding addressed_def by auto
  ultimately show ?thesis using t(2,4,5) ok unfolding addressed_def by simp
qed

lemma enter_task_ok:
  assumes e: "enter en e R = Some (R', ts)" and ok: "addressed R" and t: "t \<in> set ts"
  shows "task_ok R' t"
proof -
  have ran: "s < length (sess R)" if "map_of (hsess R) sid = Some s" for sid s
    by (rule addressedD(4) [OF ok that])
  have set_ran: "s < length (sess R)" if "(sid, s) \<in> set (hsess R)" for sid s
    using ok that by (force simp: addressed_def)
  have lease_ran: "s < length (sess R)" if "(sid, s) \<in> set (leases R)" for sid s
    using ok that by (force simp: addressed_def)
  have timer_ran: "s < length (sess R)" if "k < length (timers R)" "timers R ! k = (w, sid, s, g)" for k w sid s g
    using ok nth_mem [OF that(1)] that(2) by (force simp: addressed_def)
  have "set (sess_of t) \<subseteq> {..<length (sess R)}"
  proof (cases en)
    case (EDisconnect ns)
    then show ?thesis using e t lease_ran by (auto simp: disconnectNamespace_def)
  next
    case (EExpire k)
    then show ?thesis using e t timer_ran
      by (auto simp: expireControllerDisconnect_def Let_def split: if_splits prod.splits)
  next
    case EReap
    then show ?thesis using e t set_ran by (auto simp: reapHTTP_def free_session_def)
  next
    case EGoneScan
    then show ?thesis using e t by (auto simp: endSessionsOfGoneAgents_def Let_def)
  next
    case (EClose a u)
    then show ?thesis using e t ran subsetD [OF closing_tasks_sess(1) [of t]] subsetD [OF acceptUpload_sess [of t]]
      by (fastforce simp: handleHClose_def closing_sess_def split: if_splits option.splits)
  next
    case (EConnClose sid s role)
    then show ?thesis using e t
      by (auto simp: conn_close_def closeHTTPSessionDrainable_def close_session_def split: if_splits)
  qed (use e t ran in \<open>auto simp: entry_defs handleHDial_def handleHDialToWS_def handleWSDialToHTTP_def
      poller_sess_def split: if_splits option.splits sum.splits prod.splits\<close>)
  then show ?thesis using enter_tables(4) [OF e] by (auto simp: task_ok_def)
qed

subsection \<open>What is owed to a session that left the registry\<close>

definition owed :: "registry \<Rightarrow> task set \<Rightarrow> nat \<Rightarrow> bool" where
  "owed R P s \<longleftrightarrow>
     s \<in> snd ` set (hsess R)
     \<or> (\<exists>sid ns msg l k. TPublish sid s ns msg l k \<in> P) \<or> (\<exists>sid. TRemove sid s \<in> P)
     \<or> (\<forall>i \<in> {2 * s, 2 * s + 1}. freed (dq (dir_of R i)) \<or> TFree i \<in> P)"

lemma owed_mono: "owed R P s \<Longrightarrow> P \<subseteq> Q \<Longrightarrow> owed R Q s"
  unfolding owed_def by blast

lemma free_session_addressed:
  "addressed R \<Longrightarrow> s < length (sess R) \<Longrightarrow> free_session R s = [TFree (2 * s), TFree (2 * s + 1)]"
  by (simp add: free_session_def addressedD)

lemma al_del_values:
  assumes "distinct (map fst xs)" "map_of xs k = Some v" "v' \<in> snd ` set xs" "v' \<noteq> v"
  shows "v' \<in> snd ` set (al_del k xs)"
proof -
  obtain k' where k': "(k', v') \<in> set xs" using assms(3) by auto
  then have "map_of xs k' = Some v'" using assms(1) by simp
  then have "k' \<noteq> k" using assms(2,4) by auto
  then show ?thesis using k' by (force simp: set_al_del)
qed

lemma freed_stays:
  assumes "relay_step\<^sup>*\<^sup>* (mem R) (mem R')" "relay_ok (mem R)" "i < length (fst (mem R))"
    "freed (dq (dir_of R i))"
  shows "freed (dq (dir_of R' i))"
  using relay_steps_dirs(2) [OF assms(1,2,3)] assms(4) by (simp add: dir_of_def)

lemma do_op_free_frees:
  assumes "i < length (fst (mem R))"
  shows "freed (dq (dir_of (do_op OpFree i R) i))"
  using assms
  by (cases "mem R") (auto simp: do_op_def run_op_def dir_of_def q_free_def q_close_def Let_def wakeLocked_def
      split: prod.splits if_splits)

lemma exec_owed:
  assumes e: "exec_task t e R = (R', ts)" and ok: "addressed R" "relay_ok (mem R)" "distinct (map fst (hsess R))"
    and fresh: "fresh_id t R" and s: "s < length (sess R)" and o: "owed R P s"
    and P: "P \<subseteq> insert t Q" "set ts \<subseteq> Q"
  shows "owed R' Q s"
proof -
  have i: "2 * s < length (fst (mem R))" "2 * s + 1 < length (fst (mem R))" using addressedD(1) [OF ok(1)] s by auto
  note stays = freed_stays [OF exec_mem [OF e] ok(2)]
  note frees = free_session_addressed [OF ok(1) s]
  consider (reg) "s \<in> snd ` set (hsess R)"
    | (publish) sid ns msg l k where "TPublish sid s ns msg l k \<in> P"
    | (remove) sid where "TRemove sid s \<in> P"
    | (free) "\<forall>i \<in> {2 * s, 2 * s + 1}. freed (dq (dir_of R i)) \<or> TFree i \<in> P"
    using o unfolding owed_def by blast
  then show ?thesis
  proof cases
    case reg
    consider (same) "hsess R' = hsess R"
      | (gone) sid s' where "registered R sid s'" "hsess R' = al_del sid (hsess R)" "set (free_session R s') \<subseteq> set ts"
      | (new) sid s' ns msg l k where "t = TPublish sid s' ns msg l k" "hsess R' = al_put sid s' (hsess R)"
      using exec_hsess [OF e] by blast
    then show ?thesis
    proof cases
      case gone
      show ?thesis
      proof (cases "s' = s")
        case True
        then show ?thesis using gone(3) frees P(2) unfolding owed_def by auto
      next
        case False
        then show ?thesis using al_del_values [OF ok(3) _ reg, of sid s'] gone(1,2)
          by (auto simp: owed_def registered_def)
      qed
    next
      case new
      then have "sid \<notin> fst ` set (hsess R)" using fresh by (simp add: fresh_id_def map_of_eq_None)
      then show ?thesis using new(2) reg by (auto simp: owed_def al_put_fresh)
    qed (use reg in \<open>simp add: owed_def\<close>)
  next
    case publish
    show ?thesis
    proof (cases "t = TPublish sid s ns msg l k")
      case True
      have new: "s \<in> snd ` set (al_put sid s (hsess R))"
        using map_of_al_put [of sid s "hsess R"] map_of_SomeD [of "al_put sid s (hsess R)" sid s] by force
      show ?thesis using e True frees P(2) new
        by (auto simp: publish_session_def owed_def split: if_splits)
    next
      case False
      then show ?thesis using publish P(1) unfolding owed_def by blast
    qed
  next
    case remove
    show ?thesis
    proof (cases "t = TRemove sid s")
      case True
      then show ?thesis using e frees P(2) by (auto simp: closeHTTPSession_def owed_def)
    next
      case False
      then show ?thesis using remove P(1) unfolding owed_def by blast
    qed
  next
    case free
    have "freed (dq (dir_of R' j)) \<or> TFree j \<in> Q" if "j \<in> {2 * s, 2 * s + 1}" for j
    proof (cases "t = TFree j")
      case True
      then show ?thesis using e do_op_free_frees [of j R] that i by auto
    next
      case False
      then show ?thesis using free that i stays [of j] P(1) by blast
    qed
    then show ?thesis unfolding owed_def by blast
  qed
qed

lemma exec_opens:
  assumes e: "exec_task t e R = (R', ts)" and s: "s < length (sess R')" "\<not> s < length (sess R)" and Q: "set ts \<subseteq> Q"
  shows "owed R' Q s"
proof -
  have "\<exists>sid msg a w k. t = TOpen sid msg a w k"
    using exec_lengths(1) [OF e] s by fastforce
  then obtain sid msg a w k where t: "t = TOpen sid msg a w k" by blast
  then have "s = length (sess R)" using e s by (auto simp: newHTTPSession_def Let_def)
  then show ?thesis using e t Q by (auto simp: newHTTPSession_def Let_def owed_def)
qed

lemma enter_hsess_same:
  assumes "enter en e R = Some (R', ts)" "en \<noteq> EReap" "\<And>k. en \<noteq> EExpire k"
  shows "hsess R' = hsess R"
  using assms by (cases en) (auto simp: entry_defs split: if_splits option.splits prod.splits)

lemma enter_owed:
  assumes e: "enter en e R = Some (R', ts)" and ok: "addressed R" "distinct (map fst (hsess R))"
    and s: "s < length (sess R)" and o: "owed R P s" and P: "P \<subseteq> Q" "set ts \<subseteq> Q"
  shows "owed R' Q s"
proof -
  note frees = free_session_addressed [OF ok(1) s]
  have dirs: "dir_of R' = dir_of R" using enter_mem [OF e] by (auto simp: dir_of_def fun_eq_iff)
  show ?thesis
  proof (cases "s \<in> snd ` set (hsess R)")
    case False
    then show ?thesis using o P(1) dirs unfolding owed_def by auto
  next
    case True
    show ?thesis
    proof (cases en)
      case (EExpire k)
      obtain w sid s' g where k: "timers R ! k = (w, sid, s', g)" by (metis surj_pair)
      show ?thesis
      proof (cases "s' = s")
        case True
        then show ?thesis using e EExpire k P(2) \<open>s \<in> snd ` set (hsess R)\<close>
          by (auto simp: expireControllerDisconnect_def Let_def owed_def split: if_splits)
      next
        case False
        then show ?thesis
          using e EExpire k True al_del_values [OF ok(2) _ True, of sid s']
          by (auto simp: expireControllerDisconnect_def Let_def owed_def registered_def split: if_splits)
      qed
    next
      case EReap
      show ?thesis
      proof (cases "reaps R (e_now e) (sess R ! s)")
        case True
        obtain sid where "(sid, s) \<in> set (hsess R)" using \<open>s \<in> snd ` set (hsess R)\<close> by auto
        then have "set (free_session R s) \<subseteq> set ts" using e EReap True by (force simp: reapHTTP_def)
        then show ?thesis using P(2) frees unfolding owed_def by auto
      next
        case False
        obtain sid where "(sid, s) \<in> set (hsess R)" using \<open>s \<in> snd ` set (hsess R)\<close> by auto
        then have "(sid, s) \<in> set (hsess R')" using e EReap False by (auto simp: reapHTTP_def)
        then show ?thesis unfolding owed_def by force
      qed
    qed (use True enter_hsess_same [OF e] in \<open>simp_all add: owed_def\<close>)
  qed
qed

subsection \<open>Counts\<close>

definition publish_ok :: "registry \<Rightarrow> task \<Rightarrow> bool" where
  "publish_ok R t \<longleftrightarrow>
     (case t of
        TPublish sid s ns msg l k \<Rightarrow>
          if ns = [] then hs_callerNS (sess R ! s) = [] \<or> hs_callerNS (sess R ! s) = portal R
          else hs_callerNS (sess R ! s) = ns
      | _ \<Rightarrow> True)"

definition counts_ok :: "registry \<Rightarrow> bool" where
  "counts_ok R \<longleftrightarrow>
     distinct (map fst (hsess R)) \<and> maxSessions R = httpSessionsTotal \<and> length (hsess R) \<le> httpSessionsTotal
     \<and> (\<forall>ns. ns \<noteq> [] \<and> ns \<noteq> portal R \<longrightarrow> countNamespaceSessionsLocked R ns \<le> httpSessionsPerNS)"

text \<open>The count of a namespace only depends on who dialed the sessions.\<close>

lemma count_same:
  assumes "grows R R'" "\<forall>s \<in> snd ` set xs. s < length (sess R)"
  shows "length (filter (\<lambda>(_, s). hs_callerNS (sess R' ! s) = ns) xs)
       = length (filter (\<lambda>(_, s). hs_callerNS (sess R ! s) = ns) xs)"
proof -
  have "filter (\<lambda>(_, s). hs_callerNS (sess R' ! s) = ns) xs = filter (\<lambda>(_, s). hs_callerNS (sess R ! s) = ns) xs"
    using assms by (intro filter_cong) (auto simp: grows_def same_core_def)
  then show ?thesis by simp
qed

lemma length_filter_sub: "length (filter P (filter Q xs)) \<le> length (filter P xs)"
  by (induction xs) auto

lemma shrink_counts_ok:
  assumes ok: "counts_ok R" "addressed R" and g: "grows R R'" and sub: "hsess R' = filter Q (hsess R)"
  shows "counts_ok R'"
proof -
  have "\<forall>s \<in> snd ` set (filter Q (hsess R)). s < length (sess R)" using ok(2) by (auto simp: addressed_def)
  note same = count_same [OF g this]
  have "countNamespaceSessionsLocked R' ns \<le> countNamespaceSessionsLocked R ns" for ns
    using length_filter_sub [of "\<lambda>(_, s). hs_callerNS (sess R ! s) = ns" Q "hsess R"]
    by (simp only: countNamespaceSessionsLocked_def sub same)
  moreover have "length (filter Q (hsess R)) \<le> httpSessionsTotal"
    using ok(1) length_filter_le [of Q "hsess R"] unfolding counts_ok_def by linarith
  ultimately show ?thesis using ok(1) g
    by (auto simp: counts_ok_def sub grows_def distinct_map_filter intro: le_trans)
qed

lemma exec_counts_ok:
  assumes e: "exec_task t e R = (R', ts)" and ok: "counts_ok R" "addressed R" and fresh: "fresh_id t R"
    and p: "publish_ok R t" and t: "task_ok R t"
  shows "counts_ok R'"
proof -
  note g = exec_grows [OF e]
  consider (same) "hsess R' = hsess R"
    | (gone) sid where "hsess R' = al_del sid (hsess R)"
    | (new) sid s ns msg l k where "t = TPublish sid s ns msg l k" "hsess R' = al_put sid s (hsess R)"
        "length (hsess R) < maxSessions R" "ns \<noteq> [] \<longrightarrow> countNamespaceSessionsLocked R ns < httpSessionsPerNS"
    using exec_hsess [OF e] by blast
  then show ?thesis
  proof cases
    case same
    then show ?thesis using shrink_counts_ok [OF ok g, of "\<lambda>_. True"] by simp
  next
    case gone
    then show ?thesis using shrink_counts_ok [OF ok g] unfolding al_del_def by blast
  next
    case new
    then have put: "hsess R' = hsess R @ [(sid, s)]"
      using fresh by (simp add: fresh_id_def map_of_eq_None al_put_fresh)
    have core: "hs_callerNS (sess R' ! s) = hs_callerNS (sess R ! s)"
      using g t new(1) by (auto simp: grows_def same_core_def task_ok_def)
    have "countNamespaceSessionsLocked R' m
        = countNamespaceSessionsLocked R m + (if hs_callerNS (sess R ! s) = m then 1 else 0)" for m
      using count_same [OF g, of "hsess R" m] ok(2) core
      by (simp add: countNamespaceSessionsLocked_def put addressed_def)
    then have "countNamespaceSessionsLocked R' m \<le> httpSessionsPerNS" if "m \<noteq> []" "m \<noteq> portal R" for m
      using that p new(1,4) ok(1) by (cases "ns = []") (auto simp: publish_ok_def counts_ok_def split: if_splits)
    moreover have "distinct (map fst (hsess R'))"
      using distinct_al_put [of "hsess R" sid s] ok(1) new(2) by (simp add: counts_ok_def)
    ultimately show ?thesis using g ok(1) new(3) put by (auto simp: counts_ok_def grows_def)
  qed
qed

lemma enter_counts_ok:
  assumes e: "enter en e R = Some (R', ts)" and ok: "counts_ok R" "addressed R"
  shows "counts_ok R'"
proof -
  have "\<exists>Q. hsess R' = filter Q (hsess R)"
  proof (cases en)
    case (EExpire k)
    then show ?thesis using e
      by (auto simp: expireControllerDisconnect_def Let_def al_del_def split: if_splits prod.splits
          intro: exI [of _ "\<lambda>_. True"])
  next
    case EReap
    then show ?thesis using e by (auto simp: reapHTTP_def)
  qed (use e in \<open>auto simp: entry_defs split: if_splits option.splits prod.splits intro!: exI [of _ "\<lambda>_. True"]\<close>)
  then show ?thesis using shrink_counts_ok [OF ok enter_grows [OF e]] by blast
qed

text \<open>Who publishes: the section that made the session.\<close>

lemma publish_ok_grows:
  assumes "publish_ok R t" "task_ok R t" "grows R R'"
  shows "publish_ok R' t"
  using assms by (cases t) (auto simp: publish_ok_def task_ok_def grows_def same_core_def)

text \<open>Few sections leave a task behind that a part of the invariant speaks of.\<close>

definition special :: "task \<Rightarrow> bool" where
  "special t \<longleftrightarrow>
     (case t of
        TPublish _ _ _ _ _ _ \<Rightarrow> True | TRegister _ _ _ \<Rightarrow> True | TEnabled _ _ _ _ \<Rightarrow> True
      | TSettledToo _ _ \<Rightarrow> True | TRetire _ _ \<Rightarrow> True | _ \<Rightarrow> False)"

lemma no_special:
  "t \<in> set (after_poll i p r) \<Longrightarrow> \<not> special t" "t \<in> set (handleHClose_end R sid s role) \<Longrightarrow> \<not> special t"
  "t \<in> set (upload_taken R c) \<Longrightarrow> \<not> special t" "t \<in> set (upload_closed R c) \<Longrightarrow> \<not> special t"
  "t \<in> set (acceptUpload i seq n c) \<Longrightarrow> \<not> special t" "t \<in> set (close_session R s) \<Longrightarrow> \<not> special t"
  by (auto simp: after_poll_def upload_taken_def upload_closed_def handleHClose_end_def close_session_def
      acceptUpload_def special_def split: byte_taker.splits option.splits if_splits)

lemma queue_not_special:
  assumes "exec_task t e R = (R', ts)" "on_queue t" "t' \<in> set ts"
  shows "\<not> special t'"
proof (cases t)
  case (TUpload i seq n w c)
  then show ?thesis using assms no_special(3,4)
    by (auto simp: upload_admit_def special_def split: option.splits prod.splits answer.splits
        admission.splits werr.splits if_splits)
next
  case (TBody i seq n c)
  then show ?thesis using assms no_special(3,4)
    by (auto simp: upload_body_def special_def split: option.splits prod.splits answer.splits sum.splits if_splits)
next
  case (TPush i b)
  then show ?thesis using assms
    by (auto simp: conn_push_def special_def split: option.splits prod.splits answer.splits admission.splits)
next
  case (TTake i ack limit p)
  then show ?thesis using assms no_special(1)
    by (auto simp: poll_start_def special_def split: option.splits prod.splits answer.splits if_splits)
next
  case (TPoll i limit p)
  then show ?thesis using assms no_special(1)
    by (auto simp: poll_start_def special_def split: option.splits prod.splits answer.splits if_splits)
next
  case (TLook i ack want limit p)
  then show ?thesis using assms no_special(1)
    by (auto simp: window_next_def window_wait_def special_def split: option.splits prod.splits answer.splits if_splits)
next
  case (TWindow i ack want limit p)
  then show ?thesis using assms no_special(1)
    by (auto simp: window_turn_def window_wait_def special_def split: option.splits prod.splits answer.splits if_splits)
next
  case (TDrain i p)
  then show ?thesis using assms
    by (auto simp: drain_turn_def special_def split: option.splits prod.splits answer.splits if_splits)
next
  case (TFinish i p)
  then show ?thesis using assms no_special(1)
    by (auto simp: drain_finish_def special_def split: option.splits prod.splits answer.splits if_splits)
qed (use assms in \<open>auto simp: on_queue_def special_def\<close>)

lemma exec_special:
  assumes e: "exec_task t e R = (R', ts)" and t': "t' \<in> set ts" "special t'"
  shows "(\<exists>sid msg a w k. t = TOpen sid msg a w k) \<or> (\<exists>sid s. t = TSettled sid s)
    \<or> (\<exists>sid s. t = TSettledToo sid s) \<or> (\<exists>key a q. t = TRegister key a q)"
proof (cases "on_queue t")
  case True
  then show ?thesis using queue_not_special [OF e True t'(1)] t'(2) by simp
next
  case False
  show ?thesis
  proof (cases t)
    case (TUpClosed u s)
    then show ?thesis using e t' no_special(5)
      by (auto simp: up_closed_def special_def split: if_splits option.splits)
  next
    case (TDown sid s d g)
    then show ?thesis using e t' by (auto simp: down_take_def special_def Let_def split: if_splits option.splits)
  next
    case (TDownEnd sid s d g r)
    then show ?thesis using e t' by (auto simp: down_end_def special_def Let_def split: if_splits option.splits)
  qed (use e t' False in \<open>auto simp: control_defs special_def on_queue_def split: step_splits\<close>)
qed

lemma enter_special:
  assumes e: "enter en e R = Some (R', ts)" and t': "t' \<in> set ts" "special t'"
  shows "\<exists>q. en = EPoll q"
proof (cases en)
  case (EClose a u)
  then show ?thesis using e t' no_special(2,5)
    by (auto simp: handleHClose_def special_def split: if_splits option.splits)
next
  case (EExpire k)
  then show ?thesis using e t'
    by (auto simp: expireControllerDisconnect_def Let_def special_def split: if_splits prod.splits)
qed (use e t' no_special(6) in \<open>auto simp: entry_defs special_def handleHDial_def handleHDialToWS_def
    handleWSDialToHTTP_def conn_close_def closeHTTPSessionDrainable_def disconnectNamespace_def free_session_def
    split: if_splits option.splits sum.splits prod.splits\<close>)

lemma exec_publish_ok:
  assumes e: "exec_task t e R = (R', ts)" and t': "t' \<in> set ts"
  shows "publish_ok R' t'"
proof (cases "\<exists>sid s ns msg l k. t' = TPublish sid s ns msg l k")
  case True
  then have "special t'" by (auto simp: special_def)
  then show ?thesis using exec_special [OF e t'] e t' True
    by (auto simp: newHTTPSession_def Let_def publish_ok_def charged_ns_def releaseDrained_client_def
        releaseDrained_agent_def poll_publish_def split: if_splits)
qed (auto simp: publish_ok_def split: task.splits)

lemma enter_publish_ok:
  assumes e: "enter en e R = Some (R', ts)" and t': "t' \<in> set ts"
  shows "publish_ok R' t'"
proof (cases "\<exists>sid s ns msg l k. t' = TPublish sid s ns msg l k")
  case True
  then have "special t'" by (auto simp: special_def)
  then show ?thesis using enter_special [OF e t'] e t' True
    by (auto simp: poll_look_def split: if_splits option.splits)
qed (auto simp: publish_ok_def split: task.splits)

subsection \<open>A session about to be retired\<close>

definition spent_ok :: "registry \<Rightarrow> task \<Rightarrow> bool" where
  "spent_ok R t \<longleftrightarrow>
     (case t of
        TSettledToo sid s \<Rightarrow> spent (dir_of R (toClient (sess R ! s)))
      | TRetire sid s \<Rightarrow> spent (dir_of R (toClient (sess R ! s))) \<and> spent (dir_of R (toAgent (sess R ! s)))
      | _ \<Rightarrow> True)"

lemma spent_ok_stays:
  assumes st: "relay_step\<^sup>*\<^sup>* (mem R) (mem R')" "relay_ok (mem R)" and g: "grows R R'" and ad: "addressed R"
    and t: "task_ok R t" "spent_ok R t"
  shows "spent_ok R' t"
proof -
  have keep: "spent (dir_of R' (toClient (sess R' ! s)))" if "spent (dir_of R (toClient (sess R ! s)))" "s < length (sess R)" for s
  proof -
    have "toClient (sess R' ! s) = toClient (sess R ! s)" "toClient (sess R ! s) < length (fst (mem R))"
      using g that(2) addressedD(1,2) [OF ad] by (auto simp: grows_def same_core_def)
    then show ?thesis using relay_steps_dirs(2) [OF st, of "toClient (sess R ! s)"] that(1) by (simp add: dir_of_def)
  qed
  have keep': "spent (dir_of R' (toAgent (sess R' ! s)))" if "spent (dir_of R (toAgent (sess R ! s)))" "s < length (sess R)" for s
  proof -
    have "toAgent (sess R' ! s) = toAgent (sess R ! s)" "toAgent (sess R ! s) < length (fst (mem R))"
      using g that(2) addressedD(1,3) [OF ad] by (auto simp: grows_def same_core_def)
    then show ?thesis using relay_steps_dirs(2) [OF st, of "toAgent (sess R ! s)"] that(1) by (simp add: dir_of_def)
  qed
  show ?thesis using t keep keep' by (cases t) (auto simp: spent_ok_def task_ok_def)
qed

lemma settled_dir_spent:
  assumes "relay_ok (mem R)" "i < length (fst (mem R))" "settled (dq (dir_of R i))"
  shows "spent (dir_of R i)"
proof -
  have "relay_ok (fst (mem R), snd (mem R))" using assms(1) by simp
  from relay_okD(1) [OF this nth_mem [OF assms(2)]] have "dir_ok (dir_of R i)" by (simp add: dir_of_def)
  then show ?thesis using assms(3) by (rule settled_spent)
qed

lemma exec_spent_ok:
  assumes e: "exec_task t e R = (R', ts)" and ok: "addressed R" "relay_ok (mem R)" and t: "task_ok R t" "spent_ok R t"
    and t': "t' \<in> set ts"
  shows "spent_ok R' t'"
proof (cases "special t'")
  case True
  then consider (a) sid msg a w k where "t = TOpen sid msg a w k" | (b) sid s where "t = TSettled sid s"
    | (c) sid s where "t = TSettledToo sid s" | (d) key a q where "t = TRegister key a q"
    using exec_special [OF e t'] by blast
  then show ?thesis
  proof cases
    case b
    then have "toClient (sess R ! s) < length (fst (mem R))"
      using t(1) addressedD(1,2) [OF ok(1)] by (simp add: task_ok_def)
    then show ?thesis using e t' b settled_dir_spent [OF ok(2)]
      by (auto simp: releaseDrained_client_def spent_ok_def split: if_splits)
  next
    case c
    then have "toAgent (sess R ! s) < length (fst (mem R))"
      using t(1) addressedD(1,3) [OF ok(1)] by (simp add: task_ok_def)
    then show ?thesis using e t' c t(2) settled_dir_spent [OF ok(2)]
      by (auto simp: releaseDrained_agent_def spent_ok_def split: if_splits)
  qed (use e t' in \<open>auto simp: newHTTPSession_def poll_publish_def Let_def spent_ok_def split: if_splits\<close>)
qed (auto simp: spent_ok_def special_def split: task.splits)

lemma enter_spent_ok:
  assumes e: "enter en e R = Some (R', ts)" and t': "t' \<in> set ts"
  shows "spent_ok R' t'"
proof (cases "special t'")
  case True
  then show ?thesis using enter_special [OF e t'] e t'
    by (auto simp: poll_look_def spent_ok_def split: if_splits option.splits)
qed (auto simp: spent_ok_def special_def split: task.splits)


subsection \<open>The registration lock\<close>

definition is_lock :: "task \<Rightarrow> bool" where
  "is_lock t \<longleftrightarrow> (case t of TRegister _ _ _ \<Rightarrow> True | TEnabled _ _ _ _ \<Rightarrow> True | _ \<Rightarrow> False)"

text \<open>An instance that polls is not among the retired ones.\<close>

definition agents_ok :: "registry \<Rightarrow> bool" where
  "agents_ok R \<longleftrightarrow>
     distinct (map fst (hagents R)) \<and> (\<forall>a \<in> snd ` set (hagents R). a < length (agents R))
     \<and> (\<forall>ns. countNamespaceAgentsLocked R ns \<le> httpAgentsPerNS)
     \<and> (\<forall>g \<in> set (agents R). ag_inst g \<notin> set (retired g))"

text \<open>A registration about to be published: its entry still is in the table, or there is room for it.\<close>

definition reg_ready :: "registry \<Rightarrow> task \<Rightarrow> bool" where
  "reg_ready R t \<longleftrightarrow>
     (case t of
        TRegister key a q \<Rightarrow>
          a < length (agents R)
          \<and> (map_of (hagents R) key = Some a
             \<or> map_of (hagents R) key = None \<and> countNamespaceAgentsLocked R (ag_ns (agents R ! a)) < httpAgentsPerNS)
          \<and> (pr_inst q \<noteq> [] \<longrightarrow> pr_inst q \<notin> set (retired (agents R ! a)))
      | _ \<Rightarrow> True)"

definition same_agent :: "http_agent \<Rightarrow> http_agent \<Rightarrow> bool" where
  "same_agent g g' \<longleftrightarrow> ag_ns g' = ag_ns g \<and> ag_inst g' = ag_inst g \<and> retired g' = retired g"

lemma same_agent_updates [simp]:
  "same_agent g (g\<lparr>polls := n\<rparr>)" "same_agent g (g\<lparr>polls := n, ag_lastSeen := w\<rparr>)"
  "same_agent g (g\<lparr>ag_open := os\<rparr>)" "same_agent g (g\<lparr>ag_changed := c\<rparr>)"
  by (simp_all add: same_agent_def)

definition same_agents :: "registry \<Rightarrow> registry \<Rightarrow> bool" where
  "same_agents R R' \<longleftrightarrow> list_all2 same_agent (agents R) (agents R')"

lemma same_agents_refl [simp]: "agents R' = agents R \<Longrightarrow> same_agents R R'"
  by (simp add: same_agents_def list_all2_refl same_agent_def)

lemma same_agents_upd:
  assumes "same_agents R R'" "\<And>g. same_agent g (f g)"
  shows "same_agents R (upd_a a f R')"
proof -
  have "same_agent x (f y)" if "same_agent x y" for x y
    using that assms(2) [of y] by (simp add: same_agent_def)
  then show ?thesis
    using assms(1) by (auto simp: same_agents_def upd_a_def list_all2_conv_all_nth nth_upd)
qed

lemma same_agents_fields [simp]:
  "same_agents R (R'\<lparr>hagents := h, regLock := b\<rparr>) = same_agents R R'"
  "same_agents R (R'\<lparr>hagents := h\<rparr>) = same_agents R R'" "same_agents R (R'\<lparr>regLock := b\<rparr>) = same_agents R R'"
  by (simp_all add: same_agents_def)

lemma same_agents_foldr:
  "(\<And>g. same_agent g (f g)) \<Longrightarrow> same_agents R (foldr (\<lambda>(k, s). upd_a s f) xs R)"
  by (induction xs) (auto intro: same_agents_upd)

lemma same_agentsD:
  assumes "same_agents R R'"
  shows "length (agents R') = length (agents R)" "a < length (agents R) \<Longrightarrow> same_agent (agents R ! a) (agents R' ! a)"
  using assms by (auto simp: same_agents_def list_all2_conv_all_nth)

text \<open>Only a registration adds to the table of devices; everything else takes from it.\<close>

lemma shrink_agents:
  assumes s: "same_agents R R'" and h: "hagents R' = filter Q (hagents R)" and ok: "agents_ok R"
  shows "agents_ok R'" and "reg_ready R t \<Longrightarrow> reg_ready R' t"
proof -
  note len = same_agentsD(1) [OF s] and same = same_agentsD(2) [OF s, unfolded same_agent_def]
  have eq: "filter (\<lambda>(_, a). ag_ns (agents R' ! a) = ns) (filter Q (hagents R))
      = filter (\<lambda>(_, a). ag_ns (agents R ! a) = ns) (filter Q (hagents R))" for ns
    using ok same by (intro filter_cong) (auto simp: agents_ok_def)
  have count: "countNamespaceAgentsLocked R' ns
      = length (filter (\<lambda>(_, a). ag_ns (agents R ! a) = ns) (filter Q (hagents R)))" for ns
    by (simp only: countNamespaceAgentsLocked_def h eq)
  then have le: "countNamespaceAgentsLocked R' ns \<le> countNamespaceAgentsLocked R ns" for ns
    using length_filter_sub by (simp only: countNamespaceAgentsLocked_def)
  have inst: "\<forall>g \<in> set (agents R'). ag_inst g \<notin> set (retired g)"
  proof
    fix g assume "g \<in> set (agents R')"
    then obtain a where "a < length (agents R)" "g = agents R' ! a" using len by (metis in_set_conv_nth)
    then show "ag_inst g \<notin> set (retired g)" using same [of a] ok by (auto simp: agents_ok_def)
  qed
  have "\<forall>a \<in> snd ` set (filter Q (hagents R)). a < length (agents R)" using ok by (auto simp: agents_ok_def)
  moreover have "distinct (map fst (filter Q (hagents R)))" using ok by (simp add: agents_ok_def distinct_map_filter)
  moreover have "countNamespaceAgentsLocked R' ns \<le> httpAgentsPerNS" for ns
    using le [of ns] ok unfolding agents_ok_def by (meson le_trans)
  ultimately show "agents_ok R'" using inst len by (simp only: agents_ok_def h) simp
  assume r: "reg_ready R t"
  show "reg_ready R' t"
  proof (cases "\<exists>key a q. t = TRegister key a q")
    case True
    then obtain key a q where t: "t = TRegister key a q" by blast
    note rr = r [unfolded t reg_ready_def task.case]
    have a: "a < length (agents R)" using rr by simp
    have in': "(map_of (filter Q (hagents R)) key = Some a)
      \<or> (map_of (filter Q (hagents R)) key = None
          \<and> countNamespaceAgentsLocked R' (ag_ns (agents R ! a)) < httpAgentsPerNS)"
    proof (cases "map_of (hagents R) key = Some a")
      case True
      then have mem: "(key, a) \<in> set (hagents R)" by (rule map_of_SomeD)
      show ?thesis
      proof (cases "Q (key, a)")
        case True
        then have "(key, a) \<in> set (filter Q (hagents R))" using mem by simp
        then show ?thesis using ok by (simp add: agents_ok_def distinct_map_filter)
      next
        case False
        let ?P = "\<lambda>(_, b). ag_ns (agents R ! b) = ag_ns (agents R ! a)"
        have none: "key \<notin> fst ` set (filter Q (hagents R))"
        proof
          assume "key \<in> fst ` set (filter Q (hagents R))"
          then obtain b where b: "(key, b) \<in> set (hagents R)" "Q (key, b)" by auto
          then have "b = a" using mem ok by (auto simp: agents_ok_def dest: eq_key_imp_eq_value)
          then show False using b(2) False by simp
        qed
        have "length (filter ?P (filter Q (hagents R))) < length (filter ?P (hagents R))"
        proof -
          have "filter ?P (filter Q (hagents R)) = filter Q (filter ?P (hagents R))" by (simp add: conj_commute)
          moreover have "(key, a) \<in> set (filter ?P (hagents R))" using mem by simp
          ultimately show ?thesis using False length_filter_less by metis
        qed
        moreover have "length (filter ?P (hagents R)) \<le> httpAgentsPerNS"
          using ok unfolding agents_ok_def countNamespaceAgentsLocked_def by blast
        ultimately have "countNamespaceAgentsLocked R' (ag_ns (agents R ! a)) < httpAgentsPerNS"
          unfolding count by linarith
        then show ?thesis using none by (simp add: map_of_eq_None)
      qed
    next
      case False
      then have "map_of (hagents R) key = None" "countNamespaceAgentsLocked R (ag_ns (agents R ! a)) < httpAgentsPerNS"
        using rr by auto
      then show ?thesis using le [of "ag_ns (agents R ! a)"] by (force simp: map_of_eq_None)
    qed
    then show ?thesis using rr len same [OF a] h by (simp add: t reg_ready_def)
  qed (auto simp: reg_ready_def split: task.splits)
qed

lemma al_put_same: "map_of xs k = Some v \<Longrightarrow> al_put k v xs = xs"
  by (induction xs) (auto split: if_splits)

lemma take_over_fresh:
  assumes "ag_inst g \<notin> set (retired g)" "inst \<noteq> [] \<longrightarrow> inst \<notin> set (retired g)"
  shows "ag_inst (take_over inst g) \<notin> set (retired (take_over inst g))"
  using assms by (auto simp: take_over_def)

lemma register_agents_ok:
  assumes e: "poll_publish e R key a q = (R', ts)" and ok: "agents_ok R" and r: "reg_ready R (TRegister key a q)"
  shows "agents_ok R'"
proof (cases "hagents R' = hagents R \<and> agents R' = agents R")
  case True
  then show ?thesis using ok by (simp add: agents_ok_def countNamespaceAgentsLocked_def)
next
  case False
  let ?f = "\<lambda>g. (take_over (pr_inst q) g)\<lparr>ag_name := pr_name q, ag_delegation := pr_delegation q,
      ag_scopedExec := pr_scopedExec q, ag_lastSeen := e_now e, polls := polls g + 1\<rparr>"
  have R': "hagents R' = al_put key a (hagents R)" "agents R' = (agents R)[a := ?f (agents R ! a)]"
    using e False by (auto simp: poll_publish_def Let_def upd_a_def split: if_splits)
  have a: "a < length (agents R)" using r by (simp add: reg_ready_def)
  have ns: "ag_ns (agents R' ! b) = ag_ns (agents R ! b)" for b
    using a by (simp add: R'(2) nth_upd)
  have "countNamespaceAgentsLocked R' m \<le> httpAgentsPerNS" for m
  proof (cases "map_of (hagents R) key = Some a")
    case True
    then show ?thesis using ok by (simp add: countNamespaceAgentsLocked_def R'(1) ns al_put_same agents_ok_def)
  next
    case False
    then have "map_of (hagents R) key = None" "countNamespaceAgentsLocked R (ag_ns (agents R ! a)) < httpAgentsPerNS"
      using r by (auto simp: reg_ready_def)
    moreover have "countNamespaceAgentsLocked R m \<le> httpAgentsPerNS" using ok by (simp add: agents_ok_def)
    ultimately show ?thesis
      by (simp add: countNamespaceAgentsLocked_def R'(1) ns al_put_fresh map_of_eq_None [symmetric]) auto
  qed
  moreover have "ag_inst g \<notin> set (retired g)" if "g \<in> set (agents R')" for g
  proof -
    from that have "g = ?f (agents R ! a) \<or> g \<in> set (agents R)"
      using set_update_subset_insert [of "agents R" a "?f (agents R ! a)"] unfolding R'(2) by blast
    moreover have "ag_inst (agents R ! a) \<notin> set (retired (agents R ! a))" using ok a by (simp add: agents_ok_def)
    ultimately show ?thesis using ok take_over_fresh [of "agents R ! a" "pr_inst q"] r
      by (auto simp: agents_ok_def reg_ready_def)
  qed
  moreover have "\<forall>b \<in> snd ` set (hagents R'). b < length (agents R')"
    using ok a set_al_put_sub [of _ key a "hagents R"] by (fastforce simp: agents_ok_def R')
  ultimately show ?thesis using ok by (simp add: agents_ok_def R'(1))
qed

lemma filter_all [simp]: "\<exists>Q. xs = filter Q xs"
  by (intro exI [of _ "\<lambda>_. True"]) simp

lemma exec_agents:
  assumes e: "exec_task t e R = (R', ts)" and no: "\<not> (\<exists>key a q. t = TRegister key a q)"
  shows "\<exists>Q. hagents R' = filter Q (hagents R) \<and> same_agents R R'"
proof (cases "on_queue t")
  case True
  then have "hagents R' = filter (\<lambda>_. True) (hagents R) \<and> same_agents R R'"
    using queue_change_keeps(5,6) [OF exec_on_queue [OF e True]] by simp
  then show ?thesis by blast
next
  case False
  have keep: ?thesis if "hagents R' = hagents R" "same_agents R R'"
    using that by (intro exI [of _ "\<lambda>_. True"]) simp
  show ?thesis
  proof (cases t)
    case (TEnabled key a q gen)
    show ?thesis
    proof (cases "accountsEnabled (e_disabler e) [pr_ns q]")
      case True
      then show ?thesis using e TEnabled keep by (auto simp: poll_enabled_def)
    next
      case False
      then show ?thesis using e TEnabled
        by (auto simp: poll_enabled_def al_del_def intro!: exI [of _ "\<lambda>(k', _). k' \<noteq> key"] same_agents_upd)
    qed
  next
    case (TEvict ns)
    then show ?thesis using e keep
      by (auto simp: evict_agents_def Let_def split: if_splits intro!: same_agents_foldr
          intro: exI [of _ "\<lambda>(_, a). ag_ns (agents R ! a) \<noteq> ns"])
  qed (use e no False in \<open>auto simp: section_defs on_queue_def Let_def intro!: same_agents_upd split: step_splits\<close>)
qed


lemma enter_agents:
  assumes e: "enter en e R = Some (R', ts)"
  shows "(\<exists>Q. hagents R' = filter Q (hagents R)) \<and> (same_agents R R'
    \<or> (\<exists>ns device. agents R' = agents R @ [new_agent ns device] \<and> hagents R' = hagents R))"
proof -
  show ?thesis
  proof (cases en)
    case EReap
    then show ?thesis using e by (auto simp: reapHTTP_def)
  next
    case (EPoll q)
    then show ?thesis using e by (fastforce simp: poll_look_def split: if_splits option.splits)
  qed (use e in \<open>auto simp: entry_defs al_del_def split: if_splits option.splits prod.splits\<close>)
qed


text \<open>The lock is held while, and only while, one registration is under way.\<close>

definition is_register :: "task \<Rightarrow> bool" where
  "is_register t \<longleftrightarrow> (\<exists>key a q. t = TRegister key a q)"

lemma not_special: "\<not> special t \<Longrightarrow> \<not> is_lock t \<and> \<not> is_register t"
  by (cases t) (auto simp: special_def is_lock_def is_register_def)

lemma exec_regLock:
  assumes e: "exec_task t e R = (R', ts)" and no: "\<not> is_lock t"
  shows "regLock R' = regLock R"
proof (cases "on_queue t")
  case True
  then show ?thesis using queue_change_keeps(7) [OF exec_on_queue [OF e True]] by simp
next
  case False
  then show ?thesis using e no
    by (cases t) (auto simp: section_defs on_queue_def is_lock_def Let_def split: step_splits)
qed

lemma exec_lock:
  assumes e: "exec_task t e R = (R', ts)"
  shows "\<not> is_lock t \<Longrightarrow> length (filter is_lock ts) = 0"
    and "is_lock t \<Longrightarrow> regLock R \<Longrightarrow> length (filter is_lock ts) = (if regLock R' then 1 else 0)"
    and "length (filter is_register ts) = 0"
proof -
  have no_reg: "\<not> is_register t'" if "t' \<in> set ts" for t'
  proof (cases "special t'")
    case True
    then show ?thesis using exec_special [OF e that] e that
      by (auto simp: newHTTPSession_def Let_def releaseDrained_client_def releaseDrained_agent_def poll_publish_def
          is_register_def split: if_splits)
  qed (use not_special in blast)
  then show "length (filter is_register ts) = 0" by (simp add: filter_empty_conv)
  show "length (filter is_lock ts) = 0" if "\<not> is_lock t"
  proof -
    have "\<not> is_lock t'" if "t' \<in> set ts" for t'
    proof (cases "special t'")
      case True
      then show ?thesis using exec_special [OF e that] e that \<open>\<not> is_lock t\<close>
        by (auto simp: newHTTPSession_def Let_def releaseDrained_client_def releaseDrained_agent_def
            is_lock_def split: if_splits)
    qed (use not_special in blast)
    then show ?thesis by (simp add: filter_empty_conv)
  qed
  show "length (filter is_lock ts) = (if regLock R' then 1 else 0)" if "is_lock t" "regLock R"
    using that e by (cases t) (auto simp: is_lock_def poll_publish_def poll_enabled_def Let_def split: if_splits)
qed

lemma enter_lock:
  assumes e: "enter en e R = Some (R', ts)"
  shows "length (filter is_lock ts) + (if regLock R then 1 else 0) = (if regLock R' then 1 else 0)"
proof (cases "\<exists>q. en = EPoll q")
  case True
  then show ?thesis using e
    by (auto simp: poll_look_def is_lock_def split: if_splits option.splits)
next
  case False
  then have "\<not> is_lock t'" if "t' \<in> set ts" for t'
    using enter_special [OF e that] not_special by blast
  moreover have "regLock R' = regLock R"
    using e False by (cases en) (auto simp: entry_defs split: if_splits option.splits prod.splits)
  ultimately show ?thesis by (simp add: filter_empty_conv)
qed

lemma count_new_agent:
  assumes "agents_ok R" "agents R' = agents R @ [new_agent ns device]" "hagents R' = hagents R"
  shows "countNamespaceAgentsLocked R' m = countNamespaceAgentsLocked R m"
proof -
  have "filter (\<lambda>(_, a). ag_ns (agents R' ! a) = m) (hagents R) = filter (\<lambda>(_, a). ag_ns (agents R ! a) = m) (hagents R)"
    using assms by (intro filter_cong) (auto simp: agents_ok_def nth_append)
  then show ?thesis by (simp add: countNamespaceAgentsLocked_def assms(3))
qed

lemma new_agent_ok:
  assumes ok: "agents_ok R" and R': "agents R' = agents R @ [new_agent ns device]" "hagents R' = hagents R"
  shows "agents_ok R'" and "reg_ready R t \<Longrightarrow> reg_ready R' t"
proof -
  note count = count_new_agent [OF ok R']
  show "agents_ok R'" using ok count by (auto simp: agents_ok_def R' new_agent_def)
  show "reg_ready R' t" if "reg_ready R t"
    using that count by (cases t) (auto simp: reg_ready_def R' nth_append)
qed

lemma enter_reg_ready:
  assumes e: "enter en e R = Some (R', ts)" and ok: "agents_ok R" and t: "t \<in> set ts"
  shows "reg_ready R' t"
proof (cases "special t")
  case True
  then obtain q where q: "en = EPoll q" using enter_special [OF e t] by blast
  show ?thesis
  proof (cases "map_of (hagents R) (poll_key q)")
    case None
    show ?thesis
    proof (cases "\<exists>c. t = TAnswer c")
      case False
      then have *: "countNamespaceAgentsLocked R (pr_ns q) < httpAgentsPerNS"
        "R' = R\<lparr>agents := agents R @ [new_agent (pr_ns q) (pr_device q)], regLock := True\<rparr>"
        "t = TRegister (poll_key q) (length (agents R)) q"
        using e q t None by (auto simp: poll_look_def split: if_splits)
      then have "countNamespaceAgentsLocked R' (pr_ns q) < httpAgentsPerNS"
        using count_new_agent [OF ok, of R' "pr_ns q" "pr_device q" "pr_ns q"] by simp
      then show ?thesis using * None by (simp add: reg_ready_def new_agent_def)
    qed (auto simp: reg_ready_def)
  next
    case (Some a)
    then have "a < length (agents R)" using ok map_of_SomeD [OF Some] by (force simp: agents_ok_def)
    then show ?thesis using e q t Some by (auto simp: poll_look_def reg_ready_def split: if_splits)
  qed
qed (auto simp: reg_ready_def special_def split: task.splits)

subsection \<open>The invariant of the registry\<close>

definition reg_ok :: "relay \<Rightarrow> bool" where
  "reg_ok m \<longleftrightarrow>
     (let (R, hs) = m in
      relay_ok (mem R) \<and> addressed R \<and> counts_ok R \<and> agents_ok R
      \<and> (\<forall>s < length (sess R). owed R (pending hs) s)
      \<and> (\<forall>t \<in> pending hs. task_ok R t \<and> publish_ok R t \<and> spent_ok R t \<and> reg_ready R t)
      \<and> count_tasks is_lock hs = (if regLock R then 1 else 0))"

lemma reg_okD:
  assumes "reg_ok (R, hs)"
  shows "relay_ok (mem R)" "addressed R" "counts_ok R" "agents_ok R"
    "s < length (sess R) \<Longrightarrow> owed R (pending hs) s"
    "t \<in> pending hs \<Longrightarrow> task_ok R t" "t \<in> pending hs \<Longrightarrow> publish_ok R t"
    "t \<in> pending hs \<Longrightarrow> spent_ok R t" "t \<in> pending hs \<Longrightarrow> reg_ready R t"
    "count_tasks is_lock hs = (if regLock R then 1 else 0)"
  using assms unfolding reg_ok_def Let_def prod.case by blast+

lemma reg_okI:
  assumes "relay_ok (mem R)" "addressed R" "counts_ok R" "agents_ok R"
    "\<And>s. s < length (sess R) \<Longrightarrow> owed R (pending hs) s"
    "\<And>t. t \<in> pending hs \<Longrightarrow> task_ok R t \<and> publish_ok R t \<and> spent_ok R t \<and> reg_ready R t"
    "count_tasks is_lock hs = (if regLock R then 1 else 0)"
  shows "reg_ok (R, hs)"
  unfolding reg_ok_def Let_def prod.case using assms by blast

lemma enters_ok:
  assumes e: "enter en e R = Some (R', ts)" and ok: "reg_ok (R, hs)"
  shows "reg_ok (R', hs @ [ts])"
proof (rule reg_okI)
  note o = reg_okD [OF ok] and g = enter_grows [OF e] and m = enter_mem [OF e]
  show "relay_ok (mem R')" using o(1) m by simp
  show "addressed R'" by (rule enter_addressed [OF e o(2)])
  show "counts_ok R'" by (rule enter_counts_ok [OF e o(3,2)])
  have agents: "agents_ok R' \<and> (\<forall>t. reg_ready R t \<longrightarrow> reg_ready R' t)"
    using enter_agents [OF e] shrink_agents [OF _ _ o(4)] new_agent_ok [OF o(4)] by blast
  then show "agents_ok R'" ..
  show "owed R' (pending (hs @ [ts])) s" if "s < length (sess R')" for s
  proof (rule enter_owed [OF e o(2)])
    show "distinct (map fst (hsess R))" using o(3) by (simp add: counts_ok_def)
    show "s < length (sess R)" using that enter_tables(4) [OF e] by simp
    then show "owed R (pending hs) s" by (rule o(5))
  qed auto
  show "task_ok R' t \<and> publish_ok R' t \<and> spent_ok R' t \<and> reg_ready R' t" if "t \<in> pending (hs @ [ts])" for t
  proof (cases "t \<in> set ts")
    case True
    then show ?thesis
      using enter_task_ok [OF e o(2)] enter_publish_ok [OF e] enter_spent_ok [OF e] enter_reg_ready [OF e o(4)] by blast
  next
    case False
    then have t: "t \<in> pending hs" using that by simp
    have "spent_ok R' t" using spent_ok_stays [OF _ o(1) g o(2) o(6) [OF t] o(8) [OF t]] m by simp
    then show ?thesis
      using task_ok_grows [OF g o(6) [OF t]] publish_ok_grows [OF o(7) [OF t] o(6) [OF t] g] agents o(9) [OF t] by blast
  qed
  show "count_tasks is_lock (hs @ [ts]) = (if regLock R' then 1 else 0)"
    using enter_lock [OF e] o(10) by (simp split: if_splits)
qed

lemma runs_ok:
  assumes i: "i < length hs" "hs ! i = t # rest" and fresh: "fresh_id t R"
    and e: "exec_task t e R = (R', ts)" and ok: "reg_ok (R, hs)"
  shows "reg_ok (R', hs[i := ts @ rest])"
proof (rule reg_okI)
  note o = reg_okD [OF ok] and g = exec_grows [OF e] and m = exec_mem [OF e] and p = pending_run [OF i]
  let ?hs = "hs[i := ts @ rest]"
  show "relay_ok (mem R')" by (rule relay_steps_dirs(1) [OF m o(1)])
  show "addressed R'" by (rule exec_addressed [OF e o(2) o(6) [OF p(4)]])
  show "counts_ok R'" by (rule exec_counts_ok [OF e o(3,2) fresh o(7) [OF p(4)] o(6) [OF p(4)]])
  have tasks: "u \<in> set ts \<or> u \<in> pending hs" if "u \<in> pending ?hs" for u using p(1) that by blast
  have lock: "regLock R" if "is_lock t"
    using o(10) p(4) that count_tasks_0 [of is_lock hs] by (cases "regLock R") auto
  have agents: "agents_ok R' \<and> (\<forall>u \<in> pending ?hs. reg_ready R' u)"
  proof (cases "is_register t")
    case True
    then obtain key a q where t: "t = TRegister key a q" by (auto simp: is_register_def)
    have "agents_ok R'" using register_agents_ok [OF _ o(4)] e o(9) [OF p(4)] t by simp
    moreover have "count_tasks is_register ?hs = 0"
    proof -
      have "count_tasks is_register hs \<le> count_tasks is_lock hs"
        unfolding count_tasks_def by (rule length_filter_mono) (auto simp: is_register_def is_lock_def)
      then show ?thesis using count_tasks_run [OF i, of is_register ts] exec_lock(3) [OF e] True o(10)
        by (simp split: if_splits)
    qed
    then have "\<forall>u \<in> pending ?hs. reg_ready R' u"
      using count_tasks_0 [of is_register ?hs]
      by (auto simp: reg_ready_def is_register_def split: task.splits)
    ultimately show ?thesis by blast
  next
    case False
    then obtain Q where Q: "hagents R' = filter Q (hagents R)" "same_agents R R'"
      using exec_agents [OF e] by (auto simp: is_register_def)
    have "reg_ready R' u" if "u \<in> pending ?hs" for u
    proof (cases "u \<in> set ts")
      case True
      then have "\<not> is_register u" using exec_lock(3) [OF e] by (auto simp: filter_empty_conv)
      then show ?thesis by (auto simp: reg_ready_def is_register_def split: task.splits)
    next
      case False
      then show ?thesis using tasks [OF that] shrink_agents(2) [OF Q(2,1) o(4)] o(9) by blast
    qed
    then show ?thesis using shrink_agents(1) [OF Q(2,1) o(4)] by blast
  qed
  then show "agents_ok R'" ..
  show "owed R' (pending ?hs) s" if "s < length (sess R')" for s
  proof (cases "s < length (sess R)")
    case True
    show ?thesis
      by (rule exec_owed [OF e o(2,1) _ fresh True o(5) [OF True] p(2,3)]) (use o(3) in \<open>simp add: counts_ok_def\<close>)
  next
    case False
    then show ?thesis using exec_opens [OF e that _ p(3)] by blast
  qed
  show "task_ok R' u \<and> publish_ok R' u \<and> spent_ok R' u \<and> reg_ready R' u" if u: "u \<in> pending ?hs" for u
  proof (cases "u \<in> set ts")
    case True
    then show ?thesis
      using exec_task_ok [OF e o(2) o(6) [OF p(4)]] exec_publish_ok [OF e]
        exec_spent_ok [OF e o(2,1) o(6) [OF p(4)] o(8) [OF p(4)]] agents u by blast
  next
    case False
    then have t: "u \<in> pending hs" using tasks [OF u] by blast
    show ?thesis
      using task_ok_grows [OF g o(6) [OF t]] publish_ok_grows [OF o(7) [OF t] o(6) [OF t] g]
        spent_ok_stays [OF m o(1) g o(2) o(6) [OF t] o(8) [OF t]] agents u by blast
  qed
  show "count_tasks is_lock ?hs = (if regLock R' then 1 else 0)"
    using count_tasks_run [OF i, of is_lock ts] exec_lock(1,2) [OF e] exec_regLock [OF e] lock o(10)
    by (cases "is_lock t") (simp_all split: if_splits)
qed

lemma reg_step_ok: "reg_step m m' \<Longrightarrow> reg_ok m \<Longrightarrow> reg_ok m'"
  by (induction rule: reg_step.induct) (auto intro: enters_ok runs_ok)

lemma reg_start_ok: "reg_start m \<Longrightarrow> reg_ok m"
proof -
  assume "reg_start m"
  then obtain now ns where m: "m = (new_registry now ns, [])" by (auto simp: reg_start_def)
  have "relay_ok ([], newResidency now)" by (rule reachable_ok) (auto simp: reachable_def)
  then show ?thesis
    by (simp add: m reg_ok_def new_registry_def addressed_def counts_ok_def agents_ok_def pending_def
        count_tasks_def countNamespaceSessionsLocked_def countNamespaceAgentsLocked_def)
qed

interpretation relay_runs: run_invariant reg_start reg_step reg_ok
  by unfold_locales (auto intro: reg_start_ok reg_step_ok)

lemma reg_reachable_ok: "reg_reachable m \<Longrightarrow> reg_ok m"
  unfolding reg_reachable_def using relay_runs.inv_run by blast

text \<open>The count of the controller's polls never goes back.\<close>

definition generation_mark :: "nat \<Rightarrow> relay \<Rightarrow> nat" where
  "generation_mark s m =
     (if s < length (sess (fst m)) then Suc (clientPollGeneration (sess (fst m) ! s)) else 0)"

lemma generation_grows: "grows (fst m) (fst m') \<Longrightarrow> generation_mark s m \<le> generation_mark s m'"
  by (auto simp: generation_mark_def grows_def same_core_def)

lemma reg_step_grows: "reg_step m m' \<Longrightarrow> grows (fst m) (fst m')"
  by (induction rule: reg_step.induct) (auto intro: enter_grows exec_grows)

interpretation poll_count: monotone_run reg_start reg_step reg_ok "generation_mark s" for s
  by unfold_locales (auto intro: generation_grows reg_step_grows)

end
