(* ===== verification/SessionSample.thy ===== *)
theory SessionSample
  imports SessionInvariant
begin

text \<open>
  Runs of the registry given as lists of turns, and one of them worked out: device \<open>d\<close>
  polls, a controller dials it, uploads, polls, gives up, polls again and closes. The
  properties of the registry are applied to the states of this run.
\<close>

subsection \<open>Runs of given requests\<close>

text \<open>A request that begins, or the next section of request \<open>i\<close>, with what it learns.\<close>

datatype (plugins only: ) turn_of = Begin entry env | Next nat env

fun reg_run :: "turn_of list \<Rightarrow> relay \<Rightarrow> relay option" where
  "reg_run [] m = Some m"
| "reg_run (Begin en e # xs) (R, hs) =
     (if e_now e > 0 then
        (case enter en e R of None \<Rightarrow> None | Some (R', ts) \<Rightarrow> reg_run xs (R', hs @ [ts])) else None)"
| "reg_run (Next i e # xs) (R, hs) =
     (if e_now e > 0 \<and> i < length hs then
        (case hs ! i of
           [] \<Rightarrow> None
         | t # rest \<Rightarrow>
             if fresh_id t R then (case exec_task t e R of (R', ts) \<Rightarrow> reg_run xs (R', hs[i := ts @ rest]))
             else None)
      else None)"

lemma reg_run_steps: "reg_run xs m = Some m' \<Longrightarrow> reg_step\<^sup>*\<^sup>* m m'"
proof (induction xs m rule: reg_run.induct)
  case (2 en e xs R hs)
  then obtain R' ts where "enter en e R = Some (R', ts)" "e_now e > 0" "reg_run xs (R', hs @ [ts]) = Some m'"
    by (auto split: if_splits option.splits)
  then have "reg_step (R, hs) (R', hs @ [ts])" "reg_step\<^sup>*\<^sup>* (R', hs @ [ts]) m'"
    using 2(1) by (auto intro: enters)
  then show ?case by (rule converse_rtranclp_into_rtranclp)
next
  case (3 i e xs R hs)
  then obtain t rest R' ts where "hs ! i = t # rest" "e_now e > 0" "i < length hs" "fresh_id t R"
    "exec_task t e R = (R', ts)" "reg_run xs (R', hs[i := ts @ rest]) = Some m'"
    by (auto split: if_splits list.splits prod.splits)
  then have "reg_step (R, hs) (R', hs[i := ts @ rest])" "reg_step\<^sup>*\<^sup>* (R', hs[i := ts @ rest]) m'"
    using 3(1) by (auto intro: runs)
  then show ?case by (rule converse_rtranclp_into_rtranclp)
qed simp

lemma reg_run_reachable: "reg_run xs (new_registry now ns, []) = Some m \<Longrightarrow> reg_reachable m"
  unfolding reg_reachable_def reg_start_def using reg_run_steps by blast

subsection \<open>A worked run\<close>

definition rd_env :: env where
  "rd_env = \<lparr>e_now = 1, e_store = \<lparr>ts_resolve = (\<lambda>_. None), ts_scoped = None\<rparr>, e_disabler = None,
     e_registered = True, e_ws = (\<lambda>_. None), e_sent = True, e_wait = PollTimedOut, e_gone = False,
     e_body = Some [7, 8], e_end = None\<rparr>"
definition rd_poll :: poll_request where
  "rd_poll = \<lparr>pr_ns = ''n'', pr_device = ''d'', pr_deviceID = [], pr_inst = ''p'', pr_name = ''d'',
     pr_delegation = False, pr_scopedExec = False\<rparr>"
definition rd_msg :: Open where
  "rd_msg = \<lparr>o_session = [], callerNS = ''n'', ownerNS = ''n'', o_device = ''d'', o_caps = 31, o_grant = [],
     o_credential = [], o_controllerFP = [], o_expires = 0, o_execOnly = []\<rparr>"
definition rd_access :: access where "rd_access = no_access\<lparr>a_ns := ''n''\<rparr>"
lemmas rd_simps = rd_env_def rd_poll_def rd_msg_def rd_access_def no_access_def new_registry_def
  poll_look_def poll_key_def countNamespaceAgentsLocked_def countNamespaceSessionsLocked_def
  httpAgentsPerNS_def httpSessionsPerNS_def httpSessionsTotal_def new_agent_def poll_publish_def take_over_def
  upd_a_def upd_s_def poll_enabled_def accountsEnabled_def fresh_id_def handleWSDialToHTTP_def httpLive_def agentServes_def
  newHTTPSession_def charged_ns_def publish_session_def add_dir_def Let_def attach_def newSideQueue_def
  newResidency_def join_def new_dir_def beginAccessLease_def lease_enabled_def l_owner_def cut_slash_def
  addCloser_def session_opened_def lease_done_def offer_def upgrade_def poll_wait_def poll_taken_open_def
  httpAgentObsolete_def mark_agent_def poll_end_def go_defs


definition rd_take :: env where "rd_take = rd_env\<lparr>e_wait := GotOpen\<rparr>"
definition rd_open :: "turn_of list" where
  "rd_open = [Begin (EPoll rd_poll) rd_env, Next 0 rd_env, Next 0 rd_env,
     Begin (EDialWS ''n/d'' rd_msg rd_access ''t'' ''s'') rd_env,
     Next 1 rd_env, Next 1 rd_env, Next 1 rd_env, Next 1 rd_env, Next 1 rd_env, Next 1 rd_env, Next 1 rd_env,
     Next 1 rd_env, Next 0 rd_take, Next 0 rd_env, Next 0 rd_env, Next 0 rd_env, Next 0 rd_env]"

text \<open>The state this leads to: device \<open>d\<close> holds session \<open>s\<close>, and nothing is in progress.\<close>

definition rd_dir :: dir where
  "rd_dir = new_dir (newSideQueue\<lparr>pooled := True, q_share := Some ''n''\<rparr>)"

definition rd_lease :: lease where
  "rd_lease = \<lparr>l_sid = ''s'', l_target = ''n/d'', l_token = ''t'', l_access = rd_access, l_caps = 31\<rparr>"

definition rd_sess :: http_session where
  "rd_sess = \<lparr>toClient = 0, toAgent = 1, hs_callerNS = ''n'', hs_credential = [], hs_lease = Held rd_lease True,
     hs_ownerNS = ''n'', lastActive = 1, clientSeen = 1, clientBridged = True, clientPollGeneration = 0,
     disconnectTimer = False, closedAt = 0, agentKey = ''n/d'', agentInst = ''p'', endReason = [], endTold = False\<rparr>"

definition rd_agent :: http_agent where
  "rd_agent = \<lparr>ag_ns = ''n'', ag_device = ''d'', ag_name = ''d'', ag_open = [], ag_lastSeen = 1, ag_inst = ''p'',
     retired = [], ag_changed = 0, ag_delegation = False, ag_scopedExec = False, polls = 0\<rparr>"

definition rd_pool :: residency where
  "rd_pool = (newResidency 1)\<lparr>shares := [(''n'', \<lparr>sh_used = 0, refs = 2\<rparr>)]\<rparr>"

definition rd_reg :: registry where
  "rd_reg = \<lparr>hagents = [(''n/d'', 0)], agents = [rd_agent], hsess = [(''s'', 0)], sess = [rd_sess],
     leases = [(''s'', 0)], mem = ([rd_dir, rd_dir], rd_pool), maxSessions = 4096, portal = [],
     regLock = False, timers = []\<rparr>"

lemmas rd_state_simps = rd_reg_def rd_dir_def rd_lease_def rd_sess_def rd_agent_def rd_pool_def

lemma rd_opened: "reg_run rd_open (new_registry 1 [], []) = Some (rd_reg, [[], []])"
  by (simp add: rd_open_def rd_take_def rd_simps rd_state_simps)

lemma rd_reachable: "reg_reachable (rd_reg, [[], []])"
  by (rule reg_run_reachable [OF rd_opened])

lemma rd_further: "reg_run xs (rd_reg, [[], []]) = Some m \<Longrightarrow> reg_reachable m"
  using reg_run_steps rd_reachable unfolding reg_reachable_def by (meson rtranclp_trans)

definition rd_up :: up_request where
  "rd_up = \<lparr>u_session = ''s'', u_role = ''client'', u_seq = None, u_length = 2\<rparr>"

lemma rd_uploaded:
  "\<exists>R. reg_run [Begin (EUp rd_access rd_up) rd_env, Next 2 rd_env, Next 2 rd_env, Next 2 rd_env, Next 2 rd_env,
     Next 2 rd_env] (rd_reg, [[], []]) = Some (R, [[], [], []]) \<and> hsess R = [(''s'', 0)] \<and> used (snd (mem R)) = 2"
  by (simp add: rd_up_def handleHUp_def sessionForAccess_def allowsAccess_def touch_def up_lease_def leaseOK_def
      credentialValid_def up_closed_def acceptUpload_def upload_admit_def upload_body_def upload_taken_def writes_to_def
      run_op_def reserve_def tryReserve_def reserveLocked_def reserve_pool_def share_used_def add_share_def
      enqueue_def keepLocked_def releaseLocked_def ch_send_def queueChunks_def rd_simps rd_state_simps)

lemma rd_closed:
  "\<exists>R. reg_run [Begin (EClose rd_access (rd_up\<lparr>u_role := []\<rparr>)) rd_env, Next 2 rd_env, Next 2 rd_env, Next 2 rd_env,
     Next 2 rd_env, Next 2 rd_env, Next 2 rd_env] (rd_reg, [[], []]) = Some (R, [[], [], [TRetire ''s'' 0, TAnswer 200]])"
  by (simp add: rd_up_def handleHClose_def allowsAccess_def handleHClose_end_def close_session_def mark_closed_def
      do_op_def run_op_def q_close_def q_free_def wakeLocked_def release_pool_def leave_def add_share_def
      releaseDrained_client_def releaseDrained_agent_def settled_def dir_of_def rd_simps rd_state_simps)

definition rd_down :: down_request where
  "rd_down = \<lparr>w_session = ''s'', w_role = [], w_ack = None, w_max = None, w_want = None\<rparr>"

definition rd_gone :: env where "rd_gone = rd_env\<lparr>e_gone := True, e_end := Some EndIdle\<rparr>"

lemma rd_polled_again:
  "\<exists>R. reg_run [Begin (EDown rd_access rd_down) rd_env, Next 2 rd_env, Next 2 rd_env, Next 2 rd_env, Next 2 rd_gone,
     Next 2 rd_env, Next 2 rd_env, Next 2 rd_gone, Begin (EDown rd_access rd_down) rd_env, Next 3 rd_env]
     (rd_reg, [[], []]) = Some (R, [[], [], [TSettled ''s'' 0], [TDown ''s'' 0 rd_down 2]])
     \<and> length (sess R) = 1 \<and> clientPollGeneration (sess R ! 0) = 2 \<and> timers R = [(2000000001, ''s'', 0, 1)]"
  by (simp add: rd_down_def rd_gone_def handleHDown_def sessionForAccess_def allowsAccess_def touch_def
      controllerPollStarted_def registered_def down_take_def poll_start_def run_op_def pollDrain_start_def
      drain_start_def beginTake_def drain_turn_def can_end_def drain_return_def do_op_def drain_finish_def
      take_finish_def releaseLocked_def release_turn_def endTake_def end_closed_def after_poll_def down_end_def
      controllerPollCancelled_def reads_from_def maxDrainBytes_def rd_simps rd_state_simps)

end
