(* ===== verification/SessionProps.thy ===== *)
theory SessionProps
  imports SessionSample
begin

text \<open>
  What the registry of \<open>Sessions\<close> promises: bounded tables, no byte held for a session
  that is gone, no byte dropped when a session is retired, one process per device, a
  controller that keeps its session when it polls again, and delegated credentials
  confined to the session they dialed.
\<close>

subsection \<open>Helpers\<close>

lemma sum_dirs_pairs:
  "length ds = 2 * n \<Longrightarrow> sum_dirs f ds = (\<Sum>s < n. f (dq (ds ! (2 * s))) + f (dq (ds ! (2 * s + 1))) :: int)"
proof (induction n arbitrary: ds)
  case (Suc n)
  then obtain a b ds' where ds: "ds = a # b # ds'" by (cases ds; cases "tl ds") auto
  then have "sum_dirs f ds' = (\<Sum>s < n. f (dq (ds' ! (2 * s))) + f (dq (ds' ! (2 * s + 1))))" using Suc by simp
  moreover have "(\<Sum>s < Suc n. f (dq (ds ! (2 * s))) + f (dq (ds ! (2 * s + 1))))
      = f (dq a) + f (dq b) + (\<Sum>s < n. f (dq (ds ! (2 * Suc s))) + f (dq (ds ! (2 * Suc s + 1))))"
    by (subst sum.lessThan_Suc_shift) (simp add: ds)
  ultimately show ?case by (simp add: ds sum_dirs_def)
qed (simp add: sum_dirs_def)

lemma quiet_pending: "\<forall>ts \<in> set hs. ts = [] \<Longrightarrow> pending hs = {}"
  by (auto simp: pending_def)

subsection \<open>Properties\<close>

text \<open>
  C11. However many requests arrive and however they interleave, the relay holds at most
  \<open>httpSessionsTotal\<close> sessions, at most \<open>httpSessionsPerNS\<close> dialed by any one account (the
  portal apart, which dials for all of them), and a namespace at most \<open>httpAgentsPerNS\<close>
  polling devices.
\<close>

theorem registry_is_bounded:
  assumes "reg_reachable (R, hs)"
  shows "length (hsess R) \<le> httpSessionsTotal
    \<and> (ns \<noteq> [] \<and> ns \<noteq> portal R \<longrightarrow> countNamespaceSessionsLocked R ns \<le> httpSessionsPerNS)
    \<and> countNamespaceAgentsLocked R ns \<le> httpAgentsPerNS"
  using reg_okD(3,4) [OF reg_reachable_ok [OF assms]] by (auto simp: counts_ok_def agents_ok_def)

theorem registry_is_bounded_witness:
  "hsess rd_reg = [(''s'', 0)] \<and> length (hsess rd_reg) \<le> httpSessionsTotal
   \<and> countNamespaceSessionsLocked rd_reg ''n'' = 1 \<and> countNamespaceAgentsLocked rd_reg ''n'' \<le> httpAgentsPerNS"
  using registry_is_bounded [OF rd_reachable, of "''n''"]
  by (simp add: rd_state_simps countNamespaceSessionsLocked_def)

text \<open>
  C9. When no request is in progress, every byte on the relay's account belongs to a
  session of the registry: whatever ended a session, a close, a refused dial, a
  revoked lease, a vanished party or a race of several of them, both its directions have
  been given back.
\<close>

theorem bytes_belong_to_sessions:
  assumes r: "reg_reachable (R, hs)" and quiet: "\<forall>ts \<in> set hs. ts = []"
  shows "used (snd (mem R)) = (\<Sum>s \<in> snd ` set (hsess R).
      charge (dq (dir_of R (toClient (sess R ! s)))) + charge (dq (dir_of R (toAgent (sess R ! s)))))"
proof -
  note o = reg_okD [OF reg_reachable_ok [OF r]]
  let ?f = "\<lambda>s. charge (dq (fst (mem R) ! (2 * s))) + charge (dq (fst (mem R) ! (2 * s + 1)))"
  have "used (snd (mem R)) = (\<Sum>s < length (sess R). ?f s)"
    using relay_okD(3) [of "fst (mem R)" "snd (mem R)"] o(1) sum_dirs_pairs [OF addressedD(1) [OF o(2)], of charge]
    by simp
  also have "\<dots> = (\<Sum>s \<in> snd ` set (hsess R). ?f s)"
  proof (rule sum.mono_neutral_right)
    show "snd ` set (hsess R) \<subseteq> {..<length (sess R)}" using o(2) by (auto simp: addressed_def)
    show "\<forall>s \<in> {..<length (sess R)} - snd ` set (hsess R). ?f s = 0"
    proof
      fix s assume "s \<in> {..<length (sess R)} - snd ` set (hsess R)"
      then have "freed (dq (dir_of R (2 * s)))" "freed (dq (dir_of R (2 * s + 1)))"
        using o(5) [of s] quiet_pending [OF quiet] by (auto simp: owed_def)
      then show "?f s = 0" by (simp add: charge_def dir_of_def)
    qed
  qed simp
  also have "\<dots> = (\<Sum>s \<in> snd ` set (hsess R).
      charge (dq (dir_of R (toClient (sess R ! s)))) + charge (dq (dir_of R (toAgent (sess R ! s)))))"
  proof (rule sum.cong [OF refl])
    fix s assume "s \<in> snd ` set (hsess R)"
    then have "s < length (sess R)" using o(2) by (auto simp: addressed_def)
    then show "?f s = charge (dq (dir_of R (toClient (sess R ! s)))) + charge (dq (dir_of R (toAgent (sess R ! s))))"
      using addressedD(2,3) [OF o(2)] by (simp add: dir_of_def)
  qed
  finally show ?thesis .
qed

theorem bytes_belong_to_sessions_witness:
  "\<exists>R. hsess R = [(''s'', 0)] \<and> used (snd (mem R)) = 2
     \<and> charge (dq (dir_of R (toClient (sess R ! 0)))) + charge (dq (dir_of R (toAgent (sess R ! 0)))) = 2"
proof -
  obtain R hs where "reg_reachable (R, hs)" "hs = [[], [], []]" "hsess R = [(''s'', 0)]" "used (snd (mem R)) = 2"
    using rd_uploaded rd_further by blast
  moreover from this have "\<forall>ts \<in> set hs. ts = []" by simp
  ultimately show ?thesis using bytes_belong_to_sessions [of R hs] by auto
qed

text \<open>
  C10. \<open>releaseDrainedSession\<close> asks the two directions one after the other and without the
  registry's lock, and other requests run in between. Still, when it comes to retire the
  session nothing is left in either direction that a reader could miss: no chunk queued or
  split, none sent and not acknowledged, none in the hands of a poll, and neither takes
  any more.
\<close>

theorem retirement_drops_nothing:
  assumes "reg_reachable (R, hs)" and "i < length hs" and "hs ! i = TRetire sid s # rest"
  shows "spent (dir_of R (toClient (sess R ! s))) \<and> spent (dir_of R (toAgent (sess R ! s)))"
  using reg_okD(8) [OF reg_reachable_ok [OF assms(1)] pending_run(4) [OF assms(2,3)]]
  by (simp add: spent_ok_def)

theorem retirement_drops_nothing_witness:
  "\<exists>R. reg_reachable (R, [[], [], [TRetire ''s'' 0, TAnswer 200]])
     \<and> spent (dir_of R (toClient (sess R ! 0))) \<and> spent (dir_of R (toAgent (sess R ! 0)))"
proof -
  obtain R hs where r: "reg_reachable (R, hs)" "hs = [[], [], [TRetire ''s'' 0, TAnswer 200]]"
    using rd_closed rd_further by blast
  then show ?thesis using retirement_drops_nothing [OF r(1), of 2 "''s''" 0 "[TAnswer 200]"] by auto
qed



text \<open>
  A controller that polls again keeps its session: once a poll has been counted after
  the one whose cancellation armed the timer, that timer ends nothing, whenever its
  callback runs and whatever happened in between.
\<close>

theorem retry_keeps_the_session:
  assumes r: "reg_reachable (R, hs)" and s: "s < length (sess R)"
    and newer: "g < clientPollGeneration (sess R ! s)"
    and later: "reg_step\<^sup>*\<^sup>* (R, hs) (R2, hs2)"
    and fires: "timers R2 ! k = (due, sid, s, g)" "enter (EExpire k) e R2 = Some (R3, ts)"
  shows "hsess R3 = hsess R2 \<and> sess R3 = sess R2 \<and> ts = []"
proof -
  have "generation_mark s (R, hs) \<le> generation_mark s (R2, hs2)"
    by (rule poll_count.mark_from [OF later reg_reachable_ok [OF r]])
  then have "clientPollGeneration (sess R2 ! s) \<noteq> g" using s newer by (simp add: generation_mark_def split: if_splits)
  then show ?thesis using fires by (auto simp: expireControllerDisconnect_def Let_def split: if_splits)
qed

theorem retry_keeps_the_session_witness:
  "\<exists>R R' ts. timers R = [(2000000001, ''s'', 0, 1)]
     \<and> enter (EExpire 0) (rd_env\<lparr>e_now := 3000000000\<rparr>) R = Some (R', ts) \<and> hsess R' = hsess R \<and> ts = []"
proof -
  obtain R hs where r: "reg_reachable (R, hs)" "length (sess R) = 1" "clientPollGeneration (sess R ! 0) = 2"
    "timers R = [(2000000001, ''s'', 0, 1)]"
    using rd_polled_again rd_further by blast
  obtain R' ts where x: "enter (EExpire 0) (rd_env\<lparr>e_now := 3000000000\<rparr>) R = Some (R', ts)"
    using r(4) by (cases "expireControllerDisconnect (R\<lparr>timers := []\<rparr>) ''s'' 0 1") (simp add: rd_env_def)
  have "hsess R' = hsess R \<and> sess R' = sess R \<and> ts = []"
    by (rule retry_keeps_the_session [OF r(1) _ _ rtranclp.rtrancl_refl _ x, of 0 1 2000000001 "''s''"])
      (use r in simp_all)
  then show ?thesis using r(4) x by blast
qed

text \<open>
  C24. A delegated credential reaches one session only, the one dialed with it, and only as
  its controller: any other upload, poll or close with it is answered as if there
  were no such session, and changes nothing.
\<close>

theorem delegated_access_is_confined:
  assumes d: "delegated a"
    and other: "\<And>s. map_of (hsess R) (u_session u) = Some s \<Longrightarrow>
      \<not> (hs_credential (sess R ! s) = a_credential a \<and> a_credential a \<noteq> []
         \<and> hs_callerNS (sess R ! s) = a_ns a \<and> (u_role u = [] \<or> u_role u = ''client''))"
  shows "handleHUp e R a u = (R, [TAnswer 404]) \<and> handleHClose R a u = [TAnswer 404]
    \<and> handleHDown e R a \<lparr>w_session = u_session u, w_role = u_role u, w_ack = x, w_max = y, w_want = z\<rparr>
        = (R, [TAnswer 404])"
  using d other
  by (auto simp: handleHUp_def handleHClose_def handleHDown_def sessionForAccess_def allowsAccess_def
      split: option.splits)

theorem delegated_access_is_confined_witness:
  "handleHUp rd_env rd_reg (rd_access\<lparr>a_credential := ''k'', delegated := True\<rparr>) rd_up = (rd_reg, [TAnswer 404])"
  using delegated_access_is_confined [of "rd_access\<lparr>a_credential := ''k'', delegated := True\<rparr>" rd_reg rd_up rd_env]
  by (simp add: rd_state_simps rd_up_def rd_access_def no_access_def)

end
