(* ===== verification/OAuthStore.thy ===== *)
theory OAuthStore
  imports Delegations
begin

text \<open>
  The durable half of OAuth: \<open>src/internal/relay/oauth_pg.go\<close>, the clients that registered
  themselves, the refresh tokens, and the namespace tokens that stand behind them.
\<close>

text \<open>A client that never completed an authorization: no refresh token names it.\<close>

definition unused_client :: "database \<Rightarrow> oauth_client \<Rightarrow> bool" where
  "unused_client db c \<longleftrightarrow> \<not> (\<exists>r \<in> set (orefreshes db). rf_client r = oc_id c)"

definition RegisterOAuthClient ::
  "oauth_client \<Rightarrow> nat \<Rightarrow> gotime \<Rightarrow> string list \<Rightarrow> database \<Rightarrow> db_error + bool \<times> database" where
  "RegisterOAuthClient c maxUnused staleBefore inFlight db =
     (let stale = (\<lambda>c. oc_created c < staleBefore \<and> oc_id c \<notin> set inFlight \<and> unused_client db c);
          db = db\<lparr>oclients := DeleteFunc stale (oclients db)\<rparr>
      in if hits (unused_client db) (oclients db) \<ge> maxUnused then Inr (False, db)
         else if \<exists>d \<in> set (oclients db). oc_id d = oc_id c then Inl DbFailed
         else Inr (True, db\<lparr>oclients := oclients db @ [c]\<rparr>))"

definition OAuthClient :: "database \<Rightarrow> string \<Rightarrow> oauth_client option" where
  "OAuthClient db i = sel (\<lambda>c. oc_id c = i) (oclients db)"

definition PutOAuthRefresh :: "oauth_refresh \<Rightarrow> database \<Rightarrow> db_error + unit \<times> database" where
  "PutOAuthRefresh r db =
     (if (\<exists>q \<in> set (orefreshes db). rf_hash q = rf_hash r) \<or> \<not> (\<exists>c \<in> set (oclients db). oc_id c = rf_client r)
      then Inl DbFailed
      else Inr ((), db\<lparr>orefreshes := orefreshes db @ [r\<lparr>rf_revoked := None\<rparr>]\<rparr>))"

definition OAuthRefresh :: "database \<Rightarrow> string \<Rightarrow> oauth_refresh option" where
  "OAuthRefresh db hash = sel (\<lambda>r. rf_hash r = hash) (orefreshes db)"

text \<open>Whether this call is the one that revoked the row.\<close>

definition RevokeOAuthRefresh :: "gotime \<Rightarrow> string \<Rightarrow> database \<Rightarrow> bool \<times> database" where
  "RevokeOAuthRefresh now hash db =
     (let P = (\<lambda>r. rf_hash r = hash \<and> rf_revoked r = None)
      in (hits P (orefreshes db) = 1, db\<lparr>orefreshes := upd P (\<lambda>r. r\<lparr>rf_revoked := Some now\<rparr>) (orefreshes db)\<rparr>))"

definition RevokeRelayTokenHash :: "gotime \<Rightarrow> string \<Rightarrow> string \<Rightarrow> database \<Rightarrow> database" where
  "RevokeRelayTokenHash now ns hash db =
     db\<lparr>tokens := upd (\<lambda>t. tk_hash t = hash \<and> tk_ns t = ns \<and> tk_revoked t = None)
                     (\<lambda>t. t\<lparr>tk_revoked := Some now\<rparr>) (tokens db)\<rparr>"

text \<open>Only a live token of an account that is enabled moves.\<close>

definition ExtendRelayTokenHash :: "gotime \<Rightarrow> string \<Rightarrow> string \<Rightarrow> gotime \<Rightarrow> database \<Rightarrow> bool \<times> database" where
  "ExtendRelayTokenHash now ns hash until db =
     (let P = (\<lambda>t. tk_hash t = hash \<and> tk_ns t = ns \<and> tk_kind t = ''access'' \<and> token_live now t
                   \<and> namespaceEnabled db (tk_ns t))
      in (hits P (tokens db) = 1, db\<lparr>tokens := upd P (\<lambda>t. t\<lparr>tk_expires := Some until\<rparr>) (tokens db)\<rparr>))"

end
