(* ===== verification/DatabaseRuns.thy ===== *)
theory DatabaseRuns
  imports OAuthStore
begin

text \<open>
  Every way the relay writes to its account database, as a datatype of calls, and runs of
  them: each call is one transaction at a later time than the one before. The database
  invariants are proved on these runs, and the components that use the database
  (\<open>WebFetch\<close>) let any of these calls happen between two of their own.
\<close>

datatype (plugins only: ) db_call =
    CIssueToken string string int string
  | CRevokeToken string nat
  | CSetDisabled string bool
  | CAudit string string string
  | CIdentity string string string string string
  | CInvite string
  | CRevokeInvite nat
  | CAccess string string string string
  | CDecide nat string string
  | CUpsert string string string
  | CRegister string string string string
  | CRemove string string bool
  | CAlias string string string
  | CFriend string string string
  | CAccept string string
  | CDecline string string
  | CUnfriend string string
  | CGrant string string string bool
  | CRevokeShare string nat
  | CRevokeMatch string nat string string
  | CManage string string string bool
  | CCreate new_request
  | CApprove approval nat
  | CReject string string
  | CScoped string string string string int string
  | CRevokeScoped string nat
  | CBegin string string string string bool string
  | CFinish string string string string bool
  | CCleanup duration "string \<Rightarrow> bool"
  | CRegisterClient oauth_client nat gotime "string list"
  | CPutRefresh oauth_refresh
  | CRevokeRefresh string
  | CRevokeHash string string
  | CExtend string string gotime

primrec exec_call :: "externals \<Rightarrow> gotime \<Rightarrow> db_call \<Rightarrow> database \<Rightarrow> database" where
  "exec_call x now (CIssueToken ns label days rnd) db = commit db (IssueToken now ns label days rnd db)"
| "exec_call x now (CRevokeToken ns i) db = RevokeToken now ns i db"
| "exec_call x now (CSetDisabled ns b) db = snd (SetAccountDisabled now ns b db)"
| "exec_call x now (CAudit ns device event) db = Audit ns device event db"
| "exec_call x now (CIdentity provider subject login name reserved) db =
     commit db (ResolveIdentity x now provider subject login name reserved db)"
| "exec_call x now (CInvite login) db = commit db (CreateInvite login db)"
| "exec_call x now (CRevokeInvite i) db = snd (RevokeInvite i db)"
| "exec_call x now (CAccess provider subject login note) db =
     commit db (CreateAccessRequest now provider subject login note db)"
| "exec_call x now (CDecide i status by) db = commit db (DecideAccessRequest now i status by db)"
| "exec_call x now (CUpsert ns name fp) db = UpsertDevice now ns name fp db"
| "exec_call x now (CRegister ns i name fp) db = commit db (registerDeviceID x now ns i name fp db)"
| "exec_call x now (CRemove ns i ok) db = RemoveDevice ns i ok db"
| "exec_call x now (CAlias ns device alias) db = commit db (SetDeviceAlias ns device alias db)"
| "exec_call x now (CFriend a b reserved) db = commit db (FriendRequest x now a b reserved db)"
| "exec_call x now (CAccept ns a) db = commit db (FriendAccept now ns a db)"
| "exec_call x now (CDecline ns a) db = commit db (FriendDecline ns a db)"
| "exec_call x now (CUnfriend ns b) db = commit db (FriendRemove now ns b db)"
| "exec_call x now (CGrant ns device g m) db = commit db (GrantACL ns device g m db)"
| "exec_call x now (CRevokeShare ns i) db = RevokeACL now ns i db"
| "exec_call x now (CRevokeMatch ns i device g) db = snd (RevokeACLMatch now ns i device g db)"
| "exec_call x now (CManage ns device g m) db = snd (SetACLManage ns device g m db)"
| "exec_call x now (CCreate n) db = commit db (CreateDelegation now n db)"
| "exec_call x now (CApprove p nfps) db = commit db (ApproveDelegation x now p nfps db)"
| "exec_call x now (CReject i ns) db = commit db (RejectDelegation x now i ns db)"
| "exec_call x now (CScoped ns device cmd label days rnd) db =
     commit db (IssueScopedToken x now ns device cmd label days rnd db)"
| "exec_call x now (CRevokeScoped ns i) db = snd (RevokeScopedToken now ns i db)"
| "exec_call x now (CBegin grant rid hash payload ok rnd) db =
     commit db (BeginJob now grant rid hash payload ok rnd db)"
| "exec_call x now (CFinish grant i state result ok) db = commit db (FinishJob grant i state result ok db)"
| "exec_call x now (CCleanup retention locked) db =
     (if retention < MinRetention then db else snd (cleanupDelegationBatch now (now - retention) locked db))"
| "exec_call x now (CRegisterClient c n stale inflight) db = commit db (RegisterOAuthClient c n stale inflight db)"
| "exec_call x now (CPutRefresh r) db = commit db (PutOAuthRefresh r db)"
| "exec_call x now (CRevokeRefresh h) db = snd (RevokeOAuthRefresh now h db)"
| "exec_call x now (CRevokeHash ns h) db = RevokeRelayTokenHash now ns h db"
| "exec_call x now (CExtend ns h until) db = snd (ExtendRelayTokenHash now ns h until db)"

type_synonym db_state = "gotime \<times> database"

inductive db_step :: "externals \<Rightarrow> db_state \<Rightarrow> db_state \<Rightarrow> bool" for x where
  db_calls: "t \<le> now \<Longrightarrow> db_step x (t, db) (now, exec_call x now c db)"

inductive_cases db_stepE: "db_step x (t, db) (t', db')"

definition db_start :: "db_state \<Rightarrow> bool" where
  "db_start s \<longleftrightarrow> fst s > 0 \<and> snd s = new_database"

definition db_reachable :: "externals \<Rightarrow> db_state \<Rightarrow> bool" where
  "db_reachable x s \<longleftrightarrow> (\<exists>s0. db_start s0 \<and> (db_step x)\<^sup>*\<^sup>* s0 s)"

fun db_run :: "externals \<Rightarrow> (gotime \<times> db_call) list \<Rightarrow> db_state \<Rightarrow> db_state option" where
  "db_run x [] s = Some s"
| "db_run x ((now, c) # cs) (t, db) =
     (if t \<le> now then db_run x cs (now, exec_call x now c db) else None)"

lemma db_run_steps: "db_run x cs s = Some s' \<Longrightarrow> (db_step x)\<^sup>*\<^sup>* s s'"
proof (induction x cs s rule: db_run.induct)
  case (2 x now c cs t db)
  then have "db_step x (t, db) (now, exec_call x now c db)" "(db_step x)\<^sup>*\<^sup>* (now, exec_call x now c db) s'"
    by (auto intro: db_calls split: if_splits)
  then show ?case by (rule converse_rtranclp_into_rtranclp)
qed simp

lemma db_run_reachable: "db_run x cs (t, new_database) = Some s \<Longrightarrow> t > 0 \<Longrightarrow> db_reachable x s"
  unfolding db_reachable_def db_start_def using db_run_steps by fastforce

end
