(* ===== verification/DatabaseFrames.thy ===== *)
theory DatabaseFrames
  imports DatabaseRuns
begin

text \<open>
  Which tables a call leaves alone, and what it may do to the others. The invariants of
  the database are proved from these facts, without opening the statements again.
\<close>

subsection \<open>Rows\<close>

lemma sel_Some: "sel P rows = Some r \<Longrightarrow> r \<in> set rows \<and> P r"
  unfolding sel_def by (rule find_mem)

lemma sel_None: "sel P rows = None \<longleftrightarrow> (\<forall>r \<in> set rows. \<not> P r)"
  unfolding sel_def find_None_iff by blast

lemma set_upd: "set (upd P f rows) = {r \<in> set rows. \<not> P r} \<union> f ` {r \<in> set rows. P r}"
  by (auto simp: upd_def)

lemma map_upd: "(\<And>r. P r \<Longrightarrow> g (f r) = g r) \<Longrightarrow> map g (upd P f rows) = map g rows"
  by (auto simp: upd_def)

lemma upd_from: "r' \<in> set (upd P f rows) \<Longrightarrow> (\<And>r. r \<in> set rows \<Longrightarrow> \<not> P r \<Longrightarrow> r' = r \<Longrightarrow> Q) \<Longrightarrow>
    (\<And>r. r \<in> set rows \<Longrightarrow> P r \<Longrightarrow> r' = f r \<Longrightarrow> Q) \<Longrightarrow> Q"
  by (auto simp: set_upd)

lemma hits_pos: "hits P rows > 0 \<longleftrightarrow> (\<exists>r \<in> set rows. P r)"
  by (auto simp: hits_def filter_empty_conv)

lemma hits_append [simp]: "hits P (rows @ [r]) = hits P rows + (if P r then 1 else 0)"
  by (simp add: hits_def)

subsection \<open>Frames\<close>

lemmas call_defs = Let_def IssueToken_def insert_token_def RevokeToken_def SetAccountDisabled_def
  Audit_def CreateInvite_def insert_invite_def
  RevokeInvite_def CreateAccessRequest_def DecideAccessRequest_def UpsertDevice_def RemoveDevice_def
  SetDeviceAlias_def FriendRequest_def FriendAccept_def
  FriendDecline_def FriendRemove_def GrantACL_def RevokeACL_def RevokeACLMatch_def SetACLManage_def
  RejectDelegation_def RevokeScopedToken_def FinishJob_def
  cleanupDelegationBatch_def RegisterOAuthClient_def PutOAuthRefresh_def RevokeOAuthRefresh_def
  RevokeRelayTokenHash_def ExtendRelayTokenHash_def

lemmas call_splits = if_splits option.splits sum.splits prod.splits list.splits

text \<open>The loop of an approval adds to \<open>gdevices\<close> only.\<close>

lemma grant_loop_frame:
  "grant_loop i ns fps ds db = Inr db' \<Longrightarrow> \<exists>gs. db' = db\<lparr>gdevices := gdevices db @ gs\<rparr>"
proof (induction i ns fps ds db rule: grant_loop.induct)
  case (2 i ns fps dev ds db)
  then obtain d actual where d: "sel (\<lambda>d. device_at ns dev d \<and> dv_uses d) (devices db) = Some d" "dv_fp d = Some actual"
    "actual = fps dev" "\<not> (\<exists>g \<in> set (gdevices db). gd_grant g = i \<and> d_id (gd_dev g) = dev)"
    "grant_loop i ns fps ds (db\<lparr>gdevices := gdevices db @ [\<lparr>gd_grant = i,
       gd_dev = \<lparr>d_namespace = ns, d_id = dev, d_fingerprint = actual\<rparr>\<rparr>]\<rparr>) = Inr db'"
    by (auto split: option.splits if_splits)
  from 2(1) [OF d(1,2) _ d(4,5)] d(3) show ?case by auto
qed (auto intro: exI [of _ "[]"])

text \<open>An account that is new: its row, and the invite it used.\<close>

lemma insertIdentity_elim:
  assumes "insertIdentity provider subject ns name role db = Inr (r, db')"
  obtains "db' = db" "lookupIdentity db provider subject = Some r"
  | u where "db' = db\<lparr>users := users db @ [u]\<rparr>" "r = (ns, role)" "us_ns u = ns" "us_role u = role"
      "us_provider u = provider" "us_subject u = subject" "us_disabled u = None"
      "\<forall>v \<in> set (users db). us_ns v \<noteq> ns" "\<forall>v \<in> set (users db). \<not> (us_provider v = provider \<and> us_subject v = subject)"
  using assms unfolding insertIdentity_def
  by (cases "\<exists>u \<in> set (users db). us_ns u = ns")
    (auto split: option.splits if_splits)

lemma resolveGitHub_elim:
  assumes "resolveGitHubIdentity x now subject ns name db = Inr (r, db')"
  obtains "db' = db"
  | u where "db' = db\<lparr>users := users db @ [u]\<rparr>" "us_ns u = ns" "us_role u = ''admin''" "us_provider u = ''github''"
      "us_subject u = subject" "us_disabled u = None" "\<forall>v \<in> set (users db). us_role v \<noteq> ''admin''"
      "\<forall>v \<in> set (users db). us_ns v \<noteq> ns" "\<forall>v \<in> set (users db). \<not> (us_provider v = ''github'' \<and> us_subject v = subject)"
  | u i where "db' = db\<lparr>users := users db @ [u], invites := upd (\<lambda>j. iv_id j = iv_id i \<and> iv_used j = None)
          (\<lambda>j. j\<lparr>iv_used := Some now, iv_used_by := Some ns\<rparr>) (invites db)\<rparr>"
      "i \<in> set (invites db)" "map_option (x_lower x) (iv_login i) = Some (x_lower x ns)" "iv_used i = None"
      "us_ns u = ns" "us_role u = ''user''" "us_provider u = ''github''"
      "us_subject u = subject" "us_disabled u = None"
      "\<forall>v \<in> set (users db). us_ns v \<noteq> ns" "\<forall>v \<in> set (users db). \<not> (us_provider v = ''github'' \<and> us_subject v = subject)"
proof (cases "lookupIdentity db ''github'' subject")
  case None
  note n = None
  show thesis
  proof (cases "\<exists>u \<in> set (users db). us_role u = ''admin''")
    case False
    then have "insertIdentity ''github'' subject ns (if name = [] then ns else name) ''admin'' db = Inr (r, db')"
      using assms n by (auto simp: resolveGitHubIdentity_def Let_def split: sum.splits prod.splits)
    then show thesis
      by (cases rule: insertIdentity_elim) (use n False that(2) in auto)
  next
    case True
    let ?open = "\<lambda>i. map_option (x_lower x) (iv_login i) = Some (x_lower x ns) \<and> iv_used i = None"
    obtain i where i: "sel ?open (invites db) = Some i"
      using assms n True by (auto simp: resolveGitHubIdentity_def Let_def split: option.splits)
    then obtain r1 db1 where ins: "insertIdentity ''github'' subject ns (if name = [] then ns else name) ''user'' db = Inr (r1, db1)"
      using assms n True by (cases "insertIdentity ''github'' subject ns (if name = [] then ns else name) ''user'' db")
        (auto simp: resolveGitHubIdentity_def Let_def)
    show thesis using ins
    proof (cases rule: insertIdentity_elim)
      case 1
      then show thesis using n by simp
    next
      case (2 u)
      have "db' = db1\<lparr>invites := upd (\<lambda>j. iv_id j = iv_id i \<and> iv_used j = None)
          (\<lambda>j. j\<lparr>iv_used := Some now, iv_used_by := Some ns\<rparr>) (invites db1)\<rparr>"
        using assms n True i ins 2(2) by (auto simp: resolveGitHubIdentity_def Let_def split: if_splits)
      then show thesis using sel_Some [OF i] 2 by (intro that(3) [of i u]) simp_all
    qed
  qed
qed (use assms that(1) in \<open>auto simp: resolveGitHubIdentity_def\<close>)

lemma ResolveIdentity_elim:
  assumes "ResolveIdentity x now provider subject login name reserved db = Inr (r, db')"
  obtains "db' = db"
  | u where "db' = db\<lparr>users := users db @ [u]\<rparr>" "guardNamespace x (us_ns u) reserved" "us_disabled u = None"
      "us_role u = ''user'' \<and> us_provider u = ''header''
       \<or> us_role u = ''admin'' \<and> us_provider u = ''github'' \<and> (\<forall>v \<in> set (users db). us_role v \<noteq> ''admin'')"
      "\<forall>v \<in> set (users db). us_ns v \<noteq> us_ns u"
      "\<forall>v \<in> set (users db). \<not> (us_provider v = us_provider u \<and> us_subject v = us_subject u)"
  | u i where "db' = db\<lparr>users := users db @ [u], invites := upd (\<lambda>j. iv_id j = iv_id i \<and> iv_used j = None)
          (\<lambda>j. j\<lparr>iv_used := Some now, iv_used_by := Some (us_ns u)\<rparr>) (invites db)\<rparr>"
      "guardNamespace x (us_ns u) reserved" "us_disabled u = None"
      "i \<in> set (invites db)" "map_option (x_lower x) (iv_login i) = Some (x_lower x (us_ns u))" "iv_used i = None"
      "us_role u = ''user''" "us_provider u = ''github''"
      "\<forall>v \<in> set (users db). us_ns v \<noteq> us_ns u"
      "\<forall>v \<in> set (users db). \<not> (us_provider v = us_provider u \<and> us_subject v = us_subject u)"
proof (cases "lookupIdentity db (ToLower (TrimSpace provider)) (TrimSpace subject)")
  case None
  note n = None
  show thesis
  proof (cases "ToLower (TrimSpace provider) = ''header''")
    case True
    let ?ns = "deriveNS (TrimSpace subject)"
    have g: "guardNamespace x ?ns reserved"
      and ins: "insertIdentity ''header'' (TrimSpace subject) ?ns (TrimSpace subject) ''user'' db = Inr (r, db')"
      using assms n True by (auto simp: ResolveIdentity_def Let_def split: if_splits)
    from ins show thesis
      by (cases rule: insertIdentity_elim) (use g n True in \<open>auto intro: that(1,2)\<close>)
  next
    case False
    let ?ns = "ToLower (TrimSpace login)"
    have g: "guardNamespace x ?ns reserved"
      and git: "resolveGitHubIdentity x now (TrimSpace subject) ?ns (TrimSpace name) db = Inr (r, db')"
      using assms n False by (auto simp: ResolveIdentity_def Let_def split: if_splits)
    from git show thesis
    proof (cases rule: resolveGitHub_elim)
      case 1
      then show thesis by (rule that(1))
    next
      case (2 u)
      then show thesis using g by (intro that(2) [of u]) auto
    next
      case (3 u i)
      then show thesis using g by (intro that(3) [of i u]) auto
    qed
  qed
qed (use assms that(1) in \<open>auto simp: ResolveIdentity_def Let_def split: if_splits\<close>)

text \<open>A device that registers: its old record promoted, its own refreshed, or a new one.\<close>

definition registered_row :: "gotime \<Rightarrow> string \<Rightarrow> string \<Rightarrow> device_row \<Rightarrow> device_row" where
  "registered_row now name fp d = d\<lparr>dv_display := name, dv_fp := Some fp, dv_seen := Some now\<rparr>"

lemma registerDeviceID_elim:
  assumes "registerDeviceID x now ns i name fp db = Inr (b, db')"
  obtains db1 where "x_validID x i" "ValidFingerprint fp"
      "db1 = db \<or> (\<exists>d \<in> set (devices db). dv_owner d = ns \<and> \<not> dv_uses d \<and> dv_fp d = Some fp \<and> db1 = promote_device ns (dv_id d) i db
          \<and> (\<forall>e \<in> set (devices db). \<not> device_at ns i e))"
      "(\<exists>d \<in> set (devices db1). device_at ns i d \<and> dv_uses d)
       \<and> db' = db1\<lparr>devices := upd (\<lambda>d. device_at ns i d \<and> dv_uses d) (registered_row now name fp) (devices db1)\<rparr>
       \<or> (\<forall>d \<in> set (devices db). \<not> device_at ns i d) \<and> db1 = db
       \<and> db' = db\<lparr>devices := devices db @ [\<lparr>dv_owner = ns, dv_id = i, dv_display = name,
                 dv_alias = None, dv_legacy = None, dv_fp = Some fp, dv_seen = Some now, dv_uses = True\<rparr>]\<rparr>"
proof -
  have v: "x_validID x i" "ValidFingerprint fp" and r: "RegisterDevice now ns i name fp db = Inr (b, db')"
    using assms by (auto simp: registerDeviceID_def split: if_splits)
  let ?P = "\<lambda>d. device_at ns i d \<and> dv_uses d"
  let ?known = "\<exists>d \<in> set (devices db). device_at ns i d"
  define db1 where "db1 = (if ?known then db else case legacy_row db ns name fp of
      Some d \<Rightarrow> promote_device ns (dv_id d) i db | None \<Rightarrow> db)"
  have one: "db1 = db \<or> (\<exists>d \<in> set (devices db). dv_owner d = ns \<and> \<not> dv_uses d \<and> dv_fp d = Some fp \<and> db1 = promote_device ns (dv_id d) i db
      \<and> (\<forall>e \<in> set (devices db). \<not> device_at ns i e))"
  proof (cases "legacy_row db ns name fp")
    case (Some d)
    then obtain ds where "sort_key (\<lambda>d. (dv_id d \<noteq> name, dv_id d))
        (filter (\<lambda>d. dv_owner d = ns \<and> dv_fp d = Some fp \<and> \<not> dv_uses d) (devices db)) = d # ds"
      by (auto simp: legacy_row_def split: list.splits)
    from arg_cong [OF this, of set] have "d \<in> set (filter (\<lambda>d. dv_owner d = ns \<and> dv_fp d = Some fp \<and> \<not> dv_uses d) (devices db))"
      by (simp only: set_sort list.set_intros)
    then show ?thesis by (auto simp: db1_def Some)
  qed (simp add: db1_def)
  have shape: "RegisterDevice now ns i name fp db =
      (let k = (?known \<or> legacy_row db ns name fp \<noteq> None) in
       if \<exists>d \<in> set (devices db1). device_at ns i d then
         (if hits ?P (devices db1) \<noteq> 1 then Inl ErrDeviceConflict
          else Inr (\<not> k, db1\<lparr>devices := upd ?P (registered_row now name fp) (devices db1)\<rparr>))
       else Inr (\<not> k, db1\<lparr>devices := devices db1 @ [\<lparr>dv_owner = ns, dv_id = i, dv_display = name,
                 dv_alias = None, dv_legacy = None, dv_fp = Some fp, dv_seen = Some now, dv_uses = True\<rparr>]\<rparr>))"
    unfolding RegisterDevice_def db1_def registered_row_def [abs_def]
    by (cases ?known; cases "legacy_row db ns name fp") (simp_all add: Let_def)
  have promoted: "\<exists>e \<in> set (devices (promote_device ns (dv_id d) i db)). device_at ns i e"
    if "d \<in> set (devices db)" "dv_owner d = ns" for d
    using that by (intro bexI [of _ "d\<lparr>dv_id := i, dv_legacy := Some (dv_id d), dv_uses := True\<rparr>"])
      (auto simp: promote_device_def set_upd device_at_def)
  show thesis
  proof (cases "\<exists>d \<in> set (devices db1). device_at ns i d")
    case True
    then have h: "hits ?P (devices db1) = 1" and d: "db' = db1\<lparr>devices := upd ?P (registered_row now name fp) (devices db1)\<rparr>"
      using r unfolding shape by (auto simp: Let_def split: if_splits)
    have "\<exists>d \<in> set (devices db1). ?P d" using h hits_pos [of ?P "devices db1"] by simp
    then show thesis using d by (intro that [OF v one]) blast
  next
    case False
    then have "db1 = db" using one promoted by auto
    then show thesis using r False unfolding shape by (intro that [OF v one]) (auto simp: Let_def)
  qed
qed

text \<open>A scoped token: a new delegated token and its scope.\<close>

lemma IssueScopedToken_elim:
  assumes "IssueScopedToken x now ns device cmd label days rnd db = Inr ((raw, k), db')"
  obtains i d fp t where "validScopedCommand cmd" "d \<in> set (devices db)" "device_at ns i d" "dv_uses d" "dv_fp d = Some fp"
    "raw = ScopedTokenPrefix @ rnd" "k = token_seq db" "\<forall>t \<in> set (tokens db). tk_hash t \<noteq> HashToken raw"
    "t = \<lparr>tk_id = k, tk_ns = ns, tk_kind = ''delegated'', tk_hash = HashToken raw, tk_label = label,
          tk_expires = Some (now + (if days = 0 then ScopedDefaultDays else days) * 24 * Hour), tk_revoked = None\<rparr>"
    "0 \<le> days" "days \<le> ScopedMaxDays"
    "db' = db\<lparr>tokens := tokens db @ [t], token_seq := token_seq db + 1,
        scopeds := scopeds db @ [\<lparr>sc_token = k, sc_ns = ns, sc_device = i, sc_fp = fp, sc_command = cmd\<rparr>]\<rparr>"
proof -
  let ?days = "if days = 0 then ScopedDefaultDays else days"
  have ok: "\<not> (?days < 0 \<or> ?days > ScopedMaxDays \<or> \<not> validScopedCommand cmd \<or> length label > scopedMaxLabel
     \<or> \<not> cleanLabel label)"
    using assms by (auto simp: IssueScopedToken_def Let_def split: if_splits)
  obtain i where i: "ResolveDeviceTargetStrict x db ns device = Inr i"
    using assms ok by (cases "ResolveDeviceTargetStrict x db ns device") (auto simp: IssueScopedToken_def Let_def)
  obtain d where d: "sel (\<lambda>d. device_at ns i d \<and> dv_uses d) (devices db) = Some d"
    using assms ok i by (cases "sel (\<lambda>d. device_at ns i d \<and> dv_uses d) (devices db)") (auto simp: IssueScopedToken_def Let_def)
  obtain fp where fp: "dv_fp d = Some fp"
    using assms ok i d by (cases "dv_fp d") (auto simp: IssueScopedToken_def Let_def)
  note a = assms [unfolded IssueScopedToken_def Let_def, unfolded if_not_P [OF ok] i sum.case d option.case fp]
  from a have raw: "raw = ScopedTokenPrefix @ rnd" "k = token_seq db"
    and fresh: "\<forall>t \<in> set (tokens db). tk_hash t \<noteq> HashToken raw"
    by (auto simp: insert_token_def split: if_splits)
  show thesis
    by (rule that [OF _ _ _ _ fp raw fresh refl])
      (use ok a sel_Some [OF d] fresh in \<open>auto simp: insert_token_def ScopedMaxDays_def raw split: if_splits\<close>)
qed

text \<open>A request that is new.\<close>

lemma CreateDelegation_elim:
  assumes "CreateDelegation now n db = Inr (v, db')"
  obtains "db' = db"
  | r where "db' = db\<lparr>drequests := drequests db @ [r]\<rparr>" "rq_id r = n_id n" "rq_ticket r = n_ticket n"
      "rq_token r = n_token n" "rq_controller r = n_controller n" "rq_status r = ReqPending" "rq_ns r = []"
      "rq_tokenid r = None" "rq_decided r = None" "rq_created r = now" "now < rq_expires r"
      "rq_expires r \<le> n_expires n" "rq_expires r \<le> now + 10 * Minute" "pendingCount now db < maxPendingDelegations"
      "\<forall>q \<in> set (drequests db). rq_id q \<noteq> n_id n \<and> rq_ticket q \<noteq> n_ticket n \<and> rq_token q \<noteq> n_token n"
      "validDelegationID (n_id n)"
proof (cases "request_at db (n_id n)")
  case (Some r)
  then show thesis using assms that(1)
    by (auto simp: CreateDelegation_def map_sum_def split: if_splits sum.splits)
next
  case None
  then have "\<forall>q \<in> set (drequests db). rq_id q \<noteq> n_id n" by (simp add: request_at_def sel_None)
  then show thesis
    using assms None that(2)
    by (auto simp: CreateDelegation_def map_sum_def Let_def split: if_splits sum.splits)
qed

text \<open>A job that is new.\<close>

lemma BeginJob_elim:
  assumes "BeginJob now grant rid hash payload ok rnd db = Inr ((j, fresh), db')"
  obtains "\<not> fresh" "db' = db" "job_at db grant rid = Some j" "jb_hash j = hash"
  | v where "fresh" "job_at db grant rid = None" "readDelegation now db grant [] = Inr v" "rv_status v = VApproved"
      "int (hits (\<lambda>j. jb_grant j = grant) (djobs db)) < MaxJobs (granted v)"
      "\<forall>q \<in> set (djobs db). jb_id q \<noteq> jb_id j" "jb_grant j = grant" "jb_request j = rid" "jb_hash j = hash"
      "jb_payload j = payload" "jb_created j = now" "jb_state j = ''running''" "db' = db\<lparr>djobs := djobs db @ [j]\<rparr>"
proof (cases "job_at db grant rid")
  case (Some old)
  then show thesis using assms that(1) by (auto simp: BeginJob_def split: if_splits)
next
  case None
  then show thesis using assms that(2)
    by (auto simp: BeginJob_def Let_def not_le split: if_splits sum.splits)
qed

text \<open>An approval that succeeds, in one fact.\<close>

lemma ApproveDelegation_elim:
  assumes "ApproveDelegation x now p nfps db = Inr (v, db')"
  obtains r gs where "approval_valid x p nfps" "request_at db (p_request p) = Some r" "rq_status r = ReqPending"
    "now < rq_expires r" "rq_controller r = p_controller p"
    "grant_loop (p_request p) (p_ns p) (p_fps p) (sort (p_devices p)) db = Inr (db\<lparr>gdevices := gdevices db @ gs\<rparr>)"
    "\<forall>t \<in> set (tokens db). tk_hash t \<noteq> rq_token r"
    "db' = db\<lparr>gdevices := gdevices db @ gs,
       tokens := tokens db @ [\<lparr>tk_id = token_seq db, tk_ns = p_ns p, tk_kind = ''delegated'', tk_hash = rq_token r,
          tk_label = rq_label r, tk_expires = Some (now + p_minutes p * Minute), tk_revoked = None\<rparr>],
       token_seq := token_seq db + 1,
       drequests := upd (\<lambda>q. rq_id q = p_request p)
          (\<lambda>q. q\<lparr>rq_status := ReqApproved, rq_ns := p_ns p, rq_tokenid := Some (token_seq db), rq_decided := Some now\<rparr>)
          (drequests db),
       audits := audits db @ [\<lparr>au_ns = p_ns p, au_device = [], au_token = Some (token_seq db),
          au_event = approval_event (p_request p)\<rparr>]\<rparr>"
proof -
  from assms have v: "approval_valid x p nfps" by (auto simp: ApproveDelegation_def split: if_splits)
  from assms v obtain r where r: "request_at db (p_request p) = Some r"
    by (auto simp: ApproveDelegation_def split: option.splits)
  from assms v r obtain db1 where g: "grant_loop (p_request p) (p_ns p) (p_fps p) (sort (p_devices p)) db = Inr db1"
    and c: "rq_status r = ReqPending" "now < rq_expires r" "rq_controller r = p_controller p"
    by (auto simp: ApproveDelegation_def split: if_splits sum.splits)
  obtain gs where db1: "db1 = db\<lparr>gdevices := gdevices db @ gs\<rparr>" using grant_loop_frame [OF g] by blast
  have fresh: "\<forall>t \<in> set (tokens db). tk_hash t \<noteq> rq_token r"
    using assms v r g c db1 by (auto simp: ApproveDelegation_def insert_token_def split: if_splits)
  show thesis
    by (rule that [OF v r c _ fresh])
      (use assms v r g c db1 fresh in \<open>auto simp: ApproveDelegation_def insert_token_def Let_def map_sum_def
         split: if_splits sum.splits\<close>)
qed

lemma commit_simps [simp]: "commit db (Inl e) = db" "commit db (Inr (r, db')) = db'"
  by (simp_all add: commit_def)

lemma commit_cases:
  "(\<And>r db'. X = Inr (r, db') \<Longrightarrow> Q db') \<Longrightarrow> Q db \<Longrightarrow> Q (commit db X)"
  by (cases X) (auto simp: commit_def)

lemmas goal_splits = if_split option.split sum.split prod.split

text \<open>The tables a call writes.\<close>

datatype (plugins only: ) table =
    TUsers | TDevices | TTokens | TACL | TFriends | TInvites | TAccesses | TAudits | TRequests | TGDevices | TJobs
  | TScopeds | TClients | TRefreshes

primrec writes :: "db_call \<Rightarrow> table set" where
  "writes (CIssueToken ns label days rnd) = {TTokens}"
| "writes (CRevokeToken ns i) = {TTokens}"
| "writes (CSetDisabled ns b) = {TUsers}"
| "writes (CAudit ns device event) = {TAudits}"
| "writes (CIdentity provider subject login name reserved) = {TUsers, TInvites}"
| "writes (CInvite login) = {TInvites}"
| "writes (CRevokeInvite i) = {TInvites}"
| "writes (CAccess provider subject login note) = {TAccesses}"
| "writes (CDecide i status by) = {TAccesses, TInvites}"
| "writes (CUpsert ns name fp) = {TDevices}"
| "writes (CRegister ns i name fp) = {TDevices, TACL, TAudits}"
| "writes (CRemove ns i ok) = {TDevices, TACL}"
| "writes (CAlias ns device alias) = {TDevices}"
| "writes (CFriend a b reserved) = {TFriends}"
| "writes (CAccept ns a) = {TFriends}"
| "writes (CDecline ns a) = {TFriends}"
| "writes (CUnfriend ns b) = {TFriends, TACL}"
| "writes (CGrant ns device g m) = {TACL}"
| "writes (CRevokeShare ns i) = {TACL}"
| "writes (CRevokeMatch ns i device g) = {TACL}"
| "writes (CManage ns device g m) = {TACL}"
| "writes (CCreate n) = {TRequests}"
| "writes (CApprove p nfps) = {TRequests, TGDevices, TTokens, TAudits}"
| "writes (CReject i ns) = {TRequests}"
| "writes (CScoped ns device cmd label days rnd) = {TTokens, TScopeds}"
| "writes (CRevokeScoped ns i) = {TTokens}"
| "writes (CBegin grant rid hash payload ok rnd) = {TJobs}"
| "writes (CFinish grant i state result ok) = {TJobs}"
| "writes (CCleanup retention locked) = {TRequests, TGDevices, TJobs, TTokens}"
| "writes (CRegisterClient c n stale inflight) = {TClients}"
| "writes (CPutRefresh r) = {TRefreshes}"
| "writes (CRevokeRefresh h) = {TRefreshes}"
| "writes (CRevokeHash ns h) = {TTokens}"
| "writes (CExtend ns h until) = {TTokens}"

lemma frame_identity [simp]:
  "devices (commit db (ResolveIdentity x now provider subject login name reserved db)) = devices db"
  "tokens (commit db (ResolveIdentity x now provider subject login name reserved db)) = tokens db"
  "token_seq (commit db (ResolveIdentity x now provider subject login name reserved db)) = token_seq db"
  "acls (commit db (ResolveIdentity x now provider subject login name reserved db)) = acls db"
  "friends (commit db (ResolveIdentity x now provider subject login name reserved db)) = friends db"
  "accesses (commit db (ResolveIdentity x now provider subject login name reserved db)) = accesses db"
  "audits (commit db (ResolveIdentity x now provider subject login name reserved db)) = audits db"
  "drequests (commit db (ResolveIdentity x now provider subject login name reserved db)) = drequests db"
  "gdevices (commit db (ResolveIdentity x now provider subject login name reserved db)) = gdevices db"
  "djobs (commit db (ResolveIdentity x now provider subject login name reserved db)) = djobs db"
  "scopeds (commit db (ResolveIdentity x now provider subject login name reserved db)) = scopeds db"
  "oclients (commit db (ResolveIdentity x now provider subject login name reserved db)) = oclients db"
  "orefreshes (commit db (ResolveIdentity x now provider subject login name reserved db)) = orefreshes db"
  by (rule commit_cases, elim ResolveIdentity_elim, simp_all)+

lemma frame_register [simp]:
  "users (commit db (registerDeviceID x now ns i name fp db)) = users db"
  "tokens (commit db (registerDeviceID x now ns i name fp db)) = tokens db"
  "token_seq (commit db (registerDeviceID x now ns i name fp db)) = token_seq db"
  "friends (commit db (registerDeviceID x now ns i name fp db)) = friends db"
  "invites (commit db (registerDeviceID x now ns i name fp db)) = invites db"
  "accesses (commit db (registerDeviceID x now ns i name fp db)) = accesses db"
  "drequests (commit db (registerDeviceID x now ns i name fp db)) = drequests db"
  "gdevices (commit db (registerDeviceID x now ns i name fp db)) = gdevices db"
  "djobs (commit db (registerDeviceID x now ns i name fp db)) = djobs db"
  "scopeds (commit db (registerDeviceID x now ns i name fp db)) = scopeds db"
  "oclients (commit db (registerDeviceID x now ns i name fp db)) = oclients db"
  "orefreshes (commit db (registerDeviceID x now ns i name fp db)) = orefreshes db"
  by (rule commit_cases, elim registerDeviceID_elim, (auto simp: promote_device_def)[1], simp)+

lemma frame_scoped [simp]:
  "users (commit db (IssueScopedToken x now ns device cmd label days rnd db)) = users db"
  "devices (commit db (IssueScopedToken x now ns device cmd label days rnd db)) = devices db"
  "acls (commit db (IssueScopedToken x now ns device cmd label days rnd db)) = acls db"
  "friends (commit db (IssueScopedToken x now ns device cmd label days rnd db)) = friends db"
  "invites (commit db (IssueScopedToken x now ns device cmd label days rnd db)) = invites db"
  "accesses (commit db (IssueScopedToken x now ns device cmd label days rnd db)) = accesses db"
  "audits (commit db (IssueScopedToken x now ns device cmd label days rnd db)) = audits db"
  "drequests (commit db (IssueScopedToken x now ns device cmd label days rnd db)) = drequests db"
  "gdevices (commit db (IssueScopedToken x now ns device cmd label days rnd db)) = gdevices db"
  "djobs (commit db (IssueScopedToken x now ns device cmd label days rnd db)) = djobs db"
  "oclients (commit db (IssueScopedToken x now ns device cmd label days rnd db)) = oclients db"
  "orefreshes (commit db (IssueScopedToken x now ns device cmd label days rnd db)) = orefreshes db"
  by (rule commit_cases, case_tac r, simp, elim IssueScopedToken_elim, simp_all)+

lemma frame_create [simp]:
  "users (commit db (CreateDelegation now n db)) = users db"
  "devices (commit db (CreateDelegation now n db)) = devices db"
  "tokens (commit db (CreateDelegation now n db)) = tokens db"
  "token_seq (commit db (CreateDelegation now n db)) = token_seq db"
  "acls (commit db (CreateDelegation now n db)) = acls db"
  "friends (commit db (CreateDelegation now n db)) = friends db"
  "invites (commit db (CreateDelegation now n db)) = invites db"
  "accesses (commit db (CreateDelegation now n db)) = accesses db"
  "audits (commit db (CreateDelegation now n db)) = audits db"
  "gdevices (commit db (CreateDelegation now n db)) = gdevices db"
  "djobs (commit db (CreateDelegation now n db)) = djobs db"
  "scopeds (commit db (CreateDelegation now n db)) = scopeds db"
  "oclients (commit db (CreateDelegation now n db)) = oclients db"
  "orefreshes (commit db (CreateDelegation now n db)) = orefreshes db"
  by (rule commit_cases, elim CreateDelegation_elim, simp_all)+

lemma frame_begin [simp]:
  "users (commit db (BeginJob now grant rid hash payload ok rnd db)) = users db"
  "devices (commit db (BeginJob now grant rid hash payload ok rnd db)) = devices db"
  "tokens (commit db (BeginJob now grant rid hash payload ok rnd db)) = tokens db"
  "token_seq (commit db (BeginJob now grant rid hash payload ok rnd db)) = token_seq db"
  "acls (commit db (BeginJob now grant rid hash payload ok rnd db)) = acls db"
  "friends (commit db (BeginJob now grant rid hash payload ok rnd db)) = friends db"
  "invites (commit db (BeginJob now grant rid hash payload ok rnd db)) = invites db"
  "accesses (commit db (BeginJob now grant rid hash payload ok rnd db)) = accesses db"
  "audits (commit db (BeginJob now grant rid hash payload ok rnd db)) = audits db"
  "drequests (commit db (BeginJob now grant rid hash payload ok rnd db)) = drequests db"
  "gdevices (commit db (BeginJob now grant rid hash payload ok rnd db)) = gdevices db"
  "scopeds (commit db (BeginJob now grant rid hash payload ok rnd db)) = scopeds db"
  "oclients (commit db (BeginJob now grant rid hash payload ok rnd db)) = oclients db"
  "orefreshes (commit db (BeginJob now grant rid hash payload ok rnd db)) = orefreshes db"
  by (rule commit_cases, case_tac r, simp, elim BeginJob_elim, simp_all)+

lemma frame_approve [simp]:
  "users (commit db (ApproveDelegation x now p nfps db)) = users db"
  "devices (commit db (ApproveDelegation x now p nfps db)) = devices db"
  "acls (commit db (ApproveDelegation x now p nfps db)) = acls db"
  "friends (commit db (ApproveDelegation x now p nfps db)) = friends db"
  "invites (commit db (ApproveDelegation x now p nfps db)) = invites db"
  "accesses (commit db (ApproveDelegation x now p nfps db)) = accesses db"
  "djobs (commit db (ApproveDelegation x now p nfps db)) = djobs db"
  "scopeds (commit db (ApproveDelegation x now p nfps db)) = scopeds db"
  "oclients (commit db (ApproveDelegation x now p nfps db)) = oclients db"
  "orefreshes (commit db (ApproveDelegation x now p nfps db)) = orefreshes db"
  by (rule commit_cases, elim ApproveDelegation_elim, simp_all)+

lemma frame_users: "TUsers \<notin> writes c \<Longrightarrow> users (exec_call x now c db) = users db"
  by (cases c) (simp_all add: call_defs map_sum_def split: goal_splits)

lemma frame_devices: "TDevices \<notin> writes c \<Longrightarrow> devices (exec_call x now c db) = devices db"
  by (cases c) (simp_all add: call_defs map_sum_def split: goal_splits)

lemma frame_tokens: "TTokens \<notin> writes c \<Longrightarrow> tokens (exec_call x now c db) = tokens db"
  by (cases c) (simp_all add: call_defs map_sum_def split: goal_splits)

lemma frame_acls: "TACL \<notin> writes c \<Longrightarrow> acls (exec_call x now c db) = acls db"
  by (cases c) (simp_all add: call_defs map_sum_def split: goal_splits)

lemma frame_friends: "TFriends \<notin> writes c \<Longrightarrow> friends (exec_call x now c db) = friends db"
  by (cases c) (simp_all add: call_defs map_sum_def split: goal_splits)

lemma frame_invites: "TInvites \<notin> writes c \<Longrightarrow> invites (exec_call x now c db) = invites db"
  by (cases c) (simp_all add: call_defs map_sum_def split: goal_splits)

lemma frame_accesses: "TAccesses \<notin> writes c \<Longrightarrow> accesses (exec_call x now c db) = accesses db"
  by (cases c) (simp_all add: call_defs map_sum_def split: goal_splits)

lemma frame_audits: "TAudits \<notin> writes c \<Longrightarrow> audits (exec_call x now c db) = audits db"
  by (cases c) (simp_all add: call_defs map_sum_def split: goal_splits)

lemma frame_drequests: "TRequests \<notin> writes c \<Longrightarrow> drequests (exec_call x now c db) = drequests db"
  by (cases c) (simp_all add: call_defs map_sum_def split: goal_splits)

lemma frame_gdevices: "TGDevices \<notin> writes c \<Longrightarrow> gdevices (exec_call x now c db) = gdevices db"
  by (cases c) (simp_all add: call_defs map_sum_def split: goal_splits)

lemma frame_djobs: "TJobs \<notin> writes c \<Longrightarrow> djobs (exec_call x now c db) = djobs db"
  by (cases c) (simp_all add: call_defs map_sum_def split: goal_splits)

lemma frame_scopeds: "TScopeds \<notin> writes c \<Longrightarrow> scopeds (exec_call x now c db) = scopeds db"
  by (cases c) (simp_all add: call_defs map_sum_def split: goal_splits)

lemma frame_oclients: "TClients \<notin> writes c \<Longrightarrow> oclients (exec_call x now c db) = oclients db"
  by (cases c) (simp_all add: call_defs map_sum_def split: goal_splits)

lemma frame_orefreshes: "TRefreshes \<notin> writes c \<Longrightarrow> orefreshes (exec_call x now c db) = orefreshes db"
  by (cases c) (simp_all add: call_defs map_sum_def split: goal_splits)

lemma frame_token_seq: "TTokens \<notin> writes c \<Longrightarrow> token_seq (exec_call x now c db) = token_seq db"
  by (cases c) (simp_all add: call_defs map_sum_def split: goal_splits)

end
