(* ===== verification/AccountInvariant.thy ===== *)
theory AccountInvariant
  imports DatabaseFrames RunInvariant
begin

text \<open>
  What holds of accounts, invitations, friends and shares in every state the database can
  be in: names and identities are unique, an account of GitHub is the first administrator
  or used an invitation that names it, and every share that is not revoked is between
  friends.
\<close>

subsection \<open>Shares\<close>

definition share_ok :: "database \<Rightarrow> bool" where
  "share_ok db \<longleftrightarrow> (\<forall>a \<in> set (acls db). ac_revoked a = None \<longrightarrow>
     ac_owner a \<noteq> ac_grantee a
     \<and> (\<exists>f \<in> set (friends db). same_pair (ac_owner a) (ac_grantee a) f \<and> fr_status f = FriendAccepted))"

text \<open>Shares after a call: those there were, unchanged in who they are between, and new ones between friends.\<close>

definition share_ends :: "acl_row \<Rightarrow> string \<times> string" where
  "share_ends a = (ac_owner a, ac_grantee a)"

lemma share_from:
  assumes "\<And>a'. a' \<in> set (acls db') \<Longrightarrow> ac_revoked a' = None \<Longrightarrow>
      \<exists>a \<in> set (acls db). ac_revoked a = None \<and> share_ends a = share_ends a'
        \<and> (\<forall>f \<in> set (friends db). same_pair (ac_owner a) (ac_grantee a) f \<and> fr_status f = FriendAccepted
             \<longrightarrow> (\<exists>g \<in> set (friends db'). same_pair (ac_owner a) (ac_grantee a) g \<and> fr_status g = FriendAccepted))"
    and "share_ok db"
  shows "share_ok db'"
  unfolding share_ok_def
proof (intro ballI impI)
  fix a' assume "a' \<in> set (acls db')" "ac_revoked a' = None"
  from assms(1) [OF this] obtain a where a: "a \<in> set (acls db)" "ac_revoked a = None" "share_ends a = share_ends a'"
    "\<forall>f \<in> set (friends db). same_pair (ac_owner a) (ac_grantee a) f \<and> fr_status f = FriendAccepted
             \<longrightarrow> (\<exists>g \<in> set (friends db'). same_pair (ac_owner a) (ac_grantee a) g \<and> fr_status g = FriendAccepted)"
    by blast
  moreover have "ac_owner a = ac_owner a'" "ac_grantee a = ac_grantee a'" using a(3) by (simp_all add: share_ends_def)
  ultimately show "ac_owner a' \<noteq> ac_grantee a' \<and>
      (\<exists>f \<in> set (friends db'). same_pair (ac_owner a') (ac_grantee a') f \<and> fr_status f = FriendAccepted)"
    using assms(2) unfolding share_ok_def by metis
qed

lemma share_upd:
  assumes "acls db' = upd P h (acls db)" "friends db' = friends db" "share_ok db"
    "\<And>a. share_ends (h a) = share_ends a" "\<And>a. ac_revoked (h a) = None \<Longrightarrow> ac_revoked a = None"
  shows "share_ok db'"
proof (rule share_from [OF _ assms(3)])
  fix a' assume "a' \<in> set (acls db')" "ac_revoked a' = None"
  then obtain a where "a \<in> set (acls db)" "ac_revoked a = None" "share_ends a = share_ends a'"
    unfolding assms(1) by (elim upd_from) (use assms(4,5) in auto)
  then show "\<exists>a \<in> set (acls db). ac_revoked a = None \<and> share_ends a = share_ends a'
      \<and> (\<forall>f \<in> set (friends db). same_pair (ac_owner a) (ac_grantee a) f \<and> fr_status f = FriendAccepted
           \<longrightarrow> (\<exists>g \<in> set (friends db'). same_pair (ac_owner a) (ac_grantee a) g \<and> fr_status g = FriendAccepted))"
    using assms(2) by auto
qed

lemma accepted_upd:
  "f \<in> set fs \<Longrightarrow> same_pair a b f \<Longrightarrow> fr_status f = FriendAccepted \<Longrightarrow> (\<And>f. P f \<Longrightarrow> fr_status f = FriendPending) \<Longrightarrow>
    \<exists>g \<in> set (upd P h fs). same_pair a b g \<and> fr_status g = FriendAccepted"
  by (intro bexI [of _ f]) (auto simp: set_upd)

lemma share_step: "share_ok db \<Longrightarrow> share_ok (exec_call x now c db)"
proof -
  assume ok: "share_ok db"
  consider "TACL \<notin> writes c \<and> TFriends \<notin> writes c" | a b r where "c = CFriend a b r" | a b where "c = CAccept a b"
    | a b where "c = CDecline a b" | a b where "c = CUnfriend a b" | ns i n f where "c = CRegister ns i n f"
    | ns i ok where "c = CRemove ns i ok" | ns d g m where "c = CGrant ns d g m" | ns i where "c = CRevokeShare ns i"
    | ns i d g where "c = CRevokeMatch ns i d g" | ns d g m where "c = CManage ns d g m"
    by (cases c) auto
  then show ?thesis
  proof cases
    case 1
    then show ?thesis using ok frame_acls frame_friends by (simp add: share_ok_def)
  next
    case (2 a b r)
    show ?thesis unfolding 2 exec_call.simps
    proof (rule commit_cases [where Q = share_ok, OF _ ok])
      fix s db' assume d: "FriendRequest x now a b r db = Inr (s, db')"
      show "share_ok db'"
      proof (cases "sel (same_pair (TrimSpace a) (TrimSpace b)) (friends db)")
        case None
        then have "acls db' = acls db" "\<exists>f. friends db' = friends db @ [f]"
          using d by (auto simp: FriendRequest_def Let_def split: if_splits)
        then show ?thesis by (intro share_from [OF _ ok]) auto
      next
        case (Some q)
        let ?P = "\<lambda>f. fr_requester f = fr_requester q \<and> fr_addressee f = fr_addressee q \<and> fr_status f = FriendPending"
        have "acls db' = acls db" "friends db' = friends db \<or>
            friends db' = upd ?P (\<lambda>f. f\<lparr>fr_status := FriendAccepted, fr_accepted := Some now\<rparr>) (friends db)"
          using d Some by (auto simp: FriendRequest_def Let_def split: if_splits)
        then show ?thesis by (intro share_from [OF _ ok]) (auto intro!: accepted_upd)
      qed
    qed
  next
    case (3 a b)
    have "waiting_for a b f \<Longrightarrow> fr_status f = FriendPending" for f by (simp add: waiting_for_def)
    then show ?thesis unfolding 3
      by (intro share_from [OF _ ok]) (auto simp: FriendAccept_def intro!: accepted_upd)
  next
    case (4 a b)
    have "\<exists>g \<in> set (friends (exec_call x now c db)). same_pair p q g \<and> fr_status g = FriendAccepted"
      if "f \<in> set (friends db)" "same_pair p q f" "fr_status f = FriendAccepted" for f p q
      using that by (intro bexI [of _ f]) (auto simp: 4 FriendDecline_def waiting_for_def)
    moreover have "acls (exec_call x now c db) = acls db" by (simp add: 4 FriendDecline_def)
    ultimately show ?thesis by (intro share_from [OF _ ok]) (simp, blast)
  next
    case (5 a b)
    have "\<exists>f \<in> set (friends db). \<not> same_pair a b f \<and> same_pair (ac_owner s) (ac_grantee s) f \<and> fr_status f = FriendAccepted"
      if s: "s \<in> set (acls db)" "ac_revoked s = None" "\<not> between a b s" for s
    proof -
      obtain f where f: "f \<in> set (friends db)" "same_pair (ac_owner s) (ac_grantee s) f" "fr_status f = FriendAccepted"
        using ok s unfolding share_ok_def by blast
      then have "\<not> same_pair a b f" using s(3) by (auto simp: same_pair_def between_def)
      then show ?thesis using f by blast
    qed
    moreover have "ac_owner s \<noteq> ac_grantee s" if "s \<in> set (acls db)" "ac_revoked s = None" for s
      using ok that by (simp add: share_ok_def)
    ultimately have "\<forall>s \<in> set (acls db). ac_revoked s = None \<and> \<not> between a b s \<longrightarrow> ac_owner s \<noteq> ac_grantee s
        \<and> (\<exists>f \<in> set (DeleteFunc (same_pair a b) (friends db)).
              same_pair (ac_owner s) (ac_grantee s) f \<and> fr_status f = FriendAccepted)"
      by simp blast
    then show ?thesis unfolding 5 using ok
      by (simp add: FriendRemove_def) (auto simp: share_ok_def set_upd)
  next
    case (6 ns i n f)
    show ?thesis unfolding 6 exec_call.simps
    proof (rule commit_cases [where Q = share_ok, OF _ ok])
      fix s db' assume "registerDeviceID x now ns i n f db = Inr (s, db')"
      then show "share_ok db'"
      proof (elim registerDeviceID_elim)
        fix db1
        assume d1: "db1 = db \<or> (\<exists>d \<in> set (devices db). dv_owner d = ns \<and> \<not> dv_uses d \<and> dv_fp d = Some f
            \<and> db1 = promote_device ns (dv_id d) i db \<and> (\<forall>e \<in> set (devices db). \<not> device_at ns i e))"
          and "(\<exists>d \<in> set (devices db1). device_at ns i d \<and> dv_uses d)
             \<and> db' = db1\<lparr>devices := upd (\<lambda>d. device_at ns i d \<and> dv_uses d) (registered_row now n f) (devices db1)\<rparr>
           \<or> (\<forall>d \<in> set (devices db). \<not> device_at ns i d) \<and> db1 = db
             \<and> db' = db\<lparr>devices := devices db @ [\<lparr>dv_owner = ns, dv_id = i, dv_display = n,
                 dv_alias = None, dv_legacy = None, dv_fp = Some f, dv_seen = Some now, dv_uses = True\<rparr>]\<rparr>"
        then have f: "acls db' = acls db1" "friends db' = friends db" by (auto simp: promote_device_def)
        from d1 show "share_ok db'"
        proof
          assume "db1 = db"
          then show ?thesis using ok f by (simp add: share_ok_def)
        next
          assume "\<exists>d \<in> set (devices db). dv_owner d = ns \<and> \<not> dv_uses d \<and> dv_fp d = Some f
            \<and> db1 = promote_device ns (dv_id d) i db \<and> (\<forall>e \<in> set (devices db). \<not> device_at ns i e)"
          then obtain d :: device_row where "db1 = promote_device ns (dv_id d) i db" by blast
          then have "acls db' = upd (\<lambda>a. ac_owner a = ns \<and> ac_device a = dv_id d) (\<lambda>a. a\<lparr>ac_device := i\<rparr>) (acls db)"
            using f(1) by (simp add: promote_device_def)
          then show ?thesis by (rule share_upd [OF _ f(2) ok]) (simp_all add: share_ends_def)
        qed
      qed
    qed
  next
    case (7 ns i k)
    show ?thesis unfolding 7
      by (intro share_from [OF _ ok]) (auto simp: RemoveDevice_def Let_def split: if_splits)
  next
    case (8 ns d g m)
    show ?thesis unfolding 8 exec_call.simps
    proof (rule commit_cases [where Q = share_ok, OF _ ok])
      fix s db' assume "GrantACL ns d g m db = Inr (s, db')"
      then obtain f where n: "ns \<noteq> g" and f: "sel (\<lambda>r. same_pair ns g r \<and> fr_status r = FriendAccepted) (friends db) = Some f"
        and "friends db' = friends db" "\<exists>a. acls db' = acls db @ [a] \<and> ac_owner a = ns \<and> ac_grantee a = g"
        by (auto simp: GrantACL_def split: if_splits)
      then show "share_ok db'" using ok sel_Some [OF f] by (auto simp: share_ok_def)
    qed
  next
    case (9 ns i)
    show ?thesis
      by (rule share_upd [OF _ _ ok, where h = "\<lambda>a. a\<lparr>ac_revoked := Some now\<rparr>"]) (simp_all add: 9 RevokeACL_def share_ends_def)
  next
    case (10 ns i d g)
    show ?thesis
      by (rule share_upd [OF _ _ ok, where h = "\<lambda>a. a\<lparr>ac_revoked := Some now\<rparr>"])
        (simp_all add: 10 RevokeACLMatch_def Let_def share_ends_def)
  next
    case (11 ns d g m)
    show ?thesis
      by (rule share_upd [OF _ _ ok, where h = "\<lambda>a. a\<lparr>ac_manage := m\<rparr>"]) (simp_all add: 11 SetACLManage_def share_ends_def)
  qed
qed

subsection \<open>Accounts and invitations\<close>

definition account_ok :: "externals \<Rightarrow> database \<Rightarrow> bool" where
  "account_ok x db \<longleftrightarrow>
     distinct (map us_ns (users db))
     \<and> distinct (map (\<lambda>u. (us_provider u, us_subject u)) (users db))
     \<and> hits (\<lambda>u. us_role u = ''admin'') (users db) \<le> 1
     \<and> (\<forall>u \<in> set (users db). us_ns u \<noteq> [] \<and> \<not> EqualFold (us_ns u) ''portal''
          \<and> (us_role u = ''admin'' \<and> us_provider u = ''github''
             \<or> us_role u = ''user''
               \<and> (us_provider u = ''header''
                  \<or> us_provider u = ''github''
                    \<and> (\<exists>i \<in> set (invites db). iv_used i \<noteq> None \<and> iv_used_by i = Some (us_ns u)
                         \<and> map_option (x_lower x) (iv_login i) = Some (x_lower x (us_ns u))))))"

definition invite_used :: "externals \<Rightarrow> string \<Rightarrow> invite_row \<Rightarrow> bool" where
  "invite_used x ns i \<longleftrightarrow> iv_used i \<noteq> None \<and> iv_used_by i = Some ns
     \<and> map_option (x_lower x) (iv_login i) = Some (x_lower x ns)"

text \<open>An invitation that was used stays as it is.\<close>

lemma used_invites_stay:
  "i \<in> set (invites db) \<Longrightarrow> iv_used i \<noteq> None \<Longrightarrow> i \<in> set (invites (exec_call x now c db))"
proof -
  assume i: "i \<in> set (invites db)" "iv_used i \<noteq> None"
  consider "TInvites \<notin> writes c" | p s l n r where "c = CIdentity p s l n r" | l where "c = CInvite l"
    | k where "c = CRevokeInvite k" | k s b where "c = CDecide k s b"
    by (cases c) auto
  then show ?thesis
  proof cases
    case 1
    then show ?thesis using i frame_invites by simp
  next
    case (2 p s l n r)
    show ?thesis unfolding 2 exec_call.simps
      by (rule commit_cases [where Q = "\<lambda>d. i \<in> set (invites d)", OF _ i(1)]) (elim ResolveIdentity_elim; use i in \<open>auto simp: set_upd\<close>)
  next
    case (3 l)
    then show ?thesis using i by (auto simp: CreateInvite_def insert_invite_def Let_def)
  next
    case (4 k)
    then show ?thesis using i by (auto simp: RevokeInvite_def Let_def)
  next
    case (5 k s b)
    then show ?thesis using i
      by (auto simp: DecideAccessRequest_def insert_invite_def Let_def split: option.split)
  qed
qed

lemma account_step: "account_ok x db \<Longrightarrow> account_ok x (exec_call x now c db)"
proof -
  assume ok: "account_ok x db"
  have keep: "\<exists>j \<in> set (invites (exec_call x now c db)). iv_used j \<noteq> None \<and> iv_used_by j = Some ns
       \<and> map_option (x_lower x) (iv_login j) = Some (x_lower x ns)"
    if "i \<in> set (invites db)" "iv_used i \<noteq> None" "iv_used_by i = Some ns"
       "map_option (x_lower x) (iv_login i) = Some (x_lower x ns)" for i ns
    using used_invites_stay [OF that(1,2)] that by blast
  consider "TUsers \<notin> writes c" | p s l n r where "c = CIdentity p s l n r" | ns b where "c = CSetDisabled ns b"
    by (cases c) auto
  then show ?thesis
  proof cases
    case 1
    show ?thesis using ok keep unfolding account_ok_def frame_users [OF 1] by blast
  next
    case (3 ns b)
    let ?f = "\<lambda>u. u\<lparr>us_disabled := (if b then (case us_disabled u of None \<Rightarrow> Some now | Some t \<Rightarrow> Some t) else None)\<rparr>"
    have u: "users (exec_call x now c db) = upd (\<lambda>u. us_ns u = ns) ?f (users db)"
      and i: "invites (exec_call x now c db) = invites db"
      by (simp_all add: 3 SetAccountDisabled_def Let_def)
    have h: "hits (\<lambda>u. us_role u = ''admin'') (upd (\<lambda>u. us_ns u = ns) ?f (users db)) = hits (\<lambda>u. us_role u = ''admin'') (users db)"
      by (simp add: hits_def upd_def filter_map comp_def if_distrib [of us_role] cong: if_cong)
    show ?thesis using ok h unfolding account_ok_def u i
      by (simp add: map_upd) (auto simp: set_upd)
  next
    case (2 p s l n r)
    show ?thesis
    proof (cases "ResolveIdentity x now p s l n r db")
      case (Inl e)
      then show ?thesis using ok by (simp add: 2)
    next
      case (Inr q)
      obtain a db' where q: "q = (a, db')" by (cases q)
      have e: "exec_call x now c db = db'" by (simp add: 2 Inr q)
      note k = keep [unfolded e]
      have "account_ok x db'" using Inr [unfolded q]
      proof (cases rule: ResolveIdentity_elim)
        case 1
        then show ?thesis using ok by simp
      next
        case (2 u)
        then show ?thesis using ok by (auto simp: account_ok_def guardNamespace_def hits_def filter_empty_conv)
      next
        case (3 u i)
        then have "hits (\<lambda>u. us_role u = ''admin'') (users db') \<le> 1" using ok by (simp add: account_ok_def)
        moreover have "\<exists>i \<in> set (invites db'). iv_used i \<noteq> None \<and> iv_used_by i = Some (us_ns u)
             \<and> map_option (x_lower x) (iv_login i) = Some (x_lower x (us_ns u))"
          using 3(1,4,5,6) by (intro bexI [of _ "i\<lparr>iv_used := Some now, iv_used_by := Some (us_ns u)\<rparr>"]) (auto simp: set_upd)
        moreover have "users db' = users db @ [u]" using 3(1) by simp
        ultimately show ?thesis using ok 3(2,7-10) k unfolding account_ok_def
          by (auto simp: guardNamespace_def)
      qed
      then show ?thesis by (simp add: e)
    qed
  qed
qed

end
