(* ===== verification/DelegationInvariant.thy ===== *)
theory DelegationInvariant
  imports DatabaseFrames RunInvariant
begin

text \<open>
  What holds of tokens, delegation requests, grants and the job ledger in every state the
  database can be in. Ids and hashes of tokens are unique and a revocation is never taken
  back; a request that was approved has its token, of the approver's account and at most
  a day long, its devices, its audit entry and no more jobs than its length allows; one
  that was not approved has none of these.
\<close>

subsection \<open>Tokens\<close>

definition token_ok :: "database \<Rightarrow> bool" where
  "token_ok db \<longleftrightarrow> distinct (map tk_id (tokens db)) \<and> distinct (map tk_hash (tokens db))
     \<and> (\<forall>t \<in> set (tokens db). tk_id t < token_seq db)"

text \<open>What a call may do to a token: revoke it, or move the expiry of one that is not delegated.\<close>

definition same_token :: "token_row \<Rightarrow> token_row \<Rightarrow> bool" where
  "same_token t t' \<longleftrightarrow> tk_id t' = tk_id t \<and> tk_ns t' = tk_ns t \<and> tk_kind t' = tk_kind t \<and> tk_hash t' = tk_hash t
     \<and> (tk_kind t = ''delegated'' \<longrightarrow> tk_expires t' = tk_expires t)
     \<and> (tk_revoked t \<noteq> None \<longrightarrow> t' = t)"

lemma same_token_refl [simp]: "same_token t t"
  by (simp add: same_token_def)

lemma tokens_step:
  assumes "\<forall>r l. c \<noteq> CCleanup r l"
  obtains g new where "tokens (exec_call x now c db) = map g (tokens db) @ new" "\<And>t. same_token t (g t)"
    "new = [] \<and> token_seq (exec_call x now c db) = token_seq db
     \<or> (\<exists>t. new = [t] \<and> tk_id t = token_seq db \<and> token_seq (exec_call x now c db) = token_seq db + 1
          \<and> tk_revoked t = None \<and> (\<forall>u \<in> set (tokens db). tk_hash u \<noteq> tk_hash t))"
proof -
  note goal = that
  have none: thesis if "tokens (exec_call x now c db) = map g (tokens db)" "token_seq (exec_call x now c db) = token_seq db"
    "\<And>t. same_token t (g t)" for g
    by (rule goal [of g "[]"]) (use that in auto)
  have upd: thesis if "tokens (exec_call x now c db) = upd P f (tokens db)" "token_seq (exec_call x now c db) = token_seq db"
    "\<And>t. P t \<Longrightarrow> same_token t (f t)" for P f
    by (rule none [of "\<lambda>t. if P t then f t else t"]) (use that in \<open>auto simp: upd_def\<close>)
  have new: thesis if "tokens (exec_call x now c db) = tokens db @ [t]" "tk_id t = token_seq db"
    "token_seq (exec_call x now c db) = token_seq db + 1" "tk_revoked t = None"
    "\<forall>u \<in> set (tokens db). tk_hash u \<noteq> tk_hash t" for t
    by (rule goal [of id "[t]"]) (use that in auto)
  have same: thesis if "exec_call x now c db = db"
    by (rule none [of id]) (use that in auto)
  consider "TTokens \<notin> writes c" | ns l d r where "c = CIssueToken ns l d r" | ns i where "c = CRevokeToken ns i"
    | p n where "c = CApprove p n" | ns d m l y r where "c = CScoped ns d m l y r" | ns i where "c = CRevokeScoped ns i"
    | ns h where "c = CRevokeHash ns h" | ns h u where "c = CExtend ns h u"
    using assms by (cases c) auto
  then show thesis
  proof cases
    case 1
    then show thesis using none [of id] frame_tokens frame_token_seq by simp
  next
    case (2 ns l d r)
    show thesis
    proof (cases "IssueToken now ns l d r db")
      case (Inl e)
      then show thesis using same by (simp add: 2)
    next
      case (Inr q)
      let ?t = "\<lparr>tk_id = token_seq db, tk_ns = ns, tk_kind = ''access'', tk_hash = HashToken (''wanctl_'' @ r), tk_label = l,
         tk_expires = (if d > 0 then Some (now + d * 24 * Hour) else None), tk_revoked = None\<rparr>"
      have "exec_call x now c db = db\<lparr>tokens := tokens db @ [?t], token_seq := token_seq db + 1\<rparr>
          \<and> (\<forall>u \<in> set (tokens db). tk_hash u \<noteq> tk_hash ?t)"
        using Inr by (auto simp: 2 IssueToken_def insert_token_def Let_def split: if_splits)
      then show thesis by (intro new [of ?t]) simp_all
    qed
  next
    case (3 ns i)
    then show thesis by (intro upd [where P = "\<lambda>t. tk_id t = i \<and> tk_ns t = ns \<and> tk_revoked t = None" and f = "\<lambda>t. t\<lparr>tk_revoked := Some now\<rparr>"])
      (simp_all add: RevokeToken_def same_token_def)
  next
    case (4 p n)
    show thesis
    proof (cases "ApproveDelegation x now p n db")
      case (Inl e)
      then show thesis using same by (simp add: 4)
    next
      case (Inr q)
      obtain v db' where q: "ApproveDelegation x now p n db = Inr (v, db')" using Inr by (cases q) simp
      then have e: "exec_call x now c db = db'" by (simp add: 4)
      from q show thesis
      proof (cases rule: ApproveDelegation_elim)
        case (1 r gs)
        show thesis
          by (rule new [of "\<lparr>tk_id = token_seq db, tk_ns = p_ns p, tk_kind = ''delegated'', tk_hash = rq_token r,
            tk_label = rq_label r, tk_expires = Some (now + p_minutes p * Minute), tk_revoked = None\<rparr>"])
            (use 1(7) in \<open>simp_all add: e 1(8)\<close>)
      qed
    qed
  next
    case (5 ns d m l y r)
    show thesis
    proof (cases "IssueScopedToken x now ns d m l y r db")
      case (Inl e)
      then show thesis using same by (simp add: 5)
    next
      case (Inr q)
      obtain raw k db' where q: "IssueScopedToken x now ns d m l y r db = Inr ((raw, k), db')" using Inr by (cases q; cases "fst q") auto
      then have e: "exec_call x now c db = db'" by (simp add: 5)
      from q show thesis
      proof (cases rule: IssueScopedToken_elim)
        case (1 i dv fp t)
        show thesis by (rule new [of t]) (use 1(7,8) in \<open>simp_all add: e 1(9,12)\<close>)
      qed
    qed
  next
    case (6 ns i)
    then show thesis by (intro upd [where P = "\<lambda>t. tk_id t = i \<and> tk_ns t = ns \<and> tk_revoked t = None \<and> is_scoped db t" and f = "\<lambda>t. t\<lparr>tk_revoked := Some now\<rparr>"])
      (simp_all add: RevokeScopedToken_def Let_def same_token_def)
  next
    case (7 ns h)
    then show thesis by (intro upd [where P = "\<lambda>t. tk_hash t = h \<and> tk_ns t = ns \<and> tk_revoked t = None" and f = "\<lambda>t. t\<lparr>tk_revoked := Some now\<rparr>"])
      (simp_all add: RevokeRelayTokenHash_def same_token_def)
  next
    case (8 ns h u)
    let ?P = "\<lambda>t. tk_hash t = h \<and> tk_ns t = ns \<and> tk_kind t = ''access'' \<and> token_live now t \<and> namespaceEnabled db (tk_ns t)"
    have e: "exec_call x now c db = db\<lparr>tokens := upd ?P (\<lambda>t. t\<lparr>tk_expires := Some u\<rparr>) (tokens db)\<rparr>"
      by (simp add: 8 ExtendRelayTokenHash_def Let_def)
    show thesis
      by (rule upd [of ?P "\<lambda>t. t\<lparr>tk_expires := Some u\<rparr>"]) (simp_all add: e same_token_def token_live_def)
  qed
qed

text \<open>Cleaning up takes tokens away, and only delegated ones.\<close>

lemma tokens_cleanup:
  "\<exists>P. tokens (exec_call x now (CCleanup r l) db) = filter P (tokens db) \<and> (\<forall>t. tk_kind t \<noteq> ''delegated'' \<longrightarrow> P t)"
  "token_seq (exec_call x now (CCleanup r l) db) = token_seq db"
proof -
  show "\<exists>P. tokens (exec_call x now (CCleanup r l) db) = filter P (tokens db) \<and> (\<forall>t. tk_kind t \<noteq> ''delegated'' \<longrightarrow> P t)"
  proof (cases "r < MinRetention \<or> cleanup_rows now (now - r) l db = []")
    case True
    then show ?thesis by (intro exI [of _ "\<lambda>_. True"]) (auto simp: cleanupDelegationBatch_def Let_def)
  next
    case False
    then show ?thesis by (auto simp: cleanupDelegationBatch_def Let_def DeleteFunc_def)
  qed
qed (simp add: cleanupDelegationBatch_def Let_def)

lemma token_step:
  assumes ok: "token_ok db"
  shows "token_ok (exec_call x now c db)"
proof (cases "\<exists>r l. c = CCleanup r l")
  case True
  then obtain r l P where "c = CCleanup r l" "tokens (exec_call x now c db) = filter P (tokens db)"
    "token_seq (exec_call x now c db) = token_seq db"
    using tokens_cleanup by metis
  then show ?thesis using ok by (simp add: token_ok_def distinct_map_filter)
next
  case False
  then have "\<forall>r l. c \<noteq> CCleanup r l" by blast
  from tokens_step [OF this, of x now db]
  obtain g new where g: "tokens (exec_call x now c db) = map g (tokens db) @ new" "\<And>t. same_token t (g t)"
    "new = [] \<and> token_seq (exec_call x now c db) = token_seq db
     \<or> (\<exists>t. new = [t] \<and> tk_id t = token_seq db \<and> token_seq (exec_call x now c db) = token_seq db + 1
          \<and> tk_revoked t = None \<and> (\<forall>u \<in> set (tokens db). tk_hash u \<noteq> tk_hash t))"
    by blast
  have "tk_id \<circ> g = tk_id" "tk_hash \<circ> g = tk_hash" and id: "\<And>t. tk_id (g t) = tk_id t" "\<And>t. tk_hash (g t) = tk_hash t"
    using g(2) by (auto simp: same_token_def)
  then show ?thesis using ok g(1,3) unfolding token_ok_def
    by (auto simp: id image_image)
qed


lemma tokens_kept:
  assumes "\<forall>r l. c \<noteq> CCleanup r l" "t \<in> set (tokens db)"
  shows "\<exists>t' \<in> set (tokens (exec_call x now c db)). same_token t t'"
  using tokens_step [OF assms(1), of x now db] assms(2) by (metis (no_types, lifting) Un_iff image_eqI set_append set_map)

subsection \<open>The audit log\<close>

definition same_audit :: "audit_row \<Rightarrow> audit_row \<Rightarrow> bool" where
  "same_audit a b \<longleftrightarrow> au_ns b = au_ns a \<and> au_token b = au_token a \<and> au_event b = au_event a"

text \<open>An entry stays; only the name of its device may change, when the device takes a new id.\<close>

lemma audits_kept:
  assumes a: "a \<in> set (audits db)"
  shows "\<exists>b \<in> set (audits (exec_call x now c db)). same_audit a b"
proof -
  consider "TAudits \<notin> writes c" | ns d e where "c = CAudit ns d e" | ns i n f where "c = CRegister ns i n f"
    | p k where "c = CApprove p k"
    by (cases c) auto
  then show ?thesis
  proof cases
    case 1
    then show ?thesis using a frame_audits by (auto simp: same_audit_def)
  next
    case (2 ns d e)
    then show ?thesis using a by (auto simp: Audit_def same_audit_def)
  next
    case (4 p k)
    let ?Q = "\<lambda>d. \<exists>b \<in> set (audits d). same_audit a b"
    have o: "?Q db" using a by (auto simp: same_audit_def)
    show ?thesis unfolding 4 exec_call.simps
    proof (rule commit_cases [where Q = ?Q, OF _ o])
      fix v db' assume "ApproveDelegation x now p k db = Inr (v, db')"
      then show "?Q db'" by (cases rule: ApproveDelegation_elim) (use o in auto)
    qed
  next
    case (3 ns i n f)
    let ?Q = "\<lambda>d. \<exists>b \<in> set (audits d). same_audit a b"
    have o: "?Q db" using a by (auto simp: same_audit_def)
    have pr: "?Q (promote_device ns k i db)" for k
    proof (cases "au_ns a = ns \<and> au_device a = k")
      case True
      then show ?thesis using a
        by (intro bexI [of _ "a\<lparr>au_device := i\<rparr>"]) (auto simp: promote_device_def set_upd same_audit_def)
    next
      case False
      then show ?thesis using a by (intro bexI [of _ a]) (auto simp: promote_device_def set_upd same_audit_def)
    qed
    show ?thesis unfolding 3 exec_call.simps
    proof (rule commit_cases [where Q = ?Q, OF _ o])
      fix v db' assume "registerDeviceID x now ns i n f db = Inr (v, db')"
      then show "?Q db'"
      proof (cases rule: registerDeviceID_elim)
        case (1 db1)
        then have "audits db' = audits db1" by auto
        moreover have "?Q db1" using 1(3) pr o by blast
        ultimately show ?thesis by simp
      qed
    qed
  qed
qed

subsection \<open>Requests\<close>

definition row_ok :: "gotime \<Rightarrow> request_row \<Rightarrow> bool" where
  "row_ok t r \<longleftrightarrow> validDelegationID (rq_id r) \<and> rq_created r \<le> t \<and> rq_expires r \<le> rq_created r + 10 * Minute
     \<and> (case rq_status r of
          ReqPending \<Rightarrow> rq_ns r = [] \<and> rq_tokenid r = None \<and> rq_decided r = None
        | ReqRejected \<Rightarrow> rq_tokenid r = None \<and> (\<exists>d \<le> t. rq_decided r = Some d)
        | ReqApproved \<Rightarrow> (\<exists>d \<le> t. rq_decided r = Some d \<and> d < rq_expires r))"

lemma row_ok_later: "row_ok t r \<Longrightarrow> t \<le> now \<Longrightarrow> row_ok now r"
  unfolding row_ok_def by (cases "rq_status r") auto

text \<open>The token of an approved request: the approver's, for as long as was approved and at most a day.\<close>

definition token_for :: "request_row \<Rightarrow> token_row \<Rightarrow> bool" where
  "token_for r t \<longleftrightarrow> rq_tokenid r = Some (tk_id t) \<and> tk_ns t = rq_ns r \<and> tk_kind t = ''delegated''
     \<and> tk_hash t = rq_token r
     \<and> (\<exists>d e. rq_decided r = Some d \<and> tk_expires t = Some e \<and> d + Minute \<le> e \<and> e \<le> d + MaxGrantMinutes * Minute)"

lemma token_for_same: "token_for r t \<Longrightarrow> same_token t t' \<Longrightarrow> token_for r t' \<and> tk_expires t' = tk_expires t"
  by (auto simp: token_for_def same_token_def)

definition audit_for :: "request_row \<Rightarrow> audit_row \<Rightarrow> bool" where
  "audit_for r a \<longleftrightarrow> au_ns a = rq_ns r \<and> au_token a = rq_tokenid r \<and> au_event a = approval_event (rq_id r)"

definition devices_for :: "request_row \<Rightarrow> device_ref list \<Rightarrow> bool" where
  "devices_for r ds \<longleftrightarrow> 1 \<le> length ds \<and> length ds \<le> maxDelegationDevices \<and> distinct (map d_id ds)
     \<and> (\<forall>d \<in> set ds. d_namespace d = rq_ns r \<and> ValidFingerprint (d_fingerprint d))"

definition jobs_of :: "database \<Rightarrow> string \<Rightarrow> nat" where
  "jobs_of db i = hits (\<lambda>j. jb_grant j = i) (djobs db)"

definition grant_ok :: "database \<Rightarrow> request_row \<Rightarrow> bool" where
  "grant_ok db r \<longleftrightarrow> ValidFingerprint (rq_controller r) \<and> rq_ns r \<noteq> []
     \<and> (\<exists>t \<in> set (tokens db). token_for r t
          \<and> int (jobs_of db (rq_id r)) \<le> MaxJobs (GrantedDuration (rq_decided r) (tk_expires t)))
     \<and> (\<exists>a \<in> set (audits db). audit_for r a)
     \<and> devices_for r (grant_devices db (rq_id r))"

definition approved_at :: "database \<Rightarrow> string \<Rightarrow> bool" where
  "approved_at db i \<longleftrightarrow> (\<exists>r \<in> set (drequests db). rq_id r = i \<and> rq_status r = ReqApproved)"

definition requests_ok :: "gotime \<Rightarrow> database \<Rightarrow> bool" where
  "requests_ok t db \<longleftrightarrow>
     distinct (map rq_id (drequests db)) \<and> distinct (map rq_ticket (drequests db))
     \<and> (\<forall>r \<in> set (drequests db). row_ok t r \<and> (rq_status r = ReqApproved \<longrightarrow> grant_ok db r))
     \<and> (\<forall>r \<in> set (drequests db). \<forall>q \<in> set (drequests db). rq_tokenid r \<noteq> None \<and> rq_tokenid r = rq_tokenid q \<longrightarrow> rq_id r = rq_id q)
     \<and> (\<forall>g \<in> set (gdevices db). approved_at db (gd_grant g))
     \<and> (\<forall>j \<in> set (djobs db). approved_at db (jb_grant j))"

lemma grant_keep:
  assumes "grant_ok db r"
    "\<And>t. t \<in> set (tokens db) \<Longrightarrow> token_for r t \<Longrightarrow> \<exists>t' \<in> set (tokens db'). same_token t t'"
    "\<And>a. a \<in> set (audits db) \<Longrightarrow> \<exists>b \<in> set (audits db'). same_audit a b"
    "grant_devices db' (rq_id r) = grant_devices db (rq_id r)"
    "jobs_of db' (rq_id r) \<le> jobs_of db (rq_id r)"
  shows "grant_ok db' r"
proof -
  obtain t where t: "t \<in> set (tokens db)" "token_for r t"
    "int (jobs_of db (rq_id r)) \<le> MaxJobs (GrantedDuration (rq_decided r) (tk_expires t))"
    using assms(1) unfolding grant_ok_def by blast
  obtain t' where t': "t' \<in> set (tokens db')" "same_token t t'" using assms(2) t by blast
  have "token_for r t' \<and> tk_expires t' = tk_expires t" using token_for_same t(2) t'(2) .
  then have "\<exists>t \<in> set (tokens db'). token_for r t
      \<and> int (jobs_of db' (rq_id r)) \<le> MaxJobs (GrantedDuration (rq_decided r) (tk_expires t))"
    using t(3) t'(1) assms(5) by (intro bexI [of _ t']) auto
  moreover have "\<exists>a \<in> set (audits db'). audit_for r a"
    using assms(1,3) unfolding grant_ok_def same_audit_def audit_for_def by metis
  ultimately show ?thesis using assms(1,4) by (simp add: grant_ok_def)
qed

lemma not_approved:
  assumes "requests_ok t db" "\<not> approved_at db i"
  shows "grant_devices db i = []" "jobs_of db i = 0"
  using assms by (auto simp: requests_ok_def grant_devices_def jobs_of_def hits_def filter_empty_conv)

lemma approved_row:
  "requests_ok t db \<Longrightarrow> r \<in> set (drequests db) \<Longrightarrow> approved_at db (rq_id r) \<longleftrightarrow> rq_status r = ReqApproved"
  unfolding requests_ok_def approved_at_def by (auto simp: distinct_map inj_on_def)

lemma tokenid_row:
  assumes "requests_ok t db" "r \<in> set (drequests db)"
  shows "rq_tokenid r \<noteq> None \<longleftrightarrow> rq_status r = ReqApproved"
proof -
  have "row_ok t r" "rq_status r = ReqApproved \<Longrightarrow> grant_ok db r" using assms by (auto simp: requests_ok_def)
  then show ?thesis by (cases "rq_status r") (auto simp: row_ok_def grant_ok_def token_for_def)
qed


text \<open>A step that leaves the rows of requests, granted devices and jobs alone.\<close>

lemma requests_quiet:
  assumes ok: "requests_ok t db" and w: "TRequests \<notin> writes c" "TGDevices \<notin> writes c" "TJobs \<notin> writes c"
    and le: "t \<le> now"
  shows "requests_ok now (exec_call x now c db)"
proof -
  let ?d = "exec_call x now c db"
  have nc: "\<forall>r l. c \<noteq> CCleanup r l" using w by auto
  have same: "drequests ?d = drequests db" "gdevices ?d = gdevices db" "djobs ?d = djobs db"
    using w frame_drequests frame_gdevices frame_djobs by auto
  have "grant_ok ?d r" if "grant_ok db r" for r
    by (rule grant_keep [OF that tokens_kept [OF nc] audits_kept]) (auto simp: grant_devices_def jobs_of_def same)
  moreover have "approved_at ?d = approved_at db" by (simp add: approved_at_def same fun_eq_iff)
  ultimately show ?thesis using ok row_ok_later [OF _ le] unfolding requests_ok_def same by metis
qed

text \<open>What the loop of an approval adds: one granted device for each one named, all of the approver.\<close>

lemma grant_loop_added:
  "grant_loop i ns fps ds db = Inr db' \<Longrightarrow>
    gdevices db' = gdevices db @ map (\<lambda>dev. \<lparr>gd_grant = i, gd_dev = \<lparr>d_namespace = ns, d_id = dev, d_fingerprint = fps dev\<rparr>\<rparr>) ds"
proof (induction i ns fps ds db rule: grant_loop.induct)
  case (2 i ns fps dev ds db)
  then obtain d actual where d: "sel (\<lambda>d. device_at ns dev d \<and> dv_uses d) (devices db) = Some d" "dv_fp d = Some actual"
    "actual = fps dev" "\<not> (\<exists>g \<in> set (gdevices db). gd_grant g = i \<and> d_id (gd_dev g) = dev)"
    "grant_loop i ns fps ds (db\<lparr>gdevices := gdevices db @ [\<lparr>gd_grant = i,
       gd_dev = \<lparr>d_namespace = ns, d_id = dev, d_fingerprint = actual\<rparr>\<rparr>]\<rparr>) = Inr db'"
    by (auto split: option.splits if_splits)
  from 2(1) [OF d(1,2) _ d(4,5)] d(3) show ?case by simp
qed simp

lemma MaxJobs_ge_one: "1 \<le> MaxJobs g"
  using MaxJobs_bounds [of g] by (simp add: MinJobsPerGrant_def)

lemma requests_approve:
  assumes ok: "requests_ok t db" "token_ok db" and le: "t \<le> now"
    and ap: "ApproveDelegation x now p n db = Inr (v, db')"
  shows "requests_ok now db'"
  using ap
proof (cases rule: ApproveDelegation_elim)
  case (1 r gs)
  let ?g = "\<lambda>q. q\<lparr>rq_status := ReqApproved, rq_ns := p_ns p, rq_tokenid := Some (token_seq db), rq_decided := Some now\<rparr>"
  let ?t = "\<lparr>tk_id = token_seq db, tk_ns = p_ns p, tk_kind = ''delegated'', tk_hash = rq_token r,
          tk_label = rq_label r, tk_expires = Some (now + p_minutes p * Minute), tk_revoked = None\<rparr>"
  have r: "r \<in> set (drequests db)" "rq_id r = p_request p" using sel_Some [OF 1(2) [unfolded request_at_def]] by simp_all
  have uniq: "q = r" if "q \<in> set (drequests db)" "rq_id q = p_request p" for q
    using ok(1) that r by (auto simp: requests_ok_def distinct_map inj_on_def)
  have gs: "gs = map (\<lambda>dev. \<lparr>gd_grant = p_request p, gd_dev = \<lparr>d_namespace = p_ns p, d_id = dev, d_fingerprint = p_fps p dev\<rparr>\<rparr>)
      (sort (p_devices p))"
    using grant_loop_added [OF 1(6)] by simp
  have na: "\<not> approved_at db (p_request p)" using approved_row [OF ok(1) r(1)] 1(3) r(2) by simp
  have empty: "filter (\<lambda>g. gd_grant g = p_request p) (gdevices db) = []" "jobs_of db (p_request p) = 0"
    using not_approved [OF ok(1) na] by (simp_all add: grant_devices_def)
  have valid: "p_ns p \<noteq> []" "1 \<le> p_minutes p" "p_minutes p \<le> MaxGrantMinutes" "1 \<le> length (p_devices p)"
    "length (p_devices p) \<le> maxDelegationDevices" "ValidFingerprint (p_controller p)" "distinct (p_devices p)"
    "\<forall>d \<in> set (p_devices p). ValidFingerprint (p_fps p d)"
    using 1(1) by (auto simp: approval_valid_def guardNamespace_def list_all_iff)
  have dr: "drequests db' = upd (\<lambda>q. rq_id q = p_request p) ?g (drequests db)"
    and gd: "gdevices db' = gdevices db @ gs" and dj: "djobs db' = djobs db" and tk: "tokens db' = tokens db @ [?t]"
    and au: "audits db' = audits db @ [\<lparr>au_ns = p_ns p, au_device = [], au_token = Some (token_seq db),
          au_event = approval_event (p_request p)\<rparr>]"
    by (simp_all add: 1(8))
  have setr: "set (drequests db') = insert (?g r) {q \<in> set (drequests db). rq_id q \<noteq> p_request p}"
  proof -
    have "{q \<in> set (drequests db). rq_id q = p_request p} = {r}" using r uniq by blast
    then show ?thesis unfolding dr set_upd by simp
  qed
  have new: "grant_ok db' (?g r)"
  proof -
    have "filter (\<lambda>g. gd_grant g = p_request p) gs = gs" by (auto simp: gs filter_id_conv)
    then have ds: "grant_devices db' (p_request p)
        = map (\<lambda>dev. \<lparr>d_namespace = p_ns p, d_id = dev, d_fingerprint = p_fps p dev\<rparr>) (sort (p_devices p))"
      by (simp add: grant_devices_def gd empty gs comp_def)
    have "devices_for (?g r) (grant_devices db' (p_request p))"
      using valid by (auto simp: devices_for_def ds comp_def)
    moreover have "token_for (?g r) ?t" using valid by (auto simp: token_for_def)
    moreover have "int (jobs_of db' (p_request p)) \<le> MaxJobs m" for m
      using empty(2) MaxJobs_ge_one [of m] by (simp add: jobs_of_def dj)
    ultimately show ?thesis using valid r 1(5) by (auto simp: grant_ok_def tk au audit_for_def)
  qed
  have old: "grant_ok db' q" if "grant_ok db q" "rq_id q \<noteq> p_request p" for q
  proof (rule grant_keep [OF that(1)])
    show "\<exists>t' \<in> set (tokens db'). same_token t t'" if "t \<in> set (tokens db)" for t
      using that by (intro bexI [of _ t]) (auto simp: tk)
    show "\<exists>b \<in> set (audits db'). same_audit a b" if "a \<in> set (audits db)" for a
      using that by (intro bexI [of _ a]) (auto simp: au same_audit_def)
    show "grant_devices db' (rq_id q) = grant_devices db (rq_id q)"
      using that(2) by (auto simp: grant_devices_def gd gs filter_empty_conv)
  qed (simp add: jobs_of_def dj)
  have seq: "rq_tokenid q \<noteq> Some (token_seq db)" if "q \<in> set (drequests db)" for q
  proof
    assume a: "rq_tokenid q = Some (token_seq db)"
    then have "grant_ok db q" using ok(1) that tokenid_row [OF ok(1) that] by (auto simp: requests_ok_def)
    then show False using a ok(2) by (auto simp: grant_ok_def token_for_def token_ok_def)
  qed
  have appr: "approved_at db' i" if "approved_at db i" for i
    using that na by (auto simp: approved_at_def setr)
  have "distinct (map rq_id (drequests db'))" "distinct (map rq_ticket (drequests db'))"
    using ok(1) by (simp_all add: dr map_upd requests_ok_def)
  moreover have "row_ok now q \<and> (rq_status q = ReqApproved \<longrightarrow> grant_ok db' q)" if "q \<in> set (drequests db')" for q
  proof (cases "q = ?g r")
    case True
    have "row_ok t r" using ok(1) r by (simp add: requests_ok_def)
    then have "row_ok now (?g r)" using le 1(4) by (auto simp: row_ok_def)
    then show ?thesis using new True by simp
  next
    case False
    then have "q \<in> set (drequests db)" "rq_id q \<noteq> p_request p" using that by (auto simp: setr)
    then show ?thesis using ok(1) row_ok_later [OF _ le] old by (simp add: requests_ok_def)
  qed
  moreover have "rq_id q = rq_id s" if "q \<in> set (drequests db')" "s \<in> set (drequests db')" "rq_tokenid q \<noteq> None"
      "rq_tokenid q = rq_tokenid s" for q s
  proof -
    have cases: "u = ?g r \<or> u \<in> set (drequests db) \<and> rq_tokenid u \<noteq> Some (token_seq db)" if "u \<in> set (drequests db')" for u
      using that seq by (auto simp: setr)
    have new: "rq_tokenid (?g r) = Some (token_seq db)" by simp
    show ?thesis
    proof (cases "q = ?g r \<or> s = ?g r")
      case True
      then have "q = ?g r" "s = ?g r" using cases [OF that(1)] cases [OF that(2)] that(4) new by metis+
      then show ?thesis by simp
    next
      case False
      then have "q \<in> set (drequests db)" "s \<in> set (drequests db)" using cases that(1,2) by blast+
      then show ?thesis using that(3,4) ok(1) unfolding requests_ok_def by blast
    qed
  qed
  moreover have "approved_at db' (gd_grant g)" if "g \<in> set (gdevices db')" for g
  proof (cases "g \<in> set (gdevices db)")
    case True
    then show ?thesis using ok(1) appr by (simp add: requests_ok_def)
  next
    case False
    then have "gd_grant g = p_request p" using that by (auto simp: gd gs)
    moreover have "?g r \<in> set (drequests db')" by (simp add: setr)
    ultimately show ?thesis using r(2) unfolding approved_at_def by (intro bexI [of _ "?g r"]) simp_all
  qed
  moreover have "approved_at db' (jb_grant j)" if "j \<in> set (djobs db')" for j
    using that ok(1) appr by (simp add: dj requests_ok_def)
  ultimately show ?thesis unfolding requests_ok_def by blast
qed

lemma requests_create:
  assumes ok: "requests_ok t db" and le: "t \<le> now" and cr: "CreateDelegation now n db = Inr (v, db')"
  shows "requests_ok now db'"
proof -
  have later: "requests_ok now db" using ok row_ok_later [OF _ le] unfolding requests_ok_def by blast
  from cr show ?thesis
  proof (cases rule: CreateDelegation_elim)
    case 1
    then show ?thesis using later by simp
  next
    case (2 r)
    have g: "grant_ok db' = grant_ok db" by (simp add: 2(1) grant_ok_def grant_devices_def jobs_of_def fun_eq_iff)
    have a: "approved_at db' i" if "approved_at db i" for i using that by (auto simp: approved_at_def 2(1))
    have ro: "row_ok now r" using 2 by (simp add: row_ok_def)
    have fresh: "rq_id r \<notin> rq_id ` set (drequests db)" "rq_ticket r \<notin> rq_ticket ` set (drequests db)" using 2(2,3,15) by (metis imageE)+
    have dr: "drequests db' = drequests db @ [r]" and gd: "gdevices db' = gdevices db" and dj: "djobs db' = djobs db"
      by (simp_all add: 2(1))
    have "\<forall>q \<in> set (drequests db'). \<forall>s \<in> set (drequests db'). rq_tokenid q \<noteq> None \<and> rq_tokenid q = rq_tokenid s
        \<longrightarrow> rq_id q = rq_id s"
    proof (intro ballI impI)
      fix q s assume "q \<in> set (drequests db')" "s \<in> set (drequests db')" "rq_tokenid q \<noteq> None \<and> rq_tokenid q = rq_tokenid s"
      moreover from this have "q \<in> set (drequests db)" "s \<in> set (drequests db)" using 2(8) by (auto simp: dr)
      ultimately show "rq_id q = rq_id s" using later unfolding requests_ok_def by blast
    qed
    moreover have "distinct (map rq_id (drequests db'))" "distinct (map rq_ticket (drequests db'))"
      using later fresh by (simp_all add: dr requests_ok_def)
    moreover have "\<forall>q \<in> set (drequests db'). row_ok now q \<and> (rq_status q = ReqApproved \<longrightarrow> grant_ok db q)"
      using later ro 2(6) by (simp add: dr requests_ok_def)
    moreover have "\<forall>g \<in> set (gdevices db). approved_at db' (gd_grant g)" "\<forall>j \<in> set (djobs db). approved_at db' (jb_grant j)"
      using later a unfolding requests_ok_def by blast+
    ultimately show ?thesis unfolding requests_ok_def g gd dj by blast
  qed
qed

lemma requests_reject:
  assumes ok: "requests_ok t db" and le: "t \<le> now" and rj: "RejectDelegation x now i ns db = Inr (u, db')"
  shows "requests_ok now db'"
proof -
  have later: "requests_ok now db" using ok row_ok_later [OF _ le] unfolding requests_ok_def by blast
  let ?P = "\<lambda>r. rq_id r = i \<and> rq_status r = ReqPending \<and> now < rq_expires r \<and> rq_ns r = []"
  let ?f = "\<lambda>r. r\<lparr>rq_status := ReqRejected, rq_ns := ns, rq_decided := Some now\<rparr>"
  consider "db' = db" | "db' = db\<lparr>drequests := upd ?P ?f (drequests db)\<rparr>"
    using rj by (auto simp: RejectDelegation_def Let_def split: if_splits sum.splits)
  then show ?thesis
  proof cases
    case 1
    then show ?thesis using later by simp
  next
    case 2
    have dr: "drequests db' = upd ?P ?f (drequests db)" and gd: "gdevices db' = gdevices db" and dj: "djobs db' = djobs db"
      by (simp_all add: 2)
    have g: "grant_ok db' = grant_ok db" by (simp add: 2 grant_ok_def grant_devices_def jobs_of_def fun_eq_iff)
    have a: "approved_at db' j" if "approved_at db j" for j
    proof -
      from that obtain r where "r \<in> set (drequests db)" "rq_id r = j" "rq_status r = ReqApproved"
        by (auto simp: approved_at_def)
      then show ?thesis unfolding approved_at_def dr set_upd by (intro bexI [of _ r]) auto
    qed
    have from_old: "\<exists>q \<in> set (drequests db). rq_tokenid r = rq_tokenid q \<and> rq_id r = rq_id q
        \<and> row_ok now r \<and> (rq_status r = ReqApproved \<longrightarrow> grant_ok db r)" if "r \<in> set (drequests db')" for r
      using that unfolding dr
    proof (rule upd_from)
      fix q assume "q \<in> set (drequests db)" "r = q"
      then show ?thesis using later by (intro bexI [of _ q]) (simp_all add: requests_ok_def)
    next
      fix q assume q: "q \<in> set (drequests db)" "?P q" "r = ?f q"
      moreover have "row_ok now q" using later q(1) by (simp add: requests_ok_def)
      ultimately show ?thesis by (intro bexI [of _ q]) (simp_all add: row_ok_def)
    qed
    have "distinct (map rq_id (drequests db'))" "distinct (map rq_ticket (drequests db'))"
      using ok by (simp_all add: dr map_upd requests_ok_def)
    moreover have "\<forall>r \<in> set (drequests db'). \<forall>q \<in> set (drequests db'). rq_tokenid r \<noteq> None \<and> rq_tokenid r = rq_tokenid q
        \<longrightarrow> rq_id r = rq_id q"
    proof (intro ballI impI)
      fix r q assume rq: "r \<in> set (drequests db')" "q \<in> set (drequests db')" "rq_tokenid r \<noteq> None \<and> rq_tokenid r = rq_tokenid q"
      obtain r' where r': "r' \<in> set (drequests db)" "rq_tokenid r = rq_tokenid r'" "rq_id r = rq_id r'"
        using from_old [OF rq(1)] by blast
      obtain q' where q': "q' \<in> set (drequests db)" "rq_tokenid q = rq_tokenid q'" "rq_id q = rq_id q'"
        using from_old [OF rq(2)] by blast
      have "rq_tokenid r' \<noteq> None \<and> rq_tokenid r' = rq_tokenid q' \<longrightarrow> rq_id r' = rq_id q'"
        using ok r'(1) q'(1) unfolding requests_ok_def by blast
      then show "rq_id r = rq_id q" using rq(3) r'(2,3) q'(2,3) by metis
    qed
    moreover have "\<forall>r \<in> set (drequests db'). row_ok now r \<and> (rq_status r = ReqApproved \<longrightarrow> grant_ok db r)"
      using from_old by blast
    moreover have "\<forall>g \<in> set (gdevices db). approved_at db' (gd_grant g)" "\<forall>j \<in> set (djobs db). approved_at db' (jb_grant j)"
      using later a unfolding requests_ok_def by blast+
    ultimately show ?thesis unfolding requests_ok_def g gd dj by blast
  qed
qed

lemma requests_begin:
  assumes ok: "requests_ok t db" "token_ok db" and le: "t \<le> now" and b: "BeginJob now grant rid h pl js rnd db = Inr ((j, fresh), db')"
  shows "requests_ok now db'"
proof -
  have later: "requests_ok now db" using ok row_ok_later [OF _ le] unfolding requests_ok_def by blast
  from b show ?thesis
  proof (cases rule: BeginJob_elim)
    case 1
    then show ?thesis using later by simp
  next
    case (2 v)
    obtain r where s: "sel (\<lambda>r. rq_id r = grant) (drequests db) = Some r" using 2(3)
      by (auto simp: readDelegation_def split: option.splits)
    then have r: "r \<in> set (drequests db)" "rq_id r = grant" using sel_Some [OF s] by simp_all
    have v: "rv_status v = view_status now db r" "rv_decided v = rq_decided r"
        "rv_expires v = (case token_of db r of None \<Rightarrow> None | Some t \<Rightarrow> tk_expires t)"
      using 2(3) s by (auto simp: readDelegation_def)
    have st: "rq_status r = ReqApproved" using 2(4) v(1)
      by (cases "rq_status r") (auto simp: view_status_def Let_def split: if_splits)
    then have gr: "grant_ok db r" using ok(1) r(1) by (simp add: requests_ok_def)
    then obtain t where t: "t \<in> set (tokens db)" "token_for r t" by (auto simp: grant_ok_def)
    have tok: "u = t" if "u \<in> set (tokens db)" "rq_tokenid r = Some (tk_id u)" for u
      using that t ok(2) by (auto simp: token_for_def token_ok_def distinct_map inj_on_def)
    have "token_of db r = Some t"
    proof (cases "token_of db r")
      case None
      then show ?thesis using t by (auto simp: token_of_def token_for_def sel_None)
    next
      case (Some u)
      then have "sel (\<lambda>u. tk_id u = tk_id t) (tokens db) = Some u" using t(2) by (simp add: token_of_def token_for_def)
      then have "u = t" using tok t(2) sel_Some by (metis (mono_tags, lifting) token_for_def)
      then show ?thesis using Some by simp
    qed
    then have bound: "int (jobs_of db grant) < MaxJobs (GrantedDuration (rq_decided r) (tk_expires t))"
      using 2(5) v by (simp add: jobs_of_def granted_def)
    have dr: "drequests db' = drequests db" and gd: "gdevices db' = gdevices db" and dj: "djobs db' = djobs db @ [j]"
      and tk: "tokens db' = tokens db" and au: "audits db' = audits db" by (simp_all add: 2(13))
    have gds: "grant_devices db' = grant_devices db" by (simp add: grant_devices_def gd fun_eq_iff)
    have "grant_ok db' q" if q: "grant_ok db q" "q \<in> set (drequests db)" for q
    proof (cases "rq_id q = grant")
      case False
      then have "jobs_of db' (rq_id q) = jobs_of db (rq_id q)" by (simp add: jobs_of_def dj 2(7))
      then show ?thesis using q by (simp add: grant_ok_def tk au gds)
    next
      case True
      then have "q = r" using ok(1) q(2) r by (auto simp: requests_ok_def distinct_map inj_on_def)
      moreover have "jobs_of db' grant = Suc (jobs_of db grant)" by (simp add: jobs_of_def dj 2(7))
      ultimately have "\<exists>t \<in> set (tokens db'). token_for q t
          \<and> int (jobs_of db' (rq_id q)) \<le> MaxJobs (GrantedDuration (rq_decided q) (tk_expires t))"
        using bound t r(2) by (intro bexI [of _ t]) (simp_all add: tk)
      then show ?thesis using q by (simp add: grant_ok_def tk au gds)
    qed
    moreover have "approved_at db' = approved_at db" by (simp add: approved_at_def dr fun_eq_iff)
    moreover have "approved_at db (jb_grant j)" using r st 2(7) by (auto simp: approved_at_def)
    ultimately show ?thesis using later unfolding requests_ok_def by (simp add: dr gd dj) blast
  qed
qed

lemma requests_finish:
  assumes ok: "requests_ok t db" and le: "t \<le> now" and f: "FinishJob grant i state result js db = Inr (u, db')"
  shows "requests_ok now db'"
proof -
  have later: "requests_ok now db" using ok row_ok_later [OF _ le] unfolding requests_ok_def by blast
  obtain P where db': "db' = db\<lparr>djobs := upd P (\<lambda>j. j\<lparr>jb_state := state, jb_result := Some result\<rparr>) (djobs db)\<rparr>"
    using f by (auto simp: FinishJob_def Let_def split: if_splits sum.splits)
  have "map jb_grant (djobs db') = map jb_grant (djobs db)" by (simp add: db' map_upd)
  moreover have "jobs_of d = (\<lambda>i. length (filter (\<lambda>g. g = i) (map jb_grant (djobs d))))" for d
    by (simp add: jobs_of_def hits_def filter_map comp_def fun_eq_iff)
  ultimately have h: "jobs_of db' = jobs_of db" by (simp only:)
  have "tokens db' = tokens db" "audits db' = audits db" "grant_devices db' = grant_devices db"
    by (simp_all add: db' grant_devices_def fun_eq_iff)
  then have "grant_ok db' = grant_ok db" by (simp add: grant_ok_def h fun_eq_iff)
  moreover have "approved_at db' = approved_at db" by (simp add: db' approved_at_def fun_eq_iff)
  moreover have "\<forall>j \<in> set (djobs db'). approved_at db (jb_grant j)"
    using later by (auto simp: db' requests_ok_def elim!: upd_from)
  moreover have "drequests db' = drequests db" "gdevices db' = gdevices db" by (simp_all add: db')
  ultimately show ?thesis using later unfolding requests_ok_def by metis
qed

lemma requests_cleanup:
  assumes ok: "requests_ok t db" "token_ok db" and le: "t \<le> now" 
  shows "requests_ok now (snd (cleanupDelegationBatch now' cutoff locked db))"
proof -
  let ?d = "snd (cleanupDelegationBatch now' cutoff locked db)"
  let ?rows = "cleanup_rows now' cutoff locked db"
  have later: "requests_ok now db" using ok row_ok_later [OF _ le] unfolding requests_ok_def by blast
  show ?thesis
  proof (cases "map rq_id ?rows = []")
    case True
    then show ?thesis using later by (simp add: cleanupDelegationBatch_def Let_def)
  next
    case False
    let ?is = "set (map rq_id ?rows)"
    let ?ks = "concat (map (\<lambda>r. case token_of db r of None \<Rightarrow> [] | Some t \<Rightarrow> [tk_id t]) ?rows)"
    have sub: "set ?rows \<subseteq> set (drequests db)"
      unfolding cleanup_rows_def by (rule subset_trans [OF set_take_subset]) auto
    have dr: "drequests ?d = DeleteFunc (\<lambda>r. rq_id r \<in> ?is) (drequests db)"
      and gd: "gdevices ?d = DeleteFunc (\<lambda>g. gd_grant g \<in> ?is) (gdevices db)"
      and dj: "djobs ?d = DeleteFunc (\<lambda>j. jb_grant j \<in> ?is) (djobs db)"
      and tk: "tokens ?d = DeleteFunc (\<lambda>t. tk_id t \<in> set ?ks \<and> tk_kind t = ''delegated'') (tokens db)"
      and au: "audits ?d = audits db"
      using False by (simp_all add: cleanupDelegationBatch_def Let_def)
    have kept: "grant_ok ?d r" if r: "grant_ok db r" "r \<in> set (drequests db)" "rq_id r \<notin> ?is" for r
    proof (rule grant_keep [OF r(1)])
      fix s assume s: "s \<in> set (tokens db)" "token_for r s"
      have "tk_id s \<notin> set ?ks"
      proof
        assume "tk_id s \<in> set ?ks"
        then obtain q u where q: "q \<in> set ?rows" "token_of db q = Some u" "tk_id s = tk_id u"
          by (auto split: option.splits dest: sym)
        obtain k where k: "rq_tokenid q = Some k" "sel (\<lambda>t. tk_id t = k) (tokens db) = Some u" using q(2)
          by (auto simp: token_of_def split: option.splits)
        have same: "rq_tokenid r \<noteq> None \<and> rq_tokenid r = rq_tokenid q" using k sel_Some [OF k(2)] q(3) s(2) by (simp add: token_for_def)
        have "q \<in> set (drequests db)" using q(1) sub by blast
        then have "rq_id r = rq_id q" using ok(1) r(2) same unfolding requests_ok_def by blast
        then show False using r(3) q(1) by auto
      qed
      then show "\<exists>s' \<in> set (tokens ?d). same_token s s'" using s(1) by (intro bexI [of _ s]) (auto simp: tk)
    next
      fix a assume "a \<in> set (audits db)"
      then show "\<exists>b \<in> set (audits ?d). same_audit a b" by (auto simp: au same_audit_def)
    next
      show "grant_devices ?d (rq_id r) = grant_devices db (rq_id r)"
        unfolding grant_devices_def gd DeleteFunc_def filter_filter
        by (rule arg_cong [of _ _ "map gd_dev"], rule filter_cong [OF refl]) (use r(3) in \<open>metis\<close>)
    next
      show "jobs_of ?d (rq_id r) \<le> jobs_of db (rq_id r)"
        unfolding jobs_of_def hits_def dj DeleteFunc_def filter_filter
        by (rule order_eq_refl, rule arg_cong [of _ _ size], rule filter_cong [OF refl]) (use r(3) in \<open>metis\<close>)
    qed
    have appr: "approved_at ?d i" if "approved_at db i" "i \<notin> ?is" for i
      using that by (auto simp: approved_at_def dr)
    show ?thesis using later kept appr unfolding requests_ok_def
      by (simp add: dr gd dj del: set_map not_None_eq) blast
  qed
qed

lemma requests_step:
  assumes ok: "requests_ok t db" "token_ok db" and le: "t \<le> now"
  shows "requests_ok now (exec_call x now c db)"
proof -
  have later: "requests_ok now db" using ok row_ok_later [OF _ le] unfolding requests_ok_def by blast
  note commit = commit_cases [where Q = "requests_ok now", OF _ later]
  consider "TRequests \<notin> writes c \<and> TGDevices \<notin> writes c \<and> TJobs \<notin> writes c" | n where "c = CCreate n"
    | p n where "c = CApprove p n" | i ns where "c = CReject i ns" | g r h p j y where "c = CBegin g r h p j y"
    | g i s r j where "c = CFinish g i s r j" | r l where "c = CCleanup r l"
    by (cases c) auto
  then show ?thesis
  proof cases
    case 1
    then show ?thesis using requests_quiet [OF ok(1) _ _ _ le] by blast
  next
    case (2 n)
    show ?thesis unfolding 2 exec_call.simps by (rule commit) (rule requests_create [OF ok(1) le])
  next
    case (3 p n)
    show ?thesis unfolding 3 exec_call.simps by (rule commit) (rule requests_approve [OF ok le])
  next
    case (4 i ns)
    show ?thesis unfolding 4 exec_call.simps by (rule commit) (rule requests_reject [OF ok(1) le])
  next
    case (5 g r h p j y)
    show ?thesis unfolding 5 exec_call.simps
    proof (rule commit)
      fix q db' assume "BeginJob now g r h p j y db = Inr (q, db')"
      then show "requests_ok now db'" by (cases q) (auto intro: requests_begin [OF ok le])
    qed
  next
    case (6 g i s r j)
    show ?thesis unfolding 6 exec_call.simps by (rule commit) (rule requests_finish [OF ok(1) le])
  next
    case (7 r l)
    then show ?thesis using requests_cleanup [OF ok le] later by simp
  qed
qed

end
