(* ===== verification/DatabaseInvariant.thy ===== *)
theory DatabaseInvariant
  imports AccountInvariant DelegationInvariant
begin

text \<open>
  Everything that holds in all states of the account database, in one invariant, and the
  contract of \<open>RunInvariant\<close> interpreted on the runs of the database. What never changes
  again (a decision, a revocation, a used invitation) is stated for two states of a run.
\<close>

subsection \<open>Scoped tokens and the ledger of jobs\<close>

definition scoped_ok :: "database \<Rightarrow> bool" where
  "scoped_ok db \<longleftrightarrow> (\<forall>s \<in> set (scopeds db). sc_token s < token_seq db \<and> validScopedCommand (sc_command s)
     \<and> (\<forall>r \<in> set (drequests db). rq_tokenid r \<noteq> Some (sc_token s))
     \<and> (\<forall>t \<in> set (tokens db). tk_id t = sc_token s \<longrightarrow> tk_kind t = ''delegated'' \<and> tk_ns t = sc_ns s \<and> tk_expires t \<noteq> None))"

definition ledger_ok :: "database \<Rightarrow> bool" where
  "ledger_ok db \<longleftrightarrow> distinct (map (\<lambda>j. (jb_grant j, jb_request j)) (djobs db)) \<and> distinct (map jb_id (djobs db))"

lemma ledger_step: "ledger_ok db \<Longrightarrow> ledger_ok (exec_call x now c db)"
proof -
  assume ok: "ledger_ok db"
  note commit = commit_cases [where Q = ledger_ok, OF _ ok]
  consider "TJobs \<notin> writes c" | g r h p j y where "c = CBegin g r h p j y"
    | g i s r j where "c = CFinish g i s r j" | r l where "c = CCleanup r l"
    by (cases c) auto
  then show ?thesis
  proof cases
    case 1
    then show ?thesis using ok frame_djobs by (simp add: ledger_ok_def)
  next
    case (2 g r h p j y)
    show ?thesis unfolding 2 exec_call.simps
    proof (rule commit)
      fix q db' assume b: "BeginJob now g r h p j y db = Inr (q, db')"
      obtain jb fresh where "q = (jb, fresh)" by (cases q)
      from b [unfolded this] show "ledger_ok db'"
      proof (cases rule: BeginJob_elim)
        case (2 v)
        have "(jb_grant jb, jb_request jb) \<notin> (\<lambda>j. (jb_grant j, jb_request j)) ` set (djobs db)"
          using 2(2,7,8) by (auto simp: job_at_def sel_None)
        moreover have "jb_id jb \<notin> jb_id ` set (djobs db)" using 2(6) by (metis imageE)
        ultimately show ?thesis using ok by (simp add: ledger_ok_def 2(13))
      qed (use ok in simp)
    qed
  next
    case (3 g i s r j)
    show ?thesis unfolding 3 exec_call.simps
    proof (rule commit)
      fix q db' assume "FinishJob g i s r j db = Inr (q, db')"
      then have "\<exists>P. djobs db' = upd P (\<lambda>j. j\<lparr>jb_state := s, jb_result := Some r\<rparr>) (djobs db)"
        by (auto simp: FinishJob_def Let_def split: if_splits sum.splits)
      then show "ledger_ok db'" using ok by (auto simp: ledger_ok_def map_upd)
    qed
  next
    case (4 r l)
    then show ?thesis using ok by (simp add: cleanupDelegationBatch_def Let_def ledger_ok_def)
  qed
qed

text \<open>What the token of a request can be after a call: what it was, or one that is new.\<close>

lemma tokenids_from:
  assumes "r \<in> set (drequests (exec_call x now c db))" "rq_tokenid r \<noteq> None"
  shows "(\<exists>q \<in> set (drequests db). rq_tokenid q = rq_tokenid r) \<or> rq_tokenid r = Some (token_seq db) \<and> scopeds (exec_call x now c db) = scopeds db"
proof -
  let ?Q = "\<lambda>d. \<forall>r \<in> set (drequests d). rq_tokenid r \<noteq> None \<longrightarrow>
      (\<exists>q \<in> set (drequests db). rq_tokenid q = rq_tokenid r) \<or> rq_tokenid r = Some (token_seq db) \<and> scopeds d = scopeds db"
  have o: "?Q db" by blast
  note commit = commit_cases [where Q = ?Q, OF _ o]
  consider "TRequests \<notin> writes c" | n where "c = CCreate n" | p n where "c = CApprove p n" | i ns where "c = CReject i ns"
    | d l where "c = CCleanup d l"
    by (cases c) auto
  then have "?Q (exec_call x now c db)"
  proof cases
    case 1
    then show ?thesis using frame_drequests by auto
  next
    case (2 n)
    show ?thesis unfolding 2 exec_call.simps
    proof (rule commit)
      fix v db' assume "CreateDelegation now n db = Inr (v, db')"
      then show "?Q db'" by (cases rule: CreateDelegation_elim) auto
    qed
  next
    case (3 p n)
    show ?thesis unfolding 3 exec_call.simps
    proof (rule commit)
      fix v db' assume "ApproveDelegation x now p n db = Inr (v, db')"
      then show "?Q db'"
      proof (cases rule: ApproveDelegation_elim)
        case (1 r gs)
        have "scopeds db' = scopeds db" by (simp add: 1(8))
        then show ?thesis by (auto simp: 1(8) elim!: upd_from)
      qed
    qed
  next
    case (4 i ns)
    show ?thesis unfolding 4 exec_call.simps
    proof (rule commit)
      fix v db' assume "RejectDelegation x now i ns db = Inr (v, db')"
      then have "db' = db \<or> (\<exists>P. drequests db' = upd P (\<lambda>r. r\<lparr>rq_status := ReqRejected, rq_ns := ns, rq_decided := Some now\<rparr>) (drequests db))"
        by (auto simp: RejectDelegation_def Let_def split: if_splits sum.splits)
      then show "?Q db'" by (auto elim!: upd_from)
    qed
  next
    case (5 d l)
    then show ?thesis by (auto simp: cleanupDelegationBatch_def Let_def)
  qed
  then show ?thesis using assms by blast
qed

lemma scoped_step:
  assumes ok: "scoped_ok db" "token_ok db" "requests_ok t db"
  shows "scoped_ok (exec_call x now c db)"
proof -
  let ?d = "exec_call x now c db"
  have seq: "token_seq db \<le> token_seq ?d"
    and from_old: "u \<in> set (tokens ?d) \<Longrightarrow> (\<exists>t \<in> set (tokens db). same_token t u \<and> (tk_kind t = ''delegated'' \<longrightarrow> tk_expires u = tk_expires t))
         \<or> tk_id u = token_seq db" for u
  proof -
    show "token_seq db \<le> token_seq ?d"
    proof (cases "\<exists>r l. c = CCleanup r l")
      case True
      then show ?thesis using tokens_cleanup(2) by (metis order_refl)
    next
      case False
      then have "\<forall>r l. c \<noteq> CCleanup r l" by blast
      from tokens_step [OF this, of x now db] show ?thesis by (metis le_add1 order_refl)
    qed
    show "(\<exists>t \<in> set (tokens db). same_token t u \<and> (tk_kind t = ''delegated'' \<longrightarrow> tk_expires u = tk_expires t))
         \<or> tk_id u = token_seq db" if u: "u \<in> set (tokens ?d)" for u
    proof (cases "\<exists>r l. c = CCleanup r l")
      case True
      then obtain r l where c: "c = CCleanup r l" by blast
      obtain P where "tokens ?d = filter P (tokens db)" using tokens_cleanup(1) [of x now r l db] c by blast
      then have "u \<in> set (tokens db)" using u by simp
      then show ?thesis by (intro disjI1 bexI [of _ u]) simp_all
    next
      case False
      then have "\<forall>r l. c \<noteq> CCleanup r l" by blast
      from tokens_step [OF this, of x now db] obtain g new where g: "tokens ?d = map g (tokens db) @ new"
        "\<And>t. same_token t (g t)" "\<forall>t \<in> set new. tk_id t = token_seq db"
        by (metis empty_iff empty_set set_ConsD)
      then show ?thesis using u by (auto simp: same_token_def)
    qed
  qed
  have stay: "sc_token s < token_seq ?d \<and> (\<forall>t \<in> set (tokens ?d). tk_id t = sc_token s \<longrightarrow>
        tk_kind t = ''delegated'' \<and> tk_ns t = sc_ns s \<and> tk_expires t \<noteq> None)" if s: "s \<in> set (scopeds db)" for s
  proof
    have lt: "sc_token s < token_seq db" using ok(1) s by (simp add: scoped_ok_def)
    then show "sc_token s < token_seq ?d" using seq by simp
    show "\<forall>t \<in> set (tokens ?d). tk_id t = sc_token s \<longrightarrow> tk_kind t = ''delegated'' \<and> tk_ns t = sc_ns s \<and> tk_expires t \<noteq> None"
    proof (intro ballI impI)
      fix u assume u: "u \<in> set (tokens ?d)" "tk_id u = sc_token s"
      then obtain t where t: "t \<in> set (tokens db)" "same_token t u" "tk_kind t = ''delegated'' \<longrightarrow> tk_expires u = tk_expires t"
        using from_old [OF u(1)] lt by auto
      then have "tk_id t = sc_token s" using u(2) by (simp add: same_token_def)
      then have "tk_kind t = ''delegated'' \<and> tk_ns t = sc_ns s \<and> tk_expires t \<noteq> None"
        using ok(1) s t(1) by (simp add: scoped_ok_def)
      then show "tk_kind u = ''delegated'' \<and> tk_ns u = sc_ns s \<and> tk_expires u \<noteq> None"
        using t by (simp add: same_token_def)
    qed
  qed
  have req: "rq_tokenid r \<noteq> Some (sc_token s)" if "s \<in> set (scopeds db)" "r \<in> set (drequests ?d)" for s r
  proof
    assume a: "rq_tokenid r = Some (sc_token s)"
    then have "rq_tokenid r \<noteq> None" by simp
    from tokenids_from [OF that(2) this] show False using ok(1) that(1) a by (auto simp: scoped_ok_def)
  qed
  have cmd: "validScopedCommand (sc_command s)" if "s \<in> set (scopeds db)" for s
    using ok(1) that by (simp add: scoped_ok_def)
  show ?thesis
  proof (cases "\<exists>ns dev cmd l d r. c = CScoped ns dev cmd l d r")
    case False
    then have "TScopeds \<notin> writes c" by (cases c) auto
    then have "scopeds ?d = scopeds db" using frame_scopeds by simp
    then show ?thesis using stay req cmd by (simp add: scoped_ok_def)
  next
    case True
    then obtain ns dev cmd l d r where c: "c = CScoped ns dev cmd l d r" by blast
    show ?thesis
    proof (cases "IssueScopedToken x now ns dev cmd l d r db")
      case (Inl e)
      then show ?thesis using ok(1) by (simp add: c)
    next
      case (Inr q)
      obtain raw k db' where q: "IssueScopedToken x now ns dev cmd l d r db = Inr ((raw, k), db')"
        using Inr by (cases q; cases "fst q") auto
      then have e: "?d = db'" by (simp add: c)
      from q show ?thesis
      proof (cases rule: IssueScopedToken_elim)
        case (1 i dv fp t)
        let ?s = "\<lparr>sc_token = k, sc_ns = ns, sc_device = i, sc_fp = fp, sc_command = cmd\<rparr>"
        have sc: "scopeds ?d = scopeds db @ [?s]" and tk: "tokens ?d = tokens db @ [t]" and sq: "token_seq ?d = token_seq db + 1"
          and dr: "drequests ?d = drequests db"
          unfolding e by (simp_all add: 1(12))
        have "tk_id u \<noteq> k" if "u \<in> set (tokens db)" for u using ok(2) that 1(7) by (auto simp: token_ok_def)
        moreover have "rq_tokenid q \<noteq> Some k" if q: "q \<in> set (drequests db)" for q
        proof
          assume a: "rq_tokenid q = Some k"
          then have "rq_status q = ReqApproved" using tokenid_row [OF ok(3) q] by simp
          then have "grant_ok db q" using ok(3) q by (simp add: requests_ok_def)
          then show False using a ok(2) 1(7) by (auto simp: grant_ok_def token_for_def token_ok_def)
        qed
        ultimately have "sc_token ?s < token_seq ?d \<and> validScopedCommand (sc_command ?s)
            \<and> (\<forall>r \<in> set (drequests ?d). rq_tokenid r \<noteq> Some (sc_token ?s))
            \<and> (\<forall>t \<in> set (tokens ?d). tk_id t = sc_token ?s \<longrightarrow> tk_kind t = ''delegated'' \<and> tk_ns t = sc_ns ?s \<and> tk_expires t \<noteq> None)"
          using 1(1,7,9) by (simp add: tk sq dr)
        then show ?thesis using stay req cmd unfolding scoped_ok_def sc by simp
      qed
    qed
  qed
qed


subsection \<open>The invariant of the database\<close>

definition db_ok :: "externals \<Rightarrow> db_state \<Rightarrow> bool" where
  "db_ok x s \<longleftrightarrow> (case s of (t, db) \<Rightarrow> share_ok db \<and> account_ok x db \<and> token_ok db \<and> requests_ok t db \<and> scoped_ok db
     \<and> ledger_ok db)"

lemma new_database_ok: "share_ok new_database" "account_ok x new_database" "token_ok new_database"
  "requests_ok t new_database" "scoped_ok new_database" "ledger_ok new_database"
  by (simp_all add: new_database_def share_ok_def account_ok_def token_ok_def requests_ok_def scoped_ok_def ledger_ok_def hits_def)

interpretation database: run_invariant db_start "db_step x" "db_ok x" for x
proof
  fix s assume "db_start s"
  then show "db_ok x s" by (cases s) (simp add: db_start_def db_ok_def new_database_ok)
next
  fix s u assume "db_step x s u" "db_ok x s"
  then show "db_ok x u"
  proof (cases rule: db_step.cases)
    case (db_calls t now db c)
    then have "requests_ok t db" "token_ok db" "t \<le> now" "scoped_ok db" using \<open>db_ok x s\<close> by (simp_all add: db_ok_def)
    then have "requests_ok now (exec_call x now c db)" "scoped_ok (exec_call x now c db)"
      by (auto intro: requests_step scoped_step)
    then show ?thesis using db_calls \<open>db_ok x s\<close>
      by (simp add: db_ok_def share_step account_step token_step ledger_step)
  qed
qed

lemma db_reachable_ok: "db_reachable x s \<Longrightarrow> db_ok x s"
  unfolding db_reachable_def using database.inv_run by blast

lemma db_reachable_parts:
  assumes "db_reachable x (t, db)"
  shows "share_ok db" "account_ok x db" "token_ok db" "requests_ok t db" "scoped_ok db" "ledger_ok db"
  using db_reachable_ok [OF assms] by (simp_all add: db_ok_def)

text \<open>The same for what follows a state, and time goes on.\<close>

lemma db_reachable_steps: "db_reachable x s \<Longrightarrow> (db_step x)\<^sup>*\<^sup>* s s' \<Longrightarrow> db_reachable x s'"
  unfolding db_reachable_def by (meson rtranclp_trans)


subsection \<open>What does not change again\<close>

lemma upd_key: "r' \<in> set (upd P f rows) \<Longrightarrow> (\<And>r. g (f r) = g r) \<Longrightarrow> \<exists>r \<in> set rows. g r = g r'"
  by (auto simp: set_upd)

text \<open>
  A decision: the row stays, or it was cleaned away, and then a request that took its id was
  made later.
\<close>

definition decision_stands :: "request_row \<Rightarrow> db_state \<Rightarrow> bool" where
  "decision_stands r s \<longleftrightarrow> (case s of (t, db) \<Rightarrow> r \<in> set (drequests db)
     \<or> rq_created r < t \<and> (\<forall>q \<in> set (drequests db). rq_id q = rq_id r \<longrightarrow> rq_created r < rq_created q))"

lemma decision_step:
  assumes st: "db_step x s s'" and d: "decision_stands r s" and ok: "db_ok x s" and dec: "rq_status r \<noteq> ReqPending"
  shows "decision_stands r s'"
  using st
proof (cases rule: db_step.cases)
  case (db_calls t now db c)
  have rok: "requests_ok t db" using ok db_calls by (simp add: db_ok_def)
  have mono: "decision_stands r (now, db')"
    if "r \<in> set (drequests db) \<Longrightarrow> r \<in> set (drequests db')"
      "\<And>q. q \<in> set (drequests db') \<Longrightarrow> (\<exists>p \<in> set (drequests db). rq_id p = rq_id q \<and> rq_created p = rq_created q) \<or> rq_created q = now"
    for db'
  proof (cases "r \<in> set (drequests db)")
    case False
    then have "rq_created r < t" "\<forall>q \<in> set (drequests db). rq_id q = rq_id r \<longrightarrow> rq_created r < rq_created q"
      using d db_calls by (auto simp: decision_stands_def)
    then have "rq_created r < rq_created q" if "q \<in> set (drequests db')" "rq_id q = rq_id r" for q
      using that \<open>t \<le> now\<close> \<open>\<And>q. q \<in> set (drequests db') \<Longrightarrow> _ q\<close> [OF that(1)] by auto
    then show ?thesis using \<open>rq_created r < t\<close> \<open>t \<le> now\<close> by (simp add: decision_stands_def)
  qed (use that(1) in \<open>simp add: decision_stands_def\<close>)
  have same: "decision_stands r (now, db)" by (rule mono) blast+
  note commit = commit_cases [where Q = "\<lambda>d. decision_stands r (now, d)", OF _ same]
  consider "TRequests \<notin> writes c" | n where "c = CCreate n" | p n where "c = CApprove p n" | i ns where "c = CReject i ns"
    | w l where "c = CCleanup w l"
    by (cases c) auto
  then have "decision_stands r (now, exec_call x now c db)"
  proof cases
    case 1
    then show ?thesis using frame_drequests by (intro mono) auto
  next
    case (2 n)
    show ?thesis unfolding 2 exec_call.simps
    proof (rule commit)
      fix v db' assume "CreateDelegation now n db = Inr (v, db')"
      then show "decision_stands r (now, db')"
      proof (cases rule: CreateDelegation_elim)
        case (2 q)
        show ?thesis by (intro mono) (auto simp: 2(1,10))
      qed (use same in simp)
    qed
  next
    case (3 p n)
    show ?thesis unfolding 3 exec_call.simps
    proof (rule commit)
      fix v db' assume "ApproveDelegation x now p n db = Inr (v, db')"
      then show "decision_stands r (now, db')"
      proof (cases rule: ApproveDelegation_elim)
        case (1 q gs)
        have q: "q \<in> set (drequests db)" "rq_id q = p_request p" using sel_Some [OF 1(2) [unfolded request_at_def]] by simp_all
        have "rq_id r \<noteq> p_request p" if "r \<in> set (drequests db)"
        proof
          assume "rq_id r = p_request p"
          then have "r = q" using rok that q by (auto simp: requests_ok_def distinct_map inj_on_def)
          then show False using dec 1(3) by simp
        qed
        then show ?thesis by (intro mono) (auto simp: 1(8) set_upd)
      qed
    qed
  next
    case (4 i ns)
    show ?thesis unfolding 4 exec_call.simps
    proof (rule commit)
      fix v db' assume "RejectDelegation x now i ns db = Inr (v, db')"
      then consider "db' = db" | "drequests db' = upd (\<lambda>r. rq_id r = i \<and> rq_status r = ReqPending \<and> now < rq_expires r \<and> rq_ns r = [])
          (\<lambda>r. r\<lparr>rq_status := ReqRejected, rq_ns := ns, rq_decided := Some now\<rparr>) (drequests db)"
        by (auto simp: RejectDelegation_def Let_def split: if_splits sum.splits)
      then show "decision_stands r (now, db')"
      proof cases
        case 2
        show ?thesis
        proof (rule mono)
          show "r \<in> set (drequests db')" if "r \<in> set (drequests db)" using that dec by (simp add: 2 set_upd)
          show "(\<exists>p \<in> set (drequests db). rq_id p = rq_id q \<and> rq_created p = rq_created q) \<or> rq_created q = now"
            if "q \<in> set (drequests db')" for q
            using upd_key [OF that [unfolded 2], where g = "\<lambda>q. (rq_id q, rq_created q)"] by auto
        qed
      qed (use same in simp)
    qed
  next
    case (5 w l)
    show ?thesis
    proof (cases "w < MinRetention")
      case True
      then show ?thesis using same by (simp add: 5)
    next
      case False
      let ?d = "snd (cleanupDelegationBatch now (now - w) l db)"
      let ?rows = "cleanup_rows now (now - w) l db"
      have w: "0 < w" using False by (simp add: MinRetention_def MaxGrantMinutes_def)
      have sub: "q \<in> set (drequests db) \<and> rq_created q < now - w" if "q \<in> set ?rows" for q
        using in_set_takeD [OF that [unfolded cleanup_rows_def]] by (simp add: cleanable_def)
      have dr: "drequests ?d = DeleteFunc (\<lambda>q. rq_id q \<in> rq_id ` set ?rows) (drequests db)"
        by (simp add: cleanupDelegationBatch_def Let_def DeleteFunc_def)
      have "decision_stands r (now, ?d)"
      proof (cases "r \<in> set (drequests db) \<and> rq_id r \<in> rq_id ` set ?rows")
        case True
        then obtain q where q: "q \<in> set ?rows" "rq_id q = rq_id r" by auto
        then have "q = r" using sub [OF q(1)] True rok by (auto simp: requests_ok_def distinct_map inj_on_def)
        then have "rq_created r < now" using sub [OF q(1)] w by simp
        moreover have "rq_id p \<noteq> rq_id r" if "p \<in> set (drequests ?d)" for p
          using that True by (auto simp: dr)
        ultimately show ?thesis by (simp add: decision_stands_def)
      next
        case False
        then show ?thesis by (intro mono) (auto simp: dr)
      qed
      then show ?thesis using False by (simp add: 5)
    qed
  qed
  then show ?thesis using db_calls by simp
qed

lemma decision_run:
  assumes "(db_step x)\<^sup>*\<^sup>* s s'" "decision_stands r s" "db_ok x s" "rq_status r \<noteq> ReqPending"
  shows "decision_stands r s'"
  using assms(1)
proof (induction rule: rtranclp_induct)
  case base
  show ?case by (rule assms(2))
next
  case (step u v)
  show ?case by (rule decision_step [OF step.hyps(2) step.IH database.inv_from [OF step.hyps(1) assms(3)] assms(4)])
qed

text \<open>A token that is not delegated stays, and stays revoked.\<close>

definition hash_dead :: "string \<Rightarrow> database \<Rightarrow> bool" where
  "hash_dead h db \<longleftrightarrow> (\<exists>t \<in> set (tokens db). tk_hash t = h \<and> tk_kind t \<noteq> ''delegated'' \<and> tk_revoked t \<noteq> None)"

lemma hash_dead_step: "hash_dead h db \<Longrightarrow> hash_dead h (exec_call x now c db)"
proof -
  assume "hash_dead h db"
  then obtain t where t: "t \<in> set (tokens db)" "tk_hash t = h" "tk_kind t \<noteq> ''delegated''" "tk_revoked t \<noteq> None"
    by (auto simp: hash_dead_def)
  show ?thesis
  proof (cases "\<exists>r l. c = CCleanup r l")
    case True
    then obtain r l where c: "c = CCleanup r l" by blast
    obtain P where "tokens (exec_call x now c db) = filter P (tokens db)" "\<forall>t. tk_kind t \<noteq> ''delegated'' \<longrightarrow> P t"
      using tokens_cleanup(1) [of x now r l db] c by blast
    then show ?thesis using t unfolding hash_dead_def by (intro bexI [of _ t]) auto
  next
    case False
    then obtain t' where "t' \<in> set (tokens (exec_call x now c db))" "same_token t t'"
      using tokens_kept t(1) by blast
    then show ?thesis using t unfolding hash_dead_def by (intro bexI [of _ t']) (auto simp: same_token_def)
  qed
qed

lemma hash_dead_run: "(db_step x)\<^sup>*\<^sup>* s s' \<Longrightarrow> hash_dead h (snd s) \<Longrightarrow> hash_dead h (snd s')"
proof (induction rule: rtranclp_induct)
  case (step u v)
  from step.hyps(2) step.IH [OF step.prems] show ?case by (cases rule: db_step.cases) (simp add: hash_dead_step)
qed simp

lemma hash_dead_sel:
  assumes "token_ok db" "hash_dead h db"
  shows "\<forall>t \<in> set (tokens db). tk_hash t = h \<longrightarrow> \<not> token_live now t"
  using assms by (auto simp: hash_dead_def token_ok_def token_live_def distinct_map inj_on_def)

end
