(* ===== verification/DatabaseSample.thy ===== *)
theory DatabaseSample
  imports DatabaseInvariant
begin

text \<open>
  Two runs of the database worked through, for the witnesses: two accounts that become
  friends and share a device, and a delegation from its request to a job. The second is
  for any token, so that no hash has to be computed.
\<close>

lemma sel_unique:
  assumes "distinct (map k rows)" "t \<in> set rows" "k t = v"
  shows "sel (\<lambda>t. k t = v) rows = Some t"
proof (cases "sel (\<lambda>t. k t = v) rows")
  case None
  then show ?thesis using assms by (auto simp: sel_None)
next
  case (Some u)
  then show ?thesis using sel_Some [OF Some] assms by (auto simp: distinct_map inj_on_def)
qed

definition sample_world :: externals where
  "sample_world = \<lparr>x_validID = (\<lambda>s. HasPrefix s ''dev''), x_lower = ToLower, x_equalFold = (=)\<rparr>"

definition sample_key :: string where
  "sample_key = fp_prefix @ replicate 43 (CHR ''A'') @ ''=''"

lemma sample_key_valid: "ValidFingerprint sample_key"
  by (simp add: sample_key_def) code_simp

subsection \<open>Friends\<close>

definition admitted_db :: database where
  "admitted_db = new_database\<lparr>
     users := [\<lparr>us_provider = ''github'', us_subject = ''1'', us_ns = ''ann'', us_name = Some ''ann'', us_role = ''admin'', us_disabled = None\<rparr>],
     invites := [\<lparr>iv_id = 1, iv_login = Some ''bob'', iv_by = None, iv_used = None, iv_used_by = None\<rparr>], invite_seq := 2\<rparr>"

definition invited_db :: database where
  "invited_db = admitted_db\<lparr>
     users := users admitted_db @ [\<lparr>us_provider = ''github'', us_subject = ''2'', us_ns = ''bob'', us_name = Some ''bob'', us_role = ''user'', us_disabled = None\<rparr>],
     invites := [\<lparr>iv_id = 1, iv_login = Some ''bob'', iv_by = None, iv_used = Some 3, iv_used_by = Some ''bob''\<rparr>]\<rparr>"

definition befriended_db :: database where
  "befriended_db = invited_db\<lparr>
     friends := [\<lparr>fr_id = 1, fr_requester = ''bob'', fr_addressee = ''ann'', fr_status = FriendAccepted, fr_accepted = Some 5\<rparr>],
     friend_seq := 2\<rparr>"

definition friends_db :: database where
  "friends_db = befriended_db\<lparr>
     devices := [\<lparr>dv_owner = ''ann'', dv_id = ''host'', dv_display = ''host'', dv_alias = None, dv_legacy = None,
        dv_fp = Some ''k'', dv_seen = Some 6, dv_uses = False\<rparr>],
     acls := [\<lparr>ac_id = 1, ac_owner = ''ann'', ac_device = ''host'', ac_grantee = ''bob'', ac_manage = True, ac_revoked = None\<rparr>],
     acl_seq := 2\<rparr>"

lemma step_admit:
  "exec_call sample_world 2 (CInvite ''bob'') (exec_call sample_world 1 (CIdentity ''github'' ''1'' ''Ann'' [] []) new_database) = admitted_db"
  unfolding exec_call.simps by code_simp

lemma step_invited: "exec_call sample_world 3 (CIdentity ''github'' ''2'' ''bob'' [] []) admitted_db = invited_db"
  unfolding exec_call.simps by code_simp

lemma step_befriended:
  "exec_call sample_world 5 (CAccept ''ann'' ''bob'') (exec_call sample_world 4 (CFriend ''bob'' ''ann'' []) invited_db) = befriended_db"
  unfolding exec_call.simps by code_simp

lemma step_shared:
  "exec_call sample_world 7 (CGrant ''ann'' ''host'' ''bob'' True) (exec_call sample_world 6 (CUpsert ''ann'' ''host'' ''k'') befriended_db) = friends_db"
  unfolding exec_call.simps by code_simp

definition friends_calls :: "(gotime \<times> db_call) list" where
  "friends_calls =
     [(1, CIdentity ''github'' ''1'' ''Ann'' [] []), (2, CInvite ''bob''), (3, CIdentity ''github'' ''2'' ''bob'' [] []),
      (4, CFriend ''bob'' ''ann'' []), (5, CAccept ''ann'' ''bob''), (6, CUpsert ''ann'' ''host'' ''k''),
      (7, CGrant ''ann'' ''host'' ''bob'' True)]"

lemma friends_run: "db_run sample_world friends_calls (1, new_database) = Some (7, friends_db)"
  by (simp add: friends_calls_def step_admit step_invited step_befriended step_shared del: exec_call.simps One_nat_def)

lemma friends_reachable: "db_reachable sample_world (7, friends_db)"
  using friends_run by (rule db_run_reachable) simp

definition live_host :: "string \<Rightarrow> (string \<times> string) list" where
  "live_host ns = (if ns = ''ann'' then [(''host'', ''Laptop'')] else [])"

subsection \<open>A delegation\<close>

lemma token_digit_lower: "n < 16 \<Longrightarrow> ascii_between CHR ''0'' CHR ''9'' (hex_digit n) \<or> ascii_between CHR ''a'' CHR ''f'' (hex_digit n)"
proof -
  assume "n < 16"
  then have "n \<in> set [0..<16]" by simp
  moreover have "list_all (\<lambda>n. ascii_between CHR ''0'' CHR ''9'' (hex_digit n) \<or> ascii_between CHR ''a'' CHR ''f'' (hex_digit n)) [0..<16]"
    by code_simp
  ultimately show ?thesis by (simp only: list_all_iff)
qed

lemma HashToken_valid: "validDelegationHash (HashToken s)"
proof -
  have "unat b div 16 < 16" "unat b mod 16 < 16" for b :: byte
    using unsigned_less [of b, where ?'a = nat] by (simp_all add: less_mult_imp_div_less)
  then have "list_all (\<lambda>c. ascii_between CHR ''0'' CHR ''9'' c \<or> ascii_between CHR ''a'' CHR ''f'' c) (hex_EncodeToString bs)" for bs
    by (induction bs) (simp_all add: hex_EncodeToString_def hex_byte_def token_digit_lower)
  then show ?thesis by (simp add: validDelegationHash_def HashToken_def)
qed

definition sample_ticket :: string where "sample_ticket = replicate 64 (CHR ''a'')"

definition ask :: "string \<Rightarrow> new_request" where
  "ask h = \<lparr>n_id = ''d1'', n_ticket = sample_ticket, n_token = h, n_label = ''AI'', n_controller = sample_key,
            n_expires = 10 * Minute\<rparr>"

definition say_yes :: approval where
  "say_yes = \<lparr>p_request = ''d1'', p_ns = ''ann'', p_devices = [''dev1''], p_minutes = 60, p_controller = sample_key,
              p_fps = (\<lambda>_. sample_key)\<rparr>"

definition grant_calls :: "string \<Rightarrow> (gotime \<times> db_call) list" where
  "grant_calls h = [(1, CRegister ''ann'' ''dev1'' ''laptop'' sample_key), (2, CCreate (ask h)), (3, CApprove say_yes 1),
     (4, CBegin ''d1'' ''r1'' sample_ticket ''{}'' True ''00'')]"

definition sample_device :: device_row where
  "sample_device = \<lparr>dv_owner = ''ann'', dv_id = ''dev1'', dv_display = ''laptop'', dv_alias = None, dv_legacy = None,
     dv_fp = Some sample_key, dv_seen = Some 1, dv_uses = True\<rparr>"

definition asked_row :: "string \<Rightarrow> request_row" where
  "asked_row h = \<lparr>rq_id = ''d1'', rq_ticket = sample_ticket, rq_token = h, rq_label = ''AI'', rq_controller = sample_key,
     rq_status = ReqPending, rq_ns = [], rq_tokenid = None, rq_created = 2, rq_expires = 10 * Minute, rq_decided = None\<rparr>"

definition approved_request :: "string \<Rightarrow> request_row" where
  "approved_request h = (asked_row h)\<lparr>rq_status := ReqApproved, rq_ns := ''ann'', rq_tokenid := Some 1, rq_decided := Some 3\<rparr>"

definition grant_token :: "string \<Rightarrow> token_row" where
  "grant_token h = \<lparr>tk_id = 1, tk_ns = ''ann'', tk_kind = ''delegated'', tk_hash = h, tk_label = ''AI'',
     tk_expires = Some (3 + 60 * Minute), tk_revoked = None\<rparr>"

definition sample_job :: djob_row where
  "sample_job = \<lparr>jb_id = ''j_00'', jb_grant = ''d1'', jb_request = ''r1'', jb_hash = sample_ticket, jb_payload = ''{}'',
     jb_state = ''running'', jb_result = None, jb_created = 4\<rparr>"

definition registered_db :: database where "registered_db = new_database\<lparr>devices := [sample_device]\<rparr>"

definition asked_db :: "string \<Rightarrow> database" where "asked_db h = registered_db\<lparr>drequests := [asked_row h]\<rparr>"

definition approved_db :: "string \<Rightarrow> database" where
  "approved_db h = registered_db\<lparr>drequests := [approved_request h], tokens := [grant_token h], token_seq := 2,
     gdevices := [\<lparr>gd_grant = ''d1'', gd_dev = \<lparr>d_namespace = ''ann'', d_id = ''dev1'', d_fingerprint = sample_key\<rparr>\<rparr>],
     audits := [\<lparr>au_ns = ''ann'', au_device = [], au_token = Some 1, au_event = approval_event ''d1''\<rparr>]\<rparr>"

definition grant_db :: "string \<Rightarrow> database" where
  "grant_db h = (approved_db h)\<lparr>djobs := [sample_job]\<rparr>"

lemma step_register: "exec_call sample_world 1 (CRegister ''ann'' ''dev1'' ''laptop'' sample_key) new_database = registered_db"
proof -
  have "list_all (\<lambda>(r, _). r \<noteq> 0x2F \<and> \<not> IsControl r) (runes (bytes ''laptop''))" by code_simp
  then have "validDeviceName ''laptop''" by (simp add: validDeviceName_def cleanLabel_def ascii_valid)
  then show ?thesis using sample_key_valid
    by (simp add: registerDeviceID_def RegisterDevice_def new_database_def registered_db_def sample_device_def legacy_row_def
        sample_world_def HasPrefix_def hits_def)
qed

lemma step_ask: "validDelegationHash h \<Longrightarrow> exec_call sample_world 2 (CCreate (ask h)) registered_db = asked_db h"
proof -
  assume h: "validDelegationHash h"
  have v: "validDelegationHash sample_ticket" "validDelegationID ''d1''" by code_simp+
  show ?thesis using h v sample_key_valid
    by (simp add: CreateDelegation_def ask_def registered_db_def asked_db_def new_database_def request_at_def sel_def
        pendingCount_def hits_def maxPendingDelegations_def readDelegation_def asked_row_def Let_def)
qed

lemma step_approve: "exec_call sample_world 3 (CApprove say_yes 1) (asked_db h) = approved_db h"
proof -
  have g: "guardNamespace sample_world ''ann'' []" by code_simp
  show ?thesis using g sample_key_valid
    by (simp add: ApproveDelegation_def approval_valid_def say_yes_def asked_db_def asked_row_def registered_db_def request_at_def sel_def
        approved_db_def approved_request_def grant_token_def sample_device_def insert_token_def new_database_def upd_def
        readDelegation_def device_at_def MaxGrantMinutes_def maxDelegationDevices_def sample_world_def HasPrefix_def Let_def)
qed

lemma grant_db_view:
  assumes "3 \<le> now" "now < 3 + 60 * Minute"
  shows "view_status now (approved_db h) (approved_request h) = VApproved"
    "view_status now (grant_db h) (approved_request h) = VApproved"
  using assms by (simp_all add: view_status_def approved_db_def approved_request_def asked_row_def token_of_def sel_def grant_token_def
      grant_devices_def device_stands_def registered_db_def sample_device_def grant_db_def new_database_def)

lemma step_begin: "exec_call sample_world 4 (CBegin ''d1'' ''r1'' sample_ticket ''{}'' True ''00'') (approved_db h) = grant_db h"
proof -
  have v: "validDelegationHash sample_ticket" "validDelegationID ''d1''" "validDelegationID ''r1''" by code_simp+
  have r: "sel (\<lambda>r. rq_id r = ''d1'') (drequests (approved_db h)) = Some (approved_request h)"
    by (simp add: sel_def approved_db_def approved_request_def asked_row_def)
  have m: "\<not> MaxJobs g \<le> 0" for g using MaxJobs_ge_one [of g] by simp
  have dj: "djobs (approved_db h) = []" by (simp add: approved_db_def registered_db_def new_database_def)
  show ?thesis using v r m grant_db_view [of 4]
    by (simp add: BeginJob_def maxDelegationPayload_def job_at_def dj sel_def [of _ "[]"] readDelegation_def hits_def grant_db_def sample_job_def Let_def)
qed

lemma grant_run:
  assumes "validDelegationHash h"
  shows "db_run sample_world (take 3 (grant_calls h)) (1, new_database) = Some (3, approved_db h)"
    "db_run sample_world (grant_calls h) (1, new_database) = Some (4, grant_db h)"
  using assms by (simp_all add: grant_calls_def step_register step_ask step_approve step_begin del: exec_call.simps One_nat_def)

lemma grant_reachable: "db_reachable sample_world (4, grant_db (HashToken s))"
  "db_reachable sample_world (3, approved_db (HashToken s))"
  using grant_run [OF HashToken_valid [of s]] by (auto elim: db_run_reachable)


text \<open>The holder of the token is let in, for the device that was approved.\<close>

lemma sample_access:
  assumes "3 \<le> now" "now < 3 + 60 * Minute"
  shows "\<exists>a. PGResolveAccess now (grant_db (HashToken s)) s = Some a \<and> delegated a \<and> a_execOnly a = [] \<and> a_ns a = ''ann''"
proof -
  have t: "sel (\<lambda>t. tk_hash t = HashToken s \<and> token_live now t \<and> namespaceEnabled (grant_db (HashToken s)) (tk_ns t)) (tokens (grant_db (HashToken s)))
      = Some (grant_token (HashToken s))"
    using assms by (simp add: grant_db_def approved_db_def grant_token_def sel_def token_live_def namespaceEnabled_def registered_db_def new_database_def)
  have r: "sel (\<lambda>r. rq_tokenid r = Some (tk_id (grant_token (HashToken s)))) (drequests (grant_db (HashToken s))) = Some (approved_request (HashToken s))"
    "sel (\<lambda>r. rq_id r = ''d1'') (drequests (grant_db (HashToken s))) = Some (approved_request (HashToken s))"
    by (simp_all add: sel_def grant_db_def approved_db_def approved_request_def asked_row_def grant_token_def)
  have g: "grant_devices (grant_db (HashToken s)) ''d1'' = [\<lparr>d_namespace = ''ann'', d_id = ''dev1'', d_fingerprint = sample_key\<rparr>]"
    "token_of (grant_db (HashToken s)) (approved_request (HashToken s)) = Some (grant_token (HashToken s))"
    "\<not> is_scoped (grant_db (HashToken s)) (grant_token (HashToken s))"
    by (simp_all add: grant_devices_def grant_db_def approved_db_def token_of_def sel_def approved_request_def grant_token_def
        is_scoped_def registered_db_def new_database_def)
  have i: "rq_id (approved_request (HashToken s)) = ''d1''" by (simp add: approved_request_def asked_row_def)
  show ?thesis using grant_db_view(2) [OF assms, of "HashToken s"]
    by (simp add: PGResolveAccess_def t r g i Let_def GetDelegation_def readDelegation_def)
      (simp add: grant_token_def approved_request_def no_access_def)
qed

end
