(* ===== verification/SharingProps.thy ===== *)
theory SharingProps
  imports DatabaseSample
begin

text \<open>
  What the account database promises of accounts, friends and shares, and what it means for
  a dial: the relay of \<open>Access\<close> with the answers of this database.
\<close>

lemma filter_upd: "(\<And>r. P r \<Longrightarrow> \<not> Q r \<and> \<not> Q (f r)) \<Longrightarrow> filter Q (upd P f rows) = filter Q rows"
  by (induction rows) (auto simp: upd_def)

lemma dial_rests_on:
  assumes "dialAllowedReason (db_view x db portal labels) caller target = Inr (key, o')"
  shows "callerNS o' = caller \<and> key = ownerNS o' @ ''/'' @ o_device o'
    \<and> (ownerNS o' = caller \<or> portal \<noteq> [] \<and> caller = portal
       \<or> (\<exists>manage. ACLGrant db caller (ownerNS o') (o_device o') = Some manage
            \<and> o_caps o' = (if manage then FullCapabilities else UseCapabilities)))"
proof -
  have view: "portalNS (db_view x db portal labels) = portal" "acl (db_view x db portal labels) = Some (ACLGrant db)"
    by (simp_all add: db_view_def)
  obtain ns dev where t: "resolve_target (db_view x db portal labels) caller target = Inr (ns, dev)"
    using assms by (auto simp: dialAllowedReason_def split: sum.splits)
  have "dialAllowedReason (db_view x db portal labels) caller target =
      (if portal \<noteq> [] \<and> caller = portal \<or> ns = caller
       then Inr (ns @ ''/'' @ dev, open_for caller ns dev FullCapabilities)
       else case ACLGrant db caller ns dev of None \<Rightarrow> Inl NoReason
            | Some manage \<Rightarrow> Inr (ns @ ''/'' @ dev, open_for caller ns dev (if manage then FullCapabilities else UseCapabilities)))"
    by (simp add: dialAllowedReason_def t view Let_def split: option.split)
  then show ?thesis using assms
    by (cases "portal \<noteq> [] \<and> caller = portal \<or> ns = caller"; cases "ACLGrant db caller ns dev") (auto simp: open_for_def)
qed

text \<open>
  C7. A dial to someone else's device needs friendship. In every state a run of the database
  can reach, when the relay lets a caller dial a device of another owner and the caller is
  not the console, the two accounts are friends now, a share of that device to that caller
  stands, and the capabilities are the full set exactly if one of the standing shares
  has the managing switch.
\<close>

theorem share_needs_friendship:
  assumes reach: "db_reachable x (t, db)"
    and dial: "dialAllowedReason (db_view x db portal labels) caller target = Inr (key, o')"
    and other: "ownerNS o' \<noteq> caller" and nc: "portal = [] \<or> caller \<noteq> portal"
  shows "IsFriend db caller (ownerNS o') \<and> key = ownerNS o' @ ''/'' @ o_device o'
    \<and> (\<exists>a \<in> set (acls db). live_share (ownerNS o') (o_device o') caller a)
    \<and> o_caps o' = (if \<exists>a \<in> set (acls db). live_share (ownerNS o') (o_device o') caller a \<and> ac_manage a
                   then FullCapabilities else UseCapabilities)"
proof -
  obtain manage where m: "ACLGrant db caller (ownerNS o') (o_device o') = Some manage"
    "o_caps o' = (if manage then FullCapabilities else UseCapabilities)" "key = ownerNS o' @ ''/'' @ o_device o'"
    using dial_rests_on [OF dial] other nc by auto
  have mg: "manage \<longleftrightarrow> (\<exists>a \<in> set (acls db). live_share (ownerNS o') (o_device o') caller a \<and> ac_manage a)"
    and "filter (live_share (ownerNS o') (o_device o') caller) (acls db) \<noteq> []"
    using m(1) by (auto simp: ACLGrant_def Let_def split: if_splits)
  then obtain a where a: "a \<in> set (acls db)" "live_share (ownerNS o') (o_device o') caller a"
    by (auto simp: filter_empty_conv)
  then have "IsFriend db caller (ownerNS o')"
    using db_reachable_parts(1) [OF reach] other unfolding share_ok_def live_share_def IsFriend_def same_pair_def by metis
  then show ?thesis using m mg a by auto
qed

theorem share_needs_friendship_witness:
  "\<exists>key o'. dialAllowedReason (db_view sample_world friends_db [] live_host) ''bob'' ''ann/host'' = Inr (key, o')
     \<and> IsFriend friends_db ''bob'' ''ann'' \<and> o_caps o' = FullCapabilities"
proof -
  have d: "dialAllowedReason (db_view sample_world friends_db [] live_host) ''bob'' ''ann/host''
      = Inr (''ann/host'', open_for ''bob'' ''ann'' ''host'' FullCapabilities)"
    by code_simp
  have "ownerNS (open_for ''bob'' ''ann'' ''host'' FullCapabilities) = ''ann''" "o_caps (open_for ''bob'' ''ann'' ''host'' FullCapabilities) = FullCapabilities"
    by (simp_all add: open_for_def)
  then show ?thesis using share_needs_friendship [OF friends_reachable d] d by auto
qed

text \<open>
  Ending a friendship ends the sharing, both ways. After one side removes the other, the
  relay lets neither dial a device of the other (the console apart), and both keep every
  share they have with anyone else.
\<close>

theorem unfriending_ends_sharing:
  assumes reach: "db_reachable x (t, db)" and rm: "FriendRemove now a b db = Inr ((), db')"
    and nc: "portal = [] \<or> caller \<noteq> portal"
  shows "(dialAllowedReason (db_view x db' portal labels) caller target = Inr (key, o') \<longrightarrow>
          \<not> (caller = a \<and> ownerNS o' = b \<and> a \<noteq> b) \<and> \<not> (caller = b \<and> ownerNS o' = a \<and> a \<noteq> b))
     \<and> \<not> IsFriend db' a b \<and> \<not> IsFriend db' b a
     \<and> (\<not> (owner = a \<and> grantee = b) \<and> \<not> (owner = b \<and> grantee = a) \<longrightarrow>
          ACLGrant db' grantee owner dev = ACLGrant db grantee owner dev
          \<and> IsFriend db' owner grantee = IsFriend db owner grantee)"
proof -
  have db': "friends db' = DeleteFunc (same_pair a b) (friends db)"
    "acls db' = upd (\<lambda>s. ac_revoked s = None \<and> between a b s) (\<lambda>s. s\<lparr>ac_revoked := Some now\<rparr>) (acls db)"
    using rm by (auto simp: FriendRemove_def split: if_splits)
  have nf: "\<not> IsFriend db' a b" "\<not> IsFriend db' b a"
    by (auto simp: IsFriend_def db' same_pair_def)
  have ok: "share_ok db'"
    using share_step [OF db_reachable_parts(1) [OF reach], of x now "CUnfriend a b"] rm by simp
  have none: "ACLGrant db' c w dev = None" if "\<not> IsFriend db' c w" for c w dev
  proof -
    have "\<not> live_share w dev c s" if "s \<in> set (acls db')" for s
      using ok that \<open>\<not> IsFriend db' c w\<close> unfolding share_ok_def live_share_def IsFriend_def same_pair_def by metis
    then show ?thesis by (simp add: ACLGrant_def Let_def filter_empty_conv)
  qed
  have dial: "\<not> (caller = p \<and> ownerNS o' = q \<and> p \<noteq> q)"
    if "dialAllowedReason (db_view x db' portal labels) caller target = Inr (key, o')" "\<not> IsFriend db' p q" for p q
    using dial_rests_on [OF that(1)] none [OF that(2)] nc by auto
  have "ACLGrant db' grantee owner dev = ACLGrant db grantee owner dev
          \<and> IsFriend db' owner grantee = IsFriend db owner grantee"
    if o: "\<not> (owner = a \<and> grantee = b) \<and> \<not> (owner = b \<and> grantee = a)"
  proof
    have "filter (live_share owner dev grantee) (acls db') = filter (live_share owner dev grantee) (acls db)"
      unfolding db' using o by (intro filter_upd) (auto simp: live_share_def between_def)
    then show "ACLGrant db' grantee owner dev = ACLGrant db grantee owner dev" by (simp add: ACLGrant_def)
    show "IsFriend db' owner grantee = IsFriend db owner grantee"
      using o by (auto simp: IsFriend_def db' same_pair_def)
  qed
  then show ?thesis using nf dial by blast
qed

theorem unfriending_ends_sharing_witness:
  "\<exists>db'. FriendRemove 8 ''bob'' ''ann'' friends_db = Inr ((), db') \<and> \<not> IsFriend db' ''ann'' ''bob''
     \<and> ACLGrant friends_db ''bob'' ''ann'' ''host'' = Some True
     \<and> \<not> (\<exists>key. dialAllowedReason (db_view sample_world db' [] live_host) ''bob'' ''ann/host''
             = Inr (key, open_for ''bob'' ''ann'' ''host'' FullCapabilities))"
proof -
  obtain db' where r: "FriendRemove 8 ''bob'' ''ann'' friends_db = Inr ((), db')"
    by (simp add: FriendRemove_def friends_db_def befriended_db_def hits_def same_pair_def)
  have a: "ACLGrant friends_db ''bob'' ''ann'' ''host'' = Some True" by code_simp
  have nc: "([]::string) = [] \<or> ''bob'' \<noteq> []" by simp
  note u = unfriending_ends_sharing [OF friends_reachable r nc, where labels = live_host and target = "''ann/host''"]
  have "\<not> (\<exists>key. dialAllowedReason (db_view sample_world db' [] live_host) ''bob'' ''ann/host''
             = Inr (key, open_for ''bob'' ''ann'' ''host'' FullCapabilities))"
    using u by (fastforce simp: open_for_def)
  then show ?thesis using r a u by auto
qed

text \<open>
  C29. Nobody gets in uninvited. In every state a run of the database can reach, an account of
  GitHub that is not the administrator used an invitation that names its login, there is at
  most one administrator, no two accounts share a namespace or an identity, and none has
  an empty name or that of the console.
\<close>

theorem admission_needs_invite:
  assumes reach: "db_reachable x (t, db)" and u: "u \<in> set (users db)"
  shows "(us_provider u = ''github'' \<and> us_role u \<noteq> ''admin'' \<longrightarrow> (\<exists>i \<in> set (invites db). invite_used x (us_ns u) i))
     \<and> (v \<in> set (users db) \<and> (us_ns v = us_ns u \<or> us_provider v = us_provider u \<and> us_subject v = us_subject u
          \<or> us_role u = ''admin'' \<and> us_role v = ''admin'') \<longrightarrow> v = u)
     \<and> us_ns u \<noteq> [] \<and> \<not> EqualFold (us_ns u) ''portal''"
proof -
  note ok = db_reachable_parts(2) [OF reach, unfolded account_ok_def]
  have one: "v = u" if v: "v \<in> set (users db)" "us_role u = ''admin''" "us_role v = ''admin''"
  proof -
    have "length (filter (\<lambda>u. us_role u = ''admin'') (users db)) \<le> 1" using ok by (simp add: hits_def)
    moreover have "u \<in> set (filter (\<lambda>u. us_role u = ''admin'') (users db))" "v \<in> set (filter (\<lambda>u. us_role u = ''admin'') (users db))"
      using u v by auto
    ultimately show ?thesis by (cases "filter (\<lambda>u. us_role u = ''admin'') (users db)") auto
  qed
  have "v = u" if "v \<in> set (users db)" "us_ns v = us_ns u"
    using ok u that by (auto simp: distinct_map inj_on_def)
  moreover have "v = u" if "v \<in> set (users db)" "us_provider v = us_provider u" "us_subject v = us_subject u"
    using ok u that by (auto simp: distinct_map inj_on_def)
  ultimately show ?thesis using ok u one unfolding invite_used_def by auto
qed

theorem admission_needs_invite_witness:
  "\<exists>u \<in> set (users friends_db). us_role u = ''user'' \<and> (\<exists>i \<in> set (invites friends_db). invite_used sample_world (us_ns u) i)"
proof -
  let ?u = "\<lparr>us_provider = ''github'', us_subject = ''2'', us_ns = ''bob'', us_name = Some ''bob'', us_role = ''user'', us_disabled = None\<rparr>"
  have u: "?u \<in> set (users friends_db)" by (simp add: friends_db_def befriended_db_def invited_db_def)
  have "\<exists>i \<in> set (invites friends_db). invite_used sample_world (us_ns ?u) i"
    using admission_needs_invite [OF friends_reachable u] by simp
  then show ?thesis using u by (intro bexI [of _ ?u]) simp_all
qed

end
