(* ===== verification/WebFetch.thy ===== *)
theory WebFetch
  imports WebResults Trust DatabaseRuns
begin

text \<open>
  The WebFetch adapter (\<open>src/internal/webfetch/handler.go\<close>): a browser ticket becomes a
  temporary controller, a human approves it on the portal, and each GET of a call URL is at
  most one operation on an approved device. A request is a sequence of phases: each is a
  transaction of the database after what the handler does on its own state, or a critical
  section by itself, so that any other request, the goroutines of running operations and any
  other writer of the database can come between two of them. \<open>webfetch_env\<close> holds what is not the handler's: the seed,
  the certificate made from it, the JSON of a result, the reader of a stored payload (which
  the database may have rewritten as \<open>jsonb\<close>) and the test for the portal's own links.
\<close>

record webfetch_env =
  we_x :: externals
  we_seed :: "byte list"
  we_identity :: "byte list \<Rightarrow> string \<Rightarrow> string option"
  we_unmarshal :: "string \<Rightarrow> operation option"
  we_encode :: "web_result \<Rightarrow> string"
  we_ownerLink :: "string \<Rightarrow> bool"

subsection \<open>Tickets and credentials\<close>

definition hex_lower :: "char \<Rightarrow> bool" where
  "hex_lower c \<longleftrightarrow> digit c \<or> ascii_between CHR ''a'' CHR ''f'' c"

definition ticketPattern :: "string \<Rightarrow> bool" where
  "ticketPattern s \<longleftrightarrow> length s = 59 \<and> list_all digit (take 10 s) \<and> s ! 10 = CHR ''-'' \<and> list_all hex_lower (drop 11 s)"

definition clientNoncePattern :: "string \<Rightarrow> bool" where
  "clientNoncePattern s \<longleftrightarrow> length s = 48 \<and> list_all hex_lower s"

text \<open>The time a ticket says it was issued at.\<close>

definition issued_at :: "string \<Rightarrow> gotime" where
  "issued_at ticket = int (decimal (takeWhile (\<lambda>c. c \<noteq> CHR ''-'') ticket)) * Second"

definition ticketFresh :: "gotime \<Rightarrow> gotime \<Rightarrow> bool" where
  "ticketFresh issued now \<longleftrightarrow> \<not> issued > now + 30 * Second \<and> now < issued + TicketLifetime"

definition hmac_sha256 :: "byte list \<Rightarrow> byte list \<Rightarrow> byte list" where
  "hmac_sha256 key m =
     (let k = (if length key > 64 then sha256_Sum256 key else key);
          k = k @ replicate (64 - length k) 0
      in sha256_Sum256 (map (\<lambda>v. v XOR 0x5C) k @ sha256_Sum256 (map (\<lambda>v. v XOR 0x36) k @ m)))"

definition derive :: "webfetch_env \<Rightarrow> string \<Rightarrow> string \<Rightarrow> byte list" where
  "derive env domain input = hmac_sha256 (we_seed env) (bytes domain @ [0] @ bytes input)"

definition grant_id :: "string \<Rightarrow> string" where
  "grant_id ticket = ''d_'' @ take 32 (sha256Hex ticket)"

definition ticket_token :: "webfetch_env \<Rightarrow> string \<Rightarrow> string" where
  "ticket_token env ticket = DelegationPrefix @ hex_EncodeToString (derive env ''wanctl-webfetch-access-v1'' ticket)"

text \<open>\<open>transport.IdentityFromSeed\<close>: the fingerprint of the controller of a grant.\<close>

definition controller_identity :: "webfetch_env \<Rightarrow> string \<Rightarrow> string option" where
  "controller_identity env i =
     we_identity env (take 32 (derive env ''wanctl-webfetch-identity-v1'' i)) (''wanctl-webfetch:'' @ i)"

definition credentials :: "webfetch_env \<Rightarrow> string \<Rightarrow> string \<times> string \<times> string option" where
  "credentials env ticket =
     (let i = grant_id ticket in (i, ticket_token env ticket, controller_identity env i))"

subsection \<open>The handler's own state\<close>

definition maxOperationsPerGrant :: int where "maxOperationsPerGrant = 4"
definition maxOperations :: int where "maxOperations = 64"

record rate_window =
  rw_at :: gotime
  rw_count :: int

record web_handler =
  wh_requests :: "(string \<times> rate_window) list"
  wh_running :: "(string \<times> int) list"
  wh_total :: int

definition NewHandler :: web_handler where
  "NewHandler = \<lparr>wh_requests = [], wh_running = [], wh_total = 0\<rparr>"

definition rateAllowed :: "gotime \<Rightarrow> string \<Rightarrow> int \<Rightarrow> web_handler \<Rightarrow> bool \<times> web_handler" where
  "rateAllowed now key limit h =
     (let reqs = (if length (wh_requests h) \<ge> 4096
                  then DeleteFunc (\<lambda>(k, v). now - rw_at v > Minute) (wh_requests h) else wh_requests h);
          h = h\<lparr>wh_requests := reqs\<rparr>
      in if map_of reqs key = None \<and> length reqs \<ge> 4096 then (False, h)
         else
          (let v = (case map_of reqs key of
                      Some v \<Rightarrow> if now - rw_at v > Minute then \<lparr>rw_at = now, rw_count = 0\<rparr> else v
                    | None \<Rightarrow> \<lparr>rw_at = now, rw_count = 0\<rparr>);
               v = v\<lparr>rw_count := rw_count v + 1\<rparr>
           in (rw_count v \<le> limit, h\<lparr>wh_requests := al_put key v reqs\<rparr>)))"

definition running_of :: "web_handler \<Rightarrow> string \<Rightarrow> int" where
  "running_of h grant = (case map_of (wh_running h) grant of None \<Rightarrow> 0 | Some n \<Rightarrow> n)"

definition reserve_slot :: "string \<Rightarrow> web_handler \<Rightarrow> bool \<times> web_handler" where
  "reserve_slot grant h =
     (if wh_total h \<ge> maxOperations \<or> running_of h grant \<ge> maxOperationsPerGrant then (False, h)
      else (True, h\<lparr>wh_running := al_put grant (running_of h grant + 1) (wh_running h), wh_total := wh_total h + 1\<rparr>))"

definition release_slot :: "string \<Rightarrow> web_handler \<Rightarrow> web_handler" where
  "release_slot grant h =
     (let h = h\<lparr>wh_total := wh_total h - 1, wh_running := al_put grant (running_of h grant - 1) (wh_running h)\<rparr>
      in if running_of h grant \<le> 0 then h\<lparr>wh_running := al_del grant (wh_running h)\<rparr> else h)"

subsection \<open>Reading a request\<close>

record http_request =
  hq_get :: bool
  hq_uri_len :: nat
  hq_origin :: string
  hq_path :: string
  hq_query :: "url_values option"
  hq_client :: string

text \<open>
  An error is its HTTP status and, where the code sends one, its \<open>error_code\<close>. A job is
  answered with the state it is shown in.
\<close>

datatype web_reply =
    Refuse nat string
  | Discovery
  | AskOwner request_view
  | Manifest access
  | JobReply djob_row bool string

text \<open>\<open>fail\<close>.\<close>

definition web_fail :: "db_error \<Rightarrow> web_reply" where
  "web_fail e = Refuse
     (case e of ErrNotFound \<Rightarrow> 404 | ErrForbidden \<Rightarrow> 403 | ErrExpired \<Rightarrow> 403 | ErrConflict \<Rightarrow> 409
        | ErrInvalid \<Rightarrow> 400 | ErrLimit \<Rightarrow> 429 | _ \<Rightarrow> 500) []"

definition conflict_reply :: web_reply where
  "conflict_reply = Refuse 409 ''rid_conflict''"

text \<open>The first part of \<open>ServeHTTP\<close>: the ticket, the parts of the path and the query.\<close>

definition session_path :: "gotime \<Rightarrow> string option \<Rightarrow> string \<Rightarrow> web_reply + string" where
  "session_path now random path =
     (case CutPrefix path ''/webfetch/new/'' of
        None \<Rightarrow> Inr path
      | Some nonce \<Rightarrow>
          if \<not> clientNoncePattern nonce then Inl (Refuse 400 [])
          else case random of
            None \<Rightarrow> Inl (web_fail DbFailed)
          | Some r \<Rightarrow> Inr (''/webfetch/s/'' @ Itoa (nat (now div Second)) @ ''-'' @ r))"

definition route_request ::
  "gotime \<Rightarrow> string option \<Rightarrow> http_request \<Rightarrow> web_reply + (string \<times> string list \<times> url_values)" where
  "route_request now random r =
     (if \<not> hq_get r then Inl (Refuse 405 [])
      else if hq_uri_len r > MaxURLBytes then Inl (Refuse 414 [])
      else if hq_origin r \<noteq> [] then Inl (Refuse 403 [])
      else if hq_path r \<in> {''/webfetch'', ''/webfetch/'', ''/webfetch/v1''} then Inl Discovery
      else case session_path now random (hq_path r) of Inl e \<Rightarrow> Inl e | Inr path \<Rightarrow>
       (let parts = splitc CHR ''/'' (TrimChars path {CHR ''/''}) in
        if length parts < 3 \<or> parts ! 0 \<noteq> ''webfetch'' \<or> parts ! 1 \<noteq> ''s'' \<or> \<not> ticketPattern (parts ! 2)
        then Inl (Refuse 404 [])
        else if \<not> ticketFresh (issued_at (parts ! 2)) now then Inl (web_fail ErrExpired)
        else case hq_query r of
          None \<Rightarrow> Inl (Refuse 400 [])
        | Some q \<Rightarrow> if \<exists>(k, vs) \<in> set q. length vs \<noteq> 1 then Inl (Refuse 400 []) else Inr (parts ! 2, parts, q)))"

subsection \<open>The phases of a request and of its operation\<close>

record web_work =
  wk_job :: djob_row
  wk_request :: request_view
  wk_token :: string
  wk_op :: operation

datatype web_phase =
    Looking (ph_ticket: string) "string list" url_values string
  | Creating (ph_ticket: string) "string list" url_values string
  | Resolving (ph_ticket: string) "string list" url_values request_view
  | Finding (ph_ticket: string) url_values operation access request_view
  | Reserving (ph_ticket: string) url_values operation access request_view
  | Beginning (ph_ticket: string) url_values operation access request_view
  | ReadingJob (ph_ticket: string) "string list" access
  | Starting (ph_work: web_work)
  | OnDevice (ph_work: web_work) access gotime trust_store
  | Finishing (ph_work: web_work) string web_result

text \<open>
  What the environment decides in a phase: whether the database answers, the random part of
  a job's id, and what became of the operation.
\<close>

record web_input =
  wi_store :: bool
  wi_random :: string
  wi_outcome :: device_outcome

type_synonym web_move = "web_reply option \<times> web_phase list"

definition reply_with :: "web_reply \<Rightarrow> web_move" where
  "reply_with r = (Some r, [])"

definition go_on :: "web_phase \<Rightarrow> web_move" where
  "go_on ph = (None, [ph])"

definition transact :: "bool \<Rightarrow> db_error + 'a \<Rightarrow> db_error + 'a" where
  "transact ok r = (if ok then r else Inl DbFailed)"

definition look_up ::
  "webfetch_env \<Rightarrow> gotime \<Rightarrow> web_input \<Rightarrow> string \<Rightarrow> string list \<Rightarrow> url_values \<Rightarrow> string
   \<Rightarrow> database \<Rightarrow> web_handler \<Rightarrow> web_handler \<times> web_move" where
  "look_up env now i ticket parts q client db h =
     (case credentials env ticket of
        (g, token, None) \<Rightarrow> (h, reply_with (web_fail DbFailed))
      | (g, token, Some fp) \<Rightarrow>
         (case rateAllowed now (''grant:'' @ g) 120 h of
            (False, h) \<Rightarrow> (h, reply_with (Refuse 429 []))
          | (True, h) \<Rightarrow>
             (h, case transact (wi_store i) (GetDelegationByTicket now db g (sha256Hex ticket)) of
                   Inl e \<Rightarrow> if e = ErrNotFound \<and> length parts = 3 then go_on (Creating ticket parts q client)
                            else reply_with (web_fail e)
                 | Inr v \<Rightarrow> if length parts = 3 \<and> rv_status v = VPending then reply_with (AskOwner v)
                            else go_on (Resolving ticket parts q v))))"

definition request_label :: "url_values \<Rightarrow> string" where
  "request_label q = (if Values_Get q ''label'' = [] then ''WebFetch AI'' else Values_Get q ''label'')"

definition create_request ::
  "webfetch_env \<Rightarrow> gotime \<Rightarrow> web_input \<Rightarrow> string \<Rightarrow> string list \<Rightarrow> url_values \<Rightarrow> string
   \<Rightarrow> database \<Rightarrow> web_handler \<Rightarrow> (database \<times> web_handler) \<times> web_move" where
  "create_request env now i ticket parts q client db h =
     (case credentials env ticket of
        (g, token, None) \<Rightarrow> ((db, h), reply_with (web_fail DbFailed))
      | (g, token, Some fp) \<Rightarrow>
         if \<not> now < issued_at ticket + RequestWindow then ((db, h), reply_with (web_fail ErrExpired))
         else case rateAllowed now (''new:'' @ client) 10 h of
            (False, h) \<Rightarrow> ((db, h), reply_with (Refuse 429 []))
          | (True, h) \<Rightarrow>
             (let label = request_label q in
              if length label > 120 \<or> ContainsAny label {CR, LF, NUL} \<or> \<not> utf8_Valid (bytes label)
              then ((db, h), reply_with (Refuse 400 []))
              else case transact (wi_store i) (CreateDelegation now \<lparr>n_id = g, n_ticket = sha256Hex ticket,
                        n_token = sha256Hex token, n_label = label, n_controller = fp,
                        n_expires = issued_at ticket + RequestWindow\<rparr> db) of
                 Inl e \<Rightarrow> ((db, h), reply_with (web_fail e))
               | Inr (v, db) \<Rightarrow> ((db, h), if rv_status v = VPending then reply_with (AskOwner v)
                                          else go_on (Resolving ticket parts q v))))"

text \<open>The check that the ticket's grant stands, and what the path asks for under it.\<close>

definition resolve_request ::
  "webfetch_env \<Rightarrow> gotime \<Rightarrow> web_input \<Rightarrow> string \<Rightarrow> string list \<Rightarrow> url_values \<Rightarrow> request_view
   \<Rightarrow> database \<Rightarrow> web_move" where
  "resolve_request env now i ticket parts q v db =
     (case credentials env ticket of (g, token, fp) \<Rightarrow>
      (case (if wi_store i then PGResolveAccess now db token else None) of
         None \<Rightarrow> reply_with (Refuse 403 ''access_denied'')
       | Some a \<Rightarrow>
           if \<not> delegated a \<or> a_grant a \<noteq> g \<or> rv_status v \<noteq> VApproved \<or> Some (a_controllerFP a) \<noteq> fp
           then reply_with (Refuse 403 ''access_denied'')
           else if length parts = 3 then reply_with (Manifest a)
           else if length parts = 4 \<and> parts ! 3 = ''call'' then
            (case parseOperation q of
               Inl e \<Rightarrow> reply_with (Refuse 400 ''invalid_parameters'')
             | Inr p \<Rightarrow> if \<not> Allows now a (o_target p) then reply_with (Refuse 403 ''target_not_allowed'')
                        else go_on (Finding ticket q p a v))
           else if length parts = 5 \<and> parts ! 3 = ''jobs'' then go_on (ReadingJob ticket parts a)
           else reply_with (Refuse 404 [])))"

definition job_reply :: "gotime \<Rightarrow> djob_row \<Rightarrow> bool \<Rightarrow> operation \<Rightarrow> access \<Rightarrow> web_reply" where
  "job_reply now j duplicate p a =
     JobReply j duplicate (jobState (jb_state j) now (effectiveDeadline (jb_created j) (op_timeout p) (a_expires a)))"

definition find_job ::
  "gotime \<Rightarrow> web_input \<Rightarrow> string \<Rightarrow> url_values \<Rightarrow> operation \<Rightarrow> access \<Rightarrow> request_view \<Rightarrow> database \<Rightarrow> web_move" where
  "find_job now i ticket q p a v db =
     (case transact (wi_store i) (FindJob db (grant_id ticket) (Values_Get q ''rid'')) of
        Inr j \<Rightarrow> if jb_hash j \<noteq> sha256Hex (op_payload p) then reply_with conflict_reply else reply_with (job_reply now j True p a)
      | Inl e \<Rightarrow> if e = ErrNotFound then go_on (Reserving ticket q p a v) else reply_with (web_fail e))"

definition take_slot ::
  "string \<Rightarrow> url_values \<Rightarrow> operation \<Rightarrow> access \<Rightarrow> request_view \<Rightarrow> web_handler \<Rightarrow> web_handler \<times> web_move" where
  "take_slot ticket q p a v h =
     (case reserve_slot (grant_id ticket) h of
        (False, h) \<Rightarrow> (h, reply_with (Refuse 429 ''adapter_busy''))
      | (True, h) \<Rightarrow> (h, go_on (Beginning ticket q p a v)))"

definition begin_job ::
  "webfetch_env \<Rightarrow> gotime \<Rightarrow> web_input \<Rightarrow> string \<Rightarrow> url_values \<Rightarrow> operation \<Rightarrow> access \<Rightarrow> request_view
   \<Rightarrow> database \<Rightarrow> web_handler \<Rightarrow> (database \<times> web_handler) \<times> web_move" where
  "begin_job env now i ticket q p a v db h =
     (let g = grant_id ticket; payload = op_payload p in
      case transact (wi_store i) (BeginJob now g (Values_Get q ''rid'') (sha256Hex payload) payload True (wi_random i) db) of
        Inl e \<Rightarrow> ((db, release_slot g h), reply_with (if e = ErrConflict then conflict_reply else web_fail e))
      | Inr ((j, fresh), db) \<Rightarrow>
          if fresh
          then ((db, h), (Some (job_reply now j False p a),
                          [Starting \<lparr>wk_job = j, wk_request = v, wk_token = ticket_token env ticket, wk_op = p\<rparr>]))
          else ((db, release_slot g h), reply_with (job_reply now j True p a)))"

definition read_job ::
  "webfetch_env \<Rightarrow> gotime \<Rightarrow> web_input \<Rightarrow> string \<Rightarrow> string list \<Rightarrow> access \<Rightarrow> database \<Rightarrow> web_move" where
  "read_job env now i ticket parts a db =
     (case transact (wi_store i) (GetJob db (grant_id ticket) (parts ! 4)) of
        Inl e \<Rightarrow> reply_with (web_fail e)
      | Inr j \<Rightarrow>
         (case we_unmarshal env (jb_payload j) of
            None \<Rightarrow> reply_with (web_fail ErrForbidden)
          | Some p \<Rightarrow> if \<not> Allows now a (o_target p) then reply_with (web_fail ErrForbidden)
                      else reply_with (job_reply now j False p a)))"

text \<open>\<open>execute\<close>: the checks before the device is asked, and the only keys its controller trusts.\<close>

definition pin_step :: "gotime \<Rightarrow> trust_store option \<Rightarrow> device_ref \<Rightarrow> trust_store option" where
  "pin_step now known d =
     (case known of None \<Rightarrow> None
      | Some s \<Rightarrow> (case Pin now StoreDone (Target d) (d_fingerprint d) False NoTrustFile s of
                     (None, f, s) \<Rightarrow> Some s | (Some e, f, s) \<Rightarrow> None))"

definition pin_devices :: "gotime \<Rightarrow> device_ref list \<Rightarrow> trust_store option" where
  "pin_devices now ds = foldl (pin_step now) (Some NewMemStore) ds"

definition did_not_start :: "web_work \<Rightarrow> string \<Rightarrow> web_move" where
  "did_not_start w why = go_on (Finishing w ''failed'' (web_result0\<lparr>wr_error := Some why\<rparr>))"

definition start_operation :: "webfetch_env \<Rightarrow> gotime \<Rightarrow> web_input \<Rightarrow> web_work \<Rightarrow> database \<Rightarrow> web_move" where
  "start_operation env now i w db =
     (case (if wi_store i then PGResolveAccess now db (wk_token w) else None) of
        None \<Rightarrow> did_not_start w ''delegation is no longer valid; operation did not start''
      | Some a \<Rightarrow>
          if \<not> delegated a \<or> a_grant a \<noteq> jb_grant (wk_job w) \<or> \<not> Allows now a (o_target (wk_op w))
          then did_not_start w ''delegation is no longer valid; operation did not start''
          else
           (let deadline = effectiveDeadline (jb_created (wk_job w)) (op_timeout (wk_op w)) (a_expires a) in
            if \<not> now < deadline then did_not_start w ''job expired before dispatch; operation did not start''
            else case controller_identity env (jb_grant (wk_job w)) of
              None \<Rightarrow> did_not_start w ''controller identity unavailable''
            | Some fp \<Rightarrow>
                if fp \<noteq> a_controllerFP a then did_not_start w ''controller identity changed; request a new delegation''
                else case pin_devices now (a_devices a) of
                  None \<Rightarrow> did_not_start w ''invalid approved device identity''
                | Some known \<Rightarrow> go_on (OnDevice w a deadline known)))"

definition operation_done :: "webfetch_env \<Rightarrow> web_input \<Rightarrow> web_work \<Rightarrow> web_move" where
  "operation_done env i w =
     (let (state, result) = operation_outcome (we_ownerLink env) (wk_op w) (wi_outcome i)
      in go_on (Finishing w state result))"

definition finish_operation ::
  "webfetch_env \<Rightarrow> web_input \<Rightarrow> web_work \<Rightarrow> string \<Rightarrow> web_result \<Rightarrow> database \<Rightarrow> web_handler
   \<Rightarrow> (database \<times> web_handler) \<times> web_move" where
  "finish_operation env i w state result db h =
     (let g = jb_grant (wk_job w) in
      ((case transact (wi_store i) (FinishJob g (jb_id (wk_job w)) state (we_encode env result) True db) of
          Inl e \<Rightarrow> db | Inr (u, db) \<Rightarrow> db, release_slot g h), (None, [])))"

subsection \<open>One step of a request\<close>

primrec advance ::
  "webfetch_env \<Rightarrow> gotime \<Rightarrow> web_input \<Rightarrow> web_phase \<Rightarrow> database \<times> web_handler \<Rightarrow> (database \<times> web_handler) \<times> web_move" where
  "advance env now i (Looking ticket parts q client) s =
     (let (h, m) = look_up env now i ticket parts q client (fst s) (snd s) in ((fst s, h), m))"
| "advance env now i (Creating ticket parts q client) s = create_request env now i ticket parts q client (fst s) (snd s)"
| "advance env now i (Resolving ticket parts q v) s = (s, resolve_request env now i ticket parts q v (fst s))"
| "advance env now i (Finding ticket q p a v) s = (s, find_job now i ticket q p a v (fst s))"
| "advance env now i (Reserving ticket q p a v) s =
     (let (h, m) = take_slot ticket q p a v (snd s) in ((fst s, h), m))"
| "advance env now i (Beginning ticket q p a v) s = begin_job env now i ticket q p a v (fst s) (snd s)"
| "advance env now i (ReadingJob ticket parts a) s = (s, read_job env now i ticket parts a (fst s))"
| "advance env now i (Starting w) s = (s, start_operation env now i w (fst s))"
| "advance env now i (OnDevice w a deadline known) s = (s, operation_done env i w)"
| "advance env now i (Finishing w state result) s = finish_operation env i w state result (fst s) (snd s)"

end
