(* ===== verification/WebRuns.thy ===== *)
theory WebRuns
  imports WebFetch DatabaseInvariant
begin

text \<open>
  Runs of the WebFetch adapter beside everything else that writes the account database.
  Requests arrive at any time with the tickets of \<open>T\<close>; each goes on phase by phase, mixed
  with the phases of all the others; the portal, the relay and the clean-up write the
  database in between; the process may restart and lose what it had in memory. Only the
  adapter creates requests and keeps the job ledger, so those calls belong to its phases.
  \<open>ws_log\<close> is the history of what devices were asked to do.
\<close>

record device_call =
  dc_work :: web_work
  dc_access :: access
  dc_deadline :: gotime
  dc_known :: trust_store
  dc_at :: gotime

record web_state =
  ws_now :: gotime
  ws_db :: database
  ws_handler :: web_handler
  ws_phases :: "web_phase list"
  ws_log :: "device_call list"

fun calls_of :: "gotime \<Rightarrow> web_phase \<Rightarrow> device_call list" where
  "calls_of now (OnDevice w a deadline known) =
     [\<lparr>dc_work = w, dc_access = a, dc_deadline = deadline, dc_known = known, dc_at = now\<rparr>]"
| "calls_of now ph = []"

fun own_call :: "db_call \<Rightarrow> bool" where
  "own_call (CCreate n) = True"
| "own_call (CBegin g r h p j y) = True"
| "own_call (CFinish g i s r j) = True"
| "own_call c = False"

inductive web_step :: "webfetch_env \<Rightarrow> string set \<Rightarrow> web_state \<Rightarrow> web_state \<Rightarrow> bool" for env T where
  web_arrive:
    "ws_now s \<le> now \<Longrightarrow> route_request now random r = Inr (ticket, parts, q) \<Longrightarrow> ticket \<in> T \<Longrightarrow>
     web_step env T s (s\<lparr>ws_now := now, ws_phases := ws_phases s @ [Looking ticket parts q (hq_client r)]\<rparr>)"
| web_proceed:
    "ws_now s \<le> now \<Longrightarrow> ws_phases s = pre @ ph # post \<Longrightarrow>
     advance env now i ph (ws_db s, ws_handler s) = ((db, h), (reply, new)) \<Longrightarrow>
     web_step env T s (s\<lparr>ws_now := now, ws_db := db, ws_handler := h, ws_phases := pre @ new @ post,
                        ws_log := ws_log s @ concat (map (calls_of now) new)\<rparr>)"
| web_elsewhere:
    "ws_now s \<le> now \<Longrightarrow> \<not> own_call c \<Longrightarrow>
     web_step env T s (s\<lparr>ws_now := now, ws_db := exec_call (we_x env) now c (ws_db s)\<rparr>)"
| web_restart:
    "ws_now s \<le> now \<Longrightarrow> web_step env T s (s\<lparr>ws_now := now, ws_handler := NewHandler, ws_phases := []\<rparr>)"

definition web_start :: "web_state \<Rightarrow> bool" where
  "web_start s \<longleftrightarrow> db_start (ws_now s, ws_db s) \<and> ws_handler s = NewHandler \<and> ws_phases s = [] \<and> ws_log s = []"

definition web_reachable :: "webfetch_env \<Rightarrow> string set \<Rightarrow> web_state \<Rightarrow> bool" where
  "web_reachable env T s \<longleftrightarrow> (\<exists>s0. web_start s0 \<and> (web_step env T)\<^sup>*\<^sup>* s0 s)"

subsection \<open>What a phase does to the database\<close>

lemmas move_defs = reply_with_def go_on_def did_not_start_def

lemma advance_create:
  assumes "advance env now i (Creating ticket parts q client) (db, h) = ((db', h'), (reply, new))"
  obtains "db' = db" | n v where "CreateDelegation now n db = Inr (v, db')" "n_id n = grant_id ticket"
     "n_expires n = issued_at ticket + RequestWindow" "n_ticket n = sha256Hex ticket"
  using assms by (auto simp: create_request_def credentials_def Let_def transact_def split: option.splits if_splits sum.splits prod.splits bool.splits)

lemma advance_begin:
  assumes "advance env now i (Beginning ticket q p a v) (db, h) = ((db', h'), (reply, new))"
  obtains (kept) "db' = db" "h' = release_slot (grant_id ticket) h" "new = []"
  | (began) j where "BeginJob now (grant_id ticket) (Values_Get q ''rid'') (sha256Hex (op_payload p)) (op_payload p) True (wi_random i) db
       = Inr ((j, True), db')" "h' = h"
     "new = [Starting \<lparr>wk_job = j, wk_request = v, wk_token = ticket_token env ticket, wk_op = p\<rparr>]"
     "reply = Some (job_reply now j False p a)"
proof (cases "transact (wi_store i) (BeginJob now (grant_id ticket) (Values_Get q ''rid'') (sha256Hex (op_payload p)) (op_payload p) True (wi_random i) db)")
  case (Inl e)
  then show thesis using assms by (intro kept) (auto simp: begin_job_def Let_def move_defs)
next
  case (Inr r)
  obtain j fresh d where r: "r = ((j, fresh), d)" by (cases r; cases "fst r") auto
  then have b: "BeginJob now (grant_id ticket) (Values_Get q ''rid'') (sha256Hex (op_payload p)) (op_payload p) True (wi_random i) db = Inr ((j, fresh), d)"
    using Inr by (simp add: transact_def split: if_splits)
  show thesis
  proof (cases fresh)
    case True
    then show thesis using assms b Inr r by (intro began) (auto simp: begin_job_def Let_def move_defs)
  next
    case False
    with b have "d = db" by (cases rule: BeginJob_elim) simp_all
    then show thesis using assms False Inr r by (intro kept) (auto simp: begin_job_def Let_def move_defs)
  qed
qed

lemma advance_finish:
  assumes "advance env now i (Finishing w state result) (db, h) = ((db', h'), (reply, new))"
  obtains "h' = release_slot (jb_grant (wk_job w)) h" "new = []"
    "db' = db \<or> FinishJob (jb_grant (wk_job w)) (jb_id (wk_job w)) state (we_encode env result) True db = Inr ((), db')"
  using assms by (auto simp: finish_operation_def Let_def transact_def split: if_splits sum.splits)

lemma advance_db:
  assumes "advance env now i ph (db, h) = ((db', h'), m)"
  shows "db' = db \<or> (\<exists>c. own_call c \<and> db' = exec_call (we_x env) now c db)"
proof (cases ph)
  case (Creating ticket parts q client)
  obtain reply new where m: "m = (reply, new)" by (cases m)
  show ?thesis
  proof (rule advance_create [OF assms [unfolded Creating m]])
    fix n v assume "CreateDelegation now n db = Inr (v, db')"
    then have "db' = exec_call (we_x env) now (CCreate n) db" by simp
    then show ?thesis using own_call.simps(1) by blast
  qed simp
next
  case (Beginning ticket q p a v)
  obtain reply new where m: "m = (reply, new)" by (cases m)
  show ?thesis
  proof (rule advance_begin [OF assms [unfolded Beginning m]])
    fix j assume "BeginJob now (grant_id ticket) (Values_Get q ''rid'') (sha256Hex (op_payload p)) (op_payload p) True (wi_random i) db
       = Inr ((j, True), db')"
    then have "db' = exec_call (we_x env) now (CBegin (grant_id ticket) (Values_Get q ''rid'') (sha256Hex (op_payload p)) (op_payload p) True (wi_random i)) db"
      by simp
    then show ?thesis using own_call.simps(2) by blast
  qed simp
next
  case (Finishing w state result)
  obtain reply new where m: "m = (reply, new)" by (cases m)
  show ?thesis
  proof (rule advance_finish [OF assms [unfolded Finishing m]])
    assume "db' = db \<or> FinishJob (jb_grant (wk_job w)) (jb_id (wk_job w)) state (we_encode env result) True db = Inr ((), db')"
    then have "db' = db \<or> db' = exec_call (we_x env) now (CFinish (jb_grant (wk_job w)) (jb_id (wk_job w)) state (we_encode env result) True) db"
      by auto
    then show ?thesis using own_call.simps(3) by blast
  qed
qed (use assms in \<open>auto split: prod.splits\<close>)

lemma web_db_step:
  assumes "web_step env T s s'"
  shows "(db_step (we_x env))\<^sup>*\<^sup>* (ws_now s, ws_db s) (ws_now s', ws_db s')"
proof -
  have one: "(db_step (we_x env))\<^sup>*\<^sup>* (t, db) (now, exec_call (we_x env) now c db)" if "t \<le> now" for t now c db
    using db_calls [OF that] by blast
  have idle: "(db_step (we_x env))\<^sup>*\<^sup>* (t, db) (now, db)" if "t \<le> now" for t now db
    using one [OF that, where c = "CCleanup 0 (\<lambda>_. False)" and db = db] by (simp add: MinRetention_def MaxGrantMinutes_def)
  show ?thesis using assms
  proof (cases rule: web_step.cases)
    case (web_proceed now pre ph post i db h reply new)
    then show ?thesis using advance_db [OF web_proceed(4)] one [OF web_proceed(2)] idle [OF web_proceed(2)] by auto
  qed (simp_all add: one idle)
qed

subsection \<open>Slots\<close>

fun slot_of :: "web_phase \<Rightarrow> string list" where
  "slot_of (Beginning ticket q p a v) = [grant_id ticket]"
| "slot_of (Starting w) = [jb_grant (wk_job w)]"
| "slot_of (OnDevice w a deadline known) = [jb_grant (wk_job w)]"
| "slot_of (Finishing w state result) = [jb_grant (wk_job w)]"
| "slot_of ph = []"

definition slots :: "web_phase list \<Rightarrow> string list" where
  "slots phs = concat (map slot_of phs)"

lemma slots_simps [simp]: "slots [] = []" "slots (ph # phs) = slot_of ph @ slots phs" "slots (phs @ phs') = slots phs @ slots phs'"
  by (simp_all add: slots_def)

definition slots_ok :: "web_handler \<Rightarrow> web_phase list \<Rightarrow> bool" where
  "slots_ok h phs \<longleftrightarrow> distinct (map fst (wh_running h)) \<and> (\<forall>(g, n) \<in> set (wh_running h). 1 \<le> n)
     \<and> wh_total h = int (length (slots phs)) \<and> (\<forall>g. running_of h g = int (count_list (slots phs) g))
     \<and> wh_total h \<le> maxOperations \<and> (\<forall>g. running_of h g \<le> maxOperationsPerGrant)"

lemma rateAllowed_slots:
  assumes "rateAllowed now key limit h = (ok, h')"
  shows "wh_running h' = wh_running h \<and> wh_total h' = wh_total h"
  using assms by (auto simp: rateAllowed_def Let_def split: if_splits)

lemma slots_same: "slots_ok h phs \<Longrightarrow> wh_running h' = wh_running h \<Longrightarrow> wh_total h' = wh_total h \<Longrightarrow>
    length (slots phs') = length (slots phs) \<Longrightarrow> (\<And>g. count_list (slots phs') g = count_list (slots phs) g) \<Longrightarrow> slots_ok h' phs'"
proof -
  assume a: "slots_ok h phs" "wh_running h' = wh_running h" "wh_total h' = wh_total h"
    "length (slots phs') = length (slots phs)" "\<And>g. count_list (slots phs') g = count_list (slots phs) g"
  then have "running_of h' g = running_of h g" for g by (simp add: running_of_def)
  then show ?thesis using a unfolding slots_ok_def by metis
qed

lemma reserve_slots:
  assumes ok: "slots_ok h phs" and r: "reserve_slot g h = (True, h')"
    and l: "length (slots phs') = Suc (length (slots phs))"
    and c: "\<And>k. count_list (slots phs') k = count_list (slots phs) k + (if k = g then 1 else 0)"
  shows "slots_ok h' phs'"
proof -
  have h: "h' = h\<lparr>wh_running := al_put g (running_of h g + 1) (wh_running h), wh_total := wh_total h + 1\<rparr>"
    "wh_total h < maxOperations" "running_of h g < maxOperationsPerGrant"
    using r by (auto simp: reserve_slot_def split: if_splits)
  have run: "running_of h' k = running_of h k + (if k = g then 1 else 0)" for k by (simp add: h(1) running_of_def)
  have n: "1 \<le> n" if "(k, n) \<in> set (wh_running h')" for k n
    using set_al_put_sub [of "(k, n)" g "running_of h g + 1" "wh_running h"] that ok by (auto simp: h(1) slots_ok_def)
  have "running_of h' k \<le> maxOperationsPerGrant" for k
    using ok h(3) unfolding run by (auto simp: slots_ok_def)
  then show ?thesis using ok n h(2) unfolding slots_ok_def run c l by (auto simp: h(1))
qed

lemma release_slots:
  assumes ok: "slots_ok h phs" and l: "Suc (length (slots phs')) = length (slots phs)"
    and c: "\<And>k. count_list (slots phs) k = count_list (slots phs') k + (if k = g then 1 else 0)"
  shows "slots_ok (release_slot g h) phs'"
proof -
  let ?m = "al_put g (running_of h g - 1) (wh_running h)"
  have g: "running_of h g = int (count_list (slots phs') g) + 1" using ok c [of g] by (simp add: slots_ok_def)
  have tot: "wh_total (release_slot g h) = wh_total h - 1" by (simp add: release_slot_def Let_def)
  have m: "wh_running (release_slot g h) = (if running_of h g \<le> 1 then al_del g ?m else ?m)"
    by (simp add: release_slot_def Let_def running_of_def)
  have run: "running_of (release_slot g h) k = running_of h k - (if k = g then 1 else 0)" for k
    using g by (simp add: running_of_def m)
  have n: "1 \<le> n" if "(k, n) \<in> set (wh_running (release_slot g h))" for k n
  proof -
    have "(k, n) \<in> set ?m" "k = g \<Longrightarrow> \<not> running_of h g \<le> 1" using that unfolding m by (auto simp: set_al_del split: if_splits)
    moreover have "n = running_of h g - 1" if "k = g"
    proof -
      have "distinct (map fst ?m)" using ok by (simp add: slots_ok_def)
      from map_of_is_SomeI [OF this \<open>(k, n) \<in> set ?m\<close>] show ?thesis using that by simp
    qed
    moreover have "1 \<le> n" if "k \<noteq> g"
      using set_al_put_sub [OF \<open>(k, n) \<in> set ?m\<close>] that ok by (auto simp: slots_ok_def)
    ultimately show ?thesis by linarith
  qed
  have "distinct (map fst (wh_running (release_slot g h)))" using ok by (simp add: m slots_ok_def)
  moreover have "running_of (release_slot g h) k \<le> maxOperationsPerGrant" for k
    using ok unfolding run by (smt (verit, best) slots_ok_def)
  moreover have "running_of (release_slot g h) k = int (count_list (slots phs') k)" for k
    using ok c [of k] unfolding run by (simp add: slots_ok_def)
  ultimately show ?thesis using ok n l unfolding slots_ok_def tot by auto
qed

lemma advance_slots:
  assumes "advance env now i ph (db, h) = ((db', h'), (reply, new))"
  obtains (same) "wh_running h' = wh_running h" "wh_total h' = wh_total h" "slots new = slot_of ph"
  | (took) g where "slot_of ph = []" "slots new = [g]" "reserve_slot g h = (True, h')"
  | (gave) g where "slot_of ph = [g]" "slots new = []" "h' = release_slot g h"
proof (cases ph)
  case (Looking ticket parts q client)
  then show thesis using assms
    by (intro same) (auto simp: look_up_def credentials_def Let_def move_defs dest!: rateAllowed_slots split: option.splits prod.splits bool.splits sum.splits if_splits)
next
  case (Creating ticket parts q client)
  then show thesis using assms
    by (intro same) (auto simp: create_request_def credentials_def Let_def move_defs dest!: rateAllowed_slots split: option.splits prod.splits bool.splits sum.splits if_splits)
next
  case (Resolving ticket parts q v)
  then show thesis using assms
    by (intro same) (auto simp: resolve_request_def credentials_def Let_def move_defs split: option.splits sum.splits if_splits)
next
  case (Finding ticket q p a v)
  then show thesis using assms
    by (intro same) (auto simp: find_job_def move_defs split: sum.splits if_splits)
next
  case (Reserving ticket q p a v)
  show thesis
  proof (cases "reserve_slot (grant_id ticket) h")
    case (Pair ok k)
    show thesis
    proof (cases ok)
      case True
      then show thesis using assms Pair Reserving by (intro took) (auto simp: take_slot_def move_defs)
    next
      case False
      then have "k = h" using Pair by (auto simp: reserve_slot_def split: if_splits)
      then show thesis using assms Pair Reserving False by (intro same) (auto simp: take_slot_def move_defs)
    qed
  qed
next
  case (Beginning ticket q p a v)
  show thesis
  proof (rule advance_begin [OF assms [unfolded Beginning]])
    assume "db' = db" "h' = release_slot (grant_id ticket) h" "new = []"
    then show thesis using Beginning by (intro gave) simp_all
  next
    fix j assume b: "BeginJob now (grant_id ticket) (Values_Get q ''rid'') (sha256Hex (op_payload p)) (op_payload p) True (wi_random i) db
       = Inr ((j, True), db')" and new: "new = [Starting \<lparr>wk_job = j, wk_request = v, wk_token = ticket_token env ticket, wk_op = p\<rparr>]"
      and h: "h' = h"
    from b have "jb_grant j = grant_id ticket" by (cases rule: BeginJob_elim) simp_all
    then show thesis using Beginning new h by (intro same) simp_all
  qed
next
  case (ReadingJob ticket parts a)
  then show thesis using assms
    by (intro same) (auto simp: read_job_def move_defs split: sum.splits option.splits if_splits)
next
  case (Starting w)
  then show thesis using assms
    by (intro same) (auto simp: start_operation_def Let_def move_defs split: option.splits if_splits)
next
  case (OnDevice w a deadline known)
  then show thesis using assms
    by (intro same) (auto simp: operation_done_def move_defs split: prod.splits)
next
  case (Finishing w state result)
  show thesis by (rule advance_finish [OF assms [unfolded Finishing]], rule gave) (simp_all add: Finishing)
qed

lemma slots_step:
  assumes "web_step env T s s'" "slots_ok (ws_handler s) (ws_phases s)"
  shows "slots_ok (ws_handler s') (ws_phases s')"
  using assms(1)
proof (cases rule: web_step.cases)
  case (web_proceed now pre ph post i db h reply new)
  have ok: "slots_ok (ws_handler s) (pre @ ph # post)" using assms(2) web_proceed by simp
  have "slots_ok h (pre @ new @ post)"
  proof (rule advance_slots [OF web_proceed(4)])
    assume "wh_running h = wh_running (ws_handler s)" "wh_total h = wh_total (ws_handler s)" "slots new = slot_of ph"
    then show ?thesis by (intro slots_same [OF ok]) simp_all
  next
    fix g assume "slot_of ph = []" "slots new = [g]" "reserve_slot g (ws_handler s) = (True, h)"
    then show ?thesis by (intro reserve_slots [OF ok, of g]) simp_all
  next
    fix g assume g: "slot_of ph = [g]" "slots new = []" "h = release_slot g (ws_handler s)"
    show ?thesis unfolding g(3) by (rule release_slots [OF ok]) (simp_all add: g)
  qed
  then show ?thesis by (simp add: web_proceed)
next
  case web_restart
  then show ?thesis by (simp add: slots_ok_def NewHandler_def running_of_def maxOperations_def maxOperationsPerGrant_def)
qed (use assms(2) in \<open>auto simp: slots_ok_def\<close>)

end
