(* ===== verification/WebInvariant.thy ===== *)
theory WebInvariant
  imports WebRuns "HOL-Library.Multiset"
begin

text \<open>
  What holds in every state of the WebFetch adapter: the account database is one of its own
  runs, every slot belongs to an operation under way, every request was made with a ticket
  of \<open>T\<close>, and the operations ever begun are different ones: each still has its row in the
  ledger of jobs, or its grant was cleaned away after its ticket could make no new one.
\<close>

subsection \<open>Calls from elsewhere\<close>

lemma elsewhere_requests:
  assumes "\<not> own_call c" "q \<in> set (drequests (exec_call x now c db))"
  shows "\<exists>p \<in> set (drequests db). rq_id p = rq_id q \<and> rq_created p = rq_created q \<and> rq_expires p = rq_expires q"
proof -
  let ?Q = "\<lambda>d. \<forall>q \<in> set (drequests d). \<exists>p \<in> set (drequests db). rq_id p = rq_id q \<and> rq_created p = rq_created q \<and> rq_expires p = rq_expires q"
  have o: "?Q db" by blast
  note commit = commit_cases [where Q = ?Q, OF _ o]
  consider "TRequests \<notin> writes c" | p n where "c = CApprove p n" | i ns where "c = CReject i ns" | w l where "c = CCleanup w l"
    using assms(1) by (cases c) auto
  then have "?Q (exec_call x now c db)"
  proof cases
    case 1
    then show ?thesis using frame_drequests by auto
  next
    case (2 p n)
    show ?thesis unfolding 2 exec_call.simps
    proof (rule commit)
      fix v db' assume "ApproveDelegation x now p n db = Inr (v, db')"
      then show "?Q db'"
      proof (cases rule: ApproveDelegation_elim)
        case (1 q gs)
        show ?thesis by (auto simp: 1(8) set_upd)
      qed
    qed
  next
    case (3 i ns)
    show ?thesis unfolding 3 exec_call.simps
    proof (rule commit)
      fix v db' assume "RejectDelegation x now i ns db = Inr (v, db')"
      then consider "db' = db" | P where "drequests db' = upd P (\<lambda>r. r\<lparr>rq_status := ReqRejected, rq_ns := ns, rq_decided := Some now\<rparr>) (drequests db)"
        by (auto simp: RejectDelegation_def Let_def split: if_splits sum.splits)
      then show "?Q db'" by cases (use o in simp, auto simp: set_upd)
    qed
  next
    case (4 w l)
    then show ?thesis by (auto simp: cleanupDelegationBatch_def Let_def)
  qed
  then show ?thesis using assms(2) by blast
qed

definition kept :: "database \<Rightarrow> djob_row \<Rightarrow> bool" where
  "kept db j \<longleftrightarrow> (\<exists>k \<in> set (djobs db). jb_grant k = jb_grant j \<and> jb_request k = jb_request j)"

lemma elsewhere_jobs:
  assumes "\<not> own_call c" "kept db j"
  shows "kept (exec_call x now c db) j
     \<or> (\<exists>r \<in> set (drequests db). rq_id r = jb_grant j \<and> rq_created r + MinRetention < now
          \<and> (\<forall>q \<in> set (drequests (exec_call x now c db)). rq_id q \<noteq> jb_grant j))"
proof (cases "\<exists>w l. c = CCleanup w l")
  case False
  then have "TJobs \<notin> writes c" using assms(1) by (cases c) auto
  then show ?thesis using assms(2) frame_djobs by (simp add: kept_def)
next
  case True
  then obtain w l where c: "c = CCleanup w l" by blast
  let ?rows = "cleanup_rows now (now - w) l db"
  have sub: "q \<in> set (drequests db) \<and> rq_created q < now - w" if "q \<in> set ?rows" for q
    using in_set_takeD [OF that [unfolded cleanup_rows_def]] by (simp add: cleanable_def)
  show ?thesis
  proof (cases "w < MinRetention")
    case False
    have e: "exec_call x now c db = snd (cleanupDelegationBatch now (now - w) l db)" using False by (simp add: c)
    have dr: "drequests (exec_call x now c db) = DeleteFunc (\<lambda>q. rq_id q \<in> rq_id ` set ?rows) (drequests db)"
      and dj: "djobs (exec_call x now c db) = DeleteFunc (\<lambda>j. jb_grant j \<in> rq_id ` set ?rows) (djobs db)"
      unfolding e by (simp_all add: cleanupDelegationBatch_def Let_def DeleteFunc_def)
    show ?thesis
    proof (cases "jb_grant j \<in> rq_id ` set ?rows")
      case True
      then obtain r where "r \<in> set ?rows" "rq_id r = jb_grant j" by auto
      then show ?thesis using sub [of r] False True unfolding dr by (intro disjI2 bexI [of _ r]) auto
    qed (use assms(2) in \<open>auto simp: kept_def dj\<close>)
  qed (use assms(2) c in simp)
qed

subsection \<open>Tickets\<close>

fun asks_with :: "web_phase \<Rightarrow> string list" where
  "asks_with (Starting w) = []"
| "asks_with (OnDevice w a deadline known) = []"
| "asks_with (Finishing w state result) = []"
| "asks_with ph = [ph_ticket ph]"

definition ticket_ok :: "string set \<Rightarrow> gotime \<Rightarrow> string \<Rightarrow> bool" where
  "ticket_ok T now ticket \<longleftrightarrow> ticket \<in> T \<and> issued_at ticket \<le> now + 30 * Second"

definition request_from :: "string set \<Rightarrow> string \<Rightarrow> request_row \<Rightarrow> bool" where
  "request_from T ticket r \<longleftrightarrow> ticket_ok T (rq_created r) ticket \<and> rq_id r = grant_id ticket
     \<and> rq_expires r \<le> issued_at ticket + RequestWindow"

definition tickets_ok :: "string set \<Rightarrow> web_state \<Rightarrow> bool" where
  "tickets_ok T s \<longleftrightarrow> (\<forall>ph \<in> set (ws_phases s). \<forall>ticket \<in> set (asks_with ph). ticket_ok T (ws_now s) ticket)
     \<and> (\<forall>r \<in> set (drequests (ws_db s)). \<exists>ticket. request_from T ticket r)"

lemma ticket_ok_later: "ticket_ok T t ticket \<Longrightarrow> t \<le> now \<Longrightarrow> ticket_ok T now ticket"
  by (simp add: ticket_ok_def)

lemma route_fresh:
  assumes "route_request now random r = Inr (ticket, parts, q)"
  shows "issued_at ticket \<le> now + 30 * Second"
  using assms by (auto simp: route_request_def Let_def ticketFresh_def split: sum.splits option.splits if_splits)

lemma advance_tickets:
  assumes "advance env now i ph (db, h) = ((db', h'), (reply, new))" "ph' \<in> set new"
  shows "set (asks_with ph') \<subseteq> set (asks_with ph)"
proof (cases ph)
  case (Looking ticket parts q client)
  then show ?thesis using assms
    by (auto simp: look_up_def credentials_def Let_def move_defs split: option.splits prod.splits bool.splits sum.splits if_splits)
next
  case (Creating ticket parts q client)
  then show ?thesis using assms
    by (auto simp: create_request_def credentials_def Let_def move_defs split: option.splits prod.splits bool.splits sum.splits if_splits)
next
  case (Resolving ticket parts q v)
  then show ?thesis using assms
    by (auto simp: resolve_request_def credentials_def Let_def move_defs split: option.splits sum.splits if_splits)
next
  case (Finding ticket q p a v)
  then show ?thesis using assms by (auto simp: find_job_def move_defs split: sum.splits if_splits)
next
  case (Reserving ticket q p a v)
  then show ?thesis using assms by (auto simp: take_slot_def move_defs split: prod.splits bool.splits)
next
  case (Beginning ticket q p a v)
  show ?thesis by (rule advance_begin [OF assms(1) [unfolded Beginning]]) (use assms(2) in auto)
next
  case (ReadingJob ticket parts a)
  then show ?thesis using assms by (auto simp: read_job_def move_defs split: sum.splits option.splits if_splits)
next
  case (Starting w)
  then show ?thesis using assms by (auto simp: start_operation_def Let_def move_defs split: option.splits if_splits)
next
  case (OnDevice w a deadline known)
  then show ?thesis using assms by (auto simp: operation_done_def move_defs split: prod.splits)
next
  case (Finishing w state result)
  show ?thesis by (rule advance_finish [OF assms(1) [unfolded Finishing]]) (use assms(2) in simp)
qed

text \<open>The requests after a phase: those there were, or one more, of the phase's ticket.\<close>

lemma advance_requests:
  assumes "advance env now i ph (db, h) = ((db', h'), (reply, new))"
  obtains (same) "drequests db' = drequests db"
  | (added) r ticket where "drequests db' = drequests db @ [r]" "asks_with ph = [ticket]" "rq_id r = grant_id ticket"
      "rq_created r = now" "now < issued_at ticket + RequestWindow" "rq_expires r \<le> issued_at ticket + RequestWindow"
      "djobs db' = djobs db"
proof (cases ph)
  case (Creating ticket parts q client)
  show thesis
  proof (rule advance_create [OF assms [unfolded Creating]])
    fix n v
    assume c: "CreateDelegation now n db = Inr (v, db')" and n: "n_id n = grant_id ticket" "n_expires n = issued_at ticket + RequestWindow"
    from c show thesis
    proof (cases rule: CreateDelegation_elim)
      case (2 r)
      then show thesis using n by (intro added [of r ticket]) (simp_all add: Creating)
    qed (use same in simp)
  qed (use same in simp)
next
  case (Beginning ticket q p a v)
  show thesis
  proof (rule advance_begin [OF assms [unfolded Beginning]])
    fix j assume "BeginJob now (grant_id ticket) (Values_Get q ''rid'') (sha256Hex (op_payload p)) (op_payload p) True (wi_random i) db
       = Inr ((j, True), db')"
    then show thesis by (cases rule: BeginJob_elim) (simp_all add: same)
  qed (use same in simp)
next
  case (Finishing w state result)
  show thesis
  proof (rule advance_finish [OF assms [unfolded Finishing]])
    assume "db' = db \<or> FinishJob (jb_grant (wk_job w)) (jb_id (wk_job w)) state (we_encode env result) True db = Inr ((), db')"
    then have "drequests db' = drequests db" by (auto simp: FinishJob_def Let_def split: if_splits sum.splits)
    then show thesis by (rule same)
  qed
qed (use assms same in \<open>auto split: prod.splits\<close>)

lemma tickets_step:
  assumes st: "web_step env T s s'" and ok: "tickets_ok T s"
  shows "tickets_ok T s'"
  using st
proof (cases rule: web_step.cases)
  case (web_arrive now random r ticket parts q)
  then have "ticket_ok T now ticket" using route_fresh by (simp add: ticket_ok_def)
  then show ?thesis using ok web_arrive by (auto simp: tickets_ok_def intro: ticket_ok_later)
next
  case (web_proceed now pre ph post i db h reply new)
  have "\<forall>ticket \<in> set (asks_with k). ticket_ok T now ticket" if "k \<in> set (pre @ new @ post)" for k
  proof (cases "k \<in> set new")
    case True
    have "set (asks_with k) \<subseteq> set (asks_with ph)" by (rule advance_tickets [OF web_proceed(4) True])
    then show ?thesis using ok web_proceed(2,3) by (auto simp: tickets_ok_def intro: ticket_ok_later)
  next
    case False
    then show ?thesis using ok web_proceed(2,3) that by (auto simp: tickets_ok_def intro: ticket_ok_later)
  qed
  moreover have "\<exists>ticket. request_from T ticket r" if "r \<in> set (drequests db)" for r
  proof (rule advance_requests [OF web_proceed(4)])
    fix q ticket
    assume a: "drequests db = drequests (ws_db s) @ [q]" "asks_with ph = [ticket]" "rq_id q = grant_id ticket" "rq_created q = now"
      "rq_expires q \<le> issued_at ticket + RequestWindow"
    have "ticket_ok T now ticket" using ok web_proceed(2,3) a(2) by (auto simp: tickets_ok_def intro: ticket_ok_later)
    then have "request_from T ticket q" using a by (simp add: request_from_def)
    then show ?thesis using ok that a(1) by (auto simp: tickets_ok_def)
  qed (use ok that in \<open>simp add: tickets_ok_def\<close>)
  ultimately show ?thesis by (simp add: tickets_ok_def web_proceed)
next
  case (web_elsewhere now c)
  have "\<exists>ticket. request_from T ticket r"
    if "r \<in> set (drequests (exec_call (we_x env) now c (ws_db s)))" for r
    using elsewhere_requests [OF web_elsewhere(3) that] ok unfolding tickets_ok_def request_from_def by metis
  then show ?thesis using ok web_elsewhere by (auto simp: tickets_ok_def intro: ticket_ok_later)
next
  case (web_restart now)
  then show ?thesis using ok by (simp add: tickets_ok_def)
qed

subsection \<open>What was begun\<close>

fun work_begun :: "web_phase \<Rightarrow> djob_row list" where
  "work_begun (Starting w) = [wk_job w]"
| "work_begun ph = []"

definition begun :: "web_state \<Rightarrow> djob_row list" where
  "begun s = concat (map work_begun (ws_phases s)) @ map (wk_job \<circ> dc_work) (ws_log s)"

definition op_key :: "djob_row \<Rightarrow> string \<times> string" where
  "op_key j = (jb_grant j, jb_request j)"

definition spent_rids :: "string set \<Rightarrow> gotime \<Rightarrow> database \<Rightarrow> string \<Rightarrow> bool" where
  "spent_rids T now db g \<longleftrightarrow> (\<forall>r \<in> set (drequests db). rq_id r \<noteq> g)
     \<and> (\<exists>ticket \<in> T. grant_id ticket = g \<and> issued_at ticket + RequestWindow \<le> now)"

definition begun_ok :: "string set \<Rightarrow> web_state \<Rightarrow> bool" where
  "begun_ok T s \<longleftrightarrow> distinct (map op_key (begun s))
     \<and> (\<forall>j \<in> set (begun s). kept (ws_db s) j \<or> spent_rids T (ws_now s) (ws_db s) (jb_grant j))"

text \<open>What a phase does to the ledger, and the operations begun after it.\<close>

lemma FinishJob_upd:
  assumes "FinishJob g i s r ok db = Inr (u, db')"
  shows "djobs db' = upd (\<lambda>j. jb_grant j = g \<and> jb_id j = i \<and> jb_state j = ''running'') (\<lambda>j. j\<lparr>jb_state := s, jb_result := Some r\<rparr>) (djobs db)"
  using assms by (auto simp: FinishJob_def Let_def split: if_splits sum.splits)

lemma advance_kept:
  assumes "advance env now i ph (db, h) = ((db', h'), (reply, new))" "kept db j"
  shows "kept db' j"
proof (cases ph)
  case (Creating ticket parts q client)
  show ?thesis
  proof (rule advance_create [OF assms(1) [unfolded Creating]])
    fix n v assume "CreateDelegation now n db = Inr (v, db')"
    then show ?thesis by (cases rule: CreateDelegation_elim) (use assms(2) in \<open>simp_all add: kept_def\<close>)
  qed (use assms(2) in simp)
next
  case (Beginning ticket q p a v)
  show ?thesis
  proof (rule advance_begin [OF assms(1) [unfolded Beginning]])
    fix j' assume "BeginJob now (grant_id ticket) (Values_Get q ''rid'') (sha256Hex (op_payload p)) (op_payload p) True (wi_random i) db
       = Inr ((j', True), db')"
    then show ?thesis by (cases rule: BeginJob_elim) (use assms(2) in \<open>auto simp: kept_def\<close>)
  qed (use assms(2) in simp)
next
  case (Finishing w state result)
  show ?thesis
  proof (rule advance_finish [OF assms(1) [unfolded Finishing]])
    assume "db' = db \<or> FinishJob (jb_grant (wk_job w)) (jb_id (wk_job w)) state (we_encode env result) True db = Inr ((), db')"
    then consider "db' = db" | P f where "djobs db' = upd P f (djobs db)" "\<And>j. jb_grant (f j) = jb_grant j \<and> jb_request (f j) = jb_request j"
      by (fastforce dest: FinishJob_upd)
    then show ?thesis
    proof cases
      case 2
      obtain k where k: "k \<in> set (djobs db)" "jb_grant k = jb_grant j" "jb_request k = jb_request j" using assms(2) by (auto simp: kept_def)
      then show ?thesis unfolding kept_def using 2 by (intro bexI [of _ "if P k then f k else k"]) (auto simp: set_upd)
    qed (use assms(2) in simp)
  qed
qed (use assms in \<open>auto split: prod.splits\<close>)

lemma advance_begun:
  assumes "advance env now i ph (db, h) = ((db', h'), (reply, new))"
  obtains (less) "mset (map (wk_job \<circ> dc_work) (concat (map (calls_of now) new)) @ concat (map work_begun new)) \<subseteq># mset (work_begun ph)"
  | (more) j where "work_begun ph = []" "map (wk_job \<circ> dc_work) (concat (map (calls_of now) new)) @ concat (map work_begun new) = [j]"
      "job_at db (jb_grant j) (jb_request j) = None" "\<exists>r \<in> set (drequests db). rq_id r = jb_grant j" "kept db' j"
proof (cases ph)
  case (Looking ticket parts q client)
  then show thesis using assms
    by (intro less) (auto simp: look_up_def credentials_def Let_def move_defs split: option.splits prod.splits bool.splits sum.splits if_splits)
next
  case (Creating ticket parts q client)
  then show thesis using assms
    by (intro less) (auto simp: create_request_def credentials_def Let_def move_defs split: option.splits prod.splits bool.splits sum.splits if_splits)
next
  case (Resolving ticket parts q v)
  then show thesis using assms
    by (intro less) (auto simp: resolve_request_def credentials_def Let_def move_defs split: option.splits sum.splits if_splits)
next
  case (Finding ticket q p a v)
  then show thesis using assms by (intro less) (auto simp: find_job_def move_defs split: sum.splits if_splits)
next
  case (Reserving ticket q p a v)
  then show thesis using assms by (intro less) (auto simp: take_slot_def move_defs split: prod.splits bool.splits)
next
  case (Beginning ticket q p a v)
  show thesis
  proof (rule advance_begin [OF assms(1) [unfolded Beginning]])
    assume "new = []"
    then show thesis by (intro less) simp
  next
    fix j assume b: "BeginJob now (grant_id ticket) (Values_Get q ''rid'') (sha256Hex (op_payload p)) (op_payload p) True (wi_random i) db
       = Inr ((j, True), db')" and new: "new = [Starting \<lparr>wk_job = j, wk_request = v, wk_token = ticket_token env ticket, wk_op = p\<rparr>]"
    from b show thesis
    proof (cases rule: BeginJob_elim)
      case (2 w)
      have "\<exists>r \<in> set (drequests db). rq_id r = grant_id ticket"
        using 2(3) sel_Some by (fastforce simp: readDelegation_def split: option.splits)
      then show thesis using 2 new by (intro more [of j]) (simp_all add: Beginning kept_def)
    qed simp
  qed
next
  case (ReadingJob ticket parts a)
  then show thesis using assms by (intro less) (auto simp: read_job_def move_defs split: sum.splits option.splits if_splits)
next
  case (Starting w)
  then show thesis using assms by (intro less) (auto simp: start_operation_def Let_def move_defs split: option.splits if_splits)
next
  case (OnDevice w a deadline known)
  then show thesis using assms by (intro less) (auto simp: operation_done_def move_defs split: prod.splits)
next
  case (Finishing w state result)
  show thesis by (rule advance_finish [OF assms(1) [unfolded Finishing]], rule less) simp
qed

lemma spent_later:
  assumes "spent_rids T t db g" "t \<le> now" "\<And>q. q \<in> set (drequests db') \<Longrightarrow> \<exists>p \<in> set (drequests db). rq_id p = rq_id q"
  shows "spent_rids T now db' g"
  using assms unfolding spent_rids_def by (metis order_trans)

lemma distinct_submset: "mset xs \<subseteq># mset ys \<Longrightarrow> distinct ys \<Longrightarrow> distinct xs"
proof -
  assume "mset xs \<subseteq># mset ys" "distinct ys"
  then obtain zs where "mset ys = mset (xs @ zs)" by (metis ex_mset mset_append subset_mset.add_diff_inverse)
  then show ?thesis using \<open>distinct ys\<close> by (metis distinct_append mset_eq_imp_distinct_iff)
qed

lemma begun_quiet:
  assumes ok: "begun_ok T s" and sub: "mset (begun s') \<subseteq># mset (begun s)" and db: "ws_db s' = ws_db s" "ws_now s \<le> ws_now s'"
  shows "begun_ok T s'"
proof -
  have "mset (map op_key (begun s')) \<subseteq># mset (map op_key (begun s))" using sub by (simp add: image_mset_subseteq_mono)
  then have "distinct (map op_key (begun s'))" using ok by (metis begun_ok_def distinct_submset)
  moreover have "kept (ws_db s') j \<or> spent_rids T (ws_now s') (ws_db s') (jb_grant j)" if "j \<in> set (begun s')" for j
  proof -
    have "j \<in> set (begun s)" using that set_mset_mono [OF sub] by auto
    then have "kept (ws_db s) j \<or> spent_rids T (ws_now s) (ws_db s) (jb_grant j)" using ok by (simp add: begun_ok_def)
    then show ?thesis using spent_later [OF _ db(2)] db(1) by metis
  qed
  ultimately show ?thesis by (simp add: begun_ok_def)
qed

text \<open>A request made now takes no id that is spent, as no two tickets give the same id.\<close>

lemma spent_added:
  assumes "spent_rids T t db g" "t \<le> now" "inj_on grant_id T" "ticket \<in> T" "now < issued_at ticket + RequestWindow"
    "drequests db' = drequests db @ [r]" "rq_id r = grant_id ticket"
  shows "spent_rids T now db' g"
proof -
  obtain u where u: "u \<in> T" "grant_id u = g" "issued_at u + RequestWindow \<le> t" using assms(1) by (auto simp: spent_rids_def)
  have "u \<noteq> ticket" using u assms(2,5) by auto
  then have "grant_id ticket \<noteq> g" using assms(3,4) u by (auto dest: inj_onD)
  then show ?thesis using assms u by (auto simp: spent_rids_def)
qed

lemma cleaned_spent:
  assumes ok: "tickets_ok T s" and r: "r \<in> set (drequests (ws_db s))" "rq_created r + MinRetention < now"
    and gone: "\<forall>q \<in> set (drequests db'). rq_id q \<noteq> rq_id r"
  shows "spent_rids T now db' (rq_id r)"
proof -
  obtain ticket where "ticket_ok T (rq_created r) ticket" "rq_id r = grant_id ticket"
    using ok r(1) by (auto simp: tickets_ok_def request_from_def)
  then show ?thesis using gone r(2)
    by (auto simp: spent_rids_def ticket_ok_def MinRetention_def MaxGrantMinutes_def RequestWindow_def intro!: bexI [of _ ticket])
qed

lemma mset_begun: "mset (begun s) = mset (concat (map work_begun (ws_phases s))) + mset (map (wk_job \<circ> dc_work) (ws_log s))"
  by (simp add: begun_def)

lemma begun_step:
  assumes st: "web_step env T s s'" and ok: "begun_ok T s" "tickets_ok T s" and inj: "inj_on grant_id T"
  shows "begun_ok T s'"
  using st
proof (cases rule: web_step.cases)
  case (web_arrive now random r ticket parts q)
  then show ?thesis by (intro begun_quiet [OF ok(1)]) (simp_all add: begun_def)
next
  case (web_restart now)
  then show ?thesis by (intro begun_quiet [OF ok(1)]) (simp_all add: begun_def)
next
  case (web_elsewhere now c)
  let ?db = "exec_call (we_x env) now c (ws_db s)"
  have "kept ?db j \<or> spent_rids T now ?db (jb_grant j)" if "j \<in> set (begun s)" for j
  proof (cases "kept (ws_db s) j")
    case True
    from elsewhere_jobs [OF web_elsewhere(3) True] show ?thesis using cleaned_spent [OF ok(2)] by metis
  next
    case False
    then have "spent_rids T (ws_now s) (ws_db s) (jb_grant j)" using ok(1) that by (auto simp: begun_ok_def)
    then show ?thesis using elsewhere_requests [OF web_elsewhere(3)] by (intro disjI2, elim spent_later [OF _ web_elsewhere(2)]) blast
  qed
  then show ?thesis using ok(1) web_elsewhere by (simp add: begun_ok_def begun_def)
next
  case (web_proceed now pre ph post i db h reply new)
  let ?new = "map (wk_job \<circ> dc_work) (concat (map (calls_of now) new)) @ concat (map work_begun new)"
  have old: "mset (begun s) = mset (work_begun ph) + mset (concat (map work_begun (pre @ post)) @ map (wk_job \<circ> dc_work) (ws_log s))"
    by (simp add: begun_def web_proceed(3))
  have nu: "mset (begun s') = mset ?new + mset (concat (map work_begun (pre @ post)) @ map (wk_job \<circ> dc_work) (ws_log s))"
    by (simp add: begun_def web_proceed(1))
  have stays: "kept db j \<or> spent_rids T now db (jb_grant j)" if "j \<in> set (begun s)" for j
  proof (cases "kept (ws_db s) j")
    case True
    then show ?thesis using advance_kept [OF web_proceed(4)] by blast
  next
    case False
    then have sp: "spent_rids T (ws_now s) (ws_db s) (jb_grant j)" using ok(1) that by (auto simp: begun_ok_def)
    show ?thesis
    proof (rule advance_requests [OF web_proceed(4)])
      assume "drequests db = drequests (ws_db s)"
      then show ?thesis by (intro disjI2 spent_later [OF sp web_proceed(2)]) auto
    next
      fix r ticket
      assume a: "drequests db = drequests (ws_db s) @ [r]" "asks_with ph = [ticket]" "rq_id r = grant_id ticket"
        "now < issued_at ticket + RequestWindow"
      have "ticket \<in> T" using ok(2) a(2) web_proceed(3) by (auto simp: tickets_ok_def ticket_ok_def)
      then show ?thesis using spent_added [OF sp web_proceed(2) inj _ a(4,1,3)] by blast
    qed
  qed
  have "distinct (map op_key (begun s')) \<and> (\<forall>j \<in> set (begun s'). kept db j \<or> spent_rids T now db (jb_grant j))"
  proof (rule advance_begun [OF web_proceed(4)])
    assume "mset ?new \<subseteq># mset (work_begun ph)"
    then have sub: "mset (begun s') \<subseteq># mset (begun s)" unfolding old nu by simp
    then have "mset (map op_key (begun s')) \<subseteq># mset (map op_key (begun s))" by (simp add: image_mset_subseteq_mono)
    then have "distinct (map op_key (begun s'))" using ok(1) by (metis begun_ok_def distinct_submset)
    then show ?thesis using stays set_mset_mono [OF sub] by auto
  next
    fix j assume j: "work_begun ph = []" "?new = [j]" "job_at (ws_db s) (jb_grant j) (jb_request j) = None"
      "\<exists>r \<in> set (drequests (ws_db s)). rq_id r = jb_grant j" "kept db j"
    have m: "mset (begun s') = add_mset j (mset (begun s))" unfolding old nu j by simp
    have "op_key k \<noteq> op_key j" if k: "k \<in> set (begun s)" for k
    proof
      assume same: "op_key k = op_key j"
      consider "kept (ws_db s) k" | "spent_rids T (ws_now s) (ws_db s) (jb_grant k)" using ok(1) k by (auto simp: begun_ok_def)
      then show False
        by cases (use j(3,4) same in \<open>auto simp: kept_def job_at_def sel_None op_key_def spent_rids_def\<close>)
    qed
    then have "op_key j \<notin> op_key ` set (begun s)" by (metis imageE)
    then have "distinct (map op_key (j # begun s))" using ok(1) by (simp add: begun_ok_def)
    moreover have "mset (map op_key (begun s')) = mset (map op_key (j # begun s))" by (simp add: m)
    ultimately have "distinct (map op_key (begun s'))" by (metis mset_eq_imp_distinct_iff)
    moreover have "set (begun s') = insert j (set (begun s))" by (metis m set_mset_add_mset_insert set_mset_mset)
    ultimately show ?thesis using stays j(5) by simp
  qed
  then show ?thesis by (simp add: begun_ok_def web_proceed)
qed

subsection \<open>The invariant of the adapter\<close>

definition web_ok :: "webfetch_env \<Rightarrow> string set \<Rightarrow> web_state \<Rightarrow> bool" where
  "web_ok env T s \<longleftrightarrow> db_ok (we_x env) (ws_now s, ws_db s) \<and> slots_ok (ws_handler s) (ws_phases s) \<and> tickets_ok T s
     \<and> (inj_on grant_id T \<longrightarrow> begun_ok T s)"

lemma new_slots_ok: "slots_ok NewHandler []"
  by (simp add: slots_ok_def NewHandler_def running_of_def maxOperations_def maxOperationsPerGrant_def)

interpretation web: run_invariant web_start "web_step env T" "web_ok env T" for env T
proof
  fix s assume s: "web_start s"
  then have "db_ok (we_x env) (ws_now s, ws_db s)" by (intro db_reachable_ok) (auto simp: db_reachable_def web_start_def)
  moreover have "ws_db s = new_database" using s by (simp add: web_start_def db_start_def)
  ultimately show "web_ok env T s" using s new_slots_ok
    by (simp add: web_ok_def web_start_def tickets_ok_def begun_ok_def begun_def new_database_def)
next
  fix s s' assume "web_step env T s s'" "web_ok env T s"
  then show "web_ok env T s'"
    using slots_step tickets_step begun_step database.inv_from [OF web_db_step] unfolding web_ok_def by blast
qed

lemma web_reachable_ok: "web_reachable env T s \<Longrightarrow> web_ok env T s"
  unfolding web_reachable_def using web.inv_run by blast

lemma web_run_db: "(web_step env T)\<^sup>*\<^sup>* s s' \<Longrightarrow> (db_step (we_x env))\<^sup>*\<^sup>* (ws_now s, ws_db s) (ws_now s', ws_db s')"
proof (induction rule: rtranclp_induct)
  case (step u v)
  then show ?case using web_db_step by (meson rtranclp_trans)
qed simp

lemma web_reachable_db: "web_reachable env T s \<Longrightarrow> db_reachable (we_x env) (ws_now s, ws_db s)"
  unfolding web_reachable_def db_reachable_def using web_run_db web_start_def by blast

end
