(* ===== verification/WebWork.thy ===== *)
theory WebWork
  imports WebInvariant
begin

text \<open>
  The operations themselves. What \<open>parseOperation\<close> lets through is one of four tools with
  that tool's fields only, within its limits; every phase of a request and every operation
  under way carries such an operation, the job it was entered under, and its own token.
\<close>

subsection \<open>Well-formed operations\<close>

definition path_ok :: "string \<Rightarrow> bool" where
  "path_ok s \<longleftrightarrow> s \<noteq> [] \<and> length s \<le> 1024 \<and> NUL \<notin> set s"

definition only_exec :: "operation \<Rightarrow> bool" where
  "only_exec p \<longleftrightarrow> p = (new_operation ''exec'' (o_target p))\<lparr>o_command := o_command p, o_cwd := o_cwd p, o_timeout := o_timeout p\<rparr>
     \<and> o_command p \<noteq> [] \<and> length (o_command p) \<le> 2048 \<and> length (o_cwd p) \<le> 1024 \<and> NUL \<notin> set (o_command p @ o_cwd p)"

definition only_write :: "operation \<Rightarrow> bool" where
  "only_write p \<longleftrightarrow> p = (new_operation ''write_text'' (o_target p))\<lparr>o_path := o_path p, o_content := o_content p, o_timeout := o_timeout p\<rparr>
     \<and> path_ok (o_path p) \<and> length (o_content p) \<le> MaxWriteBytes \<and> utf8_Valid (bytes (o_content p))"

definition line_ok :: "int option \<Rightarrow> int \<Rightarrow> bool" where
  "line_ok n ceiling \<longleftrightarrow> (case n of None \<Rightarrow> True | Some n \<Rightarrow> 1 \<le> n \<and> n \<le> ceiling)"

definition only_read :: "operation \<Rightarrow> bool" where
  "only_read p \<longleftrightarrow> p = (new_operation ''read_text'' (o_target p))\<lparr>o_path := o_path p, o_offset := o_offset p, o_limit := o_limit p,
       o_timeout := o_timeout p\<rparr>
     \<and> path_ok (o_path p) \<and> line_ok (o_offset p) maxLineNumber \<and> line_ok (o_limit p) web_maxReadLines"

definition text_ok :: "string \<Rightarrow> bool" where
  "text_ok s \<longleftrightarrow> utf8_Valid (bytes s) \<and> NUL \<notin> set s"

definition only_edit :: "operation \<Rightarrow> bool" where
  "only_edit p \<longleftrightarrow> p = (new_operation ''edit_text'' (o_target p))\<lparr>o_path := o_path p, o_old := o_old p, o_new := o_new p,
       o_all := o_all p, o_sha := o_sha p, o_timeout := o_timeout p\<rparr>
     \<and> path_ok (o_path p) \<and> o_old p \<noteq> [] \<and> text_ok (o_old p) \<and> text_ok (o_new p) \<and> (o_sha p = [] \<or> sha256Pattern (o_sha p))"

definition op_ok :: "operation \<Rightarrow> bool" where
  "op_ok p \<longleftrightarrow> valid_target (o_target p) \<and> 1 \<le> op_timeout p \<and> op_timeout p \<le> fst (timeoutBounds (o_tool p))
     \<and> (only_exec p \<or> only_write p \<or> only_read p \<or> only_edit p)"

lemma lineParam_ok: "lineParam q key ceiling = Inr n \<Longrightarrow> line_ok n ceiling"
  by (auto simp: lineParam_def line_ok_def split: if_splits option.splits)

lemma parse_tool_ok:
  assumes "parse_tool q (new_operation tool target) = Inr p"
  shows "o_target p = target \<and> o_timeout p = None \<and> (only_exec p \<or> only_write p \<or> only_read p \<or> only_edit p)"
proof -
  have n: "o_tool (new_operation t g) = t" for t g by (simp add: new_operation_def)
  consider "tool = ''exec''" | "tool = ''write_text''" | "tool = ''read_text''" | "tool = ''edit_text''"
    using assms by (auto simp: parse_tool_def n split: if_splits)
  then show ?thesis
  proof cases
    case 1
    then have "parse_exec q (new_operation tool target) = Inr p" using assms by (simp add: parse_tool_def n)
    then have "only_exec p \<and> o_target p = target \<and> o_timeout p = None"
      by (auto simp: 1 parse_exec_def Let_def only_exec_def new_operation_def ContainsAny_def list_ex_iff split: if_splits)
    then show ?thesis by blast
  next
    case 2
    then have "parse_write q ((new_operation tool target)\<lparr>o_path := Values_Get q ''path''\<rparr>) = Inr p" "path_ok (Values_Get q ''path'')"
      using assms by (auto simp: parse_tool_def n Let_def path_ok_def ContainsAny_def list_ex_iff split: if_splits)
    then have "only_write p \<and> o_target p = target \<and> o_timeout p = None"
      by (auto simp: 2 parse_write_def Let_def only_write_def new_operation_def split: if_splits)
    then show ?thesis by blast
  next
    case 3
    then have "parse_read q ((new_operation tool target)\<lparr>o_path := Values_Get q ''path''\<rparr>) = Inr p" "path_ok (Values_Get q ''path'')"
      using assms by (auto simp: parse_tool_def n Let_def path_ok_def ContainsAny_def list_ex_iff split: if_splits)
    then have "only_read p \<and> o_target p = target \<and> o_timeout p = None"
      by (auto simp: 3 parse_read_def Let_def only_read_def new_operation_def dest: lineParam_ok split: sum.splits)
    then show ?thesis by blast
  next
    case 4
    then have "parse_edit q ((new_operation tool target)\<lparr>o_path := Values_Get q ''path''\<rparr>) = Inr p" "path_ok (Values_Get q ''path'')"
      using assms by (auto simp: parse_tool_def n Let_def path_ok_def ContainsAny_def list_ex_iff split: if_splits)
    then have "only_edit p \<and> o_target p = target \<and> o_timeout p = None"
      by (auto simp: 4 parse_edit_def Let_def only_edit_def new_operation_def text_ok_def split: if_splits)
    then show ?thesis by blast
  qed
qed

lemma only_timeout:
  "o_timeout p = None \<Longrightarrow> only_exec p \<Longrightarrow> only_exec (p\<lparr>o_timeout := n\<rparr>)"
  "o_timeout p = None \<Longrightarrow> only_write p \<Longrightarrow> only_write (p\<lparr>o_timeout := n\<rparr>)"
  "o_timeout p = None \<Longrightarrow> only_read p \<Longrightarrow> only_read (p\<lparr>o_timeout := n\<rparr>)"
  "o_timeout p = None \<Longrightarrow> only_edit p \<Longrightarrow> only_edit (p\<lparr>o_timeout := n\<rparr>)"
  by (cases p, simp add: only_exec_def new_operation_def, cases p, simp add: only_write_def new_operation_def,
      cases p, simp add: only_read_def new_operation_def, cases p, simp add: only_edit_def new_operation_def)

lemma parse_timeout_ok:
  assumes "parse_timeout q p = Inr p'" "o_timeout p = None"
  shows "\<exists>n. p' = p\<lparr>o_timeout := n\<rparr> \<and> 1 \<le> op_timeout p' \<and> op_timeout p' \<le> fst (timeoutBounds (o_tool p))"
proof (cases "Values_Get q ''timeout_seconds'' = []")
  case True
  then have "p' = p\<lparr>o_timeout := None\<rparr>" using assms by (cases p) (simp add: parse_timeout_def)
  then show ?thesis by (auto simp: op_timeout_def timeoutBounds_def MaxExecSeconds_def DefaultExecSeconds_def MaxFileSeconds_def DefaultFileSeconds_def)
next
  case False
  then show ?thesis using assms by (auto simp: parse_timeout_def Let_def op_timeout_def split: option.splits if_splits)
qed

lemma parseOperation_ok:
  assumes "parseOperation q = Inr p"
  shows "op_ok p"
proof -
  obtain p1 where p1: "valid_target (Values_Get q ''target'')" "parse_tool q (new_operation (Values_Get q ''tool'') (Values_Get q ''target'')) = Inr p1"
    "parse_timeout q p1 = Inr p"
    using assms by (auto simp: parseOperation_def Let_def new_operation_def split: if_splits sum.splits option.splits)
  note t = parse_tool_ok [OF p1(2)]
  obtain n where n: "p = p1\<lparr>o_timeout := n\<rparr>" "1 \<le> op_timeout p" "op_timeout p \<le> fst (timeoutBounds (o_tool p1))"
    using parse_timeout_ok [OF p1(3)] t by auto
  have "only_exec p \<or> only_write p \<or> only_read p \<or> only_edit p" using t only_timeout unfolding n(1) by blast
  then show ?thesis using p1(1) t n by (simp add: op_ok_def)
qed

subsection \<open>Operations under way\<close>

definition work_ok :: "webfetch_env \<Rightarrow> web_work \<Rightarrow> bool" where
  "work_ok env w \<longleftrightarrow> op_ok (wk_op w) \<and> jb_payload (wk_job w) = op_payload (wk_op w)
     \<and> jb_hash (wk_job w) = sha256Hex (op_payload (wk_op w))
     \<and> (\<exists>ticket. jb_grant (wk_job w) = grant_id ticket \<and> wk_token w = ticket_token env ticket)"

fun phase_ok :: "webfetch_env \<Rightarrow> web_phase \<Rightarrow> bool" where
  "phase_ok env (Finding ticket q p a v) = op_ok p"
| "phase_ok env (Reserving ticket q p a v) = op_ok p"
| "phase_ok env (Beginning ticket q p a v) = op_ok p"
| "phase_ok env (Starting w) = work_ok env w"
| "phase_ok env (OnDevice w a deadline known) = work_ok env w"
| "phase_ok env (Finishing w state result) = work_ok env w"
| "phase_ok env ph = True"

lemma advance_phase_ok:
  assumes "advance env now i ph (db, h) = ((db', h'), (reply, new))" "phase_ok env ph" "ph' \<in> set new"
  shows "phase_ok env ph'"
proof (cases ph)
  case (Looking ticket parts q client)
  then show ?thesis using assms
    by (auto simp: look_up_def credentials_def Let_def move_defs split: option.splits prod.splits bool.splits sum.splits if_splits)
next
  case (Creating ticket parts q client)
  then show ?thesis using assms
    by (auto simp: create_request_def credentials_def Let_def move_defs split: option.splits prod.splits bool.splits sum.splits if_splits)
next
  case (Resolving ticket parts q v)
  then show ?thesis using assms
    by (auto simp: resolve_request_def credentials_def Let_def move_defs dest: parseOperation_ok split: option.splits sum.splits if_splits)
next
  case (Finding ticket q p a v)
  then show ?thesis using assms by (auto simp: find_job_def move_defs split: sum.splits if_splits)
next
  case (Reserving ticket q p a v)
  then show ?thesis using assms by (auto simp: take_slot_def move_defs split: prod.splits bool.splits)
next
  case (Beginning ticket q p a v)
  show ?thesis
  proof (rule advance_begin [OF assms(1) [unfolded Beginning]])
    fix j assume b: "BeginJob now (grant_id ticket) (Values_Get q ''rid'') (sha256Hex (op_payload p)) (op_payload p) True (wi_random i) db
       = Inr ((j, True), db')" and new: "new = [Starting \<lparr>wk_job = j, wk_request = v, wk_token = ticket_token env ticket, wk_op = p\<rparr>]"
    from b have "jb_grant j = grant_id ticket \<and> jb_hash j = sha256Hex (op_payload p) \<and> jb_payload j = op_payload p"
      by (cases rule: BeginJob_elim) simp_all
    then show ?thesis using assms(2,3) new by (auto simp: Beginning work_ok_def)
  qed (use assms(3) in simp)
next
  case (ReadingJob ticket parts a)
  then show ?thesis using assms by (auto simp: read_job_def move_defs split: sum.splits option.splits if_splits)
next
  case (Starting w)
  then show ?thesis using assms by (auto simp: start_operation_def Let_def move_defs split: option.splits if_splits)
next
  case (OnDevice w a deadline known)
  then show ?thesis using assms by (auto simp: operation_done_def move_defs split: prod.splits)
next
  case (Finishing w state result)
  show ?thesis by (rule advance_finish [OF assms(1) [unfolded Finishing]]) (use assms(3) in simp)
qed

definition works_ok :: "webfetch_env \<Rightarrow> web_state \<Rightarrow> bool" where
  "works_ok env s \<longleftrightarrow> (\<forall>ph \<in> set (ws_phases s). phase_ok env ph) \<and> (\<forall>c \<in> set (ws_log s). work_ok env (dc_work c))"

lemma calls_of_ok: "phase_ok env ph \<Longrightarrow> c \<in> set (calls_of now ph) \<Longrightarrow> work_ok env (dc_work c)"
  by (cases ph) auto

interpretation works: run_invariant web_start "web_step env T" "works_ok env" for env T
proof
  fix s assume "web_start s"
  then show "works_ok env s" by (simp add: web_start_def works_ok_def)
next
  fix s s' assume st: "web_step env T s s'" and ok: "works_ok env s"
  from st show "works_ok env s'"
  proof (cases rule: web_step.cases)
    case (web_proceed now pre ph post i db h reply new)
    have "phase_ok env ph" using ok web_proceed(3) by (simp add: works_ok_def)
    then have n: "\<forall>k \<in> set new. phase_ok env k" using advance_phase_ok [OF web_proceed(4)] by blast
    then have "\<forall>c \<in> set (concat (map (calls_of now) new)). work_ok env (dc_work c)" using calls_of_ok by fastforce
    then show ?thesis using ok n web_proceed(3) by (auto simp: works_ok_def web_proceed(1))
  qed (use ok in \<open>auto simp: works_ok_def\<close>)
qed

lemma web_reachable_works: "web_reachable env T s \<Longrightarrow> works_ok env s"
  unfolding web_reachable_def using works.inv_run by blast

subsection \<open>The keys the temporary controller trusts\<close>

definition trusts_only :: "trust_store \<Rightarrow> device_ref list \<Rightarrow> bool" where
  "trusts_only s ds \<longleftrightarrow> (\<forall>d \<in> set ds. \<exists>p. GetByName s (Target d) = Some p \<and> p_fp p = d_fingerprint d)
     \<and> (\<forall>(k, p) \<in> set (t_m s). \<exists>d \<in> set ds. p_name p = Target d \<and> p_fp p = d_fingerprint d)"

lemma Pin_ok:
  assumes u: "pins_unique s" and ok: "trust_ok s" and P: "Pin now w name fp replace f s = (None, f', s')"
  shows "trust_ok s'"
proof -
  have v: "ValidFingerprint fp" using P by (auto simp: Pin_def split: if_splits)
  show ?thesis
  proof (rule Pin_success [OF u ok P])
    fix xs k p ys
    assume "t_m s = xs @ (k, p) # ys" "t_m s' = xs @ (k, p\<lparr>p_seen := now\<rparr>) # ys"
    then show ?thesis using ok by (auto simp: trust_ok_def store_wf_def nul_free_def)
  next
    assume a: "t_m s' = filter (\<lambda>(k, p). p_name p \<noteq> name) (t_m s) @ [(peerKey fp name, pinned now fp name)]"
    have "peerKey fp name \<notin> fst ` set (filter (\<lambda>(k, p). p_name p \<noteq> name) (t_m s))"
      by (rule pin_key_new [OF ok v]) auto
    then show ?thesis using ok ValidFingerprint_no_nul [OF v]
      by (auto simp: a trust_ok_def store_wf_def nul_free_def pinned_def distinct_map_filter)
  qed
qed

lemma Pin_strict:
  assumes u: "pins_unique s" and ok: "trust_ok s" and P: "Pin now w name fp False f s = (None, f', s')"
    and k: "(k, p) \<in> set (t_m s)" "p_name p = name"
  shows "p_fp p = fp"
proof -
  have v: "name \<noteq> []" "ValidFingerprint fp" using P by (auto simp: Pin_def split: if_splits)
  obtain ans m where pl: "pin_loop now name fp False (t_m s) (t_m s) = (ans, m)" by (rule prod.exhaust)
  from pin_loop_outcome [OF u ok v(2) pl] show ?thesis
  proof (elim disjE conjE exE)
    fix stored assume "ans = PinMismatch stored"
    then show ?thesis using P v pl by (simp add: Pin_def)
  next
    fix xs j q ys
    assume "t_m s = xs @ (j, q) # ys" "p_fp q = fp" "\<forall>(k, p) \<in> set (xs @ ys). p_name p \<noteq> name"
    then show ?thesis using k by auto
  qed (use k in auto)
qed

text \<open>Entries with a name and a key, and how a list of pins changes them.\<close>

definition pins_for :: "trust_store \<Rightarrow> string \<Rightarrow> string \<Rightarrow> bool" where
  "pins_for s name fp \<longleftrightarrow> (\<exists>k p. (k, p) \<in> set (t_m s) \<and> p_name p = name \<and> p_fp p = fp)"

lemma Pin_entries:
  assumes u: "pins_unique s" and ok: "trust_ok s" and P: "Pin now w name fp False f s = (None, f', s')"
  shows "pins_for s' n j \<longleftrightarrow> pins_for s n j \<or> n = name \<and> j = fp"
proof (cases "n = name")
  case False
  then show ?thesis using Pin_keeps(3) [OF u ok P] by (auto simp: pins_for_def)
next
  case True
  have "pins_for s' name fp" using Pin_keeps(2) [OF u ok P] by (simp add: pins_for_def)
  moreover have "p = q" if "(k, p) \<in> set (t_m s')" "(l, q) \<in> set (t_m s')" "p_name p = p_name q" for k l p q
    using Pin_keeps(1) [OF u ok P] that by (force simp: pins_unique_def distinct_map inj_on_def)
  ultimately have "pins_for s' name j \<longleftrightarrow> j = fp" unfolding pins_for_def by metis
  then show ?thesis using Pin_strict [OF u ok P] True by (auto simp: pins_for_def)
qed

lemma pin_step_None: "foldl (pin_step now) None ds = None"
  by (induction ds) (simp_all add: pin_step_def)

lemma pin_devices_entries:
  assumes "foldl (pin_step now) (Some s) ds = Some s'" "pins_unique s" "trust_ok s"
  shows "pins_unique s' \<and> (\<forall>n j. pins_for s' n j \<longleftrightarrow> pins_for s n j \<or> (\<exists>d \<in> set ds. n = Target d \<and> j = d_fingerprint d))"
  using assms
proof (induction ds arbitrary: s)
  case (Cons d ds)
  obtain e f u where P: "Pin now StoreDone (Target d) (d_fingerprint d) False NoTrustFile s = (e, f, u)" by (rule prod_cases3)
  show ?case
  proof (cases e)
    case (Some x)
    then have "pin_step now (Some s) d = None" by (simp add: pin_step_def P)
    then show ?thesis using Cons.prems(1) by (simp add: pin_step_None)
  next
    case None
    then have g: "foldl (pin_step now) (Some u) ds = Some s'" using Cons.prems(1) by (simp add: pin_step_def [of now "Some s"] P)
    note P' = P [unfolded None]
    show ?thesis
      using Cons.IH [OF g Pin_keeps(1) [OF Cons.prems(2,3) P'] Pin_ok [OF Cons.prems(2,3) P']] Pin_entries [OF Cons.prems(2,3) P']
      by auto
  qed
qed simp

lemma pin_devices_trusts:
  assumes "pin_devices now ds = Some s"
  shows "trusts_only s ds"
proof -
  have n: "pins_unique NewMemStore" "trust_ok NewMemStore" "\<not> pins_for NewMemStore m j" for m j
    by (simp_all add: NewMemStore_def pins_unique_def trust_ok_def store_wf_def nul_free_def pins_for_def)
  note e = pin_devices_entries [OF assms [unfolded pin_devices_def] n(1,2)]
  have p: "pins_for s m j \<longleftrightarrow> (\<exists>d \<in> set ds. m = Target d \<and> j = d_fingerprint d)" for m j using e n(3) by blast
  have u: "pins_unique s" using e by (rule conjunct1)
  have "\<exists>p. GetByName s (Target d) = Some p \<and> p_fp p = d_fingerprint d" if "d \<in> set ds" for d
  proof -
    have "pins_for s (Target d) (d_fingerprint d)" unfolding p using that by (rule bexI [rotated]) simp
    then obtain k q where q: "(k, q) \<in> set (t_m s)" "p_name q = Target d" "p_fp q = d_fingerprint d"
      unfolding pins_for_def by (elim exE conjE)
    have "Target d \<noteq> []" by (simp add: Target_def)
    then have "GetByName s (Target d) = Some q" unfolding find_name_iff [OF u \<open>Target d \<noteq> []\<close>] using q(1,2) by (intro conjI exI)
    then show ?thesis using q(3) by (intro exI conjI)
  qed
  moreover have "\<exists>d \<in> set ds. p_name q = Target d \<and> p_fp q = d_fingerprint d" if "(k, q) \<in> set (t_m s)" for k q
    using p [of "p_name q" "p_fp q"] that unfolding pins_for_def by blast
  ultimately show ?thesis by (auto simp: trusts_only_def)
qed

end
