(* ===== verification/WebSample.thy ===== *)
theory WebSample
  imports WebInvariant DatabaseSample
begin

text \<open>
  A run of the WebFetch adapter worked through, for the witnesses: a caller asks with a
  ticket, the owner approves one device for an hour, and the caller runs one command there.
  Nothing is hashed: the id of the grant and the credentials are kept as the terms they are.
\<close>

definition sample_env :: webfetch_env where
  "sample_env = \<lparr>we_x = sample_world, we_seed = replicate 32 0, we_identity = (\<lambda>_ _. Some sample_key),
     we_unmarshal = (\<lambda>_. None), we_encode = (\<lambda>_. ''{}''), we_ownerLink = (\<lambda>_. False)\<rparr>"

definition web_ticket :: string where "web_ticket = replicate 10 (CHR ''0'') @ ''-'' @ replicate 48 (CHR ''a'')"

definition g1 :: string where "g1 = grant_id web_ticket"
definition tok1 :: string where "tok1 = ticket_token sample_env web_ticket"
definition th1 :: string where "th1 = sha256Hex web_ticket"

lemma sha256Hex_valid: "validDelegationHash (sha256Hex s)"
  using HashToken_valid [of s] by (simp add: sha256Hex_def HashToken_def bytes_of_def bytes_def)

lemma HashToken_hex: "sha256Hex s = HashToken s"
  by (simp add: sha256Hex_def HashToken_def bytes_of_def bytes_def)

lemma g1_valid: "validDelegationID g1"
proof -
  have "list_all (\<lambda>c. ascii_between CHR ''0'' CHR ''9'' c \<or> ascii_between CHR ''a'' CHR ''f'' c) (sha256Hex web_ticket)"
    "length (sha256Hex web_ticket) = 64" using sha256Hex_valid [of web_ticket] by (simp_all add: validDelegationHash_def)
  then have "list_all id_char (take 32 (sha256Hex web_ticket))"
    by (auto simp: list_all_iff id_char_def ascii_between_def dest!: in_set_takeD)
  moreover have "id_char CHR ''d''" "id_char CHR ''_''" by code_simp+
  ultimately show ?thesis by (simp add: validDelegationID_def g1_def grant_id_def)
qed

lemma ticket_route:
  "issued_at web_ticket = 0"
  "route_request 2 None \<lparr>hq_get = True, hq_uri_len = 80, hq_origin = [], hq_path = ''/webfetch/s/'' @ web_ticket,
      hq_query = Some [], hq_client = ''c''\<rparr> = Inr (web_ticket, [''webfetch'', ''s'', web_ticket], [])"
  by code_simp+

definition call_query :: url_values where
  "call_query = [(''rid'', [''r1'']), (''tool'', [''exec'']), (''target'', [''ann/dev1'']), (''command'', [''ls''])]"

definition sample_op :: operation where
  "sample_op = (new_operation ''exec'' ''ann/dev1'')\<lparr>o_command := ''ls''\<rparr>"

lemma call_route:
  "route_request 4 None \<lparr>hq_get = True, hq_uri_len = 80, hq_origin = [], hq_path = ''/webfetch/s/'' @ web_ticket @ ''/call'',
      hq_query = Some call_query, hq_client = ''c''\<rparr> = Inr (web_ticket, [''webfetch'', ''s'', web_ticket, ''call''], call_query)"
  "parseOperation call_query = Inr sample_op" "Values_Get call_query ''rid'' = ''r1''"
  by code_simp+

lemma sample_credentials: "credentials sample_env web_ticket = (g1, tok1, Some sample_key)"
  by (simp add: credentials_def g1_def tok1_def controller_identity_def sample_env_def)

subsection \<open>The rows\<close>

definition w_asked :: request_row where
  "w_asked = \<lparr>rq_id = g1, rq_ticket = th1, rq_token = HashToken tok1, rq_label = ''WebFetch AI'', rq_controller = sample_key,
     rq_status = ReqPending, rq_ns = [], rq_tokenid = None, rq_created = 2, rq_expires = 10 * Minute, rq_decided = None\<rparr>"

definition w_approved :: request_row where
  "w_approved = w_asked\<lparr>rq_status := ReqApproved, rq_ns := ''ann'', rq_tokenid := Some 1, rq_decided := Some 3\<rparr>"

definition w_token :: token_row where
  "w_token = \<lparr>tk_id = 1, tk_ns = ''ann'', tk_kind = ''delegated'', tk_hash = HashToken tok1, tk_label = ''WebFetch AI'',
     tk_expires = Some (3 + 60 * Minute), tk_revoked = None\<rparr>"

definition w_device :: device_ref where
  "w_device = \<lparr>d_namespace = ''ann'', d_id = ''dev1'', d_fingerprint = sample_key\<rparr>"

definition w_asked_db :: database where "w_asked_db = registered_db\<lparr>drequests := [w_asked]\<rparr>"

definition w_approved_db :: database where
  "w_approved_db = registered_db\<lparr>drequests := [w_approved], tokens := [w_token], token_seq := 2,
     gdevices := [\<lparr>gd_grant = g1, gd_dev = w_device\<rparr>],
     audits := [\<lparr>au_ns = ''ann'', au_device = [], au_token = Some 1, au_event = approval_event g1\<rparr>]\<rparr>"

definition w_job :: djob_row where
  "w_job = \<lparr>jb_id = ''j_00'', jb_grant = g1, jb_request = ''r1'', jb_hash = sha256Hex (op_payload sample_op),
     jb_payload = op_payload sample_op, jb_state = ''running'', jb_result = None, jb_created = 4\<rparr>"

definition w_job_db :: database where "w_job_db = w_approved_db\<lparr>djobs := [w_job]\<rparr>"

definition w_yes :: approval where
  "w_yes = \<lparr>p_request = g1, p_ns = ''ann'', p_devices = [''dev1''], p_minutes = 60, p_controller = sample_key,
              p_fps = (\<lambda>_. sample_key)\<rparr>"

lemma w_view:
  assumes "3 \<le> now" "now < 3 + 60 * Minute" "db = w_approved_db \<or> db = w_job_db"
  shows "view_status now db w_approved = VApproved"
  using assms(3)
proof
  assume "db = w_approved_db"
  then show ?thesis using assms(1,2) by (simp add: view_status_def w_approved_db_def w_approved_def w_asked_def token_of_def sel_def w_token_def
      grant_devices_def device_stands_def registered_db_def sample_device_def new_database_def w_device_def)
next
  assume "db = w_job_db"
  then show ?thesis using assms(1,2) by (simp add: view_status_def w_job_db_def w_approved_db_def w_approved_def w_asked_def token_of_def sel_def w_token_def
      grant_devices_def device_stands_def registered_db_def sample_device_def new_database_def w_device_def)
qed

lemma w_create:
  "CreateDelegation 2 \<lparr>n_id = g1, n_ticket = th1, n_token = sha256Hex tok1, n_label = ''WebFetch AI'', n_controller = sample_key,
     n_expires = 0 + RequestWindow\<rparr> registered_db
   = Inr (\<lparr>rv_id = g1, rv_label = ''WebFetch AI'', rv_controller = sample_key, rv_status = VPending, rv_ns = [], rv_created = 2,
        rv_request_expires = 10 * Minute, rv_decided = None, rv_expires = None, rv_devices = [], rv_token = 0\<rparr>, w_asked_db)"
proof -
  have v: "validDelegationHash th1" "validDelegationHash (HashToken tok1)" by (simp_all add: th1_def sha256Hex_valid HashToken_valid)
  show ?thesis using v g1_valid sample_key_valid unfolding HashToken_hex [of tok1]
    by (simp add: CreateDelegation_def registered_db_def w_asked_db_def new_database_def request_at_def sel_def RequestWindow_def
        pendingCount_def hits_def maxPendingDelegations_def readDelegation_def w_asked_def Let_def view_status_def token_of_def grant_devices_def)
qed

lemma w_approve: "exec_call sample_world 3 (CApprove w_yes 1) w_asked_db = w_approved_db"
proof -
  have g: "guardNamespace sample_world ''ann'' []" by code_simp
  show ?thesis using g sample_key_valid g1_valid
    by (simp add: ApproveDelegation_def approval_valid_def w_yes_def w_asked_db_def w_asked_def registered_db_def request_at_def sel_def
        w_approved_db_def w_approved_def w_token_def sample_device_def insert_token_def new_database_def upd_def w_device_def
        readDelegation_def device_at_def MaxGrantMinutes_def maxDelegationDevices_def sample_world_def HasPrefix_def Let_def)
qed

definition w_view_of :: "request_view" where
  "w_view_of = \<lparr>rv_id = g1, rv_label = ''WebFetch AI'', rv_controller = sample_key, rv_status = VApproved, rv_ns = ''ann'', rv_created = 2,
     rv_request_expires = 10 * Minute, rv_decided = Some 3, rv_expires = Some (3 + 60 * Minute), rv_devices = [w_device], rv_token = 1\<rparr>"

lemma w_read:
  assumes "3 \<le> now" "now < 3 + 60 * Minute" "db = w_approved_db \<or> db = w_job_db"
  shows "readDelegation now db g1 [] = Inr w_view_of" "GetDelegationByTicket now db g1 th1 = Inr w_view_of"
proof -
  have f: "drequests db = [w_approved]" "tokens db = [w_token]" "gdevices db = [\<lparr>gd_grant = g1, gd_dev = w_device\<rparr>]"
    using assms(3) by (auto simp: w_job_db_def w_approved_db_def)
  have r: "readDelegation now db g1 t = Inr w_view_of" if "t = [] \<or> t = th1" for t
    using w_view [OF assms] that
    by (auto simp: readDelegation_def f sel_def w_view_of_def)
       (simp_all add: w_approved_def w_asked_def token_of_def f sel_def w_token_def grant_devices_def)
  show "readDelegation now db g1 [] = Inr w_view_of" using r by simp
  show "GetDelegationByTicket now db g1 th1 = Inr w_view_of"
    using r [of th1] sha256Hex_valid [of web_ticket] by (simp add: GetDelegationByTicket_def th1_def)
qed

definition w_access :: access where
  "w_access = \<lparr>a_ns = ''ann'', a_credential = Itoa 1, delegated = True, a_grant = g1, a_expires = 3 + 60 * Minute,
     a_devices = [w_device], a_controllerFP = sample_key, grantedMinutes = round_minutes (60 * Minute), a_execOnly = []\<rparr>"

lemma w_resolve:
  assumes "3 \<le> now" "now < 3 + 60 * Minute" "db = w_approved_db \<or> db = w_job_db"
  shows "PGResolveAccess now db tok1 = Some w_access"
proof -
  have f: "drequests db = [w_approved]" "tokens db = [w_token]" "scopeds db = []" "users db = []"
    using assms(3) by (auto simp: w_job_db_def w_approved_db_def registered_db_def new_database_def)
  have t: "sel (\<lambda>t. tk_hash t = HashToken tok1 \<and> token_live now t \<and> namespaceEnabled db (tk_ns t)) (tokens db) = Some w_token"
    using assms(1,2) by (simp add: f sel_def w_token_def token_live_def namespaceEnabled_def)
  have r: "sel (\<lambda>r. rq_tokenid r = Some (tk_id w_token)) (drequests db) = Some w_approved"
    by (simp add: f sel_def w_approved_def w_token_def)
  have i: "rq_id w_approved = g1" "\<not> is_scoped db w_token" "tk_kind w_token = ''delegated''"
    by (simp_all add: w_approved_def w_asked_def is_scoped_def f w_token_def)
  show ?thesis using w_read(1) [OF assms] unfolding PGResolveAccess_def t
    by (simp add: r i Let_def GetDelegation_def)
       (simp add: w_view_of_def w_access_def w_token_def no_access_def granted_def GrantedDuration_def)
qed

subsection \<open>The run\<close>

definition w_input :: web_input where
  "w_input = \<lparr>wi_store = True, wi_random = ''00'', wi_outcome = \<lparr>do_panic = False, do_error = None,
     do_stdout = [bytes ''readme''], do_stderr = [], do_code = 0, do_file = no_result\<rparr>\<rparr>"

definition w_handler :: "gotime \<Rightarrow> bool \<Rightarrow> web_handler" where
  "w_handler n slot = \<lparr>wh_requests = [(''grant:'' @ g1, \<lparr>rw_at = 2, rw_count = n\<rparr>), (''new:c'', \<lparr>rw_at = 2, rw_count = 1\<rparr>)],
     wh_running = (if slot then [(g1, 1)] else []), wh_total = (if slot then 1 else 0)\<rparr>"

abbreviation "ask_parts \<equiv> [''webfetch'', ''s'', web_ticket]"
abbreviation "call_parts \<equiv> [''webfetch'', ''s'', web_ticket, ''call'']"

lemma w_look_up:
  "advance sample_env 2 w_input (Looking web_ticket ask_parts [] ''c'') (registered_db, NewHandler)
   = ((registered_db, NewHandler\<lparr>wh_requests := [(''grant:'' @ g1, \<lparr>rw_at = 2, rw_count = 1\<rparr>)]\<rparr>), None, [Creating web_ticket ask_parts [] ''c''])"
  by (simp add: look_up_def sample_credentials rateAllowed_def NewHandler_def Let_def w_input_def transact_def GetDelegationByTicket_def
      sha256Hex_valid readDelegation_def registered_db_def new_database_def sel_def go_on_def)

lemma w_creating:
  "\<exists>reply. advance sample_env 2 w_input (Creating web_ticket ask_parts [] ''c'')
     (registered_db, NewHandler\<lparr>wh_requests := [(''grant:'' @ g1, \<lparr>rw_at = 2, rw_count = 1\<rparr>)]\<rparr>) = ((w_asked_db, w_handler 1 False), reply, [])"
proof -
  have l: "request_label [] = ''WebFetch AI''" by (simp add: request_label_def Values_Get_def)
  have v: "utf8_Valid (bytes ''WebFetch AI'')" "\<not> ContainsAny ''WebFetch AI'' {CR, LF, NUL}" by (simp_all add: ascii_valid ContainsAny_def)
  have w: "(2::gotime) < 0 + RequestWindow" by (simp add: RequestWindow_def)
  have k: "map_of [(''grant:'' @ g1, v)] ''new:c'' = None" for v :: rate_window by simp
  show ?thesis using w v
    by (simp add: create_request_def sample_credentials ticket_route(1) rateAllowed_def NewHandler_def k Let_def l w_input_def transact_def
        w_create [unfolded th1_def, simplified] th1_def w_handler_def reply_with_def)
qed

lemma w_again:
  "advance sample_env 4 w_input (Looking web_ticket call_parts call_query ''c'') (w_approved_db, w_handler 1 False)
   = ((w_approved_db, w_handler 2 False), None, [Resolving web_ticket call_parts call_query w_view_of])"
  using w_read(2) [of 4 w_approved_db]
  by (simp add: look_up_def sample_credentials rateAllowed_def w_handler_def Let_def w_input_def transact_def th1_def go_on_def)

lemma w_resolving:
  "advance sample_env 4 w_input (Resolving web_ticket call_parts call_query w_view_of) (w_approved_db, w_handler 2 False)
   = ((w_approved_db, w_handler 2 False), None, [Finding web_ticket call_query sample_op w_access w_view_of])"
proof -
  have a: "Allows 4 w_access (o_target sample_op)" by (simp add: Allows_def w_access_def IsZero_def w_device_def Target_def sample_op_def new_operation_def)
  show ?thesis using w_resolve [of 4 w_approved_db] a
    by (simp add: resolve_request_def sample_credentials w_input_def call_route go_on_def)
       (simp add: w_access_def w_view_of_def)
qed

lemma w_finding:
  "advance sample_env 4 w_input (Finding web_ticket call_query sample_op w_access w_view_of) (w_approved_db, w_handler 2 False)
   = ((w_approved_db, w_handler 2 False), None, [Reserving web_ticket call_query sample_op w_access w_view_of])"
proof -
  have v: "validDelegationID ''r1''" by code_simp
  have j: "djobs w_approved_db = []" by (simp add: w_approved_db_def registered_db_def new_database_def)
  show ?thesis using v g1_valid
    by (simp add: find_job_def w_input_def transact_def call_route g1_def [symmetric] FindJob_def job_at_def j sel_def go_on_def)
qed

lemma w_reserving:
  "advance sample_env 4 w_input (Reserving web_ticket call_query sample_op w_access w_view_of) (w_approved_db, w_handler 2 False)
   = ((w_approved_db, w_handler 2 True), None, [Beginning web_ticket call_query sample_op w_access w_view_of])"
  by (simp add: take_slot_def reserve_slot_def w_handler_def running_of_def maxOperations_def maxOperationsPerGrant_def
      g1_def [symmetric] go_on_def)

lemma w_beginning:
  "\<exists>reply. advance sample_env 4 w_input (Beginning web_ticket call_query sample_op w_access w_view_of) (w_approved_db, w_handler 2 True)
   = ((w_job_db, w_handler 2 True), reply, [Starting \<lparr>wk_job = w_job, wk_request = w_view_of, wk_token = tok1, wk_op = sample_op\<rparr>])"
proof -
  have v: "validDelegationID ''r1''" by code_simp
  have j: "djobs w_approved_db = []" by (simp add: w_approved_db_def registered_db_def new_database_def)
  have m: "\<not> MaxJobs g \<le> 0" for g using MaxJobs_ge_one [of g] by simp
  have "length (op_payload sample_op) \<le> 100" by code_simp
  then have l: "\<not> maxDelegationPayload < length (op_payload sample_op)" by (simp add: maxDelegationPayload_def)
  have r: "readDelegation 4 w_approved_db g1 [] = Inr w_view_of" "rv_status w_view_of = VApproved"
    using w_read(1) [of 4 w_approved_db] by (simp_all add: w_view_of_def)
  have b: "BeginJob 4 g1 ''r1'' (sha256Hex (op_payload sample_op)) (op_payload sample_op) True ''00'' w_approved_db = Inr ((w_job, True), w_job_db)"
    using v g1_valid sha256Hex_valid [of "op_payload sample_op"] m l r
    by (simp add: BeginJob_def job_at_def j sel_def [of _ "[]"] hits_def w_job_db_def w_job_def Let_def)
  show ?thesis
    by (simp add: begin_job_def w_input_def transact_def call_route(3) g1_def [symmetric] b tok1_def [symmetric])
qed

definition w_deadline :: gotime where "w_deadline = 4 + 300 * Second"

lemma w_pin: "\<exists>known. pin_devices 4 [w_device] = Some known"
  using sample_key_valid by (simp add: pin_devices_def pin_step_def Pin_def w_device_def Target_def NewMemStore_def Let_def save_store_def add_peer_def)

definition w_known :: trust_store where "w_known = the (pin_devices 4 [w_device])"

definition w_work :: web_work where
  "w_work = \<lparr>wk_job = w_job, wk_request = w_view_of, wk_token = tok1, wk_op = sample_op\<rparr>"

lemma w_starting:
  "advance sample_env 4 w_input (Starting w_work) (w_job_db, w_handler 2 True)
   = ((w_job_db, w_handler 2 True), None, [OnDevice w_work w_access w_deadline w_known])"
proof -
  have a: "Allows 4 w_access (o_target sample_op)" by (simp add: Allows_def w_access_def IsZero_def w_device_def Target_def sample_op_def new_operation_def)
  have d: "effectiveDeadline 4 (op_timeout sample_op) 3600000000003 = w_deadline"
    by (simp add: effectiveDeadline_def Let_def w_deadline_def op_timeout_def sample_op_def new_operation_def timeoutBounds_def IsZero_def DefaultExecSeconds_def)
  have k: "pin_devices 4 [w_device] = Some w_known" using w_pin by (auto simp: w_known_def)
  have f: "delegated w_access" "a_grant w_access = g1" "a_expires w_access = 3 + 60 * Minute" "a_devices w_access = [w_device]"
    "a_controllerFP w_access = sample_key" "jb_grant w_job = g1" "jb_created w_job = 4"
    by (simp_all add: w_access_def w_job_def)
  have c: "controller_identity sample_env g1 = Some sample_key" by (simp add: controller_identity_def sample_env_def)
  have n: "4 < w_deadline" by (simp add: w_deadline_def)
  show ?thesis using w_resolve [of 4 w_job_db] a n
    by (simp add: start_operation_def w_work_def w_input_def f d k c Let_def go_on_def)
qed

definition w_state :: "gotime \<Rightarrow> database \<Rightarrow> web_handler \<Rightarrow> web_phase list \<Rightarrow> web_state" where
  "w_state now db h phs = \<lparr>ws_now = now, ws_db = db, ws_handler = h, ws_phases = phs, ws_log = []\<rparr>"

definition w_start :: web_state where "w_start = w_state 1 new_database NewHandler []"

definition w_starting_state :: web_state where "w_starting_state = w_state 4 w_job_db (w_handler 2 True) [Starting w_work]"

definition w_running_state :: web_state where
  "w_running_state = \<lparr>ws_now = 4, ws_db = w_job_db, ws_handler = w_handler 2 True,
     ws_phases = [OnDevice w_work w_access w_deadline w_known],
     ws_log = [\<lparr>dc_work = w_work, dc_access = w_access, dc_deadline = w_deadline, dc_known = w_known, dc_at = 4\<rparr>]\<rparr>"

abbreviation w_run :: "web_state \<Rightarrow> bool" where
  "w_run \<equiv> (web_step sample_env {web_ticket})\<^sup>*\<^sup>* w_start"

lemma w_step: "w_run s \<Longrightarrow> web_step sample_env {web_ticket} s s' \<Longrightarrow> w_run s'"
  by (rule rtranclp.rtrancl_into_rtrancl)

lemma w_more:
  assumes "w_run (w_state now db h [ph])" "advance sample_env now w_input ph (db, h) = ((db', h'), reply, new)"
    "concat (map (calls_of now) new) = []"
  shows "w_run (w_state now db' h' new)"
proof (rule w_step [OF assms(1)])
  show "web_step sample_env {web_ticket} (w_state now db h [ph]) (w_state now db' h' new)"
    using web_proceed [of "w_state now db h [ph]" now "[]" ph "[]" sample_env w_input db' h' reply new "{web_ticket}"] assms(2,3)
    by (simp add: w_state_def)
qed

lemma w_arrives:
  assumes "w_run (w_state t db h [])" "t \<le> now" "route_request now None r = Inr (web_ticket, parts, q)"
  shows "w_run (w_state now db h [Looking web_ticket parts q (hq_client r)])"
proof (rule w_step [OF assms(1)])
  show "web_step sample_env {web_ticket} (w_state t db h []) (w_state now db h [Looking web_ticket parts q (hq_client r)])"
    using web_arrive [OF _ assms(3), of "w_state t db h []" "{web_ticket}" sample_env] assms(2) by (simp add: w_state_def)
qed

lemma w_other:
  assumes "w_run (w_state t db h [])" "t \<le> now" "\<not> own_call c" "exec_call sample_world now c db = db'"
  shows "w_run (w_state now db' h [])"
proof (rule w_step [OF assms(1)])
  show "web_step sample_env {web_ticket} (w_state t db h []) (w_state now db' h [])"
    using web_elsewhere [of "w_state t db h []" now c sample_env "{web_ticket}"] assms(2-4) by (simp add: w_state_def sample_env_def)
qed

lemma w_run_asked: "w_run (w_state 2 w_asked_db (w_handler 1 False) [])"
proof -
  have "w_run (w_state 1 new_database NewHandler [])" by (simp add: w_start_def)
  then have "w_run (w_state 1 registered_db NewHandler [])" by (rule w_other [OF _ _ _ step_register]) simp_all
  from w_arrives [OF this _ ticket_route(2)] have "w_run (w_state 2 registered_db NewHandler [Looking web_ticket ask_parts [] ''c''])" by simp
  from w_more [OF this w_look_up] w_creating show ?thesis using w_more by fastforce
qed

lemma w_run_starting: "w_run w_starting_state"
proof -
  obtain reply where c: "advance sample_env 4 w_input (Beginning web_ticket call_query sample_op w_access w_view_of) (w_approved_db, w_handler 2 True)
   = ((w_job_db, w_handler 2 True), reply, [Starting w_work])"
    using w_beginning by (auto simp: w_work_def)
  from w_other [OF w_run_asked _ _ w_approve] have "w_run (w_state 3 w_approved_db (w_handler 1 False) [])" by simp
  from w_arrives [OF this _ call_route(1)]
  have "w_run (w_state 4 w_approved_db (w_handler 1 False) [Looking web_ticket call_parts call_query ''c''])" by simp
  from w_more [OF this w_again] have "w_run (w_state 4 w_approved_db (w_handler 2 False) [Resolving web_ticket call_parts call_query w_view_of])" by simp
  from w_more [OF this w_resolving] have "w_run (w_state 4 w_approved_db (w_handler 2 False) [Finding web_ticket call_query sample_op w_access w_view_of])" by simp
  from w_more [OF this w_finding] have "w_run (w_state 4 w_approved_db (w_handler 2 False) [Reserving web_ticket call_query sample_op w_access w_view_of])" by simp
  from w_more [OF this w_reserving] have "w_run (w_state 4 w_approved_db (w_handler 2 True) [Beginning web_ticket call_query sample_op w_access w_view_of])" by simp
  from w_more [OF this c] show ?thesis by (simp add: w_starting_state_def)
qed

lemma w_step_running: "web_step sample_env {web_ticket} w_starting_state w_running_state"
  using web_proceed [of w_starting_state 4 "[]" "Starting w_work" "[]" sample_env w_input w_job_db "w_handler 2 True" None
      "[OnDevice w_work w_access w_deadline w_known]" "{web_ticket}"] w_starting
  by (simp add: w_starting_state_def w_state_def w_running_state_def del: advance.simps)

lemma w_reachable:
  "web_reachable sample_env {web_ticket} w_start" "web_reachable sample_env {web_ticket} w_starting_state"
  "web_reachable sample_env {web_ticket} w_running_state"
proof -
  have s: "web_start w_start" by (simp add: web_start_def w_start_def w_state_def db_start_def)
  have "w_run w_running_state" by (rule w_step [OF w_run_starting w_step_running])
  then show "web_reachable sample_env {web_ticket} w_start" "web_reachable sample_env {web_ticket} w_starting_state"
    "web_reachable sample_env {web_ticket} w_running_state"
    using s w_run_starting unfolding web_reachable_def by blast+
qed

end
