(* ===== verification/DelegationProps.thy ===== *)
theory DelegationProps
  imports DatabaseSample
begin

text \<open>
  What the account database promises of delegations, tokens and the ledger of jobs, over
  every run of its operations, with a run worked through as the witness: a request, its
  approval, a job, and a clean-up.
\<close>

subsection \<open>Reading a credential\<close>

lemma approved_view:
  assumes g: "GetDelegation now db i = Inr v" and a: "rv_status v = VApproved"
  obtains r t e where "r \<in> set (drequests db)" "rq_id r = i" "rv_id v = i" "rq_status r = ReqApproved" "token_of db r = Some t"
    "tk_revoked t = None" "tk_expires t = Some e" "now < e" "rv_expires v = Some e" "rv_decided v = rq_decided r"
    "rv_ns v = rq_ns r" "rv_controller v = rq_controller r" "rv_devices v = sort_key d_id (grant_devices db i)"
    "\<forall>g \<in> set (grant_devices db i). device_stands db g"
proof -
  obtain r where s: "sel (\<lambda>r. rq_id r = i) (drequests db) = Some r"
    using g by (auto simp: GetDelegation_def readDelegation_def split: option.splits)
  then have r: "r \<in> set (drequests db)" "rq_id r = i" using sel_Some [OF s] by simp_all
  have v: "v = \<lparr>rv_id = rq_id r, rv_label = rq_label r, rv_controller = rq_controller r,
          rv_status = view_status now db r, rv_ns = rq_ns r, rv_created = rq_created r,
          rv_request_expires = rq_expires r, rv_decided = rq_decided r,
          rv_expires = (case token_of db r of None \<Rightarrow> None | Some t \<Rightarrow> tk_expires t),
          rv_devices = sort_key d_id (grant_devices db i),
          rv_token = (case rq_tokenid r of None \<Rightarrow> 0 | Some k \<Rightarrow> k)\<rparr>"
    using g s by (simp add: GetDelegation_def readDelegation_def)
  have st: "view_status now db r = VApproved" using a by (simp add: v)
  have ap: "rq_status r = ReqApproved" using st
    by (cases "rq_status r") (auto simp: view_status_def Let_def split: if_splits)
  obtain t where t: "token_of db r = Some t" using st ap
    by (cases "token_of db r") (auto simp: view_status_def Let_def)
  have rev: "tk_revoked t = None" "list_all (device_stands db) (grant_devices db (rq_id r))" using st ap t
    by (auto simp: view_status_def Let_def split: if_splits)
  obtain e where e: "tk_expires t = Some e" "now < e" using st ap t rev
    by (cases "tk_expires t") (auto simp: view_status_def Let_def split: if_splits)
  show thesis
    by (rule that [OF r _ ap t rev(1) e]) (use rev(2) r in \<open>simp_all add: v t e list_all_iff\<close>)
qed

text \<open>The two ways a credential is more than an account: a grant, and one command on one device.\<close>

definition granted_as :: "gotime \<Rightarrow> database \<Rightarrow> string \<Rightarrow> access \<Rightarrow> request_row \<Rightarrow> bool" where
  "granted_as now db raw a r \<longleftrightarrow>
     r \<in> set (drequests db) \<and> rq_status r = ReqApproved \<and> rq_token r = HashToken raw
     \<and> a_grant a = rq_id r \<and> a_ns a = rq_ns r \<and> a_controllerFP a = rq_controller r \<and> ValidFingerprint (a_controllerFP a)
     \<and> (\<exists>d. rq_decided r = Some d \<and> d < rq_expires r \<and> d \<le> now
          \<and> now < a_expires a \<and> a_expires a \<le> d + MaxGrantMinutes * Minute)
     \<and> (\<exists>u \<in> set (audits db). audit_for r u)
     \<and> 1 \<le> length (a_devices a) \<and> length (a_devices a) \<le> maxDelegationDevices
     \<and> (\<forall>g \<in> set (a_devices a). d_namespace g = a_ns a \<and> device_stands db g)"

definition scoped_as :: "gotime \<Rightarrow> database \<Rightarrow> token_row \<Rightarrow> access \<Rightarrow> scoped_row \<Rightarrow> bool" where
  "scoped_as now db t a s \<longleftrightarrow>
     s \<in> set (scopeds db) \<and> sc_token s = tk_id t \<and> a_execOnly a = sc_command s \<and> validScopedCommand (a_execOnly a)
     \<and> a_devices a = [\<lparr>d_namespace = a_ns a, d_id = sc_device s, d_fingerprint = sc_fp s\<rparr>]
     \<and> (\<forall>g \<in> set (a_devices a). device_stands db g) \<and> now < a_expires a"

text \<open>The account half of what \<open>ResolveAccess\<close> answers.\<close>

definition bare_access :: "token_row \<Rightarrow> access" where
  "bare_access t = no_access\<lparr>a_ns := tk_ns t, a_credential := Itoa (tk_id t),
      a_expires := (case tk_expires t of None \<Rightarrow> 0 | Some e \<Rightarrow> e)\<rparr>"

lemma scoped_access:
  assumes ok: "scoped_ok db" and t: "t \<in> set (tokens db)" "token_live now t" and r: "resolveScoped db (tk_id t) (bare_access t) = Some a"
  shows "tk_kind t = ''delegated'' \<and> delegated a \<and> a_execOnly a \<noteq> [] \<and> a_ns a = tk_ns t \<and> (\<exists>s. scoped_as now db t a s)"
proof -
  obtain sc where sc: "sel (\<lambda>s. sc_token s = tk_id t \<and> sc_ns s = tk_ns t
             \<and> device_stands db \<lparr>d_namespace = sc_ns s, d_id = sc_device s, d_fingerprint = sc_fp s\<rparr>) (scopeds db) = Some sc"
    "sc_command sc \<noteq> []"
    "a = (bare_access t)\<lparr>delegated := True, a_grant := ''sc_'' @ Itoa (tk_id t),
               a_devices := [\<lparr>d_namespace = tk_ns t, d_id = sc_device sc, d_fingerprint = sc_fp sc\<rparr>],
               a_execOnly := sc_command sc\<rparr>"
    using r by (auto simp: resolveScoped_def bare_access_def split: option.splits if_splits)
  have m: "sc \<in> set (scopeds db)" "sc_token sc = tk_id t" "sc_ns sc = tk_ns t"
    "device_stands db \<lparr>d_namespace = tk_ns t, d_id = sc_device sc, d_fingerprint = sc_fp sc\<rparr>"
    using sel_Some [OF sc(1)] by auto
  have k: "tk_kind t = ''delegated''" "validScopedCommand (sc_command sc)" and "tk_expires t \<noteq> None"
    using ok m t(1) by (auto simp: scoped_ok_def)
  then obtain e where e: "tk_expires t = Some e" "now < e" using t(2) by (auto simp: token_live_def split: option.splits)
  have "scoped_as now db t a sc" using m k e sc(3) by (simp add: scoped_as_def bare_access_def)
  then show ?thesis using k sc(2,3) by (auto simp: bare_access_def)
qed

text \<open>The request a delegated token is found by is the one it was issued for.\<close>

lemma granted_access:
  assumes ok: "token_ok db" "requests_ok t0 db" and now: "t0 \<le> now" and t: "t \<in> set (tokens db)" "tk_hash t = HashToken raw"
    and i: "i = (case sel (\<lambda>r. rq_tokenid r = Some (tk_id t)) (drequests db) of None \<Rightarrow> [] | Some r \<Rightarrow> rq_id r)"
    and v: "GetDelegation now db i = Inr v" "rv_status v = VApproved" "rv_ns v = tk_ns t" "rv_expires v = Some e"
    and a: "a = (bare_access t)\<lparr>delegated := True, a_grant := rv_id v, a_expires := e, grantedMinutes := m,
              a_controllerFP := rv_controller v, a_devices := rv_devices v\<rparr>"
  shows "\<exists>r. granted_as now db raw a r"
  using v(1,2)
proof (cases rule: approved_view)
  case (1 r u e')
  have g: "grant_ok db r" "row_ok t0 r" using ok(2) 1(1,4) by (simp_all add: requests_ok_def)
  then obtain w where w: "w \<in> set (tokens db)" "token_for r w" by (auto simp: grant_ok_def)
  obtain k where k: "rq_tokenid r = Some k" "sel (\<lambda>t. tk_id t = k) (tokens db) = Some u"
    using 1(5) by (auto simp: token_of_def split: option.splits)
  have uw: "u = w" using sel_Some [OF k(2)] w k(1) ok(1) by (auto simp: token_for_def token_ok_def distinct_map inj_on_def)
  have "sel (\<lambda>r. rq_tokenid r = Some (tk_id t)) (drequests db) \<noteq> None"
  proof
    assume "sel (\<lambda>r. rq_tokenid r = Some (tk_id t)) (drequests db) = None"
    then have "rq_id r = []" by (simp add: i 1(2))
    then show False using g(2) by (simp add: row_ok_def validDelegationID_def)
  qed
  then obtain r' where r': "sel (\<lambda>r. rq_tokenid r = Some (tk_id t)) (drequests db) = Some r'" by blast
  have "r' = r" using sel_Some [OF r'] 1(1,2) ok(2) by (auto simp: i r' requests_ok_def distinct_map inj_on_def)
  then have ut: "u = t" using sel_Some [OF r'] sel_Some [OF k(2)] k(1) t(1) ok(1)
    by (auto simp: token_ok_def distinct_map inj_on_def)
  have tf: "token_for r t" "tk_expires t = Some e'" using 1(7) w(2) uw unfolding ut by simp_all
  have dev: "a_devices a = sort_key d_id (grant_devices db (rq_id r))" using a 1(2,13) by simp
  have "granted_as now db raw a r"
    unfolding granted_as_def dev using g 1 tf a t(2) v(3,4) now
    by (auto simp: grant_ok_def row_ok_def token_for_def devices_for_def bare_access_def)
  then show ?thesis ..
qed

text \<open>The three ways a credential resolves.\<close>

lemma resolved_cases:
  assumes reach: "db_reachable x (t0, db)" and now: "t0 \<le> now" and a: "PGResolveAccess now db raw = Some a"
  obtains t where "t \<in> set (tokens db)" "tk_hash t = HashToken raw" "token_live now t" "namespaceEnabled db (tk_ns t)"
    "resolveScoped db (tk_id t) (bare_access t) = Some a"
  | t where "t \<in> set (tokens db)" "tk_hash t = HashToken raw" "token_live now t" "namespaceEnabled db (tk_ns t)"
    "tk_kind t \<noteq> ''delegated''" "a = bare_access t"
  | t r where "t \<in> set (tokens db)" "tk_hash t = HashToken raw" "token_live now t" "namespaceEnabled db (tk_ns t)"
    "tk_kind t = ''delegated''" "a_ns a = tk_ns t" "delegated a" "a_execOnly a = []" "granted_as now db raw a r"
proof -
  note goal = that and ok = db_reachable_parts [OF reach]
  obtain t where s: "sel (\<lambda>t. tk_hash t = HashToken raw \<and> token_live now t \<and> namespaceEnabled db (tk_ns t)) (tokens db) = Some t"
    using a by (cases "sel (\<lambda>t. tk_hash t = HashToken raw \<and> token_live now t \<and> namespaceEnabled db (tk_ns t)) (tokens db)")
      (simp_all add: PGResolveAccess_def)
  have t: "t \<in> set (tokens db)" "tk_hash t = HashToken raw" "token_live now t" "namespaceEnabled db (tk_ns t)"
    using sel_Some [OF s] by simp_all
  note a' = a [unfolded PGResolveAccess_def s option.case Let_def, folded bare_access_def]
  consider (scoped) "is_scoped db t" | (plain) "\<not> is_scoped db t" "tk_kind t \<noteq> ''delegated''"
    | (grant) "\<not> is_scoped db t" "tk_kind t = ''delegated''" by blast
  then show thesis
  proof cases
    case scoped
    then show thesis using goal(1) [OF t] a' by simp
  next
    case plain
    then show thesis using goal(2) [OF t] a' by simp
  next
    case grant
    define i where "i = (case sel (\<lambda>r. rq_tokenid r = Some (tk_id t)) (drequests db) of None \<Rightarrow> [] | Some r \<Rightarrow> rq_id r)"
    obtain v where v: "GetDelegation now db i = Inr v" using a' grant by (cases "GetDelegation now db i") (simp_all add: i_def)
    obtain e where e: "rv_expires v = Some e" "rv_status v = VApproved" "rv_ns v = tk_ns t"
      and ae: "a = (bare_access t)\<lparr>delegated := True, a_grant := rv_id v, a_expires := e,
                            grantedMinutes := round_minutes (granted v), a_controllerFP := rv_controller v,
                            a_devices := rv_devices v\<rparr>"
      using a' grant v by (auto simp: i_def bare_access_def split: option.splits if_splits)
    have "\<exists>r. granted_as now db raw a r" by (rule granted_access [OF ok(3,4) now t(1,2) i_def v e(2,3,1) ae])
    then show thesis using goal(3) [OF t grant(2)] ae by (auto simp: bare_access_def no_access_def)
  qed
qed



subsection \<open>What stays\<close>

text \<open>
  C13. A decision is final. Once a request is approved or rejected, no run of the database
  changes any field of it: a later row of the same id and the same time of creation is that
  row (after a clean-up the id may be used again, by a request that was made later).
\<close>

theorem decision_is_final:
  assumes reach: "db_reachable x s" and run: "(db_step x)\<^sup>*\<^sup>* s s'"
    and r: "r \<in> set (drequests (snd s))" "rq_status r \<noteq> ReqPending"
    and r': "r' \<in> set (drequests (snd s'))" "rq_id r' = rq_id r" "rq_created r' = rq_created r"
  shows "r' = r"
proof -
  have "decision_stands r s" using r(1) by (cases s) (simp add: decision_stands_def)
  then have d: "decision_stands r s'" using decision_run [OF run _ db_reachable_ok [OF reach] r(2)] by blast
  obtain t db where s': "s' = (t, db)" by (cases s')
  have "r \<in> set (drequests db)" using d r' by (auto simp: decision_stands_def s')
  moreover have "requests_ok t db" using db_reachable_parts(4) db_reachable_steps [OF reach run] by (simp add: s')
  ultimately show ?thesis using r' by (auto simp: s' requests_ok_def distinct_map inj_on_def)
qed

lemma one_more_call: "t \<le> now \<Longrightarrow> (db_step x)\<^sup>*\<^sup>* (t, db) (now, exec_call x now c db)"
  by (rule r_into_rtranclp) (rule db_calls)

theorem decision_is_final_witness:
  "drequests (exec_call sample_world 9 (CReject ''d1'' ''ann'') (grant_db (HashToken ''wfd_x''))) = [approved_request (HashToken ''wfd_x'')]"
proof -
  let ?h = "HashToken ''wfd_x''" and ?d = "exec_call sample_world 9 (CReject ''d1'' ''ann'') (grant_db (HashToken ''wfd_x''))"
  have run: "(db_step sample_world)\<^sup>*\<^sup>* (4, grant_db ?h) (9, ?d)" by (rule one_more_call) simp
  have r: "approved_request ?h \<in> set (drequests (snd (4::gotime, grant_db ?h)))" "rq_status (approved_request ?h) \<noteq> ReqPending"
    by (simp_all add: grant_db_def approved_db_def approved_request_def)
  have d: "map (\<lambda>r. (rq_id r, rq_created r)) (drequests ?d) = [(''d1'', 2)]"
    by (simp add: commit_def RejectDelegation_def Let_def map_upd split: sum.split)
      (simp add: grant_db_def approved_db_def approved_request_def asked_row_def map_upd)
  then obtain r' where r': "drequests ?d = [r']" "rq_id r' = ''d1''" "rq_created r' = 2" by (auto simp: map_eq_Cons_conv)
  then have "r' = approved_request ?h" using decision_is_final [OF grant_reachable(1) run r, of r']
    by (simp add: approved_request_def asked_row_def del: exec_call.simps)
  then show ?thesis using r'(1) by simp
qed

text \<open>
  C14. A revocation is final. Once a token of an account (one that is not delegated) is revoked,
  no run of the database, at any later time, lets its holder in again: it resolves to
  nothing by either door, and the extension an OAuth refresh would give it is refused and
  changes nothing.
\<close>

theorem revocation_is_final:
  assumes reach: "db_reachable x s" and run: "(db_step x)\<^sup>*\<^sup>* s s'"
    and t: "t \<in> set (tokens (snd s))" "tk_hash t = HashToken raw" "tk_kind t \<noteq> ''delegated''" "tk_revoked t \<noteq> None"
  shows "PGResolveAccess now (snd s') raw = None \<and> Resolve now (snd s') raw = None
     \<and> ExtendRelayTokenHash now ns (HashToken raw) later (snd s') = (False, snd s')"
proof -
  have "hash_dead (HashToken raw) (snd s)" using t by (auto simp: hash_dead_def)
  from hash_dead_run [OF run this] have d: "hash_dead (HashToken raw) (snd s')" .
  obtain u db where s': "s' = (u, db)" by (cases s')
  have ok: "token_ok db" using db_reachable_parts(3) db_reachable_steps [OF reach run] by (simp add: s')
  note dead = hash_dead_sel [OF ok d [unfolded s' snd_conv], of now]
  have "sel (\<lambda>t. tk_hash t = HashToken raw \<and> token_live now t \<and> namespaceEnabled db (tk_ns t)) (tokens db) = None"
    "sel (\<lambda>t. tk_hash t = HashToken raw \<and> tk_kind t \<noteq> ''delegated'' \<and> token_live now t
        \<and> namespaceEnabled db (tk_ns t)) (tokens db) = None"
    using dead by (auto simp: sel_None)
  moreover have "ExtendRelayTokenHash now ns (HashToken raw) later db = (False, db)"
  proof -
    define P where "P = (\<lambda>t. tk_hash t = HashToken raw \<and> tk_ns t = ns \<and> tk_kind t = ''access'' \<and> token_live now t
                   \<and> namespaceEnabled db (tk_ns t))"
    have none: "\<not> P t" if "t \<in> set (tokens db)" for t using dead that by (auto simp: P_def)
    then have "filter P (tokens db) = []" "map (\<lambda>t. if P t then f t else t) (tokens db) = tokens db" for f
      by (simp_all add: map_idI)
    then have "hits P (tokens db) = 0" "upd P f (tokens db) = tokens db" for f by (simp_all add: hits_def upd_def)
    then show ?thesis by (simp add: ExtendRelayTokenHash_def Let_def flip: P_def)
  qed
  ultimately show ?thesis by (simp add: s' PGResolveAccess_def Resolve_def)
qed

definition revoked_db :: database where
  "revoked_db = exec_call sample_world 2 (CRevokeToken ''ann'' 1) (exec_call sample_world 1 (CIssueToken ''ann'' ''phone'' 0 ''ab'') new_database)"

theorem revocation_is_final_witness:
  "PGResolveAccess 9 (exec_call sample_world 3 (CInvite ''bob'') revoked_db) ''wanctl_ab'' = None"
proof -
  have "(db_step sample_world)\<^sup>*\<^sup>* (1, new_database) (1, exec_call sample_world 1 (CIssueToken ''ann'' ''phone'' 0 ''ab'') new_database)"
    by (rule one_more_call) simp
  moreover have "(db_step sample_world)\<^sup>*\<^sup>* (1, exec_call sample_world 1 (CIssueToken ''ann'' ''phone'' 0 ''ab'') new_database) (2, revoked_db)"
    unfolding revoked_db_def by (rule one_more_call) simp
  moreover have "db_reachable sample_world (1, new_database)" by (auto simp: db_reachable_def db_start_def intro!: exI [of _ 1])
  ultimately have reach: "db_reachable sample_world (2, revoked_db)" using db_reachable_steps by blast
  have run: "(db_step sample_world)\<^sup>*\<^sup>* (2, revoked_db) (3, exec_call sample_world 3 (CInvite ''bob'') revoked_db)"
    by (rule one_more_call) simp
  let ?t = "\<lparr>tk_id = 1, tk_ns = ''ann'', tk_kind = ''access'', tk_hash = HashToken ''wanctl_ab'', tk_label = ''phone'',
      tk_expires = None, tk_revoked = Some 2\<rparr>"
  have "?t \<in> set (tokens (snd (2::gotime, revoked_db)))"
    by (simp add: revoked_db_def IssueToken_def insert_token_def new_database_def RevokeToken_def upd_def Let_def)
  from revocation_is_final [OF reach run this] show ?thesis by simp
qed

lemma find_snoc: "find P xs = None \<Longrightarrow> P b \<Longrightarrow> find P (xs @ [b]) = Some b"
  by (induction xs) (auto split: if_splits)

lemma MaxJobs_day: "0 \<le> g \<Longrightarrow> g \<le> MaxGrantMinutes * Minute \<Longrightarrow> MaxJobs g \<le> 24 * JobsPerGrantHour"
proof -
  assume g: "0 \<le> g" "g \<le> MaxGrantMinutes * Minute"
  have h: "0 < Hour" by simp
  have "(g + Hour - 1) div Hour \<le> (24 * Hour + Hour - 1) div Hour"
    using g by (intro zdiv_mono1) (simp_all add: MaxGrantMinutes_def)
  then have "(g + Hour - 1) div Hour \<le> 24" by simp
  moreover have "quot (g + Hour - 1) Hour = (g + Hour - 1) div Hour"
    using g(1) by (simp add: quot_def sgn_if)
  ultimately show ?thesis by (simp add: MaxJobs_def Let_def JobsPerGrantHour_def MinJobsPerGrant_def)
qed

text \<open>
  C15. The ledger is bounded and never runs ahead of consent. In every state a run can reach, a
  job stands under a request the owner approved; a grant has no more jobs than its length
  allows and never more than a day's; a grant has one job for a request id; and beginning
  a job makes a new one only when there is none yet under that id, while a known id with
  another body is refused.
\<close>

theorem ledger_is_bounded:
  assumes reach: "db_reachable x (t, db)"
  shows "(j \<in> set (djobs db) \<longrightarrow> approved_at db (jb_grant j))
     \<and> int (jobs_of db i) \<le> 24 * JobsPerGrantHour
     \<and> (r \<in> set (drequests db) \<and> rq_status r = ReqApproved \<longrightarrow> (\<exists>u \<in> set (tokens db). token_for r u
          \<and> int (jobs_of db (rq_id r)) \<le> MaxJobs (GrantedDuration (rq_decided r) (tk_expires u))))
     \<and> (j \<in> set (djobs db) \<and> k \<in> set (djobs db) \<and> jb_grant j = jb_grant k \<and> jb_request j = jb_request k \<longrightarrow> j = k)
     \<and> (BeginJob now g rid h pl js rnd db = Inr ((b, fresh), db') \<longrightarrow>
          (fresh \<longleftrightarrow> job_at db g rid = None) \<and> job_at db' g rid = Some b \<and> jb_hash b = h
          \<and> length (djobs db') = length (djobs db) + (if fresh then 1 else 0))"
proof -
  note ok = db_reachable_parts [OF reach]
  have a: "approved_at db (jb_grant j)" if "j \<in> set (djobs db)" for j using ok(4) that by (simp add: requests_ok_def)
  have b: "\<exists>u \<in> set (tokens db). token_for r u
      \<and> int (jobs_of db (rq_id r)) \<le> MaxJobs (GrantedDuration (rq_decided r) (tk_expires u))"
    if "r \<in> set (drequests db)" "rq_status r = ReqApproved" for r
    using ok(4) that by (simp add: requests_ok_def grant_ok_def)
  have c: "int (jobs_of db i) \<le> 24 * JobsPerGrantHour" for i
  proof (cases "approved_at db i")
    case False
    then show ?thesis using not_approved(2) [OF ok(4)] by (simp add: JobsPerGrantHour_def)
  next
    case True
    then obtain r where r: "r \<in> set (drequests db)" "rq_id r = i" "rq_status r = ReqApproved" by (auto simp: approved_at_def)
    from b [OF r(1,3)] obtain u where u: "token_for r u"
      "int (jobs_of db i) \<le> MaxJobs (GrantedDuration (rq_decided r) (tk_expires u))" by (auto simp: r(2))
    then have "MaxJobs (GrantedDuration (rq_decided r) (tk_expires u)) \<le> 24 * JobsPerGrantHour"
      by (intro MaxJobs_day) (auto simp: token_for_def GrantedDuration_def)
    then show ?thesis using u by simp
  qed
  have d: "j = k" if "j \<in> set (djobs db)" "k \<in> set (djobs db)" "jb_grant j = jb_grant k" "jb_request j = jb_request k" for j k
    using ok(6) that by (auto simp: ledger_ok_def distinct_map inj_on_def)
  have e: "(fresh \<longleftrightarrow> job_at db g rid = None) \<and> job_at db' g rid = Some b \<and> jb_hash b = h
      \<and> length (djobs db') = length (djobs db) + (if fresh then 1 else 0)"
    if "BeginJob now g rid h pl js rnd db = Inr ((b, fresh), db')"
    using that
  proof (cases rule: BeginJob_elim)
    case (2 v)
    then have "find (\<lambda>j. jb_grant j = g \<and> jb_request j = rid) (djobs db) = None" by (simp add: job_at_def sel_def)
    then have "find (\<lambda>j. jb_grant j = g \<and> jb_request j = rid) (djobs db @ [b]) = Some b"
      using 2(7,8) by (intro find_snoc) auto
    then show ?thesis using 2 by (simp add: job_at_def sel_def)
  qed simp
  show ?thesis using a b c d e by blast
qed

theorem ledger_is_bounded_witness:
  "int (jobs_of (grant_db (HashToken ''wfd_x'')) ''d1'') \<le> 24 * JobsPerGrantHour \<and> sample_job \<in> set (djobs (grant_db (HashToken ''wfd_x'')))"
proof -
  have "sample_job \<in> set (djobs (grant_db (HashToken ''wfd_x'')))" by (simp add: grant_db_def)
  then show ?thesis using ledger_is_bounded [OF grant_reachable(1) [of "''wfd_x''"]] by blast
qed

end
