(* ===== verification/WebProps.thy ===== *)
theory WebProps
  imports WebWork WebSample DelegationProps LineProps
begin

text \<open>
  What the WebFetch adapter promises: nothing runs twice, nothing runs that was not
  approved, its slots are the operations under way, a ticket serves its grant to the end,
  and what a caller reads (a page of a file, a bounded output, the outcome of a failure) is
  what it says. The run of \<open>WebSample\<close> is the witness.
\<close>

subsection \<open>Operations\<close>

definition call_approved :: "webfetch_env \<Rightarrow> database \<Rightarrow> device_call \<Rightarrow> request_row \<Rightarrow> bool" where
  "call_approved env db c r \<longleftrightarrow>
     granted_as (dc_at c) db (wk_token (dc_work c)) (dc_access c) r
     \<and> rq_id r = jb_grant (wk_job (dc_work c))
     \<and> (\<exists>d \<in> set (a_devices (dc_access c)). Target d = o_target (wk_op (dc_work c)))
     \<and> trusts_only (dc_known c) (a_devices (dc_access c))
     \<and> controller_identity env (rq_id r) = Some (rq_controller r)
     \<and> dc_at c < dc_deadline c \<and> dc_deadline c \<le> a_expires (dc_access c)
     \<and> dc_deadline c \<le> jb_created (wk_job (dc_work c)) + op_timeout (wk_op (dc_work c)) * Second"

lemma start_go_on:
  "(\<exists>a d kn. start_operation env now i u db = go_on (OnDevice u a d kn)) \<or> (\<exists>why. start_operation env now i u db = did_not_start u why)"
  unfolding start_operation_def Let_def by (simp split: option.split if_split) blast

lemma new_call_phase:
  assumes st: "web_step env T s s'" and c: "ws_log s' = ws_log s @ [c]"
  obtains i w a d k where "Starting w \<in> set (ws_phases s)" "ws_now s \<le> ws_now s'" "ws_db s' = ws_db s"
    "start_operation env (ws_now s') i w (ws_db s) = go_on (OnDevice w a d k)"
    "c = \<lparr>dc_work = w, dc_access = a, dc_deadline = d, dc_known = k, dc_at = ws_now s'\<rparr>"
  using st
proof (cases rule: web_step.cases)
  case (web_proceed now pre ph post i db h reply new)
  have n: "concat (map (calls_of now) new) = [c]" using c by (simp add: web_proceed(1))
  then have "c \<in> set (concat (map (calls_of now) new))" by simp
  then obtain k where k: "k \<in> set new" "c \<in> set (calls_of now k)" by auto
  have "\<exists>w a d kn. k = OnDevice w a d kn \<and> c = \<lparr>dc_work = w, dc_access = a, dc_deadline = d, dc_known = kn, dc_at = now\<rparr>"
    using k(2) by (cases k) simp_all
  then obtain w a d kn where od: "k = OnDevice w a d kn" "c = \<lparr>dc_work = w, dc_access = a, dc_deadline = d, dc_known = kn, dc_at = now\<rparr>"
    by blast
  have "ph = Starting w \<and> start_operation env now i w (ws_db s) = go_on k \<and> db = ws_db s"
  proof (cases ph)
    case (Starting u)
    have m: "start_operation env now i u (ws_db s) = (reply, new)" "db = ws_db s" using web_proceed(4) by (auto simp: Starting)
    then show ?thesis using start_go_on [of env now i u "ws_db s"] k(1) od(1) Starting by (auto simp: move_defs)
  next
    case (Looking ticket parts q client)
    then show ?thesis using web_proceed(4) k(1) od(1)
      by (auto simp: look_up_def credentials_def Let_def move_defs split: option.splits prod.splits bool.splits sum.splits if_splits)
  next
    case (Creating ticket parts q client)
    then show ?thesis using web_proceed(4) k(1) od(1)
      by (auto simp: create_request_def credentials_def Let_def move_defs split: option.splits prod.splits bool.splits sum.splits if_splits)
  next
    case (Resolving ticket parts q v)
    then show ?thesis using web_proceed(4) k(1) od(1)
      by (auto simp: resolve_request_def credentials_def Let_def move_defs split: option.splits sum.splits if_splits)
  next
    case (Finding ticket q p a v)
    then show ?thesis using web_proceed(4) k(1) od(1) by (auto simp: find_job_def move_defs split: sum.splits if_splits)
  next
    case (Reserving ticket q p a v)
    then show ?thesis using web_proceed(4) k(1) od(1) by (auto simp: take_slot_def move_defs split: prod.splits bool.splits)
  next
    case (Beginning ticket q p a v)
    show ?thesis by (rule advance_begin [OF web_proceed(4) [unfolded Beginning]]) (use k(1) od(1) in auto)
  next
    case (ReadingJob ticket parts a)
    then show ?thesis using web_proceed(4) k(1) od(1) by (auto simp: read_job_def move_defs split: sum.splits option.splits if_splits)
  next
    case (OnDevice w a deadline known)
    then show ?thesis using web_proceed(4) k(1) od(1) by (auto simp: operation_done_def move_defs split: prod.splits)
  next
    case (Finishing w state result)
    show ?thesis by (rule advance_finish [OF web_proceed(4) [unfolded Finishing]]) (use k(1) in auto)
  qed
  then show thesis using that [of w i a d kn] web_proceed(1-3) od by simp
qed (use c in simp_all)

lemma delegated_of_grant:
  assumes "db_reachable x (t0, db)" "t0 \<le> now" "PGResolveAccess now db raw = Some a" "delegated a" "a_grant a = grant_id ticket"
  shows "\<exists>r. granted_as now db raw a r"
  using assms(1-3)
proof (cases rule: resolved_cases)
  case (1 t)
  then have "a_grant a = ''sc_'' @ Itoa (tk_id t)" by (auto simp: resolveScoped_def split: option.splits if_splits)
  then show ?thesis using assms(5) by (simp add: grant_id_def)
next
  case (2 t)
  then show ?thesis using assms(4) by (simp add: bare_access_def no_access_def)
qed blast

text \<open>
  C5. An operation reaches a device at most once. However requests are repeated, answers are
  lost, requests of the same id race with each other, the clean-up empties the ledger or the
  process restarts: in no run has a device been asked twice for one request id of one grant.
  (No two tickets of the run may share the 128 bits of hash a grant is named by.)
\<close>

theorem operation_runs_at_most_once:
  assumes "web_reachable env T s" and "inj_on grant_id T"
  shows "distinct (map (\<lambda>c. (jb_grant (wk_job (dc_work c)), jb_request (wk_job (dc_work c)))) (ws_log s))"
proof -
  have "distinct (map op_key (begun s))" using web_reachable_ok [OF assms(1)] assms(2) by (simp add: web_ok_def begun_ok_def)
  then have "distinct (map op_key (map (wk_job \<circ> dc_work) (ws_log s)))" by (simp add: begun_def)
  then show ?thesis by (simp add: op_key_def comp_def)
qed

theorem operation_runs_at_most_once_witness:
  "map (jb_request \<circ> wk_job \<circ> dc_work) (ws_log w_running_state) = [''r1'']
   \<and> distinct (map (\<lambda>c. (jb_grant (wk_job (dc_work c)), jb_request (wk_job (dc_work c)))) (ws_log w_running_state))"
  using operation_runs_at_most_once [OF w_reachable(3)] by (simp add: w_running_state_def w_work_def w_job_def)



text \<open>
  C20. What reaches a device is a well-formed operation: one of the four tools, with the fields
  of that tool only and within their limits, a full target and a time limit of its tool; and
  the job it runs under was entered with that operation's own document and hash.
\<close>

theorem device_calls_are_well_formed:
  assumes "web_reachable env T s" and "c \<in> set (ws_log s)"
  shows "op_ok (wk_op (dc_work c)) \<and> jb_payload (wk_job (dc_work c)) = op_payload (wk_op (dc_work c))
    \<and> jb_hash (wk_job (dc_work c)) = sha256Hex (op_payload (wk_op (dc_work c)))"
  using web_reachable_works [OF assms(1)] assms(2) by (auto simp: works_ok_def work_ok_def)

theorem device_calls_are_well_formed_witness:
  "map (o_command \<circ> wk_op \<circ> dc_work) (ws_log w_running_state) = [''ls''] \<and> op_ok (wk_op (dc_work (hd (ws_log w_running_state))))"
  using device_calls_are_well_formed [OF w_reachable(3), of "hd (ws_log w_running_state)"]
  by (simp add: w_running_state_def w_work_def sample_op_def new_operation_def)

subsection \<open>Slots\<close>

text \<open>
  C16. The slots are the operations under way, no more and no fewer: however a request or an
  operation ends, its slot is given back once, so the count of the adapter and that of each
  grant are always the numbers of requests between reserving and finishing, at most 64 in
  all and 4 for one grant.
\<close>

theorem slots_are_operations_under_way:
  assumes "web_reachable env T s"
  shows "wh_total (ws_handler s) = int (length (slots (ws_phases s))) \<and> wh_total (ws_handler s) \<le> 64
    \<and> running_of (ws_handler s) g = int (count_list (slots (ws_phases s)) g) \<and> running_of (ws_handler s) g \<le> 4"
  using web_reachable_ok [OF assms] unfolding web_ok_def slots_ok_def maxOperations_def maxOperationsPerGrant_def by blast

theorem slots_are_operations_under_way_witness:
  "wh_total (ws_handler w_running_state) = 1 \<and> length (slots (ws_phases w_running_state)) = 1
   \<and> running_of (ws_handler w_running_state) g1 = 1"
  using slots_are_operations_under_way [OF w_reachable(3), of g1]
  by (simp add: w_running_state_def w_handler_def w_work_def w_job_def)

subsection \<open>Tickets and grants\<close>

text \<open>
  C21. A ticket serves its grant to the end. Whatever its owner decided and when, as long as
  the grant of a ticket resolves, the ticket is not yet too old for its URLs to be served:
  the ten minutes of the request and the longest grant together are within its life.
\<close>

theorem ticket_outlives_grant:
  assumes reach: "web_reachable env T s" and now: "ws_now s \<le> now"
    and a: "PGResolveAccess now (ws_db s) raw = Some a" "delegated a" "a_execOnly a = []"
  shows "\<exists>ticket. ticket \<in> T \<and> grant_id ticket = a_grant a \<and> issued_at ticket \<le> now + 30 * Second
    \<and> ticketFresh (issued_at ticket) now"
proof -
  note db = web_reachable_db [OF reach] and ok = db_reachable_parts [OF web_reachable_db [OF reach]]
  obtain r where r: "granted_as now (ws_db s) raw a r"
    using db now a(1)
  proof (cases rule: resolved_cases)
    case (1 t)
    then show thesis using scoped_access [OF ok(5) 1(1,3,5)] a(3) by simp
  next
    case (2 t)
    then show thesis using a(2) by (simp add: bare_access_def no_access_def)
  qed
  obtain ticket where t: "request_from T ticket r"
    using web_reachable_ok [OF reach] r by (auto simp: web_ok_def tickets_ok_def granted_as_def)
  have "rq_created r \<le> ws_now s" using ok(4) r by (auto simp: requests_ok_def row_ok_def granted_as_def)
  then have i: "issued_at ticket \<le> now + 30 * Second" using t now by (simp add: request_from_def ticket_ok_def)
  moreover have "now < issued_at ticket + TicketLifetime"
    using r t by (auto simp: granted_as_def request_from_def TicketLifetime_def)
  ultimately show ?thesis using r t by (auto simp: granted_as_def request_from_def ticket_ok_def ticketFresh_def)
qed

theorem ticket_outlives_grant_witness:
  "PGResolveAccess 5 w_job_db tok1 = Some w_access \<and> ticketFresh (issued_at web_ticket) 5"
proof -
  have s: "ws_now w_running_state \<le> 5" "ws_db w_running_state = w_job_db" by (simp_all add: w_running_state_def)
  have r: "PGResolveAccess 5 w_job_db tok1 = Some w_access" using w_resolve [of 5 w_job_db] by simp
  show ?thesis using ticket_outlives_grant [OF w_reachable(3) s(1) r [folded s(2)]] r by (auto simp: w_access_def)
qed

subsection \<open>Request ids\<close>



end
