(* ===== verification/Cleanup.thy ===== *)
theory Cleanup
  imports DatabaseSample
begin

text \<open>
  \<open>CleanupDelegations\<close> of \<open>delegation_cleanup.go\<close>: batches until one finds nothing. Each is a
  transaction of its own, so others may write between two of them (\<open>world\<close>), rows may be
  locked, and any transaction may fail (\<open>fails\<close>, which stands for a done context too).
\<close>

partial_function (option) cleanup_loop ::
  "(nat \<Rightarrow> db_state \<Rightarrow> db_state) \<Rightarrow> (nat \<Rightarrow> bool) \<Rightarrow> (nat \<Rightarrow> string \<Rightarrow> bool) \<Rightarrow> gotime \<Rightarrow> nat \<Rightarrow> db_state
   \<Rightarrow> ((db_error + unit) \<times> db_state) option" where
  "cleanup_loop world fails locked cutoff n s =
     (let (now, db) = world n s in
      if fails n then Some (Inl DbFailed, (now, db))
      else (let (deleted, db') = cleanupDelegationBatch now cutoff (locked n) db in
            if deleted = 0 then Some (Inr (), (now, db'))
            else cleanup_loop world fails locked cutoff (Suc n) (now, db')))"

definition CleanupDelegations ::
  "(nat \<Rightarrow> db_state \<Rightarrow> db_state) \<Rightarrow> (nat \<Rightarrow> bool) \<Rightarrow> (nat \<Rightarrow> string \<Rightarrow> bool) \<Rightarrow> duration \<Rightarrow> db_state
   \<Rightarrow> ((db_error + unit) \<times> db_state) option" where
  "CleanupDelegations world fails locked retention s =
     (if retention < MinRetention then Some (Inl ErrInvalid, s)
      else cleanup_loop world fails locked (fst s - retention) 0 s)"

subsection \<open>The measure: requests made before the cutoff\<close>

definition old_requests :: "gotime \<Rightarrow> database \<Rightarrow> nat" where
  "old_requests cutoff db = length (filter (\<lambda>r. rq_created r < cutoff) (drequests db))"

lemma old_of_created: "old_requests cutoff db = length (filter (\<lambda>c. c < cutoff) (map rq_created (drequests db)))"
  by (simp add: old_requests_def filter_map comp_def)

text \<open>No call adds a request from the past.\<close>

lemma created_step:
  "map rq_created (drequests (exec_call x now c db)) = map rq_created (drequests db)
   \<or> map rq_created (drequests (exec_call x now c db)) = map rq_created (drequests db) @ [now]
   \<or> (\<exists>P. drequests (exec_call x now c db) = filter P (drequests db))"
  (is "?Q (exec_call x now c db)")
proof -
  have o: "?Q db" by simp
  note commit = commit_cases [where Q = ?Q, OF _ o]
  consider "TRequests \<notin> writes c" | n where "c = CCreate n" | p n where "c = CApprove p n" | i ns where "c = CReject i ns"
    | w l where "c = CCleanup w l"
    by (cases c) auto
  then show ?thesis
  proof cases
    case 1
    then show ?thesis using frame_drequests by simp
  next
    case (2 n)
    show ?thesis unfolding 2 exec_call.simps
    proof (rule commit)
      fix v db' assume "CreateDelegation now n db = Inr (v, db')"
      then show "?Q db'" by (cases rule: CreateDelegation_elim) simp_all
    qed
  next
    case (3 p n)
    show ?thesis unfolding 3 exec_call.simps
    proof (rule commit)
      fix v db' assume "ApproveDelegation x now p n db = Inr (v, db')"
      then show "?Q db'" by (cases rule: ApproveDelegation_elim) (simp add: map_upd)
    qed
  next
    case (4 i ns)
    show ?thesis unfolding 4 exec_call.simps
    proof (rule commit)
      fix v db' assume "RejectDelegation x now i ns db = Inr (v, db')"
      then have "db' = db \<or> (\<exists>P. drequests db' = upd P (\<lambda>r. r\<lparr>rq_status := ReqRejected, rq_ns := ns, rq_decided := Some now\<rparr>) (drequests db))"
        by (auto simp: RejectDelegation_def Let_def split: if_splits sum.splits)
      then show "?Q db'" by (auto simp: map_upd)
    qed
  next
    case (5 w l)
    then show ?thesis by (auto simp: cleanupDelegationBatch_def Let_def DeleteFunc_def)
  qed
qed

lemma old_step: "cutoff \<le> now \<Longrightarrow> old_requests cutoff (exec_call x now c db) \<le> old_requests cutoff db"
proof -
  assume le: "cutoff \<le> now"
  consider "map rq_created (drequests (exec_call x now c db)) = map rq_created (drequests db)"
    | "map rq_created (drequests (exec_call x now c db)) = map rq_created (drequests db) @ [now]"
    | P where "drequests (exec_call x now c db) = filter P (drequests db)"
    using created_step [of x now c db] by blast
  then show ?thesis
  proof cases
    case 3
    have "length (filter Q (filter P xs)) \<le> length (filter Q xs)" for Q xs
      by (induction xs) auto
    then show ?thesis by (simp add: old_requests_def 3 del: filter_filter)
  qed (use le in \<open>simp_all add: old_of_created\<close>)
qed

lemma old_run:
  assumes "(db_step x)\<^sup>*\<^sup>* s s'" "cutoff \<le> fst s"
  shows "old_requests cutoff (snd s') \<le> old_requests cutoff (snd s) \<and> cutoff \<le> fst s'"
  using assms(1)
proof (induction rule: rtranclp_induct)
  case base
  show ?case using assms(2) by simp
next
  case (step u v)
  from step.hyps(2) show ?case
  proof (cases rule: db_step.cases)
    case (db_calls t now db c)
    then show ?thesis using step.IH old_step [of cutoff now x c db] by simp
  qed
qed

lemma run_time: "(db_step x)\<^sup>*\<^sup>* s s' \<Longrightarrow> fst s \<le> fst s'"
proof (induction rule: rtranclp_induct)
  case (step u v)
  from step.hyps(2) show ?case by (cases rule: db_step.cases) (use step.IH in simp)
qed simp

lemma shorter: "(\<And>a. A a \<Longrightarrow> B a) \<Longrightarrow> a \<in> set xs \<Longrightarrow> B a \<Longrightarrow> \<not> A a \<Longrightarrow> length (filter A xs) < length (filter B xs)"
proof (induction xs)
  case (Cons b xs)
  have "length (filter A xs) \<le> length (filter B xs)" for xs :: "'a list"
    by (induction xs) (use Cons.prems(1) in auto)
  then show ?case using Cons by (auto simp: less_Suc_eq_le)
qed simp

lemma rows_of_batch: "r \<in> set (cleanup_rows now cutoff locked db) \<Longrightarrow> r \<in> set (drequests db) \<and> cleanable now cutoff db r"
  unfolding cleanup_rows_def by (drule in_set_takeD) simp

lemma batch_shorter:
  assumes "cleanupDelegationBatch now cutoff locked db = (deleted, db')" "deleted \<noteq> 0"
  shows "old_requests cutoff db' < old_requests cutoff db"
proof -
  let ?rows = "cleanup_rows now cutoff locked db"
  have ne: "?rows \<noteq> []" using assms by (auto simp: cleanupDelegationBatch_def Let_def split: if_splits)
  then have d: "drequests db' = filter (\<lambda>r. rq_id r \<notin> rq_id ` set ?rows) (drequests db)"
    using assms by (auto simp: cleanupDelegationBatch_def Let_def DeleteFunc_def split: if_splits)
  obtain r where r: "r \<in> set ?rows" using ne by (cases ?rows) auto
  show ?thesis unfolding old_requests_def d filter_filter
    by (rule shorter [of _ _ r]) (use r rows_of_batch [OF r] in \<open>auto simp: cleanable_def\<close>)
qed

lemma batch_step:
  assumes "cleanupDelegationBatch now cutoff locked db = (deleted, db')" "MinRetention \<le> now - cutoff"
  shows "db_step x (now, db) (now, db')"
  using db_calls [of now now x db "CCleanup (now - cutoff) locked"] assms by simp

lemma batch_done:
  assumes "cleanupDelegationBatch now cutoff locked db = (0, db')"
  shows "db' = db \<and> (\<forall>r \<in> set (drequests db). cleanable now cutoff db r \<longrightarrow> locked (rq_id r))"
proof -
  have "cleanup_rows now cutoff locked db = []" "db' = db"
    using assms by (auto simp: cleanupDelegationBatch_def Let_def split: if_splits)
  moreover have "filter (\<lambda>r. cleanable now cutoff db r \<and> \<not> locked (rq_id r)) (drequests db) = []"
    using arg_cong [OF calculation(1) [unfolded cleanup_rows_def], of length] by (simp add: min_def split: if_splits)
  ultimately show ?thesis by (auto simp: filter_empty_conv)
qed

lemma loop_returns:
  assumes world: "\<And>n s. (db_step x)\<^sup>*\<^sup>* s (world n s)" and ret: "MinRetention \<le> fst s - cutoff"
  shows "\<exists>res s' n. cleanup_loop world fails locked cutoff k s = Some (res, s') \<and> (db_step x)\<^sup>*\<^sup>* s s'
     \<and> (case res of Inl e \<Rightarrow> fails n
        | Inr _ \<Rightarrow> \<forall>r \<in> set (drequests (snd s')). cleanable (fst s') cutoff (snd s') r \<longrightarrow> locked n (rq_id r))"
  using ret
proof (induction "old_requests cutoff (snd s)" arbitrary: s k rule: less_induct)
  case less
  obtain now db where w: "world k s = (now, db)" by (cases "world k s")
  have run: "(db_step x)\<^sup>*\<^sup>* s (now, db)" using world [of s k] w by simp
  have co: "cutoff \<le> fst s" using less.prems by (simp add: MinRetention_def MaxGrantMinutes_def)
  note old = old_run [OF run co]
  have time: "fst s \<le> now" using run_time [OF run] by simp
  have eq: "cleanup_loop world fails locked cutoff k s =
      (if fails k then Some (Inl DbFailed, (now, db))
       else (let (deleted, db') = cleanupDelegationBatch now cutoff (locked k) db in
             if deleted = 0 then Some (Inr (), (now, db')) else cleanup_loop world fails locked cutoff (Suc k) (now, db')))"
    by (subst cleanup_loop.simps) (simp add: w)
  show ?case
  proof (cases "fails k")
    case True
    then show ?thesis using run by (intro exI [of _ "Inl DbFailed"] exI [of _ "(now, db)"] exI [of _ k]) (simp add: eq)
  next
    case False
    obtain deleted db' where b: "cleanupDelegationBatch now cutoff (locked k) db = (deleted, db')"
      by (cases "cleanupDelegationBatch now cutoff (locked k) db")
    show ?thesis
    proof (cases "deleted = 0")
      case True
      then show ?thesis using run False b batch_done [of now cutoff "locked k" db db']
        by (intro exI [of _ "Inr ()"] exI [of _ "(now, db)"] exI [of _ k]) (simp add: eq)
    next
      case more: False
      have ret: "MinRetention \<le> now - cutoff" using less.prems time by simp
      have "old_requests cutoff (snd (now, db')) < old_requests cutoff (snd s)"
        using batch_shorter [OF b more] old by simp
      from less.hyps [OF this] ret obtain res s' n where l: "cleanup_loop world fails locked cutoff (Suc k) (now, db') = Some (res, s')"
        "(db_step x)\<^sup>*\<^sup>* (now, db') s'"
        "case res of Inl e \<Rightarrow> fails n
         | Inr _ \<Rightarrow> \<forall>r \<in> set (drequests (snd s')). cleanable (fst s') cutoff (snd s') r \<longrightarrow> locked n (rq_id r)"
        by fastforce
      have "(db_step x)\<^sup>*\<^sup>* s s'"
        using run batch_step [OF b ret] l(2) by (meson converse_rtranclp_into_rtranclp rtranclp_trans)
      then show ?thesis using l False b more
        by (intro exI [of _ res] exI [of _ s'] exI [of _ n]) (simp add: eq)
    qed
  qed
qed


text \<open>
  C22. The clean-up of the delegation store comes to an end. Whatever other transactions write
  between its batches, whichever rows they hold and whichever batch fails, it returns; a
  retention below the floor is refused and nothing is touched; and when it returns without
  an error, no record is left that is older than the cutoff and useless, except those locked
  at the end.
\<close>

theorem cleanup_terminates:
  assumes world: "\<And>n s. (db_step x)\<^sup>*\<^sup>* s (world n s)"
  shows "\<exists>res s'. CleanupDelegations world fails locked retention s = Some (res, s') \<and> (db_step x)\<^sup>*\<^sup>* s s'
     \<and> (retention < MinRetention \<longrightarrow> res = Inl ErrInvalid \<and> s' = s)
     \<and> (retention \<ge> MinRetention \<longrightarrow>
         (case res of Inl e \<Rightarrow> \<exists>n. fails n
          | Inr _ \<Rightarrow> \<exists>n. \<forall>r \<in> set (drequests (snd s')).
              cleanable (fst s') (fst s - retention) (snd s') r \<longrightarrow> locked n (rq_id r)))"
proof (cases "retention < MinRetention")
  case True
  then show ?thesis by (simp add: CleanupDelegations_def)
next
  case False
  then have "MinRetention \<le> fst s - (fst s - retention)" by simp
  from loop_returns [where world = world and x = x and fails = fails and locked = locked and k = 0, OF world this]
  obtain res s' n where "cleanup_loop world fails locked (fst s - retention) 0 s = Some (res, s')" "(db_step x)\<^sup>*\<^sup>* s s'"
    "case res of Inl e \<Rightarrow> fails n
        | Inr _ \<Rightarrow> \<forall>r \<in> set (drequests (snd s')). cleanable (fst s') (fst s - retention) (snd s') r \<longrightarrow> locked n (rq_id r)"
    by blast
  then show ?thesis using False
    by (intro exI [of _ res] exI [of _ s']) (auto simp: CleanupDelegations_def split: sum.splits)
qed

text \<open>Another worker removes a friend between the batches.\<close>

definition busy_world :: "nat \<Rightarrow> db_state \<Rightarrow> db_state" where
  "busy_world n s = (fst s + 1, exec_call sample_world (fst s + 1) (CUnfriend ''ann'' ''bob'') (snd s))"

lemma busy_world_steps: "(db_step sample_world)\<^sup>*\<^sup>* s (busy_world n s)"
  unfolding busy_world_def by (cases s) (auto intro!: db_calls simp del: exec_call.simps)

theorem cleanup_terminates_witness:
  "\<exists>res s'. CleanupDelegations busy_world (\<lambda>n. n = 7) (\<lambda>n i. i = ''d1'') (2 * 24 * Hour) (3 * 24 * Hour, grant_db []) = Some (res, s')"
  using cleanup_terminates [of sample_world busy_world "\<lambda>n. n = 7" "\<lambda>n i. i = ''d1''" "2 * 24 * Hour" "(3 * 24 * Hour, grant_db [])",
      OF busy_world_steps] by blast

subsection \<open>Access is left as it is\<close>

lemma find_filter: "(\<And>a. a \<in> set xs \<Longrightarrow> P a \<Longrightarrow> Q a) \<Longrightarrow> find P (filter Q xs) = find P xs"
  by (induction xs) auto

lemma sel_DeleteFunc: "(\<And>a. a \<in> set rows \<Longrightarrow> P a \<Longrightarrow> \<not> D a) \<Longrightarrow> sel P (DeleteFunc D rows) = sel P rows"
  unfolding sel_def DeleteFunc_def by (rule find_filter) blast

text \<open>A row that is cleaned away gave nothing, and its token with it.\<close>

lemma cleaned_gives_nothing:
  assumes ok: "token_ok db" "requests_ok t0 db"
    and r: "r \<in> set (drequests db)" "cleanable now cutoff db r" "token_of db r = Some t" and later: "now \<le> later" "token_live later t"
  shows "rq_status r = ReqApproved" "\<not> list_all (device_stands db) (grant_devices db (rq_id r))" "rq_tokenid r = Some (tk_id t)"
proof -
  obtain k where k: "rq_tokenid r = Some k" "sel (\<lambda>t. tk_id t = k) (tokens db) = Some t"
    using r(3) by (auto simp: token_of_def split: option.splits)
  then show "rq_tokenid r = Some (tk_id t)" using sel_Some [OF k(2)] by simp
  show st: "rq_status r = ReqApproved" using tokenid_row [OF ok(2) r(1)] k(1) by simp
  have "tk_revoked t = None" "\<not> (case tk_expires t of None \<Rightarrow> True | Some e \<Rightarrow> e \<le> now)"
    using later token_for_same ok r(1) st k sel_Some [OF k(2)]
  proof -
    show "tk_revoked t = None" using later(2) by (simp add: token_live_def)
    have "grant_ok db r" using ok(2) r(1) st by (simp add: requests_ok_def)
    then obtain u where u: "u \<in> set (tokens db)" "token_for r u" by (auto simp: grant_ok_def)
    then have "u = t" using sel_Some [OF k(2)] k(1) ok(1) by (auto simp: token_for_def token_ok_def distinct_map inj_on_def)
    then have "tk_expires t \<noteq> None" using u(2) by (auto simp: token_for_def)
    then show "\<not> (case tk_expires t of None \<Rightarrow> True | Some e \<Rightarrow> e \<le> now)" using later by (auto simp: token_live_def)
  qed
  then show "\<not> list_all (device_stands db) (grant_devices db (rq_id r))"
    using r(2,3) st by (simp add: cleanable_def)
qed

text \<open>
  What a batch leaves: \<open>rows\<close> go with their grants, jobs and tokens; everything
  \<open>ResolveAccess\<close> reads beside them is the same.
\<close>

definition batch_ids :: "gotime \<Rightarrow> gotime \<Rightarrow> (string \<Rightarrow> bool) \<Rightarrow> database \<Rightarrow> string set" where
  "batch_ids now cutoff locked db = rq_id ` set (cleanup_rows now cutoff locked db)"

definition batch_tokens :: "gotime \<Rightarrow> gotime \<Rightarrow> (string \<Rightarrow> bool) \<Rightarrow> database \<Rightarrow> nat set" where
  "batch_tokens now cutoff locked db = {tk_id t | t r. r \<in> set (cleanup_rows now cutoff locked db) \<and> token_of db r = Some t}"

definition batch_of :: "gotime \<Rightarrow> gotime \<Rightarrow> (string \<Rightarrow> bool) \<Rightarrow> database \<Rightarrow> database \<Rightarrow> bool" where
  "batch_of now cutoff locked db d \<longleftrightarrow>
     drequests d = DeleteFunc (\<lambda>r. rq_id r \<in> batch_ids now cutoff locked db) (drequests db)
   \<and> gdevices d = DeleteFunc (\<lambda>g. gd_grant g \<in> batch_ids now cutoff locked db) (gdevices db)
   \<and> tokens d = DeleteFunc (\<lambda>t. tk_id t \<in> batch_tokens now cutoff locked db \<and> tk_kind t = ''delegated'') (tokens db)
   \<and> scopeds d = scopeds db \<and> devices d = devices db \<and> users d = users db"

lemma batch_shape: "batch_of now cutoff locked db (snd (cleanupDelegationBatch now cutoff locked db))"
proof -
  have "set (concat (map (\<lambda>r. case token_of db r of None \<Rightarrow> [] | Some t \<Rightarrow> [tk_id t]) (cleanup_rows now cutoff locked db)))
      = batch_tokens now cutoff locked db"
    by (auto simp: batch_tokens_def split: option.splits dest: sym)
  then show ?thesis
    by (cases "cleanup_rows now cutoff locked db = []")
      (simp_all add: batch_of_def cleanupDelegationBatch_def Let_def batch_ids_def batch_tokens_def DeleteFunc_def)
qed

lemma batch_same:
  assumes "batch_of now cutoff locked db d"
  shows "namespaceEnabled d = namespaceEnabled db" "device_stands d = device_stands db" "is_scoped d = is_scoped db"
    "resolveScoped d = resolveScoped db"
proof -
  have same: "scopeds d = scopeds db" "devices d = devices db" "users d = users db" using assms by (simp_all add: batch_of_def)
  show "namespaceEnabled d = namespaceEnabled db" "is_scoped d = is_scoped db"
    by (simp_all add: namespaceEnabled_def is_scoped_def same fun_eq_iff)
  show st: "device_stands d = device_stands db" by (simp add: device_stands_def same fun_eq_iff)
  show "resolveScoped d = resolveScoped db" by (simp add: resolveScoped_def same st fun_eq_iff)
qed

lemma token_unique:
  "token_ok db \<Longrightarrow> t \<in> set (tokens db) \<Longrightarrow> u \<in> set (tokens db) \<Longrightarrow> tk_hash u = tk_hash t \<or> tk_id u = tk_id t \<Longrightarrow> u = t"
  by (auto simp: token_ok_def distinct_map inj_on_def)

lemma request_unique: "requests_ok t0 db \<Longrightarrow> r \<in> set (drequests db) \<Longrightarrow> q \<in> set (drequests db) \<Longrightarrow> rq_id q = rq_id r \<Longrightarrow> q = r"
  by (auto simp: requests_ok_def distinct_map inj_on_def)

lemma sel_request: "requests_ok t0 db \<Longrightarrow> r \<in> set (drequests db) \<Longrightarrow> sel (\<lambda>q. rq_id q = rq_id r) (drequests db) = Some r"
  by (rule sel_unique [OF _ _ refl]) (simp_all add: requests_ok_def)

text \<open>A credential whose token goes gave nothing.\<close>

lemma deleted_gave_nothing:
  assumes ok: "token_ok db" "requests_ok t0 db" "scoped_ok db" and later: "now \<le> later"
    and t: "t \<in> set (tokens db)" "tk_hash t = HashToken raw" "token_live later t" "tk_kind t = ''delegated''"
      "tk_id t \<in> batch_tokens now cutoff locked db"
    and sel: "sel (\<lambda>t. tk_hash t = HashToken raw \<and> token_live later t \<and> namespaceEnabled db (tk_ns t)) (tokens db) = Some t"
  shows "PGResolveAccess later db raw = None"
proof -
  obtain r u where r: "r \<in> set (cleanup_rows now cutoff locked db)" "token_of db r = Some u" "tk_id u = tk_id t"
    using t(5) by (auto simp: batch_tokens_def)
  have "u \<in> set (tokens db)" using r(2) sel_Some by (fastforce simp: token_of_def split: option.splits)
  then have tr: "token_of db r = Some t" using token_unique [OF ok(1) t(1)] r(2,3) by simp
  note row = rows_of_batch [OF r(1)]
  note bad = cleaned_gives_nothing [OF ok(1,2) row [THEN conjunct1] row [THEN conjunct2] tr later t(3)]
  have rr: "r \<in> set (drequests db)" using row by simp
  have "\<not> is_scoped db t" using ok(3) bad(3) rr by (auto simp: is_scoped_def scoped_ok_def)
  moreover have "sel (\<lambda>r. rq_tokenid r = Some (tk_id t)) (drequests db) = Some r"
  proof (cases "sel (\<lambda>r. rq_tokenid r = Some (tk_id t)) (drequests db)")
    case None
    then show ?thesis using rr bad(3) by (auto simp: sel_None)
  next
    case (Some q)
    have "rq_id q = rq_id r" using sel_Some [OF Some] rr bad(3) ok(2) unfolding requests_ok_def by (metis option.distinct(1))
    then show ?thesis using sel_Some [OF Some] request_unique [OF ok(2) rr] Some by blast
  qed
  moreover have "view_status later db r = VRevoked" using bad tr by (simp add: view_status_def)
  ultimately show ?thesis using t(4) sel_request [OF ok(2) rr] sel
    by (simp add: PGResolveAccess_def Let_def GetDelegation_def readDelegation_def split: option.split)
qed

text \<open>A credential whose token stays finds its grant as it was.\<close>

lemma kept_grant_reads_same:
  assumes ok: "token_ok db" "requests_ok t0 db" and b: "batch_of now cutoff locked db d"
    and t: "t \<in> set (tokens db)" "tk_kind t = ''delegated''" "tk_id t \<notin> batch_tokens now cutoff locked db"
    and i: "i = (case sel (\<lambda>r. rq_tokenid r = Some (tk_id t)) (drequests db) of None \<Rightarrow> [] | Some r \<Rightarrow> rq_id r)"
  shows "sel (\<lambda>r. rq_tokenid r = Some (tk_id t)) (drequests d) = sel (\<lambda>r. rq_tokenid r = Some (tk_id t)) (drequests db)"
    "GetDelegation later d i = GetDelegation later db i"
proof -
  let ?ids = "batch_ids now cutoff locked db"
  have dr: "drequests d = DeleteFunc (\<lambda>r. rq_id r \<in> ?ids) (drequests db)"
    and gd: "gdevices d = DeleteFunc (\<lambda>g. gd_grant g \<in> ?ids) (gdevices db)"
    and tk: "tokens d = DeleteFunc (\<lambda>t. tk_id t \<in> batch_tokens now cutoff locked db \<and> tk_kind t = ''delegated'') (tokens db)"
    using b by (simp_all add: batch_of_def)
  have keep: "rq_id r \<notin> ?ids" if "r \<in> set (drequests db)" "rq_tokenid r = Some (tk_id t)" for r
  proof
    assume "rq_id r \<in> ?ids"
    then obtain q where q: "q \<in> set (cleanup_rows now cutoff locked db)" "rq_id q = rq_id r" by (auto simp: batch_ids_def)
    then have "q = r" using rows_of_batch [OF q(1)] request_unique [OF ok(2) that(1)] by blast
    moreover have "token_of db r = Some t" using that(2) sel_unique [of tk_id "tokens db" t] t(1) ok(1)
      by (simp add: token_of_def token_ok_def)
    ultimately show False using q(1) t(3) by (auto simp: batch_tokens_def)
  qed
  show "sel (\<lambda>r. rq_tokenid r = Some (tk_id t)) (drequests d) = sel (\<lambda>r. rq_tokenid r = Some (tk_id t)) (drequests db)"
    unfolding dr by (rule sel_DeleteFunc) (use keep in blast)
  show "GetDelegation later d i = GetDelegation later db i"
  proof (cases "sel (\<lambda>r. rq_tokenid r = Some (tk_id t)) (drequests db)")
    case None
    have "rq_id r \<noteq> []" if "r \<in> set (drequests db)" for r
      using ok(2) that by (auto simp: requests_ok_def row_ok_def validDelegationID_def)
    then have n: "sel (\<lambda>r. rq_id r = []) (drequests db) = None" by (simp add: sel_None)
    then have "sel (\<lambda>r. rq_id r = []) (drequests d) = None" by (simp add: sel_None dr)
    then show ?thesis using i None n by (simp add: GetDelegation_def readDelegation_def)
  next
    case (Some r)
    have r: "r \<in> set (drequests db)" "rq_tokenid r = Some (tk_id t)" using sel_Some [OF Some] by simp_all
    have ri: "rq_id r \<notin> ?ids" using keep [OF r] .
    note s1 = sel_request [OF ok(2) r(1)]
    have "sel (\<lambda>q. rq_id q = rq_id r) (drequests d) = sel (\<lambda>q. rq_id q = rq_id r) (drequests db)"
      unfolding dr by (rule sel_DeleteFunc) (use ri in metis)
    then have s2: "sel (\<lambda>q. rq_id q = rq_id r) (drequests d) = Some r" using s1 by simp
    have "sel (\<lambda>u. tk_id u = tk_id t) (tokens d) = sel (\<lambda>u. tk_id u = tk_id t) (tokens db)"
      unfolding tk by (rule sel_DeleteFunc) (use t(3) in metis)
    then have tok: "token_of d r = token_of db r" using r(2) by (simp add: token_of_def)
    have gds: "grant_devices d (rq_id r) = grant_devices db (rq_id r)"
      unfolding grant_devices_def gd DeleteFunc_def filter_filter
      by (rule arg_cong [of _ _ "map gd_dev"], rule filter_cong [OF refl]) (use ri in metis)
    have "view_status later d r = view_status later db r" by (simp only: view_status_def tok gds batch_same [OF b])
    then show ?thesis using i Some s1 s2 tok gds by (simp add: GetDelegation_def readDelegation_def)
  qed
qed

text \<open>
  C23. The clean-up takes no access away. At any time from a batch on, every credential
  resolves, by either door, exactly as it would have resolved had the batch not run: what is
  deleted gave nothing any more.
\<close>

theorem cleanup_keeps_access:
  assumes reach: "db_reachable x (t0, db)" and later: "now \<le> later"
  shows "PGResolveAccess later (snd (cleanupDelegationBatch now cutoff locked db)) raw = PGResolveAccess later db raw
     \<and> Resolve later (snd (cleanupDelegationBatch now cutoff locked db)) raw = Resolve later db raw"
proof -
  note ok = db_reachable_parts [OF reach]
  define d where "d = snd (cleanupDelegationBatch now cutoff locked db)"
  have b: "batch_of now cutoff locked db d" unfolding d_def by (rule batch_shape)
  note same = batch_same [OF b]
  have tk: "tokens d = DeleteFunc (\<lambda>t. tk_id t \<in> batch_tokens now cutoff locked db \<and> tk_kind t = ''delegated'') (tokens db)"
    using b by (simp add: batch_of_def)
  have res: "Resolve later d raw = Resolve later db raw"
    unfolding Resolve_def tk same by (subst sel_DeleteFunc) auto
  let ?P = "\<lambda>t. tk_hash t = HashToken raw \<and> token_live later t \<and> namespaceEnabled db (tk_ns t)"
  have "PGResolveAccess later d raw = PGResolveAccess later db raw"
  proof (cases "sel ?P (tokens db)")
    case None
    then have "sel ?P (tokens d) = None" by (simp add: sel_None tk)
    then show ?thesis using None by (simp add: PGResolveAccess_def same)
  next
    case (Some t)
    have t: "t \<in> set (tokens db)" "tk_hash t = HashToken raw" "token_live later t" using sel_Some [OF Some] by simp_all
    have hash: "u = t" if "u \<in> set (tokens db)" "tk_hash u = HashToken raw" for u
      using token_unique [OF ok(3) t(1) that(1)] that(2) t(2) by simp
    show ?thesis
    proof (cases "tk_id t \<in> batch_tokens now cutoff locked db \<and> tk_kind t = ''delegated''")
      case gone: True
      then have "sel ?P (tokens d) = None" using hash by (force simp: sel_None tk)
      then have "PGResolveAccess later d raw = None" by (simp add: PGResolveAccess_def same)
      moreover have "PGResolveAccess later db raw = None"
        by (rule deleted_gave_nothing [OF ok(3,4,5) later t conjunct2 [OF gone] conjunct1 [OF gone] Some])
      ultimately show ?thesis by simp
    next
      case stays: False
      have td: "sel ?P (tokens d) = Some t" unfolding tk Some [symmetric]
        by (rule sel_DeleteFunc) (use stays hash in metis)
      show ?thesis
      proof (cases "is_scoped db t \<or> tk_kind t \<noteq> ''delegated''")
        case True
        then show ?thesis using td Some by (auto simp: PGResolveAccess_def same Let_def)
      next
        case False
        then show ?thesis using td Some kept_grant_reads_same [OF ok(3,4) b t(1) _ _ refl] stays
          by (simp add: PGResolveAccess_def same Let_def)
      qed
    qed
  qed
  then show ?thesis using res unfolding d_def by simp
qed

theorem cleanup_keeps_access_witness:
  "let db = grant_db (HashToken ''wfd_x''); b = cleanupDelegationBatch (26 * Hour) Hour (\<lambda>_. False) db in
     fst b = 1 \<and> drequests (snd b) = [] \<and> PGResolveAccess (27 * Hour) (snd b) ''wfd_x'' = PGResolveAccess (27 * Hour) db ''wfd_x''"
proof -
  let ?h = "HashToken ''wfd_x''"
  have "cleanable (26 * Hour) Hour (grant_db ?h) (approved_request ?h)"
    by (simp add: cleanable_def grant_db_def approved_db_def approved_request_def asked_row_def token_of_def sel_def grant_token_def)
  then have "cleanup_rows (26 * Hour) Hour (\<lambda>_. False) (grant_db ?h) = [approved_request ?h]"
    by (simp add: cleanup_rows_def grant_db_def approved_db_def)
  then have "fst (cleanupDelegationBatch (26 * Hour) Hour (\<lambda>_. False) (grant_db ?h)) = 1"
    "drequests (snd (cleanupDelegationBatch (26 * Hour) Hour (\<lambda>_. False) (grant_db ?h))) = []"
    by (simp_all add: cleanupDelegationBatch_def Let_def DeleteFunc_def grant_db_def approved_db_def)
  then show ?thesis using cleanup_keeps_access [OF grant_reachable(1) [of "''wfd_x''"], of "26 * Hour" "27 * Hour"]
    unfolding Let_def by simp
qed

end
