(* ===== verification/Spec2Isabelle.thy ===== *)
theory Spec2Isabelle
  imports TunnelSample GoPath GoEncoding GoUnicode Access GrantRuns Trust Pairing GateProps
    JobProps EditProps WebPages SessionProps SharingProps WebProps Cleanup
begin

text \<open>
  wanctl lets a person or an AI run commands and move files on devices behind NAT. A
  \<^bold>\<open>relay\<close> in the open joins a \<^bold>\<open>controller\<close> (a command line, an AI's tool server, a portal) to an
  \<^bold>\<open>agent\<close> on the device. The relay decides who may reach which device and carries their
  bytes; the two ends speak TLS through it; the device keeps the last word, in a policy and
  the questions it puts to its owner. This development models the Go code of the relay, of
  the agent and of the tunnel between them.

  \<^bold>\<open>The tunnel\<close> (\<open>src/internal/relay/http.go\<close>, \<open>resident.go\<close>, \<open>src/internal/httpconn\<close>). A
  session has two directions, each a \<open>sideQueue\<close>: numbered posts go in, numbered polls take
  out. \<open>Residency\<close> is the account of bytes in memory, \<open>SideQueue\<close> the queue, one definition for
  each critical section, \<open>HttpConn\<close> the two ends. \<open>Tunnel\<close> puts writer, network, queue and reader
  together: the network may lose, repeat, delay and reorder. \<open>Accounting\<close>, \<open>Draining\<close> and
  \<open>RelayAccount\<close> show that the account is exact in every interleaving and within its
  budgets; \<open>TunnelProof\<close> and \<open>TunnelStream\<close> that the reader gets the bytes written, in order and once.

  \<^bold>\<open>The session registry\<close> (\<open>http.go\<close>, \<open>bridge.go\<close>, \<open>http_disconnect.go\<close>, \<open>disable.go\<close>). \<open>Sessions\<close>
  models the handlers of the HTTP transport (poll, dial, up, down, close, reap, disable) cut at their
  locks: a handler is a list of tasks, and \<open>SessionRuns\<close> lets any number of handlers and timers
  interleave. \<open>SessionInvariant\<close> and \<open>SessionProps\<close> show that no bytes leak, that nothing
  undelivered is retired, and which process holds a device.

  \<^bold>\<open>Access decisions\<close> (\<open>relay.go\<close>, \<open>shared.go\<close>, \<open>delegation_auth.go\<close>, \<open>src/internal/delegation\<close>,
  \<open>sessionauth\<close>, \<open>admission\<close>). \<open>Access\<close> models credentials, the resolution of a target, what a dial is
  allowed, leases and how they end, over a view of the account data (\<open>relay_view\<close>, \<open>token_store\<close>).

  \<^bold>\<open>The account database\<close> (\<open>pgstore.go\<close>, \<open>admin.go\<close>, \<open>access.go\<close>, \<open>friends.go\<close>, \<open>alias.go\<close>,
  \<open>device_id.go\<close>, \<open>disable.go\<close>, \<open>delegation_store.go\<close>, \<open>scoped_store.go\<close>, \<open>delegation_cleanup.go\<close>, \<open>oauth_pg.go\<close>
  and \<open>migrations\<close>). \<open>Database\<close>, \<open>Sharing\<close>, \<open>Delegations\<close> and \<open>OAuthStore\<close> hold the tables as lists of records
  and each method as one transaction: a function of the clock, its arguments and the
  database. What the schema demands (unique keys) and what a statement does when no row
  fits is written out. \<open>db_view\<close> and \<open>PGStore\<close> are what this database answers to \<open>Access\<close>.
  \<open>DatabaseRuns\<close> collects the calls into a step relation, \<open>DatabaseFrames\<close> says what each leaves
  alone, \<open>AccountInvariant\<close>, \<open>DelegationInvariant\<close> and \<open>DatabaseInvariant\<close> prove the invariant of all
  reachable states, and \<open>SharingProps\<close>, \<open>DelegationProps\<close> and \<open>Cleanup\<close> what it means: no dial
  without friendship, no delegation without approval, decisions and revocations that stand.

  \<^bold>\<open>The WebFetch adapter\<close> (\<open>src/internal/webfetch/handler.go\<close>) lets an AI that can only read URLs run
  operations on approved devices. \<open>WebOps\<close> models its operations and the document that identifies
  one (\<open>GoJson\<close>), \<open>WebResults\<close> what a result may carry and how a failure is classified, \<open>WebFetch\<close> tickets,
  rate windows, slots and the phases of a request and of its operation, on the database above.
  \<open>WebRuns\<close> mixes the phases of all requests with each other, with every other writer of the
  database and with restarts; \<open>WebInvariant\<close> and \<open>WebWork\<close> hold its invariants, \<open>WebProps\<close> shows that nothing
  runs twice or without approval, \<open>WebPages\<close> that pages and outcomes say what is so.

  \<^bold>\<open>The device\<close> (\<open>src/internal/agent\<close>, \<open>policy\<close>, \<open>script\<close>, \<open>console\<close>, \<open>transport/trust.go\<close>,
  \<open>server/fileops.go\<close>). \<open>Policy\<close> and \<open>Script\<close> are the permission engine, \<open>Trust\<close> the pinned keys,
  \<open>Pairing\<close> the consent to a new controller, \<open>LateGrants\<close> and \<open>GrantRuns\<close> the approvals that arrive after
  the question timed out, \<open>Gate\<close> and \<open>GateProps\<close> the admission of a session and of each
  request, \<open>Jobs\<close> and \<open>JobProps\<close> the background jobs, \<open>FileEdit\<close>, \<open>LineRange\<close>, \<open>EditProps\<close> and \<open>LineProps\<close> reading
  and editing files.

  \<^bold>\<open>The library.\<close> \<open>Prelude\<close> and \<open>Bags\<close> hold shared lemmas, \<open>GoStrings\<close>, \<open>GoPath\<close>, \<open>GoUnicode\<close> and \<open>GoEncoding\<close>
  what the program uses of Go's library, executable (UTF-8, UTF-16, base64, SHA-256, path
  cleaning). Interfaces are locales: \<open>RunInvariant\<close> is the contract of an invariant of a
  step relation, interpreted by every component that has one, \<open>BoundedStore\<close> that of a bounded list
  with replacement. Each is interpreted on the model's own definitions.

  \<^bold>\<open>Correspondence.\<close> Go's strings are lists of bytes (\<open>string\<close>), times and durations nanoseconds
  as \<open>int\<close>, slices lists, maps association lists or functions, errors the left of a sum,
  a missing result \<open>None\<close>. A mutex makes a definition of what it protects; everything between two
  critical sections may interleave. Definitions keep the names of the code; the
  manifest gives each its lines.

  \<^bold>\<open>Parameters.\<close> Code that is not in the repository is an argument: the UUID parser, the
  database's \<open>lower\<close>, the shell parser of the policy, random numbers, the answers of peers and
  owners, the clock. Nothing is assumed of them beyond what a theorem's hypotheses say.

  \<^bold>\<open>Bounds and fuel.\<close> The loops of the tunnel and of the readers recurse on the data they
  consume; the searches of \<open>FileEdit\<close> have termination proofs by the length of the text. The loop of the
  clean-up is a partial function, and \<open>Cleanup\<close> shows that it returns: each batch but the last
  removes a request older than the cutoff, and nobody else can make one. Polls and waits that need
  another party are steps that are not yet enabled.

  \<^bold>\<open>Not modelled\<close>, and why. TLS, sockets, \<open>net/http\<close> and the SQL driver are the platform. The portal
  and the tool server for AIs (\<open>src/internal/portal\<close>, \<open>src/internal/mcp\<close>) turn requests into the calls modelled
  here and render pages; the command line (\<open>src/*.go\<close>, \<open>src/internal/client\<close>) parses flags, prints and
  drives the same protocol; \<open>desktop\<close>, \<open>adb\<close>, \<open>elevate\<close>, \<open>opencu\<close>, \<open>androidverb\<close>, the services and updates
  drive operating systems; \<open>lark\<close>, \<open>notify\<close>, \<open>contact.go\<close> and \<open>docs.go\<close> send mail, messages and documents.
  The pages and texts of WebFetch (\<open>manifest.go\<close>, \<open>respond\<close>) are output only. The endpoints of the OAuth
  server (\<open>oauth.go\<close>) are not yet modelled, their tables are. The WebSocket transport is a copy loop on the same decisions. Logging is left out everywhere.
\<close>

section \<open>The HTTP tunnel\<close>





text \<open>
  C3. In every reachable state of the relay, with any number of directions and
  requests in any interleaving, the account is exact and no budget is passed: the
  relay holds at most 256 MiB, a namespace at most 64 MiB, a direction at most
  32 MiB, and what a direction that is not freed really holds in memory, with the
  room promised to admitted writes, is what is counted for it.
\<close>

theorem relay_memory_is_bounded:
  assumes "reachable (ds, p)"
  shows "used p = sum_dirs charge ds \<and> used p \<le> maxResidentTotal
    \<and> (\<forall>ns. share_used p ns = sum_dirs (\<lambda>q. charge_ns q ns) ds \<and> share_used p ns \<le> maxResidentPerNamespace)
    \<and> (\<forall>d \<in> set ds. resident (dq d) \<le> maxResidentPerDirection
         \<and> (freed (dq d) \<or> resident (dq d) = int (held_bytes (dq d) (dpoll d)) + sum_list (pend d)))"
proof -
  note o = relay_okD [OF reachable_ok [OF assms]]
  have "resident (dq d) \<le> maxResidentPerDirection
      \<and> (freed (dq d) \<or> resident (dq d) = int (held_bytes (dq d) (dpoll d)) + sum_list (pend d))"
    if "d \<in> set ds" for d
    using o(1,2) [OF that] by (auto simp: dir_ok_def qok_def bounded_def counted_def split: if_splits)
  then show ?thesis using o(3,4,6-9) by simp
qed

theorem relay_memory_is_bounded_witness:
  "used (snd s_relay) = 5 \<and> used (snd s_relay) = sum_dirs charge (fst s_relay)
   \<and> used (snd s_relay) \<le> maxResidentTotal"
  using relay_memory_is_bounded [of "fst s_relay" "snd s_relay"] s_relay_reachable s_relay_state by simp



text \<open>
  Nothing leaks: once every direction of a reachable relay has been freed,
  whatever requests were still in the middle of using it, the relay's account and
  every namespace's share are back at zero.
\<close>

theorem freed_relay_holds_nothing:
  assumes "reachable (ds, p)" and "\<forall>d \<in> set ds. freed (dq d)"
  shows "used p = 0 \<and> share_used p ns = 0 \<and> share_refs p ns = 0"
proof -
  note o = relay_okD [OF reachable_ok [OF assms(1)]]
  have "charge (dq d) = 0 \<and> charge_ns (dq d) ns = 0 \<and> charge_refs (dq d) ns = 0" if "d \<in> set ds" for d
    using assms(2) that by (simp add: charge_def charge_ns_def charge_refs_def)
  then have "sum_dirs charge ds = 0 \<and> sum_dirs (\<lambda>q. charge_ns q ns) ds = 0 \<and> sum_dirs (\<lambda>q. charge_refs q ns) ds = 0"
    unfolding sum_dirs_def by (induction ds) auto
  then show ?thesis using o(3-5) by simp
qed

theorem freed_relay_holds_nothing_witness:
  "used (snd s_relay_freed) = 0 \<and> share_used (snd s_relay_freed) ''acme'' = 0 \<and> share_refs (snd s_relay_freed) ''acme'' = 0"
proof (rule freed_relay_holds_nothing)
  show "reachable (fst s_relay_freed, snd s_relay_freed)" using s_relay_freed(1) by simp
  show "\<forall>d \<in> set (fst s_relay_freed). freed (dq d)"
    using s_relay_freed(2,3) by (cases "fst s_relay_freed") auto
qed

end
